(* ===== verification/Py_Prelude.thy ===== *)
theory Py_Prelude
  imports Complex_Main "HOL-Library.AList" "HOL-Library.Word"
begin

text \<open>
  Shared vocabulary of the development: the exceptions the Python control plane can raise,
  programs that thread a state and may raise (\<open>io\<close>), insertion-ordered dictionaries, list
  indexing as Python has it, and the string operations the sources use. The generic lemmas
  here are declared so that \<open>simp\<close> and \<open>auto\<close> carry the proofs of the components:
  \<open>io_simps\<close> runs programs symbolically, \<open>io_keep\<close> collects the rules that show
  that a program leaves some view of the state alone.
\<close>

named_theorems io_simps "unfolding of the program combinators"
named_theorems io_keep "programs that leave a view of the state unchanged"

section \<open>Exceptions\<close>

text \<open>
  \<open>Diverges\<close> is not an exception of Python: it is the outcome of a loop that has not
  returned after the number of turns the model allows it, and no handler catches it.
\<close>

text \<open>
  The message of a \<open>BpfError\<close>: \<open>OpMsg op what hint\<close> stands for the text
  \<open>op what: strerror hint\<close> that \<open>_raise\<close> formats (the middle part is the operating
  system's name for the error number, which the constructor keeps separately).
\<close>

datatype bpf_msg =
    OpMsg string string string
  | FullMsg string
  | RunawayMsg string

datatype exn =
    BpfError int bpf_msg
  | OSError
  | ValueError
  | StructError
  | OverflowError
  | AssertionError
  | KeyError
  | IndexError
  | ZeroDivisionError
  | TypeError
  | HTTPException
  | Diverges

type_synonym 'a result = "exn + 'a"

fun is_ok :: "'a result \<Rightarrow> bool" where
  "is_ok (Inl _) = False"
| "is_ok (Inr _) = True"

fun result_bind :: "'a result \<Rightarrow> ('a \<Rightarrow> 'b result) \<Rightarrow> 'b result" where
  "result_bind (Inl e) f = Inl e"
| "result_bind (Inr a) f = f a"

fun result_map :: "('a \<Rightarrow> 'b) \<Rightarrow> 'a result \<Rightarrow> 'b result" where
  "result_map f (Inl e) = Inl e"
| "result_map f (Inr a) = Inr (f a)"

text \<open>A list comprehension whose body may raise: the first exception wins.\<close>

fun result_list :: "('a \<Rightarrow> 'b result) \<Rightarrow> 'a list \<Rightarrow> 'b list result" where
  "result_list f [] = Inr []"
| "result_list f (x # xs) =
     result_bind (f x) (\<lambda>y. result_bind (result_list f xs) (\<lambda>ys. Inr (y # ys)))"

lemma result_bind_Inr: "result_bind m f = Inr b \<longleftrightarrow> (\<exists>a. m = Inr a \<and> f a = Inr b)"
  by (cases m) auto

lemma result_bind_Inl:
  "result_bind m f = Inl e \<longleftrightarrow> m = Inl e \<or> (\<exists>a. m = Inr a \<and> f a = Inl e)"
  by (cases m) auto

lemma result_list_map:
  assumes "\<And>x. x \<in> set xs \<Longrightarrow> f x = Inr (g x)"
  shows "result_list f xs = Inr (map g xs)"
  using assms by (induction xs) auto

lemma result_map_Inr: "result_map f r = Inr b \<longleftrightarrow> (\<exists>a. r = Inr a \<and> b = f a)"
  by (cases r) auto

lemma result_list_Inr: "result_list f xs = Inr ys \<longleftrightarrow> list_all2 (\<lambda>x y. f x = Inr y) xs ys"
  by (induction xs arbitrary: ys) (auto simp: result_bind_Inr list_all2_Cons1)

lemma is_ok_Ex: "is_ok r \<Longrightarrow> \<exists>x. r = Inr x"
  by (cases r) simp_all

lemma result_list_total: "(\<And>x. x \<in> set xs \<Longrightarrow> is_ok (f x)) \<Longrightarrow> is_ok (result_list f xs)"
proof (induction xs)
  case (Cons x xs)
  then have "is_ok (f x)" "is_ok (result_list f xs)" by simp_all
  then show ?case by (cases "f x"; cases "result_list f xs") simp_all
qed simp

lemma result_list_length: "result_list f xs = Inr ys \<Longrightarrow> length ys = length xs"
  by (auto simp: result_list_Inr list_all2_lengthD)

section \<open>Programs\<close>

text \<open>
  A program over a state of type \<open>'w\<close> returns a result and the state it leaves behind; an
  exception keeps the state reached when it was raised, as a Python exception does.
\<close>

type_synonym ('w, 'a) io = "'w \<Rightarrow> 'a result \<times> 'w"

definition io_return :: "'a \<Rightarrow> ('w, 'a) io" where
  "io_return a = (\<lambda>w. (Inr a, w))"

definition io_raise :: "exn \<Rightarrow> ('w, 'a) io" where
  "io_raise e = (\<lambda>w. (Inl e, w))"

definition io_of :: "'a result \<Rightarrow> ('w, 'a) io" where
  "io_of r = (\<lambda>w. (r, w))"

definition io_bind :: "('w, 'a) io \<Rightarrow> ('a \<Rightarrow> ('w, 'b) io) \<Rightarrow> ('w, 'b) io" where
  "io_bind m f = (\<lambda>w. case m w of
       (Inl e, w') \<Rightarrow> (Inl e, w')
     | (Inr a, w') \<Rightarrow> f a w')"

definition io_seq :: "('w, 'a) io \<Rightarrow> ('w, 'b) io \<Rightarrow> ('w, 'b) io" where
  "io_seq m k = io_bind m (\<lambda>_. k)"

text \<open>Reading a clock or another input that cannot fail.\<close>

definition io_read :: "('w \<Rightarrow> 'a \<times> 'w) \<Rightarrow> ('w, 'a) io" where
  "io_read f = (\<lambda>w. (Inr (fst (f w)), snd (f w)))"

text \<open>\<open>for x in xs: body(x)\<close>\<close>

fun io_for :: "'a list \<Rightarrow> ('a \<Rightarrow> ('w, unit) io) \<Rightarrow> ('w, unit) io" where
  "io_for [] body = io_return ()"
| "io_for (x # xs) body = io_seq (body x) (io_for xs body)"

text \<open>\<open>[body(x) for x in xs]\<close>\<close>

fun io_list :: "'a list \<Rightarrow> ('a \<Rightarrow> ('w, 'b) io) \<Rightarrow> ('w, 'b list) io" where
  "io_list [] body = io_return []"
| "io_list (x # xs) body =
     io_bind (body x) (\<lambda>y. io_bind (io_list xs body) (\<lambda>ys. io_return (y # ys)))"

text \<open>
  A method of an object runs on the pair of the object's own fields and the outside world.
\<close>

definition io_outer :: "('w, 'a) io \<Rightarrow> ('s \<times> 'w, 'a) io" where
  "io_outer m = (\<lambda>(s, w). case m w of (r, w') \<Rightarrow> (r, (s, w')))"

definition io_self :: "('s \<times> 'w, 's) io" where
  "io_self = (\<lambda>(s, w). (Inr s, (s, w)))"

definition io_modify :: "('s \<Rightarrow> 's) \<Rightarrow> ('s \<times> 'w, unit) io" where
  "io_modify f = (\<lambda>(s, w). (Inr (), (f s, w)))"

lemma io_return_apply [io_simps]: "io_return a w = (Inr a, w)"
  by (simp add: io_return_def)

lemma io_raise_apply [io_simps]: "io_raise e w = (Inl e, w)"
  by (simp add: io_raise_def)

lemma io_of_apply [io_simps]: "io_of r w = (r, w)"
  by (simp add: io_of_def)

lemma io_read_apply [io_simps]: "io_read f w = (Inr (fst (f w)), snd (f w))"
  by (simp add: io_read_def)

lemma io_outer_apply [io_simps]:
  "io_outer m (s, w) = (fst (m w), (s, snd (m w)))"
  by (simp add: io_outer_def split: prod.splits)

lemma io_self_apply [io_simps]: "io_self (s, w) = (Inr s, (s, w))"
  by (simp add: io_self_def)

lemma io_modify_apply [io_simps]: "io_modify f (s, w) = (Inr (), (f s, w))"
  by (simp add: io_modify_def)

lemma io_bind_apply [io_simps]:
  "io_bind m f w = (case fst (m w) of Inl e \<Rightarrow> (Inl e, snd (m w)) | Inr a \<Rightarrow> f a (snd (m w)))"
  by (simp add: io_bind_def split: prod.splits sum.splits)

lemma io_seq_apply [io_simps]:
  "io_seq m k w = (case fst (m w) of Inl e \<Rightarrow> (Inl e, snd (m w)) | Inr _ \<Rightarrow> k (snd (m w)))"
  by (simp add: io_seq_def io_bind_apply)

lemma io_bind_Inr:
  "io_bind m f w = (Inr b, w'') \<longleftrightarrow> (\<exists>a w'. m w = (Inr a, w') \<and> f a w' = (Inr b, w''))"
  by (auto simp: io_bind_def split: prod.splits sum.splits)

lemma io_bind_return [simp]: "io_bind m io_return = m"
  by (auto simp: io_bind_def io_return_def fun_eq_iff split: prod.splits sum.splits)

lemma io_bind_assoc: "io_bind (io_bind m f) g = io_bind m (\<lambda>a. io_bind (f a) g)"
  by (auto simp: io_bind_def fun_eq_iff split: prod.splits sum.splits)

subsection \<open>Programs that keep a view of the state\<close>

definition io_keeps :: "('w \<Rightarrow> 'v) \<Rightarrow> ('w, 'a) io \<Rightarrow> bool" where
  "io_keeps v m \<longleftrightarrow> (\<forall>w. v (snd (m w)) = v w)"

lemma io_keepsI: "(\<And>w. v (snd (m w)) = v w) \<Longrightarrow> io_keeps v m"
  by (simp add: io_keeps_def)

lemma io_keepsD: "io_keeps v m \<Longrightarrow> v (snd (m w)) = v w"
  by (simp add: io_keeps_def)

lemma io_keeps_run: "io_keeps v m \<Longrightarrow> m w = (r, w') \<Longrightarrow> v w' = v w"
  using io_keepsD [of v m w] by simp

lemma io_keeps_basic [io_keep, intro]:
  "io_keeps v (io_return a)" "io_keeps v (io_raise e)" "io_keeps v (io_of r)"
  by (auto simp: io_keeps_def io_simps)

lemma io_keeps_bind [io_keep, intro]:
  "io_keeps v m \<Longrightarrow> (\<And>a. io_keeps v (f a)) \<Longrightarrow> io_keeps v (io_bind m f)"
  by (auto simp: io_keeps_def io_bind_apply split: sum.splits)

lemma io_keeps_seq [io_keep, intro]:
  "io_keeps v m \<Longrightarrow> io_keeps v k \<Longrightarrow> io_keeps v (io_seq m k)"
  unfolding io_seq_def by (rule io_keeps_bind)

lemma io_keeps_for [io_keep, intro]:
  "(\<And>x. io_keeps v (body x)) \<Longrightarrow> io_keeps v (io_for xs body)"
  by (induction xs) (auto intro: io_keeps_seq)

lemma io_keeps_list [io_keep, intro]:
  "(\<And>x. io_keeps v (body x)) \<Longrightarrow> io_keeps v (io_list xs body)"
  by (induction xs) (auto intro!: io_keeps_bind)

lemma io_keeps_if [io_keep, intro]:
  "io_keeps v m \<Longrightarrow> io_keeps v n \<Longrightarrow> io_keeps v (if b then m else n)"
  by simp

lemma io_keeps_outer [io_keep]:
  "io_keeps v m \<Longrightarrow> io_keeps (\<lambda>(s, w). v w) (io_outer m)"
  by (auto simp: io_keeps_def io_outer_apply)

lemma io_keeps_self_modify [io_keep]:
  "io_keeps (\<lambda>(s, w). v w) io_self" "io_keeps (\<lambda>(s, w). v w) (io_modify f)"
  by (auto simp: io_keeps_def io_simps)

subsection \<open>Programs whose every run is a step of a relation\<close>

text \<open>
  \<open>io_steps R m\<close>: whatever \<open>m\<close> returns or raises, it takes the state along \<open>R\<close>. For a
  preorder the rules compose such programs.
\<close>

definition io_steps :: "('w \<Rightarrow> 'w \<Rightarrow> bool) \<Rightarrow> ('w, 'a) io \<Rightarrow> bool" where
  "io_steps R m \<longleftrightarrow> (\<forall>w. R w (snd (m w)))"

definition preorder_on_states :: "('w \<Rightarrow> 'w \<Rightarrow> bool) \<Rightarrow> bool" where
  "preorder_on_states R \<longleftrightarrow> (\<forall>w. R w w) \<and> (\<forall>u v w. R u v \<longrightarrow> R v w \<longrightarrow> R u w)"

lemma io_stepsI: "(\<And>w r w'. m w = (r, w') \<Longrightarrow> R w w') \<Longrightarrow> io_steps R m"
  unfolding io_steps_def by (metis prod.collapse)

lemma io_stepsD: "io_steps R m \<Longrightarrow> m w = (r, w') \<Longrightarrow> R w w'"
  unfolding io_steps_def by (metis snd_conv)

lemma io_steps_basic:
  assumes "preorder_on_states R"
  shows "io_steps R (io_return a)" "io_steps R (io_raise e)" "io_steps R (io_of r)"
  using assms by (auto simp: io_steps_def preorder_on_states_def io_simps)

lemma io_steps_bind:
  assumes "preorder_on_states R" "io_steps R m" "\<And>a. io_steps R (f a)"
  shows "io_steps R (io_bind m f)"
proof (rule io_stepsI)
  fix w r w'
  assume run: "io_bind m f w = (r, w')"
  obtain r1 w1 where m: "m w = (r1, w1)" by fastforce
  then have 1: "R w w1" using assms(2) by (rule io_stepsD [rotated])
  show "R w w'"
  proof (cases r1)
    case (Inl e)
    with run m 1 show ?thesis by (simp add: io_bind_apply)
  next
    case (Inr a)
    with run m have "f a w1 = (r, w')" by (simp add: io_bind_apply)
    then have "R w1 w'" by (rule io_stepsD [OF assms(3)])
    with 1 assms(1) show ?thesis unfolding preorder_on_states_def by blast
  qed
qed

lemma io_steps_seq:
  "preorder_on_states R \<Longrightarrow> io_steps R m \<Longrightarrow> io_steps R k \<Longrightarrow> io_steps R (io_seq m k)"
  unfolding io_seq_def by (rule io_steps_bind)

lemma io_steps_if: "(b \<Longrightarrow> io_steps R m) \<Longrightarrow> (\<not> b \<Longrightarrow> io_steps R n) \<Longrightarrow> io_steps R (if b then m else n)"
  by simp

lemma io_steps_for:
  "preorder_on_states R \<Longrightarrow> (\<And>x. x \<in> set xs \<Longrightarrow> io_steps R (body x)) \<Longrightarrow> io_steps R (io_for xs body)"
  by (induction xs) (auto intro: io_steps_basic io_steps_seq)

lemma io_steps_list:
  "preorder_on_states R \<Longrightarrow> (\<And>x. io_steps R (body x)) \<Longrightarrow> io_steps R (io_list xs body)"
  by (induction xs) (auto intro!: io_steps_basic io_steps_bind)

text \<open>On the world behind an object's own fields.\<close>

definition outer_rel :: "('w \<Rightarrow> 'w \<Rightarrow> bool) \<Rightarrow> 's \<times> 'w \<Rightarrow> 's \<times> 'w \<Rightarrow> bool" where
  "outer_rel R x y \<longleftrightarrow> R (snd x) (snd y)"

lemma outer_preorder: "preorder_on_states R \<Longrightarrow> preorder_on_states (outer_rel R)"
  unfolding preorder_on_states_def outer_rel_def by blast

lemma io_steps_outer: "io_steps R m \<Longrightarrow> io_steps (outer_rel R) (io_outer m)"
  by (auto simp: io_steps_def outer_rel_def io_outer_apply)

lemma io_steps_self:
  "preorder_on_states R \<Longrightarrow> io_steps (outer_rel R) io_self"
  "preorder_on_states R \<Longrightarrow> io_steps (outer_rel R) (io_modify f)"
  by (auto simp: io_steps_def outer_rel_def io_simps preorder_on_states_def)

section \<open>Dictionaries\<close>

text \<open>
  A Python dictionary keeps its insertion order, and the loops over \<open>items()\<close> depend on
  it: an association list with distinct keys, where storing under an existing key keeps the
  key's place and a new key goes to the end.
\<close>

type_synonym ('k, 'v) dict = "('k \<times> 'v) list"

abbreviation dict_ok :: "('k, 'v) dict \<Rightarrow> bool" where
  "dict_ok d \<equiv> distinct (map fst d)"

definition dict_set :: "'k \<Rightarrow> 'v \<Rightarrow> ('k, 'v) dict \<Rightarrow> ('k, 'v) dict" where
  "dict_set k v d = AList.update k v d"

definition dict_del :: "'k \<Rightarrow> ('k, 'v) dict \<Rightarrow> ('k, 'v) dict" where
  "dict_del k d = AList.delete k d"

text \<open>\<open>d.get(k, default)\<close>\<close>

definition dict_get :: "('k, 'v) dict \<Rightarrow> 'k \<Rightarrow> 'v \<Rightarrow> 'v" where
  "dict_get d k dflt = (case map_of d k of None \<Rightarrow> dflt | Some v \<Rightarrow> v)"

text \<open>\<open>d[k]\<close>\<close>

definition dict_index :: "('k, 'v) dict \<Rightarrow> 'k \<Rightarrow> 'v result" where
  "dict_index d k = (case map_of d k of None \<Rightarrow> Inl KeyError | Some v \<Rightarrow> Inr v)"

lemma map_of_dict_set [simp]: "map_of (dict_set k v d) = (map_of d)(k \<mapsto> v)"
  by (simp add: dict_set_def update_conv')

lemma map_of_dict_del [simp]: "map_of (dict_del k d) = (map_of d)(k := None)"
  by (simp add: dict_del_def delete_conv')

lemma dict_ok_set [simp]: "dict_ok d \<Longrightarrow> dict_ok (dict_set k v d)"
  by (simp add: dict_set_def distinct_update)

lemma dict_ok_del [simp]: "dict_ok d \<Longrightarrow> dict_ok (dict_del k d)"
  by (simp add: dict_del_def distinct_delete)

lemma keys_dict_set [simp]: "fst ` set (dict_set k v d) = insert k (fst ` set d)"
  by (simp add: dict_set_def dom_update)

lemma keys_dict_del [simp]: "fst ` set (dict_del k d) = fst ` set d - {k}"
  by (simp only: dict_del_def set_map [symmetric] delete_keys set_removeAll)

lemma dict_get_set [simp]:
  "dict_get (dict_set k v d) k' dflt = (if k' = k then v else dict_get d k' dflt)"
  by (simp add: dict_get_def)

lemma dict_get_del [simp]:
  "dict_get (dict_del k d) k' dflt = (if k' = k then dflt else dict_get d k' dflt)"
  by (simp add: dict_get_def)

lemma dict_get_Nil [simp]: "dict_get [] k dflt = dflt"
  by (simp add: dict_get_def)

lemma dict_get_Cons: "dict_get ((a, v) # d) k dflt = (if k = a then v else dict_get d k dflt)"
  by (simp add: dict_get_def)

section \<open>Lists\<close>

text \<open>\<open>xs[i]\<close>: a negative index counts from the end, anything else out of range raises.\<close>

definition py_index :: "'a list \<Rightarrow> int \<Rightarrow> 'a result" where
  "py_index xs i =
     (if i < 0 \<and> - int (length xs) \<le> i then Inr (xs ! (length xs - nat (- i)))
      else if 0 \<le> i \<and> nat i < length xs then Inr (xs ! nat i)
      else Inl IndexError)"

definition py_enumerate :: "'a list \<Rightarrow> (int \<times> 'a) list" where
  "py_enumerate xs = zip (map int [0..<length xs]) xs"

text \<open>\<open>max(xs)\<close> raises on an empty iterable.\<close>

fun py_max :: "'a::linorder list \<Rightarrow> 'a result" where
  "py_max [] = Inl ValueError"
| "py_max (x # xs) = Inr (fold max xs x)"

lemma py_index_nonneg:
  "0 \<le> i \<Longrightarrow> i < int (length xs) \<Longrightarrow> py_index xs i = Inr (xs ! nat i)"
  by (auto simp: py_index_def)

lemma py_index_mem: "py_index xs i = Inr x \<Longrightarrow> x \<in> set xs"
  by (auto simp: py_index_def split: if_splits)

lemma fold_max_Max: "fold max xs x = Max (set (x # xs))"
  by (simp only: Max.set_eq_fold)

lemma py_max_Inr: "xs \<noteq> [] \<Longrightarrow> py_max xs = Inr (Max (set xs))"
  by (cases xs) (simp_all add: fold_max_Max)

text \<open>\<open>deque(maxlen=n).append(x)\<close> drops from the left.\<close>

definition deque_append :: "nat \<Rightarrow> 'a list \<Rightarrow> 'a \<Rightarrow> 'a list" where
  "deque_append n xs x = (let ys = xs @ [x] in drop (length ys - n) ys)"

lemma length_deque_append: "length xs \<le> n \<Longrightarrow> length (deque_append n xs x) \<le> n"
  by (simp add: deque_append_def Let_def)

lemma last_deque_append: "0 < n \<Longrightarrow> last (deque_append n xs x) = x"
  by (simp add: deque_append_def Let_def)

section \<open>Numbers as text\<close>

fun digits_of_nat :: "nat \<Rightarrow> string" where
  "digits_of_nat n =
     (if n < 10 then [char_of (48 + n)]
      else digits_of_nat (n div 10) @ [char_of (48 + n mod 10)])"

declare digits_of_nat.simps [simp del]

definition py_str_int :: "int \<Rightarrow> string" where
  "py_str_int i = (if i < 0 then CHR ''-'' # digits_of_nat (nat (- i)) else digits_of_nat (nat i))"

text \<open>The value a string of decimal digits denotes.\<close>

definition digit_value :: "char \<Rightarrow> nat" where
  "digit_value c = of_char c - 48"

definition is_ascii_digit :: "char \<Rightarrow> bool" where
  "is_ascii_digit c \<longleftrightarrow> 48 \<le> (of_char c :: nat) \<and> (of_char c :: nat) \<le> 57"

definition nat_of_digits :: "string \<Rightarrow> nat" where
  "nat_of_digits s = foldl (\<lambda>n c. 10 * n + digit_value c) 0 s"

lemma nat_of_digits_snoc [simp]:
  "nat_of_digits (s @ [c]) = 10 * nat_of_digits s + digit_value c"
  by (simp add: nat_of_digits_def)

lemma nat_of_digits_Nil [simp]: "nat_of_digits [] = 0"
  by (simp add: nat_of_digits_def)

lemma digit_char [simp]:
  "d < 10 \<Longrightarrow> digit_value (char_of (48 + d)) = d"
  "d < 10 \<Longrightarrow> is_ascii_digit (char_of (48 + d))"
  by (simp_all add: digit_value_def is_ascii_digit_def of_char_of)

lemma nat_of_digits_of_nat [simp]: "nat_of_digits (digits_of_nat n) = n"
proof (induction n rule: digits_of_nat.induct)
  case (1 n)
  show ?case
  proof (cases "n < 10")
    case True
    then show ?thesis
      using nat_of_digits_snoc [of "[]" "char_of (48 + n)"] by (simp add: digits_of_nat.simps)
  next
    case False
    with 1 show ?thesis by (simp add: digits_of_nat.simps [of n])
  qed
qed

lemma digits_of_nat_digits: "c \<in> set (digits_of_nat n) \<Longrightarrow> is_ascii_digit c"
proof (induction n rule: digits_of_nat.induct)
  case (1 n)
  then show ?case by (cases "n < 10") (auto simp: digits_of_nat.simps [of n])
qed

lemma digits_of_nat_not_Nil [simp]: "digits_of_nat n \<noteq> []"
  by (subst digits_of_nat.simps) simp

end
