(* ===== verification/Py_Struct.thy ===== *)
theory Py_Struct
  imports Py_Prelude
begin

text \<open>
  The part of Python's \<open>struct\<close> module the control plane uses: little-endian formats
  without alignment made of unsigned integers, fixed byte strings and pad bytes. Packing
  checks the range of every integer and raises \<open>struct.error\<close> otherwise; unpacking wants a
  buffer of exactly the format's size. The lemmas give the sizes and the two round trips.
\<close>

type_synonym byte = "8 word"
type_synonym bytes = "byte list"

section \<open>Integers as bytes\<close>

fun le_bytes :: "nat \<Rightarrow> int \<Rightarrow> bytes" where
  "le_bytes 0 v = []"
| "le_bytes (Suc n) v = word_of_int v # le_bytes n (v div 256)"

fun le_int :: "bytes \<Rightarrow> int" where
  "le_int [] = 0"
| "le_int (b # bs) = uint b + 256 * le_int bs"

lemma length_le_bytes [simp]: "length (le_bytes n v) = n"
  by (induction n arbitrary: v) auto

lemma uint_byte: "uint (word_of_int v :: byte) = v mod 256"
  by (simp add: uint_word_of_int)

lemma uint_byte_range: "0 \<le> uint (b :: byte)" "uint (b :: byte) < 256"
  using uint_lt2p [of b] by simp_all

lemma le_int_le_bytes: "0 \<le> v \<Longrightarrow> v < 256 ^ n \<Longrightarrow> le_int (le_bytes n v) = v"
proof (induction n arbitrary: v)
  case (Suc n)
  have "v div 256 < 256 ^ n" using Suc.prems by (simp add: div_less_iff_less_mult mult.commute)
  with Suc.prems Suc.IH [of "v div 256"] show ?case by (simp add: uint_byte)
qed simp

lemma le_int_range: "0 \<le> le_int bs" "le_int bs < 256 ^ length bs"
proof (induction bs)
  case (Cons b bs)
  { case 1 show ?case using Cons uint_byte_range [of b] by simp }
  { case 2
    have "le_int bs + 1 \<le> 256 ^ length bs" using Cons by simp
    then show ?case using uint_byte_range [of b] by simp }
qed simp_all

lemma le_bytes_le_int: "length bs = n \<Longrightarrow> le_bytes n (le_int bs) = bs"
proof (induction n arbitrary: bs)
  case (Suc n)
  then obtain b bs' where bs: "bs = b # bs'" "length bs' = n" by (cases bs) auto
  have d: "(uint b + 256 * le_int bs') div 256 = le_int bs'"
    using uint_byte_range [of b] by simp
  have z: "(256 :: byte) = 0" by simp
  have "(word_of_int (uint b + 256 * le_int bs') :: byte) = b"
    by (simp add: z)
  with d Suc.IH [OF bs(2)] show ?case by (simp add: bs)
qed simp

lemma le_bytes_inj:
  "0 \<le> v \<Longrightarrow> v < 256 ^ n \<Longrightarrow> 0 \<le> v' \<Longrightarrow> v' < 256 ^ n \<Longrightarrow> le_bytes n v = le_bytes n v' \<longleftrightarrow> v = v'"
  using le_int_le_bytes by metis

section \<open>Formats\<close>

datatype fmt = U8 | U16 | U32 | U64 | Raw nat | Pad nat

datatype pyval = VInt int | VBytes bytes

fun fmt_size :: "fmt \<Rightarrow> nat" where
  "fmt_size U8 = 1"
| "fmt_size U16 = 2"
| "fmt_size U32 = 4"
| "fmt_size U64 = 8"
| "fmt_size (Raw n) = n"
| "fmt_size (Pad n) = n"

definition calcsize :: "fmt list \<Rightarrow> nat" where
  "calcsize fs = sum_list (map fmt_size fs)"

definition is_int_fmt :: "fmt \<Rightarrow> bool" where
  "is_int_fmt f \<longleftrightarrow> f = U8 \<or> f = U16 \<or> f = U32 \<or> f = U64"

definition pack_int :: "nat \<Rightarrow> int \<Rightarrow> bytes result" where
  "pack_int n v = (if 0 \<le> v \<and> v < 256 ^ n then Inr (le_bytes n v) else Inl StructError)"

text \<open>A byte string is cut or padded with zeros to the width of its \<open>s\<close> field.\<close>

definition fit_bytes :: "nat \<Rightarrow> bytes \<Rightarrow> bytes" where
  "fit_bytes n bs = take n (bs @ replicate n 0)"

fun struct_pack :: "fmt list \<Rightarrow> pyval list \<Rightarrow> bytes result" where
  "struct_pack (Pad n # fs) vs = result_map (\<lambda>r. replicate n 0 @ r) (struct_pack fs vs)"
| "struct_pack (Raw n # fs) (VBytes b # vs) = result_map (\<lambda>r. fit_bytes n b @ r) (struct_pack fs vs)"
| "struct_pack (f # fs) (VInt v # vs) =
     (if is_int_fmt f
      then result_bind (pack_int (fmt_size f) v) (\<lambda>b. result_map (\<lambda>r. b @ r) (struct_pack fs vs))
      else Inl StructError)"
| "struct_pack [] [] = Inr []"
| "struct_pack _ _ = Inl StructError"

fun unpack_fields :: "fmt list \<Rightarrow> bytes \<Rightarrow> pyval list" where
  "unpack_fields [] bs = []"
| "unpack_fields (Pad n # fs) bs = unpack_fields fs (drop n bs)"
| "unpack_fields (Raw n # fs) bs = VBytes (take n bs) # unpack_fields fs (drop n bs)"
| "unpack_fields (f # fs) bs =
     VInt (le_int (take (fmt_size f) bs)) # unpack_fields fs (drop (fmt_size f) bs)"

definition struct_unpack :: "fmt list \<Rightarrow> bytes \<Rightarrow> pyval list result" where
  "struct_unpack fs bs =
     (if length bs = calcsize fs then Inr (unpack_fields fs bs) else Inl StructError)"

text \<open>\<open>struct.unpack_from(fmt, buffer, offset)\<close> and \<open>struct.iter_unpack\<close>.\<close>

definition struct_unpack_from :: "fmt list \<Rightarrow> bytes \<Rightarrow> nat \<Rightarrow> pyval list result" where
  "struct_unpack_from fs bs off =
     (if off + calcsize fs \<le> length bs then Inr (unpack_fields fs (drop off bs)) else Inl StructError)"

fun chunks :: "nat \<Rightarrow> nat \<Rightarrow> 'a list \<Rightarrow> 'a list list" where
  "chunks 0 n bs = []"
| "chunks (Suc k) n bs = take n bs # chunks k n (drop n bs)"

definition struct_iter_unpack :: "fmt list \<Rightarrow> bytes \<Rightarrow> pyval list list result" where
  "struct_iter_unpack fs bs =
     (if calcsize fs \<noteq> 0 \<and> length bs mod calcsize fs = 0
      then Inr (map (unpack_fields fs) (chunks (length bs div calcsize fs) (calcsize fs) bs))
      else Inl StructError)"

text \<open>A value a field of the format holds without loss.\<close>

fun val_fits :: "fmt list \<Rightarrow> pyval list \<Rightarrow> bool" where
  "val_fits [] [] = True"
| "val_fits (Pad n # fs) vs = val_fits fs vs"
| "val_fits (Raw n # fs) (VBytes b # vs) = (length b = n \<and> val_fits fs vs)"
| "val_fits (f # fs) (VInt v # vs) =
     (is_int_fmt f \<and> 0 \<le> v \<and> v < 256 ^ fmt_size f \<and> val_fits fs vs)"
| "val_fits _ _ = False"

section \<open>Round trips\<close>

lemma calcsize_simps [simp]:
  "calcsize [] = 0" "calcsize (f # fs) = fmt_size f + calcsize fs"
  by (simp_all add: calcsize_def)

lemma length_fit_bytes [simp]: "length (fit_bytes n b) = n"
  by (simp add: fit_bytes_def)

lemma fit_bytes_exact [simp]: "length b = n \<Longrightarrow> fit_bytes n b = b"
  by (simp add: fit_bytes_def)

lemma struct_pack_length: "struct_pack fs vs = Inr bs \<Longrightarrow> length bs = calcsize fs"
proof (induction fs vs arbitrary: bs rule: struct_pack.induct)
qed (auto simp: pack_int_def result_bind_Inr split: if_splits elim!: result_map.elims)

lemma struct_pack_fits: "val_fits fs vs \<Longrightarrow> \<exists>bs. struct_pack fs vs = Inr bs"
proof (induction fs vs rule: val_fits.induct)
qed (auto simp: pack_int_def is_int_fmt_def)

lemma unpack_pack: "val_fits fs vs \<Longrightarrow> struct_pack fs vs = Inr bs \<Longrightarrow> unpack_fields fs bs = vs"
proof (induction fs vs arbitrary: bs rule: val_fits.induct)
qed (auto simp: pack_int_def is_int_fmt_def result_bind_Inr le_int_le_bytes uint_byte
      split: if_splits elim!: result_map.elims)

lemma struct_unpack_pack:
  "val_fits fs vs \<Longrightarrow> struct_pack fs vs = Inr bs \<Longrightarrow> struct_unpack fs bs = Inr vs"
  by (simp add: struct_unpack_def struct_pack_length unpack_pack)

lemma unpack_fits: "length bs = calcsize fs \<Longrightarrow> val_fits fs (unpack_fields fs bs)"
proof (induction fs bs rule: unpack_fields.induct)
qed (auto simp: is_int_fmt_def le_int_range(1) intro: less_le_trans [OF le_int_range(2)])

lemma length_chunks [simp]: "length (chunks k n bs) = k"
  by (induction k arbitrary: bs) auto

lemma chunks_replicate:
  "length b = n \<Longrightarrow> chunks k n (concat (replicate k b)) = replicate k b"
  by (induction k) auto

lemma chunks_concat:
  "(\<And>x. x \<in> set xs \<Longrightarrow> length x = n) \<Longrightarrow> chunks (length xs) n (concat xs) = xs"
  by (induction xs) auto

end
