(* ===== verification/Py_Text.thy ===== *)
theory Py_Text
  imports Py_Struct
begin

text \<open>
  The operations on text that the control plane takes from Python: \<open>strip\<close>, \<open>split\<close>,
  \<open>partition\<close>, \<open>lower\<close>, \<open>isdigit\<close> and \<open>int\<close>. A string is a list of characters with
  code points up to 255, so the character classes are those of Latin-1: \<open>strip\<close> also
  takes the information separators and the no-break space, \<open>isdigit\<close> also accepts the
  superscripts one, two and three, which \<open>int\<close> then refuses.
\<close>

definition code :: "char \<Rightarrow> nat" where
  "code c = of_char c"

definition is_space :: "char \<Rightarrow> bool" where
  "is_space c \<longleftrightarrow> code c \<in> set [9, 10, 11, 12, 13, 28, 29, 30, 31, 32, 133, 160]"

definition py_strip :: "string \<Rightarrow> string" where
  "py_strip s = rev (dropWhile is_space (rev (dropWhile is_space s)))"

text \<open>\<open>s.split(c)\<close> for a one-character separator: always at least one part.\<close>

fun py_split :: "char \<Rightarrow> string \<Rightarrow> string list" where
  "py_split c [] = [[]]"
| "py_split c (x # xs) =
     (if x = c then [] # py_split c xs
      else case py_split c xs of [] \<Rightarrow> [[x]] | p # ps \<Rightarrow> (x # p) # ps)"

text \<open>\<open>c.join(parts)\<close>.\<close>

fun py_join :: "string \<Rightarrow> string list \<Rightarrow> string" where
  "py_join sep [] = []"
| "py_join sep [p] = p"
| "py_join sep (p # q # ps) = p @ sep @ py_join sep (q # ps)"

text \<open>\<open>s.partition(c)\<close> without the separator: the part before the first \<open>c\<close> and the rest.\<close>

definition py_partition :: "char \<Rightarrow> string \<Rightarrow> string \<times> string" where
  "py_partition c s = (takeWhile (\<lambda>x. x \<noteq> c) s, drop 1 (dropWhile (\<lambda>x. x \<noteq> c) s))"

definition lower_char :: "char \<Rightarrow> char" where
  "lower_char c =
     (if 65 \<le> code c \<and> code c \<le> 90 \<or> 192 \<le> code c \<and> code c \<le> 222 \<and> code c \<noteq> 215
      then char_of (code c + 32) else c)"

definition py_lower :: "string \<Rightarrow> string" where
  "py_lower s = map lower_char s"

definition py_isdigit :: "string \<Rightarrow> bool" where
  "py_isdigit s \<longleftrightarrow> s \<noteq> [] \<and>
     list_all (\<lambda>c. is_ascii_digit c \<or> code c \<in> set [178, 179, 185]) s"

definition py_isascii :: "string \<Rightarrow> bool" where
  "py_isascii s \<longleftrightarrow> list_all (\<lambda>c. code c < 128) s"

text \<open>
  The digits of an integer literal: single underscores may stand between digits, nowhere
  else, and conversion refuses more than 4300 digits.
\<close>

fun drop_underscores :: "string \<Rightarrow> string option" where
  "drop_underscores [] = None"
| "drop_underscores [c] = (if is_ascii_digit c then Some [c] else None)"
| "drop_underscores (c # d # cs) =
     (if \<not> is_ascii_digit c then None
      else map_option (\<lambda>r. c # r)
        (if d = CHR ''_'' then drop_underscores cs else drop_underscores (d # cs)))"

definition py_int_digits :: "string \<Rightarrow> int result" where
  "py_int_digits s =
     (case drop_underscores s of
        None \<Rightarrow> Inl ValueError
      | Some ds \<Rightarrow> if length ds > 4300 then Inl ValueError else Inr (int (nat_of_digits ds)))"

definition py_int_of_str :: "string \<Rightarrow> int result" where
  "py_int_of_str s =
     (case py_strip s of
        [] \<Rightarrow> Inl ValueError
      | c # cs \<Rightarrow>
          if c = CHR ''-'' then result_map uminus (py_int_digits cs)
          else if c = CHR ''+'' then py_int_digits cs
          else py_int_digits (c # cs))"

text \<open>\<open>bin(n).count('1')\<close>\<close>

fun popcount :: "nat \<Rightarrow> nat" where
  "popcount n = (if n = 0 then 0 else n mod 2 + popcount (n div 2))"

declare popcount.simps [simp del]

definition bit_count :: "int \<Rightarrow> int" where
  "bit_count n = int (popcount (nat \<bar>n\<bar>))"

section \<open>Lemmas\<close>

lemma py_split_not_Nil [simp]: "py_split c s \<noteq> []"
  by (cases "(c, s)" rule: py_split.cases) (auto split: list.splits)

lemma py_split_none [simp]: "c \<notin> set s \<Longrightarrow> py_split c s = [s]"
  by (induction s) auto

lemma py_split_append:
  "c \<notin> set s \<Longrightarrow> py_split c (s @ c # t) = s # py_split c t"
  by (induction s) auto

lemma py_split_join:
  "ps \<noteq> [] \<Longrightarrow> (\<And>p. p \<in> set ps \<Longrightarrow> c \<notin> set p) \<Longrightarrow> py_split c (py_join [c] ps) = ps"
  by (induction "[c]" ps rule: py_join.induct) (auto simp: py_split_append)

lemma py_strip_id:
  assumes "\<And>c. c \<in> set s \<Longrightarrow> \<not> is_space c"
  shows "py_strip s = s"
proof -
  have "dropWhile is_space t = t" if "set t \<subseteq> set s" for t
    using assms that by (cases t) auto
  then show ?thesis by (simp add: py_strip_def)
qed

lemma digit_not_space: "is_ascii_digit c \<Longrightarrow> \<not> is_space c"
  by (auto simp: is_ascii_digit_def is_space_def code_def)

lemma digit_isdigit: "s \<noteq> [] \<Longrightarrow> list_all is_ascii_digit s \<Longrightarrow> py_isdigit s"
  by (auto simp: py_isdigit_def list_all_iff)

lemma digits_list_all [simp]: "list_all is_ascii_digit (digits_of_nat n)"
  by (auto simp: list_all_iff dest: digits_of_nat_digits)

lemma digits_isdigit [simp]: "py_isdigit (digits_of_nat n)" "py_isascii (digits_of_nat n)"
  using digits_list_all [of n]
  by (auto simp: digit_isdigit py_isascii_def list_all_iff is_ascii_digit_def code_def)

lemma drop_underscores_digits:
  "s \<noteq> [] \<Longrightarrow> list_all is_ascii_digit s \<Longrightarrow> drop_underscores s = Some s"
proof (induction s rule: drop_underscores.induct)
  case (3 c d cs)
  then show ?case by (auto simp: is_ascii_digit_def)
qed auto

lemma length_digits: "n < 10 ^ k \<Longrightarrow> 0 < k \<Longrightarrow> length (digits_of_nat n) \<le> k"
proof (induction k arbitrary: n)
  case (Suc k)
  show ?case
  proof (cases "n < 10")
    case False
    then have "n div 10 < 10 ^ k" "0 < k" using Suc.prems by (auto intro!: Nat.gr0I simp: div_less_iff_less_mult mult.commute)
    with Suc.IH [of "n div 10"] False show ?thesis by (simp add: digits_of_nat.simps [of n])
  qed (simp add: digits_of_nat.simps [of n])
qed simp

lemma digits_lead: "hd (digits_of_nat n) = CHR ''0'' \<Longrightarrow> n = 0"
proof (induction n rule: digits_of_nat.induct)
  case (1 n)
  show ?case
  proof (cases "n < 10")
    case True
    then have "char_of (48 + n) = CHR ''0''" using 1(2) by (simp add: digits_of_nat.simps [of n])
    then have "of_char (char_of (48 + n)) = (48 :: nat)" by simp
    with True show ?thesis by (simp add: of_char_of)
  next
    case False
    with 1 have "n div 10 = 0" by (simp add: digits_of_nat.simps [of n])
    with False show ?thesis by simp
  qed
qed

lemma digits_zero: "digits_of_nat 0 = ''0''"
  by code_simp

lemma digits_inj: "digits_of_nat m = digits_of_nat n \<longleftrightarrow> m = n"
  by (metis nat_of_digits_of_nat)

lemma digits_special:
  "CHR ''.'' \<notin> set (digits_of_nat n)" "CHR ''/'' \<notin> set (digits_of_nat n)"
  by (auto dest!: digits_of_nat_digits simp: is_ascii_digit_def)

lemma py_int_of_digits:
  assumes "s \<noteq> []" "list_all is_ascii_digit s" "length s \<le> 4300"
  shows "py_int_of_str s = Inr (int (nat_of_digits s))"
proof -
  obtain c cs where s: "s = c # cs" using assms(1) by (cases s) auto
  have "py_strip s = s"
    using assms(2) by (intro py_strip_id) (auto simp: list_all_iff digit_not_space)
  moreover have "c \<noteq> CHR ''-''" "c \<noteq> CHR ''+''"
    using assms(2) s by (auto simp: is_ascii_digit_def)
  ultimately show ?thesis
    using drop_underscores_digits [OF assms(1,2)] assms(3)
    by (simp add: py_int_of_str_def s py_int_digits_def)
qed

end
