(* ===== verification/Py_Ipaddress.thy ===== *)
theory Py_Ipaddress
  imports Py_Text
begin

unbundle bit_operations_syntax

text \<open>
  IPv4 addresses and prefixes as Python's \<open>ipaddress\<close> and \<open>socket\<close> modules have them: the
  strict dotted-quad parser, \<open>IPv4Network(s, strict=False)\<close> with its three ways to write a
  mask, \<open>inet_ntoa\<close> and \<open>inet_aton\<close>. An address is a 32-bit word, its packed form four
  bytes in network order. The lemmas give the round trips between the three forms and what a
  prefix covers.
\<close>

type_synonym ipv4 = "32 word"

record network =
  network_address :: ipv4
  prefixlen :: nat

section \<open>Packed and printed forms\<close>

definition packed :: "ipv4 \<Rightarrow> bytes" where
  "packed a = rev (le_bytes 4 (uint a))"

definition unpacked :: "bytes \<Rightarrow> ipv4" where
  "unpacked bs = word_of_int (le_int (rev bs))"

text \<open>\<open>inet_ntoa\<close> raises on anything but four bytes.\<close>

definition quad :: "bytes \<Rightarrow> string" where
  "quad bs = py_join ''.'' (map (\<lambda>b. digits_of_nat (unat b)) bs)"

definition inet_ntoa :: "bytes \<Rightarrow> string result" where
  "inet_ntoa bs = (if length bs = 4 then Inr (quad bs) else Inl OSError)"

section \<open>Parsing\<close>

definition parse_octet :: "string \<Rightarrow> byte result" where
  "parse_octet s =
     (if s = [] then Inl ValueError
      else if \<not> (py_isascii s \<and> py_isdigit s) then Inl ValueError
      else if length s > 3 then Inl ValueError
      else if s \<noteq> ''0'' \<and> hd s = CHR ''0'' then Inl ValueError
      else if nat_of_digits s > 255 then Inl ValueError
      else Inr (of_nat (nat_of_digits s)))"

definition ip_int_from_string :: "string \<Rightarrow> ipv4 result" where
  "ip_int_from_string s =
     (if s = [] then Inl ValueError
      else let octets = py_split (CHR ''.'') s in
        if length octets \<noteq> 4 then Inl ValueError
        else result_map unpacked (result_list parse_octet octets))"

text \<open>
  \<open>inet_aton\<close> on the dotted quads that \<open>inet_ntoa\<close> prints, the only strings the sources give
  it. (The C library also reads shorter, octal and hexadecimal forms.)
\<close>

definition inet_aton :: "string \<Rightarrow> bytes result" where
  "inet_aton s =
     (case ip_int_from_string s of Inr a \<Rightarrow> Inr (packed a) | Inl _ \<Rightarrow> Inl OSError)"

definition ip_netmask :: "nat \<Rightarrow> ipv4" where
  "ip_netmask p = NOT (drop_bit p (- 1))"

text \<open>A netmask is ones followed by zeros; the number of ones is the prefix length.\<close>

definition count_righthand_zero_bits :: "ipv4 \<Rightarrow> nat" where
  "count_righthand_zero_bits a = length (takeWhile (\<lambda>i. \<not> bit a i) [0..<32])"

definition prefix_from_ip_int :: "ipv4 \<Rightarrow> nat result" where
  "prefix_from_ip_int a =
     (let tz = count_righthand_zero_bits a; plen = 32 - tz in
      if drop_bit tz a = mask plen then Inr plen else Inl ValueError)"

definition prefix_from_prefix_string :: "string \<Rightarrow> nat result" where
  "prefix_from_prefix_string s =
     (if \<not> (py_isascii s \<and> py_isdigit s) then Inl ValueError
      else if nat_of_digits s > 32 then Inl ValueError
      else Inr (nat_of_digits s))"

text \<open>A mask in dotted form: a netmask, or a host mask (zeros followed by ones).\<close>

definition prefix_from_ip_string :: "string \<Rightarrow> nat result" where
  "prefix_from_ip_string s =
     result_bind (ip_int_from_string s) (\<lambda>a.
       case prefix_from_ip_int a of
         Inr p \<Rightarrow> Inr p
       | Inl _ \<Rightarrow> prefix_from_ip_int (NOT a))"

definition make_netmask :: "string \<Rightarrow> nat result" where
  "make_netmask s =
     (case prefix_from_prefix_string s of
        Inr p \<Rightarrow> Inr p
      | Inl _ \<Rightarrow> prefix_from_ip_string s)"

definition ipv4_network :: "string \<Rightarrow> network result" where
  "ipv4_network s =
     (case py_split (CHR ''/'') s of
        [a] \<Rightarrow> result_map (\<lambda>ip. \<lparr>network_address = ip, prefixlen = 32\<rparr>) (ip_int_from_string a)
      | [a, m] \<Rightarrow> result_bind (ip_int_from_string a) (\<lambda>ip.
          result_map (\<lambda>p. \<lparr>network_address = ip AND ip_netmask p, prefixlen = p\<rparr>) (make_netmask m))
      | _ \<Rightarrow> Inl ValueError)"

text \<open>The addresses a prefix stands for.\<close>

definition covers :: "network \<Rightarrow> ipv4 \<Rightarrow> bool" where
  "covers n a \<longleftrightarrow> a AND ip_netmask (prefixlen n) = network_address n"

definition network_ok :: "network \<Rightarrow> bool" where
  "network_ok n \<longleftrightarrow> prefixlen n \<le> 32 \<and> network_address n AND ip_netmask (prefixlen n) = network_address n"

section \<open>Lemmas\<close>

lemma length_packed [simp]: "length (packed a) = 4"
  by (simp add: packed_def)

lemma unpacked_packed [simp]: "unpacked (packed a) = a"
proof -
  have "le_int (le_bytes 4 (uint a)) = uint a"
    using uint_lt2p [of a] by (intro le_int_le_bytes) simp_all
  then show ?thesis by (simp add: packed_def unpacked_def)
qed

lemma packed_unpacked [simp]: "length bs = 4 \<Longrightarrow> packed (unpacked bs) = bs"
proof -
  assume l: "length bs = 4"
  have "0 \<le> le_int (rev bs)" "le_int (rev bs) < 2 ^ 32"
    using le_int_range [of "rev bs"] l by simp_all
  then have "uint (unpacked bs) = le_int (rev bs)"
    by (simp add: unpacked_def uint_word_of_int)
  moreover have "le_bytes 4 (le_int (rev bs)) = rev bs"
    using l by (intro le_bytes_le_int) simp
  ultimately show ?thesis by (simp add: packed_def)
qed

lemma packed_inj [simp]: "packed a = packed b \<longleftrightarrow> a = b"
  by (metis unpacked_packed)

lemma parse_octet_digits [simp]: "parse_octet (digits_of_nat (unat b)) = Inr b"
proof -
  have u: "unat b < 256" using unsigned_less [of b] by simp
  then have "length (digits_of_nat (unat b)) \<le> 3" by (intro length_digits) simp_all
  moreover have "hd (digits_of_nat (unat b)) = CHR ''0'' \<Longrightarrow> digits_of_nat (unat b) = ''0''"
    using digits_lead [of "unat b"] by (simp add: digits_zero)
  ultimately show ?thesis using u by (auto simp: parse_octet_def)
qed

lemma quad_chars: "c \<in> set (quad bs) \<Longrightarrow> is_ascii_digit c \<or> c = CHR ''.''"
proof -
  assume c: "c \<in> set (quad bs)"
  have "\<And>ps. c \<in> set (py_join ''.'' ps) \<Longrightarrow> c = CHR ''.'' \<or> (\<exists>p \<in> set ps. c \<in> set p)"
    subgoal for ps by (induction "''.''" ps rule: py_join.induct) auto
    done
  from this [OF c [unfolded quad_def]] show ?thesis by (auto dest: digits_of_nat_digits)
qed

lemma quad_not_special: "CHR ''/'' \<notin> set (quad bs)" "c \<in> set (quad bs) \<Longrightarrow> \<not> is_space c"
  by (auto dest!: quad_chars simp: is_ascii_digit_def is_space_def code_def)

lemma split_quad: "bs \<noteq> [] \<Longrightarrow> py_split (CHR ''.'') (quad bs) = map (\<lambda>b. digits_of_nat (unat b)) bs"
  unfolding quad_def by (rule py_split_join) (auto dest: digits_of_nat_digits simp: is_ascii_digit_def)

lemma ip_int_quad:
  assumes "length bs = 4"
  shows "ip_int_from_string (quad bs) = Inr (unpacked bs)"
proof -
  have ne: "bs \<noteq> []" using assms by auto
  have "quad bs \<noteq> []"
  proof
    assume "quad bs = []"
    with split_quad [OF ne] have "length (py_split (CHR ''.'') ([] :: string)) = 4" using assms by simp
    then show False by simp
  qed
  moreover have "result_list parse_octet (map (\<lambda>b. digits_of_nat (unat b)) bs) = Inr bs"
    by (induction bs) simp_all
  ultimately show ?thesis using assms by (simp add: ip_int_from_string_def split_quad [OF ne])
qed

lemma inet_aton_ntoa: "length bs = 4 \<Longrightarrow> inet_aton (quad bs) = Inr bs"
  by (simp add: inet_aton_def ip_int_quad)

lemma quad_inj: "length bs = 4 \<Longrightarrow> length cs = 4 \<Longrightarrow> quad bs = quad cs \<longleftrightarrow> bs = cs"
  using inet_aton_ntoa by (metis sum.inject(2))

lemma netmask_32 [simp]: "ip_netmask 32 = - 1"
  by (simp add: ip_netmask_def)

lemma bit_netmask: "bit (ip_netmask p) i \<longleftrightarrow> i < 32 \<and> 32 \<le> i + p"
  by (auto simp: ip_netmask_def bit_simps)

lemma make_netmask_digits [simp]: "p \<le> 32 \<Longrightarrow> make_netmask (digits_of_nat p) = Inr p"
  by (simp add: make_netmask_def prefix_from_prefix_string_def)

lemma prefix_from_ip_int_bound: "prefix_from_ip_int a = Inr p \<Longrightarrow> p \<le> 32"
  by (auto simp: prefix_from_ip_int_def Let_def split: if_splits)

lemma prefix_from_ip_string_bound: "prefix_from_ip_string s = Inr p \<Longrightarrow> p \<le> 32"
  by (cases "ip_int_from_string s")
    (auto simp: prefix_from_ip_string_def dest: prefix_from_ip_int_bound split: sum.split_asm)

lemma make_netmask_bound: "make_netmask s = Inr p \<Longrightarrow> p \<le> 32"
  by (cases "prefix_from_prefix_string s")
    (auto simp: make_netmask_def prefix_from_prefix_string_def dest: prefix_from_ip_string_bound
      split: if_splits)

lemma netmask_idem: "(a AND ip_netmask p) AND ip_netmask p = a AND ip_netmask p"
  by (simp add: and.assoc)

lemma ipv4_network_ok: "ipv4_network s = Inr n \<Longrightarrow> network_ok n"
  by (auto simp: ipv4_network_def network_ok_def result_bind_Inr netmask_idem
      split: list.splits elim!: result_map.elims dest: make_netmask_bound)

lemma ipv4_network_quad: "length bs = 4 \<Longrightarrow> ipv4_network (quad bs) = Inr \<lparr>network_address = unpacked bs, prefixlen = 32\<rparr>"
  by (simp add: ipv4_network_def quad_not_special ip_int_quad)

lemma ipv4_network_print:
  assumes "length bs = 4" "p \<le> 32"
  shows "ipv4_network (quad bs @ ''/'' @ digits_of_nat p) =
    Inr \<lparr>network_address = unpacked bs AND ip_netmask p, prefixlen = p\<rparr>"
  using assms
  by (simp add: ipv4_network_def py_split_append quad_not_special ip_int_quad digits_special)

text \<open>
  A dotted netmask or host mask names the same prefix as its length.
\<close>

lemma upt_append': "i \<le> j \<Longrightarrow> j \<le> k \<Longrightarrow> [i..<j] @ [j..<k] = [i..<k]"
  by (metis le_add_diff_inverse upt_add_eq_append)

lemma takeWhile_upt:
  assumes "k \<le> n" "\<And>i. i < k \<Longrightarrow> P i" "k < n \<Longrightarrow> \<not> P k"
  shows "takeWhile P [0..<n] = [0..<k]"
proof -
  have "[0..<n] = [0..<k] @ [k..<n]" using assms(1) by (simp add: upt_append')
  moreover have "takeWhile P [k..<n] = []" using assms(3) by (cases "k < n") (simp_all add: upt_conv_Cons)
  moreover have "takeWhile P [0..<k] = [0..<k]" using assms(2) by (simp add: takeWhile_eq_all_conv)
  ultimately show ?thesis using assms(2) by (simp add: takeWhile_append)
qed

lemma zeros_netmask: "p \<le> 32 \<Longrightarrow> count_righthand_zero_bits (ip_netmask p) = 32 - p"
  unfolding count_righthand_zero_bits_def
  by (subst takeWhile_upt [of "32 - p"]) (auto simp: bit_netmask)

lemma prefix_from_netmask: "p \<le> 32 \<Longrightarrow> prefix_from_ip_int (ip_netmask p) = Inr p"
proof -
  assume p: "p \<le> 32"
  have "drop_bit (32 - p) (ip_netmask p) = mask p"
    using p by (intro bit_word_eqI) (auto simp: bit_netmask bit_simps)
  with p show ?thesis by (simp add: prefix_from_ip_int_def zeros_netmask)
qed

end
