(* ===== verification/Fw_Layout.thy ===== *)
theory Fw_Layout
  imports Py_Ipaddress
begin

text \<open>
  The first half of \<open>control/firewall.py\<close>: the formats that mirror \<open>bpf/common.h\<close>, the
  tables of names, and the functions between text and map keys. The C structures are written
  down beside them with the layout the C ABI gives them (every field at the next multiple of
  its size, the whole padded to the largest), and the two descriptions are proved to agree
  field by field, which is more than the size check that \<open>firewall.py\<close> makes on import.
\<close>

section \<open>Formats and tables\<close>

definition PIN_DIR :: string where
  "PIN_DIR = ''/sys/fs/bpf/adaptfw''"

definition MAX_TRACKED :: int where
  "MAX_TRACKED = 32768"

definition IDLE_TIMEOUT_S :: int where
  "IDLE_TIMEOUT_S = 60"

definition LPM_KEY :: "fmt list" where "LPM_KEY = [U32, Raw 4]"
definition ALLOW_VAL :: "fmt list" where "ALLOW_VAL = [U64, U32, U32]"
definition BLOCK_VAL :: "fmt list" where "BLOCK_VAL = [U64, U64, U32, U32]"
definition PORT_KEY :: "fmt list" where "PORT_KEY = [U8, Pad 1, U16]"
definition PORT_VAL :: "fmt list" where "PORT_VAL = [U64, U32, U32]"
definition SRC_KEY :: "fmt list" where "SRC_KEY = [Raw 4]"
definition SRC_STATE :: "fmt list" where "SRC_STATE = [U32, Pad 4] @ replicate 12 U64"
definition CONFIG :: "fmt list" where "CONFIG = [U64, U64, U32, U32, U32, U32]"
definition U32_KEY :: "fmt list" where "U32_KEY = [U32]"

lemmas formats = LPM_KEY_def ALLOW_VAL_def BLOCK_VAL_def PORT_KEY_def PORT_VAL_def SRC_KEY_def
  SRC_STATE_def CONFIG_def U32_KEY_def

definition SRC_STATE_FIELDS :: "string list" where
  "SRC_STATE_FIELDS = [
     ''lock'', ''tokens'', ''last_refill_ns'', ''last_seen_ns'',
     ''packets'', ''bytes'', ''dropped'', ''syn'', ''fin'', ''rst'', ''udp'', ''icmp'',
     ''port_bitmap'']"

definition ALLOW :: int where "ALLOW = 0"
definition DENY :: int where "DENY = 1"

definition ACTIONS :: "(int, string) dict" where
  "ACTIONS = [(ALLOW, ''allow''), (DENY, ''deny'')]"

definition BLOCK_MANUAL :: int where "BLOCK_MANUAL = 0"
definition BLOCK_AUTO :: int where "BLOCK_AUTO = 1"

definition BLOCK_REASONS :: "(int, string) dict" where
  "BLOCK_REASONS = [(BLOCK_MANUAL, ''manual''), (BLOCK_AUTO, ''auto'')]"

definition PROTOCOLS :: "(string, int) dict" where
  "PROTOCOLS = [(''icmp'', 1), (''tcp'', 6), (''udp'', 17)]"

definition FEATURES :: "(string, int) dict" where
  "FEATURES = [
     (''allowlist'', push_bit 0 1), (''blocklist'', push_bit 1 1), (''proto'', push_bit 2 1),
     (''ratelimit'', push_bit 3 1), (''state'', push_bit 4 1), (''frags'', push_bit 5 1),
     (''ports'', push_bit 6 1)]"

definition STAT_NAMES :: "string list" where
  "STAT_NAMES = [
     ''rx_packets'', ''rx_bytes'',
     ''pass_allowlist'', ''pass_rule'', ''pass_default'', ''pass_non_ipv4'',
     ''drop_blocklist'', ''drop_port_rule'', ''drop_default'', ''drop_proto'',
     ''drop_ratelimit'', ''drop_malformed'', ''drop_fragment'',
     ''state_full'']"

definition LIMITER_INPUT :: "string list" where
  "LIMITER_INPUT = [''pass_rule'', ''pass_default'', ''drop_ratelimit'']"

section \<open>The C structures\<close>

text \<open>
  A C structure is its list of fields with their sizes; all the fields here are integers,
  aligned to their size (\<open>bpf_spin_lock\<close> is one 32-bit word).
\<close>

type_synonym c_struct = "(string \<times> nat) list"

definition c_lpm_key :: c_struct where
  "c_lpm_key = [(''prefixlen'', 4), (''addr'', 4)]"

definition c_allow_val :: c_struct where
  "c_allow_val = [(''hits'', 8), (''flags'', 4), (''_pad'', 4)]"

definition c_block_val :: c_struct where
  "c_block_val = [(''expires_ns'', 8), (''hits'', 8), (''reason'', 4), (''_pad'', 4)]"

definition c_port_key :: c_struct where
  "c_port_key = [(''proto'', 1), (''_pad'', 1), (''port'', 2)]"

definition c_port_val :: c_struct where
  "c_port_val = [(''hits'', 8), (''action'', 4), (''_pad'', 4)]"

definition c_src_state :: c_struct where
  "c_src_state = [(''lock'', 4), (''tokens'', 8), (''last_refill_ns'', 8), (''last_seen_ns'', 8),
     (''packets'', 8), (''bytes'', 8), (''dropped'', 8), (''syn'', 8), (''fin'', 8), (''rst'', 8),
     (''udp'', 8), (''icmp'', 8), (''port_bitmap'', 8)]"

definition c_fw_config :: c_struct where
  "c_fw_config = [(''rate_pps'', 8), (''burst_pkts'', 8), (''features'', 4), (''aggressiveness'', 4),
     (''default_policy'', 4), (''_pad'', 4)]"

lemmas c_structs = c_lpm_key_def c_allow_val_def c_block_val_def c_port_key_def c_port_val_def
  c_src_state_def c_fw_config_def

definition align :: "nat \<Rightarrow> nat \<Rightarrow> nat" where
  "align a n = (n + (a - 1)) div a * a"

fun c_offsets :: "nat \<Rightarrow> c_struct \<Rightarrow> (string \<times> nat \<times> nat) list" where
  "c_offsets off [] = []"
| "c_offsets off ((name, sz) # fs) =
     (name, align sz off, sz) # c_offsets (align sz off + sz) fs"

definition c_sizeof :: "c_struct \<Rightarrow> nat" where
  "c_sizeof fs =
     (case last (c_offsets 0 fs) of (_, off, sz) \<Rightarrow> align (fold max (map snd fs) 1) (off + sz))"

text \<open>The value fields of a Python format with their offsets and sizes.\<close>

fun py_offsets :: "nat \<Rightarrow> fmt list \<Rightarrow> (nat \<times> nat) list" where
  "py_offsets off [] = []"
| "py_offsets off (Pad n # fs) = py_offsets (off + n) fs"
| "py_offsets off (f # fs) = (off, fmt_size f) # py_offsets (off + fmt_size f) fs"

text \<open>The formats with the names of their values, each beside its structure.\<close>

definition shared_structs :: "(fmt list \<times> string list \<times> c_struct) list" where
  "shared_structs = [
     (LPM_KEY, [''prefixlen'', ''addr''], c_lpm_key),
     (ALLOW_VAL, [''hits'', ''flags'', ''_pad''], c_allow_val),
     (BLOCK_VAL, [''expires_ns'', ''hits'', ''reason'', ''_pad''], c_block_val),
     (PORT_KEY, [''proto'', ''port''], c_port_key),
     (PORT_VAL, [''hits'', ''action'', ''_pad''], c_port_val),
     (SRC_STATE, SRC_STATE_FIELDS, c_src_state),
     (CONFIG, [''rate_pps'', ''burst_pkts'', ''features'', ''aggressiveness'', ''default_policy'', ''_pad''],
      c_fw_config)]"

text \<open>
  The format has the structure's size, every value it names is a field of the structure at that offset
  and of that width, and every field that is not padding is named.
\<close>

definition layout_agrees :: "fmt list \<Rightarrow> string list \<Rightarrow> c_struct \<Rightarrow> bool" where
  "layout_agrees fs names c \<longleftrightarrow>
     calcsize fs = c_sizeof c \<and> length names = length (py_offsets 0 fs) \<and>
     list_all (\<lambda>(name, p). name = ''_pad'' \<or> map_of (c_offsets 0 c) name = Some p) (zip names (py_offsets 0 fs)) \<and>
     list_all (\<lambda>(name, sz). name = ''_pad'' \<or> name \<in> set names) c"

text \<open>The bytes of a field hold a value: an integer low byte first, a byte string as it is.\<close>

fun reads_as :: "bytes \<Rightarrow> pyval \<Rightarrow> bool" where
  "reads_as bs (VInt v) \<longleftrightarrow> le_int bs = v"
| "reads_as bs (VBytes b) \<longleftrightarrow> bs = b"

text \<open>\<open>enum stat_index\<close> and the \<open>FEAT_*\<close> bits, in the order of the header.\<close>

definition c_stat_index :: "string list" where
  "c_stat_index = [
     ''STAT_RX_PACKETS'', ''STAT_RX_BYTES'',
     ''STAT_PASS_ALLOWLIST'', ''STAT_PASS_RULE'', ''STAT_PASS_DEFAULT'', ''STAT_PASS_NON_IPV4'',
     ''STAT_DROP_BLOCKLIST'', ''STAT_DROP_PORT_RULE'', ''STAT_DROP_DEFAULT'', ''STAT_DROP_PROTO'',
     ''STAT_DROP_RATELIMIT'', ''STAT_DROP_MALFORMED'', ''STAT_DROP_FRAGMENT'',
     ''STAT_STATE_FULL'']"

definition c_features :: "(string \<times> int) list" where
  "c_features = [
     (''FEAT_ALLOWLIST'', push_bit 0 1), (''FEAT_BLOCKLIST'', push_bit 1 1), (''FEAT_PROTO_SANITY'', push_bit 2 1),
     (''FEAT_RATELIMIT'', push_bit 3 1), (''FEAT_TRACK_STATE'', push_bit 4 1), (''FEAT_DROP_FRAGS'', push_bit 5 1),
     (''FEAT_PORT_RULES'', push_bit 6 1)]"

text \<open>The macro of the stage that each name of \<open>FEATURES\<close> stands for.\<close>

definition feature_macro :: "(string, string) dict" where
  "feature_macro = [
     (''allowlist'', ''FEAT_ALLOWLIST''), (''blocklist'', ''FEAT_BLOCKLIST''), (''proto'', ''FEAT_PROTO_SANITY''),
     (''ratelimit'', ''FEAT_RATELIMIT''), (''state'', ''FEAT_TRACK_STATE''), (''frags'', ''FEAT_DROP_FRAGS''),
     (''ports'', ''FEAT_PORT_RULES'')]"

definition upper_char :: "char \<Rightarrow> char" where
  "upper_char c = (if 97 \<le> code c \<and> code c \<le> 122 then char_of (code c - 32) else c)"

section \<open>Text and keys\<close>

definition parse_cidr :: "string \<Rightarrow> network result" where
  "parse_cidr cidr = ipv4_network (py_strip cidr)"

definition lpm_key :: "string \<Rightarrow> bytes result" where
  "lpm_key cidr =
     result_bind (parse_cidr cidr) (\<lambda>net.
     struct_pack LPM_KEY [VInt (int (prefixlen net)), VBytes (packed (network_address net))])"

fun unpack_cidr_fields :: "pyval list \<Rightarrow> string result" where
  "unpack_cidr_fields [VInt plen, VBytes addr] =
     result_map (\<lambda>a. a @ ''/'' @ py_str_int plen) (inet_ntoa addr)"
| "unpack_cidr_fields _ = Inl ValueError"

definition unpack_cidr :: "bytes \<Rightarrow> string result" where
  "unpack_cidr key = result_bind (struct_unpack LPM_KEY key) unpack_cidr_fields"

definition parse_proto :: "string \<Rightarrow> int result" where
  "parse_proto name =
     (let name = py_lower name in
      case map_of PROTOCOLS name of
        Some v \<Rightarrow> Inr v
      | None \<Rightarrow>
          if py_isdigit name
          then result_bind (py_int_of_str name) (\<lambda>v. if 0 \<le> v \<and> v \<le> 255 then Inr v else Inl ValueError)
          else Inl ValueError)"

definition proto_name :: "int \<Rightarrow> string" where
  "proto_name num =
     (case find (\<lambda>(n, v). v = num) PROTOCOLS of Some (n, _) \<Rightarrow> n | None \<Rightarrow> py_str_int num)"

definition port_key :: "string \<Rightarrow> int \<Rightarrow> bytes result" where
  "port_key proto port =
     result_bind (parse_proto proto) (\<lambda>proto.
     let limit = (if Some proto = map_of PROTOCOLS ''icmp'' then 255 else 65535) in
     if \<not> (0 \<le> port \<and> port \<le> limit) then Inl ValueError
     else struct_pack PORT_KEY [VInt proto, VInt port])"

definition describe_features :: "int \<Rightarrow> string" where
  "describe_features bits =
     (let s = py_join '' '' (map fst (filter (\<lambda>(n, b). bits AND b \<noteq> 0) FEATURES)) in
      if s = [] then ''(none)'' else s)"

section \<open>Lemmas\<close>

text \<open>The key of a prefix: its length and its base address.\<close>

definition lpm_bytes :: "network \<Rightarrow> bytes" where
  "lpm_bytes n = le_bytes 4 (int (prefixlen n)) @ packed (network_address n)"

definition lpm_network :: "bytes \<Rightarrow> network" where
  "lpm_network k =
     \<lparr>network_address = unpacked (drop 4 k), prefixlen = nat (le_int (take 4 k))\<rparr>"

definition show_network :: "network \<Rightarrow> string" where
  "show_network n = quad (packed (network_address n)) @ ''/'' @ digits_of_nat (prefixlen n)"

lemma length_lpm_bytes [simp]: "length (lpm_bytes n) = 8"
  by (simp add: lpm_bytes_def)

lemma lpm_pack:
  "network_ok n \<Longrightarrow>
    struct_pack LPM_KEY [VInt (int (prefixlen n)), VBytes (packed (network_address n))] = Inr (lpm_bytes n)"
  by (simp add: LPM_KEY_def lpm_bytes_def pack_int_def is_int_fmt_def network_ok_def)

lemma lpm_network_bytes [simp]: "network_ok n \<Longrightarrow> lpm_network (lpm_bytes n) = n"
  by (simp add: lpm_network_def lpm_bytes_def le_int_le_bytes network_ok_def)

lemma lpm_bytes_network: "length k = 8 \<Longrightarrow> lpm_bytes (lpm_network k) = k"
proof -
  assume k: "length k = 8"
  then have "le_bytes 4 (le_int (take 4 k)) = take 4 k" by (intro le_bytes_le_int) simp
  with k le_int_range(1) [of "take 4 k"] show ?thesis
    by (simp add: lpm_bytes_def lpm_network_def)
qed

lemma lpm_bytes_inj: "network_ok m \<Longrightarrow> network_ok n \<Longrightarrow> lpm_bytes m = lpm_bytes n \<longleftrightarrow> m = n"
  by (metis lpm_network_bytes)

lemma parse_cidr_ok: "parse_cidr s = Inr n \<Longrightarrow> network_ok n"
  unfolding parse_cidr_def by (rule ipv4_network_ok)

lemma lpm_key_parsed: "parse_cidr s = Inr n \<Longrightarrow> lpm_key s = Inr (lpm_bytes n)"
  by (simp add: lpm_key_def lpm_pack parse_cidr_ok)

lemma lpm_key_Inr: "lpm_key s = Inr k \<longleftrightarrow> (\<exists>n. parse_cidr s = Inr n \<and> k = lpm_bytes n)"
  by (cases "parse_cidr s") (auto simp: lpm_key_parsed, simp add: lpm_key_def)

lemma lpm_key_Inl: "lpm_key s = Inl e \<longleftrightarrow> parse_cidr s = Inl e"
  by (cases "parse_cidr s") (auto simp: lpm_key_parsed, simp_all add: lpm_key_def)

lemma unpack_lpm:
  assumes "network_ok n"
  shows "struct_unpack LPM_KEY (lpm_bytes n) =
    Inr [VInt (int (prefixlen n)), VBytes (packed (network_address n))]"
  using assms
  by (intro struct_unpack_pack lpm_pack) (simp add: LPM_KEY_def is_int_fmt_def network_ok_def)

lemma unpack_cidr_lpm: "network_ok n \<Longrightarrow> unpack_cidr (lpm_bytes n) = Inr (show_network n)"
  by (simp add: unpack_cidr_def unpack_lpm inet_ntoa_def show_network_def py_str_int_def)

lemma show_network_plain: "c \<in> set (show_network n) \<Longrightarrow> \<not> is_space c"
proof -
  have "\<not> is_space (CHR ''/'')" by (simp add: is_space_def code_def)
  then show "c \<in> set (show_network n) \<Longrightarrow> \<not> is_space c"
    by (auto simp: show_network_def dest: quad_not_special(2) digits_of_nat_digits digit_not_space)
qed

lemma parse_show_network: "network_ok n \<Longrightarrow> parse_cidr (show_network n) = Inr n"
proof -
  assume n: "network_ok n"
  have "py_strip (show_network n) = show_network n" by (intro py_strip_id show_network_plain)
  moreover have "ipv4_network (show_network n) = Inr n"
    unfolding show_network_def
    by (subst ipv4_network_print) (use n in \<open>simp_all add: network_ok_def\<close>)
  ultimately show ?thesis by (simp add: parse_cidr_def)
qed

lemma parse_cidr_quad: "length bs = 4 \<Longrightarrow> parse_cidr (quad bs) = Inr \<lparr>network_address = unpacked bs, prefixlen = 32\<rparr>"
  by (simp add: parse_cidr_def py_strip_id quad_not_special ipv4_network_quad)

lemma parse_proto_range: "parse_proto s = Inr p \<Longrightarrow> 0 \<le> p \<and> p \<le> 255"
  by (auto simp: parse_proto_def PROTOCOLS_def Let_def result_bind_Inr split: if_splits)

lemma pack_port:
  assumes "0 \<le> p" "p \<le> 255" "0 \<le> n" "n \<le> 65535"
  shows "\<exists>k. struct_pack PORT_KEY [VInt p, VInt n] = Inr k \<and> length k = 4 \<and>
    struct_unpack PORT_KEY k = Inr [VInt p, VInt n]"
proof -
  have fits: "val_fits PORT_KEY [VInt p, VInt n]" using assms by (simp add: PORT_KEY_def is_int_fmt_def)
  then obtain k where k: "struct_pack PORT_KEY [VInt p, VInt n] = Inr k" using struct_pack_fits by blast
  with struct_pack_length [OF k] struct_unpack_pack [OF fits k] show ?thesis by (simp add: PORT_KEY_def)
qed

definition port_limit :: "int \<Rightarrow> int" where
  "port_limit p = (if p = 1 then 255 else 65535)"

lemma port_key_cases:
  "port_key proto port =
     (case parse_proto proto of
        Inl e \<Rightarrow> Inl e
      | Inr p \<Rightarrow> if 0 \<le> port \<and> port \<le> port_limit p then struct_pack PORT_KEY [VInt p, VInt port]
               else Inl ValueError)"
  by (auto simp: port_key_def port_limit_def PROTOCOLS_def Let_def split: sum.splits)

lemma parse_proto_number:
  assumes "0 \<le> p" "p \<le> 255"
  shows "parse_proto (py_str_int p) = Inr p"
proof -
  let ?s = "digits_of_nat (nat p)"
  have s: "py_str_int p = ?s" using assms by (simp add: py_str_int_def)
  have low: "py_lower ?s = ?s"
    unfolding py_lower_def
    by (rule map_idI) (auto dest!: digits_of_nat_digits simp: lower_char_def code_def is_ascii_digit_def)
  have "map_of PROTOCOLS ?s = None"
  proof -
    have "hd ?s \<in> set ?s" by simp
    then have "is_ascii_digit (hd ?s)" by (rule digits_of_nat_digits)
    moreover have "\<not> is_ascii_digit (hd n)" if "n \<in> fst ` set PROTOCOLS" for n
      using that by (auto simp: PROTOCOLS_def is_ascii_digit_def)
    ultimately show ?thesis by (auto simp: map_of_eq_None_iff)
  qed
  moreover have "length ?s \<le> 3" using assms by (intro length_digits) auto
  then have "py_int_of_str ?s = Inr p" using assms by (subst py_int_of_digits) simp_all
  ultimately show ?thesis using assms by (simp add: parse_proto_def s low)
qed

lemma parse_proto_name: "0 \<le> p \<Longrightarrow> p \<le> 255 \<Longrightarrow> parse_proto (proto_name p) = Inr p"
proof -
  assume p: "0 \<le> p" "p \<le> 255"
  consider "p = 1" | "p = 6" | "p = 17" | "p \<noteq> 1" "p \<noteq> 6" "p \<noteq> 17" by blast
  then show ?thesis
  proof cases
    case 4
    with p show ?thesis by (simp add: proto_name_def PROTOCOLS_def parse_proto_number)
  qed (simp_all add: proto_name_def PROTOCOLS_def parse_proto_def py_lower_def lower_char_def code_def)
qed

section \<open>The checks at import\<close>

text \<open>The assertions at the end of \<open>firewall.py\<close>, in their order: the first that fails ends the import.\<close>

definition import_checks :: "unit result" where
  "import_checks =
     (if \<not> list_all (\<lambda>(f, size). calcsize f = size)
          [(LPM_KEY, 8), (ALLOW_VAL, 16), (BLOCK_VAL, 24), (PORT_KEY, 4), (PORT_VAL, 16), (SRC_KEY, 4), (SRC_STATE, 104), (CONFIG, 32)]
      then Inl AssertionError
      else result_bind (struct_unpack SRC_STATE (replicate 104 0)) (\<lambda>vs.
        if length vs \<noteq> length SRC_STATE_FIELDS then Inl AssertionError else Inr ()))"

section \<open>The two sides of the boundary\<close>

lemma unpack_offsets:
  "list_all2 (\<lambda>(off, sz) v. reads_as (take sz (drop off bs)) v) (py_offsets k fs) (unpack_fields fs (drop k bs))"
proof (induction fs arbitrary: k)
  case (Cons f fs)
  from Cons [of "k + fmt_size f"] show ?case by (cases f) (simp_all add: add.commute)
qed simp

lemma formats_agree: "list_all (\<lambda>(fs, names, c). layout_agrees fs names c) shared_structs"
  by code_simp

lemma unpacked_fields:
  assumes "layout_agrees fs names c" "struct_unpack fs bs = Inr vs"
  shows "length bs = c_sizeof c \<and> length vs = length names \<and>
    (\<forall>i < length names. names ! i \<noteq> ''_pad'' \<longrightarrow>
      (\<exists>off sz. map_of (c_offsets 0 c) (names ! i) = Some (off, sz) \<and> reads_as (take sz (drop off bs)) (vs ! i)))"
proof -
  from assms have bs: "length bs = c_sizeof c" and vs: "vs = unpack_fields fs (drop 0 bs)"
    and n: "length names = length (py_offsets 0 fs)"
    by (auto simp: layout_agrees_def struct_unpack_def split: if_splits)
  note all = unpack_offsets [of bs 0 fs, folded vs]
  have "\<exists>off sz. map_of (c_offsets 0 c) (names ! i) = Some (off, sz) \<and> reads_as (take sz (drop off bs)) (vs ! i)"
    if i: "i < length names" "names ! i \<noteq> ''_pad''" for i
  proof -
    have "map_of (c_offsets 0 c) (names ! i) = Some (py_offsets 0 fs ! i)"
      using assms(1) i n by (auto simp: layout_agrees_def list_all_length)
    moreover have "case py_offsets 0 fs ! i of (off, sz) \<Rightarrow> reads_as (take sz (drop off bs)) (vs ! i)"
      using list_all2_nthD [OF all, of i] i n by (simp add: case_prod_beta)
    ultimately show ?thesis by (cases "py_offsets 0 fs ! i") auto
  qed
  with bs list_all2_lengthD [OF all] n show ?thesis by simp
qed

section \<open>Properties\<close>

text \<open>
  C20. The hand-written formats of \<open>firewall.py\<close> describe the structures of \<open>common.h\<close>. For each
  structure that the two planes share, and any buffer that Python decodes to \<open>vs\<close>, or that it encodes \<open>vs\<close> to
  (values that fit their fields): the buffer has the structure's size in C, there is one value per
  name, and the C field of that name, at the offset and width the C rules give it, holds that value, padding
  fields apart; no other C field is left without a name. The
  counters have the names and the order of \<open>enum stat_index\<close>, each name of \<open>FEATURES\<close> has
  the bit of its \<open>FEAT_*\<close> macro and no macro is missing, and the module's own checks at import pass.
\<close>

theorem layout_matches_common_h:
  assumes "(fs, names, c) \<in> set shared_structs"
    and "struct_unpack fs bs = Inr vs \<or> val_fits fs vs \<and> struct_pack fs vs = Inr bs"
  shows "length bs = c_sizeof c \<and> length vs = length names \<and>
    (\<forall>i < length names. names ! i \<noteq> ''_pad'' \<longrightarrow>
      (\<exists>off sz. map_of (c_offsets 0 c) (names ! i) = Some (off, sz) \<and> reads_as (take sz (drop off bs)) (vs ! i))) \<and>
    fst ` set c \<subseteq> insert ''_pad'' (set names) \<and>
    map (\<lambda>s. ''STAT_'' @ map upper_char s) STAT_NAMES = c_stat_index \<and>
    map (\<lambda>(name, bits). (map_of feature_macro name, bits)) FEATURES = map (\<lambda>(name, bits). (Some name, bits)) c_features \<and>
    import_checks = Inr ()"
proof -
  have agrees: "layout_agrees fs names c" using formats_agree assms(1) by (auto simp: list_all_iff)
  then have "fst ` set c \<subseteq> insert ''_pad'' (set names)" by (auto simp: layout_agrees_def list_all_iff)
  moreover have "struct_unpack fs bs = Inr vs" using assms(2) struct_unpack_pack by blast
  note unpacked_fields [OF agrees this]
  moreover have "map (\<lambda>s. ''STAT_'' @ map upper_char s) STAT_NAMES = c_stat_index"
    "map (\<lambda>(name, bits). (map_of feature_macro name, bits)) FEATURES = map (\<lambda>(name, bits). (Some name, bits)) c_features"
    "import_checks = Inr ()" by code_simp+
  ultimately show ?thesis by blast
qed

lemma demo_block_val: "struct_unpack BLOCK_VAL ([0, 2] @ replicate 6 0 @ [7] @ replicate 7 0 @ [1] @ replicate 7 0) =
    Inr [VInt 512, VInt 7, VInt 1, VInt 0]"
  by code_simp

theorem layout_matches_common_h_witness:
  "map_of (c_offsets 0 c_block_val) ''hits'' = Some (8, 8) \<and>
   le_int (take 8 (drop 8 ([0, 2] @ replicate 6 0 @ [7] @ replicate 7 0 @ [1] @ replicate 7 0))) = 7"
proof -
  have "(BLOCK_VAL, [''expires_ns'', ''hits'', ''reason'', ''_pad''], c_block_val) \<in> set shared_structs"
    by (simp add: shared_structs_def)
  from layout_matches_common_h [OF this disjI1 [OF demo_block_val]]
  obtain off sz where "map_of (c_offsets 0 c_block_val) ''hits'' = Some (off, sz)"
    "le_int (take sz (drop off ([0, 2] @ replicate 6 0 @ [7] @ replicate 7 0 @ [1] @ replicate 7 0))) = 7"
    by (auto dest!: spec [of _ 1])
  moreover have "map_of (c_offsets 0 c_block_val) ''hits'' = Some (8, 8)" by code_simp
  ultimately show ?thesis by simp
qed

text \<open>
  C21. Every text that \<open>lpm_key\<close> accepts becomes an eight-byte key; \<open>unpack_cidr\<close> prints the
  key as a prefix that has the same key, so what \<open>fwctl\<close> lists can be given back to it. The
  base address has no bits beyond the prefix length.
\<close>

theorem lpm_key_roundtrip:
  assumes "lpm_key cidr = Inr k"
  shows "length k = 8 \<and> (\<exists>t net. unpack_cidr k = Inr t \<and> lpm_key t = Inr k \<and>
    parse_cidr cidr = Inr net \<and> parse_cidr t = Inr net \<and> prefixlen net \<le> 32 \<and>
    {i. bit (network_address net) i} \<subseteq> {32 - prefixlen net..<32})"
proof -
  from assms obtain n where n: "parse_cidr cidr = Inr n" "k = lpm_bytes n" by (auto simp: lpm_key_Inr)
  then have ok: "network_ok n" by (blast dest: parse_cidr_ok)
  have "bit (network_address n AND ip_netmask (prefixlen n)) i" if "bit (network_address n) i" for i
    using ok that by (simp add: network_ok_def)
  then have "{i. bit (network_address n) i} \<subseteq> {32 - prefixlen n..<32}"
    by (force simp: bit_simps bit_netmask)
  with n ok show ?thesis
    by (auto simp: unpack_cidr_lpm parse_show_network lpm_key_parsed network_ok_def)
qed

lemma demo_key: "lpm_key '' 10.1.2.200/24 '' = Inr [24, 0, 0, 0, 10, 1, 2, 0]"
  by code_simp

theorem lpm_key_roundtrip_witness:
  "length [24, 0, 0, 0, 10, 1, 2, 0 :: byte] = 8 \<and>
    (\<exists>t net. unpack_cidr [24, 0, 0, 0, 10, 1, 2, 0] = Inr t \<and> lpm_key t = Inr [24, 0, 0, 0, 10, 1, 2, 0] \<and>
    parse_cidr '' 10.1.2.200/24 '' = Inr net \<and> parse_cidr t = Inr net \<and> prefixlen net \<le> 32 \<and>
    {i. bit (network_address net) i} \<subseteq> {32 - prefixlen net..<32})"
  by (rule lpm_key_roundtrip [OF demo_key])

text \<open>
  \<open>port_key\<close> accepts a protocol and a number exactly when the protocol is known and the
  number is in its range (0 to 255 for ICMP types, 0 to 65535 otherwise) and raises
  \<open>ValueError\<close> in every other case. From the key the listing recovers protocol and number,
  and the printed protocol name stands for the same protocol.
\<close>

theorem port_key_spec:
  "(is_ok (port_key proto port) \<longleftrightarrow>
      (\<exists>p. parse_proto proto = Inr p \<and> 0 \<le> port \<and> port \<le> (if p = 1 then 255 else 65535))) \<and>
   (case port_key proto port of
      Inl e \<Rightarrow> e = ValueError
    | Inr k \<Rightarrow> length k = 4 \<and> (\<exists>p. parse_proto proto = Inr p \<and>
        struct_unpack PORT_KEY k = Inr [VInt p, VInt port] \<and> parse_proto (proto_name p) = Inr p))"
proof (cases "parse_proto proto")
  case (Inl e)
  then have "e = ValueError"
    by (auto simp: parse_proto_def Let_def result_bind_Inl py_int_of_str_def py_int_digits_def
        split: option.splits if_splits list.splits elim!: result_map.elims)
  with Inl show ?thesis by (simp add: port_key_cases)
next
  case (Inr p)
  note r = parse_proto_range [OF Inr]
  show ?thesis
  proof (cases "0 \<le> port \<and> port \<le> port_limit p")
    case True
    then have "port \<le> 65535" by (auto simp: port_limit_def split: if_splits)
    with pack_port [of p port] r True obtain k where
      "struct_pack PORT_KEY [VInt p, VInt port] = Inr k" "length k = 4"
      "struct_unpack PORT_KEY k = Inr [VInt p, VInt port]" by auto
    with True Inr r show ?thesis by (simp add: port_key_cases parse_proto_name port_limit_def)
  next
    case False
    with Inr show ?thesis by (auto simp: port_key_cases port_limit_def)
  qed
qed

end
