(* ===== verification/Bpfmap.thy ===== *)
theory Bpfmap
  imports Fw_Layout
begin

text \<open>
  \<open>control/bpfmap.py\<close>: pinned BPF maps and programs through the \<open>bpf\<close> system call. The
  operating system is a parameter, the record \<open>os\<close>: what a system call replies and what it
  does to the world. Buffers that the kernel fills are values: a reply carries the bytes
  written, and \<open>overlay\<close> puts them over what the buffer held. Every operation of the classes
  is a program over the world; the walk over the keys terminates by its own bound, the batched
  read loops as long as the kernel says there is more, so it runs on fuel
  (\<open>os_fuel\<close>) and a lack of it is the outcome \<open>Diverges\<close>.
\<close>

section \<open>The system interface\<close>

datatype bpf_call =
    OBJ_GET string
  | MAP_LOOKUP_ELEM int "bytes option" int
  | MAP_UPDATE_ELEM int "bytes option" bytes int
  | MAP_DELETE_ELEM int "bytes option"
  | MAP_GET_NEXT_KEY int "bytes option"
  | MAP_LOOKUP_BATCH int "bytes option" nat int
  | OBJ_GET_INFO_BY_FD int nat

text \<open>
  \<open>rep_value\<close>: what was written at the address in \<open>value\<close> (the next key, the program
  information, or the values of a batch); the next three belong to batches.
\<close>

record bpf_reply =
  rep_rc :: int
  rep_errno :: int
  rep_value :: bytes
  rep_keys :: bytes
  rep_token :: bytes
  rep_count :: nat

record 'w os =
  os_bpf :: "bpf_call \<Rightarrow> 'w \<Rightarrow> bpf_reply \<times> 'w"
  os_close :: "int \<Rightarrow> ('w, unit) io"
  os_possible :: "'w \<Rightarrow> string option \<times> 'w"
  os_cpu_count :: "int option"
  os_ktime :: "'w \<Rightarrow> int \<times> 'w"
  os_fuel :: nat

definition EPERM :: int where "EPERM = 1"
definition ENOENT :: int where "ENOENT = 2"
definition E2BIG :: int where "E2BIG = 7"
definition EACCES :: int where "EACCES = 13"
definition EINVAL :: int where "EINVAL = 22"
definition ENOSPC :: int where "ENOSPC = 28"
definition ERANGE :: int where "ERANGE = 34"
definition ENOTSUPP :: int where "ENOTSUPP = 524"
definition BPF_ANY :: int where "BPF_ANY = 0"
definition BPF_F_LOCK :: int where "BPF_F_LOCK = 4"

lemmas errnos = EPERM_def ENOENT_def E2BIG_def EACCES_def EINVAL_def ENOSPC_def ERANGE_def ENOTSUPP_def

definition overlay :: "bytes \<Rightarrow> bytes \<Rightarrow> bytes" where
  "overlay buf written = take (length buf) (written @ drop (length written) buf)"

definition zeros :: "nat \<Rightarrow> bytes" where
  "zeros n = replicate n 0"

definition bpf :: "'w os \<Rightarrow> bpf_call \<Rightarrow> ('w, bpf_reply) io" where
  "bpf os call = io_read (os_bpf os call)"

definition bpf_hint :: "int \<Rightarrow> string" where
  "bpf_hint err =
     (if err = EPERM \<or> err = EACCES then '' (run with sudo)''
      else if err = ENOENT then '' (is the firewall loaded? sudo ./bin/fwload -i veth-fw)''
      else [])"

definition bpf_raise :: "string \<Rightarrow> string \<Rightarrow> int \<Rightarrow> ('w, 'a) io" where
  "bpf_raise op what err = io_raise (BpfError err (OpMsg op what (bpf_hint err)))"

section \<open>CPUs and pinned objects\<close>

definition cpu_range :: "string \<Rightarrow> int result" where
  "cpu_range part =
     (case py_partition (CHR ''-'') part of (lo, hi) \<Rightarrow>
        result_bind (py_int_of_str (if hi = [] then lo else hi)) (\<lambda>h.
        result_bind (py_int_of_str lo) (\<lambda>l. Inr (h - l + 1))))"

definition parse_cpus :: "string \<Rightarrow> int result" where
  "parse_cpus spec =
     result_map sum_list (result_list cpu_range (py_split (CHR '','') (py_strip spec)))"

definition possible_cpus :: "'w os \<Rightarrow> ('w, int) io" where
  "possible_cpus os =
     io_bind (io_read (os_possible os)) (\<lambda>file.
     case file of
       None \<Rightarrow> io_return (case os_cpu_count os of None \<Rightarrow> 1 | Some n \<Rightarrow> if n = 0 then 1 else n)
     | Some spec \<Rightarrow> io_of (parse_cpus spec))"

definition open_pinned :: "'w os \<Rightarrow> string \<Rightarrow> ('w, int) io" where
  "open_pinned os path =
     io_bind (bpf os (OBJ_GET path)) (\<lambda>rep.
     if rep_rc rep < 0 then bpf_raise ''open'' path (rep_errno rep) else io_return (rep_rc rep))"

text \<open>\<open>_Pinned.close\<close>: the object's descriptor afterwards.\<close>

definition pinned_close :: "'w os \<Rightarrow> int \<Rightarrow> ('w, int) io" where
  "pinned_close os fd =
     (if fd \<ge> 0 then io_seq (os_close os fd) (io_return (- 1)) else io_return fd)"

section \<open>Programs\<close>

record prog_info =
  info_id :: int
  info_tag :: string
  info_jited_bytes :: int
  info_xlated_bytes :: int
  info_name :: string
  info_run_time_ns :: int
  info_run_cnt :: int

definition INFO_SIZE :: nat where "INFO_SIZE = 232"

definition hex_digit :: "nat \<Rightarrow> char" where
  "hex_digit n = (if n < 10 then char_of (48 + n) else char_of (87 + n))"

definition bytes_hex :: "bytes \<Rightarrow> string" where
  "bytes_hex bs = concat (map (\<lambda>b. [hex_digit (unat b div 16), hex_digit (unat b mod 16)]) bs)"

text \<open>
  \<open>bytes.decode()\<close> on the names the kernel stores, which consist of letters, digits, dots and
  underscores; other bytes are refused.
\<close>

definition decode_name :: "bytes \<Rightarrow> string result" where
  "decode_name bs =
     (if list_all (\<lambda>b. unat b < 128) bs then Inr (map (\<lambda>b. char_of (unat b)) bs) else Inl ValueError)"

fun first_int :: "pyval list \<Rightarrow> int result" where
  "first_int (VInt v # _) = Inr v"
| "first_int _ = Inl IndexError"

definition unpack_int_from :: "fmt \<Rightarrow> bytes \<Rightarrow> nat \<Rightarrow> int result" where
  "unpack_int_from f raw off = result_bind (struct_unpack_from [f] raw off) first_int"

definition decode_info :: "bytes \<Rightarrow> prog_info result" where
  "decode_info raw =
     result_bind (unpack_int_from U32 raw 4) (\<lambda>id.
     result_bind (unpack_int_from U32 raw 16) (\<lambda>jited.
     result_bind (unpack_int_from U32 raw 20) (\<lambda>xlated.
     result_bind (decode_name (takeWhile (\<lambda>b. b \<noteq> 0) (take 16 (drop 64 raw)))) (\<lambda>name.
     result_bind (unpack_int_from U64 raw 192) (\<lambda>rt.
     result_bind (unpack_int_from U64 raw 200) (\<lambda>cnt.
     Inr \<lparr>info_id = id, info_tag = bytes_hex (take 8 (drop 8 raw)), info_jited_bytes = jited,
       info_xlated_bytes = xlated, info_name = name, info_run_time_ns = rt, info_run_cnt = cnt\<rparr>))))))"

definition prog_read_info :: "'w os \<Rightarrow> string \<Rightarrow> int \<Rightarrow> ('w, prog_info) io" where
  "prog_read_info os path fd =
     io_bind (bpf os (OBJ_GET_INFO_BY_FD fd INFO_SIZE)) (\<lambda>rep.
     if rep_rc rep < 0 then bpf_raise ''read info of'' path (rep_errno rep)
     else io_of (decode_info (overlay (zeros INFO_SIZE) (rep_value rep))))"

section \<open>Maps\<close>

record bpfmap =
  bm_path :: string
  bm_key_size :: nat
  bm_value_size :: nat
  bm_ncpu :: nat
  bm_fd :: int

text \<open>
  A per-CPU value has one slot of a multiple of eight bytes for each possible CPU. A count of
  CPUs below zero cannot come out of the kernel's file; \<open>create_string_buffer\<close> would raise
  on it at the first use.
\<close>

definition bpfmap_open :: "'w os \<Rightarrow> string \<Rightarrow> nat \<Rightarrow> nat \<Rightarrow> bool \<Rightarrow> ('w, bpfmap) io" where
  "bpfmap_open os path key_size value_size percpu =
     io_bind (if percpu then io_bind (possible_cpus os) (\<lambda>n. io_return (nat n)) else io_return 1) (\<lambda>ncpu.
     io_bind (open_pinned os path) (\<lambda>fd.
     io_return \<lparr>bm_path = path, bm_key_size = key_size,
       bm_value_size = (if percpu then ((value_size + 7) div 8 * 8) * ncpu else value_size),
       bm_ncpu = ncpu, bm_fd = fd\<rparr>))"

text \<open>
  \<open>_elem\<close>: no key, or an empty one, is a null pointer; a key longer than the buffer raises, a
  shorter one is padded with zeros.
\<close>

definition key_buffer :: "bpfmap \<Rightarrow> bytes option \<Rightarrow> bytes option result" where
  "key_buffer self key =
     (case key of
        None \<Rightarrow> Inr None
      | Some k \<Rightarrow> if k = [] then Inr None
          else if length k > bm_key_size self then Inl ValueError
          else Inr (Some (fit_bytes (bm_key_size self) k)))"

definition bpf_elem :: "'w os \<Rightarrow> bpfmap \<Rightarrow> (bytes option \<Rightarrow> bpf_call) \<Rightarrow> bytes option \<Rightarrow> ('w, bpf_reply) io" where
  "bpf_elem os self call key =
     io_bind (io_of (key_buffer self key)) (\<lambda>kbuf. bpf os (call kbuf))"

definition bpfmap_lookup :: "'w os \<Rightarrow> bpfmap \<Rightarrow> bytes \<Rightarrow> int \<Rightarrow> ('w, bytes option) io" where
  "bpfmap_lookup os self key flags =
     io_bind (bpf_elem os self (\<lambda>k. MAP_LOOKUP_ELEM (bm_fd self) k flags) (Some key)) (\<lambda>rep.
     if rep_rc rep < 0 then
       (if rep_errno rep = ENOENT then io_return None
        else bpf_raise ''lookup in'' (bm_path self) (rep_errno rep))
     else io_return (Some (overlay (zeros (bm_value_size self)) (rep_value rep))))"

definition bpfmap_update :: "'w os \<Rightarrow> bpfmap \<Rightarrow> bytes \<Rightarrow> bytes \<Rightarrow> int \<Rightarrow> ('w, unit) io" where
  "bpfmap_update os self key val flags =
     (if length val \<noteq> bm_value_size self then io_raise AssertionError
      else io_bind (bpf_elem os self (\<lambda>k. MAP_UPDATE_ELEM (bm_fd self) k val flags) (Some key)) (\<lambda>rep.
        if rep_rc rep < 0 then
          (if rep_errno rep = E2BIG then io_raise (BpfError E2BIG (FullMsg (bm_path self)))
           else bpf_raise ''update in'' (bm_path self) (rep_errno rep))
        else io_return ()))"

definition bpfmap_delete :: "'w os \<Rightarrow> bpfmap \<Rightarrow> bytes \<Rightarrow> ('w, bool) io" where
  "bpfmap_delete os self key =
     io_bind (bpf_elem os self (MAP_DELETE_ELEM (bm_fd self)) (Some key)) (\<lambda>rep.
     if rep_rc rep < 0 then
       (if rep_errno rep = ENOENT then io_return False
        else bpf_raise ''delete in'' (bm_path self) (rep_errno rep))
     else io_return True)"

text \<open>The loop \<open>for k in keys: m.delete(k)\<close> of the callers.\<close>

fun delete_each :: "'w os \<Rightarrow> bpfmap \<Rightarrow> bytes list \<Rightarrow> ('w, unit) io" where
  "delete_each os self [] = io_return ()"
| "delete_each os self (k # ks) = io_seq (bpfmap_delete os self k) (delete_each os self ks)"

definition WALK_LIMIT :: nat where "WALK_LIMIT = 2 ^ 20"

text \<open>
  One turn of the walk: what the loop does with the reply, given the keys so far and the
  contents of the buffer \<open>nxt\<close>. It either returns or goes on with the new key.
\<close>

definition walk_turn ::
    "bpfmap \<Rightarrow> bytes list \<Rightarrow> bytes \<Rightarrow> bpf_reply \<Rightarrow> bytes list result + bytes" where
  "walk_turn self out nxt rep =
     (if rep_rc rep < 0 then
        (if rep_errno rep = ENOENT then Inl (Inr out)
         else Inl (Inl (BpfError (rep_errno rep) (OpMsg ''walk'' (bm_path self) (bpf_hint (rep_errno rep))))))
      else let cur = overlay nxt (rep_value rep) in
        if length (out @ [cur]) > WALK_LIMIT then Inl (Inl (BpfError ERANGE (RunawayMsg (bm_path self))))
        else Inr cur)"

function keys_loop ::
    "'w os \<Rightarrow> bpfmap \<Rightarrow> bytes list \<Rightarrow> bytes option \<Rightarrow> bytes \<Rightarrow> ('w, bytes list) io" where
  "keys_loop os self out cur nxt w =
     (case bpf_elem os self (MAP_GET_NEXT_KEY (bm_fd self)) cur w of
        (Inl e, w') \<Rightarrow> (Inl e, w')
      | (Inr rep, w') \<Rightarrow>
          (case walk_turn self out nxt rep of
             Inl r \<Rightarrow> (r, w')
           | Inr k \<Rightarrow> keys_loop os self (out @ [k]) (Some k) k w'))"
  by pat_completeness auto
termination
  by (relation "measure (\<lambda>(os, self, out, cur, nxt, w). Suc WALK_LIMIT - length out)")
    (auto simp: walk_turn_def Let_def split: if_splits)

declare keys_loop.simps [simp del]

definition bpfmap_keys :: "'w os \<Rightarrow> bpfmap \<Rightarrow> ('w, bytes list) io" where
  "bpfmap_keys os self = keys_loop os self [] None (zeros (bm_key_size self))"

text \<open>
  \<open>_batch\<close>. The entries of one reply: the first \<open>count\<close> slices of the two buffers.
\<close>

definition batch_slices :: "nat \<Rightarrow> nat \<Rightarrow> nat \<Rightarrow> bytes \<Rightarrow> bytes \<Rightarrow> (bytes \<times> bytes) list" where
  "batch_slices ks vs n kraw vraw =
     map (\<lambda>i. (take ks (drop (i * ks) kraw), take vs (drop (i * vs) vraw))) [0..<n]"

definition CHUNK :: nat where "CHUNK = 4096"

fun batch_loop ::
    "nat \<Rightarrow> 'w os \<Rightarrow> bpfmap \<Rightarrow> int \<Rightarrow> (bytes \<times> bytes) list \<Rightarrow> bytes option \<Rightarrow> bytes \<times> bytes \<times> bytes
     \<Rightarrow> ('w, (bytes \<times> bytes) list option) io" where
  "batch_loop 0 os self flags out token bufs = io_raise Diverges"
| "batch_loop (Suc fuel) os self flags out token (keys, vals, token_out) =
     io_bind (bpf os (MAP_LOOKUP_BATCH (bm_fd self) token CHUNK flags)) (\<lambda>rep.
     let keys' = overlay keys (rep_keys rep); vals' = overlay vals (rep_value rep);
         token' = overlay token_out (rep_token rep);
         out' = out @ batch_slices (bm_key_size self) (bm_value_size self) (rep_count rep) keys' vals' in
     if rep_rc rep < 0 then
       (if rep_errno rep = ENOENT then io_return (Some out')
        else if token = None \<and> (rep_errno rep = EINVAL \<or> rep_errno rep = ENOTSUPP) then io_return None
        else bpf_raise ''batch read of'' (bm_path self) (rep_errno rep))
     else batch_loop fuel os self flags out' (Some token') (keys', vals', token'))"

definition bpfmap_batch :: "'w os \<Rightarrow> bpfmap \<Rightarrow> int \<Rightarrow> ('w, (bytes \<times> bytes) list option) io" where
  "bpfmap_batch os self flags =
     batch_loop (os_fuel os) os self flags [] None
       (zeros (bm_key_size self * CHUNK), zeros (bm_value_size self * CHUNK), zeros 8)"

text \<open>The key-by-key read, for kernels without batches.\<close>

fun read_keys :: "'w os \<Rightarrow> bpfmap \<Rightarrow> int \<Rightarrow> bytes list \<Rightarrow> ('w, (bytes \<times> bytes) list) io" where
  "read_keys os self flags [] = io_return []"
| "read_keys os self flags (key # ks) =
     io_bind (bpfmap_lookup os self key flags) (\<lambda>val.
     io_bind (read_keys os self flags ks) (\<lambda>rest.
     io_return (case val of Some v \<Rightarrow> (key, v) # rest | None \<Rightarrow> rest)))"

definition bpfmap_items :: "'w os \<Rightarrow> bpfmap \<Rightarrow> int \<Rightarrow> ('w, (bytes \<times> bytes) list) io" where
  "bpfmap_items os self flags =
     io_bind (bpfmap_batch os self flags) (\<lambda>batch.
     case batch of
       Some out \<Rightarrow> io_return out
     | None \<Rightarrow> io_bind (bpfmap_keys os self) (read_keys os self flags))"

definition sum_slots :: "nat \<Rightarrow> bytes \<Rightarrow> int result" where
  "sum_slots ncpu raw =
     result_map sum_list (result_list (\<lambda>i. unpack_int_from U64 raw (i * 8)) [0..<ncpu])"

definition bpfmap_sum_percpu :: "'w os \<Rightarrow> bpfmap \<Rightarrow> bytes \<Rightarrow> ('w, int) io" where
  "bpfmap_sum_percpu os self key =
     io_bind (bpfmap_lookup os self key 0) (\<lambda>raw.
     case raw of None \<Rightarrow> io_return 0 | Some bs \<Rightarrow> io_of (sum_slots (bm_ncpu self) bs))"

end
