(* ===== verification/Bpf_Kernel.thy ===== *)
theory Bpf_Kernel
  imports Bpfmap
begin

text \<open>
  What the control plane relies on of the kernel's maps, as a locale. The contents of a map are
  a dictionary from keys to values in the order in which the kernel enumerates them. The laws
  are the documented ones: a lookup in a hash finds the key, a lookup in a longest-prefix trie
  the most specific prefix that covers it; an update that succeeds stores one entry and one that
  fails none; a walk and a batched read enumerate every entry once. They describe a map that
  nobody else changes while one operation of the control plane runs. Inside the locale the
  methods of \<open>BpfMap\<close> are shown to do what their comments promise; in particular the
  batched read and the key-by-key walk return the same entries.
\<close>

section \<open>Map contents\<close>

datatype map_kind = HASH | LPM_TRIE | ARRAY

definition lpm_matches :: "bytes \<Rightarrow> bytes \<Rightarrow> bool" where
  "lpm_matches e k \<longleftrightarrow>
     prefixlen (lpm_network e) \<le> prefixlen (lpm_network k) \<and>
     network_address (lpm_network k) AND ip_netmask (prefixlen (lpm_network e)) =
     network_address (lpm_network e) AND ip_netmask (prefixlen (lpm_network e))"

fun lpm_longest :: "(bytes \<times> bytes) list \<Rightarrow> (bytes \<times> bytes) option" where
  "lpm_longest [] = None"
| "lpm_longest (e # es) =
     (case lpm_longest es of
        None \<Rightarrow> Some e
      | Some f \<Rightarrow> if prefixlen (lpm_network (fst e)) < prefixlen (lpm_network (fst f)) then Some f else Some e)"

definition kmap_find :: "map_kind \<Rightarrow> (bytes, bytes) dict \<Rightarrow> bytes \<Rightarrow> bytes option" where
  "kmap_find kd d k =
     (if kd = LPM_TRIE then map_option snd (lpm_longest (filter (\<lambda>e. lpm_matches (fst e) k) d))
      else map_of d k)"

definition key_ok :: "map_kind \<Rightarrow> nat \<Rightarrow> bytes \<Rightarrow> bool" where
  "key_ok kd ks k \<longleftrightarrow> length k = ks \<and> 0 < ks \<and> (kd = LPM_TRIE \<longrightarrow> ks = 8 \<and> network_ok (lpm_network k))"

definition kdict_ok :: "map_kind \<Rightarrow> nat \<Rightarrow> nat \<Rightarrow> (bytes, bytes) dict \<Rightarrow> bool" where
  "kdict_ok kd ks vs d \<longleftrightarrow> dict_ok d \<and> list_all (\<lambda>(k, v). key_ok kd ks k \<and> length v = vs) d"

text \<open>The key after \<open>cur\<close> in the order of enumeration, the first one after no key.\<close>

fun key_after :: "bytes \<Rightarrow> bytes list \<Rightarrow> bytes option" where
  "key_after k [] = None"
| "key_after k (x # xs) = (if x = k then (case xs of [] \<Rightarrow> None | y # _ \<Rightarrow> Some y) else key_after k xs)"

definition next_key :: "bytes list \<Rightarrow> bytes option \<Rightarrow> bytes option" where
  "next_key ks cur =
     (case cur of None \<Rightarrow> (case ks of [] \<Rightarrow> None | y # _ \<Rightarrow> Some y) | Some k \<Rightarrow> key_after k ks)"

lemma key_after_middle:
  "distinct (xs @ k # ys) \<Longrightarrow> key_after k (xs @ k # ys) = (case ys of [] \<Rightarrow> None | y # _ \<Rightarrow> Some y)"
  by (induction xs) auto

abbreviation last_key :: "bytes list \<Rightarrow> bytes option" where
  "last_key out \<equiv> (if out = [] then None else Some (last out))"

lemma next_key_split:
  assumes "distinct (out @ rest)"
  shows "next_key (out @ rest) (last_key out) = (case rest of [] \<Rightarrow> None | y # _ \<Rightarrow> Some y)"
proof (cases out rule: rev_cases)
  case (snoc xs k)
  with assms key_after_middle [of xs k rest] show ?thesis by (simp add: next_key_def)
qed (simp add: next_key_def)

lemma kdict_okD:
  "kdict_ok kd ks vs d \<Longrightarrow> (k, v) \<in> set d \<Longrightarrow> length k = ks \<and> 0 < ks \<and> length v = vs"
  by (auto simp: kdict_ok_def key_ok_def list_all_iff)

lemma kdict_ok_key: "kdict_ok kd ks vs d \<Longrightarrow> k \<in> fst ` set d \<Longrightarrow> key_ok kd ks k"
  by (auto simp: kdict_ok_def list_all_iff)

subsection \<open>Longest prefixes\<close>

lemma lpm_longest_None: "lpm_longest es = None \<longleftrightarrow> es = []"
  by (cases es) (auto split: option.splits)

lemma lpm_longest_Some:
  "lpm_longest es = Some e \<Longrightarrow>
    e \<in> set es \<and> (\<forall>f \<in> set es. prefixlen (lpm_network (fst f)) \<le> prefixlen (lpm_network (fst e)))"
proof (induction es arbitrary: e)
  case (Cons x es)
  show ?case
  proof (cases "lpm_longest es")
    case None
    with Cons show ?thesis by (simp add: lpm_longest_None)
  next
    case (Some f)
    with Cons.IH [OF Some] Cons.prems show ?thesis by (force split: if_splits)
  qed
qed simp

lemma kmap_find_lpm_None:
  "kmap_find LPM_TRIE d k = None \<longleftrightarrow> (\<forall>e \<in> fst ` set d. \<not> lpm_matches e k)"
  by (auto simp: kmap_find_def lpm_longest_None filter_empty_conv)

text \<open>Two canonical prefixes of one length that match one key are the same key.\<close>

lemma lpm_matches_unique:
  assumes "key_ok LPM_TRIE 8 e" "key_ok LPM_TRIE 8 f" "lpm_matches e k" "lpm_matches f k"
    and "prefixlen (lpm_network e) = prefixlen (lpm_network f)"
  shows "e = f"
proof -
  have "lpm_network e = lpm_network f"
    using assms by (intro network.equality) (auto simp: lpm_matches_def key_ok_def network_ok_def)
  moreover have "lpm_bytes (lpm_network x) = x" if "key_ok LPM_TRIE 8 x" for x
  proof -
    have l: "length x = 8" "length (take 4 x) = 4" using that by (simp_all add: key_ok_def)
    then have "le_bytes 4 (le_int (take 4 x)) = take 4 x" by (intro le_bytes_le_int) simp
    with l le_int_range(1) [of "take 4 x"] show ?thesis by (simp add: lpm_bytes_def lpm_network_def)
  qed
  ultimately show ?thesis using assms(1,2) by metis
qed

lemma kmap_find_lpm_Some:
  assumes "kdict_ok LPM_TRIE 8 vs d"
  shows "kmap_find LPM_TRIE d k = Some v \<longleftrightarrow>
    (\<exists>e. map_of d e = Some v \<and> lpm_matches e k \<and>
      (\<forall>f \<in> fst ` set d. lpm_matches f k \<longrightarrow> prefixlen (lpm_network f) \<le> prefixlen (lpm_network e)))"
    (is "_ \<longleftrightarrow> (\<exists>e. ?best e)")
proof
  have d: "dict_ok d" using assms by (simp add: kdict_ok_def)
  let ?m = "filter (\<lambda>e. lpm_matches (fst e) k) d"
  assume "kmap_find LPM_TRIE d k = Some v"
  then obtain e where e: "lpm_longest ?m = Some (e, v)"
    by (auto simp: kmap_find_def)
  from lpm_longest_Some [OF e] have "map_of d e = Some v" using d by auto
  moreover from lpm_longest_Some [OF e] have "?best e \<or> map_of d e \<noteq> Some v" by auto
  ultimately show "\<exists>e. ?best e" by blast
next
  assume "\<exists>e. ?best e"
  then obtain e where e: "?best e" by blast
  let ?m = "filter (\<lambda>e. lpm_matches (fst e) k) d"
  have d: "dict_ok d" using assms by (simp add: kdict_ok_def)
  have "(e, v) \<in> set ?m" using e by (auto dest: map_of_SomeD)
  then have "?m \<noteq> []" by (metis empty_iff empty_set)
  then obtain f u where f: "lpm_longest ?m = Some (f, u)"
    by (cases "lpm_longest ?m") (auto simp: lpm_longest_None)
  note fs = lpm_longest_Some [OF f]
  have "prefixlen (lpm_network e) \<le> prefixlen (lpm_network f)"
    using fs \<open>(e, v) \<in> set ?m\<close> by (metis fst_conv)
  moreover have "f \<in> fst ` set d" "lpm_matches f k" using fs by (force simp: image_iff)+
  then have "prefixlen (lpm_network f) \<le> prefixlen (lpm_network e)" using e by blast
  ultimately have "prefixlen (lpm_network f) = prefixlen (lpm_network e)" by simp
  moreover have "key_ok LPM_TRIE 8 f" "key_ok LPM_TRIE 8 e"
    using \<open>f \<in> fst ` set d\<close> \<open>(e, v) \<in> set ?m\<close> by (force intro!: kdict_ok_key [OF assms])+
  ultimately have "f = e" using fs e by (auto intro: lpm_matches_unique)
  with fs e d have "u = v" by (auto dest: map_of_is_SomeI)
  with f show "kmap_find LPM_TRIE d k = Some v" by (simp add: kmap_find_def)
qed

text \<open>What a lookup finds depends on the contents, not on the order.\<close>

lemma kmap_find_cong:
  assumes "kdict_ok kd ks vs d" "kdict_ok kd ks vs d'" "map_of d = map_of d'"
  shows "kmap_find kd d k = kmap_find kd d' k"
proof (cases "kd = LPM_TRIE \<and> d \<noteq> []")
  case True
  then have "ks = 8" using assms(1) by (cases d) (auto simp: kdict_ok_def key_ok_def)
  moreover have "fst ` set d = fst ` set d'" using assms(3) by (metis dom_map_of_conv_image_fst)
  ultimately show ?thesis
    using True assms kmap_find_lpm_Some [of vs d k] kmap_find_lpm_Some [of vs d' k]
    by (cases "kmap_find kd d k"; cases "kmap_find kd d' k") (metis option.distinct(1) option.inject)+
next
  case False
  have "d' = []" if "d = []" using that assms(3) by (cases d') (auto simp: fun_eq_iff split: if_splits)
  with False assms(3) show ?thesis by (auto simp: kmap_find_def)
qed

lemma lpm_find_self:
  assumes "kdict_ok LPM_TRIE 8 vs d" "(k, v) \<in> set d"
  shows "kmap_find LPM_TRIE d k = Some v"
proof -
  have "map_of d k = Some v" using assms by (simp add: kdict_ok_def)
  moreover have "lpm_matches k k" by (simp add: lpm_matches_def)
  moreover have "prefixlen (lpm_network f) \<le> prefixlen (lpm_network k)" if "lpm_matches f k" for f
    using that by (simp add: lpm_matches_def)
  ultimately show ?thesis using kmap_find_lpm_Some [OF assms(1)] by blast
qed

lemma find_self:
  assumes "kdict_ok kd ks vs d" "(k, v) \<in> set d"
  shows "kmap_find kd d k = Some v"
proof (cases "kd = LPM_TRIE")
  case True
  moreover have "ks = 8" using assms True by (auto simp: kdict_ok_def key_ok_def list_all_iff)
  ultimately show ?thesis using lpm_find_self assms by blast
next
  case False
  with assms show ?thesis by (simp add: kmap_find_def kdict_ok_def)
qed

section \<open>Buffers\<close>

lemma overlay_full: "length out = n \<Longrightarrow> overlay (zeros n) out = out"
  by (simp add: overlay_def zeros_def)

lemma overlay_exact: "length buf = length out \<Longrightarrow> overlay buf out = out"
  by (simp add: overlay_def)

lemma drop_concat:
  "(\<And>x. x \<in> set xs \<Longrightarrow> length x = n) \<Longrightarrow> drop (i * n) (concat xs) = concat (drop i xs)"
proof (induction i arbitrary: xs)
  case (Suc i)
  then show ?case by (cases xs) (auto simp: drop_drop [symmetric] simp del: drop_drop)
qed simp

lemma length_concat_same:
  "(\<And>x. x \<in> set xs \<Longrightarrow> length x = n) \<Longrightarrow> length (concat xs) = n * length xs"
  by (induction xs) auto

lemma slice_concat:
  assumes "\<And>x. x \<in> set xs \<Longrightarrow> length x = n" "i < length xs"
  shows "take n (drop (i * n) (concat xs @ ys)) = xs ! i"
proof -
  have "length (concat xs) = length xs * n"
    using length_concat_same [OF assms(1)] by (simp add: mult.commute)
  moreover have "Suc i * n \<le> length xs * n" using assms(2) by (intro mult_le_mono1) simp
  ultimately have "take n (drop (i * n) (concat xs @ ys)) = take n (drop (i * n) (concat xs))"
    by simp
  also have "\<dots> = take n (concat (drop i xs))" using assms(1) by (simp add: drop_concat)
  also have "\<dots> = xs ! i"
    using assms by (simp add: Cons_nth_drop_Suc [symmetric])
  finally show ?thesis .
qed

lemma slices_entries:
  assumes "\<And>k v. (k, v) \<in> set d \<Longrightarrow> length k = ks \<and> length v = vs"
    and "length d \<le> n" "length kbuf = ks * n" "length vbuf = vs * n"
  shows "batch_slices ks vs (length d) (overlay kbuf (concat (map fst d))) (overlay vbuf (concat (map snd d))) = d"
proof (rule nth_equalityI)
  have sizes: "x \<in> set (map fst d) \<Longrightarrow> length x = ks" "x \<in> set (map snd d) \<Longrightarrow> length x = vs" for x
    using assms(1) by auto
  then have ks: "length (concat (map fst d)) = ks * length d" and vs: "length (concat (map snd d)) = vs * length d"
    using length_concat_same [of "map fst d" ks] length_concat_same [of "map snd d" vs] by (metis length_map)+
  have "overlay kbuf (concat (map fst d)) = concat (map fst d) @ drop (ks * length d) kbuf"
    "overlay vbuf (concat (map snd d)) = concat (map snd d) @ drop (vs * length d) vbuf"
    using ks vs assms(2-4) by (simp_all add: overlay_def)
  moreover fix i
  assume "i < length (batch_slices ks vs (length d) (overlay kbuf (concat (map fst d))) (overlay vbuf (concat (map snd d))))"
  then have i: "i < length d" by (simp add: batch_slices_def)
  ultimately show "batch_slices ks vs (length d) (overlay kbuf (concat (map fst d))) (overlay vbuf (concat (map snd d))) ! i = d ! i"
    using slice_concat [of "map fst d" ks i "drop (ks * length d) kbuf"]
      slice_concat [of "map snd d" vs i "drop (vs * length d) vbuf"] sizes
    by (simp add: batch_slices_def del: take_append drop_append)
qed (simp add: batch_slices_def)

section \<open>The laws\<close>

text \<open>
  \<open>view w fd\<close> is the contents of the map behind a descriptor, \<open>pos d t\<close> the place in the
  enumeration of \<open>d\<close> that the token \<open>t\<close> of a batched read stands for, and \<open>clock\<close> the last
  reading of the monotonic clock.
\<close>

locale bpf_kernel =
  fixes os :: "'w os"
    and is_map :: "int \<Rightarrow> bool"
    and kind :: "int \<Rightarrow> map_kind"
    and ksize :: "int \<Rightarrow> nat"
    and vsize :: "int \<Rightarrow> nat"
    and inv :: "'w \<Rightarrow> bool"
    and view :: "'w \<Rightarrow> int \<Rightarrow> (bytes, bytes) dict"
    and pos :: "(bytes, bytes) dict \<Rightarrow> bytes \<Rightarrow> nat"
  assumes view_ok: "inv w \<Longrightarrow> is_map fd \<Longrightarrow> kdict_ok (kind fd) (ksize fd) (vsize fd) (view w fd)"
    and bpf_inv: "inv w \<Longrightarrow> os_bpf os call w = (rep, w') \<Longrightarrow> inv w'"
    and ktime_inv: "inv w \<Longrightarrow> os_ktime os w = (t, w') \<Longrightarrow> inv w'"
    and ktime_view: "os_ktime os w = (t, w') \<Longrightarrow> view w' = view w"
    and lookup_view: "os_bpf os (MAP_LOOKUP_ELEM fd key flags) w = (rep, w') \<Longrightarrow> view w' = view w"
    and next_view: "os_bpf os (MAP_GET_NEXT_KEY fd key) w = (rep, w') \<Longrightarrow> view w' = view w"
    and batch_view: "os_bpf os (MAP_LOOKUP_BATCH fd tok n flags) w = (rep, w') \<Longrightarrow> view w' = view w"
    and lookup_law: "inv w \<Longrightarrow> is_map fd \<Longrightarrow> key_ok (kind fd) (ksize fd) k \<Longrightarrow>
      os_bpf os (MAP_LOOKUP_ELEM fd (Some k) flags) w = (rep, w') \<Longrightarrow>
      (case kmap_find (kind fd) (view w fd) k of
         Some v \<Rightarrow> 0 \<le> rep_rc rep \<and> rep_value rep = v
       | None \<Rightarrow> rep_rc rep < 0 \<and> rep_errno rep = ENOENT)"
    and update_law: "inv w \<Longrightarrow> is_map fd \<Longrightarrow> key_ok (kind fd) (ksize fd) k \<Longrightarrow> length v = vsize fd \<Longrightarrow>
      os_bpf os (MAP_UPDATE_ELEM fd (Some k) v BPF_ANY) w = (rep, w') \<Longrightarrow>
      (\<forall>fd'. fd' \<noteq> fd \<longrightarrow> view w' fd' = view w fd') \<and>
      (if rep_rc rep < 0 then view w' fd = view w fd
       else map_of (view w' fd) = (map_of (view w fd))(k \<mapsto> v))"
    and replace_law: "inv w \<Longrightarrow> is_map fd \<Longrightarrow> k \<in> fst ` set (view w fd) \<Longrightarrow> length v = vsize fd \<Longrightarrow>
      os_bpf os (MAP_UPDATE_ELEM fd (Some k) v BPF_ANY) w = (rep, w') \<Longrightarrow> 0 \<le> rep_rc rep"
    and delete_law: "inv w \<Longrightarrow> is_map fd \<Longrightarrow> kind fd \<noteq> ARRAY \<Longrightarrow> key_ok (kind fd) (ksize fd) k \<Longrightarrow>
      os_bpf os (MAP_DELETE_ELEM fd (Some k)) w = (rep, w') \<Longrightarrow>
      (\<forall>fd'. fd' \<noteq> fd \<longrightarrow> view w' fd' = view w fd') \<and>
      map_of (view w' fd) = (map_of (view w fd))(k := None) \<and>
      (if k \<in> fst ` set (view w fd) then 0 \<le> rep_rc rep else rep_rc rep < 0 \<and> rep_errno rep = ENOENT)"
    and next_law: "inv w \<Longrightarrow> is_map fd \<Longrightarrow> (\<forall>k. cur = Some k \<longrightarrow> k \<in> fst ` set (view w fd)) \<Longrightarrow>
      os_bpf os (MAP_GET_NEXT_KEY fd cur) w = (rep, w') \<Longrightarrow>
      (case next_key (map fst (view w fd)) cur of
         Some k \<Rightarrow> 0 \<le> rep_rc rep \<and> rep_value rep = k
       | None \<Rightarrow> rep_rc rep < 0 \<and> rep_errno rep = ENOENT)"
    and batch_law: "inv w \<Longrightarrow> is_map fd \<Longrightarrow> 0 < n \<Longrightarrow>
      os_bpf os (MAP_LOOKUP_BATCH fd tok n flags) w = (rep, w') \<Longrightarrow>
      p = (case tok of None \<Rightarrow> 0 | Some t \<Rightarrow> pos (view w fd) t) \<Longrightarrow> p \<le> length (view w fd) \<Longrightarrow>
      tok = None \<and> rep_rc rep < 0 \<and> rep_errno rep \<in> {EINVAL, ENOTSUPP} \<or>
      rep_count rep \<le> n \<and> p + rep_count rep \<le> length (view w fd) \<and>
      rep_keys rep = concat (map fst (take (rep_count rep) (drop p (view w fd)))) \<and>
      rep_value rep = concat (map snd (take (rep_count rep) (drop p (view w fd)))) \<and>
      (if rep_rc rep < 0 then rep_errno rep = ENOENT \<and> p + rep_count rep = length (view w fd)
       else 0 < rep_count rep \<and> length (rep_token rep) = 8 \<and>
         pos (view w fd) (rep_token rep) = p + rep_count rep)"
begin

definition handle :: "bpfmap \<Rightarrow> bool" where
  "handle m \<longleftrightarrow> is_map (bm_fd m) \<and> bm_key_size m = ksize (bm_fd m) \<and> bm_value_size m = vsize (bm_fd m)"

abbreviation contents :: "'w \<Rightarrow> bpfmap \<Rightarrow> (bytes, bytes) dict" where
  "contents w m \<equiv> view w (bm_fd m)"

abbreviation good_key :: "bpfmap \<Rightarrow> bytes \<Rightarrow> bool" where
  "good_key m k \<equiv> key_ok (kind (bm_fd m)) (ksize (bm_fd m)) k"

lemma contents_ok:
  "inv w \<Longrightarrow> handle m \<Longrightarrow> kdict_ok (kind (bm_fd m)) (ksize (bm_fd m)) (vsize (bm_fd m)) (contents w m)"
  by (simp add: handle_def view_ok)

lemma good_key_buffer: "handle m \<Longrightarrow> good_key m k \<Longrightarrow> key_buffer m (Some k) = Inr (Some k)"
  by (auto simp: key_buffer_def handle_def key_ok_def)

lemma find_length:
  assumes "inv w" "handle m" "kmap_find (kind (bm_fd m)) (contents w m) k = Some v"
  shows "length v = bm_value_size m"
proof -
  have ok: "kdict_ok (kind (bm_fd m)) (ksize (bm_fd m)) (vsize (bm_fd m)) (contents w m)"
    using assms by (simp add: contents_ok)
  have "\<exists>e. (e, v) \<in> set (contents w m)"
    using assms(3) lpm_longest_Some
    by (fastforce simp: kmap_find_def dest: map_of_SomeD split: if_splits)
  with kdict_okD [OF ok] assms(2) show ?thesis by (auto simp: handle_def)
qed

lemma lookup_run:
  assumes "inv w" "handle m" "good_key m k" "bpfmap_lookup os m k flags w = (r, w')"
  shows "r = Inr (kmap_find (kind (bm_fd m)) (contents w m) k) \<and> view w' = view w \<and> inv w'"
proof -
  obtain rep w1 where rep: "os_bpf os (MAP_LOOKUP_ELEM (bm_fd m) (Some k) flags) w = (rep, w1)" by fastforce
  note law = lookup_law [OF assms(1) _ assms(3) rep] lookup_view [OF rep] bpf_inv [OF assms(1) rep]
  show ?thesis
    using assms(2,4) law rep find_length [OF assms(1,2), of k]
    by (auto simp: bpfmap_lookup_def bpf_elem_def bpf_def io_simps good_key_buffer [OF assms(2,3)]
        handle_def overlay_full split: option.splits)
qed

lemma update_run:
  assumes "inv w" "handle m" "good_key m k" "length v = bm_value_size m"
    and "bpfmap_update os m k v BPF_ANY w = (r, w')"
  shows "inv w' \<and> (\<forall>fd. fd \<noteq> bm_fd m \<longrightarrow> view w' fd = view w fd) \<and>
    (case r of Inl e \<Rightarrow> view w' = view w \<and> (\<exists>n msg. e = BpfError n msg)
     | Inr _ \<Rightarrow> map_of (contents w' m) = (map_of (contents w m))(k \<mapsto> v)) \<and>
    (k \<in> fst ` set (contents w m) \<longrightarrow> is_ok r)"
proof -
  obtain rep w1 where rep: "os_bpf os (MAP_UPDATE_ELEM (bm_fd m) (Some k) v BPF_ANY) w = (rep, w1)" by fastforce
  have h: "is_map (bm_fd m)" "length v = vsize (bm_fd m)" using assms(2,4) by (simp_all add: handle_def)
  note law = update_law [OF assms(1) h(1) assms(3) h(2) rep] bpf_inv [OF assms(1) rep]
    replace_law [OF assms(1) h(1) _ h(2) rep]
  have "view w1 = view w" if "rep_rc rep < 0"
    using law(1) that by (intro ext) (metis (full_types))
  then show ?thesis
    using assms(4,5) law rep
    by (auto simp: bpfmap_update_def bpf_elem_def bpf_def io_simps good_key_buffer [OF assms(2,3)]
        bpf_raise_def split: if_splits)
qed

lemma delete_run:
  assumes "inv w" "handle m" "kind (bm_fd m) \<noteq> ARRAY" "good_key m k"
    and "bpfmap_delete os m k w = (r, w')"
  shows "inv w' \<and> (\<forall>fd. fd \<noteq> bm_fd m \<longrightarrow> view w' fd = view w fd) \<and>
    r = Inr (k \<in> fst ` set (contents w m)) \<and>
    map_of (contents w' m) = (map_of (contents w m))(k := None)"
proof -
  obtain rep w1 where rep: "os_bpf os (MAP_DELETE_ELEM (bm_fd m) (Some k)) w = (rep, w1)" by fastforce
  have h: "is_map (bm_fd m)" using assms(2) by (simp add: handle_def)
  note law = delete_law [OF assms(1) h assms(3,4) rep] bpf_inv [OF assms(1) rep]
  show ?thesis
    using assms(5) law rep
    by (auto simp: bpfmap_delete_def bpf_elem_def bpf_def io_simps good_key_buffer [OF assms(2,4)]
        split: if_splits)
qed

text \<open>The walk returns the keys in the kernel's order, and within its bound it ends.\<close>

lemma next_run:
  assumes "inv w" "handle m" "map fst (contents w m) = out @ rest"
  obtains rep w1 where "bpf_elem os m (MAP_GET_NEXT_KEY (bm_fd m)) (last_key out) w = (Inr rep, w1)"
    "view w1 = view w" "inv w1"
    "case rest of [] \<Rightarrow> rep_rc rep < 0 \<and> rep_errno rep = ENOENT | k # _ \<Rightarrow> 0 \<le> rep_rc rep \<and> rep_value rep = k"
proof -
  obtain rep w1 where rep: "os_bpf os (MAP_GET_NEXT_KEY (bm_fd m) (last_key out)) w = (rep, w1)" by fastforce
  note ok = contents_ok [OF assms(1,2)]
  have keys: "fst ` set (contents w m) = set (out @ rest)" using assms(3) by (metis set_map)
  have "distinct (out @ rest)" using ok assms(3) by (simp add: kdict_ok_def)
  then have next_is: "next_key (map fst (contents w m)) (last_key out) = (case rest of [] \<Rightarrow> None | y # _ \<Rightarrow> Some y)"
    using assms(3) by (simp only: next_key_split)
  have "key_buffer m (last_key out) = Inr (last_key out)"
  proof (cases "out = []")
    case False
    then have "last out \<in> fst ` set (contents w m)" using keys by simp
    then have "good_key m (last out)" by (rule kdict_ok_key [OF ok])
    with False good_key_buffer [OF assms(2)] show ?thesis by simp
  qed (simp add: key_buffer_def)
  then have run: "bpf_elem os m (MAP_GET_NEXT_KEY (bm_fd m)) (last_key out) w = (Inr rep, w1)"
    using rep by (simp add: bpf_elem_def bpf_def io_simps)
  have "is_map (bm_fd m)" using assms(2) by (simp add: handle_def)
  moreover have "\<forall>k. last_key out = Some k \<longrightarrow> k \<in> fst ` set (contents w m)" using keys by auto
  ultimately have "case (case rest of [] \<Rightarrow> None | y # _ \<Rightarrow> Some y) of
      Some k \<Rightarrow> 0 \<le> rep_rc rep \<and> rep_value rep = k | None \<Rightarrow> rep_rc rep < 0 \<and> rep_errno rep = ENOENT"
    using next_law [OF assms(1) _ _ rep] by (simp only: next_is)
  with run next_view [OF rep] bpf_inv [OF assms(1) rep] show thesis
    by (intro that) (auto split: list.splits)
qed

lemma keys_loop_run:
  assumes "inv w" "handle m" "map fst (contents w m) = out @ rest" "length (contents w m) \<le> WALK_LIMIT"
    and "length nxt = bm_key_size m"
  shows "\<exists>w'. keys_loop os m out (last_key out) nxt w = (Inr (out @ rest), w') \<and> view w' = view w \<and> inv w'"
  using assms
proof (induction rest arbitrary: out nxt w)
  case Nil
  obtain rep w1 where "bpf_elem os m (MAP_GET_NEXT_KEY (bm_fd m)) (last_key out) w = (Inr rep, w1)"
    "view w1 = view w" "inv w1" "rep_rc rep < 0 \<and> rep_errno rep = ENOENT"
    using next_run [OF Nil.prems(1-3)] by auto
  then show ?case by (subst keys_loop.simps) (simp add: walk_turn_def)
next
  case (Cons k rest)
  obtain rep w1 where rep: "bpf_elem os m (MAP_GET_NEXT_KEY (bm_fd m)) (last_key out) w = (Inr rep, w1)"
    "view w1 = view w" "inv w1" "0 \<le> rep_rc rep \<and> rep_value rep = k"
    using next_run [OF Cons.prems(1-3)] by auto
  have "k \<in> fst ` set (contents w m)" using Cons.prems(3) by (metis in_set_conv_decomp set_map)
  then have k: "length k = bm_key_size m"
    using kdict_ok_key [OF contents_ok [OF Cons.prems(1,2)]] Cons.prems(2) by (simp add: key_ok_def handle_def)
  have "length (out @ [k]) \<le> WALK_LIMIT"
    using arg_cong [OF Cons.prems(3), of length] Cons.prems(4) by simp
  then have turn: "walk_turn m out nxt rep = Inr k"
    using rep k Cons.prems(5) by (simp add: walk_turn_def overlay_exact)
  have "\<exists>w'. keys_loop os m (out @ [k]) (last_key (out @ [k])) k w1 =
      (Inr ((out @ [k]) @ rest), w') \<and> view w' = view w1 \<and> inv w'"
    using Cons.prems rep k by (intro Cons.IH) simp_all
  then show ?case
    by (subst keys_loop.simps) (simp add: rep turn)
qed

lemma keys_run:
  assumes "inv w" "handle m" "length (contents w m) \<le> WALK_LIMIT" "bpfmap_keys os m w = (r, w')"
  shows "r = Inr (map fst (contents w m)) \<and> view w' = view w \<and> inv w'"
  using keys_loop_run [OF assms(1,2) _ assms(3), of "[]" "map fst (contents w m)" "zeros (bm_key_size m)"] assms(4)
  by (auto simp: bpfmap_keys_def zeros_def)

text \<open>The batched read returns every entry, or says that the kernel has no batches.\<close>

lemma batch_run:
  assumes "inv w" "handle m" "os_bpf os (MAP_LOOKUP_BATCH (bm_fd m) tok CHUNK flags) w = (rep, w1)"
    and "p = (case tok of None \<Rightarrow> 0 | Some t \<Rightarrow> pos (contents w m) t)" "p \<le> length (contents w m)"
    and "length kbuf = bm_key_size m * CHUNK" "length vbuf = bm_value_size m * CHUNK"
  obtains "tok = None" "rep_rc rep < 0" "rep_errno rep \<in> {EINVAL, ENOTSUPP}"
  | n where "rep_count rep = n" "p + n \<le> length (contents w m)"
    "batch_slices (bm_key_size m) (bm_value_size m) n (overlay kbuf (rep_keys rep)) (overlay vbuf (rep_value rep)) =
       take n (drop p (contents w m))"
    "if rep_rc rep < 0 then rep_errno rep = ENOENT \<and> p + n = length (contents w m)
     else 0 < n \<and> length (rep_token rep) = 8 \<and> pos (contents w m) (rep_token rep) = p + n"
proof -
  have h: "is_map (bm_fd m)" using assms(2) by (simp add: handle_def)
  let ?n = "rep_count rep" and ?d = "take (rep_count rep) (drop p (contents w m))"
  have "batch_slices (bm_key_size m) (bm_value_size m) ?n (overlay kbuf (rep_keys rep)) (overlay vbuf (rep_value rep)) = ?d"
    if "?n \<le> CHUNK" "p + ?n \<le> length (contents w m)" "rep_keys rep = concat (map fst ?d)"
      "rep_value rep = concat (map snd ?d)"
  proof -
    have len: "length ?d = ?n" using that(2) by simp
    have "length k = bm_key_size m \<and> length v = bm_value_size m" if "(k, v) \<in> set ?d" for k v
    proof -
      have "(k, v) \<in> set (contents w m)" using that by (meson in_set_dropD in_set_takeD)
      with kdict_okD [OF contents_ok [OF assms(1,2)]] assms(2) show ?thesis by (simp add: handle_def)
    qed
    from slices_entries [OF this, where n = CHUNK and kbuf = kbuf and vbuf = vbuf, of ?d] that(1) assms(6,7) len
    show ?thesis unfolding that(3,4) by simp
  qed
  moreover have "0 < CHUNK" by (simp add: CHUNK_def)
  ultimately show thesis using batch_law [OF assms(1) h _ assms(3,4,5)] that by blast
qed

lemma batch_loop_run:
  assumes "inv w" "handle m" "out = take p (contents w m)" "p \<le> length (contents w m)"
    and "p = (case tok of None \<Rightarrow> 0 | Some t \<Rightarrow> pos (contents w m) t)"
    and "length (contents w m) - p < fuel"
    and "length kbuf = bm_key_size m * CHUNK" "length vbuf = bm_value_size m * CHUNK" "length tbuf = 8"
  shows "\<exists>ro w'. batch_loop fuel os m flags out tok (kbuf, vbuf, tbuf) w = (Inr ro, w') \<and>
    (ro = Some (contents w m) \<or> tok = None \<and> ro = None) \<and> view w' = view w \<and> inv w'"
  using assms
proof (induction fuel arbitrary: w out p tok kbuf vbuf tbuf)
  case (Suc fuel)
  obtain rep w1 where rep: "os_bpf os (MAP_LOOKUP_BATCH (bm_fd m) tok CHUNK flags) w = (rep, w1)" by fastforce
  note w1 = batch_view [OF rep] bpf_inv [OF Suc.prems(1) rep]
  show ?case
    using Suc.prems(1,2) rep Suc.prems(5,4,7,8)
  proof (cases rule: batch_run)
    case 1
    with w1 rep show ?thesis by (auto simp: bpf_def io_simps errnos)
  next
    case (2 n)
    have out: "out @ take n (drop p (contents w m)) = take (p + n) (contents w m)"
      using Suc.prems(3) by (simp add: take_add)
    show ?thesis
    proof (cases "rep_rc rep < 0")
      case True
      with 2 w1 rep out show ?thesis by (simp add: bpf_def io_simps Let_def)
    next
      case False
      let ?k = "overlay kbuf (rep_keys rep)" and ?v = "overlay vbuf (rep_value rep)"
        and ?t = "overlay tbuf (rep_token rep)"
      have t: "?t = rep_token rep" using 2 False Suc.prems(9) by (simp add: overlay_exact)
      have "\<exists>ro w'. batch_loop fuel os m flags (take (p + n) (contents w m)) (Some ?t) (?k, ?v, ?t) w1 = (Inr ro, w') \<and>
          (ro = Some (contents w1 m) \<or> Some ?t = None \<and> ro = None) \<and> view w' = view w1 \<and> inv w'"
        using 2 False w1 Suc.prems t by (intro Suc.IH [of _ _ "p + n"]) (auto simp: overlay_def)
      with 2 False w1 rep out show ?thesis by (simp add: bpf_def io_simps Let_def) blast
    qed
  qed
qed simp

lemma batch_total:
  assumes "inv w" "handle m" "length (contents w m) < os_fuel os" "bpfmap_batch os m flags w = (r, w')"
  shows "(r = Inr (Some (contents w m)) \<or> r = Inr None) \<and> view w' = view w \<and> inv w'"
  using batch_loop_run [OF assms(1,2), of "[]" 0 None "os_fuel os" "zeros (bm_key_size m * CHUNK)"
      "zeros (bm_value_size m * CHUNK)" "zeros 8" flags] assms(3,4)
  by (auto simp: bpfmap_batch_def zeros_def)

text \<open>Key by key, in a hash, the same entries.\<close>

lemma read_keys_run:
  assumes "inv w" "handle m" "set d \<subseteq> set (contents w m)"
  shows "\<exists>w'. read_keys os m flags (map fst d) w = (Inr d, w') \<and> view w' = view w \<and> inv w'"
  using assms
proof (induction d arbitrary: w)
  case (Cons e d)
  obtain k v where e: "e = (k, v)" by fastforce
  note ok = contents_ok [OF Cons.prems(1,2)]
  have kv: "(k, v) \<in> set (contents w m)" using Cons.prems(3) e by simp
  obtain r w1 where l: "bpfmap_lookup os m k flags w = (r, w1)" by fastforce
  have "good_key m k" using kv by (intro kdict_ok_key [OF ok]) force
  from lookup_run [OF Cons.prems(1,2) this l] find_self [OF ok kv]
  have w1: "r = Inr (Some v)" "view w1 = view w" "inv w1" by auto
  then have "\<exists>w'. read_keys os m flags (map fst d) w1 = (Inr d, w') \<and> view w' = view w1 \<and> inv w'"
    using Cons.prems by (intro Cons.IH) simp_all
  with l w1 show ?case by (auto simp: e io_simps)
qed (simp add: io_simps)

lemma items_run:
  assumes "inv w" "handle m" "length (contents w m) < os_fuel os" "length (contents w m) \<le> WALK_LIMIT"
    and "bpfmap_items os m flags w = (r, w')"
  shows "r = Inr (contents w m) \<and> view w' = view w \<and> inv w'"
proof -
  obtain rb w1 where b: "bpfmap_batch os m flags w = (rb, w1)" by fastforce
  note w1 = batch_total [OF assms(1-3) b]
  show ?thesis
  proof (cases "rb = Inr None")
    case True
    obtain rk w2 where k: "bpfmap_keys os m w1 = (rk, w2)" by fastforce
    have w2: "rk = Inr (map fst (contents w m))" "view w2 = view w" "inv w2"
      using keys_run [OF _ assms(2) _ k] w1 assms(4) by auto
    with read_keys_run [of w2 m "contents w m" flags] assms(2,5) b True k show ?thesis
      by (auto simp: bpfmap_items_def io_simps)
  next
    case False
    with w1 b assms(5) show ?thesis by (auto simp: bpfmap_items_def io_simps)
  qed
qed

lemma delete_each_run:
  assumes "inv w" "handle m" "kind (bm_fd m) \<noteq> ARRAY" "list_all (good_key m) ks"
    and "delete_each os m ks w = (r, w')"
  shows "inv w' \<and> (\<forall>fd. fd \<noteq> bm_fd m \<longrightarrow> view w' fd = view w fd) \<and> r = Inr () \<and>
    map_of (contents w' m) = (map_of (contents w m)) |` (- set ks)"
  using assms
proof (induction ks arbitrary: w)
  case (Cons k ks)
  obtain rd w1 where d: "bpfmap_delete os m k w = (rd, w1)" by fastforce
  have g: "good_key m k" "list_all (good_key m) ks" using Cons.prems(4) by simp_all
  note w1 = delete_run [OF Cons.prems(1-3) g(1) d]
  then have "delete_each os m ks w1 = (r, w')"
    using Cons.prems(5) d by (simp add: io_simps)
  from Cons.IH [OF _ Cons.prems(2,3) g(2) this] w1 show ?case
    by (auto simp: restrict_map_def fun_eq_iff)
qed (simp add: io_simps restrict_map_def)

end

end
