(* ===== verification/Ref_Kernel.thy ===== *)
theory Ref_Kernel
  imports Bpf_Kernel
begin

text \<open>
  A reference kernel: the six pinned maps with the types, sizes and capacities that
  \<open>bpf/firewall.bpf.c\<close> and \<open>bpf/common.h\<close> declare, two possible CPUs, and a monotonic clock
  that moves on by a fixed step at every reading. It satisfies the laws of \<open>bpf_kernel\<close>, so
  they can be met; the examples of the other theories run on it, and the model of the data
  plane works on the same maps.
\<close>

definition REF_CPUS :: nat where "REF_CPUS = 2"

definition MAX_ALLOWLIST :: nat where "MAX_ALLOWLIST = 1024"
definition MAX_BLOCKLIST :: nat where "MAX_BLOCKLIST = 4096"
definition MAX_PORT_RULES :: nat where "MAX_PORT_RULES = 1024"
definition C_MAX_TRACKED :: nat where "C_MAX_TRACKED = 32768"
definition STAT_MAX :: nat where "STAT_MAX = length c_stat_index"

record map_decl =
  md_name :: string
  md_kind :: map_kind
  md_ksize :: nat
  md_vsize :: nat
  md_max :: nat

definition map_decls :: "map_decl list" where
  "map_decls = [
     \<lparr>md_name = ''allowlist'', md_kind = LPM_TRIE, md_ksize = 8, md_vsize = 16, md_max = MAX_ALLOWLIST\<rparr>,
     \<lparr>md_name = ''blocklist'', md_kind = LPM_TRIE, md_ksize = 8, md_vsize = 24, md_max = MAX_BLOCKLIST\<rparr>,
     \<lparr>md_name = ''portrules'', md_kind = HASH, md_ksize = 4, md_vsize = 16 * REF_CPUS, md_max = MAX_PORT_RULES\<rparr>,
     \<lparr>md_name = ''srcstate'', md_kind = HASH, md_ksize = 4, md_vsize = 104, md_max = C_MAX_TRACKED\<rparr>,
     \<lparr>md_name = ''stats'', md_kind = ARRAY, md_ksize = 4, md_vsize = 8 * REF_CPUS, md_max = STAT_MAX\<rparr>,
     \<lparr>md_name = ''config'', md_kind = ARRAY, md_ksize = 4, md_vsize = 32, md_max = 1\<rparr>]"

record kernel =
  k_maps :: "(bytes, bytes) dict list"
  k_batches :: bool
  k_info :: bytes
  k_clock :: int
  k_step :: int

definition FIRST_FD :: int where "FIRST_FD = 3"

definition ref_is_map :: "int \<Rightarrow> bool" where
  "ref_is_map fd \<longleftrightarrow> FIRST_FD \<le> fd \<and> fd < FIRST_FD + int (length map_decls)"

definition decl_of :: "int \<Rightarrow> map_decl" where
  "decl_of fd = map_decls ! nat (fd - FIRST_FD)"

definition ref_view :: "kernel \<Rightarrow> int \<Rightarrow> (bytes, bytes) dict" where
  "ref_view w fd = (if ref_is_map fd then k_maps w ! nat (fd - FIRST_FD) else [])"

definition ref_set :: "int \<Rightarrow> (bytes, bytes) dict \<Rightarrow> kernel \<Rightarrow> kernel" where
  "ref_set fd d w = w\<lparr>k_maps := (k_maps w)[nat (fd - FIRST_FD) := d]\<rparr>"

text \<open>An array holds all its elements, from index zero on, at any time.\<close>

definition decl_dict_ok :: "map_decl \<Rightarrow> (bytes, bytes) dict \<Rightarrow> bool" where
  "decl_dict_ok md d \<longleftrightarrow> kdict_ok (md_kind md) (md_ksize md) (md_vsize md) d \<and> length d \<le> md_max md \<and>
     (md_kind md = ARRAY \<longrightarrow> map fst d = map (\<lambda>i. le_bytes 4 (int i)) [0..<md_max md])"

definition kernel_ok :: "kernel \<Rightarrow> bool" where
  "kernel_ok w \<longleftrightarrow> length (k_maps w) = length map_decls \<and>
     list_all (\<lambda>(md, d). decl_dict_ok md d) (zip map_decls (k_maps w))"

definition reply :: "int \<Rightarrow> int \<Rightarrow> bytes \<Rightarrow> bpf_reply" where
  "reply rc err val =
     \<lparr>rep_rc = rc, rep_errno = err, rep_value = val, rep_keys = [], rep_token = [], rep_count = 0\<rparr>"

definition fails :: "int \<Rightarrow> bpf_reply" where
  "fails err = reply (- 1) err []"

definition EBADF :: int where "EBADF = 9"

text \<open>A full hash or array answers \<open>E2BIG\<close>, a full trie \<open>ENOSPC\<close>.\<close>

definition ref_update :: "int \<Rightarrow> bytes option \<Rightarrow> bytes \<Rightarrow> kernel \<Rightarrow> bpf_reply \<times> kernel" where
  "ref_update fd key v w =
     (let md = decl_of fd; d = ref_view w fd in
      case key of
        None \<Rightarrow> (fails EINVAL, w)
      | Some k \<Rightarrow>
          if \<not> (key_ok (md_kind md) (md_ksize md) k \<and> length v = md_vsize md) then (fails EINVAL, w)
          else if map_of d k \<noteq> None \<or> md_kind md \<noteq> ARRAY \<and> length d < md_max md
            then (reply 0 0 [], ref_set fd (dict_set k v d) w)
          else (fails (if md_kind md = LPM_TRIE then ENOSPC else E2BIG), w))"

definition ref_delete :: "int \<Rightarrow> bytes option \<Rightarrow> kernel \<Rightarrow> bpf_reply \<times> kernel" where
  "ref_delete fd key w =
     (let d = ref_view w fd in
      case key of
        None \<Rightarrow> (fails EINVAL, w)
      | Some k \<Rightarrow>
          if md_kind (decl_of fd) = ARRAY then (fails EINVAL, w)
          else if map_of d k = None then (fails ENOENT, w)
          else (reply 0 0 [], ref_set fd (dict_del k d) w))"

definition ref_lookup :: "int \<Rightarrow> bytes option \<Rightarrow> kernel \<Rightarrow> bpf_reply" where
  "ref_lookup fd key w =
     (case key of
        None \<Rightarrow> fails EINVAL
      | Some k \<Rightarrow> (case kmap_find (md_kind (decl_of fd)) (ref_view w fd) k of
          None \<Rightarrow> fails ENOENT | Some v \<Rightarrow> reply 0 0 v))"

text \<open>A key that is not in the map restarts the walk.\<close>

definition ref_next :: "int \<Rightarrow> bytes option \<Rightarrow> kernel \<Rightarrow> bpf_reply" where
  "ref_next fd cur w =
     (let ks = map fst (ref_view w fd);
          start = (case cur of Some k \<Rightarrow> if List.member ks k then Some k else None | None \<Rightarrow> None) in
      case next_key ks start of None \<Rightarrow> fails ENOENT | Some k \<Rightarrow> reply 0 0 k)"

definition token_pos :: "bytes \<Rightarrow> nat" where
  "token_pos t = nat (le_int t)"

definition ref_batch :: "int \<Rightarrow> bytes option \<Rightarrow> nat \<Rightarrow> kernel \<Rightarrow> bpf_reply" where
  "ref_batch fd tok n w =
     (if \<not> k_batches w \<and> tok = None then (fails ENOTSUPP)\<lparr>rep_count := n\<rparr>
      else let d = ref_view w fd; p = (case tok of None \<Rightarrow> 0 | Some t \<Rightarrow> token_pos t);
               es = take n (drop p d); c = length es; done = (p + c \<ge> length d) in
        \<lparr>rep_rc = (if done then - 1 else 0), rep_errno = (if done then ENOENT else 0),
         rep_value = concat (map snd es), rep_keys = concat (map fst es),
         rep_token = le_bytes 8 (int (p + c)), rep_count = c\<rparr>)"

definition PROG_FD :: int where "PROG_FD = 9"

definition ref_open :: "string \<Rightarrow> bpf_reply" where
  "ref_open path =
     (case find (\<lambda>(i, md). path = PIN_DIR @ ''/'' @ md_name md) (py_enumerate map_decls) of
        Some (i, _) \<Rightarrow> reply (FIRST_FD + i) 0 []
      | None \<Rightarrow> if path = PIN_DIR @ ''/xdp_firewall'' then reply PROG_FD 0 [] else fails ENOENT)"

fun ref_bpf :: "bpf_call \<Rightarrow> kernel \<Rightarrow> bpf_reply \<times> kernel" where
  "ref_bpf (OBJ_GET path) w = (ref_open path, w)"
| "ref_bpf (MAP_LOOKUP_ELEM fd key flags) w = ((if ref_is_map fd then ref_lookup fd key w else fails EBADF), w)"
| "ref_bpf (MAP_UPDATE_ELEM fd key v flags) w = (if ref_is_map fd then ref_update fd key v w else (fails EBADF, w))"
| "ref_bpf (MAP_DELETE_ELEM fd key) w = (if ref_is_map fd then ref_delete fd key w else (fails EBADF, w))"
| "ref_bpf (MAP_GET_NEXT_KEY fd key) w = ((if ref_is_map fd then ref_next fd key w else fails EBADF), w)"
| "ref_bpf (MAP_LOOKUP_BATCH fd tok n flags) w = ((if ref_is_map fd then ref_batch fd tok n w else fails EBADF), w)"
| "ref_bpf (OBJ_GET_INFO_BY_FD fd n) w = ((if fd = PROG_FD then reply 0 0 (take n (k_info w)) else fails EBADF), w)"

definition ref_os :: "kernel os" where
  "ref_os = \<lparr>
     os_bpf = ref_bpf,
     os_close = (\<lambda>fd. io_return ()),
     os_possible = (\<lambda>w. (Some ''0-1'', w)),
     os_cpu_count = Some 2,
     os_ktime = (\<lambda>w. (k_clock w, w\<lparr>k_clock := k_clock w + k_step w\<rparr>)),
     os_fuel = 40000\<rparr>"

section \<open>The reference kernel obeys the laws\<close>

lemma ref_view_ok:
  assumes "kernel_ok w" "ref_is_map fd"
  shows "decl_dict_ok (decl_of fd) (ref_view w fd)"
proof -
  let ?i = "nat (fd - FIRST_FD)"
  have i: "?i < length map_decls" using assms(2) by (auto simp: ref_is_map_def)
  then have "(map_decls ! ?i, k_maps w ! ?i) \<in> set (zip map_decls (k_maps w))"
    using assms(1) by (auto simp: kernel_ok_def in_set_zip)
  with assms show ?thesis by (auto simp: kernel_ok_def ref_view_def decl_of_def list_all_iff)
qed

lemma ref_set_ok:
  assumes "kernel_ok w" "ref_is_map fd" "decl_dict_ok (decl_of fd) d"
  shows "kernel_ok (ref_set fd d w)"
proof -
  have "list_all (\<lambda>(md, d). decl_dict_ok md d) (zip map_decls ((k_maps w)[nat (fd - FIRST_FD) := d]))"
    using assms
    by (auto simp: kernel_ok_def list_all_length nth_list_update decl_of_def ref_is_map_def)
  with assms(1) show ?thesis by (simp add: kernel_ok_def ref_set_def)
qed

lemma ref_view_set:
  "kernel_ok w \<Longrightarrow> ref_is_map fd \<Longrightarrow> ref_view (ref_set fd d w) fd' = (if fd' = fd then d else ref_view w fd')"
  by (auto simp: ref_view_def ref_set_def kernel_ok_def ref_is_map_def nth_list_update)

lemma kdict_ok_set:
  "kdict_ok kd ks vs d \<Longrightarrow> key_ok kd ks k \<Longrightarrow> length v = vs \<Longrightarrow> kdict_ok kd ks vs (dict_set k v d)"
proof -
  assume a: "kdict_ok kd ks vs d" "key_ok kd ks k" "length v = vs"
  have "list_all P (dict_set k v d)" if "list_all P d" "P (k, v)" for P
    using that by (induction d) (auto simp: dict_set_def)
  with a show ?thesis by (auto simp: kdict_ok_def)
qed

lemma kdict_ok_del: "kdict_ok kd ks vs d \<Longrightarrow> kdict_ok kd ks vs (dict_del k d)"
  by (auto simp: kdict_ok_def dict_del_def AList.delete_eq list_all_iff distinct_map_filter)

lemma length_dict_set: "length (dict_set k v d) = (if map_of d k = None then Suc (length d) else length d)"
  by (induction d) (auto simp: dict_set_def)

lemma length_dict_del: "length (dict_del k d) \<le> length d"
  by (simp add: dict_del_def length_delete_le)

lemma keys_dict_set_old: "map_of d k = Some y \<Longrightarrow> map fst (dict_set k v d) = map fst d"
  by (induction d) (auto simp: dict_set_def split: if_splits)

lemma decl_dict_ok_set:
  "decl_dict_ok md d \<Longrightarrow> key_ok (md_kind md) (md_ksize md) k \<Longrightarrow> length v = md_vsize md \<Longrightarrow>
    map_of d k \<noteq> None \<or> md_kind md \<noteq> ARRAY \<and> length d < md_max md \<Longrightarrow> decl_dict_ok md (dict_set k v d)"
  by (auto simp: decl_dict_ok_def length_dict_set kdict_ok_set keys_dict_set_old)

lemma decl_dict_ok_del: "decl_dict_ok md d \<Longrightarrow> md_kind md \<noteq> ARRAY \<Longrightarrow> decl_dict_ok md (dict_del k d)"
  using length_dict_del [of k d] by (auto simp: decl_dict_ok_def kdict_ok_del)

lemma ref_update_ok: "kernel_ok w \<Longrightarrow> ref_is_map fd \<Longrightarrow> kernel_ok (snd (ref_update fd key v w))"
  using ref_view_ok [of w fd]
  by (auto simp: ref_update_def Let_def split: option.splits intro!: ref_set_ok decl_dict_ok_set)

lemma ref_delete_ok: "kernel_ok w \<Longrightarrow> ref_is_map fd \<Longrightarrow> kernel_ok (snd (ref_delete fd key w))"
  using ref_view_ok [of w fd]
  by (auto simp: ref_delete_def Let_def split: option.splits intro!: ref_set_ok decl_dict_ok_del)

lemma ref_bpf_ok: "kernel_ok w \<Longrightarrow> kernel_ok (snd (ref_bpf call w))"
  by (cases call) (auto simp: ref_update_ok ref_delete_ok)

lemma ref_length: "kernel_ok w \<Longrightarrow> length (ref_view w fd) \<le> 32768"
proof (cases "ref_is_map fd")
  case True
  assume "kernel_ok w"
  with ref_view_ok [OF _ True] have "length (ref_view w fd) \<le> md_max (decl_of fd)" by (simp add: decl_dict_ok_def)
  moreover have "list_all (\<lambda>md. md_max md \<le> 32768) map_decls"
    by (simp add: map_decls_def MAX_ALLOWLIST_def MAX_BLOCKLIST_def MAX_PORT_RULES_def C_MAX_TRACKED_def
        STAT_MAX_def c_stat_index_def)
  then have "md_max (decl_of fd) \<le> 32768"
    using True unfolding decl_of_def ref_is_map_def by (auto simp: list_all_length)
  ultimately show ?thesis by simp
qed (simp add: ref_view_def)

lemma token_pos_bytes [simp]: "p \<le> 32768 \<Longrightarrow> token_pos (le_bytes 8 (int p)) = p"
  by (simp add: token_pos_def le_int_le_bytes)

lemma ref_batch_law:
  assumes "kernel_ok w" "0 < n" "ref_batch fd tok n w = rep"
    and "p = (case tok of None \<Rightarrow> 0 | Some t \<Rightarrow> token_pos t)" "p \<le> length (ref_view w fd)"
  shows "tok = None \<and> rep_rc rep < 0 \<and> rep_errno rep \<in> {EINVAL, ENOTSUPP} \<or>
    rep_count rep \<le> n \<and> p + rep_count rep \<le> length (ref_view w fd) \<and>
    rep_keys rep = concat (map fst (take (rep_count rep) (drop p (ref_view w fd)))) \<and>
    rep_value rep = concat (map snd (take (rep_count rep) (drop p (ref_view w fd)))) \<and>
    (if rep_rc rep < 0 then rep_errno rep = ENOENT \<and> p + rep_count rep = length (ref_view w fd)
     else 0 < rep_count rep \<and> length (rep_token rep) = 8 \<and> token_pos (rep_token rep) = p + rep_count rep)"
proof (cases "\<not> k_batches w \<and> tok = None")
  case True
  with assms(3) show ?thesis by (auto simp: ref_batch_def fails_def reply_def)
next
  case False
  define es where "es = take n (drop p (ref_view w fd))"
  have es: "length es = min n (length (ref_view w fd) - p)" by (simp add: es_def)
  have "take (length es) (drop p (ref_view w fd)) = es"
    unfolding es_def by (metis append_eq_conv_conj append_take_drop_id)
  moreover have "p + length es \<le> 32768" using ref_length [OF assms(1), of fd] assms(5) es by simp
  then have "token_pos (le_bytes 8 (int (p + length es))) = p + length es" by (rule token_pos_bytes)
  ultimately show ?thesis
    using False assms(2,5) es
    unfolding assms(3) [symmetric] ref_batch_def assms(4) [symmetric] es_def [symmetric] Let_def
    by (auto simp: min_def simp del: of_nat_add split: if_splits)
qed

lemma ref_update_law:
  assumes "kernel_ok w" "ref_is_map fd" "ref_update fd (Some k) v w = (rep, w')"
  shows "(\<forall>fd'. fd' \<noteq> fd \<longrightarrow> ref_view w' fd' = ref_view w fd') \<and>
    (if rep_rc rep < 0 then ref_view w' fd = ref_view w fd
     else map_of (ref_view w' fd) = (map_of (ref_view w fd))(k \<mapsto> v))"
  using assms
  by (auto simp: ref_update_def Let_def fails_def reply_def ref_view_set split: if_splits)

lemma ref_delete_law:
  assumes "kernel_ok w" "ref_is_map fd" "md_kind (decl_of fd) \<noteq> ARRAY" "ref_delete fd (Some k) w = (rep, w')"
  shows "(\<forall>fd'. fd' \<noteq> fd \<longrightarrow> ref_view w' fd' = ref_view w fd') \<and>
    map_of (ref_view w' fd) = (map_of (ref_view w fd))(k := None) \<and>
    (if k \<in> fst ` set (ref_view w fd) then 0 \<le> rep_rc rep else rep_rc rep < 0 \<and> rep_errno rep = ENOENT)"
  using assms
  by (auto simp: ref_delete_def Let_def fails_def reply_def ref_view_set map_of_eq_None_iff
      fun_upd_idem split: if_splits dest: map_of_SomeD)

lemma ref_next_law:
  assumes "\<forall>k. cur = Some k \<longrightarrow> k \<in> fst ` set (ref_view w fd)" "ref_next fd cur w = rep"
  shows "case next_key (map fst (ref_view w fd)) cur of
      Some k \<Rightarrow> 0 \<le> rep_rc rep \<and> rep_value rep = k
    | None \<Rightarrow> rep_rc rep < 0 \<and> rep_errno rep = ENOENT"
proof -
  have "(case cur of Some k \<Rightarrow> if List.member (map fst (ref_view w fd)) k then Some k else None | None \<Rightarrow> None) = cur"
    using assms(1) by (auto split: option.splits simp: List.member_iff)
  with assms(2) show ?thesis by (auto simp: ref_next_def fails_def reply_def split: option.splits)
qed

lemma ref_replace_law:
  assumes "kernel_ok w" "ref_is_map fd" "k \<in> fst ` set (ref_view w fd)" "length v = md_vsize (decl_of fd)"
    and "ref_update fd (Some k) v w = (rep, w')"
  shows "0 \<le> rep_rc rep"
proof -
  have "key_ok (md_kind (decl_of fd)) (md_ksize (decl_of fd)) k"
    using kdict_ok_key [OF _ assms(3)] ref_view_ok [OF assms(1,2)] unfolding decl_dict_ok_def by blast
  moreover have "map_of (ref_view w fd) k \<noteq> None" using assms(3) by (simp add: map_of_eq_None_iff)
  ultimately show ?thesis using assms(4,5) by (auto simp: ref_update_def reply_def)
qed

lemma ref_lookup_law:
  "case kmap_find (md_kind (decl_of fd)) (ref_view w fd) k of
     Some v \<Rightarrow> 0 \<le> rep_rc (ref_lookup fd (Some k) w) \<and> rep_value (ref_lookup fd (Some k) w) = v
   | None \<Rightarrow> rep_rc (ref_lookup fd (Some k) w) < 0 \<and> rep_errno (ref_lookup fd (Some k) w) = ENOENT"
  by (auto simp: ref_lookup_def fails_def reply_def split: option.splits)

lemma ref_os_simps [simp]:
  "os_bpf ref_os = ref_bpf" "os_fuel ref_os = 40000" "os_close ref_os fd = io_return ()"
  "os_ktime ref_os w = (k_clock w, w\<lparr>k_clock := k_clock w + k_step w\<rparr>)"
  "os_possible ref_os w = (Some ''0-1'', w)" "os_cpu_count ref_os = Some 2"
  by (simp_all add: ref_os_def)

lemma ref_tick [simp]: "ref_view (w\<lparr>k_clock := t\<rparr>) = ref_view w" "kernel_ok (w\<lparr>k_clock := t\<rparr>) = kernel_ok w"
  by (auto simp: ref_view_def kernel_ok_def)

interpretation ref: bpf_kernel ref_os ref_is_map "\<lambda>fd. md_kind (decl_of fd)" "\<lambda>fd. md_ksize (decl_of fd)"
  "\<lambda>fd. md_vsize (decl_of fd)" kernel_ok ref_view "\<lambda>_. token_pos"
proof (unfold_locales, goal_cases)
  case (1 w fd)
  then show ?case using ref_view_ok by (simp add: decl_dict_ok_def)
next
  case (2 w call rep w')
  then show ?case using ref_bpf_ok [of w call] by simp
next
  case (8 w fd k flags rep w')
  then show ?case using ref_lookup_law [of fd] by auto
next
  case (9 w fd k v rep w')
  then show ?case using ref_update_law [of _ fd] by simp
next
  case (10 w fd k v rep w')
  then show ?case using ref_replace_law [of _ fd] by simp
next
  case (11 w fd k rep w')
  then show ?case using ref_delete_law [of _ fd] by simp
next
  case (12 w fd cur rep w')
  then show ?case using ref_next_law [of cur] by auto
next
  case (13 w fd n tok flags rep w' p)
  then have rep: "ref_batch fd tok n w = rep" by auto
  with 13 show ?case by (intro ref_batch_law) simp_all
qed auto

section \<open>A kernel after loading\<close>

text \<open>
  The maps as the loader leaves them: empty lists, zero counters, and the default settings of
  \<open>fwctl reset --all\<close>.
\<close>

definition boot_config :: bytes where
  "boot_config = le_bytes 8 20000 @ le_bytes 8 40000 @ le_bytes 4 95 @ le_bytes 4 0 @ le_bytes 4 0 @ le_bytes 4 0"

definition boot_stats :: "(bytes, bytes) dict" where
  "boot_stats = map (\<lambda>i. (le_bytes 4 (int i), zeros (8 * REF_CPUS))) [0..<STAT_MAX]"

definition boot_kernel :: kernel where
  "boot_kernel = \<lparr>k_maps = [[], [], [], [], boot_stats, [(zeros 4, boot_config)]],
     k_batches = True, k_info = zeros 232, k_clock = 1000000000, k_step = 1000\<rparr>"

lemma le_bytes_zero: "le_bytes n 0 = zeros n"
  by (induction n) (auto simp: zeros_def)

lemma boot_stats_ok:
  "decl_dict_ok \<lparr>md_name = ''stats'', md_kind = ARRAY, md_ksize = 4, md_vsize = 8 * REF_CPUS, md_max = STAT_MAX\<rparr>
    boot_stats"
proof -
  have "STAT_MAX < 256 ^ 4" by (simp add: STAT_MAX_def c_stat_index_def)
  then have "inj_on (\<lambda>i. le_bytes 4 (int i)) {0..<STAT_MAX}"
    by (intro inj_onI) (simp add: le_bytes_inj)
  then show ?thesis
    by (auto simp: decl_dict_ok_def boot_stats_def kdict_ok_def key_ok_def list_all_iff distinct_map
        comp_def zeros_def)
qed

lemma boot_kernel_ok: "kernel_ok boot_kernel"
  using boot_stats_ok
  by (simp add: kernel_ok_def boot_kernel_def map_decls_def)
    (simp add: decl_dict_ok_def kdict_ok_def key_ok_def boot_config_def le_bytes_zero, simp add: zeros_def)

end
