(* ===== verification/Py_Float.thy ===== *)
theory Py_Float
  imports Py_Prelude "HOL-Library.Log_Nat"
begin

text \<open>
  Python floats. A finite double is the rational number it denotes, and every operation of
  the sources that produces a float rounds the exact rational result to the nearest double,
  ties to even: \<open>fl\<close> is that rounding, with 53 bits of precision and the smallest
  exponent of the format. The measurements of the control plane are quotients of 64-bit
  counters and clock readings, far below \<open>2 ^ 1024\<close>, so \<open>fl\<close> itself has no
  overflow threshold; where a float comes from the command line the infinities, NaN and the
  threshold appear in \<open>pyfloat\<close>. The lemmas show that rounding is monotone and leaves
  every integer up to \<open>2 ^ 53\<close> alone, which is what the threshold comparisons of the
  detector rest on.
\<close>

section \<open>Rounding to an integer\<close>

text \<open>Round half to even, as \<open>round\<close> and the floating-point unit do.\<close>

definition round_even :: "rat \<Rightarrow> int" where
  "round_even x =
     (let f = \<lfloor>x\<rfloor>; r = x - of_int f in
      if r < 1/2 then f else if r > 1/2 then f + 1 else if even f then f else f + 1)"

section \<open>The binary exponent of a rational\<close>

definition ilog2 :: "rat \<Rightarrow> int" where
  "ilog2 q =
     (let (n, d) = quotient_of q; k = bitlen n - bitlen d in
      if 2 powi k \<le> q then k else k - 1)"

definition fexp :: "rat \<Rightarrow> int" where
  "fexp q = max (ilog2 q - 52) (- 1074)"

definition fl_pos :: "rat \<Rightarrow> rat" where
  "fl_pos q = of_int (round_even (q / 2 powi fexp q)) * 2 powi fexp q"

definition fl :: "rat \<Rightarrow> rat" where
  "fl q = (if q = 0 then 0 else if q < 0 then - fl_pos (- q) else fl_pos q)"

text \<open>Division of two numbers, both already floats or integers converted to floats.\<close>

definition py_truediv :: "rat \<Rightarrow> rat \<Rightarrow> rat result" where
  "py_truediv a b = (if b = 0 then Inl ZeroDivisionError else Inr (fl (a / b)))"

section \<open>Floats from the command line\<close>

datatype pyfloat = Fin rat | PosInf | NegInf | NaN

text \<open>\<open>x > 0\<close>, \<open>x * c\<close> for a positive constant, and \<open>int(x)\<close>, which truncates.\<close>

fun pyfloat_pos :: "pyfloat \<Rightarrow> bool" where
  "pyfloat_pos (Fin q) = (0 < q)"
| "pyfloat_pos PosInf = True"
| "pyfloat_pos NegInf = False"
| "pyfloat_pos NaN = False"

definition max_double :: rat where
  "max_double = (2 ^ 53 - 1) * 2 ^ 971"

fun pyfloat_scale :: "rat \<Rightarrow> pyfloat \<Rightarrow> pyfloat" where
  "pyfloat_scale c (Fin q) =
     (let r = fl (q * c) in
      if r > max_double then PosInf else if r < - max_double then NegInf else Fin r)"
| "pyfloat_scale c PosInf = PosInf"
| "pyfloat_scale c NegInf = NegInf"
| "pyfloat_scale c NaN = NaN"

definition trunc_rat :: "rat \<Rightarrow> int" where
  "trunc_rat q = (if q < 0 then \<lceil>q\<rceil> else \<lfloor>q\<rfloor>)"

fun py_int_of_float :: "pyfloat \<Rightarrow> int result" where
  "py_int_of_float (Fin q) = Inr (trunc_rat q)"
| "py_int_of_float NaN = Inl ValueError"
| "py_int_of_float _ = Inl OverflowError"

section \<open>Properties of the rounding\<close>

lemma round_even_cases: "round_even x = \<lfloor>x\<rfloor> \<or> round_even x = \<lfloor>x\<rfloor> + 1"
  by (simp add: round_even_def Let_def)

lemma round_even_of_int [simp]: "round_even (of_int k) = k"
  by (simp add: round_even_def)

lemma round_even_split:
  "round_even x = \<lfloor>x\<rfloor> \<and> x - of_int \<lfloor>x\<rfloor> \<le> 1/2 \<or>
   round_even x = \<lfloor>x\<rfloor> + 1 \<and> 1/2 \<le> x - of_int \<lfloor>x\<rfloor>"
  by (auto simp: round_even_def Let_def not_less)

lemma round_even_near: "\<bar>of_int (round_even x) - x\<bar> \<le> 1/2"
proof -
  have f: "of_int \<lfloor>x\<rfloor> \<le> x" "x < of_int \<lfloor>x\<rfloor> + 1" by linarith+
  have "of_int (\<lfloor>x\<rfloor> + 1) = (of_int \<lfloor>x\<rfloor> + 1 :: rat)" by simp
  with f round_even_split [of x] show ?thesis by (elim disjE conjE) (simp only:, linarith)+
qed

lemma round_even_mono: "x \<le> y \<Longrightarrow> round_even x \<le> round_even y"
proof (cases "\<lfloor>x\<rfloor> = \<lfloor>y\<rfloor>")
  case True
  assume "x \<le> y"
  with True show ?thesis by (auto simp: round_even_def Let_def)
next
  case False
  assume "x \<le> y"
  with False have "\<lfloor>x\<rfloor> + 1 \<le> \<lfloor>y\<rfloor>" using floor_mono [of x y] by linarith
  with round_even_cases [of x] round_even_cases [of y] show ?thesis by linarith
qed

lemma round_even_le_of_int: "x \<le> of_int k \<Longrightarrow> round_even x \<le> k"
  using round_even_mono [of x "of_int k"] by simp

lemma round_even_ge_of_int: "of_int k \<le> x \<Longrightarrow> k \<le> round_even x"
  using round_even_mono [of "of_int k" x] by simp

lemma powi2_pos [simp]: "(0::rat) < 2 powi k"
  by simp

lemma powi2_mono: "a \<le> b \<Longrightarrow> (2::rat) powi a \<le> 2 powi b"
  by (rule power_int_increasing) simp_all

lemma powi2_less: "a < b \<Longrightarrow> (2::rat) powi a < 2 powi b"
  by (rule power_int_strict_increasing) simp_all

lemma powi2_le_iff [simp]: "(2::rat) powi a \<le> 2 powi b \<longleftrightarrow> a \<le> b"
  using powi2_mono [of a b] powi2_less [of b a] by linarith

lemma powi2_less_iff [simp]: "(2::rat) powi a < 2 powi b \<longleftrightarrow> a < b"
  using powi2_mono [of b a] powi2_less [of a b] by linarith

lemma powi2_Suc: "(2::rat) powi (k + 1) = 2 * 2 powi k"
  by (simp add: power_int_add)

lemma powi2_split:
  assumes "a \<le> b"
  shows "of_int (2 ^ nat (b - a)) * 2 powi a = (2::rat) powi b"
    and "of_int (2 ^ nat (b - a)) = (2::rat) powi b / 2 powi a"
proof -
  have p: "of_int (2 ^ nat (b - a)) = (2::rat) powi (b - a)"
    using assms by (simp add: power_int_def)
  also have "\<dots> = 2 powi b / 2 powi a" by (simp add: power_int_diff)
  finally show "of_int (2 ^ nat (b - a)) = (2::rat) powi b / 2 powi a" .
  then show "of_int (2 ^ nat (b - a)) * 2 powi a = (2::rat) powi b" by simp
qed

lemma ilog2_bounds:
  assumes "0 < q"
  shows "2 powi (ilog2 q) \<le> q" and "q < 2 powi (ilog2 q + 1)"
proof -
  obtain n d where nd: "quotient_of q = (n, d)" by fastforce
  have d: "0 < d" using nd by (rule quotient_of_denom_pos)
  have q: "q = of_int n / of_int d" using nd by (rule quotient_of_div)
  with assms d have n: "0 < n" by (simp add: zero_less_divide_iff)
  define a b where "a = bitlen n" and "b = bitlen d"
  have ab: "1 \<le> a" "1 \<le> b"
    using bitlen_bounds [OF n] bitlen_bounds [OF d] n d unfolding a_def b_def
    by (auto simp: bitlen_alt_def)
  have nb: "2 powi (a - 1) \<le> (of_int n :: rat)" "(of_int n :: rat) < 2 powi a"
  proof -
    have "(of_int (2 ^ nat (a - 1)) :: rat) \<le> of_int n" "(of_int n :: rat) < of_int (2 ^ nat a)"
      using bitlen_bounds [OF n] unfolding a_def by (simp_all only: of_int_le_iff of_int_less_iff)
    then show "2 powi (a - 1) \<le> (of_int n :: rat)" "(of_int n :: rat) < 2 powi a"
      using ab by (simp_all add: power_int_def)
  qed
  have db: "2 powi (b - 1) \<le> (of_int d :: rat)" "(of_int d :: rat) < 2 powi b"
  proof -
    have "(of_int (2 ^ nat (b - 1)) :: rat) \<le> of_int d" "(of_int d :: rat) < of_int (2 ^ nat b)"
      using bitlen_bounds [OF d] unfolding b_def by (simp_all only: of_int_le_iff of_int_less_iff)
    then show "2 powi (b - 1) \<le> (of_int d :: rat)" "(of_int d :: rat) < 2 powi b"
      using ab by (simp_all add: power_int_def)
  qed
  have "q < 2 powi a / 2 powi (b - 1)"
    unfolding q using nb db d by (intro frac_less) (simp_all, simp add: n less_imp_le)
  then have hi: "q < 2 powi (a - b + 1)"
    by (simp add: power_int_diff power_int_add field_simps)
  have "2 powi (a - 1) / 2 powi b < q"
    unfolding q using nb db d by (intro frac_less2) simp_all
  then have lo: "2 powi (a - b - 1) < q"
    by (simp add: power_int_diff power_int_add field_simps)
  have il: "ilog2 q = (if 2 powi (a - b) \<le> q then a - b else a - b - 1)"
    by (simp add: ilog2_def nd a_def b_def Let_def)
  show "2 powi (ilog2 q) \<le> q" "q < 2 powi (ilog2 q + 1)"
    using hi lo unfolding il by auto
qed

lemma ilog2_unique: "2 powi k \<le> q \<Longrightarrow> q < 2 powi (k + 1) \<Longrightarrow> ilog2 q = k"
proof -
  assume k: "2 powi k \<le> q" "q < 2 powi (k + 1)"
  have "0 < q" using k(1) powi2_pos [of k] by linarith
  note b = ilog2_bounds [OF this]
  have "(2::rat) powi k < 2 powi (ilog2 q + 1)" "(2::rat) powi (ilog2 q) < 2 powi (k + 1)"
    using k b by linarith+
  then show ?thesis by simp
qed

lemma ilog2_mono: "0 < p \<Longrightarrow> p \<le> q \<Longrightarrow> ilog2 p \<le> ilog2 q"
proof -
  assume "0 < p" "p \<le> q"
  then have "(2::rat) powi (ilog2 p) < 2 powi (ilog2 q + 1)"
    using ilog2_bounds [of p] ilog2_bounds [of q] by linarith
  then show ?thesis by simp
qed

lemma fexp_mono: "0 < p \<Longrightarrow> p \<le> q \<Longrightarrow> fexp p \<le> fexp q"
  using ilog2_mono [of p q] by (simp add: fexp_def)

subsection \<open>Numbers that are doubles\<close>

definition is_double :: "rat \<Rightarrow> bool" where
  "is_double q \<longleftrightarrow> (\<exists>m e. q = of_int m * 2 powi e \<and> \<bar>m\<bar> \<le> 2 ^ 53 \<and> - 1074 \<le> e)"

lemma is_double_of_int: "\<bar>m\<bar> \<le> 2 ^ 53 \<Longrightarrow> is_double (of_int m)"
  unfolding is_double_def by (rule exI [of _ m], rule exI [of _ 0]) simp

lemma fl_pos_scaled_int:
  assumes "0 < q" "q = of_int m * 2 powi e" "fexp q \<le> e"
  shows "fl_pos q = q"
proof -
  have "q / 2 powi fexp q = of_int m * 2 powi (e - fexp q)"
    using assms(2) by (simp add: power_int_diff)
  also have "\<dots> = of_int (m * 2 ^ nat (e - fexp q))"
    using assms(3) by (simp add: power_int_def)
  finally have r: "q / 2 powi fexp q = of_int (m * 2 ^ nat (e - fexp q))" .
  have "fl_pos q = q / 2 powi fexp q * 2 powi fexp q"
    unfolding fl_pos_def r by (simp only: round_even_of_int)
  then show ?thesis by simp
qed

lemma fl_pos_double:
  assumes "0 < q" "is_double q"
  shows "fl_pos q = q"
proof -
  obtain m e where q: "q = of_int m * 2 powi e" "\<bar>m\<bar> \<le> 2 ^ 53" "- 1074 \<le> e"
    using assms(2) unfolding is_double_def by blast
  have m: "0 < m"
    using assms(1) q(1) powi2_pos [of e] by (simp add: zero_less_mult_iff del: powi2_pos)
  show ?thesis
  proof (cases "m = 2 ^ 53")
    case True
    then have q': "q = of_int 1 * 2 powi (e + 53)"
      using q(1) by (simp add: power_int_add)
    then have "ilog2 q = e + 53"
      by (intro ilog2_unique) (simp_all only: powi2_Suc mult_1 of_int_1, simp_all)
    with q(3) have "fexp q \<le> e + 53" by (simp add: fexp_def)
    with assms(1) q' show ?thesis by (rule fl_pos_scaled_int)
  next
    case False
    with q(2) m have "m < 2 ^ 53" by simp
    then have "(of_int m :: rat) < of_int (2 ^ 53)" by (simp only: of_int_less_iff)
    then have "q < 2 powi 53 * 2 powi e" using q(1) by simp
    then have "q < 2 powi (e + 53)" by (simp add: power_int_add mult.commute)
    with ilog2_bounds(1) [OF assms(1)] have "(2::rat) powi (ilog2 q) < 2 powi (e + 53)"
      by linarith
    with q(3) have "fexp q \<le> e" by (simp add: fexp_def)
    with assms(1) q(1) show ?thesis by (rule fl_pos_scaled_int)
  qed
qed

lemma fl_double: "is_double q \<Longrightarrow> fl q = q"
proof -
  assume d: "is_double q"
  then obtain m e where "q = of_int m * 2 powi e" "\<bar>m\<bar> \<le> 2 ^ 53" "- 1074 \<le> e"
    unfolding is_double_def by blast
  then have "- q = of_int (- m) * 2 powi e \<and> \<bar>- m\<bar> \<le> 2 ^ 53 \<and> - 1074 \<le> e" by simp
  then have "is_double (- q)" unfolding is_double_def by blast
  with d fl_pos_double [of q] fl_pos_double [of "- q"] show ?thesis by (auto simp: fl_def)
qed

lemma fl_of_int: "\<bar>m\<bar> \<le> 2 ^ 53 \<Longrightarrow> fl (of_int m) = of_int m"
  by (rule fl_double [OF is_double_of_int])

lemma fl_0 [simp]: "fl 0 = 0"
  by (simp add: fl_def)

lemma fl_numeral: "(numeral n :: int) \<le> 2 ^ 53 \<Longrightarrow> fl (numeral n) = numeral n"
  using fl_of_int [of "numeral n"] by simp

lemma fl_1 [simp]: "fl 1 = 1"
  using fl_of_int [of 1] by simp

subsection \<open>Rounding is monotone\<close>

lemma fl_pos_lower: "0 < q \<Longrightarrow> - 1074 \<le> ilog2 q \<Longrightarrow> 2 powi (ilog2 q) \<le> fl_pos q"
proof -
  assume q: "0 < q" and l: "- 1074 \<le> ilog2 q"
  let ?e = "fexp q"
  have le: "?e \<le> ilog2 q" using l by (simp add: fexp_def)
  have "(of_int (2 ^ nat (ilog2 q - ?e)) :: rat) = 2 powi (ilog2 q) / 2 powi ?e"
    by (rule powi2_split(2) [OF le])
  also have "\<dots> \<le> q / 2 powi ?e"
    using ilog2_bounds(1) [OF q] by (simp add: divide_right_mono)
  finally have "2 ^ nat (ilog2 q - ?e) \<le> round_even (q / 2 powi ?e)"
    by (rule round_even_ge_of_int)
  then have "(of_int (2 ^ nat (ilog2 q - ?e)) :: rat) \<le> of_int (round_even (q / 2 powi ?e))"
    by (simp only: of_int_le_iff)
  then have "of_int (2 ^ nat (ilog2 q - ?e)) * 2 powi ?e \<le> fl_pos q"
    unfolding fl_pos_def by (rule mult_right_mono) simp
  then show ?thesis by (simp only: powi2_split(1) [OF le])
qed

lemma fl_pos_upper: "0 < q \<Longrightarrow> q \<le> 2 powi k \<Longrightarrow> fexp q \<le> k \<Longrightarrow> fl_pos q \<le> 2 powi k"
proof -
  assume q: "0 < q" and l: "q \<le> 2 powi k" and le: "fexp q \<le> k"
  let ?e = "fexp q"
  have "q / 2 powi ?e \<le> 2 powi k / 2 powi ?e"
    using l by (simp add: divide_right_mono)
  also have "\<dots> = of_int (2 ^ nat (k - ?e))"
    by (rule powi2_split(2) [OF le, symmetric])
  finally have "round_even (q / 2 powi ?e) \<le> 2 ^ nat (k - ?e)"
    by (rule round_even_le_of_int)
  then have "(of_int (round_even (q / 2 powi ?e)) :: rat) \<le> of_int (2 ^ nat (k - ?e))"
    by (simp only: of_int_le_iff)
  then have "fl_pos q \<le> of_int (2 ^ nat (k - ?e)) * 2 powi ?e"
    unfolding fl_pos_def by (rule mult_right_mono) simp
  then show ?thesis by (simp only: powi2_split(1) [OF le])
qed

lemma fl_pos_mono: "0 < p \<Longrightarrow> p \<le> q \<Longrightarrow> fl_pos p \<le> fl_pos q"
proof (cases "fexp p = fexp q")
  case True
  assume "0 < p" "p \<le> q"
  then have "round_even (p / 2 powi fexp q) \<le> round_even (q / 2 powi fexp q)"
    by (intro round_even_mono divide_right_mono) simp_all
  then show ?thesis
    unfolding fl_pos_def True by (intro mult_right_mono) simp_all
next
  case False
  assume pq: "0 < p" "p \<le> q"
  with False have lt: "fexp p < fexp q" using fexp_mono [of p q] by simp
  then have l: "ilog2 p < ilog2 q" "- 1074 \<le> ilog2 q"
    by (auto simp: fexp_def max_def split: if_splits)
  have "p \<le> 2 powi (ilog2 q)"
  proof -
    have "p < 2 powi (ilog2 p + 1)" using pq by (simp add: ilog2_bounds)
    also have "\<dots> \<le> 2 powi (ilog2 q)" using l by simp
    finally show ?thesis by simp
  qed
  then have "fl_pos p \<le> 2 powi (ilog2 q)"
    using pq lt l by (intro fl_pos_upper) (simp_all add: fexp_def)
  also have "\<dots> \<le> fl_pos q" using pq l by (intro fl_pos_lower) simp_all
  finally show ?thesis .
qed

lemma fl_pos_nonneg: "0 < q \<Longrightarrow> 0 \<le> fl_pos q"
  unfolding fl_pos_def
  by (intro mult_nonneg_nonneg) (simp_all add: round_even_ge_of_int [of 0, simplified])

theorem fl_mono: "p \<le> q \<Longrightarrow> fl p \<le> fl q"
proof -
  assume "p \<le> q"
  then consider "0 < p" "p \<le> q" | "p \<le> 0" "0 \<le> q" | "q < 0" "p \<le> q" by linarith
  then show ?thesis
  proof cases
    case 1
    then show ?thesis by (simp add: fl_def fl_pos_mono)
  next
    case 2
    then show ?thesis
      using fl_pos_nonneg [of q] fl_pos_nonneg [of "- p"]
      by (cases "p = 0"; cases "q = 0") (auto simp: fl_def)
  next
    case 3
    then show ?thesis using fl_pos_mono [of "- q" "- p"] by (simp add: fl_def)
  qed
qed

lemma fl_nonneg [simp]: "0 \<le> q \<Longrightarrow> 0 \<le> fl q"
  using fl_mono [of 0 q] by simp

lemma fl_le_int: "\<bar>m\<bar> \<le> 2 ^ 53 \<Longrightarrow> q \<le> of_int m \<Longrightarrow> fl q \<le> of_int m"
  using fl_mono [of q "of_int m"] fl_of_int [of m] by simp

lemma fl_ge_int: "\<bar>m\<bar> \<le> 2 ^ 53 \<Longrightarrow> of_int m \<le> q \<Longrightarrow> of_int m \<le> fl q"
  using fl_mono [of "of_int m" q] fl_of_int [of m] by simp

end
