(* ===== verification/Firewall.thy ===== *)
theory Firewall
  imports Py_Float Bpf_Kernel
begin

text \<open>
  \<open>class Firewall\<close> of \<open>control/firewall.py\<close>: typed access to the six pinned maps. Every
  method is a program over the world of the operating system. A generator of the source is the
  list it yields. In a kernel that satisfies the laws of \<open>bpf_kernel\<close> the methods act on the
  contents of the maps as the lemmas of this theory say.
\<close>

section \<open>The object\<close>

record firewall =
  fw_pin_dir :: string
  fw_allowlist :: bpfmap
  fw_blocklist :: bpfmap
  fw_portrules :: bpfmap
  fw_srcstate :: bpfmap
  fw_stats :: bpfmap
  fw_config :: bpfmap

definition firewall_open :: "'w os \<Rightarrow> string \<Rightarrow> ('w, firewall) io" where
  "firewall_open os pin_dir =
     io_bind (bpfmap_open os (pin_dir @ ''/allowlist'') 8 16 False) (\<lambda>allowlist.
     io_bind (bpfmap_open os (pin_dir @ ''/blocklist'') 8 24 False) (\<lambda>blocklist.
     io_bind (bpfmap_open os (pin_dir @ ''/portrules'') 4 16 True) (\<lambda>portrules.
     io_bind (bpfmap_open os (pin_dir @ ''/srcstate'') 4 104 False) (\<lambda>srcstate.
     io_bind (bpfmap_open os (pin_dir @ ''/stats'') 4 8 True) (\<lambda>stats.
     io_bind (bpfmap_open os (pin_dir @ ''/config'') 4 32 False) (\<lambda>config.
     io_return \<lparr>fw_pin_dir = pin_dir, fw_allowlist = allowlist, fw_blocklist = blocklist,
       fw_portrules = portrules, fw_srcstate = srcstate, fw_stats = stats, fw_config = config\<rparr>))))))"

definition bpfmap_close :: "'w os \<Rightarrow> bpfmap \<Rightarrow> ('w, bpfmap) io" where
  "bpfmap_close os m = io_bind (pinned_close os (bm_fd m)) (\<lambda>fd. io_return (m\<lparr>bm_fd := fd\<rparr>))"

definition firewall_close :: "'w os \<Rightarrow> firewall \<Rightarrow> ('w, firewall) io" where
  "firewall_close os fw =
     io_bind (bpfmap_close os (fw_allowlist fw)) (\<lambda>allowlist.
     io_bind (bpfmap_close os (fw_blocklist fw)) (\<lambda>blocklist.
     io_bind (bpfmap_close os (fw_portrules fw)) (\<lambda>portrules.
     io_bind (bpfmap_close os (fw_srcstate fw)) (\<lambda>srcstate.
     io_bind (bpfmap_close os (fw_stats fw)) (\<lambda>stats.
     io_bind (bpfmap_close os (fw_config fw)) (\<lambda>config.
     io_return (fw\<lparr>fw_allowlist := allowlist, fw_blocklist := blocklist, fw_portrules := portrules,
       fw_srcstate := srcstate, fw_stats := stats, fw_config := config\<rparr>)))))))"

definition ktime_ns :: "'w os \<Rightarrow> ('w, int) io" where
  "ktime_ns os = io_read (os_ktime os)"

text \<open>The integers of an unpacked tuple.\<close>

fun ints_of :: "pyval list \<Rightarrow> int list result" where
  "ints_of [] = Inr []"
| "ints_of (VInt v # vs) = result_map (\<lambda>r. v # r) (ints_of vs)"
| "ints_of (VBytes b # vs) = Inl TypeError"

definition unpack_ints :: "fmt list \<Rightarrow> bytes \<Rightarrow> int list result" where
  "unpack_ints fs bs = result_bind (struct_unpack fs bs) ints_of"

definition pack_ints :: "fmt list \<Rightarrow> int list \<Rightarrow> bytes result" where
  "pack_ints fs vs = struct_pack fs (map VInt vs)"

section \<open>Allowlist\<close>

definition fw_allow :: "'w os \<Rightarrow> firewall \<Rightarrow> string \<Rightarrow> ('w, unit) io" where
  "fw_allow os fw cidr =
     io_bind (io_of (lpm_key cidr)) (\<lambda>key.
     io_bind (io_of (pack_ints ALLOW_VAL [0, 0, 0])) (\<lambda>val.
     bpfmap_update os (fw_allowlist fw) key val BPF_ANY))"

definition fw_unallow :: "'w os \<Rightarrow> firewall \<Rightarrow> string \<Rightarrow> ('w, bool) io" where
  "fw_unallow os fw cidr = io_bind (io_of (lpm_key cidr)) (bpfmap_delete os (fw_allowlist fw))"

definition fw_is_allowed :: "'w os \<Rightarrow> firewall \<Rightarrow> string \<Rightarrow> ('w, bool) io" where
  "fw_is_allowed os fw ip =
     io_bind (io_of (lpm_key ip)) (\<lambda>key.
     io_bind (bpfmap_lookup os (fw_allowlist fw) key 0) (\<lambda>raw.
     io_return (raw \<noteq> None)))"

record allow_entry =
  ae_cidr :: string
  ae_hits :: int

definition allow_row :: "bytes \<times> bytes \<Rightarrow> allow_entry result" where
  "allow_row = (\<lambda>(key, val).
     result_bind (unpack_cidr key) (\<lambda>cidr.
     result_bind (unpack_ints ALLOW_VAL val) (\<lambda>vs.
     result_bind (py_index vs 0) (\<lambda>hits.
     Inr \<lparr>ae_cidr = cidr, ae_hits = hits\<rparr>))))"

definition fw_list_allowed :: "'w os \<Rightarrow> firewall \<Rightarrow> ('w, allow_entry list) io" where
  "fw_list_allowed os fw =
     io_bind (bpfmap_items os (fw_allowlist fw) 0) (\<lambda>items. io_of (result_list allow_row items))"

section \<open>Blocklist\<close>

definition fw_block :: "'w os \<Rightarrow> firewall \<Rightarrow> string \<Rightarrow> pyfloat \<Rightarrow> int \<Rightarrow> ('w, unit) io" where
  "fw_block os fw cidr duration_s reason =
     io_bind (if pyfloat_pos duration_s
              then io_bind (ktime_ns os) (\<lambda>now.
                   io_bind (io_of (py_int_of_float (pyfloat_scale 1000000000 duration_s))) (\<lambda>d.
                   io_return (now + d)))
              else io_return 0) (\<lambda>expires.
     io_bind (io_of (lpm_key cidr)) (\<lambda>key.
     io_bind (io_of (pack_ints BLOCK_VAL [expires, 0, reason, 0])) (\<lambda>val.
     bpfmap_update os (fw_blocklist fw) key val BPF_ANY)))"

definition fw_unblock :: "'w os \<Rightarrow> firewall \<Rightarrow> string \<Rightarrow> ('w, bool) io" where
  "fw_unblock os fw cidr = io_bind (io_of (lpm_key cidr)) (bpfmap_delete os (fw_blocklist fw))"

definition fw_clear :: "'w os \<Rightarrow> bpfmap \<Rightarrow> ('w, int) io" where
  "fw_clear os m =
     io_bind (bpfmap_keys os m) (\<lambda>keys.
     io_seq (delete_each os m keys) (io_return (int (length keys))))"

definition fw_clear_blocks :: "'w os \<Rightarrow> firewall \<Rightarrow> ('w, int) io" where
  "fw_clear_blocks os fw = fw_clear os (fw_blocklist fw)"

record block_entry =
  be_cidr :: string
  be_hits :: int
  be_reason :: string
  be_remaining_s :: "rat option"
  be_expired :: bool

text \<open>One turn of the generator; an expired entry that is not wanted yields nothing.\<close>

definition block_row :: "int \<Rightarrow> bool \<Rightarrow> bytes \<times> bytes \<Rightarrow> block_entry list result" where
  "block_row now include_expired = (\<lambda>(key, val).
     result_bind (unpack_ints BLOCK_VAL val) (\<lambda>vs.
     result_bind (py_index vs 0) (\<lambda>expires.
     result_bind (py_index vs 1) (\<lambda>hits.
     result_bind (py_index vs 2) (\<lambda>reason.
     let expired = (expires \<noteq> 0 \<and> expires \<le> now) in
     if expired \<and> \<not> include_expired then Inr []
     else result_bind (unpack_cidr key) (\<lambda>cidr.
       Inr [\<lparr>be_cidr = cidr, be_hits = hits,
             be_reason = dict_get BLOCK_REASONS reason (py_str_int reason),
             be_remaining_s = (if expires = 0 then None
               else Some (fl (fl (of_int (max 0 (expires - now))) / 1000000000))),
             be_expired = expired\<rparr>]))))))"

definition fw_list_blocked :: "'w os \<Rightarrow> firewall \<Rightarrow> bool \<Rightarrow> ('w, block_entry list) io" where
  "fw_list_blocked os fw include_expired =
     io_bind (ktime_ns os) (\<lambda>now.
     io_bind (bpfmap_items os (fw_blocklist fw) 0) (\<lambda>items.
     io_of (result_map concat (result_list (block_row now include_expired) items))))"

definition expires_of :: "bytes \<Rightarrow> int result" where
  "expires_of val = result_bind (unpack_ints BLOCK_VAL val) (\<lambda>vs. py_index vs 0)"

definition fw_is_blocked :: "'w os \<Rightarrow> firewall \<Rightarrow> string \<Rightarrow> ('w, bool) io" where
  "fw_is_blocked os fw ip =
     io_bind (io_of (lpm_key ip)) (\<lambda>key.
     io_bind (bpfmap_lookup os (fw_blocklist fw) key 0) (\<lambda>raw.
     case raw of
       None \<Rightarrow> io_return False
     | Some val \<Rightarrow>
         io_bind (io_of (expires_of val)) (\<lambda>expires.
         if expires = 0 then io_return True
         else io_bind (ktime_ns os) (\<lambda>now. io_return (expires > now)))))"

text \<open>\<open>[k for k, v in items if p(v)]\<close> with a condition that may raise.\<close>

fun keys_where :: "('v \<Rightarrow> bool result) \<Rightarrow> ('k \<times> 'v) list \<Rightarrow> 'k list result" where
  "keys_where p [] = Inr []"
| "keys_where p ((k, v) # es) =
     result_bind (p v) (\<lambda>b. result_map (\<lambda>r. if b then k # r else r) (keys_where p es))"

definition fw_remove_expired_blocks :: "'w os \<Rightarrow> firewall \<Rightarrow> ('w, int) io" where
  "fw_remove_expired_blocks os fw =
     io_bind (ktime_ns os) (\<lambda>now.
     io_bind (bpfmap_items os (fw_blocklist fw) 0) (\<lambda>items.
     io_bind (io_of (keys_where (\<lambda>v. result_map (\<lambda>e. 0 < e \<and> e \<le> now) (expires_of v)) items)) (\<lambda>doomed.
     io_seq (delete_each os (fw_blocklist fw) doomed) (io_return (int (length doomed))))))"

section \<open>Port rules\<close>

definition fw_set_port_rule :: "'w os \<Rightarrow> firewall \<Rightarrow> string \<Rightarrow> int \<Rightarrow> int \<Rightarrow> ('w, unit) io" where
  "fw_set_port_rule os fw proto port action =
     io_bind (io_of (port_key proto port)) (\<lambda>key.
     io_bind (io_of (pack_ints PORT_VAL [0, action, 0])) (\<lambda>val.
     bpfmap_update os (fw_portrules fw) key (concat (replicate (bm_ncpu (fw_portrules fw)) val)) BPF_ANY))"

definition fw_del_port_rule :: "'w os \<Rightarrow> firewall \<Rightarrow> string \<Rightarrow> int \<Rightarrow> ('w, bool) io" where
  "fw_del_port_rule os fw proto port =
     io_bind (io_of (port_key proto port)) (bpfmap_delete os (fw_portrules fw))"

definition fw_clear_port_rules :: "'w os \<Rightarrow> firewall \<Rightarrow> ('w, int) io" where
  "fw_clear_port_rules os fw = fw_clear os (fw_portrules fw)"

record port_rule =
  pr_proto :: string
  pr_port :: int
  pr_action :: string
  pr_hits :: int

definition port_row :: "bytes \<times> bytes \<Rightarrow> port_rule result" where
  "port_row = (\<lambda>(key, val).
     result_bind (unpack_ints PORT_KEY key) (\<lambda>ks.
     result_bind (py_index ks 0) (\<lambda>proto.
     result_bind (py_index ks 1) (\<lambda>port.
     result_bind (result_bind (struct_iter_unpack PORT_VAL val) (result_list ints_of)) (\<lambda>copies.
     result_bind (result_list (\<lambda>c. py_index c 0) copies) (\<lambda>hits.
     result_bind (result_bind (py_index copies 0) (\<lambda>c. py_index c 1)) (\<lambda>action.
     Inr \<lparr>pr_proto = proto_name proto, pr_port = port,
       pr_action = dict_get ACTIONS action (py_str_int action), pr_hits = sum_list hits\<rparr>)))))))"

definition fw_list_port_rules :: "'w os \<Rightarrow> firewall \<Rightarrow> ('w, port_rule list) io" where
  "fw_list_port_rules os fw =
     io_bind (bpfmap_items os (fw_portrules fw) 0) (\<lambda>items. io_of (result_list port_row items))"

section \<open>Per-source state\<close>

text \<open>The dictionary that \<open>read_states\<close> makes of one entry, whose keys are always the same.\<close>

record src_state =
  ss_lock :: int
  ss_tokens :: int
  ss_last_refill_ns :: int
  ss_last_seen_ns :: int
  ss_packets :: int
  ss_bytes :: int
  ss_dropped :: int
  ss_syn :: int
  ss_fin :: int
  ss_rst :: int
  ss_udp :: int
  ss_icmp :: int
  ss_port_bitmap :: int

definition src_state_of :: "int list \<Rightarrow> src_state" where
  "src_state_of v = \<lparr>
     ss_lock = v ! 0, ss_tokens = v ! 1, ss_last_refill_ns = v ! 2, ss_last_seen_ns = v ! 3,
     ss_packets = v ! 4, ss_bytes = v ! 5, ss_dropped = v ! 6, ss_syn = v ! 7, ss_fin = v ! 8,
     ss_rst = v ! 9, ss_udp = v ! 10, ss_icmp = v ! 11, ss_port_bitmap = v ! 12\<rparr>"

definition state_row :: "bytes \<times> bytes \<Rightarrow> (string \<times> src_state) result" where
  "state_row = (\<lambda>(key, val).
     result_bind (inet_ntoa key) (\<lambda>ip.
     result_map (\<lambda>vs. (ip, src_state_of vs)) (unpack_ints SRC_STATE val)))"

fun dict_of :: "('k \<times> 'v) list \<Rightarrow> ('k, 'v) dict \<Rightarrow> ('k, 'v) dict" where
  "dict_of [] d = d"
| "dict_of ((k, v) # es) d = dict_of es (dict_set k v d)"

definition fw_read_states :: "'w os \<Rightarrow> firewall \<Rightarrow> ('w, (string, src_state) dict) io" where
  "fw_read_states os fw =
     io_bind (bpfmap_items os (fw_srcstate fw) BPF_F_LOCK) (\<lambda>items.
     io_of (result_map (\<lambda>rows. dict_of rows []) (result_list state_row items)))"

definition fw_remove_idle_states :: "'w os \<Rightarrow> firewall \<Rightarrow> pyfloat \<Rightarrow> ('w, int) io" where
  "fw_remove_idle_states os fw idle_s =
     io_bind (ktime_ns os) (\<lambda>now.
     io_bind (io_of (py_int_of_float (pyfloat_scale 1000000000 idle_s))) (\<lambda>idle.
     let cutoff = now - idle in
     io_bind (fw_read_states os fw) (\<lambda>states.
     io_bind (io_of (result_list (\<lambda>(ip, st). inet_aton ip)
                (filter (\<lambda>(ip, st). ss_last_seen_ns st < cutoff) states))) (\<lambda>doomed.
     io_seq (delete_each os (fw_srcstate fw) doomed) (io_return (int (length doomed)))))))"

definition fw_clear_states :: "'w os \<Rightarrow> firewall \<Rightarrow> ('w, int) io" where
  "fw_clear_states os fw = fw_clear os (fw_srcstate fw)"

section \<open>Counters\<close>

definition starts_with :: "string \<Rightarrow> string \<Rightarrow> bool" where
  "starts_with s p \<longleftrightarrow> take (length p) s = p"

definition total_of :: "string \<Rightarrow> (string, int) dict \<Rightarrow> int" where
  "total_of p d = sum_list (map snd (filter (\<lambda>(k, v). starts_with k p) d))"

text \<open>The body of the comprehension, and of the loop in \<open>reset_stats\<close>.\<close>

definition fw_read_stat :: "'w os \<Rightarrow> firewall \<Rightarrow> int \<times> string \<Rightarrow> ('w, string \<times> int) io" where
  "fw_read_stat os fw = (\<lambda>(i, name).
     io_bind (io_of (pack_ints U32_KEY [i])) (\<lambda>key.
     io_bind (bpfmap_sum_percpu os (fw_stats fw) key) (\<lambda>v. io_return (name, v))))"

definition fw_zero_stat :: "'w os \<Rightarrow> firewall \<Rightarrow> int \<Rightarrow> ('w, unit) io" where
  "fw_zero_stat os fw i =
     io_bind (io_of (pack_ints U32_KEY [i])) (\<lambda>key.
     bpfmap_update os (fw_stats fw) key (zeros (bm_value_size (fw_stats fw))) BPF_ANY)"

definition fw_read_stats :: "'w os \<Rightarrow> firewall \<Rightarrow> ('w, (string, int) dict) io" where
  "fw_read_stats os fw =
     io_bind (io_list (py_enumerate STAT_NAMES) (fw_read_stat os fw)) (\<lambda>out.
     let out1 = dict_set ''drops_total'' (total_of ''drop_'' out) out in
     io_return (dict_set ''passes_total'' (total_of ''pass_'' out1) out1))"

definition fw_reset_stats :: "'w os \<Rightarrow> firewall \<Rightarrow> ('w, unit) io" where
  "fw_reset_stats os fw =
     io_for (map int [0..<length STAT_NAMES]) (fw_zero_stat os fw)"

section \<open>Settings\<close>

definition CONFIG_FIELDS :: "string list" where
  "CONFIG_FIELDS = [''rate_pps'', ''burst_pkts'', ''features'', ''aggressiveness'', ''default_policy'']"

definition fw_read_config :: "'w os \<Rightarrow> firewall \<Rightarrow> ('w, (string, int) dict) io" where
  "fw_read_config os fw =
     io_bind (io_of (pack_ints U32_KEY [0])) (\<lambda>key.
     io_bind (bpfmap_lookup os (fw_config fw) key 0) (\<lambda>raw.
     case raw of
       None \<Rightarrow> io_raise TypeError
     | Some val \<Rightarrow> io_of (result_map (zip CONFIG_FIELDS) (unpack_ints CONFIG val))))"

text \<open>What \<open>update_config\<close> does with the settings it has read.\<close>

definition config_write ::
    "'w os \<Rightarrow> firewall \<Rightarrow> (string, int) dict \<Rightarrow> (string, int) dict \<Rightarrow> ('w, (string, int) dict) io" where
  "config_write os fw changes cfg =
     (if \<not> list_all (\<lambda>(k, v). List.member (map fst cfg) k) changes then io_raise ValueError
      else let cfg' = dict_of changes cfg in
       io_bind (io_of (pack_ints U32_KEY [0])) (\<lambda>key.
       io_bind (io_of (result_list (dict_index cfg') CONFIG_FIELDS)) (\<lambda>vs.
       io_bind (io_of (pack_ints CONFIG (vs @ [0]))) (\<lambda>val.
       io_seq (bpfmap_update os (fw_config fw) key val BPF_ANY) (io_return cfg')))))"

definition fw_update_config ::
    "'w os \<Rightarrow> firewall \<Rightarrow> (string, int) dict \<Rightarrow> ('w, (string, int) dict) io" where
  "fw_update_config os fw changes = io_bind (fw_read_config os fw) (config_write os fw changes)"

section \<open>The program\<close>

text \<open>
  \<open>with BpfProg(...) as prog: return prog.info()\<close>; the descriptor is closed also when
  \<open>info\<close> raises, and an exception of \<open>close\<close> replaces the result.
\<close>

definition fw_prog_info :: "'w os \<Rightarrow> firewall \<Rightarrow> ('w, prog_info) io" where
  "fw_prog_info os fw =
     (let path = fw_pin_dir fw @ ''/xdp_firewall'' in
      io_bind (open_pinned os path) (\<lambda>fd w.
      case prog_read_info os path fd w of (r, w1) \<Rightarrow>
        (case pinned_close os fd w1 of
           (Inl e, w2) \<Rightarrow> (Inl e, w2)
         | (Inr _, w2) \<Rightarrow> (r, w2))))"

section \<open>The firewall on a kernel\<close>

text \<open>
  The object's six handles are maps of the declared kinds and sizes, all different; the elements
  of an array exist from the start; and no map is larger than what the walk and the fuel of the
  batched read allow.
\<close>

locale fw_kernel = bpf_kernel os is_map kind ksize vsize inv view pos
  for os :: "'w os" and is_map kind ksize vsize inv and view :: "'w \<Rightarrow> int \<Rightarrow> (bytes, bytes) dict" and pos +
  fixes fw :: firewall
  assumes allowlist_map: "handle (fw_allowlist fw)" "kind (bm_fd (fw_allowlist fw)) = LPM_TRIE"
      "bm_key_size (fw_allowlist fw) = 8" "bm_value_size (fw_allowlist fw) = 16"
    and blocklist_map: "handle (fw_blocklist fw)" "kind (bm_fd (fw_blocklist fw)) = LPM_TRIE"
      "bm_key_size (fw_blocklist fw) = 8" "bm_value_size (fw_blocklist fw) = 24"
    and portrules_map: "handle (fw_portrules fw)" "kind (bm_fd (fw_portrules fw)) = HASH"
      "bm_key_size (fw_portrules fw) = 4" "bm_value_size (fw_portrules fw) = 16 * bm_ncpu (fw_portrules fw)"
      "0 < bm_ncpu (fw_portrules fw)"
    and srcstate_map: "handle (fw_srcstate fw)" "kind (bm_fd (fw_srcstate fw)) = HASH"
      "bm_key_size (fw_srcstate fw) = 4" "bm_value_size (fw_srcstate fw) = 104"
    and stats_map: "handle (fw_stats fw)" "kind (bm_fd (fw_stats fw)) = ARRAY"
      "bm_key_size (fw_stats fw) = 4" "bm_value_size (fw_stats fw) = 8 * bm_ncpu (fw_stats fw)"
    and config_map: "handle (fw_config fw)" "kind (bm_fd (fw_config fw)) = ARRAY"
      "bm_key_size (fw_config fw) = 4" "bm_value_size (fw_config fw) = 32"
    and fds_distinct: "distinct (map bm_fd [fw_allowlist fw, fw_blocklist fw, fw_portrules fw,
      fw_srcstate fw, fw_stats fw, fw_config fw])"
    and stats_keys: "inv w \<Longrightarrow> i < length STAT_NAMES \<Longrightarrow>
      le_bytes 4 (int i) \<in> fst ` set (view w (bm_fd (fw_stats fw)))"
    and config_key: "inv w \<Longrightarrow> zeros 4 \<in> fst ` set (view w (bm_fd (fw_config fw)))"
    and size_bound: "inv w \<Longrightarrow> length (view w fd) \<le> WALK_LIMIT \<and> length (view w fd) < os_fuel os"

section \<open>Codecs\<close>

lemma lpm_key_ok: "lpm_key s = Inr k \<Longrightarrow> key_ok LPM_TRIE 8 k"
  by (auto simp: lpm_key_Inr key_ok_def dest!: parse_cidr_ok)

lemma allow_zero: "pack_ints ALLOW_VAL [0, 0, 0] = Inr (zeros 16)"
  by code_simp

lemma zero_key: "pack_ints U32_KEY [0] = Inr (zeros 4)"
  by code_simp

lemma ints_of_map [simp]: "ints_of (map VInt vs) = Inr vs"
  by (induction vs) auto

lemma pack_unpack_ints:
  assumes "pack_ints fs vs = Inr bs" "val_fits fs (map VInt vs)"
  shows "unpack_ints fs bs = Inr vs"
  using struct_unpack_pack [OF assms(2)] assms(1) by (simp add: pack_ints_def unpack_ints_def)

lemma block_pack:
  assumes "pack_ints BLOCK_VAL [e, h, r, p] = Inr val"
  shows "length val = 24 \<and> expires_of val = Inr e"
proof -
  have "0 \<le> e \<and> e < 256 ^ 8 \<and> 0 \<le> h \<and> h < 256 ^ 8 \<and> 0 \<le> r \<and> r < 256 ^ 4 \<and> 0 \<le> p \<and> p < 256 ^ 4"
    using assms
    by (auto simp: pack_ints_def BLOCK_VAL_def pack_int_def is_int_fmt_def result_bind_Inr result_map_Inr
        split: if_splits)
  then have "val_fits BLOCK_VAL (map VInt [e, h, r, p])" by (simp add: BLOCK_VAL_def is_int_fmt_def)
  from pack_unpack_ints [OF assms this] struct_pack_length [OF assms [unfolded pack_ints_def]]
  show ?thesis by (simp add: expires_of_def py_index_def BLOCK_VAL_def)
qed

lemma block_pack_ok:
  "0 \<le> e \<Longrightarrow> e < 2 ^ 64 \<Longrightarrow> 0 \<le> r \<Longrightarrow> r < 2 ^ 32 \<Longrightarrow> \<exists>val. pack_ints BLOCK_VAL [e, 0, r, 0] = Inr val"
  by (auto simp: pack_ints_def BLOCK_VAL_def pack_int_def is_int_fmt_def)

text \<open>The deadline stored in a blocklist value.\<close>

definition deadline :: "bytes \<Rightarrow> int" where
  "deadline val = le_int (take 8 val)"

lemma expires_of_deadline: "length val = 24 \<Longrightarrow> expires_of val = Inr (deadline val)"
  by (simp add: expires_of_def unpack_ints_def struct_unpack_def BLOCK_VAL_def py_index_def deadline_def)

text \<open>An entry of the blocklist is in force at a time.\<close>

definition in_force :: "int \<Rightarrow> bytes \<Rightarrow> bool" where
  "in_force now val \<longleftrightarrow> deadline val = 0 \<or> deadline val > now"

text \<open>The prefixes of a trie that cover an address.\<close>

definition covered :: "(bytes, bytes) dict \<Rightarrow> ipv4 \<Rightarrow> bool" where
  "covered d a \<longleftrightarrow> list_ex (\<lambda>e. covers (lpm_network (fst e)) a) d"

definition host :: "ipv4 \<Rightarrow> network" where
  "host a = \<lparr>network_address = a, prefixlen = 32\<rparr>"

lemma host_ok [simp]: "network_ok (host a)"
  by (simp add: host_def network_ok_def)

lemma lpm_matches_host:
  assumes "key_ok LPM_TRIE 8 e"
  shows "lpm_matches e (lpm_bytes (host a)) \<longleftrightarrow> covers (lpm_network e) a"
  using assms lpm_network_bytes [OF host_ok, of a]
  by (auto simp: lpm_matches_def covers_def key_ok_def network_ok_def host_def)

lemma find_covered:
  assumes "kdict_ok LPM_TRIE 8 vs d"
  shows "kmap_find LPM_TRIE d (lpm_bytes (host a)) \<noteq> None \<longleftrightarrow> covered d a"
proof -
  have "lpm_matches (fst e) (lpm_bytes (host a)) \<longleftrightarrow> covers (lpm_network (fst e)) a" if "e \<in> set d" for e
    using kdict_ok_key [OF assms] that by (intro lpm_matches_host) auto
  then show ?thesis by (auto simp: kmap_find_lpm_None covered_def list_ex_iff)
qed

section \<open>Address lists\<close>

lemma covered_dom:
  "dict_ok d \<Longrightarrow> covered d a \<longleftrightarrow> (\<exists>e. map_of d e \<noteq> None \<and> covers (lpm_network e) a)"
  by (auto simp: covered_def list_ex_iff map_of_eq_None_iff image_iff)

lemma covered_update:
  assumes "dict_ok d" "dict_ok d'" "map_of d' = (map_of d)(k \<mapsto> v)"
  shows "covered d' a \<longleftrightarrow> covers (lpm_network k) a \<or> covered d a"
  unfolding covered_dom [OF assms(1)] covered_dom [OF assms(2)] assms(3) fun_upd_apply
  by (metis option.distinct(1))

context fw_kernel
begin

abbreviation allow_entries :: "'w \<Rightarrow> (bytes, bytes) dict" where
  "allow_entries w \<equiv> contents w (fw_allowlist fw)"

abbreviation block_entries :: "'w \<Rightarrow> (bytes, bytes) dict" where
  "block_entries w \<equiv> contents w (fw_blocklist fw)"

lemma list_sizes:
  "ksize (bm_fd (fw_allowlist fw)) = 8" "vsize (bm_fd (fw_allowlist fw)) = 16"
  "ksize (bm_fd (fw_blocklist fw)) = 8" "vsize (bm_fd (fw_blocklist fw)) = 24"
  using allowlist_map blocklist_map by (simp_all add: handle_def)

lemma allow_ok: "inv w \<Longrightarrow> kdict_ok LPM_TRIE 8 16 (allow_entries w)"
  using contents_ok [OF _ allowlist_map(1)] by (simp add: allowlist_map list_sizes)

lemma block_ok: "inv w \<Longrightarrow> kdict_ok LPM_TRIE 8 24 (block_entries w)"
  using contents_ok [OF _ blocklist_map(1)] by (simp add: blocklist_map list_sizes)

lemma good_lpm:
  "lpm_key s = Inr k \<Longrightarrow> good_key (fw_allowlist fw) k" "lpm_key s = Inr k \<Longrightarrow> good_key (fw_blocklist fw) k"
  by (simp_all add: lpm_key_ok allowlist_map blocklist_map list_sizes)

lemma allow_run:
  assumes "inv w" "lpm_key cidr = Inr k" "fw_allow os fw cidr w = (r, w')"
  shows "inv w' \<and> (\<forall>fd. fd \<noteq> bm_fd (fw_allowlist fw) \<longrightarrow> view w' fd = view w fd) \<and>
    (case r of Inl e \<Rightarrow> view w' = view w
     | Inr _ \<Rightarrow> map_of (allow_entries w') = (map_of (allow_entries w))(k \<mapsto> zeros 16))"
proof -
  have "bpfmap_update os (fw_allowlist fw) k (zeros 16) BPF_ANY w = (r, w')"
    using assms(2,3) by (simp add: fw_allow_def io_simps allow_zero)
  from update_run [OF assms(1) allowlist_map(1) good_lpm(1) [OF assms(2)] _ this] show ?thesis
    by (auto simp: allowlist_map zeros_def split: sum.splits)
qed

lemma is_allowed_run:
  assumes "inv w" "fw_is_allowed os fw ip w = (r, w')"
  shows "inv w' \<and> view w' = view w \<and>
    r = result_map (\<lambda>k. kmap_find LPM_TRIE (allow_entries w) k \<noteq> None) (lpm_key ip)"
proof (cases "lpm_key ip")
  case (Inl e)
  with assms show ?thesis by (simp add: fw_is_allowed_def io_simps)
next
  case (Inr k)
  obtain rl w1 where l: "bpfmap_lookup os (fw_allowlist fw) k 0 w = (rl, w1)" by fastforce
  from lookup_run [OF assms(1) allowlist_map(1) good_lpm(1) [OF Inr] l] assms(2) l Inr show ?thesis
    by (auto simp: fw_is_allowed_def io_simps allowlist_map)
qed

lemma block_run:
  assumes "inv w" "fw_block os fw cidr duration reason w = (r, w')"
  shows "inv w' \<and> (\<forall>fd. fd \<noteq> bm_fd (fw_blocklist fw) \<longrightarrow> view w' fd = view w fd) \<and>
    (case r of Inl e \<Rightarrow> view w' = view w
     | Inr _ \<Rightarrow> \<exists>k val d. lpm_key cidr = Inr k \<and>
         map_of (block_entries w') = (map_of (block_entries w))(k \<mapsto> val) \<and> length val = 24 \<and>
         (if pyfloat_pos duration
          then py_int_of_float (pyfloat_scale 1000000000 duration) = Inr d \<and>
            deadline val = fst (os_ktime os w) + d
          else deadline val = 0))"
proof -
  let ?pos = "pyfloat_pos duration" and ?d = "py_int_of_float (pyfloat_scale 1000000000 duration)"
  define w1 where "w1 = (if ?pos then snd (os_ktime os w) else w)"
  have w1: "inv w1" "view w1 = view w"
    using assms(1) ktime_inv [of w "fst (os_ktime os w)" w1] ktime_view [of w "fst (os_ktime os w)" w1]
    by (auto simp: w1_def)
  define er where "er = (if ?pos then result_map (\<lambda>d. fst (os_ktime os w) + d) ?d else Inr 0)"
  have run: "(r, w') = (case er of Inl e \<Rightarrow> (Inl e, w1) | Inr e \<Rightarrow>
      (case lpm_key cidr of Inl x \<Rightarrow> (Inl x, w1) | Inr k \<Rightarrow>
      (case pack_ints BLOCK_VAL [e, 0, reason, 0] of Inl x \<Rightarrow> (Inl x, w1) | Inr val \<Rightarrow>
        bpfmap_update os (fw_blocklist fw) k val BPF_ANY w1)))"
    unfolding assms(2) [symmetric]
    by (cases ?d) (auto simp: fw_block_def io_simps ktime_ns_def er_def w1_def split: sum.splits)
  consider "is_ok r = False" "view w' = view w" "inv w'"
    | e k val where "er = Inr e" "lpm_key cidr = Inr k" "pack_ints BLOCK_VAL [e, 0, reason, 0] = Inr val"
      "bpfmap_update os (fw_blocklist fw) k val BPF_ANY w1 = (r, w')"
    using run w1 by (auto split: sum.splits)
  then show ?thesis
  proof cases
    case 1
    then show ?thesis by (cases r) auto
  next
    case (2 e k val)
    have val: "length val = 24" "deadline val = e"
      using block_pack [OF 2(3)] expires_of_deadline [of val] by auto
    have d: "if ?pos then \<exists>d. ?d = Inr d \<and> e = fst (os_ktime os w) + d else e = 0"
      using 2(1) by (cases ?d) (auto simp: er_def split: if_splits)
    have "length val = bm_value_size (fw_blocklist fw)" by (simp add: val blocklist_map)
    from update_run [OF w1(1) blocklist_map(1) good_lpm(2) [OF 2(2)] this 2(4)] w1 val d 2(2) show ?thesis
      by (auto split: sum.splits if_splits)
  qed
qed

lemma unblock_run:
  assumes "inv w" "lpm_key cidr = Inr k" "fw_unblock os fw cidr w = (r, w')"
  shows "inv w' \<and> (\<forall>fd. fd \<noteq> bm_fd (fw_blocklist fw) \<longrightarrow> view w' fd = view w fd) \<and>
    r = Inr (k \<in> fst ` set (block_entries w)) \<and>
    map_of (block_entries w') = (map_of (block_entries w))(k := None)"
  using delete_run [OF assms(1) blocklist_map(1) _ good_lpm(2) [OF assms(2)], of r w'] assms(2,3)
  by (simp add: fw_unblock_def io_simps blocklist_map)

lemma unallow_run:
  assumes "inv w" "lpm_key cidr = Inr k" "fw_unallow os fw cidr w = (r, w')"
  shows "inv w' \<and> (\<forall>fd. fd \<noteq> bm_fd (fw_allowlist fw) \<longrightarrow> view w' fd = view w fd) \<and>
    r = Inr (k \<in> fst ` set (allow_entries w)) \<and>
    map_of (allow_entries w') = (map_of (allow_entries w))(k := None)"
  using delete_run [OF assms(1) allowlist_map(1) _ good_lpm(1) [OF assms(2)], of r w'] assms(2,3)
  by (simp add: fw_unallow_def io_simps allowlist_map)

lemma allowed_after_allow:
  assumes "inv w" "parse_cidr cidr = Inr net" "fw_allow os fw cidr w = (Inr (), w')" "parse_cidr ip = Inr (host a)"
  shows "fst (fw_is_allowed os fw ip w') = Inr (covers net a \<or> fst (fw_is_allowed os fw ip w) = Inr True)"
proof -
  note k = lpm_key_parsed [OF assms(2)] and ki = lpm_key_parsed [OF assms(4)]
  note w' = allow_run [OF assms(1) k assms(3)]
  have "fst (fw_is_allowed os fw ip w1) = Inr (covered (allow_entries w1) a)" if "inv w1" for w1
    using is_allowed_run [OF that prod.collapse [symmetric]] find_covered [OF allow_ok [OF that], of a] ki
    by simp
  moreover have "covered (allow_entries w') a \<longleftrightarrow> covers net a \<or> covered (allow_entries w) a"
  proof -
    have "dict_ok (allow_entries w1)" if "inv w1" for w1 using allow_ok [OF that] by (simp add: kdict_ok_def)
    then show ?thesis
      using w' assms(1) parse_cidr_ok [OF assms(2)] covered_update [of "allow_entries w" "allow_entries w'"] by simp
  qed
  ultimately show ?thesis using w' assms(1) by simp
qed

text \<open>The most specific entry decides.\<close>

lemma is_blocked_run:
  assumes "inv w" "lpm_key ip = Inr k" "fw_is_blocked os fw ip w = (r, w')"
  shows "inv w' \<and> view w' = view w \<and>
    (\<exists>now. r = Inr (case kmap_find LPM_TRIE (block_entries w) k of None \<Rightarrow> False | Some val \<Rightarrow> in_force now val) \<and>
      (\<forall>val. kmap_find LPM_TRIE (block_entries w) k = Some val \<longrightarrow> deadline val \<noteq> 0 \<longrightarrow>
        (\<exists>w1. view w1 = view w \<and> os_ktime os w1 = (now, w'))))"
proof -
  obtain rl w1 where l: "bpfmap_lookup os (fw_blocklist fw) k 0 w = (rl, w1)" by fastforce
  note run = lookup_run [OF assms(1) blocklist_map(1) good_lpm(2) [OF assms(2)] l, unfolded blocklist_map]
  show ?thesis
  proof (cases "kmap_find LPM_TRIE (block_entries w) k")
    case None
    with run assms(2,3) l show ?thesis by (auto simp: fw_is_blocked_def io_simps)
  next
    case (Some val)
    have "length val = 24"
      using find_length [OF assms(1) blocklist_map(1), unfolded blocklist_map, OF Some] by simp
    then have e: "expires_of val = Inr (deadline val)" by (rule expires_of_deadline)
    obtain now w2 where t: "os_ktime os w1 = (now, w2)" by fastforce
    note w2 = ktime_view [OF t] ktime_inv [OF _ t]
    from Some run assms(2,3) l e t w2 show ?thesis
      by (cases "deadline val = 0")
        (auto simp: fw_is_blocked_def io_simps ktime_ns_def in_force_def intro!: exI [of _ now])
  qed
qed

text \<open>A block of one address is the most specific entry for it, so it alone decides.\<close>

lemma blocked_after_block:
  assumes "inv w" "parse_cidr ip = Inr (host a)" "pyfloat_pos duration" "os_ktime os w = (t0, w0)"
    and "py_int_of_float (pyfloat_scale 1000000000 duration) = Inr d" "0 < t0 + d"
    and "fw_block os fw ip duration reason w = (Inr (), w1)" "inv w2" "view w2 = view w1"
    and "fw_is_blocked os fw ip w2 = (r, w3)"
  shows "\<exists>now w'. os_ktime os w' = (now, w3) \<and> r = Inr (now < t0 + d)"
proof -
  note k = lpm_key_parsed [OF assms(2)]
  from block_run [OF assms(1,7)] k assms(3,4,5) obtain val where
    val: "map_of (block_entries w1) (lpm_bytes (host a)) = Some val" "deadline val = t0 + d" by auto
  then have "kmap_find LPM_TRIE (block_entries w2) (lpm_bytes (host a)) = Some val"
    using find_self [OF block_ok [OF assms(8)]] assms(9) by (metis map_of_SomeD)
  with is_blocked_run [OF assms(8) k assms(10)] val assms(6) show ?thesis
    by (auto simp: in_force_def)
qed

text \<open>Cleaning up the blocklist removes the entries whose deadline has passed, and only those.\<close>

lemma keys_where_map:
  "(\<And>e. e \<in> set es \<Longrightarrow> p (snd e) = Inr (q (snd e))) \<Longrightarrow> keys_where p es = Inr (map fst (filter (\<lambda>e. q (snd e)) es))"
proof (induction es)
  case (Cons e es)
  then show ?case using Cons.prems [of e] by (cases e) simp
qed simp

lemma items_all:
  assumes "inv w" "handle m" "bpfmap_items os m flags w = (r, w')"
  shows "r = Inr (contents w m) \<and> view w' = view w \<and> inv w'"
  using items_run [OF assms(1,2) _ _ assms(3)] size_bound [OF assms(1)] by simp

lemma contents_keys_good:
  assumes "inv w" "handle m"
  shows "list_all (good_key m) (map fst (filter P (contents w m)))"
proof -
  have "good_key m k" if "(k, v) \<in> set (contents w m)" for k v
    by (rule kdict_ok_key [OF contents_ok [OF assms]]) (use that in force)
  then show ?thesis by (auto simp: list_all_iff)
qed

lemma restrict_removed:
  assumes "dict_ok d" "map_of d' = map_of d |` (- set (map fst (filter P d)))"
  shows "map_of d' k = (case map_of d k of None \<Rightarrow> None | Some v \<Rightarrow> if P (k, v) then None else Some v)"
proof (cases "map_of d k")
  case (Some v)
  have "k \<in> set (map fst (filter P d)) \<longleftrightarrow> P (k, v)"
  proof -
    have "(k, u) \<in> set d \<longleftrightarrow> u = v" for u
      using Some assms(1) by (metis map_of_SomeD map_of_is_SomeI option.inject)
    then show ?thesis by (force simp: image_iff)
  qed
  with Some assms(2) show ?thesis by (simp add: restrict_map_def)
qed (use assms(2) in \<open>simp add: restrict_map_def\<close>)

lemma clear_run:
  assumes "inv w" "handle m" "kind (bm_fd m) \<noteq> ARRAY" "fw_clear os m w = (r, w')"
  shows "inv w' \<and> (\<forall>fd. fd \<noteq> bm_fd m \<longrightarrow> view w' fd = view w fd) \<and> contents w' m = [] \<and>
    r = Inr (int (length (contents w m)))"
proof -
  obtain rk w1 where k: "bpfmap_keys os m w = (rk, w1)" by fastforce
  have w1: "rk = Inr (map fst (contents w m))" "view w1 = view w" "inv w1"
    using keys_run [OF assms(1,2) _ k] size_bound [OF assms(1)] by auto
  obtain rd w2 where d: "delete_each os m (map fst (contents w m)) w1 = (rd, w2)" by fastforce
  have "list_all (good_key m) (map fst (contents w m))"
    using contents_keys_good [OF assms(1,2), of "\<lambda>_. True"] by simp
  note w2 = delete_each_run [OF w1(3) assms(2,3) this d]
  then have "map_of (contents w2 m) x = None" for x
    using w1(2) by (auto simp: restrict_map_def) (metis domIff dom_map_of_conv_image_fst)
  then have "contents w2 m = []" by (cases "contents w2 m") (auto split: if_splits, metis option.distinct(1))
  with assms(4) k w1 d w2 show ?thesis by (auto simp: fw_clear_def io_simps)
qed

lemma remove_expired_run:
  assumes "inv w" "os_ktime os w = (now, w0)" "fw_remove_expired_blocks os fw w = (r, w')"
  shows "inv w' \<and> (\<forall>fd. fd \<noteq> bm_fd (fw_blocklist fw) \<longrightarrow> view w' fd = view w fd) \<and>
    r = Inr (int (length (filter (\<lambda>e. \<not> in_force now (snd e)) (block_entries w)))) \<and>
    (\<forall>k. map_of (block_entries w') k = (case map_of (block_entries w) k of
       None \<Rightarrow> None | Some v \<Rightarrow> if in_force now v then Some v else None))"
proof -
  note w0 = ktime_view [OF assms(2)] ktime_inv [OF assms(1,2)]
  obtain ri w1 where i: "bpfmap_items os (fw_blocklist fw) 0 w0 = (ri, w1)" by fastforce
  note w1 = items_all [OF w0(2) blocklist_map(1) i]
  let ?P = "\<lambda>e :: bytes \<times> bytes. \<not> in_force now (snd e)"
  let ?ks = "map fst (filter ?P (block_entries w))"
  have "keys_where (\<lambda>v. result_map (\<lambda>e. 0 < e \<and> e \<le> now) (expires_of v)) (block_entries w) = Inr ?ks"
  proof (rule keys_where_map)
    fix e
    assume "e \<in> set (block_entries w)"
    then have "length (snd e) = 24"
      using kdict_okD [OF block_ok [OF assms(1)], of "fst e" "snd e"] by simp
    then show "result_map (\<lambda>e. 0 < e \<and> e \<le> now) (expires_of (snd e)) = Inr (\<not> in_force now (snd e))"
      using le_int_range(1) [of "take 8 (snd e)"] by (auto simp: expires_of_deadline in_force_def deadline_def)
  qed
  moreover obtain rd w2 where d: "delete_each os (fw_blocklist fw) ?ks w1 = (rd, w2)" by fastforce
  moreover have "list_all (good_key (fw_blocklist fw)) ?ks"
    by (rule contents_keys_good [OF assms(1) blocklist_map(1)])
  note w2 = delete_each_run [OF _ blocklist_map(1) _ this d]
  have w2': "inv w2" "\<forall>fd. fd \<noteq> bm_fd (fw_blocklist fw) \<longrightarrow> view w2 fd = view w fd" "rd = Inr ()"
    "map_of (block_entries w2) = map_of (block_entries w) |` (- set ?ks)"
    using w2 w0 w1 by (auto simp: blocklist_map)
  ultimately have "r = Inr (int (length ?ks))" "w' = w2"
    using assms(2,3) i w0 w1 by (auto simp: fw_remove_expired_blocks_def io_simps ktime_ns_def)
  moreover have "dict_ok (block_entries w)" using block_ok [OF assms(1)] by (simp add: kdict_ok_def)
  note restrict_removed [OF this w2'(4)]
  ultimately show ?thesis using w2' by (auto split: option.splits)
qed

end

section \<open>Port rules\<close>

definition port_bytes :: "int \<Rightarrow> bytes" where
  "port_bytes action = le_bytes 8 0 @ le_bytes 4 action @ le_bytes 4 0"

lemma length_port_bytes [simp]: "length (port_bytes a) = 16"
  by (simp add: port_bytes_def)

lemma port_pack:
  "pack_ints PORT_VAL [0, a, 0] = (if 0 \<le> a \<and> a < 2 ^ 32 then Inr (port_bytes a) else Inl StructError)"
  by (simp add: pack_ints_def PORT_VAL_def pack_int_def is_int_fmt_def port_bytes_def)

lemma port_unpack: "0 \<le> a \<Longrightarrow> a < 2 ^ 32 \<Longrightarrow> unpack_fields PORT_VAL (port_bytes a) = [VInt 0, VInt a, VInt 0]"
  by (simp add: port_bytes_def PORT_VAL_def le_int_le_bytes)

lemma sum_list_zeros: "sum_list (replicate n (0 :: int)) = 0"
  by (induction n) auto

lemma result_list_replicate: "f x = Inr y \<Longrightarrow> result_list f (replicate n x) = Inr (replicate n y)"
  by (induction n) auto

lemma ints_of_port: "ints_of [VInt p, VInt n] = Inr [p, n]" "ints_of [VInt x, VInt y, VInt z] = Inr [x, y, z]"
  by simp_all

lemma length_port_key: "port_key proto port = Inr k \<Longrightarrow> length k = 4"
proof -
  assume "port_key proto port = Inr k"
  then obtain p where "struct_pack PORT_KEY [VInt p, VInt port] = Inr k"
    by (auto simp: port_key_cases split: sum.splits if_splits)
  from struct_pack_length [OF this] show ?thesis by (simp add: PORT_KEY_def)
qed

lemma port_key_unpack:
  assumes "port_key proto port = Inr k"
  shows "\<exists>p. parse_proto proto = Inr p \<and> struct_unpack PORT_KEY k = Inr [VInt p, VInt port]"
proof -
  obtain p where p: "parse_proto proto = Inr p" "0 \<le> port" "port \<le> port_limit p"
    "struct_pack PORT_KEY [VInt p, VInt port] = Inr k"
    using assms by (auto simp: port_key_cases split: sum.splits if_splits)
  have "port \<le> 65535" using p(3) by (auto simp: port_limit_def split: if_splits)
  with pack_port [of p port] parse_proto_range [OF p(1)] p show ?thesis by auto
qed

text \<open>A rule that was just written reads back with no hits.\<close>

lemma port_row_new:
  assumes "struct_unpack PORT_KEY k = Inr [VInt p, VInt port]" "0 \<le> a" "a < 2 ^ 32" "0 < n"
  shows "port_row (k, concat (replicate n (port_bytes a))) = Inr
    \<lparr>pr_proto = proto_name p, pr_port = port, pr_action = dict_get ACTIONS a (py_str_int a), pr_hits = 0\<rparr>"
proof -
  have size: "calcsize PORT_VAL = 16" by (simp add: PORT_VAL_def)
  have len: "length (concat (replicate n (port_bytes a))) = 16 * n"
    by (subst length_concat_same [of _ 16]) auto
  have "struct_iter_unpack PORT_VAL (concat (replicate n (port_bytes a))) =
      Inr (replicate n [VInt 0, VInt a, VInt 0])"
    using assms(2,3) by (simp add: struct_iter_unpack_def size len chunks_replicate port_unpack)
  moreover have "result_list ints_of (replicate n [VInt 0, VInt a, VInt 0]) = Inr (replicate n [0, a, 0])"
    by (rule result_list_replicate) simp
  moreover have "result_list (\<lambda>c. py_index c 0) (replicate n [0, a, 0]) = Inr (replicate n 0)"
    by (rule result_list_replicate) (simp add: py_index_def)
  ultimately show ?thesis
    using assms(1,4) by (simp add: port_row_def unpack_ints_def py_index_def sum_list_zeros)
qed

text \<open>Every entry of the right size can be listed.\<close>

lemma port_row_total:
  assumes "length k = 4" "length v = 16 * n" "0 < n"
  shows "\<exists>row. port_row (k, v) = Inr row"
proof -
  have "\<exists>x y z. unpack_fields PORT_VAL c = [VInt x, VInt y, VInt z]" for c
    by (simp add: PORT_VAL_def)
  then have ints: "ints_of (unpack_fields PORT_VAL c) = Inr (map (\<lambda>x. case x of VInt i \<Rightarrow> i) (unpack_fields PORT_VAL c))"
    "length (unpack_fields PORT_VAL c) = 3" for c
    by (simp_all add: PORT_VAL_def)
  obtain cs where it: "struct_iter_unpack PORT_VAL v = Inr (map (unpack_fields PORT_VAL) cs)" "length cs = n"
    using assms(2,3) by (simp add: struct_iter_unpack_def PORT_VAL_def)
  define ls where "ls = map (\<lambda>c. map (\<lambda>x. case x of VInt i \<Rightarrow> i) (unpack_fields PORT_VAL c)) cs"
  have l: "result_list ints_of (map (unpack_fields PORT_VAL) cs) = Inr ls"
    unfolding ls_def by (induction cs) (simp_all add: ints(1))
  have three: "length c = 3" if "c \<in> set ls" for c using that ints(2) by (auto simp: ls_def)
  then have "result_list (\<lambda>c. py_index c 0) ls = Inr (map (\<lambda>c. c ! 0) ls)"
    by (intro result_list_map) (auto simp: py_index_def)
  moreover have "py_index ls 0 = Inr (ls ! 0)" "py_index (ls ! 0) 1 = Inr (ls ! 0 ! 1)"
    using ints(2) it(2) assms(3) by (auto simp: py_index_def ls_def)
  moreover have "struct_unpack PORT_KEY k = Inr [VInt (le_int (take 1 k)), VInt (le_int (take 2 (drop 2 k)))]"
    using assms(1) by (simp add: struct_unpack_def PORT_KEY_def numeral_2_eq_2)
  ultimately show ?thesis
    by (simp add: port_row_def unpack_ints_def it(1) l) (simp add: py_index_def)
qed

context fw_kernel
begin

abbreviation port_entries :: "'w \<Rightarrow> (bytes, bytes) dict" where
  "port_entries w \<equiv> contents w (fw_portrules fw)"

lemma good_port: "port_key proto port = Inr k \<Longrightarrow> good_key (fw_portrules fw) k"
  using length_port_key [of proto port k] portrules_map by (simp add: key_ok_def handle_def)

lemma set_port_rule_run:
  assumes "inv w" "fw_set_port_rule os fw proto port action w = (r, w')"
  shows "inv w' \<and> (\<forall>fd. fd \<noteq> bm_fd (fw_portrules fw) \<longrightarrow> view w' fd = view w fd) \<and>
    (case r of Inl e \<Rightarrow> view w' = view w
     | Inr _ \<Rightarrow> \<exists>k. port_key proto port = Inr k \<and> 0 \<le> action \<and> action < 2 ^ 32 \<and>
         map_of (port_entries w') = (map_of (port_entries w))
           (k \<mapsto> concat (replicate (bm_ncpu (fw_portrules fw)) (port_bytes action))))"
proof (cases "port_key proto port")
  case (Inl e)
  with assms show ?thesis by (auto simp: fw_set_port_rule_def io_simps)
next
  case (Inr k)
  let ?v = "concat (replicate (bm_ncpu (fw_portrules fw)) (port_bytes action))"
  show ?thesis
  proof (cases "0 \<le> action \<and> action < 2 ^ 32")
    case True
    then have u: "bpfmap_update os (fw_portrules fw) k ?v BPF_ANY w = (r, w')"
      using assms(2) Inr by (simp add: fw_set_port_rule_def io_simps port_pack)
    have "length ?v = bm_value_size (fw_portrules fw)"
      by (subst length_concat_same [of _ 16]) (auto simp: portrules_map)
    from update_run [OF assms(1) portrules_map(1) good_port [OF Inr] this u] Inr True show ?thesis
      by (auto split: sum.splits)
  next
    case False
    with assms Inr show ?thesis by (auto simp: fw_set_port_rule_def io_simps port_pack)
  qed
qed

lemma list_port_rules_run:
  assumes "inv w" "fw_list_port_rules os fw w = (r, w')"
  shows "\<exists>rows. r = Inr rows \<and> view w' = view w \<and> inv w' \<and>
    set rows = {row. \<exists>k v. map_of (port_entries w) k = Some v \<and> port_row (k, v) = Inr row}"
proof -
  obtain ri w1 where i: "bpfmap_items os (fw_portrules fw) 0 w = (ri, w1)" by fastforce
  note w1 = items_all [OF assms(1) portrules_map(1) i]
  note ok = contents_ok [OF assms(1) portrules_map(1)]
  have total: "\<exists>row. port_row e = Inr row" if "e \<in> set (port_entries w)" for e
    using kdict_okD [OF ok, of "fst e" "snd e"] that portrules_map
    by (cases e) (auto simp: handle_def intro!: port_row_total)
  define f where "f e = (SOME row. port_row e = Inr row)" for e
  have f: "port_row e = Inr (f e)" if "e \<in> set (port_entries w)" for e
    unfolding f_def using total [OF that] by (rule someI_ex)
  then have "result_list port_row (port_entries w) = Inr (map f (port_entries w))"
    by (rule result_list_map)
  moreover have "set (map f (port_entries w)) =
      {row. \<exists>k v. map_of (port_entries w) k = Some v \<and> port_row (k, v) = Inr row}"
    using ok f by (force simp: kdict_ok_def)
  ultimately show ?thesis
    using assms(2) i w1 by (intro exI [of _ "map f (port_entries w)"]) (simp add: fw_list_port_rules_def io_simps)
qed

lemma del_port_rule_run:
  assumes "inv w" "port_key proto port = Inr k" "fw_del_port_rule os fw proto port w = (r, w')"
  shows "inv w' \<and> (\<forall>fd. fd \<noteq> bm_fd (fw_portrules fw) \<longrightarrow> view w' fd = view w fd) \<and>
    r = Inr (k \<in> fst ` set (port_entries w)) \<and>
    map_of (port_entries w') = (map_of (port_entries w))(k := None)"
  using delete_run [OF assms(1) portrules_map(1) _ good_port [OF assms(2)], of r w'] assms(2,3)
  by (simp add: fw_del_port_rule_def io_simps portrules_map)

text \<open>A rule that was set is listed, and the rules for other protocols and ports stay.\<close>

lemma port_row_identity:
  assumes "port_row (k, v) = Inr row" "struct_unpack PORT_KEY k = Inr [VInt p, VInt n]"
  shows "pr_proto row = proto_name p \<and> pr_port row = n"
  using assms by (auto simp: port_row_def unpack_ints_def result_bind_Inr py_index_def)

lemma rule_listed:
  assumes "inv w" "fw_set_port_rule os fw proto port action w = (Inr (), w')"
    and "fst (fw_list_port_rules os fw w) = Inr rows"
  shows "\<exists>p rows'. parse_proto proto = Inr p \<and> fst (fw_list_port_rules os fw w') = Inr rows' \<and>
    set rows' \<supseteq> insert \<lparr>pr_proto = proto_name p, pr_port = port,
        pr_action = dict_get ACTIONS action (py_str_int action), pr_hits = 0\<rparr>
      {row \<in> set rows. pr_proto row \<noteq> proto_name p \<or> pr_port row \<noteq> port}"
proof -
  let ?n = "bm_ncpu (fw_portrules fw)"
  from set_port_rule_run [OF assms(1,2)] obtain k where
    w': "inv w'" "port_key proto port = Inr k" "0 \<le> action" "action < 2 ^ 32"
    "map_of (port_entries w') = (map_of (port_entries w))(k \<mapsto> concat (replicate ?n (port_bytes action)))" by auto
  obtain p where p: "parse_proto proto = Inr p" "struct_unpack PORT_KEY k = Inr [VInt p, VInt port]"
    using port_key_unpack [OF w'(2)] by blast
  let ?new = "\<lparr>pr_proto = proto_name p, pr_port = port,
    pr_action = dict_get ACTIONS action (py_str_int action), pr_hits = 0\<rparr>"
  obtain rows' where rows': "fst (fw_list_port_rules os fw w') = Inr rows'"
    "set rows' = {row. \<exists>k v. map_of (port_entries w') k = Some v \<and> port_row (k, v) = Inr row}"
    using list_port_rules_run [OF w'(1) prod.collapse [symmetric]] by auto
  have "port_row (k, concat (replicate ?n (port_bytes action))) = Inr ?new"
    using p(2) w'(3,4) portrules_map(5) by (rule port_row_new)
  then have "?new \<in> set rows'" using rows'(2) w'(5) by auto
  moreover have "row \<in> set rows'" if row: "row \<in> set rows" "pr_proto row \<noteq> proto_name p \<or> pr_port row \<noteq> port" for row
  proof -
    have "set rows = {row. \<exists>k v. map_of (port_entries w) k = Some v \<and> port_row (k, v) = Inr row}"
      using list_port_rules_run [OF assms(1) prod.collapse [symmetric]] assms(3) by auto
    then obtain k' v where kv: "map_of (port_entries w) k' = Some v" "port_row (k', v) = Inr row"
      using row(1) by blast
    with port_row_identity [OF kv(2)] p(2) row(2) have "k' \<noteq> k" by auto
    with kv rows'(2) w'(5) show ?thesis by auto
  qed
  ultimately show ?thesis using p(1) rows'(1) by auto
qed

end

section \<open>Per-source state\<close>

definition state_ints :: "bytes \<Rightarrow> int list" where
  "state_ints v = le_int (take 4 v) # map (\<lambda>i. le_int (take 8 (drop (8 + 8 * i) v))) [0..<12]"

definition decode_state :: "bytes \<Rightarrow> src_state" where
  "decode_state v = src_state_of (state_ints v)"

lemma unpack_u64s:
  "unpack_fields (replicate n U64) bs = map (\<lambda>i. VInt (le_int (take 8 (drop (8 * i) bs)))) [0..<n]"
proof (induction n arbitrary: bs)
  case (Suc n)
  have "[0..<Suc n] = 0 # map Suc [0..<n]" by (simp add: map_Suc_upt upt_conv_Cons)
  then show ?case by (simp add: Suc.IH add.commute del: upt_Suc)
qed simp

lemma unpack_state:
  assumes "length v = 104"
  shows "unpack_ints SRC_STATE v = Inr (state_ints v)"
proof -
  have "unpack_fields SRC_STATE v = map VInt (state_ints v)"
    by (simp only: SRC_STATE_def append.simps unpack_fields.simps unpack_u64s)
      (simp add: state_ints_def add.commute)
  moreover have "calcsize SRC_STATE = 104" by code_simp
  ultimately show ?thesis using assms by (simp add: unpack_ints_def struct_unpack_def)
qed

lemma state_row_ok:
  "length k = 4 \<Longrightarrow> length v = 104 \<Longrightarrow> state_row (k, v) = Inr (quad k, decode_state v)"
  by (simp add: state_row_def inet_ntoa_def unpack_state decode_state_def)

lemma dict_set_new: "k \<notin> fst ` set d \<Longrightarrow> dict_set k v d = d @ [(k, v)]"
  by (induction d) (auto simp: dict_set_def)

lemma dict_of_distinct: "dict_ok (d @ es) \<Longrightarrow> dict_of es d = d @ es"
proof (induction es arbitrary: d)
  case (Cons e es)
  then show ?case by (cases e) (simp add: dict_set_new)
qed simp

text \<open>The states as the control plane reads them.\<close>

definition states_of :: "(bytes, bytes) dict \<Rightarrow> (string, src_state) dict" where
  "states_of d = map (\<lambda>(k, v). (quad k, decode_state v)) d"

definition idle :: "int \<Rightarrow> bytes \<times> bytes \<Rightarrow> bool" where
  "idle cutoff e \<longleftrightarrow> ss_last_seen_ns (decode_state (snd e)) < cutoff"

context fw_kernel
begin

abbreviation state_entries :: "'w \<Rightarrow> (bytes, bytes) dict" where
  "state_entries w \<equiv> contents w (fw_srcstate fw)"

lemma state_ok: "inv w \<Longrightarrow> kdict_ok HASH 4 104 (state_entries w)"
  using contents_ok [OF _ srcstate_map(1)] srcstate_map by (simp add: handle_def)

lemma states_of_ok:
  assumes "inv w"
  shows "dict_ok (states_of (state_entries w))"
proof -
  note ok = state_ok [OF assms]
  have "inj_on quad (fst ` set (state_entries w))"
    using kdict_okD [OF ok] by (intro inj_onI) (auto simp: quad_inj)
  moreover have "map fst (states_of (state_entries w)) = map quad (map fst (state_entries w))"
    by (simp add: states_of_def case_prod_beta)
  ultimately show ?thesis using ok by (auto simp: kdict_ok_def distinct_map intro: comp_inj_on)
qed

lemma read_states_run:
  assumes "inv w" "fw_read_states os fw w = (r, w')"
  shows "r = Inr (states_of (state_entries w)) \<and> view w' = view w \<and> inv w'"
proof -
  obtain ri w1 where i: "bpfmap_items os (fw_srcstate fw) BPF_F_LOCK w = (ri, w1)" by fastforce
  note w1 = items_all [OF assms(1) srcstate_map(1) i]
  have "result_list state_row (state_entries w) = Inr (states_of (state_entries w))"
    unfolding states_of_def
    by (rule result_list_map) (use kdict_okD [OF state_ok [OF assms(1)]] in \<open>auto simp: state_row_ok\<close>)
  moreover have "dict_of (states_of (state_entries w)) [] = states_of (state_entries w)"
    using dict_of_distinct [of "[]"] states_of_ok [OF assms(1)] by simp
  ultimately show ?thesis using assms(2) i w1 by (auto simp: fw_read_states_def io_simps)
qed

lemma doomed_states:
  assumes "inv w"
  shows "result_list (\<lambda>(ip, st). inet_aton ip) (filter (\<lambda>(ip, st). ss_last_seen_ns st < cutoff)
      (states_of (state_entries w))) = Inr (map fst (filter (idle cutoff) (state_entries w)))"
proof -
  have "filter (\<lambda>(ip, st). ss_last_seen_ns st < cutoff) (states_of d) = states_of (filter (idle cutoff) d)" for d
    by (induction d) (auto simp: states_of_def idle_def)
  moreover have "result_list (\<lambda>(ip, st). inet_aton ip) (states_of d) = Inr (map fst d)"
    if "set d \<subseteq> set (state_entries w)" for d
    using that
  proof (induction d)
    case (Cons e d)
    then have "length (fst e) = 4" using kdict_okD [OF state_ok [OF assms], of "fst e" "snd e"] by auto
    with Cons show ?case by (cases e) (simp add: states_of_def inet_aton_ntoa)
  qed (simp add: states_of_def)
  ultimately show ?thesis by simp
qed

lemma remove_idle_run:
  assumes "inv w" "os_ktime os w = (now, w0)" "py_int_of_float (pyfloat_scale 1000000000 idle_s) = Inr d"
    and "fw_remove_idle_states os fw idle_s w = (r, w')"
  shows "inv w' \<and> (\<forall>fd. fd \<noteq> bm_fd (fw_srcstate fw) \<longrightarrow> view w' fd = view w fd) \<and>
    r = Inr (int (length (filter (idle (now - d)) (state_entries w)))) \<and>
    (\<forall>k. map_of (state_entries w') k = (case map_of (state_entries w) k of
       None \<Rightarrow> None | Some v \<Rightarrow> if idle (now - d) (k, v) then None else Some v))"
proof -
  note w0 = ktime_view [OF assms(2)] ktime_inv [OF assms(1,2)]
  obtain rs w1 where s: "fw_read_states os fw w0 = (rs, w1)" by fastforce
  note w1 = read_states_run [OF w0(2) s]
  let ?ks = "map fst (filter (idle (now - d)) (state_entries w))"
  obtain rd w2 where d: "delete_each os (fw_srcstate fw) ?ks w1 = (rd, w2)" by fastforce
  have "list_all (good_key (fw_srcstate fw)) ?ks"
    by (rule contents_keys_good [OF assms(1) srcstate_map(1)])
  note w2 = delete_each_run [OF _ srcstate_map(1) _ this d]
  have w2': "inv w2" "\<forall>fd. fd \<noteq> bm_fd (fw_srcstate fw) \<longrightarrow> view w2 fd = view w fd" "rd = Inr ()"
    "map_of (state_entries w2) = map_of (state_entries w) |` (- set ?ks)"
    using w2 w0 w1 by (auto simp: srcstate_map)
  have "r = Inr (int (length ?ks))" "w' = w2"
    using assms(2,3,4) s w0 w1 d w2' doomed_states [OF assms(1), of "now - d"]
    by (auto simp: fw_remove_idle_states_def io_simps ktime_ns_def Let_def)
  moreover have "dict_ok (state_entries w)" using state_ok [OF assms(1)] by (simp add: kdict_ok_def)
  note restrict_removed [OF this w2'(4)]
  ultimately show ?thesis using w2' by (auto split: option.splits)
qed

end

section \<open>Counters\<close>

text \<open>The sum of the per-CPU slots of a value.\<close>

definition slots_total :: "nat \<Rightarrow> bytes \<Rightarrow> int" where
  "slots_total n v = sum_list (map (\<lambda>i. le_int (take 8 (drop (8 * i) v))) [0..<n])"

lemma sum_slots_total:
  assumes "length v = 8 * n"
  shows "sum_slots n v = Inr (slots_total n v)"
proof -
  have "result_list (\<lambda>i. unpack_int_from U64 v (i * 8)) [0..<n] =
      Inr (map (\<lambda>i. le_int (take 8 (drop (8 * i) v))) [0..<n])"
  proof (rule result_list_map)
    fix i
    assume "i \<in> set [0..<n]"
    then have "Suc i * 8 \<le> 8 * n" by simp
    with assms show "unpack_int_from U64 v (i * 8) = Inr (le_int (take 8 (drop (8 * i) v)))"
      by (simp add: unpack_int_from_def struct_unpack_from_def mult.commute)
  qed
  then show ?thesis by (simp add: sum_slots_def slots_total_def)
qed

lemma slots_total_zeros: "slots_total n (zeros m) = 0"
proof -
  have "le_int (replicate k 0) = 0" for k by (induction k) auto
  then show ?thesis by (simp add: slots_total_def zeros_def sum_list_zeros map_replicate_const)
qed

lemma index_key: "0 \<le> i \<Longrightarrow> i < 2 ^ 32 \<Longrightarrow> pack_ints U32_KEY [i] = Inr (le_bytes 4 i)"
  by (simp add: pack_ints_def U32_KEY_def pack_int_def is_int_fmt_def)

context fw_kernel
begin

abbreviation stat_entries :: "'w \<Rightarrow> (bytes, bytes) dict" where
  "stat_entries w \<equiv> contents w (fw_stats fw)"

definition counter :: "'w \<Rightarrow> int \<Rightarrow> int" where
  "counter w i = (case map_of (stat_entries w) (le_bytes 4 i) of
     None \<Rightarrow> 0 | Some v \<Rightarrow> slots_total (bm_ncpu (fw_stats fw)) v)"

lemma good_stat: "good_key (fw_stats fw) (le_bytes 4 i)"
  using stats_map by (simp add: key_ok_def handle_def)

lemma stat_value_length: "inv w \<Longrightarrow> map_of (stat_entries w) k = Some v \<Longrightarrow> length v = 8 * bm_ncpu (fw_stats fw)"
  using kdict_okD [OF contents_ok [OF _ stats_map(1)]] stats_map
  by (metis handle_def map_of_SomeD)

lemma read_counter:
  assumes "inv w" "0 \<le> i" "i < 2 ^ 32"
  shows "\<exists>w'. fw_read_stat os fw (i, name) w =
    (Inr (name, counter w i), w') \<and> view w' = view w \<and> inv w'"
proof -
  obtain rl w1 where l: "bpfmap_lookup os (fw_stats fw) (le_bytes 4 i) 0 w = (rl, w1)" by fastforce
  have "rl = Inr (map_of (stat_entries w) (le_bytes 4 i))" "view w1 = view w" "inv w1"
    using lookup_run [OF assms(1) stats_map(1) good_stat l] stats_map(2) by (auto simp: kmap_find_def)
  with l stat_value_length [OF assms(1), of "le_bytes 4 i"] show ?thesis
    by (auto simp: fw_read_stat_def index_key [OF assms(2,3)] bpfmap_sum_percpu_def io_simps counter_def sum_slots_total
        split: option.splits)
qed

lemma read_counters:
  assumes "inv w" "list_all (\<lambda>(i, n). 0 \<le> i \<and> i < 2 ^ 32) xs"
  shows "\<exists>w'. io_list xs (fw_read_stat os fw) w =
    (Inr (map (\<lambda>(i, name). (name, counter w i)) xs), w') \<and> view w' = view w \<and> inv w'"
  using assms
proof (induction xs arbitrary: w)
  case (Cons x xs)
  obtain i name where x: "x = (i, name)" by fastforce
  with Cons.prems read_counter [of w i name] obtain w1 where
    one: "fw_read_stat os fw (i, name) w = (Inr (name, counter w i), w1)" "view w1 = view w" "inv w1" by auto
  moreover have "counter w1 = counter w" using one by (simp add: counter_def fun_eq_iff)
  ultimately show ?case
    using Cons.IH [of w1] Cons.prems x by (auto simp: io_simps)
qed (simp add: io_simps)

definition counters :: "'w \<Rightarrow> (string, int) dict" where
  "counters w = map (\<lambda>(i, name). (name, counter w i)) (py_enumerate STAT_NAMES)"

lemma read_stats_run:
  assumes "inv w" "fw_read_stats os fw w = (r, w')"
  shows "r = Inr (counters w @ [(''drops_total'', total_of ''drop_'' (counters w)),
      (''passes_total'', total_of ''pass_'' (counters w))]) \<and> view w' = view w \<and> inv w'"
proof -
  have "list_all (\<lambda>(i, n). 0 \<le> i \<and> i < 2 ^ 32) (py_enumerate STAT_NAMES)"
    by (auto simp: py_enumerate_def list_all_iff STAT_NAMES_def dest!: set_zip_leftD)
  from read_counters [OF assms(1) this] obtain w1 where
    run: "io_list (py_enumerate STAT_NAMES) (fw_read_stat os fw) w =
      (Inr (counters w), w1)" "view w1 = view w" "inv w1" by (auto simp: counters_def)
  have names: "map fst (counters w) = STAT_NAMES"
    by (simp add: counters_def py_enumerate_def case_prod_beta comp_def)
  then have keys: "fst ` set (counters w) = set STAT_NAMES" by (metis set_map)
  have fresh: "''drops_total'' \<notin> set STAT_NAMES" "''passes_total'' \<notin> set STAT_NAMES"
    by (simp_all add: STAT_NAMES_def)
  let ?drops = "total_of ''drop_'' (counters w)"
  have one: "dict_set ''drops_total'' ?drops (counters w) = counters w @ [(''drops_total'', ?drops)]"
    using keys fresh by (intro dict_set_new) simp
  have "total_of ''pass_'' (counters w @ [(''drops_total'', ?drops)]) = total_of ''pass_'' (counters w)"
    by (simp add: total_of_def starts_with_def)
  moreover have "dict_set ''passes_total'' v (counters w @ [(''drops_total'', ?drops)]) =
      counters w @ [(''drops_total'', ?drops), (''passes_total'', v)]" for v
    using keys fresh by (subst dict_set_new) auto
  ultimately show ?thesis
    using assms(2) run one by (simp add: fw_read_stats_def io_bind_apply io_return_apply Let_def)
qed

lemma reset_loop:
  assumes "inv w" "set is \<subseteq> int ` {..<length STAT_NAMES}"
    and "io_for is (fw_zero_stat os fw) w = (r, w')"
  shows "r = Inr () \<and> inv w' \<and> (\<forall>fd. fd \<noteq> bm_fd (fw_stats fw) \<longrightarrow> view w' fd = view w fd) \<and>
    (\<forall>i \<in> set is. counter w' i = 0) \<and> (\<forall>i. counter w i = 0 \<longrightarrow> counter w' i = 0)"
  using assms
proof (induction "is" arbitrary: w)
  case (Cons i "is")
  then obtain n where n: "i = int n" "n < length STAT_NAMES" by auto
  let ?z = "zeros (bm_value_size (fw_stats fw))"
  have key: "pack_ints U32_KEY [i] = Inr (le_bytes 4 i)"
    using n by (intro index_key) (auto simp: STAT_NAMES_def)
  obtain ru w1 where u: "bpfmap_update os (fw_stats fw) (le_bytes 4 i) ?z BPF_ANY w = (ru, w1)" by fastforce
  have "length ?z = bm_value_size (fw_stats fw)" by (simp add: zeros_def)
  note up = update_run [OF Cons.prems(1) stats_map(1) good_stat this u]
  then have w1: "ru = Inr ()" "inv w1" "\<forall>fd. fd \<noteq> bm_fd (fw_stats fw) \<longrightarrow> view w1 fd = view w fd"
    "map_of (stat_entries w1) = (map_of (stat_entries w))(le_bytes 4 i \<mapsto> ?z)"
    using stats_keys [OF Cons.prems(1) n(2)] n by (cases ru; force)+
  have c: "counter w1 j = (if le_bytes 4 j = le_bytes 4 i then 0 else counter w j)" for j
    by (simp add: counter_def w1(4) slots_total_zeros)
  have "fw_zero_stat os fw i w = (Inr (), w1)"
    using key u w1(1) by (simp add: fw_zero_stat_def io_simps)
  then have rest: "io_for is (fw_zero_stat os fw) w1 = (r, w')"
    using Cons.prems(3) by (simp add: io_simps)
  have "set is \<subseteq> int ` {..<length STAT_NAMES}" using Cons.prems(2) by simp
  from Cons.IH [OF w1(2) this rest] w1 c show ?case by auto
qed (simp add: io_simps)

lemma reset_stats_run:
  assumes "inv w" "fw_reset_stats os fw w = (r, w')"
  shows "r = Inr () \<and> inv w' \<and> (\<forall>fd. fd \<noteq> bm_fd (fw_stats fw) \<longrightarrow> view w' fd = view w fd) \<and>
    list_all (\<lambda>(name, v). v = 0) (counters w')"
proof -
  have "set (map int [0..<length STAT_NAMES]) \<subseteq> int ` {..<length STAT_NAMES}" by auto
  from reset_loop [OF assms(1) this assms(2) [unfolded fw_reset_stats_def]] show ?thesis
    by (auto simp: counters_def list_all_iff py_enumerate_def dest!: set_zip_leftD)
qed

end

section \<open>Settings\<close>

definition config_ints :: "bytes \<Rightarrow> int list" where
  "config_ints v = [le_int (take 8 v), le_int (take 8 (drop 8 v)), le_int (take 4 (drop 16 v)),
     le_int (take 4 (drop 20 v)), le_int (take 4 (drop 24 v)), le_int (take 4 (drop 28 v))]"

lemma unpack_config: "length v = 32 \<Longrightarrow> unpack_ints CONFIG v = Inr (config_ints v)"
  by (simp add: unpack_ints_def struct_unpack_def CONFIG_def config_ints_def)

text \<open>Settings that the map can hold: the two limits in 64 bits, the rest in 32.\<close>

definition config_fits :: "int list \<Rightarrow> bool" where
  "config_fits vs \<longleftrightarrow> list_all2 (\<lambda>v n. 0 \<le> v \<and> v < 2 ^ n) vs [64, 64, 32, 32, 32 :: nat]"

lemma pack_config:
  assumes "length vs = 5"
  shows "case pack_ints CONFIG (vs @ [0]) of
      Inl e \<Rightarrow> e = StructError \<and> \<not> config_fits vs
    | Inr b \<Rightarrow> config_fits vs \<and> length b = 32 \<and> config_ints b = vs @ [0]"
proof -
  obtain a b c d e where vs: "vs = [a, b, c, d, e]"
    using assms by (auto simp: numeral_eq_Suc length_Suc_conv)
  show ?thesis
  proof (cases "config_fits vs")
    case True
    then have fits: "val_fits CONFIG (map VInt (vs @ [0]))"
      by (simp add: vs config_fits_def CONFIG_def is_int_fmt_def)
    then obtain p where p: "pack_ints CONFIG (vs @ [0]) = Inr p"
      using struct_pack_fits by (auto simp: pack_ints_def)
    have "length p = 32" using struct_pack_length [OF p [unfolded pack_ints_def]] by (simp add: CONFIG_def)
    with p pack_unpack_ints [OF p fits] True unpack_config [of p] show ?thesis by simp
  next
    case False
    then have "pack_ints CONFIG (vs @ [0]) = Inl StructError"
      by (auto simp: vs config_fits_def CONFIG_def pack_ints_def pack_int_def is_int_fmt_def)
    with False show ?thesis by simp
  qed
qed

lemma dict_set_old: "k \<in> fst ` set d \<Longrightarrow> map fst (dict_set k v d) = map fst d"
  by (induction d) (auto simp: dict_set_def)

lemma dict_of_keys:
  "list_all (\<lambda>(k, v). List.member (map fst d) k) es \<Longrightarrow> map fst (dict_of es d) = map fst d"
proof (induction es arbitrary: d)
  case (Cons e es)
  then show ?case
    by (cases e) (simp add: dict_set_old List.member_iff case_prod_beta insert_absorb)
qed simp

lemma map_of_dict_of: "dict_ok es \<Longrightarrow> map_of (dict_of es d) = map_of d ++ map_of es"
proof (induction es arbitrary: d)
  case (Cons e es)
  then have "fst e \<notin> dom (map_of es)" by (simp add: dom_map_of_conv_image_fst)
  with Cons show ?case
    by (cases e) (auto simp: map_add_def fun_eq_iff domIff split: option.splits)
qed simp

lemma index_all:
  assumes "dict_ok d"
  shows "result_list (dict_index d) (map fst d) = Inr (map snd d)"
proof -
  have "result_list (dict_index d) (map fst e) = Inr (map snd e)" if "set e \<subseteq> set d" for e
    using that
  proof (induction e)
    case (Cons x e)
    then have "map_of d (fst x) = Some (snd x)" using assms by (cases x) simp
    with Cons show ?case by (simp add: dict_index_def)
  qed simp
  then show ?thesis by blast
qed

context fw_kernel
begin

abbreviation config_value :: "'w \<Rightarrow> bytes" where
  "config_value w \<equiv> the (map_of (contents w (fw_config fw)) (zeros 4))"

definition settings :: "'w \<Rightarrow> (string, int) dict" where
  "settings w = zip CONFIG_FIELDS (config_ints (config_value w))"

lemma good_config: "good_key (fw_config fw) (zeros 4)"
  using config_map by (simp add: key_ok_def handle_def zeros_def)

lemma config_entry:
  assumes "inv w"
  shows "map_of (contents w (fw_config fw)) (zeros 4) = Some (config_value w)" "length (config_value w) = 32"
proof -
  obtain v where v: "map_of (contents w (fw_config fw)) (zeros 4) = Some v"
    using config_key [OF assms] by (metis domD dom_map_of_conv_image_fst)
  then show "map_of (contents w (fw_config fw)) (zeros 4) = Some (config_value w)" by simp
  from kdict_okD [OF contents_ok [OF assms config_map(1)] map_of_SomeD [OF v]] v config_map
  show "length (config_value w) = 32" by (simp add: handle_def)
qed

lemma settings_keys: "map fst (settings w) = CONFIG_FIELDS"
  by (simp add: settings_def CONFIG_FIELDS_def config_ints_def)

lemma settings_key_set: "fst ` set (settings w) = set CONFIG_FIELDS"
  by (metis set_map settings_keys)

lemma settings_fit: "inv w \<Longrightarrow> config_fits (map snd (settings w))"
proof -
  have range: "0 \<le> le_int bs \<and> le_int bs < 2 ^ (8 * n)" if "length bs = n" for bs n
    using le_int_range [of bs] that by (simp add: power_mult)
  assume "inv w"
  then have "length (config_value w) = 32" by (rule config_entry)
  then show ?thesis
    using range [of "take 8 (config_value w)" 8] range [of "take 8 (drop 8 (config_value w))" 8]
      range [of "take 4 (drop 16 (config_value w))" 4] range [of "take 4 (drop 20 (config_value w))" 4]
      range [of "take 4 (drop 24 (config_value w))" 4]
    by (simp add: settings_def CONFIG_FIELDS_def config_ints_def config_fits_def)
qed

lemma read_config_run:
  assumes "inv w" "fw_read_config os fw w = (r, w')"
  shows "r = Inr (settings w) \<and> view w' = view w \<and> inv w'"
proof -
  obtain rl w1 where l: "bpfmap_lookup os (fw_config fw) (zeros 4) 0 w = (rl, w1)" by fastforce
  obtain v where v: "map_of (contents w (fw_config fw)) (zeros 4) = Some v" "length v = 32"
    using config_entry [OF assms(1)] by blast
  then have "rl = Inr (Some v)" "view w1 = view w" "inv w1"
    using lookup_run [OF assms(1) config_map(1) good_config l] config_map(2)
    by (auto simp: kmap_find_def)
  with l assms(2) v show ?thesis
    by (auto simp: fw_read_config_def zero_key io_simps unpack_config settings_def)
qed

lemma config_write_run:
  assumes "inv w" "map fst old = CONFIG_FIELDS" "config_write os fw changes old w = (r, w')"
    and "cfg = dict_of changes old"
  shows "inv w' \<and> (\<forall>fd. fd \<noteq> bm_fd (fw_config fw) \<longrightarrow> view w' fd = view w fd) \<and>
    (if \<not> list_all (\<lambda>(k, v). List.member CONFIG_FIELDS k) changes then r = Inl ValueError \<and> view w' = view w
     else if \<not> config_fits (map snd cfg) then r = Inl StructError \<and> view w' = view w
     else r = Inr cfg \<and> settings w' = cfg)"
proof (cases "list_all (\<lambda>(k, v). List.member CONFIG_FIELDS k) changes")
  case False
  with assms show ?thesis by (auto simp: config_write_def io_simps)
next
  case True
  then have keys: "map fst cfg = CONFIG_FIELDS"
    unfolding assms(4) by (subst dict_of_keys) (simp_all add: assms(2))
  have "dict_ok cfg" by (simp add: keys CONFIG_FIELDS_def)
  from index_all [OF this] have idx: "result_list (dict_index cfg) CONFIG_FIELDS = Inr (map snd cfg)"
    by (simp add: keys)
  have len: "length (map snd cfg) = 5" using arg_cong [OF keys, of length] by (simp add: CONFIG_FIELDS_def)
  note pk = pack_config [OF len]
  show ?thesis
  proof (cases "pack_ints CONFIG (map snd cfg @ [0])")
    case (Inl e)
    with True assms idx pk show ?thesis by (auto simp: config_write_def io_simps zero_key Let_def)
  next
    case (Inr b)
    obtain ru w2 where u: "bpfmap_update os (fw_config fw) (zeros 4) b BPF_ANY w = (ru, w2)" by fastforce
    have "length b = bm_value_size (fw_config fw)" using pk Inr by (simp add: config_map)
    from update_run [OF assms(1) config_map(1) good_config this u] config_key [OF assms(1)]
    have w2: "ru = Inr ()" "inv w2" "\<forall>fd. fd \<noteq> bm_fd (fw_config fw) \<longrightarrow> view w2 fd = view w fd"
      "config_value w2 = b" by (cases ru; force)+
    have "settings w2 = zip (map fst cfg) (map snd cfg)"
      using pk Inr w2(4) len by (simp add: settings_def keys zip_append2 CONFIG_FIELDS_def)
    then have "settings w2 = cfg" by (simp add: zip_map_fst_snd)
    with True assms idx pk Inr u w2 show ?thesis by (auto simp: config_write_def io_simps zero_key Let_def)
  qed
qed

lemma update_config_run:
  assumes "inv w" "fw_update_config os fw changes w = (r, w')"
    and "cfg = dict_of changes (settings w)"
  shows "inv w' \<and> (\<forall>fd. fd \<noteq> bm_fd (fw_config fw) \<longrightarrow> view w' fd = view w fd) \<and>
    (if \<not> list_all (\<lambda>(k, v). List.member CONFIG_FIELDS k) changes then r = Inl ValueError \<and> view w' = view w
     else if \<not> config_fits (map snd cfg) then r = Inl StructError \<and> view w' = view w
     else r = Inr cfg \<and> settings w' = cfg)"
proof -
  obtain rr w1 where rd: "fw_read_config os fw w = (rr, w1)" by fastforce
  note w1 = read_config_run [OF assms(1) rd]
  with assms(2) rd have "config_write os fw changes (settings w) w1 = (r, w')"
    by (simp add: fw_update_config_def io_simps)
  from config_write_run [OF _ settings_keys this assms(3)] w1 show ?thesis by simp
qed

lemma settings_replaced:
  assumes "dict_ok changes" "list_all (\<lambda>(k, v). List.member CONFIG_FIELDS k) changes" "map fst old = CONFIG_FIELDS"
  shows "dict_of changes old = map (\<lambda>k. (k, dict_get changes k (dict_get old k 0))) CONFIG_FIELDS"
proof -
  let ?d = "dict_of changes old"
  have keys: "map fst ?d = CONFIG_FIELDS"
    using assms(2) by (subst dict_of_keys) (simp_all add: assms(3))
  then have d: "dict_ok ?d" by (simp add: CONFIG_FIELDS_def)
  have "snd e = dict_get changes (fst e) (dict_get old (fst e) 0)" if "e \<in> set ?d" for e
  proof -
    have "map_of ?d (fst e) = Some (snd e)" using that d by (metis map_of_is_SomeI prod.collapse)
    then show ?thesis
      by (auto simp: map_of_dict_of [OF assms(1)] dict_get_def map_add_def split: option.splits)
  qed
  then have "?d = map (\<lambda>e. (fst e, dict_get changes (fst e) (dict_get old (fst e) 0))) ?d"
    by (intro map_idI [symmetric]) (metis prod.collapse)
  also have "\<dots> = map (\<lambda>k. (k, dict_get changes k (dict_get old k 0))) (map fst ?d)" by simp
  finally show ?thesis by (simp only: keys)
qed

lemma update_config_spec:
  assumes "inv w" "dict_ok changes" "fst (fw_read_config os fw w) = Inr cfg"
    and "fw_update_config os fw changes w = (r, w1)"
  shows "map fst cfg = CONFIG_FIELDS \<and> (\<forall>fd. view w1 fd = view w fd \<or> fd = bm_fd (fw_config fw)) \<and>
    (if \<not> list_all (\<lambda>(k, v). List.member CONFIG_FIELDS k) changes then r = Inl ValueError \<and> view w1 = view w
     else let new = map (\<lambda>k. (k, dict_get changes k (dict_get cfg k 0))) CONFIG_FIELDS in
       if config_fits (map snd new) then r = Inr new \<and> fst (fw_read_config os fw w1) = Inr new
       else r = Inl StructError \<and> view w1 = view w)"
proof -
  have cfg: "cfg = settings w" using read_config_run [OF assms(1) prod.collapse [symmetric]] assms(3) by simp
  note run = update_config_run [OF assms(1,4) refl]
  then have "fst (fw_read_config os fw w1) = Inr (settings w1)"
    using read_config_run [OF _ prod.collapse [symmetric]] by blast
  with run settings_replaced [OF assms(2) _ settings_keys] show ?thesis
    unfolding cfg by (auto simp: settings_keys Let_def)
qed

lemma clear_blocks_run:
  assumes "inv w" "fw_clear_blocks os fw w = (r, w')"
  shows "inv w' \<and> (\<forall>fd. fd \<noteq> bm_fd (fw_blocklist fw) \<longrightarrow> view w' fd = view w fd) \<and> block_entries w' = [] \<and>
    r = Inr (int (length (block_entries w)))"
  using clear_run [OF assms(1) blocklist_map(1) _ assms(2) [unfolded fw_clear_blocks_def]] by (simp add: blocklist_map)

end

section \<open>Reading back\<close>

context fw_kernel
begin

lemma allow_keys:
  assumes "inv w" "(k, v) \<in> set (allow_entries w)"
  shows "length v = 16" "unpack_cidr k = Inr (show_network (lpm_network k))" "lpm_key (show_network (lpm_network k)) = Inr k"
proof -
  have "key_ok LPM_TRIE 8 k" by (rule kdict_ok_key [OF allow_ok [OF assms(1)]]) (use assms(2) in force)
  with kdict_okD [OF allow_ok [OF assms(1)] assms(2)] have k: "length k = 8" "network_ok (lpm_network k)" "length v = 16"
    by (auto simp: key_ok_def)
  then show "length v = 16" by simp
  show "unpack_cidr k = Inr (show_network (lpm_network k))"
    using unpack_cidr_lpm [OF k(2)] lpm_bytes_network [OF k(1)] by simp
  show "lpm_key (show_network (lpm_network k)) = Inr k"
    using lpm_key_parsed [OF parse_show_network [OF k(2)]] lpm_bytes_network [OF k(1)] by simp
qed

lemma list_allowed_run:
  assumes "inv w" "fw_list_allowed os fw w = (r, w')"
  shows "inv w' \<and> view w' = view w \<and>
    (\<exists>rows. r = Inr rows \<and> map ae_cidr rows = map (\<lambda>(k, v). show_network (lpm_network k)) (allow_entries w))"
proof -
  obtain ri w1 where i: "bpfmap_items os (fw_allowlist fw) 0 w = (ri, w1)" by fastforce
  note w1 = items_all [OF assms(1) allowlist_map(1) i]
  let ?row = "\<lambda>(k, v). \<lparr>ae_cidr = show_network (lpm_network k), ae_hits = le_int (take 8 v)\<rparr>"
  have "result_list allow_row (allow_entries w) = Inr (map ?row (allow_entries w))"
  proof (rule result_list_map)
    fix e
    assume e: "e \<in> set (allow_entries w)"
    obtain k v where kv: "e = (k, v)" by fastforce
    note a = allow_keys [OF assms(1), of k v]
    have "unpack_ints ALLOW_VAL v = Inr [le_int (take 8 v), le_int (take 4 (drop 8 v)), le_int (take 4 (drop 12 v))]"
      using a(1) e kv by (simp add: unpack_ints_def struct_unpack_def ALLOW_VAL_def)
    with a e kv show "allow_row e = Inr (?row e)" by (simp add: allow_row_def py_index_def)
  qed
  with assms(2) i w1 show ?thesis
    by (intro conjI exI [of _ "map ?row (allow_entries w)"]) (auto simp: fw_list_allowed_def io_simps)
qed

lemma block_keys:
  assumes "inv w" "(k, v) \<in> set (block_entries w)"
  shows "length v = 24" "unpack_cidr k = Inr (show_network (lpm_network k))" "network_ok (lpm_network k)" "length k = 8"
proof -
  have "key_ok LPM_TRIE 8 k" by (rule kdict_ok_key [OF block_ok [OF assms(1)]]) (use assms(2) in force)
  with kdict_okD [OF block_ok [OF assms(1)] assms(2)] show k: "length v = 24" "network_ok (lpm_network k)" "length k = 8"
    by (auto simp: key_ok_def)
  show "unpack_cidr k = Inr (show_network (lpm_network k))"
    using unpack_cidr_lpm [OF k(2)] lpm_bytes_network [OF k(3)] by simp
qed

lemma list_blocked_run:
  assumes "inv w" "os_ktime os w = (now, w0)" "fw_list_blocked os fw False w = (r, w')"
  shows "inv w' \<and> view w' = view w \<and> (\<exists>rows. r = Inr rows \<and>
    map be_cidr rows = map (\<lambda>(k, v). show_network (lpm_network k)) (filter (\<lambda>(k, v). in_force now v) (block_entries w)))"
proof -
  note w0 = ktime_view [OF assms(2)] ktime_inv [OF assms(1,2)]
  obtain ri w1 where i: "bpfmap_items os (fw_blocklist fw) 0 w0 = (ri, w1)" by fastforce
  note w1 = items_all [OF w0(2) blocklist_map(1) i]
  have row: "\<exists>bs. block_row now False (k, v) = Inr bs \<and>
      map be_cidr bs = (if in_force now v then [show_network (lpm_network k)] else [])" if "(k, v) \<in> set (block_entries w)" for k v
  proof -
    note b = block_keys [OF assms(1) that]
    have "unpack_ints BLOCK_VAL v = Inr [deadline v, le_int (take 8 (drop 8 v)), le_int (take 4 (drop 16 v)), le_int (take 4 (drop 20 v))]"
      using b(1) by (simp add: unpack_ints_def struct_unpack_def BLOCK_VAL_def deadline_def)
    with b(2) show ?thesis by (auto simp: block_row_def py_index_def Let_def in_force_def)
  qed
  have "\<exists>bss. result_list (block_row now False) es = Inr bss \<and>
      map be_cidr (concat bss) = map (\<lambda>(k, v). show_network (lpm_network k)) (filter (\<lambda>(k, v). in_force now v) es)"
    if "set es \<subseteq> set (block_entries w)" for es
    using that
  proof (induction es)
    case (Cons e es)
    obtain k v where e: "e = (k, v)" by fastforce
    have "(k, v) \<in> set (block_entries w)" using Cons.prems e by simp
    from row [OF this] obtain bs where bs: "block_row now False (k, v) = Inr bs"
      "map be_cidr bs = (if in_force now v then [show_network (lpm_network k)] else [])" by blast
    obtain bss where "result_list (block_row now False) es = Inr bss"
      "map be_cidr (concat bss) = map (\<lambda>(k, v). show_network (lpm_network k)) (filter (\<lambda>(k, v). in_force now v) es)"
      using Cons by auto
    with bs e show ?case by simp
  qed simp
  from this [of "block_entries w"] obtain bss where
    "result_list (block_row now False) (block_entries w) = Inr bss"
    "map be_cidr (concat bss) = map (\<lambda>(k, v). show_network (lpm_network k)) (filter (\<lambda>(k, v). in_force now v) (block_entries w))"
    by auto
  with assms(2,3) i w0 w1 show ?thesis by (auto simp: fw_list_blocked_def ktime_ns_def io_simps)
qed

lemma zero_counters_read:
  assumes "inv w" "list_all (\<lambda>(name, v). v = 0) (counters w)"
  shows "fst (fw_read_stats os fw w) = Inr (map (\<lambda>name. (name, 0)) (STAT_NAMES @ [''drops_total'', ''passes_total'']))"
proof -
  have "map fst (counters w) = STAT_NAMES"
    by (simp add: counters_def py_enumerate_def case_prod_beta comp_def)
  moreover have "counters w = map (\<lambda>name. (name, 0)) (map fst (counters w))"
    using assms(2) by (induction "counters w") (auto simp: list_all_iff comp_def intro!: map_idI [symmetric])
  ultimately have c: "counters w = map (\<lambda>name. (name, 0)) STAT_NAMES" by simp
  have "total_of p (map (\<lambda>name. (name, 0)) ns) = 0" for p and ns :: "string list"
    by (induction ns) (auto simp: total_of_def)
  with read_stats_run [OF assms(1) prod.collapse [symmetric]] c show ?thesis by simp
qed

lemma counters_cong: "view w' (bm_fd (fw_stats fw)) = view w (bm_fd (fw_stats fw)) \<Longrightarrow> counters w' = counters w"
  by (simp add: counters_def counter_def)

end

end
