(* ===== verification/Xdp.thy ===== *)
theory Xdp
  imports Ref_Kernel Firewall
begin

text \<open>
  The data plane, \<open>bpf/firewall.bpf.c\<close>: one run of the XDP program on one packet, on the maps
  of the reference kernel. Integers have the widths of the C code and wrap; every read of the
  packet is behind the bounds check the code has. A pointer into a map value is the key of the
  entry, and a write through it replaces the value. The program is the pipeline of the source:
  parse, source lists, layer 4, port rules, per-source state with the token bucket.
\<close>

section \<open>Words in map values\<close>

definition get64 :: "nat \<Rightarrow> bytes \<Rightarrow> 64 word" where
  "get64 off v = word_of_int (le_int (take 8 (drop off v)))"

definition get32 :: "nat \<Rightarrow> bytes \<Rightarrow> 32 word" where
  "get32 off v = word_of_int (le_int (take 4 (drop off v)))"

definition put64 :: "nat \<Rightarrow> 64 word \<Rightarrow> bytes \<Rightarrow> bytes" where
  "put64 off x v = take off v @ le_bytes 8 (uint x) @ drop (off + 8) v"

definition add64 :: "nat \<Rightarrow> 64 word \<Rightarrow> bytes \<Rightarrow> bytes" where
  "add64 off x v = put64 off (get64 off v + x) v"

section \<open>Maps\<close>

text \<open>The descriptors of the maps, in the order of their declaration.\<close>

definition FD_ALLOWLIST :: int where "FD_ALLOWLIST = 3"
definition FD_BLOCKLIST :: int where "FD_BLOCKLIST = 4"
definition FD_PORTRULES :: int where "FD_PORTRULES = 5"
definition FD_SRCSTATE :: int where "FD_SRCSTATE = 6"
definition FD_STATS :: int where "FD_STATS = 7"
definition FD_CONFIG :: int where "FD_CONFIG = 8"

lemmas fds = FD_ALLOWLIST_def FD_BLOCKLIST_def FD_PORTRULES_def FD_SRCSTATE_def FD_STATS_def FD_CONFIG_def

text \<open>\<open>bpf_map_lookup_elem\<close>: the entry found, with its own key.\<close>

definition lookup_entry :: "int \<Rightarrow> bytes \<Rightarrow> kernel \<Rightarrow> (bytes \<times> bytes) option" where
  "lookup_entry fd k w =
     (if md_kind (decl_of fd) = LPM_TRIE
      then lpm_longest (filter (\<lambda>e. lpm_matches (fst e) k) (ref_view w fd))
      else map_option (Pair k) (map_of (ref_view w fd) k))"

text \<open>A write through the pointer.\<close>

definition write_entry :: "int \<Rightarrow> bytes \<Rightarrow> bytes \<Rightarrow> kernel \<Rightarrow> kernel" where
  "write_entry fd k v w = ref_set fd (dict_set k v (ref_view w fd)) w"

section \<open>Counters\<close>

datatype stat =
    STAT_RX_PACKETS | STAT_RX_BYTES
  | STAT_PASS_ALLOWLIST | STAT_PASS_RULE | STAT_PASS_DEFAULT | STAT_PASS_NON_IPV4
  | STAT_DROP_BLOCKLIST | STAT_DROP_PORT_RULE | STAT_DROP_DEFAULT | STAT_DROP_PROTO
  | STAT_DROP_RATELIMIT | STAT_DROP_MALFORMED | STAT_DROP_FRAGMENT
  | STAT_STATE_FULL

fun stat_index :: "stat \<Rightarrow> nat" where
  "stat_index STAT_RX_PACKETS = 0"
| "stat_index STAT_RX_BYTES = 1"
| "stat_index STAT_PASS_ALLOWLIST = 2"
| "stat_index STAT_PASS_RULE = 3"
| "stat_index STAT_PASS_DEFAULT = 4"
| "stat_index STAT_PASS_NON_IPV4 = 5"
| "stat_index STAT_DROP_BLOCKLIST = 6"
| "stat_index STAT_DROP_PORT_RULE = 7"
| "stat_index STAT_DROP_DEFAULT = 8"
| "stat_index STAT_DROP_PROTO = 9"
| "stat_index STAT_DROP_RATELIMIT = 10"
| "stat_index STAT_DROP_MALFORMED = 11"
| "stat_index STAT_DROP_FRAGMENT = 12"
| "stat_index STAT_STATE_FULL = 13"

definition stat_key :: "stat \<Rightarrow> bytes" where
  "stat_key s = le_bytes 4 (int (stat_index s))"

text \<open>The program runs on one CPU and writes to that CPU's slot.\<close>

definition stat_add :: "nat \<Rightarrow> stat \<Rightarrow> 64 word \<Rightarrow> kernel \<Rightarrow> kernel" where
  "stat_add cpu s n w =
     (case lookup_entry FD_STATS (stat_key s) w of
        None \<Rightarrow> w
      | Some (k, v) \<Rightarrow> write_entry FD_STATS k (add64 (8 * cpu) n v) w)"

definition stat_inc :: "nat \<Rightarrow> stat \<Rightarrow> kernel \<Rightarrow> kernel" where
  "stat_inc cpu s w = stat_add cpu s 1 w"

section \<open>Packets\<close>

datatype xdp_action = XDP_PASS | XDP_DROP

definition be16 :: "nat \<Rightarrow> bytes \<Rightarrow> nat" where
  "be16 off p = unat (p ! off) * 256 + unat (p ! (off + 1))"

definition ETH_P_IP :: nat where "ETH_P_IP = 0x0800"
definition ETH_P_8021Q :: nat where "ETH_P_8021Q = 0x8100"
definition ETH_P_8021AD :: nat where "ETH_P_8021AD = 0x88A8"
definition IPPROTO_ICMP :: byte where "IPPROTO_ICMP = 1"
definition IPPROTO_TCP :: byte where "IPPROTO_TCP = 6"
definition IPPROTO_UDP :: byte where "IPPROTO_UDP = 17"

record ip_info =
  ip_l4 :: nat
  ip_saddr :: bytes
  ip_proto :: byte
  ip_frag :: bool

datatype l3 = L3Malformed | L3Other | L3Ip ip_info

text \<open>Ethernet, at most one VLAN tag, then the IPv4 header that starts at \<open>nh\<close>.\<close>

definition parse_ip :: "bytes \<Rightarrow> nat \<Rightarrow> l3" where
  "parse_ip p nh =
     (if nh + 20 > length p then L3Malformed
      else if unat (p ! nh) div 16 \<noteq> 4 then L3Malformed
      else let ihl_bytes = (unat (p ! nh) mod 16) * 4 in
        if ihl_bytes < 20 \<or> ihl_bytes > 60 then L3Malformed
        else if nh + ihl_bytes > length p then L3Malformed
        else if be16 (nh + 2) p < ihl_bytes then L3Malformed
        else if p ! (nh + 8) = 0 then L3Malformed
        else L3Ip \<lparr>ip_l4 = nh + ihl_bytes, ip_saddr = take 4 (drop (nh + 12) p), ip_proto = p ! (nh + 9),
               ip_frag = (be16 (nh + 6) p mod 8192 \<noteq> 0)\<rparr>)"

definition parse_l3 :: "bytes \<Rightarrow> l3" where
  "parse_l3 p =
     (if 14 > length p then L3Malformed
      else let h_proto = be16 12 p in
        if h_proto = ETH_P_8021Q \<or> h_proto = ETH_P_8021AD then
          (if 18 > length p then L3Malformed
           else if be16 16 p \<noteq> ETH_P_IP then L3Other else parse_ip p 18)
        else if h_proto \<noteq> ETH_P_IP then L3Other else parse_ip p 14)"

record l4_info =
  l4_dport :: nat
  l4_rule_port :: nat
  l4_flags :: byte

text \<open>The layer 4 header; \<open>None\<close> is a malformed one. A later fragment has none.\<close>

definition parse_l4 :: "bytes \<Rightarrow> ip_info \<Rightarrow> l4_info option" where
  "parse_l4 p ip =
     (let l4 = ip_l4 ip; nothing = \<lparr>l4_dport = 0, l4_rule_port = 0, l4_flags = 0\<rparr> in
      if ip_frag ip then Some nothing
      else if ip_proto ip = IPPROTO_TCP then
        (if l4 + 20 > length p then None
         else if unat (p ! (l4 + 12)) div 16 < 5 then None
         else Some \<lparr>l4_dport = be16 (l4 + 2) p, l4_rule_port = be16 (l4 + 2) p, l4_flags = p ! (l4 + 13)\<rparr>)
      else if ip_proto ip = IPPROTO_UDP then
        (if l4 + 8 > length p then None
         else if be16 (l4 + 4) p < 8 then None
         else Some \<lparr>l4_dport = be16 (l4 + 2) p, l4_rule_port = be16 (l4 + 2) p, l4_flags = 0\<rparr>)
      else if ip_proto ip = IPPROTO_ICMP then
        (if l4 + 4 > length p then None
         else Some \<lparr>l4_dport = 0, l4_rule_port = unat (p ! l4), l4_flags = 0\<rparr>)
      else Some nothing)"

definition TCP_FIN :: byte where "TCP_FIN = 0x01"
definition TCP_SYN :: byte where "TCP_SYN = 0x02"
definition TCP_RST :: byte where "TCP_RST = 0x04"
definition TCP_PSH :: byte where "TCP_PSH = 0x08"
definition TCP_URG :: byte where "TCP_URG = 0x20"

definition tcp_flags_sane :: "byte \<Rightarrow> bool" where
  "tcp_flags_sane f =
     (if f = 0 then False
      else if f AND (TCP_SYN OR TCP_FIN) = TCP_SYN OR TCP_FIN then False
      else if f AND (TCP_SYN OR TCP_RST) = TCP_SYN OR TCP_RST then False
      else if f AND (TCP_FIN OR TCP_RST) = TCP_FIN OR TCP_RST then False
      else if f AND (TCP_FIN OR TCP_PSH OR TCP_URG) = TCP_FIN OR TCP_PSH OR TCP_URG then False
      else True)"

section \<open>Settings\<close>

record c_config =
  cfg_rate :: "64 word"
  cfg_burst :: "64 word"
  cfg_features :: "32 word"
  cfg_policy :: "32 word"

definition read_c_config :: "kernel \<Rightarrow> c_config option" where
  "read_c_config w =
     map_option (\<lambda>(k, v). \<lparr>cfg_rate = get64 0 v, cfg_burst = get64 8 v, cfg_features = get32 16 v, cfg_policy = get32 24 v\<rparr>)
       (lookup_entry FD_CONFIG (le_bytes 4 0) w)"

definition FEAT_ALLOWLIST :: nat where "FEAT_ALLOWLIST = 0"
definition FEAT_BLOCKLIST :: nat where "FEAT_BLOCKLIST = 1"
definition FEAT_PROTO_SANITY :: nat where "FEAT_PROTO_SANITY = 2"
definition FEAT_RATELIMIT :: nat where "FEAT_RATELIMIT = 3"
definition FEAT_TRACK_STATE :: nat where "FEAT_TRACK_STATE = 4"
definition FEAT_DROP_FRAGS :: nat where "FEAT_DROP_FRAGS = 5"
definition FEAT_PORT_RULES :: nat where "FEAT_PORT_RULES = 6"

text \<open>The bit numbers are those of the macros.\<close>

lemma macro_bits:
  "c_features = map (\<lambda>(name, n). (name, push_bit n 1))
    [(''FEAT_ALLOWLIST'', FEAT_ALLOWLIST), (''FEAT_BLOCKLIST'', FEAT_BLOCKLIST), (''FEAT_PROTO_SANITY'', FEAT_PROTO_SANITY),
     (''FEAT_RATELIMIT'', FEAT_RATELIMIT), (''FEAT_TRACK_STATE'', FEAT_TRACK_STATE), (''FEAT_DROP_FRAGS'', FEAT_DROP_FRAGS),
     (''FEAT_PORT_RULES'', FEAT_PORT_RULES)]"
  by (simp add: c_features_def FEAT_ALLOWLIST_def FEAT_BLOCKLIST_def FEAT_PROTO_SANITY_def FEAT_RATELIMIT_def
      FEAT_TRACK_STATE_def FEAT_DROP_FRAGS_def FEAT_PORT_RULES_def)

abbreviation feat :: "c_config \<Rightarrow> nat \<Rightarrow> bool" where
  "feat cfg n \<equiv> bit (cfg_features cfg) n"

definition ACTION_DENY :: "32 word" where "ACTION_DENY = 1"

section \<open>Stages\<close>

text \<open>The key of both tries for a source address.\<close>

definition host_key :: "bytes \<Rightarrow> bytes" where
  "host_key saddr = le_bytes 4 32 @ saddr"

definition port_bytes_key :: "byte \<Rightarrow> nat \<Rightarrow> bytes" where
  "port_bytes_key proto port = [proto, 0] @ le_bytes 2 (int port)"

text \<open>
  Flag sanity, port rules and default policy of a packet that is not a later fragment: the
  verdict so far and its counter, and the maps with the rule's hit counted.
\<close>

definition rule_stage ::
    "nat \<Rightarrow> c_config \<Rightarrow> byte \<Rightarrow> l4_info \<Rightarrow> kernel \<Rightarrow> xdp_action \<times> stat \<times> kernel" where
  "rule_stage cpu cfg proto l4 w =
     (if feat cfg FEAT_PROTO_SANITY \<and> proto = IPPROTO_TCP \<and> \<not> tcp_flags_sane (l4_flags l4)
      then (XDP_DROP, STAT_DROP_PROTO, w)
      else if feat cfg FEAT_PORT_RULES then
        (case lookup_entry FD_PORTRULES (port_bytes_key proto (l4_rule_port l4)) w of
           Some (k, v) \<Rightarrow>
             let w = write_entry FD_PORTRULES k (add64 (16 * cpu) 1 v) w in
             if get32 (16 * cpu + 8) v = ACTION_DENY then (XDP_DROP, STAT_DROP_PORT_RULE, w)
             else (XDP_PASS, STAT_PASS_RULE, w)
         | None \<Rightarrow>
             if cfg_policy cfg = ACTION_DENY then (XDP_DROP, STAT_DROP_DEFAULT, w)
             else (XDP_PASS, STAT_PASS_DEFAULT, w))
      else (XDP_PASS, STAT_PASS_DEFAULT, w))"

definition frag_stage :: "c_config \<Rightarrow> xdp_action \<times> stat" where
  "frag_stage cfg =
     (if feat cfg FEAT_DROP_FRAGS then (XDP_DROP, STAT_DROP_FRAGMENT)
      else if feat cfg FEAT_PORT_RULES \<and> cfg_policy cfg = ACTION_DENY then (XDP_DROP, STAT_DROP_DEFAULT)
      else (XDP_PASS, STAT_PASS_DEFAULT))"

section \<open>The token bucket\<close>

definition NSEC_PER_SEC :: "64 word" where "NSEC_PER_SEC = 1000000000"

record bucket =
  bk_tokens :: "64 word"
  bk_last_refill :: "64 word"

definition bucket_refill :: "64 word \<Rightarrow> 64 word \<Rightarrow> 64 word \<Rightarrow> bucket \<Rightarrow> bucket" where
  "bucket_refill now rate burst b =
     (let elapsed = (if now > bk_last_refill b then now - bk_last_refill b else 0);
          (add, last) =
            (if elapsed \<ge> NSEC_PER_SEC then (rate, now)
             else let add = (elapsed * rate) div NSEC_PER_SEC in
               (add, if add > 0 then bk_last_refill b + (add * NSEC_PER_SEC) div rate else bk_last_refill b));
          tokens = bk_tokens b + add in
      \<lparr>bk_tokens = (if tokens > burst then burst else tokens), bk_last_refill = last\<rparr>)"

text \<open>One packet at the bucket: whether it passes.\<close>

definition bucket_take :: "64 word \<Rightarrow> 64 word \<Rightarrow> 64 word \<Rightarrow> bucket \<Rightarrow> bool \<times> bucket" where
  "bucket_take now rate burst b =
     (let b = bucket_refill now rate burst b in
      if bk_tokens b > 0 then (True, b\<lparr>bk_tokens := bk_tokens b - 1\<rparr>) else (False, b))"

section \<open>Per-source state\<close>

text \<open>Offsets in \<open>struct src_state\<close>.\<close>

definition OFF_TOKENS :: nat where "OFF_TOKENS = 8"
definition OFF_LAST_REFILL :: nat where "OFF_LAST_REFILL = 16"
definition OFF_LAST_SEEN :: nat where "OFF_LAST_SEEN = 24"
definition OFF_PACKETS :: nat where "OFF_PACKETS = 32"
definition OFF_BYTES :: nat where "OFF_BYTES = 40"
definition OFF_DROPPED :: nat where "OFF_DROPPED = 48"
definition OFF_SYN :: nat where "OFF_SYN = 56"
definition OFF_FIN :: nat where "OFF_FIN = 64"
definition OFF_RST :: nat where "OFF_RST = 72"
definition OFF_UDP :: nat where "OFF_UDP = 80"
definition OFF_ICMP :: nat where "OFF_ICMP = 88"
definition OFF_PORT_BITMAP :: nat where "OFF_PORT_BITMAP = 96"

definition fresh_state :: "64 word \<Rightarrow> 64 word \<Rightarrow> bytes" where
  "fresh_state now burst =
     put64 OFF_TOKENS burst (put64 OFF_LAST_REFILL now (put64 OFF_LAST_SEEN now (zeros 104)))"

text \<open>The counters that every packet of a source updates, under the lock.\<close>

definition count_packet :: "64 word \<Rightarrow> nat \<Rightarrow> byte \<Rightarrow> l4_info \<Rightarrow> bytes \<Rightarrow> bytes" where
  "count_packet now len proto l4 st =
     (let st = add64 OFF_PACKETS 1 st;
          st = add64 OFF_BYTES (of_nat len) st;
          st = put64 OFF_LAST_SEEN now st;
          st = (if proto = IPPROTO_TCP then
                  let st = (if l4_flags l4 AND TCP_SYN \<noteq> 0 then add64 OFF_SYN 1 st else st);
                      st = (if l4_flags l4 AND TCP_FIN \<noteq> 0 then add64 OFF_FIN 1 st else st) in
                  if l4_flags l4 AND TCP_RST \<noteq> 0 then add64 OFF_RST 1 st else st
                else if proto = IPPROTO_UDP then add64 OFF_UDP 1 st
                else if proto = IPPROTO_ICMP then add64 OFF_ICMP 1 st
                else st) in
      if l4_dport l4 \<noteq> 0
      then put64 OFF_PORT_BITMAP (get64 OFF_PORT_BITMAP st OR push_bit (l4_dport l4 mod 64) 1) st
      else st)"

definition limit_packet ::
    "64 word \<Rightarrow> c_config \<Rightarrow> xdp_action \<Rightarrow> stat \<Rightarrow> bytes \<Rightarrow> xdp_action \<times> stat \<times> bytes" where
  "limit_packet now cfg verdict reason st =
     (let (verdict, reason, st) =
        (if verdict = XDP_PASS \<and> feat cfg FEAT_RATELIMIT \<and> cfg_rate cfg > 0 then
           (case bucket_take now (cfg_rate cfg) (cfg_burst cfg)
                   \<lparr>bk_tokens = get64 OFF_TOKENS st, bk_last_refill = get64 OFF_LAST_REFILL st\<rparr> of (ok, b) \<Rightarrow>
              let st = put64 OFF_LAST_REFILL (bk_last_refill b) (put64 OFF_TOKENS (bk_tokens b) st) in
              if ok then (verdict, reason, st) else (XDP_DROP, STAT_DROP_RATELIMIT, st))
         else (verdict, reason, st)) in
      (verdict, reason, if verdict = XDP_DROP then add64 OFF_DROPPED 1 st else st))"

text \<open>
  From the label \<open>update_state\<close> on. The insertion of a new source fails when the map is full;
  then the verdict stands and the packet is not tracked.
\<close>

definition state_stage ::
    "nat \<Rightarrow> 64 word \<Rightarrow> c_config \<Rightarrow> nat \<Rightarrow> ip_info \<Rightarrow> l4_info \<Rightarrow> xdp_action \<Rightarrow> stat \<Rightarrow> kernel \<Rightarrow> xdp_action \<times> kernel" where
  "state_stage cpu now cfg len ip l4 verdict reason w =
     (if \<not> feat cfg FEAT_TRACK_STATE then (verdict, stat_inc cpu reason w)
      else
        let w1 = (case map_of (ref_view w FD_SRCSTATE) (ip_saddr ip) of
                    Some _ \<Rightarrow> w
                  | None \<Rightarrow> snd (ref_update FD_SRCSTATE (Some (ip_saddr ip)) (fresh_state now (cfg_burst cfg)) w)) in
        case map_of (ref_view w1 FD_SRCSTATE) (ip_saddr ip) of
          None \<Rightarrow> (verdict, stat_inc cpu reason (stat_inc cpu STAT_STATE_FULL w1))
        | Some st \<Rightarrow>
            (case limit_packet now cfg verdict reason (count_packet now len (ip_proto ip) l4 st) of
               (verdict, reason, st) \<Rightarrow>
                 (verdict, stat_inc cpu reason (write_entry FD_SRCSTATE (ip_saddr ip) st w1))))"

section \<open>The program\<close>

definition l4_stages ::
    "nat \<Rightarrow> 64 word \<Rightarrow> c_config \<Rightarrow> bytes \<Rightarrow> ip_info \<Rightarrow> kernel \<Rightarrow> xdp_action \<times> kernel" where
  "l4_stages cpu now cfg p ip w =
     (case parse_l4 p ip of
        None \<Rightarrow> (XDP_DROP, stat_inc cpu STAT_DROP_MALFORMED w)
      | Some l4 \<Rightarrow>
          if ip_frag ip then
            (case frag_stage cfg of (verdict, reason) \<Rightarrow> state_stage cpu now cfg (length p) ip l4 verdict reason w)
          else
            (case rule_stage cpu cfg (ip_proto ip) l4 w of
               (verdict, reason, w) \<Rightarrow> state_stage cpu now cfg (length p) ip l4 verdict reason w))"

definition blocklist_stage ::
    "nat \<Rightarrow> 64 word \<Rightarrow> c_config \<Rightarrow> bytes \<Rightarrow> ip_info \<Rightarrow> kernel \<Rightarrow> xdp_action \<times> kernel" where
  "blocklist_stage cpu now cfg p ip w =
     (case (if feat cfg FEAT_BLOCKLIST then lookup_entry FD_BLOCKLIST (host_key (ip_saddr ip)) w else None) of
        Some (k, v) \<Rightarrow>
          if get64 0 v = 0 \<or> get64 0 v > now
          then (XDP_DROP, stat_inc cpu STAT_DROP_BLOCKLIST (write_entry FD_BLOCKLIST k (add64 8 1 v) w))
          else l4_stages cpu now cfg p ip w
      | None \<Rightarrow> l4_stages cpu now cfg p ip w)"

definition source_stages ::
    "nat \<Rightarrow> 64 word \<Rightarrow> c_config \<Rightarrow> bytes \<Rightarrow> ip_info \<Rightarrow> kernel \<Rightarrow> xdp_action \<times> kernel" where
  "source_stages cpu now cfg p ip w =
     (case (if feat cfg FEAT_ALLOWLIST then lookup_entry FD_ALLOWLIST (host_key (ip_saddr ip)) w else None) of
        Some (k, v) \<Rightarrow>
          (XDP_PASS, stat_inc cpu STAT_PASS_ALLOWLIST (write_entry FD_ALLOWLIST k (add64 0 1 v) w))
      | None \<Rightarrow> blocklist_stage cpu now cfg p ip w)"

definition xdp_firewall :: "nat \<Rightarrow> 64 word \<Rightarrow> bytes \<Rightarrow> kernel \<Rightarrow> xdp_action \<times> kernel" where
  "xdp_firewall cpu now p w =
     (let w = stat_add cpu STAT_RX_BYTES (of_nat (length p)) (stat_inc cpu STAT_RX_PACKETS w) in
      case read_c_config w of
        None \<Rightarrow> (XDP_PASS, w)
      | Some cfg \<Rightarrow>
          (case parse_l3 p of
             L3Malformed \<Rightarrow> (XDP_DROP, stat_inc cpu STAT_DROP_MALFORMED w)
           | L3Other \<Rightarrow> (XDP_PASS, stat_inc cpu STAT_PASS_NON_IPV4 w)
           | L3Ip ip \<Rightarrow> source_stages cpu now cfg p ip w))"

end
