(* ===== verification/Token_Bucket.thy ===== *)
theory Token_Bucket
  imports Xdp
begin

text \<open>
  The token bucket of the data plane over a sequence of packets. The word arithmetic of
  \<open>bucket_refill\<close> is read as arithmetic of natural numbers once nothing overflows; from this
  come the upper bound on what a source can get through, and that a source that keeps to the
  rate loses nothing.
\<close>

section \<open>A sequence of packets\<close>

text \<open>The packets of one source, by their clock readings: how many pass, and the bucket after them.\<close>

fun bucket_run :: "64 word \<Rightarrow> 64 word \<Rightarrow> 64 word list \<Rightarrow> bucket \<Rightarrow> nat \<times> bucket" where
  "bucket_run rate burst [] b = (0, b)"
| "bucket_run rate burst (now # nows) b =
     (case bucket_take now rate burst b of (ok, b1) \<Rightarrow>
        case bucket_run rate burst nows b1 of (n, b2) \<Rightarrow> ((if ok then Suc n else n), b2))"

abbreviation ns :: nat where
  "ns \<equiv> 1000000000"

definition granted :: "nat \<Rightarrow> nat \<Rightarrow> nat" where
  "granted rate e = (if ns \<le> e then rate else (e * rate) div ns)"

definition advance :: "nat \<Rightarrow> nat \<Rightarrow> nat" where
  "advance rate e = (if ns \<le> e then e else granted rate e * ns div rate)"

lemma granted_le: "granted rate e \<le> rate"
proof (cases "ns \<le> e")
  case False
  then have "e * rate div ns \<le> ns * rate div ns" by (intro div_le_mono mult_le_mono) simp_all
  with False show ?thesis by (simp add: granted_def)
qed (simp add: granted_def)

lemma advance_le: "0 < rate \<Longrightarrow> advance rate e \<le> e"
proof (cases "ns \<le> e")
  case False
  assume "0 < rate"
  have "granted rate e * ns \<le> e * rate" using False by (simp add: granted_def)
  then have "granted rate e * ns div rate \<le> e * rate div rate" by (rule div_le_mono)
  with False \<open>0 < rate\<close> show ?thesis by (simp add: advance_def)
qed (simp add: advance_def)

text \<open>Tokens are paid for with time, up to the rounding of the step of the clock.\<close>

lemma granted_paid: "0 < rate \<Longrightarrow> granted rate e * ns \<le> rate * advance rate e + rate * granted rate e"
proof (cases "ns \<le> e \<or> granted rate e = 0")
  case False
  assume "0 < rate"
  let ?m = "granted rate e * ns"
  have "advance rate e = ?m div rate" using False by (simp add: advance_def)
  then have "?m = rate * advance rate e + ?m mod rate" by simp
  moreover have "?m mod rate < rate" using \<open>0 < rate\<close> by simp
  moreover have "rate \<le> rate * granted rate e" using False by simp
  ultimately show ?thesis by linarith
qed (auto simp: granted_def advance_def intro: trans_le_add1)

lemma word_step:
  fixes e rate :: "64 word"
  assumes "unat rate \<le> ns" "unat e < ns"
  shows "unat ((e * rate) div NSEC_PER_SEC) = granted (unat rate) (unat e)"
    and "unat (((e * rate) div NSEC_PER_SEC * NSEC_PER_SEC) div rate) = granted (unat rate) (unat e) * ns div unat rate"
proof -
  have "unat e * unat rate \<le> ns * ns" using assms by (intro mult_le_mono) simp_all
  then have er: "unat (e * rate) = unat e * unat rate" by (subst unat_mult_lem [symmetric]) simp
  then show g: "unat ((e * rate) div NSEC_PER_SEC) = granted (unat rate) (unat e)"
    using assms by (simp add: unat_div granted_def NSEC_PER_SEC_def)
  have "granted (unat rate) (unat e) * ns \<le> ns * ns"
    using granted_le [of "unat rate" "unat e"] assms by (intro mult_le_mono) simp_all
  then have "unat ((e * rate) div NSEC_PER_SEC * NSEC_PER_SEC) = granted (unat rate) (unat e) * ns"
    by (subst unat_mult_lem [THEN iffD1]) (simp_all add: g, simp_all add: NSEC_PER_SEC_def)
  then show "unat (((e * rate) div NSEC_PER_SEC * NSEC_PER_SEC) div rate) = granted (unat rate) (unat e) * ns div unat rate"
    by (simp add: unat_div)
qed

lemma word64_lt: "unat (x :: 64 word) < 2 ^ 64"
  using unsigned_less [of x] by simp

lemma refill_nat:
  assumes "0 < rate" "unat rate \<le> ns" "unat (bk_tokens b) + unat rate < 2 ^ 64"
  shows "unat (bk_tokens (bucket_refill now rate burst b)) =
      min (unat burst) (unat (bk_tokens b) + granted (unat rate) (unat now - unat (bk_last_refill b)))"
    and "unat (bk_last_refill (bucket_refill now rate burst b)) =
      unat (bk_last_refill b) + advance (unat rate) (unat now - unat (bk_last_refill b))"
proof -
  define e where "e = (if now > bk_last_refill b then now - bk_last_refill b else 0)"
  let ?e = "unat now - unat (bk_last_refill b)" and ?add = "if e \<ge> NSEC_PER_SEC then rate else (e * rate) div NSEC_PER_SEC"
  have e: "unat e = ?e" by (auto simp: e_def unat_sub word_le_nat_alt word_less_nat_alt)
  have big: "e \<ge> NSEC_PER_SEC \<longleftrightarrow> ns \<le> ?e"
    unfolding word_le_nat_alt e by (simp add: NSEC_PER_SEC_def)
  have add: "unat ?add = granted (unat rate) ?e"
    using word_step(1) [OF assms(2), of e] by (simp add: big e) (simp add: granted_def)
  have "unat (bk_tokens b) + granted (unat rate) ?e < 2 ^ 64"
    using assms(3) granted_le [of "unat rate" ?e] by linarith
  then have tok: "unat (bk_tokens b + ?add) = unat (bk_tokens b) + granted (unat rate) ?e"
    using unat_add_lem [of "bk_tokens b" ?add] add by simp
  show "unat (bk_tokens (bucket_refill now rate burst b)) = min (unat burst) (unat (bk_tokens b) + granted (unat rate) ?e)"
    unfolding bucket_refill_def Let_def e_def [symmetric]
    using tok by (auto simp: word_less_nat_alt min_def split: if_splits)
  have pos: "0 < unat rate" using assms(1) by (simp add: word_less_nat_alt)
  show "unat (bk_last_refill (bucket_refill now rate burst b)) = unat (bk_last_refill b) + advance (unat rate) ?e"
  proof (cases "ns \<le> ?e")
    case True
    with big show ?thesis
      unfolding bucket_refill_def Let_def e_def [symmetric] by (simp add: advance_def)
  next
    case False
    let ?step = "((e * rate) div NSEC_PER_SEC * NSEC_PER_SEC) div rate"
    have step: "unat ?step = advance (unat rate) ?e"
      using word_step(2) [OF assms(2), of e] False by (simp add: e advance_def)
    have "unat (bk_last_refill b) + advance (unat rate) ?e < 2 ^ 64"
      using advance_le [OF pos, of ?e] word64_lt [of now] word64_lt [of "bk_last_refill b"] by linarith
    then have "unat (bk_last_refill b + ?step) = unat (bk_last_refill b) + advance (unat rate) ?e"
      using unat_add_lem [of "bk_last_refill b" ?step] step by simp
    moreover have "?step = 0" if "\<not> (e * rate) div NSEC_PER_SEC > 0" using that by (simp add: word_greater_zero_iff)
    ultimately show ?thesis
      unfolding bucket_refill_def Let_def e_def [symmetric] using False big by auto
  qed
qed

lemma take_nat:
  assumes "0 < rate" "unat rate \<le> ns" "unat (bk_tokens b) + unat rate < 2 ^ 64"
    and "bucket_take now rate burst b = (ok, b')"
  shows "unat (bk_last_refill b') = unat (bk_last_refill b) + advance (unat rate) (unat now - unat (bk_last_refill b))"
    and "ok \<longleftrightarrow> 0 < min (unat burst) (unat (bk_tokens b) + granted (unat rate) (unat now - unat (bk_last_refill b)))"
    and "unat (bk_tokens b') + of_bool ok =
      min (unat burst) (unat (bk_tokens b) + granted (unat rate) (unat now - unat (bk_last_refill b)))"
proof -
  note r = refill_nat [OF assms(1-3), of now burst]
  let ?b = "bucket_refill now rate burst b"
  have one: "unat (bk_tokens ?b - 1) + 1 = unat (bk_tokens ?b)" if "0 < bk_tokens ?b"
    using that unat_minus_one [of "bk_tokens ?b"] by (simp add: word_greater_zero_iff unat_gt_0)
  have t: "(ok, b') = (if 0 < bk_tokens ?b then (True, ?b\<lparr>bk_tokens := bk_tokens ?b - 1\<rparr>) else (False, ?b))"
    using assms(4) by (simp add: bucket_take_def Let_def)
  have pos: "0 < bk_tokens ?b \<longleftrightarrow> 0 < unat (bk_tokens ?b)" by (simp add: word_less_nat_alt)
  show "unat (bk_last_refill b') = unat (bk_last_refill b) + advance (unat rate) (unat now - unat (bk_last_refill b))"
    using t r(2) by (auto split: if_splits)
  show "ok \<longleftrightarrow> 0 < min (unat burst) (unat (bk_tokens b) + granted (unat rate) (unat now - unat (bk_last_refill b)))"
    using t unfolding pos r(1) by (auto split: if_splits)
  show "unat (bk_tokens b') + of_bool ok =
      min (unat burst) (unat (bk_tokens b) + granted (unat rate) (unat now - unat (bk_last_refill b)))"
    unfolding r(1) [symmetric] using t one pos by (auto split: if_splits)
qed

section \<open>What a source can get through\<close>

lemma take_paid:
  assumes "0 < rate" "unat rate \<le> ns" "unat (bk_tokens b) + unat rate < 2 ^ 64"
    and "bucket_take now rate burst b = (ok, b')"
  shows "(ns - unat rate) * (of_bool ok + unat (bk_tokens b')) + unat rate * unat (bk_last_refill b) \<le>
    (ns - unat rate) * unat (bk_tokens b) + unat rate * unat (bk_last_refill b')"
proof -
  let ?R = "unat rate" and ?e = "unat now - unat (bk_last_refill b)"
  note t = take_nat [OF assms]
  have "0 < ?R" using assms(1) by (simp add: word_less_nat_alt)
  from granted_paid [OF this, of ?e] have "(ns - ?R) * granted ?R ?e \<le> ?R * advance ?R ?e"
    unfolding diff_mult_distrib le_diff_conv by (simp add: mult.commute)
  moreover have "of_bool ok + unat (bk_tokens b') \<le> unat (bk_tokens b) + granted ?R ?e" using t(3) by linarith
  then have "(ns - ?R) * (of_bool ok + unat (bk_tokens b')) \<le> (ns - ?R) * (unat (bk_tokens b) + granted ?R ?e)"
    by (rule mult_le_mono2)
  ultimately show ?thesis unfolding t(1) distrib_left [of "ns - ?R" "unat (bk_tokens b)"] distrib_left [of ?R] by linarith
qed

lemma take_bounds:
  assumes "0 < rate" "unat rate \<le> ns" "unat (bk_tokens b) + unat rate < 2 ^ 64"
    and "bucket_take now rate burst b = (ok, b')"
  shows "unat (bk_tokens b') \<le> unat burst"
    and "unat (bk_last_refill b') \<le> max (unat now) (unat (bk_last_refill b))"
    and "unat (bk_last_refill b) \<le> unat (bk_last_refill b')"
  using take_nat [OF assms] advance_le [of "unat rate" "unat now - unat (bk_last_refill b)"] assms(1)
  by (auto simp: word_less_nat_alt)

lemma run_paid:
  assumes "0 < rate" "unat rate \<le> ns" "max (unat (bk_tokens b)) (unat burst) + unat rate < 2 ^ 64"
    and "bucket_run rate burst nows b = (n, b')" "list_all (\<lambda>t. unat t \<le> T) nows" "unat (bk_last_refill b) \<le> T"
  shows "(ns - unat rate) * (n + unat (bk_tokens b')) + unat rate * unat (bk_last_refill b) \<le>
    (ns - unat rate) * unat (bk_tokens b) + unat rate * unat (bk_last_refill b') \<and> unat (bk_last_refill b') \<le> T"
  using assms(3-6)
proof (induction nows arbitrary: b n)
  case (Cons now nows)
  obtain ok b1 where t: "bucket_take now rate burst b = (ok, b1)" by fastforce
  obtain m where r: "bucket_run rate burst nows b1 = (m, b')" "n = of_bool ok + m"
    using Cons.prems(2) t by (auto split: prod.splits)
  have room: "unat (bk_tokens b) + unat rate < 2 ^ 64" using Cons.prems(1) by linarith
  note b1 = take_bounds [OF assms(1,2) room t] take_paid [OF assms(1,2) room t]
  have "max (unat (bk_tokens b1)) (unat burst) + unat rate < 2 ^ 64" "unat (bk_last_refill b1) \<le> T"
    using b1 Cons.prems by auto
  from Cons.IH [OF this(1) r(1) _ this(2)] Cons.prems(3) b1(4) show ?case
    unfolding r(2) by (simp add: distrib_left)
qed simp

lemma run_burst:
  assumes "0 < rate" "unat rate \<le> ns" "max (unat (bk_tokens b)) (unat burst) + unat rate < 2 ^ 64"
    and "bucket_run rate burst nows b = (n, b')"
  shows "nows = [] \<or> unat (bk_tokens b') \<le> unat burst"
  using assms(3,4)
proof (induction nows arbitrary: b n)
  case (Cons now nows)
  obtain ok b1 where t: "bucket_take now rate burst b = (ok, b1)" by fastforce
  obtain m where r: "bucket_run rate burst nows b1 = (m, b')" using Cons.prems(2) t by (auto split: prod.splits)
  have "unat (bk_tokens b) + unat rate < 2 ^ 64" using Cons.prems(1) by linarith
  from take_bounds(1) [OF assms(1,2) this t] Cons.IH [OF _ r] Cons.prems(1) r show ?case by (cases nows) auto
qed simp

text \<open>
  C11. The rate limit holds. With a rate of at most 10 to the 9 packets a second, a source whose
  bucket holds \<open>tokens\<close> and was last refilled at \<open>last_refill\<close> gets at most
  \<open>tokens + rate * (T - last_refill) / (10^9 - rate)\<close> packets through up to the time \<open>T\<close>, however many it
  sends and in whatever order the clock readings of its packets come: the rounding of
  \<open>last_refill_ns\<close> raises the effective rate by the factor \<open>10^9 / (10^9 - rate)\<close> only. The bucket never
  holds more than the burst after a packet.
\<close>

theorem bucket_rate_bound:
  assumes "0 < rate" "unat rate \<le> 1000000000" "max (unat (bk_tokens b)) (unat burst) + unat rate < 2 ^ 64"
    and "bucket_run rate burst nows b = (n, b')" "list_all (\<lambda>t. unat t \<le> T) nows" "unat (bk_last_refill b) \<le> T"
  shows "(1000000000 - unat rate) * n \<le>
      (1000000000 - unat rate) * unat (bk_tokens b) + unat rate * (T - unat (bk_last_refill b)) \<and>
    (nows = [] \<or> unat (bk_tokens b') \<le> unat burst)"
proof
  from run_paid [OF assms] have paid: "(ns - unat rate) * (n + unat (bk_tokens b')) + unat rate * unat (bk_last_refill b) \<le>
    (ns - unat rate) * unat (bk_tokens b) + unat rate * unat (bk_last_refill b')" and "unat (bk_last_refill b') \<le> T" by auto
  then have "unat rate * unat (bk_last_refill b') \<le> unat rate * T" by simp
  moreover have "(ns - unat rate) * n \<le> (ns - unat rate) * (n + unat (bk_tokens b'))" by (rule mult_le_mono2) simp
  ultimately show "(ns - unat rate) * n \<le> (ns - unat rate) * unat (bk_tokens b) + unat rate * (T - unat (bk_last_refill b))"
    using paid unfolding diff_mult_distrib2 by linarith
  show "nows = [] \<or> unat (bk_tokens b') \<le> unat burst" by (rule run_burst [OF assms(1-4)])
qed

definition full_bucket :: bucket where
  "full_bucket = \<lparr>bk_tokens = 2, bk_last_refill = 5000000000\<rparr>"

theorem bucket_rate_bound_witness:
  "fst (bucket_run 1000 2 [5000000000, 5000000001, 5000000002, 5001000003, 5001000003] full_bucket) = 3 \<and>
   (1000000000 - 1000) * fst (bucket_run 1000 2 [5000000000, 5000000001, 5000000002, 5001000003, 5001000003] full_bucket)
     \<le> (1000000000 - 1000) * (2 :: nat) + 1000 * (5001000003 - 5000000000) \<and>
   unat (bk_tokens (snd (bucket_run 1000 2 [5000000000, 5000000001, 5000000002, 5001000003, 5001000003] full_bucket))) \<le> 2"
proof (intro conjI)
  have pre: "0 < (1000 :: 64 word)" "unat (1000 :: 64 word) \<le> 1000000000"
    "max (unat (bk_tokens full_bucket)) (unat (2 :: 64 word)) + unat (1000 :: 64 word) < 2 ^ 64"
    "list_all (\<lambda>t. unat t \<le> 5001000003) [5000000000, 5000000001, 5000000002, 5001000003, 5001000003 :: 64 word]"
    "unat (bk_last_refill full_bucket) \<le> 5001000003"
    by (simp_all add: full_bucket_def)
  note * = bucket_rate_bound [OF pre(1-3) prod.collapse [symmetric] pre(4,5)]
  show "(1000000000 - 1000) * fst (bucket_run 1000 2 [5000000000, 5000000001, 5000000002, 5001000003, 5001000003] full_bucket)
     \<le> (1000000000 - 1000) * (2 :: nat) + 1000 * (5001000003 - 5000000000)"
    using * by (simp add: full_bucket_def)
  show "unat (bk_tokens (snd (bucket_run 1000 2 [5000000000, 5000000001, 5000000002, 5001000003, 5001000003] full_bucket))) \<le> 2"
    using * by simp
  show "fst (bucket_run 1000 2 [5000000000, 5000000001, 5000000002, 5001000003, 5001000003] full_bucket) = 3"
    by code_simp
qed

section \<open>Sources that keep to the rate\<close>

text \<open>Packets that are at least the time of one token apart.\<close>

fun spaced :: "nat \<Rightarrow> 64 word \<Rightarrow> 64 word list \<Rightarrow> bool" where
  "spaced rate t [] \<longleftrightarrow> True"
| "spaced rate t (u # us) \<longleftrightarrow> unat t \<le> unat u \<and> ns \<le> rate * (unat u - unat t) \<and> spaced rate u us"

lemma granted_pos: "0 < rate \<Longrightarrow> ns \<le> rate * e \<Longrightarrow> 0 < granted rate e"
  using div_le_mono [of ns "e * rate" ns] by (auto simp: granted_def mult.commute)

text \<open>
  C12. A source that keeps to the rate is never limited. When the packets of a source are at least
  \<open>10^9 / rate\<close> nanoseconds apart and its bucket holds a token at the first one, every packet
  passes, for any number of packets.
\<close>

theorem compliant_source_passes:
  assumes "0 < rate" "unat rate \<le> 1000000000" "0 < burst"
    and "max (unat (bk_tokens b)) (unat burst) + unat rate < 2 ^ 64"
    and "0 < bk_tokens b" "unat (bk_last_refill b) \<le> unat t" "spaced (unat rate) t nows"
  shows "fst (bucket_run rate burst (t # nows) b) = length (t # nows)"
proof -
  have R: "0 < unat rate" and B: "0 < unat burst" and tok: "0 < unat (bk_tokens b)"
    using assms(1,3,5) by (simp_all add: word_less_nat_alt)
  have rest: "fst (bucket_run rate burst nows b) = length nows"
    if "spaced (unat rate) t nows" "unat (bk_last_refill b) \<le> unat t"
      "max (unat (bk_tokens b)) (unat burst) + unat rate < 2 ^ 64" for t nows b
    using that
  proof (induction nows arbitrary: t b)
    case (Cons u us)
    let ?e = "unat u - unat (bk_last_refill b)"
    obtain ok b1 where t: "bucket_take u rate burst b = (ok, b1)" by fastforce
    have room: "unat (bk_tokens b) + unat rate < 2 ^ 64" using Cons.prems(3) by linarith
    note b1 = take_bounds [OF assms(1,2) room t] take_nat(2) [OF assms(1,2) room t]
    have "unat rate * (unat u - unat t) \<le> unat rate * ?e" using Cons.prems(2) by (intro mult_le_mono2) simp
    moreover have "ns \<le> unat rate * (unat u - unat t)" using Cons.prems(1) by simp
    ultimately have "ns \<le> unat rate * ?e" by linarith
    then have "ok" using b1(4) granted_pos [OF R] B by simp
    moreover have "unat (bk_last_refill b1) \<le> unat u" using b1(2) Cons.prems(1,2) by simp
    moreover have "max (unat (bk_tokens b1)) (unat burst) + unat rate < 2 ^ 64" using b1(1) Cons.prems(3) by linarith
    ultimately show ?case using Cons.IH [of u b1] Cons.prems(1) t by (auto split: prod.splits)
  qed simp
  obtain ok b1 where t: "bucket_take t rate burst b = (ok, b1)" by fastforce
  have room: "unat (bk_tokens b) + unat rate < 2 ^ 64" using assms(4) by linarith
  note b1 = take_bounds [OF assms(1,2) room t] take_nat(2) [OF assms(1,2) room t]
  have "ok" using b1(4) B tok by simp
  moreover have "unat (bk_last_refill b1) \<le> unat t" using b1(2) assms(6) by simp
  moreover have "max (unat (bk_tokens b1)) (unat burst) + unat rate < 2 ^ 64" using b1(1) assms(4) by linarith
  ultimately show ?thesis using rest [OF assms(7), of b1] t by (auto split: prod.splits)
qed

theorem compliant_source_passes_witness:
  "fst (bucket_run 1000 2 [5000000000, 5001000000, 5002000000, 5003500000] full_bucket) =
     length [5000000000, 5001000000, 5002000000, 5003500000 :: 64 word]"
  by (rule compliant_source_passes) (simp_all add: full_bucket_def)

section \<open>Overflow\<close>

text \<open>
  The comment on the refill says that the multiplication cannot overflow because the elapsed
  time is capped at one second. It can: the rate is a 64-bit setting, and with 40 thousand
  million packets a second, half a second adds about 1.55 thousand million tokens instead of 20
  thousand million. With a rate of 18 446 744 073 the same half second is counted right.
\<close>

theorem refill_overflow:
  "bk_tokens (bucket_refill 1500000000 40000000000 100000000000 \<lparr>bk_tokens = 0, bk_last_refill = 1000000000\<rparr>) = 1553255926 \<and>
   bk_tokens (bucket_refill 1500000000 18446744073 100000000000 \<lparr>bk_tokens = 0, bk_last_refill = 1000000000\<rparr>) = 9223372036"
  by (simp add: bucket_refill_def NSEC_PER_SEC_def)

end
