(* ===== verification/Firewall_Props.thy ===== *)
theory Firewall_Props
  imports Firewall Ref_Kernel
begin

text \<open>
  The firewall object on the reference kernel, which discharges the assumptions of
  \<open>fw_kernel\<close>, and the properties of the methods of \<open>Firewall\<close> and \<open>BpfMap\<close> that a caller
  relies on. Each is stated for every kernel that satisfies the laws, and applied to the
  reference kernel in its example.
\<close>

section \<open>The object on the reference kernel\<close>

definition ref_map :: "string \<Rightarrow> nat \<Rightarrow> nat \<Rightarrow> nat \<Rightarrow> int \<Rightarrow> bpfmap" where
  "ref_map name ks vs n fd =
     \<lparr>bm_path = PIN_DIR @ ''/'' @ name, bm_key_size = ks, bm_value_size = vs, bm_ncpu = n, bm_fd = fd\<rparr>"

definition ref_fw :: firewall where
  "ref_fw = \<lparr>fw_pin_dir = PIN_DIR,
     fw_allowlist = ref_map ''allowlist'' 8 16 1 3, fw_blocklist = ref_map ''blocklist'' 8 24 1 4,
     fw_portrules = ref_map ''portrules'' 4 32 2 5, fw_srcstate = ref_map ''srcstate'' 4 104 1 6,
     fw_stats = ref_map ''stats'' 4 16 2 7, fw_config = ref_map ''config'' 4 32 1 8\<rparr>"

lemma ref_opens:
  "ref_open (PIN_DIR @ ''/allowlist'') = reply 3 0 []" "ref_open (PIN_DIR @ ''/blocklist'') = reply 4 0 []"
  "ref_open (PIN_DIR @ ''/portrules'') = reply 5 0 []" "ref_open (PIN_DIR @ ''/srcstate'') = reply 6 0 []"
  "ref_open (PIN_DIR @ ''/stats'') = reply 7 0 []" "ref_open (PIN_DIR @ ''/config'') = reply 8 0 []"
  by (simp_all add: ref_open_def py_enumerate_def map_decls_def FIRST_FD_def)

lemma ref_cpus: "parse_cpus ''0-1'' = Inr 2"
  by code_simp

lemma ref_firewall_open: "firewall_open ref_os PIN_DIR w = (Inr ref_fw, w)"
  by (simp add: firewall_open_def bpfmap_open_def open_pinned_def bpf_def possible_cpus_def io_simps ref_cpus
      ref_opens ref_fw_def ref_map_def reply_def)

lemma ref_decls:
  "decl_of 3 = \<lparr>md_name = ''allowlist'', md_kind = LPM_TRIE, md_ksize = 8, md_vsize = 16, md_max = MAX_ALLOWLIST\<rparr>"
  "decl_of 4 = \<lparr>md_name = ''blocklist'', md_kind = LPM_TRIE, md_ksize = 8, md_vsize = 24, md_max = MAX_BLOCKLIST\<rparr>"
  "decl_of 5 = \<lparr>md_name = ''portrules'', md_kind = HASH, md_ksize = 4, md_vsize = 32, md_max = MAX_PORT_RULES\<rparr>"
  "decl_of 6 = \<lparr>md_name = ''srcstate'', md_kind = HASH, md_ksize = 4, md_vsize = 104, md_max = C_MAX_TRACKED\<rparr>"
  "decl_of 7 = \<lparr>md_name = ''stats'', md_kind = ARRAY, md_ksize = 4, md_vsize = 16, md_max = STAT_MAX\<rparr>"
  "decl_of 8 = \<lparr>md_name = ''config'', md_kind = ARRAY, md_ksize = 4, md_vsize = 32, md_max = 1\<rparr>"
  by (simp_all add: decl_of_def map_decls_def FIRST_FD_def REF_CPUS_def)

lemma ref_maps: "ref_is_map fd \<longleftrightarrow> 3 \<le> fd \<and> fd < 9"
  by (simp add: ref_is_map_def FIRST_FD_def map_decls_def)

interpretation rf: fw_kernel ref_os ref_is_map "\<lambda>fd. md_kind (decl_of fd)" "\<lambda>fd. md_ksize (decl_of fd)"
  "\<lambda>fd. md_vsize (decl_of fd)" kernel_ok ref_view "\<lambda>_. token_pos" ref_fw
proof (unfold_locales, goal_cases)
  case (27 w i)
  have "map fst (ref_view w 7) = map (\<lambda>i. le_bytes 4 (int i)) [0..<STAT_MAX]"
    using ref_view_ok [OF 27(1), of 7] by (simp add: ref_maps decl_dict_ok_def ref_decls)
  then have "fst ` set (ref_view w 7) = (\<lambda>i. le_bytes 4 (int i)) ` {0..<STAT_MAX}"
    by (metis atLeastLessThan_upt set_map)
  with 27 show ?case
    by (auto simp: ref_fw_def ref_map_def STAT_NAMES_def STAT_MAX_def c_stat_index_def)
next
  case (28 w)
  have "map fst (ref_view w 8) = [le_bytes 4 0]"
    using ref_view_ok [OF 28, of 8] by (simp add: ref_maps decl_dict_ok_def ref_decls)
  then show ?case by (cases "ref_view w 8") (auto simp: ref_fw_def ref_map_def le_bytes_zero)
next
  case (29 w fd)
  then show ?case using ref_length [of w fd] by (simp add: WALK_LIMIT_def)
qed (auto simp: ref_fw_def ref_map_def ref.handle_def ref_decls ref_maps)

lemmas ref_kernel_laws = ref.bpf_kernel_axioms and ref_fw_laws = rf.fw_kernel_axioms

lemma ref_fw_simps:
  "fw_allowlist ref_fw = ref_map ''allowlist'' 8 16 1 3" "fw_blocklist ref_fw = ref_map ''blocklist'' 8 24 1 4"
  "fw_portrules ref_fw = ref_map ''portrules'' 4 32 2 5" "fw_srcstate ref_fw = ref_map ''srcstate'' 4 104 1 6"
  "fw_stats ref_fw = ref_map ''stats'' 4 16 2 7" "fw_config ref_fw = ref_map ''config'' 4 32 1 8"
  by (simp_all add: ref_fw_def)

lemma ref_map_simps [simp]:
  "bm_fd (ref_map nm ks vs n fd) = fd" "bm_key_size (ref_map nm ks vs n fd) = ks"
  "bm_value_size (ref_map nm ks vs n fd) = vs" "bm_ncpu (ref_map nm ks vs n fd) = n"
  by (simp_all add: ref_map_def)

section \<open>Reading whole maps\<close>

text \<open>
  C10. \<open>BpfMap.items\<close> returns every entry of the map exactly once, in the kernel's order,
  whether or not the kernel supports batched reads, and so does \<open>keys\<close> for the keys; both
  return for every map of at most 2 to the 20th entries (with one turn of the batched read per entry
  and one more as fuel), and neither changes any map.
\<close>

theorem items_complete:
  assumes "bpf_kernel os is_map kind ksize vsize okw view pos" "okw w" "is_map (bm_fd m)"
    and "bm_key_size m = ksize (bm_fd m)" "bm_value_size m = vsize (bm_fd m)"
    and "length (view w (bm_fd m)) \<le> 2 ^ 20" "length (view w (bm_fd m)) < os_fuel os"
  shows "\<exists>w1 w2. bpfmap_items os m flags w = (Inr (view w (bm_fd m)), w1) \<and>
    bpfmap_keys os m w = (Inr (map fst (view w (bm_fd m))), w2) \<and>
    distinct (map fst (view w (bm_fd m))) \<and> view w1 = view w \<and> view w2 = view w"
proof -
  note h = bpf_kernel.handle_def [OF assms(1), of m]
  then have hm: "bpf_kernel.handle is_map ksize vsize m" using assms(3-5) by simp
  obtain r1 w1 r2 w2 where run: "bpfmap_items os m flags w = (r1, w1)" "bpfmap_keys os m w = (r2, w2)"
    by fastforce
  have lim: "length (view w (bm_fd m)) \<le> WALK_LIMIT" using assms(6) by (simp add: WALK_LIMIT_def)
  from bpf_kernel.items_run [OF assms(1,2) hm assms(7) lim run(1)] bpf_kernel.keys_run [OF assms(1,2) hm lim run(2)]
    bpf_kernel.contents_ok [OF assms(1,2) hm] run
  show ?thesis by (auto simp: kdict_ok_def)
qed

definition demo_entry :: "bytes \<times> bytes" where
  "demo_entry = ([24, 0, 0, 0, 10, 1, 2, 0], zeros 24)"

definition demo_blocks :: kernel where
  "demo_blocks = boot_kernel\<lparr>k_maps := (k_maps boot_kernel)[1 := [demo_entry]], k_batches := False\<rparr>"

lemma demo_entry_ok: "key_ok LPM_TRIE 8 (fst demo_entry)" "length (snd demo_entry) = 24"
  using lpm_key_ok [OF demo_key] by (simp_all add: demo_entry_def zeros_def)

lemma kernel_ok_maps:
  assumes "kernel_ok w" "i < length map_decls" "decl_dict_ok (map_decls ! i) d"
  shows "kernel_ok (w\<lparr>k_maps := (k_maps w)[i := d], k_batches := b\<rparr>)"
proof -
  have "kernel_ok (ref_set (FIRST_FD + int i) d w)"
    using assms by (intro ref_set_ok) (auto simp: ref_is_map_def decl_of_def)
  then show ?thesis by (simp add: kernel_ok_def ref_set_def)
qed

lemma demo_blocks_ok: "kernel_ok demo_blocks"
  unfolding demo_blocks_def
  by (rule kernel_ok_maps [OF boot_kernel_ok])
    (simp_all add: map_decls_def decl_dict_ok_def kdict_ok_def demo_entry_ok MAX_BLOCKLIST_def case_prod_beta)

lemma demo_blocks_view: "ref_view demo_blocks 4 = [demo_entry]"
  by (simp add: ref_view_def ref_maps demo_blocks_def boot_kernel_def FIRST_FD_def)

theorem items_complete_witness:
  "\<exists>w1 w2. bpfmap_items ref_os (fw_blocklist ref_fw) 0 demo_blocks =
      (Inr (ref_view demo_blocks (bm_fd (fw_blocklist ref_fw))), w1) \<and>
    bpfmap_keys ref_os (fw_blocklist ref_fw) demo_blocks =
      (Inr (map fst (ref_view demo_blocks (bm_fd (fw_blocklist ref_fw)))), w2) \<and>
    distinct (map fst (ref_view demo_blocks (bm_fd (fw_blocklist ref_fw)))) \<and>
    ref_view w1 = ref_view demo_blocks \<and> ref_view w2 = ref_view demo_blocks"
  by (rule items_complete [OF ref_kernel_laws demo_blocks_ok])
    (simp_all add: ref_fw_simps ref_maps ref_decls demo_blocks_view)

section \<open>Allowlist and blocklist\<close>

text \<open>
  After \<open>allow(cidr)\<close> has returned, \<open>is_allowed\<close> says yes for exactly the addresses for
  which it said yes before and those that the prefix covers.
\<close>

theorem allow_covers:
  assumes "fw_kernel os is_map kind ksize vsize okw view pos fw" "okw w"
    and "parse_cidr cidr = Inr net" "fw_allow os fw cidr w = (Inr (), w')"
    and "parse_cidr ip = Inr \<lparr>network_address = a, prefixlen = 32\<rparr>"
  shows "fst (fw_is_allowed os fw ip w') =
    Inr (covers net a \<or> fst (fw_is_allowed os fw ip w) = Inr True)"
  using fw_kernel.allowed_after_allow [OF assms(1-4)] assms(5) by (simp add: host_def)

lemma demo_net: "lpm_key ''198.51.100.0/24'' = Inr [24, 0, 0, 0, 198, 51, 100, 0]"
  by code_simp

lemma demo_parsed:
  "parse_cidr ''198.51.100.0/24'' = Inr \<lparr>network_address = 0xC6336400, prefixlen = 24\<rparr>"
  "parse_cidr ''198.51.100.7'' = Inr \<lparr>network_address = 0xC6336407, prefixlen = 32\<rparr>"
  by code_simp+

text \<open>An update of a key in range, on the reference kernel, when there is room.\<close>

lemma ref_update_runs:
  assumes "ref.handle m" "key_ok (md_kind (decl_of (bm_fd m))) (md_ksize (decl_of (bm_fd m))) k"
    and "length v = bm_value_size m" "md_kind (decl_of (bm_fd m)) \<noteq> ARRAY"
    and "length (ref_view w (bm_fd m)) < md_max (decl_of (bm_fd m))"
  shows "bpfmap_update ref_os m k v BPF_ANY w =
    (Inr (), ref_set (bm_fd m) (dict_set k v (ref_view w (bm_fd m))) w)"
  using assms ref.good_key_buffer [OF assms(1,2)]
  by (simp add: bpfmap_update_def bpf_elem_def bpf_def io_simps ref.handle_def ref_update_def Let_def reply_def)

lemma ref_handles: "ref.handle (fw_allowlist ref_fw)" "ref.handle (fw_blocklist ref_fw)"
  "ref.handle (fw_portrules ref_fw)" "ref.handle (fw_srcstate ref_fw)" "ref.handle (fw_stats ref_fw)"
  "ref.handle (fw_config ref_fw)"
  by (rule rf.allowlist_map rf.blocklist_map rf.portrules_map rf.srcstate_map rf.stats_map rf.config_map)+

lemma boot_views: "ref_view boot_kernel 3 = []" "ref_view boot_kernel 4 = []" "ref_view boot_kernel 5 = []"
  "ref_view boot_kernel 6 = []" "ref_view boot_kernel 7 = boot_stats" "ref_view boot_kernel 8 = [(zeros 4, boot_config)]"
  by (simp_all add: ref_view_def ref_maps boot_kernel_def FIRST_FD_def)

definition demo_allowed :: kernel where
  "demo_allowed = ref_set 3 [([24, 0, 0, 0, 198, 51, 100, 0], zeros 16)] boot_kernel"

lemma demo_allow: "fw_allow ref_os ref_fw ''198.51.100.0/24'' boot_kernel = (Inr (), demo_allowed)"
  using ref_update_runs [OF ref_handles(1), of "[24, 0, 0, 0, 198, 51, 100, 0]" "zeros 16" boot_kernel]
    lpm_key_ok [OF demo_net]
  by (simp add: fw_allow_def demo_net io_simps allow_zero ref_fw_simps ref_decls boot_views demo_allowed_def
      dict_set_def MAX_ALLOWLIST_def) (simp add: zeros_def)

theorem allow_covers_witness:
  "fst (fw_is_allowed ref_os ref_fw ''198.51.100.7'' demo_allowed) =
    Inr (covers \<lparr>network_address = 0xC6336400, prefixlen = 24\<rparr> 0xC6336407 \<or>
      fst (fw_is_allowed ref_os ref_fw ''198.51.100.7'' boot_kernel) = Inr True) \<and>
   covers \<lparr>network_address = 0xC6336400, prefixlen = 24\<rparr> 0xC6336407"
proof
  show "fst (fw_is_allowed ref_os ref_fw ''198.51.100.7'' demo_allowed) =
    Inr (covers \<lparr>network_address = 0xC6336400, prefixlen = 24\<rparr> 0xC6336407 \<or>
      fst (fw_is_allowed ref_os ref_fw ''198.51.100.7'' boot_kernel) = Inr True)"
    by (rule allow_covers [OF ref_fw_laws boot_kernel_ok demo_parsed(1) demo_allow demo_parsed(2)])
qed code_simp

text \<open>
  C22. A block of one address that has returned is in force for exactly the given time: any
  later \<open>is_blocked\<close> of that address, as long as the blocklist is not changed, answers whether
  the clock, read during that call, is still before the deadline, which is the clock reading of
  the \<open>block\<close> call plus the duration in nanoseconds. Wider prefixes on the list play no role.
\<close>

theorem block_lasts:
  assumes "fw_kernel os is_map kind ksize vsize okw view pos fw" "okw w"
    and "parse_cidr ip = Inr \<lparr>network_address = a, prefixlen = 32\<rparr>"
    and "pyfloat_pos duration" "os_ktime os w = (t0, w0)"
    and "py_int_of_float (pyfloat_scale 1000000000 duration) = Inr d" "0 < t0 + d"
    and "fw_block os fw ip duration reason w = (Inr (), w1)" "okw w2" "view w2 = view w1"
    and "fw_is_blocked os fw ip w2 = (r, w3)"
  shows "\<exists>now w'. os_ktime os w' = (now, w3) \<and> r = Inr (now < t0 + d)"
  using fw_kernel.blocked_after_block [OF assms(1,2) _ assms(4-11)] assms(3) by (simp add: host_def)

definition demo_val :: bytes where
  "demo_val = le_bytes 8 6000000000 @ zeros 16"

definition demo_blocked_kernel :: kernel where
  "demo_blocked_kernel = ref_set 4 [([32, 0, 0, 0, 203, 0, 113, 42], demo_val)] (boot_kernel\<lparr>k_clock := 1000001000\<rparr>)"

lemma demo_ip:
  "parse_cidr ''203.0.113.42'' = Inr \<lparr>network_address = 0xCB00712A, prefixlen = 32\<rparr>"
  "lpm_key ''203.0.113.42'' = Inr [32, 0, 0, 0, 203, 0, 113, 42]"
  by code_simp+

lemma five_seconds: "py_int_of_float (pyfloat_scale 1000000000 (Fin 5)) = Inr 5000000000"
proof -
  have "fl 5000000000 = 5000000000" by (rule fl_numeral) simp
  moreover have "(5000000000 :: rat) \<le> max_double" by (simp add: max_double_def)
  ultimately show ?thesis by (simp add: Let_def trunc_rat_def max_double_def)
qed

lemma demo_pack: "pack_ints BLOCK_VAL [6000000000, 0, 0, 0] = Inr demo_val"
  by code_simp

lemma demo_block: "fw_block ref_os ref_fw ''203.0.113.42'' (Fin 5) 0 boot_kernel = (Inr (), demo_blocked_kernel)"
proof -
  let ?w = "boot_kernel\<lparr>k_clock := 1000001000\<rparr>"
  have "bpfmap_update ref_os (fw_blocklist ref_fw) [32, 0, 0, 0, 203, 0, 113, 42] demo_val BPF_ANY ?w =
      (Inr (), demo_blocked_kernel)"
    using ref_update_runs [OF ref_handles(2), of "[32, 0, 0, 0, 203, 0, 113, 42]" demo_val ?w] lpm_key_ok [OF demo_ip(2)]
    by (simp add: ref_fw_simps ref_decls boot_views MAX_BLOCKLIST_def dict_set_def demo_blocked_kernel_def
        demo_val_def zeros_def)
  moreover have "k_clock boot_kernel = 1000000000" "k_step boot_kernel = 1000" by (simp_all add: boot_kernel_def)
  ultimately show ?thesis
    by (simp add: fw_block_def ktime_ns_def io_simps five_seconds demo_ip demo_pack del: pyfloat_scale.simps)
qed

lemma demo_blocked_ok: "kernel_ok demo_blocked_kernel"
  using rf.block_run [OF boot_kernel_ok demo_block] by simp

theorem block_lasts_witness:
  "\<exists>now w'. os_ktime ref_os w' = (now, snd (fw_is_blocked ref_os ref_fw ''203.0.113.42'' demo_blocked_kernel)) \<and>
    fst (fw_is_blocked ref_os ref_fw ''203.0.113.42'' demo_blocked_kernel) = Inr (now < 1000000000 + 5000000000)"
  by (rule block_lasts [OF ref_fw_laws boot_kernel_ok demo_ip(1) _ _ five_seconds _ demo_block demo_blocked_ok refl])
    (simp_all add: boot_kernel_def)

text \<open>
  \<open>remove_expired_blocks\<close> deletes exactly the entries whose deadline is not zero and has
  been reached, keeps all others with their contents, touches no other map, and returns the
  number of deleted entries.
\<close>

theorem remove_expired_exact:
  assumes "fw_kernel os is_map kind ksize vsize okw view pos fw" "okw w" "os_ktime os w = (now, w0)"
    and "fw_remove_expired_blocks os fw w = (r, w')"
  shows "r = Inr (int (length (filter (\<lambda>e. 0 < deadline (snd e) \<and> deadline (snd e) \<le> now) (view w (bm_fd (fw_blocklist fw)))))) \<and>
    (\<forall>fd. view w' fd = view w fd \<or> fd = bm_fd (fw_blocklist fw)) \<and>
    map_of (view w' (bm_fd (fw_blocklist fw))) = (\<lambda>k. case map_of (view w (bm_fd (fw_blocklist fw))) k of
      None \<Rightarrow> None | Some v \<Rightarrow> if 0 < deadline v \<and> deadline v \<le> now then None else Some v)"
proof -
  have "in_force now v \<longleftrightarrow> \<not> (0 < deadline v \<and> deadline v \<le> now)" for v
    using le_int_range(1) [of "take 8 v"] by (auto simp: in_force_def deadline_def)
  then show ?thesis
    using fw_kernel.remove_expired_run [OF assms]
    by (auto simp: fun_eq_iff split: option.splits)
qed

theorem remove_expired_exact_witness:
  "fst (fw_remove_expired_blocks ref_os ref_fw demo_blocked_kernel) =
    Inr (int (length (filter (\<lambda>e. 0 < deadline (snd e) \<and> deadline (snd e) \<le> k_clock demo_blocked_kernel)
      (ref_view demo_blocked_kernel (bm_fd (fw_blocklist ref_fw)))))) \<and>
   (\<forall>fd. ref_view (snd (fw_remove_expired_blocks ref_os ref_fw demo_blocked_kernel)) fd = ref_view demo_blocked_kernel fd \<or>
     fd = bm_fd (fw_blocklist ref_fw)) \<and>
   map_of (ref_view (snd (fw_remove_expired_blocks ref_os ref_fw demo_blocked_kernel)) (bm_fd (fw_blocklist ref_fw))) =
     (\<lambda>k. case map_of (ref_view demo_blocked_kernel (bm_fd (fw_blocklist ref_fw))) k of
      None \<Rightarrow> None | Some v \<Rightarrow> if 0 < deadline v \<and> deadline v \<le> k_clock demo_blocked_kernel then None else Some v)"
  by (rule remove_expired_exact [OF ref_fw_laws demo_blocked_ok]) (rule ref_os_simps, rule prod.collapse [symmetric])

definition shadow_kernel :: kernel where
  "shadow_kernel = ref_set 4 [([24, 0, 0, 0, 10, 1, 2, 0], zeros 24),
     ([32, 0, 0, 0, 10, 1, 2, 3], le_bytes 8 999999999 @ zeros 16)] boot_kernel"

abbreviation wide_block :: "bytes \<times> bytes" where
  "wide_block \<equiv> ([24, 0, 0, 0, 10, 1, 2, 0], zeros 24)"

abbreviation old_block :: "bytes \<times> bytes" where
  "old_block \<equiv> ([32, 0, 0, 0, 10, 1, 2, 3], le_bytes 8 999999999 @ zeros 16)"

lemma shadow_facts:
  "kmap_find LPM_TRIE [wide_block, old_block] [32, 0, 0, 0, 10, 1, 2, 3] = Some (snd old_block)"
  "kmap_find LPM_TRIE [wide_block] [32, 0, 0, 0, 10, 1, 2, 3] = Some (snd wide_block)"
  "deadline (snd old_block) = 999999999" "deadline (snd wide_block) = 0"
  "lpm_key ''10.1.2.3'' = Inr [32, 0, 0, 0, 10, 1, 2, 3]"
  "covers (lpm_network (fst wide_block)) 0x0A010203"
  by code_simp+

lemma shadow_view: "ref_view shadow_kernel 4 = [wide_block, old_block]"
  unfolding shadow_kernel_def by (subst ref_view_set [OF boot_kernel_ok]) (simp_all add: ref_maps)

lemma shadow_ok: "kernel_ok shadow_kernel"
proof -
  have "decl_dict_ok (decl_of 4) [wide_block, old_block]"
    using lpm_key_ok [OF demo_key] lpm_key_ok [OF shadow_facts(5)]
    by (simp add: decl_dict_ok_def kdict_ok_def ref_decls MAX_BLOCKLIST_def) (simp add: zeros_def)
  then show ?thesis
    unfolding shadow_kernel_def by (intro ref_set_ok boot_kernel_ok) (simp_all add: ref_maps)
qed

lemma shadow_clock: "k_clock shadow_kernel = 1000000000"
  by (simp add: shadow_kernel_def ref_set_def boot_kernel_def)

lemma shadow_hides: "fst (fw_is_blocked ref_os ref_fw ''10.1.2.3'' shadow_kernel) = Inr False"
proof -
  have "ref_lookup 4 (Some [32, 0, 0, 0, 10, 1, 2, 3]) shadow_kernel = reply 0 0 (snd old_block)"
    by (simp add: ref_lookup_def ref_decls shadow_view shadow_facts)
  moreover have "expires_of (snd old_block) = Inr 999999999"
    using expires_of_deadline [of "snd old_block"] shadow_facts(3) by (simp add: zeros_def)
  ultimately show ?thesis
    by (simp add: fw_is_blocked_def shadow_facts(5) io_simps bpfmap_lookup_def bpf_elem_def bpf_def key_buffer_def
        ref_fw_simps ref_maps reply_def ktime_ns_def shadow_clock overlay_def zeros_def)
qed

lemma shadow_cleaned:
  "fst (fw_is_blocked ref_os ref_fw ''10.1.2.3'' (snd (fw_remove_expired_blocks ref_os ref_fw shadow_kernel))) = Inr True"
proof -
  let ?w = "snd (fw_remove_expired_blocks ref_os ref_fw shadow_kernel)"
  have kt: "os_ktime ref_os shadow_kernel = (1000000000, shadow_kernel\<lparr>k_clock := 1000000000 + k_step shadow_kernel\<rparr>)"
    by (simp add: shadow_clock)
  note run = rf.remove_expired_run [OF shadow_ok kt prod.collapse [symmetric]]
  have "in_force 1000000000 (snd wide_block)" "\<not> in_force 1000000000 (snd old_block)"
    by (simp_all only: in_force_def shadow_facts) simp_all
  then have "map_of (ref_view ?w 4) = map_of [wide_block]"
    using run by (auto simp: ref_fw_simps shadow_view fun_eq_iff)
  moreover have ok: "kdict_ok LPM_TRIE 8 24 (ref_view ?w 4)"
    using rf.block_ok run by (auto simp: ref_fw_simps)
  moreover have "kdict_ok LPM_TRIE 8 24 [wide_block]"
    using lpm_key_ok [OF demo_key] by (simp add: kdict_ok_def) (simp add: zeros_def)
  ultimately have "kmap_find LPM_TRIE (ref_view ?w 4) [32, 0, 0, 0, 10, 1, 2, 3] = Some (snd wide_block)"
    using kmap_find_cong shadow_facts(2) by metis
  with rf.is_blocked_run [OF _ shadow_facts(5) prod.collapse [symmetric], of ?w] run show ?thesis
    by (auto simp: ref_fw_simps in_force_def shadow_facts(4) [simplified])
qed

text \<open>
  A live block does not protect against an expired one: with a permanent block of
  10.1.2.0/24 and an entry for 10.1.2.3/32 whose deadline has passed, \<open>is_blocked\<close> answers no
  for 10.1.2.3, because the longest prefix decides and only then is its deadline compared. The
  address is blocked again once \<open>remove_expired_blocks\<close> has run.
\<close>

theorem expired_entry_shadows_block:
  "kernel_ok shadow_kernel \<and>
   list_ex (\<lambda>e. covers (lpm_network (fst e)) 0x0A010203 \<and> in_force (k_clock shadow_kernel) (snd e))
     (ref_view shadow_kernel (bm_fd (fw_blocklist ref_fw))) \<and>
   fst (fw_is_blocked ref_os ref_fw ''10.1.2.3'' shadow_kernel) = Inr False \<and>
   fst (fw_is_blocked ref_os ref_fw ''10.1.2.3''
     (snd (fw_remove_expired_blocks ref_os ref_fw shadow_kernel))) = Inr True"
  using shadow_ok shadow_hides shadow_cleaned shadow_facts(4,6)
  by (simp add: ref_fw_simps shadow_view in_force_def)

section \<open>Port rules, states, counters and settings\<close>

text \<open>
  After \<open>set_port_rule\<close> has returned, \<open>list_port_rules\<close> shows the rule, under the protocol
  and port given, with the action given and no hits, and every rule that was listed before
  under another protocol or port is still listed unchanged.
\<close>

theorem set_port_rule_listed:
  assumes "fw_kernel os is_map kind ksize vsize okw view pos fw" "okw w"
    and "fw_set_port_rule os fw proto port action w = (Inr (), w')"
    and "fst (fw_list_port_rules os fw w) = Inr rows"
  shows "\<exists>p rows'. parse_proto proto = Inr p \<and> fst (fw_list_port_rules os fw w') = Inr rows' \<and>
    set rows' \<supseteq> insert \<lparr>pr_proto = proto_name p, pr_port = port,
        pr_action = dict_get ACTIONS action (py_str_int action), pr_hits = 0\<rparr>
      {row \<in> set rows. pr_proto row \<noteq> proto_name p \<or> pr_port row \<noteq> port}"
  using fw_kernel.rule_listed [OF assms] .

definition demo_rule :: "bytes" where
  "demo_rule = concat (replicate 2 (port_bytes 1))"

lemma demo_set_rule:
  "fw_set_port_rule ref_os ref_fw ''udp'' 65001 1 boot_kernel = (Inr (), ref_set 5 [([17, 0, 0xE9, 0xFD], demo_rule)] boot_kernel)"
proof -
  have "port_key ''udp'' 65001 = Inr [17, 0, 0xE9, 0xFD]" by code_simp
  moreover have "length demo_rule = 32" by (simp add: demo_rule_def numeral_2_eq_2)
  ultimately show ?thesis
    using ref_update_runs [OF ref_handles(3), of "[17, 0, 0xE9, 0xFD]" demo_rule boot_kernel]
    by (simp add: fw_set_port_rule_def io_simps port_pack ref_fw_simps ref_decls boot_views MAX_PORT_RULES_def
        dict_set_def demo_rule_def key_ok_def)
qed

lemma demo_no_rules: "fst (fw_list_port_rules ref_os ref_fw boot_kernel) = Inr []"
  using rf.items_all [OF boot_kernel_ok ref_handles(3) prod.collapse [symmetric], of 0]
  by (simp add: fw_list_port_rules_def io_simps ref_fw_simps boot_views)

theorem set_port_rule_listed_witness:
  "\<exists>p rows'. parse_proto ''udp'' = Inr p \<and>
    fst (fw_list_port_rules ref_os ref_fw (ref_set 5 [([17, 0, 0xE9, 0xFD], demo_rule)] boot_kernel)) = Inr rows' \<and>
    set rows' \<supseteq> insert \<lparr>pr_proto = proto_name p, pr_port = 65001,
        pr_action = dict_get ACTIONS 1 (py_str_int 1), pr_hits = 0\<rparr>
      {row \<in> set []. pr_proto row \<noteq> proto_name p \<or> pr_port row \<noteq> 65001}"
  by (rule set_port_rule_listed [OF ref_fw_laws boot_kernel_ok demo_set_rule demo_no_rules])

text \<open>
  \<open>remove_idle_states\<close> deletes exactly the per-source entries last seen before the cutoff
  (the clock minus the idle time in nanoseconds), keeps all others with their contents, touches
  no other map, and returns the number of deleted entries.
\<close>

theorem remove_idle_exact:
  assumes "fw_kernel os is_map kind ksize vsize okw view pos fw" "okw w" "os_ktime os w = (now, w0)"
    and "py_int_of_float (pyfloat_scale 1000000000 idle_s) = Inr d"
    and "fw_remove_idle_states os fw idle_s w = (r, w')"
  shows "r = Inr (int (length (filter (\<lambda>e. ss_last_seen_ns (decode_state (snd e)) < now - d)
      (view w (bm_fd (fw_srcstate fw)))))) \<and>
    (\<forall>fd. view w' fd = view w fd \<or> fd = bm_fd (fw_srcstate fw)) \<and>
    map_of (view w' (bm_fd (fw_srcstate fw))) = (\<lambda>k. case map_of (view w (bm_fd (fw_srcstate fw))) k of
      None \<Rightarrow> None | Some v \<Rightarrow> if ss_last_seen_ns (decode_state v) < now - d then None else Some v)"
  using fw_kernel.remove_idle_run [OF assms]
  by (auto simp: idle_def [abs_def] fun_eq_iff split: option.splits)

definition demo_states :: kernel where
  "demo_states = ref_set 6 [([10, 0, 0, 1], zeros 104)] (boot_kernel\<lparr>k_clock := 100000000000\<rparr>)"

lemma demo_states_ok: "kernel_ok demo_states"
  unfolding demo_states_def
  by (rule ref_set_ok)
    (simp_all add: boot_kernel_ok ref_maps ref_decls decl_dict_ok_def kdict_ok_def key_ok_def C_MAX_TRACKED_def zeros_def)

theorem remove_idle_exact_witness:
  "fst (fw_remove_idle_states ref_os ref_fw (Fin 5) demo_states) =
     Inr (int (length (filter (\<lambda>e. ss_last_seen_ns (decode_state (snd e)) < k_clock demo_states - 5000000000)
      (ref_view demo_states (bm_fd (fw_srcstate ref_fw)))))) \<and>
   (\<forall>fd. ref_view (snd (fw_remove_idle_states ref_os ref_fw (Fin 5) demo_states)) fd = ref_view demo_states fd \<or>
     fd = bm_fd (fw_srcstate ref_fw)) \<and>
   map_of (ref_view (snd (fw_remove_idle_states ref_os ref_fw (Fin 5) demo_states)) (bm_fd (fw_srcstate ref_fw))) =
     (\<lambda>k. case map_of (ref_view demo_states (bm_fd (fw_srcstate ref_fw))) k of
      None \<Rightarrow> None | Some v \<Rightarrow> if ss_last_seen_ns (decode_state v) < k_clock demo_states - 5000000000 then None else Some v)"
  by (rule remove_idle_exact [OF ref_fw_laws demo_states_ok _ five_seconds])
    (rule ref_os_simps, rule prod.collapse [symmetric])

text \<open>
  \<open>read_stats\<close> returns every counter under its name as the sum of its per-CPU copies,
  \<open>drops_total\<close> as the sum of the seven drop counters and \<open>passes_total\<close> as the sum of the
  four pass counters. It changes no map.
\<close>

theorem read_stats_totals:
  assumes "fw_kernel os is_map kind ksize vsize okw view pos fw" "okw w" "fw_read_stats os fw w = (r, w')"
    and "c = (\<lambda>i. case map_of (view w (bm_fd (fw_stats fw))) (le_bytes 4 i) of
      None \<Rightarrow> 0 | Some v \<Rightarrow> slots_total (bm_ncpu (fw_stats fw)) v)"
  shows "view w' = view w \<and> r = Inr [
    (''rx_packets'', c 0), (''rx_bytes'', c 1),
    (''pass_allowlist'', c 2), (''pass_rule'', c 3), (''pass_default'', c 4), (''pass_non_ipv4'', c 5),
    (''drop_blocklist'', c 6), (''drop_port_rule'', c 7), (''drop_default'', c 8), (''drop_proto'', c 9),
    (''drop_ratelimit'', c 10), (''drop_malformed'', c 11), (''drop_fragment'', c 12),
    (''state_full'', c 13),
    (''drops_total'', c 6 + c 7 + c 8 + c 9 + c 10 + c 11 + c 12),
    (''passes_total'', c 2 + c 3 + c 4 + c 5)]"
  using fw_kernel.read_stats_run [OF assms(1-3)]
  by (auto simp: fw_kernel.counters_def [OF assms(1)] fw_kernel.counter_def [OF assms(1)] assms(4)
      py_enumerate_def STAT_NAMES_def total_of_def starts_with_def algebra_simps)

theorem read_stats_totals_witness:
  "let c = (\<lambda>i. case map_of (ref_view boot_kernel (bm_fd (fw_stats ref_fw))) (le_bytes 4 i) of
      None \<Rightarrow> 0 | Some v \<Rightarrow> slots_total (bm_ncpu (fw_stats ref_fw)) v) in
   ref_view (snd (fw_read_stats ref_os ref_fw boot_kernel)) = ref_view boot_kernel \<and>
   fst (fw_read_stats ref_os ref_fw boot_kernel) = Inr [
    (''rx_packets'', c 0), (''rx_bytes'', c 1),
    (''pass_allowlist'', c 2), (''pass_rule'', c 3), (''pass_default'', c 4), (''pass_non_ipv4'', c 5),
    (''drop_blocklist'', c 6), (''drop_port_rule'', c 7), (''drop_default'', c 8), (''drop_proto'', c 9),
    (''drop_ratelimit'', c 10), (''drop_malformed'', c 11), (''drop_fragment'', c 12),
    (''state_full'', c 13),
    (''drops_total'', c 6 + c 7 + c 8 + c 9 + c 10 + c 11 + c 12),
    (''passes_total'', c 2 + c 3 + c 4 + c 5)]"
  unfolding Let_def by (rule read_stats_totals [OF ref_fw_laws boot_kernel_ok prod.collapse [symmetric] refl])

text \<open>
  C23. \<open>update_config\<close> reads the five settings, replaces those named and writes all five back.
  It raises \<open>ValueError\<close> when a name is unknown and \<open>struct.error\<close> when a value does not fit its
  field (64 bits for the rate and the burst, 32 for the others), and then writes nothing;
  otherwise it returns the new settings, a \<open>read_config\<close> right after it returns the same, and no
  other map changes.
\<close>

theorem update_config_exact:
  assumes "fw_kernel os is_map kind ksize vsize okw view pos fw" "okw w" "distinct (map fst changes)"
    and "fst (fw_read_config os fw w) = Inr cfg" "fw_update_config os fw changes w = (r, w1)"
  shows "map fst cfg = CONFIG_FIELDS \<and> (\<forall>fd. view w1 fd = view w fd \<or> fd = bm_fd (fw_config fw)) \<and>
    (if \<not> list_all (\<lambda>(k, v). List.member CONFIG_FIELDS k) changes then r = Inl ValueError \<and> view w1 = view w
     else let new = map (\<lambda>k. (k, dict_get changes k (dict_get cfg k 0))) CONFIG_FIELDS in
       if config_fits (map snd new) then r = Inr new \<and> fst (fw_read_config os fw w1) = Inr new
       else r = Inl StructError \<and> view w1 = view w)"
  using fw_kernel.update_config_spec [OF assms] .

lemma boot_settings: "fst (fw_read_config ref_os ref_fw boot_kernel) =
  Inr [(''rate_pps'', 20000), (''burst_pkts'', 40000), (''features'', 95), (''aggressiveness'', 0), (''default_policy'', 0)]"
proof -
  have "config_ints boot_config = [20000, 40000, 95, 0, 0, 0]" by code_simp
  then show ?thesis
    using rf.read_config_run [OF boot_kernel_ok prod.collapse [symmetric]]
    by (simp add: rf.settings_def ref_fw_simps boot_views CONFIG_FIELDS_def)
qed

definition demo_new :: "(string, int) dict" where
  "demo_new = [(''rate_pps'', 1000), (''burst_pkts'', 40000), (''features'', 95), (''aggressiveness'', 0), (''default_policy'', 0)]"

theorem update_config_exact_witness:
  "fst (fw_update_config ref_os ref_fw [(''rate_pps'', 1000)] boot_kernel) = Inr demo_new \<and>
   fst (fw_read_config ref_os ref_fw (snd (fw_update_config ref_os ref_fw [(''rate_pps'', 1000)] boot_kernel))) = Inr demo_new"
  using update_config_exact [OF ref_fw_laws boot_kernel_ok _ boot_settings prod.collapse [symmetric], of "[(''rate_pps'', 1000)]"]
  by (simp add: CONFIG_FIELDS_def demo_new_def config_fits_def dict_get_def Let_def)

end
