(* ===== verification/Xdp_Props.thy ===== *)
theory Xdp_Props
  imports Xdp Firewall_Props
begin

text \<open>
  Properties of the data plane, and of the two planes together: what the control plane writes
  into a map is what the data plane acts on. The lemmas say how each stage changes the maps; the
  properties are about one run of the whole program on an arbitrary packet.
\<close>

section \<open>Words in bytes\<close>

lemma le_int_take8: "length v \<le> 8 \<Longrightarrow> le_int v < 2 ^ 64"
  using le_int_range(2) [of v] power_increasing [of "length v" 8 "256 :: int"] by simp

lemma length_put64 [simp]: "off + 8 \<le> length v \<Longrightarrow> length (put64 off x v) = length v"
  by (simp add: put64_def)

lemma length_add64 [simp]: "off + 8 \<le> length v \<Longrightarrow> length (add64 off x v) = length v"
  by (simp add: add64_def)

lemma uint_get64: "uint (get64 off v) = le_int (take 8 (drop off v))"
  using le_int_range(1) [of "take 8 (drop off v)"] le_int_take8 [of "take 8 (drop off v)"]
  by (simp add: get64_def uint_word_of_int)

lemma get64_put64 [simp]: "off + 8 \<le> length v \<Longrightarrow> get64 off (put64 off x v) = x"
  using le_int_le_bytes [of "uint x" 8] uint_lt2p [of x]
  by (simp add: get64_def put64_def)

lemma take_drop_put64:
  assumes "off + 8 \<le> length v" "o' + 8 \<le> off \<or> off + 8 \<le> o'"
  shows "take 8 (drop o' (put64 off x v)) = take 8 (drop o' v)"
proof (rule nth_equalityI)
  fix i assume i: "i < length (take 8 (drop o' (put64 off x v)))"
  then have j: "i < 8" "o' + i < length v" using assms by auto
  then have "o' + i < off \<or> off + 8 \<le> o' + i" using assms(2) by auto
  then have "put64 off x v ! (o' + i) = v ! (o' + i)"
    unfolding put64_def using assms(1) j by (auto simp: nth_append)
  with j assms(1) show "take 8 (drop o' (put64 off x v)) ! i = take 8 (drop o' v) ! i" by simp
qed (use assms in simp)

lemma get64_put64_other:
  "off + 8 \<le> length v \<Longrightarrow> o' + 8 \<le> off \<or> off + 8 \<le> o' \<Longrightarrow> get64 o' (put64 off x v) = get64 o' v"
  by (simp add: get64_def take_drop_put64)

lemma get64_add64:
  "off + 8 \<le> length v \<Longrightarrow> o' = off \<or> o' + 8 \<le> off \<or> off + 8 \<le> o' \<Longrightarrow>
    get64 o' (add64 off x v) = get64 o' v + (if o' = off then x else 0)"
  by (auto simp: add64_def get64_put64_other)

section \<open>Writes through a pointer\<close>

lemma fd_maps: "ref_is_map FD_ALLOWLIST" "ref_is_map FD_BLOCKLIST" "ref_is_map FD_PORTRULES"
  "ref_is_map FD_SRCSTATE" "ref_is_map FD_STATS" "ref_is_map FD_CONFIG"
  by (simp_all add: ref_maps fds)

text \<open>What a lookup returns is an entry of the map.\<close>

lemma lookup_entry_mem:
  assumes "kernel_ok w" "ref_is_map fd" "lookup_entry fd k w = Some (e, v)"
  shows "map_of (ref_view w fd) e = Some v \<and> key_ok (md_kind (decl_of fd)) (md_ksize (decl_of fd)) e \<and>
    length v = md_vsize (decl_of fd)"
proof -
  have ok: "kdict_ok (md_kind (decl_of fd)) (md_ksize (decl_of fd)) (md_vsize (decl_of fd)) (ref_view w fd)"
    using ref_view_ok [OF assms(1,2)] by (simp add: decl_dict_ok_def)
  have "(e, v) \<in> set (ref_view w fd)"
    using assms(3) lpm_longest_Some [of _ "(e, v)"]
    by (fastforce simp: lookup_entry_def split: if_splits dest: map_of_SomeD)
  with ok show ?thesis by (auto simp: kdict_ok_def list_all_iff)
qed

lemma write_entry_ok:
  assumes "kernel_ok w" "ref_is_map fd" "map_of (ref_view w fd) e = Some v"
    and "key_ok (md_kind (decl_of fd)) (md_ksize (decl_of fd)) e" "length v' = md_vsize (decl_of fd)"
  shows "kernel_ok (write_entry fd e v' w)"
  unfolding write_entry_def
  using assms by (intro ref_set_ok decl_dict_ok_set ref_view_ok) simp_all

lemma write_entry_view:
  "kernel_ok w \<Longrightarrow> ref_is_map fd \<Longrightarrow>
    ref_view (write_entry fd e v w) fd' = (if fd' = fd then dict_set e v (ref_view w fd) else ref_view w fd')"
  by (simp add: write_entry_def ref_view_set)

text \<open>A hit counter: the entry found, with eight of its bytes replaced.\<close>

lemma hit_ok:
  assumes "kernel_ok w" "ref_is_map fd" "lookup_entry fd k w = Some (e, v)" "off + 8 \<le> md_vsize (decl_of fd)"
  shows "kernel_ok (write_entry fd e (add64 off x v) w)"
  using lookup_entry_mem [OF assms(1-3)] assms(4) by (intro write_entry_ok [OF assms(1,2)]) auto

section \<open>Counters\<close>

definition count_of :: "kernel \<Rightarrow> nat \<Rightarrow> stat \<Rightarrow> 64 word" where
  "count_of w cpu s =
     (case map_of (ref_view w FD_STATS) (stat_key s) of None \<Rightarrow> 0 | Some v \<Rightarrow> get64 (8 * cpu) v)"

lemma stat_index_less: "stat_index s < STAT_MAX"
  by (cases s) (simp_all add: STAT_MAX_def c_stat_index_def)

lemma stat_index_inj: "stat_index s = stat_index t \<longleftrightarrow> s = t"
  by (cases s; cases t) simp_all

lemma stat_key_inj: "stat_key s = stat_key t \<longleftrightarrow> s = t"
proof -
  have "int (stat_index s) < 256 ^ 4" for s
    using stat_index_less [of s] by (simp add: STAT_MAX_def c_stat_index_def)
  then show ?thesis by (simp add: stat_key_def le_bytes_inj stat_index_inj)
qed

lemma stats_entry:
  assumes "kernel_ok w"
  shows "\<exists>v. map_of (ref_view w FD_STATS) (stat_key s) = Some v \<and> length v = 8 * REF_CPUS"
proof -
  have ok: "decl_dict_ok (decl_of 7) (ref_view w FD_STATS)"
    using ref_view_ok [OF assms fd_maps(5)] by (simp add: fds)
  then have "fst ` set (ref_view w FD_STATS) = (\<lambda>i. le_bytes 4 (int i)) ` {0..<STAT_MAX}"
    by (metis (no_types, lifting) decl_dict_ok_def ref_decls(5) map_decl.select_convs(2,5) atLeastLessThan_upt set_map)
  then have "stat_key s \<in> fst ` set (ref_view w FD_STATS)" using stat_index_less [of s] by (auto simp: stat_key_def)
  then obtain v where v: "map_of (ref_view w FD_STATS) (stat_key s) = Some v"
    by (metis map_of_eq_None_iff not_None_eq)
  moreover have "length v = 16"
    using ok kdict_okD [of ARRAY 4 16 "ref_view w FD_STATS"] map_of_SomeD [OF v]
    by (auto simp: decl_dict_ok_def ref_decls)
  ultimately show ?thesis by (simp add: REF_CPUS_def)
qed

lemma stat_add_run:
  assumes "kernel_ok w" "cpu < REF_CPUS"
  shows "kernel_ok (stat_add cpu s n w)"
    and "fd \<noteq> FD_STATS \<Longrightarrow> ref_view (stat_add cpu s n w) fd = ref_view w fd"
    and "count_of (stat_add cpu s n w) c t = count_of w c t + (if c = cpu \<and> t = s then n else 0)"
proof -
  obtain v where v: "map_of (ref_view w FD_STATS) (stat_key s) = Some v" "length v = 8 * REF_CPUS"
    using stats_entry [OF assms(1)] by blast
  have kd: "md_kind (decl_of FD_STATS) = ARRAY" "md_ksize (decl_of FD_STATS) = 4" "md_vsize (decl_of FD_STATS) = 16"
    by (simp_all add: fds ref_decls)
  have run: "stat_add cpu s n w = write_entry FD_STATS (stat_key s) (add64 (8 * cpu) n v) w"
    using v by (simp add: stat_add_def lookup_entry_def kd)
  have off: "8 * cpu + 8 \<le> length v" using assms(2) v(2) by simp
  show "kernel_ok (stat_add cpu s n w)"
    unfolding run using v off
    by (intro write_entry_ok [OF assms(1) fd_maps(5)]) (simp_all add: kd key_ok_def stat_key_def REF_CPUS_def)
  show "fd \<noteq> FD_STATS \<Longrightarrow> ref_view (stat_add cpu s n w) fd = ref_view w fd"
    unfolding run by (simp add: write_entry_view [OF assms(1) fd_maps(5)])
  have "get64 (8 * c) (add64 (8 * cpu) n v) = get64 (8 * c) v + (if c = cpu then n else 0)"
    using get64_add64 [OF off, of "8 * c" n] by (cases "c = cpu") (auto simp: nat_neq_iff)
  then show "count_of (stat_add cpu s n w) c t = count_of w c t + (if c = cpu \<and> t = s then n else 0)"
    unfolding run count_of_def using v
    by (auto simp: write_entry_view [OF assms(1) fd_maps(5)] stat_key_inj)
qed

lemmas stat_inc_run = stat_add_run [where n = 1, folded stat_inc_def]

lemma count_of_other: "ref_view w' FD_STATS = ref_view w FD_STATS \<Longrightarrow> count_of w' = count_of w"
  by (simp add: count_of_def fun_eq_iff)

section \<open>Every packet is counted once\<close>

text \<open>The verdict that a counter stands for; the counters of traffic and of a full table stand for none.\<close>

fun verdict_of :: "stat \<Rightarrow> xdp_action option" where
  "verdict_of STAT_PASS_ALLOWLIST = Some XDP_PASS"
| "verdict_of STAT_PASS_RULE = Some XDP_PASS"
| "verdict_of STAT_PASS_DEFAULT = Some XDP_PASS"
| "verdict_of STAT_PASS_NON_IPV4 = Some XDP_PASS"
| "verdict_of STAT_DROP_BLOCKLIST = Some XDP_DROP"
| "verdict_of STAT_DROP_PORT_RULE = Some XDP_DROP"
| "verdict_of STAT_DROP_DEFAULT = Some XDP_DROP"
| "verdict_of STAT_DROP_PROTO = Some XDP_DROP"
| "verdict_of STAT_DROP_RATELIMIT = Some XDP_DROP"
| "verdict_of STAT_DROP_MALFORMED = Some XDP_DROP"
| "verdict_of STAT_DROP_FRAGMENT = Some XDP_DROP"
| "verdict_of _ = None"

text \<open>From \<open>w\<close> to \<open>w'\<close>, one CPU counted one verdict; only the named maps and the counters changed.\<close>

definition counted :: "int set \<Rightarrow> nat \<Rightarrow> xdp_action \<Rightarrow> stat \<Rightarrow> kernel \<Rightarrow> kernel \<Rightarrow> bool" where
  "counted fs cpu verdict r w w' \<longleftrightarrow> kernel_ok w' \<and> verdict_of r = Some verdict \<and>
     (\<forall>fd. fd \<notin> insert FD_STATS fs \<longrightarrow> ref_view w' fd = ref_view w fd) \<and>
     (\<exists>full. \<forall>c s. count_of w' c s =
       count_of w c s + (if c = cpu then of_bool (s = r) + of_bool (full \<and> s = STAT_STATE_FULL) else 0))"

lemma counted_inc:
  assumes "kernel_ok w" "cpu < REF_CPUS" "verdict_of r = Some verdict"
  shows "counted {} cpu verdict r w (stat_inc cpu r w)"
  using stat_inc_run [OF assms(1,2)] assms(3)
  unfolding counted_def by (auto intro!: exI [of _ False])

lemma counted_full:
  assumes "kernel_ok w" "cpu < REF_CPUS" "verdict_of r = Some verdict"
  shows "counted {} cpu verdict r w (stat_inc cpu r (stat_inc cpu STAT_STATE_FULL w))"
  using stat_inc_run [OF assms(1,2)] stat_inc_run [OF stat_inc_run(1) [OF assms(1,2)] assms(2)] assms(3)
  unfolding counted_def by (auto intro!: exI [of _ True])

text \<open>A step before the counting that changes other maps only.\<close>

lemma counted_after:
  assumes "counted fs cpu verdict r w1 w'" "ref_view w1 FD_STATS = ref_view w FD_STATS"
    and "\<And>fd. fd \<notin> fs' \<Longrightarrow> ref_view w1 fd = ref_view w fd" "fs \<union> fs' \<subseteq> gs"
  shows "counted gs cpu verdict r w w'"
proof -
  have "count_of w1 = count_of w" by (rule count_of_other [OF assms(2)])
  moreover have "\<forall>fd. fd \<notin> insert FD_STATS gs \<longrightarrow> ref_view w' fd = ref_view w fd"
    using assms(1,3,4) unfolding counted_def by (metis UnI1 UnI2 insert_iff subsetD)
  ultimately show ?thesis using assms(1) unfolding counted_def by simp
qed

section \<open>Per-source state\<close>

lemmas offsets = OFF_TOKENS_def OFF_LAST_REFILL_def OFF_LAST_SEEN_def OFF_PACKETS_def OFF_BYTES_def OFF_DROPPED_def
  OFF_SYN_def OFF_FIN_def OFF_RST_def OFF_UDP_def OFF_ICMP_def OFF_PORT_BITMAP_def

lemma length_fresh_state [simp]: "length (fresh_state now burst) = 104"
  by (simp add: fresh_state_def offsets zeros_def)

lemma length_count_packet [simp]: "length st = 104 \<Longrightarrow> length (count_packet now len proto l4 st) = 104"
  by (simp add: count_packet_def Let_def offsets)

lemma limit_packet_ok:
  assumes "limit_packet now cfg verdict reason st = (v, r, st')" "length st = 104" "verdict_of reason = Some verdict"
  shows "length st' = 104 \<and> verdict_of r = Some v \<and> (verdict = XDP_DROP \<longrightarrow> v = XDP_DROP \<and> r = reason) \<and>
    (v = XDP_PASS \<longrightarrow> r = reason) \<and> (r = reason \<or> r = STAT_DROP_RATELIMIT)"
  using assms
  by (auto simp: limit_packet_def Let_def offsets split: if_splits prod.splits)

text \<open>The table after the insertion of a new source.\<close>

definition tracked :: "64 word \<Rightarrow> c_config \<Rightarrow> bytes \<Rightarrow> kernel \<Rightarrow> kernel" where
  "tracked now cfg saddr w =
     (case map_of (ref_view w FD_SRCSTATE) saddr of
        Some _ \<Rightarrow> w
      | None \<Rightarrow> snd (ref_update FD_SRCSTATE (Some saddr) (fresh_state now (cfg_burst cfg)) w))"

lemma tracked_run:
  assumes "kernel_ok w"
  shows "kernel_ok (tracked now cfg saddr w)" "fd \<noteq> FD_SRCSTATE \<Longrightarrow> ref_view (tracked now cfg saddr w) fd = ref_view w fd"
proof -
  show "kernel_ok (tracked now cfg saddr w)"
    using assms by (auto simp: tracked_def ref_update_ok fd_maps split: option.splits)
  show "fd \<noteq> FD_SRCSTATE \<Longrightarrow> ref_view (tracked now cfg saddr w) fd = ref_view w fd"
    using ref_update_law [OF assms fd_maps(4) prod.collapse [symmetric]]
    by (auto simp: tracked_def split: option.splits)
qed

lemma state_stage_run:
  assumes "kernel_ok w" "cpu < REF_CPUS" "verdict_of reason = Some verdict"
    and "state_stage cpu now cfg len ip l4 verdict reason w = (v, w')"
  shows "\<exists>r. counted {FD_SRCSTATE} cpu v r w w' \<and> (verdict = XDP_DROP \<longrightarrow> r = reason) \<and>
    (r = reason \<or> r = STAT_DROP_RATELIMIT)"
proof -
  let ?w1 = "tracked now cfg (ip_saddr ip) w"
  note w1 = tracked_run [OF assms(1), where now = now and cfg = cfg and saddr = "ip_saddr ip"]
  have other: "ref_view ?w1 FD_STATS = ref_view w FD_STATS" by (rule w1(2)) (simp add: fds)
  consider "\<not> feat cfg FEAT_TRACK_STATE"
    | "feat cfg FEAT_TRACK_STATE" "map_of (ref_view ?w1 FD_SRCSTATE) (ip_saddr ip) = None"
    | st where "feat cfg FEAT_TRACK_STATE" "map_of (ref_view ?w1 FD_SRCSTATE) (ip_saddr ip) = Some st"
    by fastforce
  then show ?thesis
  proof cases
    case 1
    with assms(4) counted_inc [OF assms(1-3)] show ?thesis
      by (auto simp: state_stage_def intro: counted_after [where fs = "{}" and fs' = "{}"])
  next
    case 2
    with assms(4) have "v = verdict" "w' = stat_inc cpu reason (stat_inc cpu STAT_STATE_FULL ?w1)"
      by (simp_all add: state_stage_def tracked_def [symmetric] Let_def)
    with counted_after [OF counted_full [OF w1(1) assms(2,3)] other w1(2)] show ?thesis by auto
  next
    case (3 st)
    have kd: "md_kind (decl_of FD_SRCSTATE) = HASH" "md_ksize (decl_of FD_SRCSTATE) = 4" "md_vsize (decl_of FD_SRCSTATE) = 104"
      by (simp_all add: fds ref_decls)
    have "kdict_ok HASH 4 104 (ref_view ?w1 FD_SRCSTATE)"
      using ref_view_ok [OF w1(1) fd_maps(4)] by (simp add: decl_dict_ok_def kd)
    from kdict_okD [OF this map_of_SomeD [OF 3(2)]] have len: "length (ip_saddr ip) = 4" "length st = 104" by auto
    obtain r st' where l: "limit_packet now cfg verdict reason (count_packet now len (ip_proto ip) l4 st) = (v, r, st')"
      and w': "w' = stat_inc cpu r (write_entry FD_SRCSTATE (ip_saddr ip) st' ?w1)"
      using assms(4) 3 by (auto simp: state_stage_def tracked_def [symmetric] Let_def split: prod.splits)
    note ok = limit_packet_ok [OF l _ assms(3)]
    let ?w2 = "write_entry FD_SRCSTATE (ip_saddr ip) st' ?w1"
    have "kernel_ok ?w2"
      using ok len 3(2) by (intro write_entry_ok [OF w1(1) fd_maps(4)]) (simp_all add: kd key_ok_def)
    then have "counted {} cpu v r ?w2 w'" unfolding w' using ok len by (intro counted_inc [OF _ assms(2)]) simp_all
    moreover have rest: "ref_view ?w2 fd = ref_view w fd" if "fd \<notin> {FD_SRCSTATE}" for fd
      using that w1(2) by (simp add: write_entry_view [OF w1(1) fd_maps(4)])
    then have "ref_view ?w2 FD_STATS = ref_view w FD_STATS" by (simp add: fds)
    ultimately have "counted {FD_SRCSTATE} cpu v r w w'"
      by (rule counted_after) (rule rest, assumption, simp)
    moreover have "length (count_packet now len (ip_proto ip) l4 st) = 104" using len by simp
    ultimately show ?thesis using ok by blast
  qed
qed

section \<open>The stages\<close>

lemma rule_stage_run:
  assumes "kernel_ok w" "cpu < REF_CPUS" "rule_stage cpu cfg proto l4 w = (v, r, w')"
  shows "kernel_ok w' \<and> verdict_of r = Some v \<and> r \<in> {STAT_DROP_PROTO, STAT_DROP_PORT_RULE, STAT_PASS_RULE,
      STAT_DROP_DEFAULT, STAT_PASS_DEFAULT} \<and> (\<forall>fd. fd \<notin> {FD_PORTRULES} \<longrightarrow> ref_view w' fd = ref_view w fd)"
proof (cases "\<exists>k val. lookup_entry FD_PORTRULES (port_bytes_key proto (l4_rule_port l4)) w = Some (k, val) \<and>
    w' = write_entry FD_PORTRULES k (add64 (16 * cpu) 1 val) w")
  case True
  then obtain k val where l: "lookup_entry FD_PORTRULES (port_bytes_key proto (l4_rule_port l4)) w = Some (k, val)"
    and w': "w' = write_entry FD_PORTRULES k (add64 (16 * cpu) 1 val) w" by blast
  have "kernel_ok w'"
    unfolding w' using assms(2) by (intro hit_ok [OF assms(1) fd_maps(3) l]) (simp add: fds ref_decls REF_CPUS_def)
  with assms(3) show ?thesis
    by (auto simp: rule_stage_def Let_def l w' write_entry_view [OF assms(1) fd_maps(3)] split: if_splits)
next
  case False
  with assms show ?thesis by (auto simp: rule_stage_def Let_def split: if_splits option.splits prod.splits)
qed

lemma frag_stage_run:
  "frag_stage cfg = (v, r) \<Longrightarrow> verdict_of r = Some v \<and> r \<in> {STAT_DROP_FRAGMENT, STAT_DROP_DEFAULT, STAT_PASS_DEFAULT}"
  by (auto simp: frag_stage_def split: if_splits)

abbreviation list_stat :: "stat \<Rightarrow> bool" where
  "list_stat r \<equiv> r = STAT_PASS_ALLOWLIST \<or> r = STAT_DROP_BLOCKLIST"

lemma l4_stages_run:
  assumes "kernel_ok w" "cpu < REF_CPUS" "l4_stages cpu now cfg p ip w = (v, w')"
  shows "\<exists>r. counted {FD_SRCSTATE, FD_PORTRULES} cpu v r w w' \<and> \<not> list_stat r"
proof (cases "parse_l4 p ip")
  case None
  with assms(3) have r: "v = XDP_DROP" "w' = stat_inc cpu STAT_DROP_MALFORMED w" by (auto simp: l4_stages_def)
  have "counted {FD_SRCSTATE, FD_PORTRULES} cpu v STAT_DROP_MALFORMED w w'"
    unfolding r by (rule counted_after [OF counted_inc [OF assms(1,2)] refl refl, of _ _ "{}"]) simp_all
  then show ?thesis by blast
next
  case (Some l4)
  define w1 where "w1 = (if ip_frag ip then w else snd (snd (rule_stage cpu cfg (ip_proto ip) l4 w)))"
  define vr where "vr = (if ip_frag ip then frag_stage cfg
    else (fst (rule_stage cpu cfg (ip_proto ip) l4 w), fst (snd (rule_stage cpu cfg (ip_proto ip) l4 w))))"
  have run: "state_stage cpu now cfg (length p) ip l4 (fst vr) (snd vr) w1 = (v, w')"
    using assms(3) Some by (auto simp: l4_stages_def w1_def vr_def split: prod.splits if_splits)
  obtain v1 r1 w2 where rs: "rule_stage cpu cfg (ip_proto ip) l4 w = (v1, r1, w2)" by (rule prod_cases3)
  note rule = rule_stage_run [OF assms(1,2) rs] frag_stage_run [of cfg "fst (frag_stage cfg)" "snd (frag_stage cfg)"]
  have ok: "kernel_ok w1" "verdict_of (snd vr) = Some (fst vr)" "\<not> list_stat (snd vr)"
    and same: "\<And>fd. fd \<notin> {FD_PORTRULES} \<Longrightarrow> ref_view w1 fd = ref_view w fd"
    using rule assms(1) by (auto simp: w1_def vr_def rs)
  from state_stage_run [OF ok(1) assms(2) ok(2) run] obtain r where
    r: "counted {FD_SRCSTATE} cpu v r w1 w'" "r = snd vr \<or> r = STAT_DROP_RATELIMIT" by blast
  have "ref_view w1 FD_STATS = ref_view w FD_STATS" by (rule same) (simp add: fds)
  from counted_after [OF r(1) this same, of "{FD_PORTRULES}" "{FD_SRCSTATE, FD_PORTRULES}"] r(2) ok(3) show ?thesis
    by (intro exI [of _ r]) auto
qed

text \<open>A hit in one of the source lists.\<close>

lemma counted_hit:
  assumes "kernel_ok w" "cpu < REF_CPUS" "ref_is_map fd" "fd \<noteq> FD_STATS" "lookup_entry fd k w = Some (e, val)"
    and "off + 8 \<le> md_vsize (decl_of fd)" "verdict_of r = Some v" "fd \<in> gs"
  shows "counted gs cpu v r w (stat_inc cpu r (write_entry fd e (add64 off x val) w))"
proof (rule counted_after)
  show "counted {} cpu v r (write_entry fd e (add64 off x val) w) (stat_inc cpu r (write_entry fd e (add64 off x val) w))"
    using assms(7) by (intro counted_inc [OF _ assms(2)] hit_ok [OF assms(1,3,5,6)])
qed (use assms in \<open>auto simp: write_entry_view [OF assms(1,3)]\<close>)

definition live_block :: "64 word \<Rightarrow> c_config \<Rightarrow> bytes \<Rightarrow> kernel \<Rightarrow> bool" where
  "live_block now cfg saddr w \<longleftrightarrow> feat cfg FEAT_BLOCKLIST \<and>
     (case lookup_entry FD_BLOCKLIST (host_key saddr) w of None \<Rightarrow> False | Some (k, v) \<Rightarrow> get64 0 v = 0 \<or> get64 0 v > now)"

definition allowed_source :: "c_config \<Rightarrow> bytes \<Rightarrow> kernel \<Rightarrow> bool" where
  "allowed_source cfg saddr w \<longleftrightarrow> feat cfg FEAT_ALLOWLIST \<and> lookup_entry FD_ALLOWLIST (host_key saddr) w \<noteq> None"

lemma source_stages_not_allowed:
  "\<not> allowed_source cfg (ip_saddr ip) w \<Longrightarrow> source_stages cpu now cfg p ip w = blocklist_stage cpu now cfg p ip w"
  by (cases "feat cfg FEAT_ALLOWLIST"; cases "lookup_entry FD_ALLOWLIST (host_key (ip_saddr ip)) w")
    (simp_all add: source_stages_def allowed_source_def)

lemma blocklist_stage_not_live:
  "\<not> live_block now cfg (ip_saddr ip) w \<Longrightarrow> blocklist_stage cpu now cfg p ip w = l4_stages cpu now cfg p ip w"
  by (cases "lookup_entry FD_BLOCKLIST (host_key (ip_saddr ip)) w")
    (auto simp: blocklist_stage_def live_block_def split: prod.splits)

text \<open>The maps a packet may change, besides the counters.\<close>

definition writable :: "64 word \<Rightarrow> c_config \<Rightarrow> bytes \<Rightarrow> kernel \<Rightarrow> int set" where
  "writable now cfg saddr w =
     (if allowed_source cfg saddr w then {FD_ALLOWLIST} else if live_block now cfg saddr w then {FD_BLOCKLIST}
      else {FD_SRCSTATE, FD_PORTRULES})"

lemma source_stages_run:
  assumes "kernel_ok w" "cpu < REF_CPUS" "source_stages cpu now cfg p ip w = (v, w')"
  shows "\<exists>r. counted (writable now cfg (ip_saddr ip) w) cpu v r w w' \<and>
    (r = STAT_PASS_ALLOWLIST \<longleftrightarrow> allowed_source cfg (ip_saddr ip) w) \<and>
    (r = STAT_DROP_BLOCKLIST \<longleftrightarrow> \<not> allowed_source cfg (ip_saddr ip) w \<and> live_block now cfg (ip_saddr ip) w)"
proof -
  consider (allow) k val where "allowed_source cfg (ip_saddr ip) w" "lookup_entry FD_ALLOWLIST (host_key (ip_saddr ip)) w = Some (k, val)"
    | (block) k val where "\<not> allowed_source cfg (ip_saddr ip) w" "live_block now cfg (ip_saddr ip) w"
      "lookup_entry FD_BLOCKLIST (host_key (ip_saddr ip)) w = Some (k, val)"
    | (none) "\<not> allowed_source cfg (ip_saddr ip) w" "\<not> live_block now cfg (ip_saddr ip) w"
    unfolding allowed_source_def live_block_def by (fastforce split: option.splits)
  then show ?thesis
  proof cases
    case allow
    with assms(3) have r: "v = XDP_PASS" "w' = stat_inc cpu STAT_PASS_ALLOWLIST (write_entry FD_ALLOWLIST k (add64 0 1 val) w)"
      by (auto simp: source_stages_def allowed_source_def)
    have "counted (writable now cfg (ip_saddr ip) w) cpu v STAT_PASS_ALLOWLIST w w'"
      unfolding r by (rule counted_hit [OF assms(1,2) fd_maps(1) _ allow(2)]) (use allow in \<open>simp_all add: fds ref_decls writable_def\<close>)
    with allow(1) show ?thesis by blast
  next
    case block
    with assms(3) have r: "v = XDP_DROP" "w' = stat_inc cpu STAT_DROP_BLOCKLIST (write_entry FD_BLOCKLIST k (add64 8 1 val) w)"
      by (auto simp: source_stages_not_allowed blocklist_stage_def live_block_def)
    have "counted (writable now cfg (ip_saddr ip) w) cpu v STAT_DROP_BLOCKLIST w w'"
      unfolding r by (rule counted_hit [OF assms(1,2) fd_maps(2) _ block(3)]) (use block in \<open>simp_all add: fds ref_decls writable_def\<close>)
    with block(1,2) show ?thesis by blast
  next
    case none
    with assms(3) have "l4_stages cpu now cfg p ip w = (v, w')"
      by (simp add: source_stages_not_allowed blocklist_stage_not_live)
    from l4_stages_run [OF assms(1,2) this] obtain r where
      r: "counted {FD_SRCSTATE, FD_PORTRULES} cpu v r w w'" "\<not> list_stat r" by blast
    have "counted (writable now cfg (ip_saddr ip) w) cpu v r w w'" using r(1) none by (simp add: writable_def)
    with r(2) none show ?thesis by blast
  qed
qed

section \<open>The program\<close>

lemma lookup_entry_cong: "ref_view w' fd = ref_view w fd \<Longrightarrow> lookup_entry fd k w' = lookup_entry fd k w"
  by (simp add: lookup_entry_def)

lemma source_lists_cong:
  assumes "\<And>fd. fd \<noteq> FD_STATS \<Longrightarrow> ref_view w' fd = ref_view w fd"
  shows "allowed_source cfg saddr w' = allowed_source cfg saddr w" "live_block now cfg saddr w' = live_block now cfg saddr w"
    "writable now cfg saddr w' = writable now cfg saddr w" "read_c_config w' = read_c_config w"
proof -
  have "lookup_entry fd k w' = lookup_entry fd k w" if "fd \<noteq> FD_STATS" for fd k
    by (rule lookup_entry_cong [OF assms [OF that]])
  then show "allowed_source cfg saddr w' = allowed_source cfg saddr w" "live_block now cfg saddr w' = live_block now cfg saddr w"
    "read_c_config w' = read_c_config w"
    by (simp_all add: allowed_source_def live_block_def read_c_config_def fds)
  then show "writable now cfg saddr w' = writable now cfg saddr w" by (simp add: writable_def)
qed

text \<open>The settings are an array of one element, so they are always found.\<close>

lemma config_present:
  assumes "kernel_ok w"
  shows "\<exists>v. lookup_entry FD_CONFIG (zeros 4) w = Some (zeros 4, v) \<and> map_of (ref_view w 8) (zeros 4) = Some v"
  using rf.config_entry [OF assms] by (auto simp: lookup_entry_def fds ref_decls ref_fw_simps)

definition arrived :: "nat \<Rightarrow> bytes \<Rightarrow> kernel \<Rightarrow> kernel" where
  "arrived cpu p w = stat_add cpu STAT_RX_BYTES (of_nat (length p)) (stat_inc cpu STAT_RX_PACKETS w)"

lemma arrived_run:
  assumes "kernel_ok w" "cpu < REF_CPUS"
  shows "kernel_ok (arrived cpu p w)" "fd \<noteq> FD_STATS \<Longrightarrow> ref_view (arrived cpu p w) fd = ref_view w fd"
    "count_of (arrived cpu p w) c s = count_of w c s +
      (if c = cpu then of_bool (s = STAT_RX_PACKETS) + (if s = STAT_RX_BYTES then of_nat (length p) else 0) else 0)"
  using stat_inc_run [OF assms] stat_add_run [OF stat_inc_run(1) [OF assms] assms(2)]
  unfolding arrived_def by auto

lemma xdp_run:
  assumes "kernel_ok w" "cpu < REF_CPUS" "xdp_firewall cpu now p w = (v, w')"
  shows "\<exists>cfg r fs. read_c_config w = Some cfg \<and> counted fs cpu v r (arrived cpu p w) w' \<and> FD_CONFIG \<notin> fs \<and>
    (\<forall>ip. parse_l3 p = L3Ip ip \<longrightarrow> fs = writable now cfg (ip_saddr ip) w \<and>
      (r = STAT_PASS_ALLOWLIST \<longleftrightarrow> allowed_source cfg (ip_saddr ip) w) \<and>
      (r = STAT_DROP_BLOCKLIST \<longleftrightarrow> \<not> allowed_source cfg (ip_saddr ip) w \<and> live_block now cfg (ip_saddr ip) w))"
proof -
  let ?w = "arrived cpu p w"
  note a = arrived_run [OF assms(1,2), where p = p]
  note same = source_lists_cong [of ?w w, OF a(2)]
  obtain cfg where cfg: "read_c_config w = Some cfg"
    using config_present [OF assms(1)] by (auto simp: read_c_config_def le_bytes_zero)
  have run: "(v, w') = (case parse_l3 p of
      L3Malformed \<Rightarrow> (XDP_DROP, stat_inc cpu STAT_DROP_MALFORMED ?w)
    | L3Other \<Rightarrow> (XDP_PASS, stat_inc cpu STAT_PASS_NON_IPV4 ?w)
    | L3Ip ip \<Rightarrow> source_stages cpu now cfg p ip ?w)"
    using assms(3) cfg same(4) by (simp add: xdp_firewall_def arrived_def [symmetric] Let_def)
  show ?thesis
  proof (cases "parse_l3 p")
    case (L3Ip ip)
    with run have s: "source_stages cpu now cfg p ip ?w = (v, w')" by simp
    have "FD_CONFIG \<notin> writable now cfg (ip_saddr ip) w" by (simp add: writable_def fds)
    moreover obtain r where "counted (writable now cfg (ip_saddr ip) w) cpu v r ?w w' \<and>
      (r = STAT_PASS_ALLOWLIST \<longleftrightarrow> allowed_source cfg (ip_saddr ip) w) \<and>
      (r = STAT_DROP_BLOCKLIST \<longleftrightarrow> \<not> allowed_source cfg (ip_saddr ip) w \<and> live_block now cfg (ip_saddr ip) w)"
      using source_stages_run [OF a(1) assms(2) s] same by auto
    ultimately show ?thesis using cfg L3Ip by auto
  next
    case L3Malformed
    with run cfg counted_inc [OF a(1) assms(2), of STAT_DROP_MALFORMED XDP_DROP] show ?thesis by auto
  next
    case L3Other
    with run cfg counted_inc [OF a(1) assms(2), of STAT_PASS_NON_IPV4 XDP_PASS] show ?thesis by auto
  qed
qed

text \<open>A UDP packet from an address to port 65001, used in the examples.\<close>

definition demo_packet :: "bytes \<Rightarrow> bytes" where
  "demo_packet saddr = [2, 0, 0, 0, 0, 1, 2, 0, 0, 0, 0, 2, 8, 0] @ [69, 0, 0, 28, 0, 0, 0, 0, 64, 17, 0, 0] @ saddr @ [192, 0, 2, 1] @
     [48, 57, 253, 233, 0, 8, 0, 0]"

definition demo_ip_info :: "bytes \<Rightarrow> ip_info" where
  "demo_ip_info saddr = \<lparr>ip_l4 = 34, ip_saddr = saddr, ip_proto = 17, ip_frag = False\<rparr>"

lemma demo_parse:
  "parse_l3 (demo_packet [10, 1, 2, 3]) = L3Ip (demo_ip_info [10, 1, 2, 3])"
  "parse_l3 (demo_packet [198, 51, 100, 7]) = L3Ip (demo_ip_info [198, 51, 100, 7])"
  "parse_l3 (demo_packet [203, 0, 113, 42]) = L3Ip (demo_ip_info [203, 0, 113, 42])"
  by (simp_all add: demo_packet_def demo_ip_info_def parse_l3_def parse_ip_def be16_def Let_def
      ETH_P_IP_def ETH_P_8021Q_def ETH_P_8021AD_def)

text \<open>
  C8. Every packet is counted once, whatever its bytes: the CPU that ran the program counts one
  received packet with its length and exactly one verdict, by a counter of the verdict it
  returned; at most the counter of a full table goes up as well. No counter of another CPU changes,
  the settings do not change, and the maps stay well formed.
\<close>

theorem packet_counted_once:
  assumes "kernel_ok w" "cpu < REF_CPUS" "xdp_firewall cpu now p w = (v, w')"
  shows "kernel_ok w' \<and> ref_view w' FD_CONFIG = ref_view w FD_CONFIG \<and>
    (\<exists>r full. verdict_of r = Some v \<and> (\<forall>c s. count_of w' c s = count_of w c s +
      (if c \<noteq> cpu then 0 else if s = STAT_RX_PACKETS then 1 else if s = STAT_RX_BYTES then of_nat (length p)
       else if s = STAT_STATE_FULL then of_bool full else of_bool (s = r))))"
proof -
  obtain r fs where c: "counted fs cpu v r (arrived cpu p w) w'" "FD_CONFIG \<notin> fs"
    using xdp_run [OF assms] by blast
  note a = arrived_run [OF assms(1,2), where p = p]
  have "ref_view w' FD_CONFIG = ref_view w FD_CONFIG"
    using c a(2) [of FD_CONFIG] unfolding counted_def by (simp add: fds)
  moreover have r: "verdict_of r = Some v" "kernel_ok w'" using c(1) by (simp_all add: counted_def)
  then have "r \<noteq> STAT_RX_PACKETS" "r \<noteq> STAT_RX_BYTES" "r \<noteq> STAT_STATE_FULL" by auto
  moreover obtain full where "\<forall>c s. count_of w' c s = count_of (arrived cpu p w) c s +
      (if c = cpu then of_bool (s = r) + of_bool (full \<and> s = STAT_STATE_FULL) else 0)"
    using c(1) unfolding counted_def by blast
  ultimately show ?thesis using r a(3)
    by (intro conjI exI [of _ r] exI [of _ full]) (auto split: if_splits)
qed

theorem packet_counted_once_witness:
  "kernel_ok (snd (xdp_firewall 1 1000000000 (demo_packet [10, 1, 2, 3]) shadow_kernel)) \<and>
   ref_view (snd (xdp_firewall 1 1000000000 (demo_packet [10, 1, 2, 3]) shadow_kernel)) FD_CONFIG =
     ref_view shadow_kernel FD_CONFIG \<and>
   (\<exists>r full. verdict_of r = Some (fst (xdp_firewall 1 1000000000 (demo_packet [10, 1, 2, 3]) shadow_kernel)) \<and>
     (\<forall>c s. count_of (snd (xdp_firewall 1 1000000000 (demo_packet [10, 1, 2, 3]) shadow_kernel)) c s =
       count_of shadow_kernel c s +
      (if c \<noteq> 1 then 0 else if s = STAT_RX_PACKETS then 1 else if s = STAT_RX_BYTES then of_nat (length (demo_packet [10, 1, 2, 3]))
       else if s = STAT_STATE_FULL then of_bool full else of_bool (s = r))))"
  by (rule packet_counted_once [OF shadow_ok _ prod.collapse [symmetric]]) (simp add: REF_CPUS_def)

section \<open>The two planes together\<close>

lemma saddr_length: "parse_l3 p = L3Ip ip \<Longrightarrow> length (ip_saddr ip) = 4"
  by (auto simp: parse_l3_def parse_ip_def Let_def split: if_splits)

text \<open>The key the program builds for a source is the key the control plane builds for its address.\<close>

lemma host_key_quad:
  assumes "length saddr = 4"
  shows "lpm_key (quad saddr) = Inr (host_key saddr)"
  using lpm_key_parsed [OF parse_cidr_quad [OF assms]] assms by (simp add: host_key_def lpm_bytes_def)

lemma lookup_entry_find:
  "md_kind (decl_of fd) = LPM_TRIE \<Longrightarrow> map_option snd (lookup_entry fd k w) = kmap_find LPM_TRIE (ref_view w fd) k"
  by (simp add: lookup_entry_def kmap_find_def)

lemma lookup_entry_None:
  "md_kind (decl_of fd) = LPM_TRIE \<Longrightarrow> kmap_find LPM_TRIE (ref_view w fd) k = None \<longleftrightarrow> lookup_entry fd k w = None"
  by (simp add: lookup_entry_find [symmetric])

lemma allowed_source_agrees:
  assumes "kernel_ok w" "length saddr = 4"
  shows "fst (fw_is_allowed ref_os ref_fw (quad saddr) w) = Inr (lookup_entry FD_ALLOWLIST (host_key saddr) w \<noteq> None)"
  using rf.is_allowed_run [OF assms(1) prod.collapse [symmetric], of "quad saddr"] host_key_quad [OF assms(2)]
    lookup_entry_None [of FD_ALLOWLIST w "host_key saddr"]
  by (simp add: ref_fw_simps fds ref_decls del: not_None_eq)

lemma ref_is_blocked:
  assumes "kernel_ok w" "lpm_key ip = Inr k"
  shows "fst (fw_is_blocked ref_os ref_fw ip w) =
    Inr (case kmap_find LPM_TRIE (ref_view w 4) k of None \<Rightarrow> False | Some v \<Rightarrow> in_force (k_clock w) v)"
proof -
  have len: "length v = 24" if "kmap_find LPM_TRIE (ref_view w 4) k = Some v" for v
    using ref.find_length [OF assms(1) ref_handles(2), of k v] that by (simp add: ref_fw_simps ref_decls)
  have l: "bpfmap_lookup ref_os (fw_blocklist ref_fw) k 0 w = (Inr (kmap_find LPM_TRIE (ref_view w 4) k), w)"
    using lpm_key_ok [OF assms(2)] ref.good_key_buffer [OF ref_handles(2), of k]
    by (auto simp: bpfmap_lookup_def bpf_elem_def bpf_def io_simps ref_fw_simps ref_maps ref_decls ref_lookup_def
        fails_def reply_def ENOENT_def overlay_full len split: option.splits)
  show ?thesis
    using l expires_of_deadline [OF len] by (auto simp: fw_is_blocked_def assms(2) io_simps ktime_ns_def in_force_def split: option.splits)
qed

lemma live_block_agrees:
  assumes "kernel_ok w" "length saddr = 4" "feat cfg FEAT_BLOCKLIST" "k_clock w = uint now"
  shows "fst (fw_is_blocked ref_os ref_fw (quad saddr) w) = Inr (live_block now cfg saddr w)"
proof -
  have e: "get64 0 v = 0 \<longleftrightarrow> deadline v = 0" "get64 0 v > now \<longleftrightarrow> deadline v > uint now" for v
    using uint_get64 [of 0 v] by (auto simp: deadline_def word_less_def uint_0_iff)
  show ?thesis
    using ref_is_blocked [OF assms(1) host_key_quad [OF assms(2)]] lookup_entry_find [of FD_BLOCKLIST "host_key saddr" w] assms(3,4)
    by (auto simp: live_block_def e in_force_def fds ref_decls split: option.splits prod.splits)
qed


lemma boot_features:
  assumes "ref_view w 8 = [(zeros 4, boot_config)]"
  shows "read_c_config w = Some \<lparr>cfg_rate = 20000, cfg_burst = 40000, cfg_features = 95, cfg_policy = 0\<rparr>"
proof -
  have "config_ints boot_config = [20000, 40000, 95, 0, 0, 0]" by code_simp
  then have "get64 0 boot_config = 20000" "get64 8 boot_config = 40000" "get32 16 boot_config = 95" "get32 24 boot_config = 0"
    by (simp_all add: config_ints_def get64_def get32_def)
  then show ?thesis using assms by (simp add: read_c_config_def lookup_entry_def fds ref_decls le_bytes_zero)
qed

lemmas feature_bits = FEAT_ALLOWLIST_def FEAT_BLOCKLIST_def FEAT_PROTO_SANITY_def FEAT_RATELIMIT_def
  FEAT_TRACK_STATE_def FEAT_DROP_FRAGS_def FEAT_PORT_RULES_def

lemma demo_allowed_ok: "kernel_ok demo_allowed"
  using rf.allow_run [OF boot_kernel_ok demo_net demo_allow] by simp

lemma demo_allowed_view: "ref_view demo_allowed 8 = [(zeros 4, boot_config)]"
  unfolding demo_allowed_def by (subst ref_view_set [OF boot_kernel_ok]) (simp_all add: ref_maps boot_views)

lemma demo_allowed_yes: "fst (fw_is_allowed ref_os ref_fw (quad [198, 51, 100, 7]) demo_allowed) = Inr True"
proof -
  have "quad [198, 51, 100, 7] = ''198.51.100.7''" "covers \<lparr>network_address = 0xC6336400, prefixlen = 24\<rparr> 0xC6336407"
    by code_simp+
  then show ?thesis
    using rf.allowed_after_allow [OF boot_kernel_ok demo_parsed(1) demo_allow demo_parsed(2) [folded host_def]] by simp
qed


text \<open>
  C13. Both planes agree on who is blocked. For a packet whose source is not allowlisted, with the
  blocklist on, the kernel drops the packet as blocked exactly when the control plane's
  \<open>is_blocked\<close>, asked at the same clock, says yes; then the drop is counted as such and nothing but
  the hit counter of the blocklist and the counters changes.
\<close>

theorem blocklist_planes_agree:
  assumes "kernel_ok w" "cpu < REF_CPUS" "parse_l3 p = L3Ip ip" "read_c_config w = Some cfg" "feat cfg FEAT_BLOCKLIST"
    and "fst (fw_is_allowed ref_os ref_fw (quad (ip_saddr ip)) w) = Inr False" "k_clock w = uint now"
    and "xdp_firewall cpu now p w = (v, w')"
  shows "\<exists>blocked. fst (fw_is_blocked ref_os ref_fw (quad (ip_saddr ip)) w) = Inr blocked \<and>
    count_of w' cpu STAT_DROP_BLOCKLIST = count_of w cpu STAT_DROP_BLOCKLIST + of_bool blocked \<and>
    (if blocked then v = XDP_DROP \<and> (\<forall>fd. ref_view w' fd = ref_view w fd \<or> fd = FD_BLOCKLIST \<or> fd = FD_STATS)
     else ref_view w' FD_BLOCKLIST = ref_view w FD_BLOCKLIST)"
proof -
  have len: "length (ip_saddr ip) = 4" by (rule saddr_length [OF assms(3)])
  let ?b = "live_block now cfg (ip_saddr ip) w"
  have not_allowed: "\<not> allowed_source cfg (ip_saddr ip) w"
    using assms(6) allowed_source_agrees [OF assms(1) len] by (simp add: allowed_source_def)
  note a = arrived_run [OF assms(1,2), where p = p]
  obtain r where c: "counted (writable now cfg (ip_saddr ip) w) cpu v r (arrived cpu p w) w'" "r = STAT_DROP_BLOCKLIST \<longleftrightarrow> ?b"
    using xdp_run [OF assms(1,2,8)] assms(3,4) not_allowed by auto
  have "count_of w' cpu STAT_DROP_BLOCKLIST = count_of w cpu STAT_DROP_BLOCKLIST + of_bool ?b"
    using c a(3) by (auto simp: counted_def)
  moreover have "if ?b then v = XDP_DROP \<and> (\<forall>fd. ref_view w' fd = ref_view w fd \<or> fd = FD_BLOCKLIST \<or> fd = FD_STATS)
     else ref_view w' FD_BLOCKLIST = ref_view w FD_BLOCKLIST"
    using c not_allowed a(2) by (auto simp: counted_def writable_def fds)
  ultimately show ?thesis using live_block_agrees [OF assms(1) len assms(5,7)] by blast
qed

lemma demo_blocked_view: "ref_view demo_blocked_kernel 8 = [(zeros 4, boot_config)]" "ref_view demo_blocked_kernel 3 = []"
  unfolding demo_blocked_kernel_def
  by (subst ref_view_set; simp add: boot_kernel_ok ref_maps boot_views)+

lemma demo_blocked_clock: "k_clock demo_blocked_kernel = 1000001000"
  by (simp add: demo_blocked_kernel_def ref_set_def)

lemma not_allowed_empty:
  "kernel_ok w \<Longrightarrow> ref_view w 3 = [] \<Longrightarrow> length saddr = 4 \<Longrightarrow> fst (fw_is_allowed ref_os ref_fw (quad saddr) w) = Inr False"
  by (simp add: allowed_source_agrees lookup_entry_def fds ref_decls)

theorem blocklist_planes_agree_witness:
  "\<exists>blocked. fst (fw_is_blocked ref_os ref_fw (quad (ip_saddr (demo_ip_info [203, 0, 113, 42]))) demo_blocked_kernel) = Inr blocked \<and>
    count_of (snd (xdp_firewall 0 1000001000 (demo_packet [203, 0, 113, 42]) demo_blocked_kernel)) 0 STAT_DROP_BLOCKLIST =
      count_of demo_blocked_kernel 0 STAT_DROP_BLOCKLIST + of_bool blocked \<and>
    (if blocked then fst (xdp_firewall 0 1000001000 (demo_packet [203, 0, 113, 42]) demo_blocked_kernel) = XDP_DROP \<and>
       (\<forall>fd. ref_view (snd (xdp_firewall 0 1000001000 (demo_packet [203, 0, 113, 42]) demo_blocked_kernel)) fd =
         ref_view demo_blocked_kernel fd \<or> fd = FD_BLOCKLIST \<or> fd = FD_STATS)
     else ref_view (snd (xdp_firewall 0 1000001000 (demo_packet [203, 0, 113, 42]) demo_blocked_kernel)) FD_BLOCKLIST =
       ref_view demo_blocked_kernel FD_BLOCKLIST)"
  by (rule blocklist_planes_agree [OF demo_blocked_ok _ demo_parse(3) boot_features [OF demo_blocked_view(1)] _ _ _
        prod.collapse [symmetric]])
    (simp_all add: REF_CPUS_def feature_bits demo_ip_info_def not_allowed_empty demo_blocked_ok demo_blocked_view
      demo_blocked_clock)

definition demo_settings :: "(string, int) dict" where
  "demo_settings = [(''rate_pps'', 20000), (''burst_pkts'', 40000), (''features'', 95), (''aggressiveness'', 0), (''default_policy'', 0)]"

text \<open>
  The settings mean the same on both sides: rate, burst, features and default policy, as the
  program reads them for a packet, are the values that \<open>read_config\<close> returns.
\<close>

theorem settings_planes_agree:
  assumes "kernel_ok w" "fst (fw_read_config ref_os ref_fw w) = Inr d" "read_c_config w = Some cfg"
  shows "dict_get d ''rate_pps'' (- 1) = uint (cfg_rate cfg) \<and> dict_get d ''burst_pkts'' (- 1) = uint (cfg_burst cfg) \<and>
    dict_get d ''features'' (- 1) = uint (cfg_features cfg) \<and> dict_get d ''default_policy'' (- 1) = uint (cfg_policy cfg)"
proof -
  obtain v where v: "lookup_entry FD_CONFIG (zeros 4) w = Some (zeros 4, v)" "map_of (ref_view w 8) (zeros 4) = Some v"
    using config_present [OF assms(1)] by blast
  have d: "d = zip CONFIG_FIELDS (config_ints v)"
    using rf.read_config_run [OF assms(1) prod.collapse [symmetric]] assms(2) v(2)
    by (simp add: rf.settings_def ref_fw_simps)
  have "uint (get32 off v) = le_int (take 4 (drop off v))" for off
  proof -
    have "le_int (take 4 (drop off v)) < 256 ^ 4"
      using le_int_range(2) [of "take 4 (drop off v)"] power_increasing [of "length (take 4 (drop off v))" 4 "256 :: int"]
      by simp
    with le_int_range(1) [of "take 4 (drop off v)"] show ?thesis by (simp add: get32_def uint_word_of_int)
  qed
  with assms(3) v(1) show ?thesis
    by (auto simp: d read_c_config_def le_bytes_zero uint_get64 CONFIG_FIELDS_def config_ints_def dict_get_def)
qed

theorem settings_planes_agree_witness:
  "case fst (fw_read_config ref_os ref_fw boot_kernel) of Inl _ \<Rightarrow> False | Inr d \<Rightarrow>
    (case read_c_config boot_kernel of None \<Rightarrow> False | Some cfg \<Rightarrow>
     dict_get d ''rate_pps'' (- 1) = uint (cfg_rate cfg) \<and> dict_get d ''burst_pkts'' (- 1) = uint (cfg_burst cfg) \<and>
     dict_get d ''features'' (- 1) = uint (cfg_features cfg) \<and> dict_get d ''default_policy'' (- 1) = uint (cfg_policy cfg))"
  using settings_planes_agree [OF boot_kernel_ok boot_settings boot_features [OF boot_views(6)]]
  unfolding boot_settings boot_features [OF boot_views(6)] sum.case option.case .

section \<open>Port rules\<close>

lemma not_listed:
  assumes "kernel_ok w" "length saddr = 4" "fst (fw_is_allowed ref_os ref_fw (quad saddr) w) = Inr False"
    and "k_clock w = uint now" "fst (fw_is_blocked ref_os ref_fw (quad saddr) w) = Inr False"
  shows "\<not> allowed_source cfg saddr w" "\<not> live_block now cfg saddr w"
proof -
  show "\<not> allowed_source cfg saddr w"
    using assms(3) allowed_source_agrees [OF assms(1,2)] by (simp add: allowed_source_def)
  show "\<not> live_block now cfg saddr w"
  proof (cases "feat cfg FEAT_BLOCKLIST")
    case True
    then show ?thesis using live_block_agrees [OF assms(1,2) True assms(4)] assms(5) by simp
  qed (simp add: live_block_def)
qed

text \<open>The path of a packet that neither list decides.\<close>

lemma xdp_l4:
  assumes "kernel_ok w" "cpu < REF_CPUS" "xdp_firewall cpu now p w = (v, w')" "parse_l3 p = L3Ip ip"
    and "read_c_config w = Some cfg" "\<not> allowed_source cfg (ip_saddr ip) w" "\<not> live_block now cfg (ip_saddr ip) w"
  shows "l4_stages cpu now cfg p ip (arrived cpu p w) = (v, w')"
proof -
  note same = source_lists_cong [of "arrived cpu p w" w, OF arrived_run(2) [OF assms(1,2)]]
  have "xdp_firewall cpu now p w = source_stages cpu now cfg p ip (arrived cpu p w)"
    using assms(4,5) same(4) by (simp add: xdp_firewall_def arrived_def [symmetric] Let_def)
  then show ?thesis
    using assms(3,6,7) same by (simp add: source_stages_not_allowed blocklist_stage_not_live)
qed

lemma rule_slot:
  assumes "cpu < REF_CPUS" "0 \<le> a" "a < 2 ^ 32"
  shows "get32 (16 * cpu + 8) (concat (replicate 2 (port_bytes a))) = word_of_int a"
proof -
  have "cpu = 0 \<or> cpu = 1" using assms(1) by (auto simp: REF_CPUS_def)
  then have "take 4 (drop (16 * cpu + 8) (concat (replicate 2 (port_bytes a)))) = le_bytes 4 a"
    by (auto simp: port_bytes_def numeral_2_eq_2 simp del: le_bytes.simps)
  then show ?thesis using assms le_int_le_bytes [of a 4] by (simp add: get32_def)
qed

text \<open>
  C16. A port rule that the control plane sets decides in the kernel. After
  \<open>set_port_rule(proto, port, action)\<close> has returned, a packet to that protocol and port that
  neither source list decides and whose flags are sane is dropped by the rule when the action is
  deny; otherwise it passes by the rule or is dropped by the rate limit, and never by the default
  policy. Exactly the counter of that verdict goes up.
\<close>

theorem port_rule_decides:
  assumes "kernel_ok w" "cpu < REF_CPUS" "fw_set_port_rule ref_os ref_fw proto port action w = (Inr (), w1)"
    and "parse_l3 p = L3Ip ip" "\<not> ip_frag ip" "parse_l4 p ip = Some l4"
    and "port_key proto port = Inr (port_bytes_key (ip_proto ip) (l4_rule_port l4))"
    and "read_c_config w1 = Some cfg" "feat cfg FEAT_PORT_RULES" "ip_proto ip \<noteq> IPPROTO_TCP \<or> tcp_flags_sane (l4_flags l4)"
    and "fst (fw_is_allowed ref_os ref_fw (quad (ip_saddr ip)) w1) = Inr False"
    and "k_clock w1 = uint now" "fst (fw_is_blocked ref_os ref_fw (quad (ip_saddr ip)) w1) = Inr False"
    and "xdp_firewall cpu now p w1 = (v, w')"
  shows "\<exists>r. count_of w' cpu r = count_of w1 cpu r + 1 \<and>
    (if action = 1 then v = XDP_DROP \<and> r = STAT_DROP_PORT_RULE
     else v = XDP_PASS \<and> r = STAT_PASS_RULE \<or> v = XDP_DROP \<and> r = STAT_DROP_RATELIMIT)"
proof -
  let ?k = "port_bytes_key (ip_proto ip) (l4_rule_port l4)" and ?w = "arrived cpu p w1"
  from rf.set_port_rule_run [OF assms(1,3)] assms(7) have w1: "kernel_ok w1" and a: "0 \<le> action" "action < 2 ^ 32"
    and rule: "map_of (ref_view w1 5) ?k = Some (concat (replicate 2 (port_bytes action)))"
    by (auto simp: ref_fw_simps)
  have len: "length (ip_saddr ip) = 4" by (rule saddr_length [OF assms(4)])
  note ar = arrived_run [OF w1 assms(2), where p = p]
  have l4: "l4_stages cpu now cfg p ip ?w = (v, w')"
    by (rule xdp_l4 [OF w1 assms(2,14,4,8) not_listed [OF w1 len assms(11-13)]])
  have "uint (word_of_int action :: 32 word) = action" using a by (simp add: uint_word_of_int)
  then have deny: "word_of_int action = (1 :: 32 word) \<longleftrightarrow> action = 1" by (metis uint_1 word_of_int_1)
  have "lookup_entry FD_PORTRULES ?k ?w = Some (?k, concat (replicate 2 (port_bytes action)))"
    using rule ar(2) [of FD_PORTRULES] by (simp add: lookup_entry_def fds ref_decls)
  then have rs: "rule_stage cpu cfg (ip_proto ip) l4 ?w =
      (if action = 1 then XDP_DROP else XDP_PASS, if action = 1 then STAT_DROP_PORT_RULE else STAT_PASS_RULE,
       write_entry FD_PORTRULES ?k (add64 (16 * cpu) 1 (concat (replicate 2 (port_bytes action)))) ?w)"
    using assms(9,10) rule_slot [OF assms(2) a] deny by (auto simp: rule_stage_def Let_def ACTION_DENY_def)
  note w2 = rule_stage_run [OF ar(1) assms(2) rs]
  from l4 assms(5,6) rs
  have st: "state_stage cpu now cfg (length p) ip l4 (if action = 1 then XDP_DROP else XDP_PASS)
      (if action = 1 then STAT_DROP_PORT_RULE else STAT_PASS_RULE)
      (write_entry FD_PORTRULES ?k (add64 (16 * cpu) 1 (concat (replicate 2 (port_bytes action)))) ?w) = (v, w')"
    by (simp add: l4_stages_def)
  from state_stage_run [OF conjunct1 [OF w2] assms(2) _ st] obtain r where
    r: "counted {FD_SRCSTATE} cpu v r (write_entry FD_PORTRULES ?k (add64 (16 * cpu) 1 (concat (replicate 2 (port_bytes action)))) ?w) w'"
      "action = 1 \<longrightarrow> r = STAT_DROP_PORT_RULE" "action \<noteq> 1 \<longrightarrow> r = STAT_PASS_RULE \<or> r = STAT_DROP_RATELIMIT"
    by (cases "action = 1") auto
  have "counted {FD_SRCSTATE, FD_PORTRULES} cpu v r ?w w'"
    by (rule counted_after [OF r(1), of _ "{FD_PORTRULES}"]) (use w2 in \<open>auto simp: fds\<close>)
  with ar(3) r(2,3) show ?thesis by (intro exI [of _ r]) (auto simp: counted_def)
qed

lemma not_blocked_empty:
  "kernel_ok w \<Longrightarrow> ref_view w 4 = [] \<Longrightarrow> length saddr = 4 \<Longrightarrow> fst (fw_is_blocked ref_os ref_fw (quad saddr) w) = Inr False"
  by (simp add: ref_is_blocked [OF _ host_key_quad] kmap_find_def)

definition demo_rules :: kernel where
  "demo_rules = ref_set 5 [([17, 0, 0xE9, 0xFD], demo_rule)] boot_kernel"

lemma demo_rules_views: "ref_view demo_rules 8 = [(zeros 4, boot_config)]" "ref_view demo_rules 3 = []" "ref_view demo_rules 4 = []"
  unfolding demo_rules_def
  by (subst ref_view_set; simp add: boot_kernel_ok ref_maps boot_views)+

lemma demo_rules_ok: "kernel_ok demo_rules"
  using rf.set_port_rule_run [OF boot_kernel_ok demo_set_rule] by (simp add: demo_rules_def)

lemma demo_l4: "parse_l4 (demo_packet [10, 1, 2, 3]) (demo_ip_info [10, 1, 2, 3]) =
    Some \<lparr>l4_dport = 65001, l4_rule_port = 65001, l4_flags = 0\<rparr>"
  by (simp add: demo_packet_def demo_ip_info_def parse_l4_def be16_def IPPROTO_TCP_def IPPROTO_UDP_def)

lemma demo_rule_key: "port_key ''udp'' 65001 = Inr (port_bytes_key 17 65001)"
proof -
  have "port_key ''udp'' 65001 = Inr [17, 0, 0xE9, 0xFD]" by code_simp
  moreover have "port_bytes_key 17 65001 = [17, 0, 0xE9, 0xFD]"
    unfolding port_bytes_key_def numeral_2_eq_2 le_bytes.simps by simp
  ultimately show ?thesis by simp
qed

theorem port_rule_decides_witness:
  "\<exists>r. count_of (snd (xdp_firewall 1 1000000000 (demo_packet [10, 1, 2, 3]) demo_rules)) 1 r = count_of demo_rules 1 r + 1 \<and>
    (if (1 :: int) = 1 then fst (xdp_firewall 1 1000000000 (demo_packet [10, 1, 2, 3]) demo_rules) = XDP_DROP \<and> r = STAT_DROP_PORT_RULE
     else fst (xdp_firewall 1 1000000000 (demo_packet [10, 1, 2, 3]) demo_rules) = XDP_PASS \<and> r = STAT_PASS_RULE \<or>
       fst (xdp_firewall 1 1000000000 (demo_packet [10, 1, 2, 3]) demo_rules) = XDP_DROP \<and> r = STAT_DROP_RATELIMIT)"
  by (rule port_rule_decides [OF boot_kernel_ok _ demo_set_rule [folded demo_rules_def] demo_parse(1) _ demo_l4 _
        boot_features [OF demo_rules_views(1)] _ _ _ _ _ prod.collapse [symmetric]])
    (simp_all add: REF_CPUS_def feature_bits demo_ip_info_def demo_rule_key IPPROTO_TCP_def not_allowed_empty not_blocked_empty
      demo_rules_ok demo_rules_views, simp add: demo_rules_def ref_set_def boot_kernel_def)

lemma l4_to_state:
  assumes "kernel_ok w" "cpu < REF_CPUS" "parse_l4 p ip = Some l4" "l4_stages cpu now cfg p ip w = (v, w')"
  obtains verdict reason w2 where "kernel_ok w2" "verdict_of reason = Some verdict"
    "ref_view w2 FD_SRCSTATE = ref_view w FD_SRCSTATE" "state_stage cpu now cfg (length p) ip l4 verdict reason w2 = (v, w')"
proof (cases "ip_frag ip")
  case True
  then show ?thesis
    using assms frag_stage_run [of cfg "fst (frag_stage cfg)" "snd (frag_stage cfg)"]
    by (intro that [of w "snd (frag_stage cfg)" "fst (frag_stage cfg)"]) (auto simp: l4_stages_def split: prod.splits)
next
  case False
  obtain v1 r1 w2 where rs: "rule_stage cpu cfg (ip_proto ip) l4 w = (v1, r1, w2)" by (rule prod_cases3)
  with rule_stage_run [OF assms(1,2) rs] False assms(3,4) show ?thesis
    by (intro that [of w2 r1 v1]) (auto simp: l4_stages_def fds)
qed

end
