(* ===== verification/Xdp_State.thy ===== *)
theory Xdp_State
  imports Xdp_Props
begin

text \<open>
  The per-source table across the two planes: the bytes the data plane writes for a packet are
  the record the control plane decodes, so what the detector works on is what the packets did.
\<close>

section \<open>Per-source counters\<close>

text \<open>What a packet adds to the counters of its source, as the control plane reads them.\<close>

definition note_packet :: "64 word \<Rightarrow> nat \<Rightarrow> byte \<Rightarrow> l4_info \<Rightarrow> src_state \<Rightarrow> src_state" where
  "note_packet now len proto l4 s =
     (let flag = (\<lambda>f. of_bool (proto = IPPROTO_TCP \<and> l4_flags l4 AND f \<noteq> 0)) in
      s\<lparr>ss_last_seen_ns := uint now,
        ss_packets := (ss_packets s + 1) mod 2 ^ 64,
        ss_bytes := (ss_bytes s + int len) mod 2 ^ 64,
        ss_syn := (ss_syn s + flag TCP_SYN) mod 2 ^ 64,
        ss_fin := (ss_fin s + flag TCP_FIN) mod 2 ^ 64,
        ss_rst := (ss_rst s + flag TCP_RST) mod 2 ^ 64,
        ss_udp := (ss_udp s + of_bool (proto = IPPROTO_UDP)) mod 2 ^ 64,
        ss_icmp := (ss_icmp s + of_bool (proto = IPPROTO_ICMP)) mod 2 ^ 64,
        ss_port_bitmap := (if l4_dport l4 = 0 then ss_port_bitmap s else ss_port_bitmap s OR 2 ^ (l4_dport l4 mod 64))\<rparr>)"

lemma decode_get64:
  "decode_state v = \<lparr>ss_lock = le_int (take 4 v),
     ss_tokens = uint (get64 OFF_TOKENS v), ss_last_refill_ns = uint (get64 OFF_LAST_REFILL v),
     ss_last_seen_ns = uint (get64 OFF_LAST_SEEN v), ss_packets = uint (get64 OFF_PACKETS v),
     ss_bytes = uint (get64 OFF_BYTES v), ss_dropped = uint (get64 OFF_DROPPED v), ss_syn = uint (get64 OFF_SYN v),
     ss_fin = uint (get64 OFF_FIN v), ss_rst = uint (get64 OFF_RST v), ss_udp = uint (get64 OFF_UDP v),
     ss_icmp = uint (get64 OFF_ICMP v), ss_port_bitmap = uint (get64 OFF_PORT_BITMAP v)\<rparr>"
  by (simp add: decode_state_def state_ints_def src_state_of_def uint_get64 offsets)

lemma get64_put64_if:
  "off + 8 \<le> length v \<Longrightarrow> o' = off \<or> o' + 8 \<le> off \<or> off + 8 \<le> o' \<Longrightarrow>
    get64 o' (put64 off x v) = (if o' = off then x else get64 o' v)"
  by (auto simp: get64_put64_other)

lemma lock_put64: "8 \<le> off \<Longrightarrow> off + 8 \<le> length v \<Longrightarrow> take 4 (put64 off x v) = take 4 v"
  by (simp add: put64_def take_append min_def)

lemma lock_add64: "8 \<le> off \<Longrightarrow> off + 8 \<le> length v \<Longrightarrow> take 4 (add64 off x v) = take 4 v"
  by (simp add: add64_def lock_put64)

lemmas field_simps64 = get64_put64_if get64_add64 lock_put64 lock_add64

lemma uint_plus64: "uint (a + b :: 64 word) = (uint a + uint b) mod 2 ^ 64"
  by (simp add: uint_word_ariths)

lemma uint_of_nat64: "(a + uint (of_nat n :: 64 word)) mod 18446744073709551616 = (a + int n) mod 18446744073709551616"
  by (simp add: unsigned_of_nat take_bit_eq_mod zmod_int mod_add_right_eq)

lemma uint_mod64: "uint (a :: 64 word) mod 18446744073709551616 = uint a"
  using uint_lt2p [of a] by simp

lemma uint_bit64:
  assumes "n < 64"
  shows "uint (a OR 2 ^ n :: 64 word) = uint a OR 2 ^ n"
proof -
  have "uint (2 ^ n :: 64 word) = uint (word_of_int (2 ^ n) :: 64 word)" by simp
  also have "(2 :: int) ^ n < 2 ^ 64" using assms by (intro power_strict_increasing) simp_all
  then have "uint (word_of_int (2 ^ n) :: 64 word) = 2 ^ n" unfolding uint_word_of_int by simp
  finally show ?thesis by (simp add: uint_or)
qed

text \<open>The bytes the program writes are the record the control plane decodes.\<close>

lemma count_packet_decode:
  assumes "length st = 104"
  shows "decode_state (count_packet now len proto l4 st) = note_packet now len proto l4 (decode_state st)"
  using assms
  by (simp add: decode_get64 count_packet_def note_packet_def Let_def offsets field_simps64 uint_plus64 uint_of_nat64
      uint_mod64 uint_bit64 IPPROTO_TCP_def IPPROTO_UDP_def IPPROTO_ICMP_def)

lemma limit_packet_decode:
  assumes "limit_packet now cfg verdict reason st = (v, r, st')" "length st = 104"
  shows "\<exists>t l. decode_state st' = (decode_state st)\<lparr>ss_tokens := t, ss_last_refill_ns := l,
    ss_dropped := (ss_dropped (decode_state st) + of_bool (v = XDP_DROP)) mod 2 ^ 64\<rparr>"
proof -
  define st1 where "st1 = (if verdict = XDP_PASS \<and> feat cfg FEAT_RATELIMIT \<and> cfg_rate cfg > 0 then
    (case bucket_take now (cfg_rate cfg) (cfg_burst cfg) \<lparr>bk_tokens = get64 OFF_TOKENS st, bk_last_refill = get64 OFF_LAST_REFILL st\<rparr> of
      (ok, b) \<Rightarrow> put64 OFF_LAST_REFILL (bk_last_refill b) (put64 OFF_TOKENS (bk_tokens b) st)) else st)"
  have st': "st' = (if v = XDP_DROP then add64 OFF_DROPPED 1 st1 else st1)"
    using assms(1) by (auto simp: limit_packet_def st1_def Let_def split: prod.splits if_splits)
  have len: "length st1 = 104" using assms(2) by (auto simp: st1_def offsets split: prod.splits)
  obtain t l where "decode_state st1 = (decode_state st)\<lparr>ss_tokens := t, ss_last_refill_ns := l\<rparr>"
    using assms(2) that
    by (auto simp: st1_def decode_get64 offsets field_simps64 split: prod.splits if_splits)
  moreover have "decode_state st' = (decode_state st1)\<lparr>
      ss_dropped := (ss_dropped (decode_state st1) + of_bool (v = XDP_DROP)) mod 2 ^ 64\<rparr>"
    using len by (simp add: st' decode_get64 offsets field_simps64 uint_plus64 uint_mod64)
  ultimately show ?thesis by (intro exI [of _ t] exI [of _ l]) simp
qed

lemma map_of_states:
  assumes "kdict_ok HASH 4 104 d" "length k = 4"
  shows "map_of (states_of d) (quad k) = map_option decode_state (map_of d k)"
proof -
  have "map_of (map (\<lambda>(k, v). (quad k, decode_state v)) es) (quad k) = map_option decode_state (map_of es k)"
    if "\<forall>e \<in> set es. length (fst e) = 4" for es
    using that assms(2) by (induction es) (auto simp: quad_inj)
  moreover have "\<forall>e \<in> set d. length (fst e) = 4" using kdict_okD [OF assms(1)] by auto
  ultimately show ?thesis by (simp add: states_of_def)
qed

lemma read_states_map:
  assumes "kernel_ok w" "length k = 4"
  shows "\<exists>d. fst (fw_read_states ref_os ref_fw w) = Inr d \<and> map_of d (quad k) = map_option decode_state (map_of (ref_view w FD_SRCSTATE) k)"
  using rf.read_states_run [OF assms(1) prod.collapse [symmetric]] map_of_states [OF rf.state_ok [OF assms(1)] assms(2)]
  by (simp add: ref_fw_simps fds)

definition new_source :: src_state where
  "new_source = \<lparr>ss_lock = 0, ss_tokens = 0, ss_last_refill_ns = 0, ss_last_seen_ns = 0, ss_packets = 0, ss_bytes = 0,
     ss_dropped = 0, ss_syn = 0, ss_fin = 0, ss_rst = 0, ss_udp = 0, ss_icmp = 0, ss_port_bitmap = 0\<rparr>"

lemma le_int_zeros: "le_int (replicate n 0) = 0"
  by (induction n) simp_all

lemma get64_zeros: "get64 off (zeros n) = 0"
  by (simp add: get64_def zeros_def le_int_zeros)

lemma note_dropped: "ss_dropped (note_packet now len proto l4 s) = ss_dropped s"
  by (simp add: note_packet_def Let_def)

text \<open>A new source starts from zero counters; its tokens and clocks are set anew by the packet.\<close>

lemma decode_fresh:
  "decode_state (fresh_state now burst) = new_source\<lparr>ss_tokens := uint burst, ss_last_refill_ns := uint now, ss_last_seen_ns := uint now\<rparr>"
proof -
  have "length (zeros 104) = 104" "take 4 (zeros 104) = replicate 4 0" by (simp_all add: zeros_def)
  then show ?thesis
    by (simp add: fresh_state_def decode_get64 offsets field_simps64 get64_zeros new_source_def le_int_zeros)
qed

text \<open>The value the stage stores for the source of a packet.\<close>

lemma tracked_entry:
  assumes "kernel_ok w" "length saddr = 4"
    and "map_of (ref_view w FD_SRCSTATE) saddr \<noteq> None \<or> length (ref_view w FD_SRCSTATE) < C_MAX_TRACKED"
  shows "map_of (ref_view (tracked now cfg saddr w) FD_SRCSTATE) saddr =
    Some (case map_of (ref_view w FD_SRCSTATE) saddr of Some st \<Rightarrow> st | None \<Rightarrow> fresh_state now (cfg_burst cfg))"
  using assms
  by (auto simp: tracked_def ref_update_def Let_def fds ref_decls key_ok_def ref_view_set ref_maps split: option.splits)

lemma state_stage_entry:
  assumes "kernel_ok w" "cpu < REF_CPUS" "verdict_of reason = Some verdict" "feat cfg FEAT_TRACK_STATE" "length (ip_saddr ip) = 4"
    and "map_of (ref_view w FD_SRCSTATE) (ip_saddr ip) \<noteq> None \<or> length (ref_view w FD_SRCSTATE) < C_MAX_TRACKED"
    and "state_stage cpu now cfg len ip l4 verdict reason w = (v, w')"
    and "st = (case map_of (ref_view w FD_SRCSTATE) (ip_saddr ip) of Some st \<Rightarrow> st | None \<Rightarrow> fresh_state now (cfg_burst cfg))"
  shows "length st = 104 \<and> (\<exists>r st'. limit_packet now cfg verdict reason (count_packet now len (ip_proto ip) l4 st) = (v, r, st') \<and>
    map_of (ref_view w' FD_SRCSTATE) (ip_saddr ip) = Some st')"
proof -
  let ?w1 = "tracked now cfg (ip_saddr ip) w"
  note w1 = tracked_run(1) [OF assms(1), where now = now and cfg = cfg and saddr = "ip_saddr ip"]
  have e: "map_of (ref_view ?w1 FD_SRCSTATE) (ip_saddr ip) = Some st"
    unfolding assms(8) by (rule tracked_entry [OF assms(1,5,6)])
  have kd: "md_kind (decl_of FD_SRCSTATE) = HASH" "md_ksize (decl_of FD_SRCSTATE) = 4" "md_vsize (decl_of FD_SRCSTATE) = 104"
    by (simp_all add: fds ref_decls)
  have "kdict_ok HASH 4 104 (ref_view ?w1 FD_SRCSTATE)"
    using ref_view_ok [OF w1 fd_maps(4)] by (simp add: decl_dict_ok_def kd)
  from kdict_okD [OF this map_of_SomeD [OF e]] have len: "length st = 104" by simp
  obtain r st' where l: "limit_packet now cfg verdict reason (count_packet now len (ip_proto ip) l4 st) = (v, r, st')"
    and w': "w' = stat_inc cpu r (write_entry FD_SRCSTATE (ip_saddr ip) st' ?w1)"
    using assms(4,7) e by (auto simp: state_stage_def tracked_def [symmetric] Let_def split: prod.splits)
  have "length st' = 104" using limit_packet_ok [OF l _ assms(3)] len by simp
  then have "kernel_ok (write_entry FD_SRCSTATE (ip_saddr ip) st' ?w1)"
    using e assms(5) by (intro write_entry_ok [OF w1 fd_maps(4)]) (simp_all add: kd key_ok_def)
  then have "ref_view w' FD_SRCSTATE = dict_set (ip_saddr ip) st' (ref_view ?w1 FD_SRCSTATE)"
    unfolding w' by (subst stat_inc_run(2) [OF _ assms(2)]) (simp_all add: fds write_entry_view [OF w1 fd_maps(4), unfolded fds])
  with len l show ?thesis by simp
qed

text \<open>
  C15. A packet reaches the detector. With tracking on, a packet that neither source list decides
  and that has a well-formed layer 4 header is added to the counters of its source, as long as
  the source is known or the table has room: a \<open>read_states\<close> after the packet returns, for that
  address, what a \<open>read_states\<close> before it returned (nothing counts as all zero) with one more
  packet, its bytes, its flags or protocol, the bit of its port, the time of the packet, and one
  more drop when the verdict was to drop.
\<close>

theorem packet_reaches_states:
  assumes "kernel_ok w" "cpu < REF_CPUS" "parse_l3 p = L3Ip ip" "parse_l4 p ip = Some l4" "read_c_config w = Some cfg"
    and "feat cfg FEAT_TRACK_STATE" "fst (fw_is_allowed ref_os ref_fw (quad (ip_saddr ip)) w) = Inr False"
    and "k_clock w = uint now" "fst (fw_is_blocked ref_os ref_fw (quad (ip_saddr ip)) w) = Inr False"
    and "map_of (ref_view w FD_SRCSTATE) (ip_saddr ip) \<noteq> None \<or> length (ref_view w FD_SRCSTATE) < C_MAX_TRACKED"
    and "xdp_firewall cpu now p w = (v, w')" "fst (fw_read_states ref_os ref_fw w) = Inr before"
    and "old = (case map_of before (quad (ip_saddr ip)) of Some s \<Rightarrow> s | None \<Rightarrow> new_source)"
  shows "\<exists>after t l. fst (fw_read_states ref_os ref_fw w') = Inr after \<and>
    map_of after (quad (ip_saddr ip)) = Some ((note_packet now (length p) (ip_proto ip) l4 old)
      \<lparr>ss_tokens := t, ss_last_refill_ns := l, ss_dropped := (ss_dropped old + of_bool (v = XDP_DROP)) mod 2 ^ 64\<rparr>)"
proof -
  let ?w = "arrived cpu p w" and ?s = "ip_saddr ip"
  note ar = arrived_run [OF assms(1,2), where p = p]
  have len: "length ?s = 4" by (rule saddr_length [OF assms(3)])
  have l4: "l4_stages cpu now cfg p ip ?w = (v, w')"
    by (rule xdp_l4 [OF assms(1,2,11,3,5) not_listed [OF assms(1) len assms(7-9)]])
  have w': "kernel_ok w'" using xdp_run [OF assms(1,2,11)] by (auto simp: counted_def)
  obtain verdict reason w2 where w2: "kernel_ok w2" "verdict_of reason = Some verdict"
    "ref_view w2 FD_SRCSTATE = ref_view w FD_SRCSTATE" "state_stage cpu now cfg (length p) ip l4 verdict reason w2 = (v, w')"
    by (rule l4_to_state [OF ar(1) assms(2,4) l4]) (use ar(2) in \<open>simp add: fds\<close>)
  define st where "st = (case map_of (ref_view w FD_SRCSTATE) ?s of Some st \<Rightarrow> st | None \<Rightarrow> fresh_state now (cfg_burst cfg))"
  from state_stage_entry [OF w2(1) assms(2) w2(2) assms(6) len _ w2(4), of st] w2(3) assms(10) obtain r st' where
    st: "length st = 104" "limit_packet now cfg verdict reason (count_packet now (length p) (ip_proto ip) l4 st) = (v, r, st')"
      "map_of (ref_view w' FD_SRCSTATE) ?s = Some st'" by (auto simp: st_def)
  obtain t l where new: "decode_state st' = (note_packet now (length p) (ip_proto ip) l4 (decode_state st))
      \<lparr>ss_tokens := t, ss_last_refill_ns := l, ss_dropped := (ss_dropped (decode_state st) + of_bool (v = XDP_DROP)) mod 2 ^ 64\<rparr>"
    using limit_packet_decode [OF st(2) length_count_packet [OF st(1)]]
    unfolding count_packet_decode [OF st(1)] note_dropped by blast
  obtain after where after: "fst (fw_read_states ref_os ref_fw w') = Inr after" "map_of after (quad ?s) = Some (decode_state st')"
    using read_states_map [OF w' len] st(3) by auto
  have before: "map_of before (quad ?s) = map_option decode_state (map_of (ref_view w FD_SRCSTATE) ?s)"
    using read_states_map [OF assms(1) len] assms(12) by auto
  show ?thesis
  proof (cases "map_of (ref_view w FD_SRCSTATE) ?s")
    case None
    then have "old = new_source" "st = fresh_state now (cfg_burst cfg)" using before by (simp_all add: assms(13) st_def)
    then have "(note_packet now (length p) (ip_proto ip) l4 (decode_state st))\<lparr>ss_tokens := t, ss_last_refill_ns := l, ss_dropped := d\<rparr> =
        (note_packet now (length p) (ip_proto ip) l4 old)\<lparr>ss_tokens := t, ss_last_refill_ns := l, ss_dropped := d\<rparr>"
      "ss_dropped (decode_state st) = ss_dropped old" for d
      by (simp_all add: decode_fresh new_source_def note_packet_def Let_def)
    with after new show ?thesis by metis
  next
    case (Some x)
    then have "old = decode_state st" using before by (simp add: assms(13) st_def)
    with after new show ?thesis by auto
  qed
qed

lemma demo_rules_states: "ref_view demo_rules 6 = []"
  unfolding demo_rules_def by (subst ref_view_set; simp add: boot_kernel_ok ref_maps boot_views)

lemma demo_no_states: "fst (fw_read_states ref_os ref_fw demo_rules) = Inr []"
  using rf.read_states_run [OF demo_rules_ok prod.collapse [symmetric]]
  by (simp add: ref_fw_simps demo_rules_states states_of_def)

theorem packet_reaches_states_witness:
  "\<exists>after t l. fst (fw_read_states ref_os ref_fw (snd (xdp_firewall 1 1000000000 (demo_packet [10, 1, 2, 3]) demo_rules))) = Inr after \<and>
    map_of after (quad (ip_saddr (demo_ip_info [10, 1, 2, 3]))) =
     Some ((note_packet 1000000000 (length (demo_packet [10, 1, 2, 3])) (ip_proto (demo_ip_info [10, 1, 2, 3]))
        \<lparr>l4_dport = 65001, l4_rule_port = 65001, l4_flags = 0\<rparr> new_source)
      \<lparr>ss_tokens := t, ss_last_refill_ns := l, ss_dropped := (ss_dropped new_source +
        of_bool (fst (xdp_firewall 1 1000000000 (demo_packet [10, 1, 2, 3]) demo_rules) = XDP_DROP)) mod 2 ^ 64\<rparr>)"
  by (rule packet_reaches_states [OF demo_rules_ok _ demo_parse(1) demo_l4 boot_features [OF demo_rules_views(1)] _ _ _ _ _
        prod.collapse [symmetric] demo_no_states])
    (simp_all add: REF_CPUS_def feature_bits demo_ip_info_def not_allowed_empty not_blocked_empty demo_rules_ok demo_rules_views
      demo_rules_states fds C_MAX_TRACKED_def, simp add: demo_rules_def ref_set_def boot_kernel_def)

section \<open>An expired block in the kernel\<close>

text \<open>The first packet of a new source finds a full bucket.\<close>

lemma new_source_not_limited:
  assumes "limit_packet now cfg XDP_PASS reason (count_packet now len proto l4 (fresh_state now (cfg_burst cfg))) = (v, r, st')"
    and "0 < cfg_burst cfg"
  shows "v = XDP_PASS"
proof -
  let ?st = "count_packet now len proto l4 (fresh_state now (cfg_burst cfg))"
  have "decode_state ?st = note_packet now len proto l4 (decode_state (fresh_state now (cfg_burst cfg)))"
    by (rule count_packet_decode) simp
  then have "uint (get64 OFF_TOKENS ?st) = uint (cfg_burst cfg)" "uint (get64 OFF_LAST_REFILL ?st) = uint now"
    by (simp_all add: decode_fresh decode_get64 [of ?st] note_packet_def Let_def new_source_def)
  then have "get64 OFF_TOKENS ?st = cfg_burst cfg" "get64 OFF_LAST_REFILL ?st = now" by (simp_all only: word_uint_eq_iff)
  with assms show ?thesis
    by (auto simp: limit_packet_def bucket_take_def bucket_refill_def Let_def NSEC_PER_SEC_def split: if_splits)
qed

lemma shadow_views: "ref_view shadow_kernel 3 = []" "ref_view shadow_kernel 5 = []" "ref_view shadow_kernel 6 = []"
  "ref_view shadow_kernel 8 = [(zeros 4, boot_config)]"
  unfolding shadow_kernel_def by (subst ref_view_set; simp add: boot_kernel_ok ref_maps boot_views)+

lemma shadow_quad: "quad [10, 1, 2, 3] = ''10.1.2.3''"
  by code_simp

lemma live_block_found:
  "live_block now cfg saddr w \<longleftrightarrow> feat cfg FEAT_BLOCKLIST \<and>
     (case kmap_find LPM_TRIE (ref_view w FD_BLOCKLIST) (host_key saddr) of None \<Rightarrow> False | Some v \<Rightarrow> in_force (uint now) v)"
proof -
  have e: "get64 0 v = 0 \<longleftrightarrow> deadline v = 0" "get64 0 v > now \<longleftrightarrow> deadline v > uint now" for v
    using uint_get64 [of 0 v] by (auto simp: deadline_def word_less_def uint_0_iff)
  show ?thesis
    using lookup_entry_find [of FD_BLOCKLIST "host_key saddr" w]
    by (auto simp: live_block_def e in_force_def fds ref_decls split: option.splits prod.splits)
qed

text \<open>Once the expired entries are gone, a block in force that covers the address counts.\<close>

lemma cleaned_block_counts:
  assumes "kernel_ok w" "length saddr = 4" "k_clock w = uint now" "feat cfg FEAT_BLOCKLIST"
    and "(k, u) \<in> set (ref_view w FD_BLOCKLIST)" "covers (lpm_network k) (unpacked saddr)" "in_force (k_clock w) u"
    and "fw_remove_expired_blocks ref_os ref_fw w = (r, w')"
  shows "kernel_ok w'" "\<And>fd. fd \<noteq> FD_BLOCKLIST \<Longrightarrow> ref_view w' fd = ref_view w fd" "live_block now cfg saddr w'"
proof -
  obtain w0 where "os_ktime ref_os w = (k_clock w, w0)" by (simp add: ref_os_def)
  note ex = rf.remove_expired_run [OF assms(1) this assms(8), simplified ref_fw_simps, folded fds]
  then show ok: "kernel_ok w'" and "\<And>fd. fd \<noteq> FD_BLOCKLIST \<Longrightarrow> ref_view w' fd = ref_view w fd" by (simp_all add: fds)
  have dict: "kdict_ok LPM_TRIE 8 24 (ref_view w 4)" "kdict_ok LPM_TRIE 8 24 (ref_view w' 4)"
    using rf.block_ok [OF assms(1)] rf.block_ok [OF ok] by (simp_all add: ref_fw_simps)
  have "map_of (ref_view w 4) k = Some u" using dict(1) assms(5) by (simp add: kdict_ok_def fds)
  with ex assms(7) have "map_of (ref_view w' 4) k = Some u" by (simp add: fds)
  with assms(6) dict(2) have "covered (ref_view w' 4) (unpacked saddr)" by (subst covered_dom) (auto simp: kdict_ok_def)
  moreover have key: "host_key saddr = lpm_bytes (host (unpacked saddr))"
    using assms(2) by (simp add: host_key_def lpm_bytes_def host_def)
  ultimately obtain v where v: "kmap_find LPM_TRIE (ref_view w' 4) (host_key saddr) = Some v"
    using find_covered [OF dict(2), of "unpacked saddr"] by auto
  then obtain e where "map_of (ref_view w' 4) e = Some v" using kmap_find_lpm_Some [OF dict(2)] by blast
  then have "in_force (k_clock w) v" using ex by (auto simp: fds split: option.splits if_splits)
  with v assms(3,4) show "live_block now cfg saddr w'" by (simp add: live_block_found fds)
qed

text \<open>
  C24. A live block of a network does not stop a host of it that has an expired block of its own. Whenever the blocklist
  holds a prefix in force that covers the source of a packet, and an expired entry of exactly that source, which is not
  allowlisted: \<open>is_blocked\<close> answers no, the program goes on to the port rules and the rate limiter as if no block
  existed, and the drop is not counted. Once \<open>remove_expired_blocks\<close> has run at that same time, the same packet is dropped.
\<close>

theorem expired_block_opens_kernel:
  assumes "kernel_ok w" "cpu < REF_CPUS" "parse_l3 p = L3Ip ip" "read_c_config w = Some cfg" "feat cfg FEAT_BLOCKLIST"
    and "fst (fw_is_allowed ref_os ref_fw (quad (ip_saddr ip)) w) = Inr False" "k_clock w = uint now"
    and "(k, u) \<in> set (ref_view w FD_BLOCKLIST)" "covers (lpm_network k) (unpacked (ip_saddr ip))" "in_force (k_clock w) u"
    and "(host_key (ip_saddr ip), v) \<in> set (ref_view w FD_BLOCKLIST)" "\<not> in_force (k_clock w) v"
    and "fw_remove_expired_blocks ref_os ref_fw w = (r, w')"
  shows "fst (fw_is_blocked ref_os ref_fw (quad (ip_saddr ip)) w) = Inr False \<and>
    xdp_firewall cpu now p w = l4_stages cpu now cfg p ip (arrived cpu p w) \<and>
    count_of (snd (xdp_firewall cpu now p w)) cpu STAT_DROP_BLOCKLIST = count_of w cpu STAT_DROP_BLOCKLIST \<and>
    fst (xdp_firewall cpu now p w') = XDP_DROP"
proof -
  let ?a = "ip_saddr ip"
  have len: "length ?a = 4" by (rule saddr_length [OF assms(3)])
  have not_allowed: "\<not> allowed_source cfg ?a w"
    using assms(6) allowed_source_agrees [OF assms(1) len] by (simp add: allowed_source_def)
  have "kmap_find LPM_TRIE (ref_view w FD_BLOCKLIST) (host_key ?a) = Some v"
    using find_self [OF rf.block_ok [OF assms(1)]] assms(11) by (simp add: ref_fw_simps fds)
  then have hidden: "\<not> live_block now cfg ?a w" using assms(7,12) by (simp add: live_block_found)
  note l4 = xdp_l4 [OF assms(1,2) prod.collapse [symmetric] assms(3,4) not_allowed hidden]
  obtain s fs where "counted fs cpu (fst (xdp_firewall cpu now p w)) s (arrived cpu p w) (snd (xdp_firewall cpu now p w))"
    "s \<noteq> STAT_DROP_BLOCKLIST"
    using xdp_run [OF assms(1,2) prod.collapse [symmetric], of now p] assms(3,4) not_allowed hidden by auto
  then have "count_of (snd (xdp_firewall cpu now p w)) cpu STAT_DROP_BLOCKLIST = count_of w cpu STAT_DROP_BLOCKLIST"
    using arrived_run(3) [OF assms(1,2), where p = p] by (auto simp: counted_def)
  moreover have "fst (xdp_firewall cpu now p w') = XDP_DROP"
  proof -
    note c = cleaned_block_counts [OF assms(1) len assms(7,5,8-10,13)]
    have "read_c_config w' = Some cfg" "\<not> allowed_source cfg ?a w'"
      using lookup_entry_cong [OF c(2)] assms(4) not_allowed by (simp_all add: read_c_config_def allowed_source_def fds)
    with c(3) xdp_run [OF c(1) assms(2) prod.collapse [symmetric], of now p] assms(3) show ?thesis
      by (auto simp: counted_def)
  qed
  ultimately show ?thesis using l4 hidden live_block_agrees [OF assms(1) len assms(5,7)] by simp
qed

text \<open>
  A permanent block of 10.1.2.0/24 and an entry of 10.1.2.3 that has expired one nanosecond ago: a packet from
  10.1.2.3 passes, and is dropped after the cleaning.
\<close>

lemma shadow_passes: "fst (xdp_firewall 0 1000000000 (demo_packet [10, 1, 2, 3]) shadow_kernel) = XDP_PASS"
proof -
  let ?cfg = "\<lparr>cfg_rate = 20000, cfg_burst = 40000, cfg_features = 95, cfg_policy = 0\<rparr> :: c_config"
    and ?ip = "demo_ip_info [10, 1, 2, 3]" and ?p = "demo_packet [10, 1, 2, 3]" and ?w = "arrived 0 (demo_packet [10, 1, 2, 3]) shadow_kernel"
  have cpu: "0 < REF_CPUS" by (simp add: REF_CPUS_def)
  note ar = arrived_run [OF shadow_ok cpu, where p = ?p]
  have clock: "k_clock shadow_kernel = uint (1000000000 :: 64 word)" by (simp add: shadow_clock)
  have "fst (fw_is_allowed ref_os ref_fw (quad (ip_saddr ?ip)) shadow_kernel) = Inr False"
    by (simp add: demo_ip_info_def not_allowed_empty shadow_ok shadow_views)
  moreover have "fst (fw_is_blocked ref_os ref_fw (quad (ip_saddr ?ip)) shadow_kernel) = Inr False"
    by (simp add: demo_ip_info_def shadow_quad shadow_hides)
  ultimately have "\<not> allowed_source ?cfg (ip_saddr ?ip) shadow_kernel" "\<not> live_block 1000000000 ?cfg (ip_saddr ?ip) shadow_kernel"
    using not_listed [OF shadow_ok _ _ clock, of "ip_saddr ?ip" ?cfg] by (simp_all add: demo_ip_info_def)
  from xdp_l4 [OF shadow_ok cpu prod.collapse [symmetric] demo_parse(1) boot_features [OF shadow_views(4)] this]
  have l4: "l4_stages 0 1000000000 ?cfg ?p ?ip ?w =
    (fst (xdp_firewall 0 1000000000 ?p shadow_kernel), snd (xdp_firewall 0 1000000000 ?p shadow_kernel))" .
  have "rule_stage 0 ?cfg 17 \<lparr>l4_dport = 65001, l4_rule_port = 65001, l4_flags = 0\<rparr> ?w = (XDP_PASS, STAT_PASS_DEFAULT, ?w)"
    using ar(2) [of 5] by (simp add: rule_stage_def lookup_entry_def fds ref_decls shadow_views IPPROTO_TCP_def ACTION_DENY_def)
  with l4 have "state_stage 0 1000000000 ?cfg (length ?p) ?ip \<lparr>l4_dport = 65001, l4_rule_port = 65001, l4_flags = 0\<rparr> XDP_PASS STAT_PASS_DEFAULT ?w =
    (fst (xdp_firewall 0 1000000000 ?p shadow_kernel), snd (xdp_firewall 0 1000000000 ?p shadow_kernel))"
    unfolding l4_stages_def demo_l4 by (simp add: demo_ip_info_def)
  note entry = state_stage_entry [OF ar(1) cpu _ _ _ _ this refl]
  have empty: "ref_view ?w FD_SRCSTATE = []" using ar(2) [of FD_SRCSTATE] by (simp add: fds shadow_views)
  obtain r st' where "limit_packet 1000000000 ?cfg XDP_PASS STAT_PASS_DEFAULT
      (count_packet 1000000000 (length ?p) (ip_proto ?ip) \<lparr>l4_dport = 65001, l4_rule_port = 65001, l4_flags = 0\<rparr>
        (fresh_state 1000000000 (cfg_burst ?cfg))) = (fst (xdp_firewall 0 1000000000 ?p shadow_kernel), r, st')"
    using entry unfolding empty by (auto simp: feature_bits demo_ip_info_def C_MAX_TRACKED_def)
  from new_source_not_limited [OF this] show "fst (xdp_firewall 0 1000000000 ?p shadow_kernel) = XDP_PASS" by simp
qed

theorem expired_block_opens_kernel_witness:
  "fst (xdp_firewall 0 1000000000 (demo_packet [10, 1, 2, 3]) shadow_kernel) = XDP_PASS \<and>
   fst (xdp_firewall 0 1000000000 (demo_packet [10, 1, 2, 3]) (snd (fw_remove_expired_blocks ref_os ref_fw shadow_kernel))) = XDP_DROP"
proof -
  have "covers (lpm_network (fst wide_block)) (unpacked [10, 1, 2, 3])" "fst old_block = host_key [10, 1, 2, 3]" by code_simp+
  moreover have "in_force (k_clock shadow_kernel) (snd wide_block)" "\<not> in_force (k_clock shadow_kernel) (snd old_block)"
    by (simp_all only: in_force_def shadow_facts shadow_clock) simp_all
  moreover have "(fst wide_block, snd wide_block) \<in> set (ref_view shadow_kernel FD_BLOCKLIST)"
    "(fst old_block, snd old_block) \<in> set (ref_view shadow_kernel FD_BLOCKLIST)"
    unfolding prod.collapse by (simp_all only: fds shadow_view) simp_all
  moreover have "fst (fw_is_allowed ref_os ref_fw (quad [10, 1, 2, 3]) shadow_kernel) = Inr False"
    by (simp add: not_allowed_empty shadow_ok shadow_views)
  ultimately show ?thesis
    using expired_block_opens_kernel [OF shadow_ok _ demo_parse(1) boot_features [OF shadow_views(4)], of 0 1000000000
        "fst wide_block" "snd wide_block" "snd old_block", OF _ _ _ _ _ _ _ _ _ prod.collapse [symmetric]] shadow_passes
    by (simp add: REF_CPUS_def feature_bits demo_ip_info_def shadow_clock)
qed

end
