(* ===== verification/Aggressiveness.thy ===== *)
theory Aggressiveness
  imports Py_Float
begin

text \<open>
  The load tiers, \<open>class Aggressiveness\<close> of \<open>control/policy.py\<close>: a tier from 0 to 3
  picked from the load at the rate limiter and the share of it that is already dropped.
  Escalation is immediate, relaxing takes \<open>CALM_WINDOWS\<close> calm seconds per tier. The
  class is a record with its two fields, \<open>update\<close> is \<open>aggr_update\<close>, a program over
  that record, and \<open>aggr_run\<close> feeds it a list of one-second loads. The lemmas give the
  invariant of the two fields, the tier as a function of the load history without the counter, the
  bound that makes pulsing useless, and the time a full relaxation takes.
\<close>

section \<open>The class\<close>

definition TIERS :: "(int \<times> int) list" where
  "TIERS = [(20000, 40000), (5000, 10000), (1000, 2000), (200, 400)]"

definition ESCALATE_PPS :: "int list" where
  "ESCALATE_PPS = [0, 20000, 80000, 200000]"

definition ESCALATE_DROP_RATIO :: rat where
  "ESCALATE_DROP_RATIO = 1/2"

definition CALM_WINDOWS :: int where
  "CALM_WINDOWS = 5"

record aggr =
  level :: int
  calm :: int

definition aggr_init :: aggr where
  "aggr_init = \<lparr>level = 0, calm = 0\<rparr>"

text \<open>The tier one second of load asks for: the first two statements of \<open>update\<close>.\<close>

definition aggr_target :: "rat \<Rightarrow> rat \<Rightarrow> int result" where
  "aggr_target pps drop_ratio =
     result_map (\<lambda>target. if drop_ratio \<ge> ESCALATE_DROP_RATIO then max target 2 else target)
       (py_max (map fst (filter (\<lambda>(lvl, limit). pps \<ge> of_int limit) (py_enumerate ESCALATE_PPS))))"

definition aggr_update :: "rat \<Rightarrow> rat \<Rightarrow> (aggr, bool) io" where
  "aggr_update pps drop_ratio =
     (\<lambda>self. case aggr_target pps drop_ratio of
        Inl e \<Rightarrow> (Inl e, self)
      | Inr target \<Rightarrow>
          if target > level self then (Inr True, self\<lparr>level := target, calm := 0\<rparr>)
          else if target = level self then (Inr False, self\<lparr>calm := 0\<rparr>)
          else
            let self = self\<lparr>calm := calm self + 1\<rparr> in
            if calm self \<ge> CALM_WINDOWS
            then (Inr True, self\<lparr>level := level self - 1, calm := 0\<rparr>)
            else (Inr False, self))"

definition aggr_limits :: "aggr \<Rightarrow> (int \<times> int) result" where
  "aggr_limits self = py_index TIERS (level self)"

text \<open>One call per second, fed with a pair of load and drop ratio.\<close>

fun aggr_run :: "(rat \<times> rat) list \<Rightarrow> (aggr, unit) io" where
  "aggr_run [] = io_return ()"
| "aggr_run (l # ls) = io_seq (aggr_update (fst l) (snd l)) (aggr_run ls)"

definition aggr_ok :: "aggr \<Rightarrow> bool" where
  "aggr_ok a \<longleftrightarrow> 0 \<le> level a \<and> level a \<le> 3 \<and> 0 \<le> calm a \<and> calm a < CALM_WINDOWS"

text \<open>The tier the thresholds name, as a closed formula.\<close>

definition tier_of :: "rat \<times> rat \<Rightarrow> int" where
  "tier_of l =
     (let t = (if fst l \<ge> 200000 then 3 else if fst l \<ge> 80000 then 2
               else if fst l \<ge> 20000 then 1 else 0)
      in if snd l \<ge> 1/2 then max t 2 else t)"

section \<open>One second\<close>

lemma aggr_target_tier_of:
  "0 \<le> pps \<Longrightarrow> aggr_target pps d = Inr (tier_of (pps, d))"
  by (auto simp: aggr_target_def py_enumerate_def ESCALATE_PPS_def ESCALATE_DROP_RATIO_def
      tier_of_def Let_def upt_rec)

lemma aggr_target_negative: "pps < 0 \<Longrightarrow> aggr_target pps d = Inl ValueError"
  by (auto simp: aggr_target_def py_enumerate_def ESCALATE_PPS_def upt_rec)

lemma tier_of_range: "0 \<le> tier_of l" "tier_of l \<le> 3"
  by (auto simp: tier_of_def Let_def)

definition aggr_next :: "rat \<times> rat \<Rightarrow> aggr \<Rightarrow> aggr" where
  "aggr_next l a =
     (if tier_of l > level a then \<lparr>level = tier_of l, calm = 0\<rparr>
      else if tier_of l = level a then \<lparr>level = level a, calm = 0\<rparr>
      else if calm a + 1 \<ge> 5 then \<lparr>level = level a - 1, calm = 0\<rparr>
      else \<lparr>level = level a, calm = calm a + 1\<rparr>)"

lemma aggr_update_next:
  "0 \<le> pps \<Longrightarrow>
   aggr_update pps d a =
     (Inr (level (aggr_next (pps, d) a) \<noteq> level a), aggr_next (pps, d) a)"
  by (cases a) (auto simp: aggr_update_def aggr_target_tier_of aggr_next_def CALM_WINDOWS_def Let_def)

lemma aggr_next_ok: "aggr_ok a \<Longrightarrow> aggr_ok (aggr_next l a)"
  using tier_of_range [of l] by (auto simp: aggr_ok_def aggr_next_def CALM_WINDOWS_def)

lemma aggr_run_next:
  "list_all (\<lambda>l. 0 \<le> fst l) ls \<Longrightarrow> aggr_run ls a = (Inr (), fold aggr_next ls a)"
  by (induction ls arbitrary: a) (auto simp: io_simps aggr_update_next)

lemma fold_aggr_next_ok: "aggr_ok a \<Longrightarrow> aggr_ok (fold aggr_next ls a)"
  by (induction ls arbitrary: a) (auto simp: aggr_next_ok)

section \<open>Relaxing\<close>

text \<open>
  While tier \<open>L\<close> is held, the calm counter never exceeds the number of loads below \<open>L\<close>
  seen since the last one that reached it.
\<close>

fun quiet_tail :: "int \<Rightarrow> (rat \<times> rat) list \<Rightarrow> nat" where
  "quiet_tail L ls = length (takeWhile (\<lambda>l. tier_of l < L) (rev ls))"

lemma quiet_tail_snoc:
  "quiet_tail L (ls @ [l]) = (if tier_of l < L then Suc (quiet_tail L ls) else 0)"
  by simp

lemma hold_tier:
  assumes "level a \<ge> L" "level a = L \<Longrightarrow> calm a = 0"
    and "\<And>xs ys. ls = xs @ ys \<Longrightarrow> quiet_tail L xs < 5"
  shows "level (fold aggr_next ls a) \<ge> L \<and>
    (level (fold aggr_next ls a) = L \<longrightarrow> calm (fold aggr_next ls a) \<le> int (quiet_tail L ls))"
  using assms(3)
proof (induction ls rule: rev_induct)
  case Nil
  then show ?case using assms by auto
next
  case (snoc l ls)
  let ?b = "fold aggr_next ls a"
  have "quiet_tail L xs < 5" if "ls = xs @ ys" for xs ys
    using snoc.prems [of xs "ys @ [l]"] that by simp
  then have IH: "level ?b \<ge> L" "level ?b = L \<longrightarrow> calm ?b \<le> int (quiet_tail L ls)"
    using snoc.IH by blast+
  have q: "quiet_tail L (ls @ [l]) < 5" using snoc.prems [of "ls @ [l]" "[]"] by simp
  show ?case
    using IH q by (simp only: quiet_tail_snoc fold_append fold.simps comp_apply id_apply)
      (auto simp: aggr_next_def split: if_splits)
qed

lemma quiet_tail_bound:
  assumes "\<And>xs ys zs. ls = xs @ ys @ zs \<Longrightarrow> length ys = 5 \<Longrightarrow> \<exists>l \<in> set ys. L \<le> tier_of l"
    and "ls = us @ vs"
  shows "quiet_tail L us < 5"
proof (rule ccontr)
  let ?P = "\<lambda>l. tier_of l < L"
  let ?q = "takeWhile ?P (rev us)"
  assume "\<not> quiet_tail L us < 5"
  then have len: "5 \<le> length ?q" by simp
  have "rev us = take 5 ?q @ (drop 5 ?q @ dropWhile ?P (rev us))"
    by (metis append.assoc append_take_drop_id takeWhile_dropWhile_id)
  then have "us = rev (drop 5 ?q @ dropWhile ?P (rev us)) @ rev (take 5 ?q)"
    by (metis rev_append rev_rev_ident)
  then have "ls = rev (drop 5 ?q @ dropWhile ?P (rev us)) @ rev (take 5 ?q) @ vs"
    using assms(2) by simp
  moreover have "length (rev (take 5 ?q)) = 5" using len by simp
  ultimately obtain l where "l \<in> set (rev (take 5 ?q))" "L \<le> tier_of l"
    using assms(1) by blast
  then show False by (auto dest!: in_set_takeD set_takeWhileD)
qed

lemma relax_block:
  "tier_of l < L \<Longrightarrow> j \<le> 4 \<Longrightarrow>
   (aggr_next l ^^ j) \<lparr>level = L, calm = 0\<rparr> = \<lparr>level = L, calm = int j\<rparr>"
  by (induction j) (auto simp: aggr_next_def)

lemma relax_one:
  "tier_of l < L \<Longrightarrow> (aggr_next l ^^ 5) \<lparr>level = L, calm = 0\<rparr> = \<lparr>level = L - 1, calm = 0\<rparr>"
proof -
  assume l: "tier_of l < L"
  have "(aggr_next l ^^ Suc 4) \<lparr>level = L, calm = 0\<rparr> = aggr_next l \<lparr>level = L, calm = 4\<rparr>"
    using relax_block [OF l, of 4] by (simp only: funpow.simps comp_apply) simp
  with l show ?thesis by (simp add: aggr_next_def)
qed

lemma relax_many:
  "tier_of l \<le> L - int k \<Longrightarrow>
   (aggr_next l ^^ (5 * k)) \<lparr>level = L, calm = 0\<rparr> = \<lparr>level = L - int k, calm = 0\<rparr>"
proof (induction k arbitrary: L)
  case (Suc k)
  have "aggr_next l ^^ (5 * Suc k) = (aggr_next l ^^ (5 * k)) \<circ> (aggr_next l ^^ 5)"
    by (simp only: funpow_add [symmetric] mult_Suc_right add.commute)
  moreover have "(aggr_next l ^^ 5) \<lparr>level = L, calm = 0\<rparr> = \<lparr>level = L - 1, calm = 0\<rparr>"
    using Suc.prems by (intro relax_one) simp
  moreover have "tier_of l \<le> (L - 1) - int k" using Suc.prems by simp
  ultimately show ?case using Suc.IH [of "L - 1"] by (simp only: comp_apply) simp
qed simp

section \<open>The tier as a function of the history\<close>

definition tier_at :: "(rat \<times> rat) list \<Rightarrow> nat \<Rightarrow> int" where
  "tier_at ls n = level (snd (aggr_run (take n ls) aggr_init))"

text \<open>The \<open>k\<close> seconds before second \<open>n\<close> were quiet: they found the present tier and asked for less.\<close>

definition quiet_before :: "(rat \<times> rat) list \<Rightarrow> nat \<Rightarrow> nat \<Rightarrow> bool" where
  "quiet_before ls n k \<longleftrightarrow> k \<le> n \<and>
     (\<forall>m \<in> {n - k..<n}. tier_at ls m = tier_at ls n \<and> tier_of (ls ! m) < tier_at ls n)"

lemma loads_take: "list_all P ls \<Longrightarrow> list_all P (take n ls)"
  by (auto simp: list_all_iff dest: in_set_takeD)

lemma tier_at_fold:
  "list_all (\<lambda>l. 0 \<le> fst l) ls \<Longrightarrow> tier_at ls n = level (fold aggr_next (take n ls) aggr_init)"
  by (simp add: tier_at_def aggr_run_next loads_take)

lemma quiet_before_Suc:
  "quiet_before ls (Suc n) (Suc k) \<longleftrightarrow>
   tier_at ls n = tier_at ls (Suc n) \<and> tier_of (ls ! n) < tier_at ls (Suc n) \<and> quiet_before ls n k"
proof (cases "k \<le> n")
  case True
  then have "{Suc n - Suc k..<Suc n} = insert n {n - k..<n}" by auto
  with True show ?thesis unfolding quiet_before_def by auto
qed (simp add: quiet_before_def)

lemma quiet_before_now:
  "quiet_before ls i k \<and> tier_of (ls ! i) < tier_at ls i \<longleftrightarrow>
   k \<le> i \<and> (\<forall>m \<in> {i - k..i}. tier_at ls m = tier_at ls i \<and> tier_of (ls ! m) < tier_at ls i)"
proof -
  have "{i - k..i} = insert i {i - k..<i}" by auto
  then show ?thesis unfolding quiet_before_def by auto
qed

text \<open>The calm counter is the number of quiet seconds just past.\<close>

lemma quiet_before_calm:
  assumes "list_all (\<lambda>l. 0 \<le> fst l) ls"
  shows "n \<le> length ls \<Longrightarrow> quiet_before ls n k \<longleftrightarrow> int k \<le> calm (fold aggr_next (take n ls) aggr_init)"
proof (induction n arbitrary: k)
  case 0
  then show ?case by (auto simp: quiet_before_def aggr_init_def)
next
  case (Suc n)
  let ?a = "fold aggr_next (take n ls) aggr_init"
  have "aggr_ok ?a"
    by (rule fold_aggr_next_ok) (simp add: aggr_init_def aggr_ok_def CALM_WINDOWS_def)
  then have pos: "0 \<le> calm ?a" "0 \<le> calm (aggr_next (ls ! n) ?a)"
    using aggr_next_ok by (simp_all add: aggr_ok_def)
  have step: "fold aggr_next (take (Suc n) ls) aggr_init = aggr_next (ls ! n) ?a"
    using Suc.prems by (simp add: take_Suc_conv_app_nth)
  have tiers: "tier_at ls n = level ?a" "tier_at ls (Suc n) = level (aggr_next (ls ! n) ?a)"
    using assms by (simp_all add: tier_at_fold step)
  show ?case
  proof (cases k)
    case 0
    then show ?thesis using pos(2) unfolding step by (simp add: quiet_before_def)
  next
    case (Suc j)
    have "quiet_before ls n j \<longleftrightarrow> int j \<le> calm ?a" using Suc.IH Suc.prems by simp
    then show ?thesis using pos(1) unfolding Suc quiet_before_Suc tiers step
      by (auto simp: aggr_next_def)
  qed
qed

section \<open>Properties\<close>

text \<open>
  C17. Every second of load from a fresh controller leaves the tier between 0 and 3 and the
  calm counter below five, never raises for loads that are not negative, and the tier has a
  rate and a burst: the run of \<open>update\<close> over any list of loads ends in a state where
  \<open>limits\<close> returns.
\<close>

theorem aggr_run_safe:
  assumes "list_all (\<lambda>l. 0 \<le> fst l) ls"
  shows "\<exists>a rate burst. aggr_run ls aggr_init = (Inr (), a) \<and> aggr_ok a \<and>
    aggr_limits a = Inr (rate, burst) \<and> 200 \<le> rate \<and> rate \<le> 20000 \<and> burst = 2 * rate"
proof -
  define a where "a = fold aggr_next ls aggr_init"
  have ok: "aggr_ok a"
    unfolding a_def by (rule fold_aggr_next_ok) (simp add: aggr_init_def aggr_ok_def CALM_WINDOWS_def)
  then have "level a \<in> {0, 1, 2, 3}" by (auto simp: aggr_ok_def)
  then have "\<exists>rate burst. aggr_limits a = Inr (rate, burst) \<and> 200 \<le> rate \<and> rate \<le> 20000 \<and>
      burst = 2 * rate"
    by (auto simp: aggr_limits_def py_index_def TIERS_def)
  with ok assms show ?thesis by (auto simp: aggr_run_next a_def)
qed

theorem aggr_run_safe_witness:
  "\<exists>a rate burst. aggr_run [(300000, 0), (0, 0)] aggr_init = (Inr (), a) \<and> aggr_ok a \<and>
    aggr_limits a = Inr (rate, burst) \<and> 200 \<le> rate \<and> rate \<le> 20000 \<and> burst = 2 * rate"
  by (rule aggr_run_safe) simp

text \<open>
  C18. The tier is a function of the load history alone: for loads that are not negative, the tier
  after a second is the tier that second asks for when that is the tier held or a higher one
  (escalation is immediate and may skip tiers). Otherwise it is one tier less when the last five
  seconds, this one included, all asked for less than the tier and all found this same tier in force, and
  the tier held in every other case. \<open>update\<close> returns whether the tier changed. The
  thresholds are 20000, 80000 and 200000 packets per second, and a drop ratio of a half asks for
  tier 2 at least (\<open>tier_of\<close>).
\<close>

theorem tier_by_history:
  assumes "list_all (\<lambda>l. 0 \<le> fst l) ls" "i < length ls"
  shows "tier_at ls (Suc i) =
      (if tier_at ls i \<le> tier_of (ls ! i) then tier_of (ls ! i)
       else if 4 \<le> i \<and> (\<forall>m \<in> {i - 4..i}. tier_at ls m = tier_at ls i \<and> tier_of (ls ! m) < tier_at ls i)
       then tier_at ls i - 1 else tier_at ls i) \<and>
    fst (aggr_update (fst (ls ! i)) (snd (ls ! i)) (snd (aggr_run (take i ls) aggr_init))) =
      Inr (tier_at ls (Suc i) \<noteq> tier_at ls i)"
proof
  let ?a = "fold aggr_next (take i ls) aggr_init"
  have now: "tier_at ls i = level ?a" "tier_at ls (Suc i) = level (aggr_next (ls ! i) ?a)"
    using assms by (simp_all add: tier_at_fold take_Suc_conv_app_nth)
  have "4 \<le> calm ?a \<longleftrightarrow> quiet_before ls i 4" using quiet_before_calm [OF assms(1), of i 4] assms(2) by simp
  then have "tier_at ls (Suc i) =
      (if tier_at ls i \<le> tier_of (ls ! i) then tier_of (ls ! i)
       else if quiet_before ls i 4 \<and> tier_of (ls ! i) < tier_at ls i then tier_at ls i - 1 else tier_at ls i)"
    unfolding now(2) by (auto simp: aggr_next_def now(1))
  then show "tier_at ls (Suc i) =
      (if tier_at ls i \<le> tier_of (ls ! i) then tier_of (ls ! i)
       else if 4 \<le> i \<and> (\<forall>m \<in> {i - 4..i}. tier_at ls m = tier_at ls i \<and> tier_of (ls ! m) < tier_at ls i)
       then tier_at ls i - 1 else tier_at ls i)"
    unfolding quiet_before_now .
  have "0 \<le> fst (ls ! i)" using assms by (simp add: list_all_length)
  then show "fst (aggr_update (fst (ls ! i)) (snd (ls ! i)) (snd (aggr_run (take i ls) aggr_init))) =
      Inr (tier_at ls (Suc i) \<noteq> tier_at ls i)"
    using assms(1) by (simp add: aggr_run_next loads_take aggr_update_next now)
qed

definition demo_loads :: "(rat \<times> rat) list" where
  "demo_loads = (300000, 0) # replicate 5 (0, 0)"

theorem tier_by_history_witness:
  "tier_at demo_loads 5 = 3 \<and> tier_at demo_loads (Suc 5) = 2"
proof -
  have loads: "list_all (\<lambda>l. 0 \<le> fst l) demo_loads" "5 < length demo_loads"
    by (simp_all add: demo_loads_def list_all_iff)
  have early: "tier_at demo_loads m = 3" if "m \<in> {1..5}" for m
  proof -
    from that have "m \<in> {1, 2, 3, 4, 5}" by auto
    then show ?thesis
      by (auto simp: demo_loads_def tier_at_def aggr_init_def aggr_update_next aggr_next_def tier_of_def io_simps numeral_eq_Suc)
  qed
  have quiet: "tier_of (demo_loads ! m) = 0" if "m \<in> {1..5}" for m
    using that by (auto simp: demo_loads_def nth_Cons' tier_of_def)
  have held: "4 \<le> (5::nat) \<and> (\<forall>m \<in> {5 - 4..5}. tier_at demo_loads m = tier_at demo_loads 5 \<and> tier_of (demo_loads ! m) < tier_at demo_loads 5)"
    "\<not> tier_at demo_loads 5 \<le> tier_of (demo_loads ! 5)"
    using early quiet by auto
  have "tier_at demo_loads (Suc 5) = tier_at demo_loads 5 - 1"
    by (rule trans [OF conjunct1 [OF tier_by_history [OF loads]] trans [OF if_not_P [OF held(2)] if_P [OF held(1)]]])
  with early show ?thesis by simp
qed

text \<open>
  Pulsing does not buy the loose limit back: if in every five consecutive seconds of a
  run at least one asks for tier \<open>L\<close> or more, a controller that starts the run at tier
  \<open>L\<close> or above is never below \<open>L\<close>, at any point of the run.
\<close>

theorem pulsing_keeps_tier:
  assumes "level a \<ge> L" "calm a = 0" "list_all (\<lambda>l. 0 \<le> fst l) ls"
    and "\<forall>xs ys zs. ls = xs @ ys @ zs \<longrightarrow> length ys = 5 \<longrightarrow> list_ex (\<lambda>l. L \<le> tier_of l) ys"
  shows "L \<le> level (snd (aggr_run (take n ls) a))"
proof -
  have "quiet_tail L us < 5" if "take n ls = us @ vs" for us vs
  proof (rule quiet_tail_bound)
    show "ls = us @ (vs @ drop n ls)" using that by (metis append.assoc append_take_drop_id)
    show "\<exists>l \<in> set ys. L \<le> tier_of l" if "ls = xs @ ys @ zs" "length ys = 5" for xs ys zs
      using assms(4) that by (auto simp: list_ex_iff)
  qed
  then have "L \<le> level (fold aggr_next (take n ls) a)"
    using hold_tier [of L a "take n ls"] assms(1,2) by blast
  moreover have "list_all (\<lambda>l. 0 \<le> fst l) (take n ls)"
    using assms(3) by (auto simp: list_all_iff dest: in_set_takeD)
  ultimately show ?thesis by (simp add: aggr_run_next)
qed

theorem pulsing_keeps_tier_witness:
  "3 \<le> level (snd (aggr_run (take 4 [(0, 0), (0, 0), (0, 0), (0, 0), (300000, 0)]) \<lparr>level = 3, calm = 0\<rparr>))"
proof (rule pulsing_keeps_tier)
  let ?ls = "[(0, 0), (0, 0), (0, 0), (0, 0), (300000, 0)] :: (rat \<times> rat) list"
  show "\<forall>xs ys zs. ?ls = xs @ ys @ zs \<longrightarrow> length ys = 5 \<longrightarrow> list_ex (\<lambda>l. 3 \<le> tier_of l) ys"
  proof (intro allI impI)
    fix xs ys zs
    assume e: "?ls = xs @ ys @ zs" and l: "length ys = 5"
    have "length ?ls = length xs + length ys + length zs" by (simp only: e length_append)
    with l have "xs = []" "zs = []" by simp_all
    with e have "ys = ?ls" by simp
    then show "list_ex (\<lambda>l. 3 \<le> tier_of l) ys" by (simp add: tier_of_def)
  qed
qed simp_all

text \<open>
  Relaxation takes exactly five calm seconds per tier: from tier \<open>L\<close> with a fresh
  calm counter, \<open>5 * k\<close> equal seconds of load that ask for tier \<open>L - k\<close> or less end at
  tier \<open>L - k\<close>, and one second fewer still holds tier \<open>L - k + 1\<close>.
\<close>

theorem relax_time:
  assumes "0 \<le> fst l" "0 < k" "tier_of l \<le> L - int k"
  shows "aggr_run (replicate (5 * k) l) \<lparr>level = L, calm = 0\<rparr> =
      (Inr (), \<lparr>level = L - int k, calm = 0\<rparr>) \<and>
    aggr_run (replicate (5 * k - 1) l) \<lparr>level = L, calm = 0\<rparr> =
      (Inr (), \<lparr>level = L - int k + 1, calm = 4\<rparr>)"
proof
  have run: "aggr_run (replicate n l) b = (Inr (), (aggr_next l ^^ n) b)" for n b
    using assms(1) aggr_run_next [of "replicate n l" b] by (simp add: list_all_iff)
  show "aggr_run (replicate (5 * k) l) \<lparr>level = L, calm = 0\<rparr> =
      (Inr (), \<lparr>level = L - int k, calm = 0\<rparr>)"
    using relax_many [OF assms(3)] by (simp only: run)
  obtain j where k: "k = Suc j" using assms(2) by (cases k) auto
  then have n: "5 * k - 1 = 4 + 5 * j" by simp
  have "(aggr_next l ^^ (5 * j)) \<lparr>level = L, calm = 0\<rparr> = \<lparr>level = L - int j, calm = 0\<rparr>"
    using assms(3) by (intro relax_many) (simp add: k)
  moreover have "(aggr_next l ^^ 4) \<lparr>level = L - int j, calm = 0\<rparr> = \<lparr>level = L - int j, calm = 4\<rparr>"
    using relax_block [of l "L - int j" 4] assms(3) by (simp add: k)
  ultimately show "aggr_run (replicate (5 * k - 1) l) \<lparr>level = L, calm = 0\<rparr> =
      (Inr (), \<lparr>level = L - int k + 1, calm = 4\<rparr>)"
    by (simp only: run n funpow_add comp_apply) (simp add: k)
qed

theorem relax_time_witness:
  "aggr_run (replicate (5 * 2) (0, 0)) \<lparr>level = 3, calm = 0\<rparr> =
      (Inr (), \<lparr>level = 3 - int 2, calm = 0\<rparr>) \<and>
    aggr_run (replicate (5 * 2 - 1) (0, 0)) \<lparr>level = 3, calm = 0\<rparr> =
      (Inr (), \<lparr>level = 3 - int 2 + 1, calm = 4\<rparr>)"
  by (rule relax_time) (simp_all add: tier_of_def)

end
