(* ===== verification/Blocker.thy ===== *)
theory Blocker
  imports Py_Float Fw_Layout
begin

text \<open>
  The auto-blocker, \<open>class Blocker\<close> of \<open>control/policy.py\<close>. Its fields are a record,
  its methods are programs over that record and the outside world. What it calls outside
  itself (\<open>time.time\<close>, \<open>time.strftime\<close> and the two methods of the firewall object it
  was given, which the unit tests replace by a fake) is the record \<open>blk_env\<close>. The locale
  \<open>firewall_service\<close> states what a client of the firewall may assume of those methods;
  the guard rails are proved in it once and reach the real firewall by interpretation.
\<close>

section \<open>The class\<close>

definition STRIKES :: int where
  "STRIKES = 2"

definition DURATIONS :: "int list" where
  "DURATIONS = [60, 300, 900]"

definition MAX_PER_WINDOW :: int where
  "MAX_PER_WINDOW = 32"

type_synonym ip = string
type_synonym verdicts = "(ip, string option) dict"

record blocker =
  dry_run :: bool
  strikes :: "(ip, int) dict"
  offences :: "(ip, int) dict"
  until :: "(ip, rat) dict"
  blocks_issued :: int
  log :: "(string \<times> string) list"

record 'w blk_env =
  env_time :: "'w \<Rightarrow> rat \<times> 'w"
  env_strftime :: "'w \<Rightarrow> string \<times> 'w"
  env_is_allowed :: "ip \<Rightarrow> ('w, bool) io"
  env_block :: "ip \<Rightarrow> int \<Rightarrow> int \<Rightarrow> ('w, unit) io"

definition blocker_init :: "bool \<Rightarrow> blocker" where
  "blocker_init dry =
     \<lparr>dry_run = dry, strikes = [], offences = [], until = [], blocks_issued = 0, log = []\<rparr>"

definition blocker_is_blocked :: "'w blk_env \<Rightarrow> ip \<Rightarrow> (blocker \<times> 'w, bool) io" where
  "blocker_is_blocked env ip =
     io_bind io_self (\<lambda>self.
     io_bind (io_outer (io_read (env_time env))) (\<lambda>now.
     io_return (dict_get (until self) ip 0 > now)))"

definition blocker_note :: "'w blk_env \<Rightarrow> string \<Rightarrow> (blocker \<times> 'w, unit) io" where
  "blocker_note env msg =
     io_bind (io_outer (io_read (env_strftime env))) (\<lambda>ts.
     io_modify (\<lambda>self. self\<lparr>log := deque_append 12 (log self) (ts, msg)\<rparr>))"

text \<open>\<open>self.strikes.pop(ip)\<close>; the key is there whenever the loop gets to it.\<close>

definition pop_strikes :: "ip \<Rightarrow> (blocker \<times> 'w, unit) io" where
  "pop_strikes ip =
     io_bind io_self (\<lambda>self.
     if map_of (strikes self) ip = None then io_raise KeyError
     else io_modify (\<lambda>self. self\<lparr>strikes := dict_del ip (strikes self)\<rparr>))"

text \<open>A clean window: one strike less, or none.\<close>

definition decay :: "ip \<Rightarrow> blocker \<Rightarrow> blocker" where
  "decay ip self =
     (if dict_get (strikes self) ip 0 > 1
      then self\<lparr>strikes := dict_set ip (dict_get (strikes self) ip 0 - 1) (strikes self)\<rparr>
      else self\<lparr>strikes := dict_del ip (strikes self)\<rparr>)"

definition add_strike :: "ip \<Rightarrow> blocker \<Rightarrow> blocker" where
  "add_strike ip self =
     self\<lparr>strikes := dict_set ip (dict_get (strikes self) ip 0 + 1) (strikes self)\<rparr>"

text \<open>The last part of the loop body: the block itself and its book-keeping.\<close>

definition issue_block :: "'w blk_env \<Rightarrow> rat \<Rightarrow> ip \<Rightarrow> string \<Rightarrow> (blocker \<times> 'w, unit) io" where
  "issue_block env now ip reason =
     io_bind io_self (\<lambda>self.
     let n = dict_get (offences self) ip 0 in
     io_bind (io_of (py_index DURATIONS (min n (int (length DURATIONS) - 1)))) (\<lambda>duration.
     io_seq (if dry_run self then io_return ()
             else io_outer (env_block env ip duration BLOCK_AUTO))
    (io_seq (io_modify (\<lambda>self. self\<lparr>
               offences := dict_set ip (n + 1) (offences self),
               until := dict_set ip (fl (now + of_int duration)) (until self)\<rparr>))
    (io_seq (pop_strikes ip)
    (io_seq (io_modify (\<lambda>self. self\<lparr>blocks_issued := blocks_issued self + 1\<rparr>))
    (blocker_note env
       ((if dry_run self then ''WOULD BLOCK'' else ''BLOCKED'') @ '' '' @ ip @ '' for ''
        @ py_str_int duration @ ''s ('' @ reason @ '')'')))))))"

text \<open>One turn of the loop over \<open>verdicts.items()\<close>; it returns the new value of \<open>issued\<close>.\<close>

definition blocker_visit ::
    "'w blk_env \<Rightarrow> rat \<Rightarrow> ip \<Rightarrow> string option \<Rightarrow> int \<Rightarrow> (blocker \<times> 'w, int) io" where
  "blocker_visit env now ip reason issued =
     (case reason of
        None \<Rightarrow> io_seq (io_modify (decay ip)) (io_return issued)
      | Some why \<Rightarrow>
          io_seq (io_modify (add_strike ip))
         (io_bind io_self (\<lambda>self.
          if dict_get (strikes self) ip 0 < STRIKES then io_return issued
          else io_bind (blocker_is_blocked env ip) (\<lambda>already.
          if already then io_seq (pop_strikes ip) (io_return issued)
          else io_bind (io_outer (env_is_allowed env ip)) (\<lambda>okay.
          if okay then
            io_seq (blocker_note env (ip @ '' flagged ('' @ why @ '') but allowlisted''))
           (io_seq (pop_strikes ip) (io_return issued))
          else if issued \<ge> MAX_PER_WINDOW then io_return issued
          else io_seq (issue_block env now ip why) (io_return (issued + 1)))))))"

fun blocker_loop ::
    "'w blk_env \<Rightarrow> rat \<Rightarrow> int \<Rightarrow> verdicts \<Rightarrow> (blocker \<times> 'w, unit) io" where
  "blocker_loop env now issued [] = io_return ()"
| "blocker_loop env now issued ((ip, reason) # vs) =
     io_bind (blocker_visit env now ip reason issued) (\<lambda>issued'. blocker_loop env now issued' vs)"

definition blocker_update :: "'w blk_env \<Rightarrow> verdicts \<Rightarrow> (blocker \<times> 'w, unit) io" where
  "blocker_update env vs =
     io_bind (io_outer (io_read (env_time env))) (\<lambda>now. blocker_loop env now 0 vs)"

text \<open>One call of \<open>update\<close> per window.\<close>

fun blocker_run :: "'w blk_env \<Rightarrow> verdicts list \<Rightarrow> (blocker \<times> 'w, unit) io" where
  "blocker_run env [] = io_return ()"
| "blocker_run env (vs # vss) = io_seq (blocker_update env vs) (blocker_run env vss)"

text \<open>
  The strike count of one source over windows, as the class comment describes it: a flagged
  window adds one, a clean window takes one away, a window without the source changes nothing.
\<close>

definition strike_next :: "ip \<Rightarrow> verdicts \<Rightarrow> int \<Rightarrow> int" where
  "strike_next ip vs s =
     (case map_of vs ip of
        None \<Rightarrow> s
      | Some None \<Rightarrow> max 0 (s - 1)
      | Some (Some _) \<Rightarrow> s + 1)"

definition blocker_ok :: "blocker \<Rightarrow> bool" where
  "blocker_ok b \<longleftrightarrow>
     dict_ok (strikes b) \<and> dict_ok (offences b) \<and> dict_ok (until b) \<and>
     list_all (\<lambda>p. 1 \<le> snd p) (strikes b) \<and> list_all (\<lambda>p. 1 \<le> snd p) (offences b) \<and>
     map fst (until b) = map fst (offences b) \<and>
     blocks_issued b = sum_list (map snd (offences b)) \<and> length (log b) \<le> 12"

section \<open>One turn of the loop\<close>

lemma dict_del_set [simp]: "dict_del k (dict_set k v d) = dict_del k d"
  by (simp add: dict_del_def dict_set_def delete_update_same)

lemma add_strike_simps [simp]:
  "dict_get (strikes (add_strike ip b)) ip 0 = dict_get (strikes b) ip 0 + 1"
  "map_of (strikes (add_strike ip b)) ip \<noteq> None"
  "until (add_strike ip b) = until b" "offences (add_strike ip b) = offences b"
  "dry_run (add_strike ip b) = dry_run b" "log (add_strike ip b) = log b"
  "blocks_issued (add_strike ip b) = blocks_issued b"
  by (simp_all add: add_strike_def)

definition cleared :: "ip \<Rightarrow> blocker \<Rightarrow> blocker" where
  "cleared ip b = b\<lparr>strikes := dict_del ip (strikes b)\<rparr>"

lemma pop_after_strike:
  "strikes c = strikes (add_strike ip b) \<Longrightarrow> pop_strikes ip (c, w) = (Inr (), (cleared ip c, w))"
  by (simp add: pop_strikes_def io_simps cleared_def add_strike_def)

text \<open>The record after a block, before the note in the log.\<close>

definition booked :: "rat \<Rightarrow> ip \<Rightarrow> int \<Rightarrow> blocker \<Rightarrow> blocker" where
  "booked now ip duration b = b\<lparr>
     strikes := dict_del ip (strikes b),
     offences := dict_set ip (dict_get (offences b) ip 0 + 1) (offences b),
     until := dict_set ip (fl (now + of_int duration)) (until b),
     blocks_issued := blocks_issued b + 1\<rparr>"

lemma issue_block_cases:
  assumes "issue_block env now ip why (add_strike ip b, w) = (r, (b', w'))"
  obtains (raised) e where "r = Inl e" "b' = add_strike ip b"
      "w' = w \<or> (\<exists>d \<in> set DURATIONS. \<not> dry_run b \<and> env_block env ip d BLOCK_AUTO w = (Inl e, w'))"
  | (blocked) d w1 ts msg where "r = Inr ()"
      "py_index DURATIONS (min (dict_get (offences b) ip 0) 2) = Inr d"
      "if dry_run b then w1 = w else env_block env ip d BLOCK_AUTO w = (Inr (), w1)"
      "env_strftime env w1 = (ts, w')"
      "b' = (booked now ip d b)\<lparr>log := deque_append 12 (log b) (ts, msg)\<rparr>"
proof -
  let ?n = "dict_get (offences b) ip 0"
  have len: "int (length DURATIONS) - 1 = 2" by (simp add: DURATIONS_def)
  show thesis
  proof (cases "py_index DURATIONS (min ?n 2)")
    case (Inl e)
    with assms len show thesis
      by (intro raised) (auto simp: issue_block_def io_simps Let_def)
  next
    case (Inr d)
    obtain rb w1 where rb: "(if dry_run b then (Inr (), w) else env_block env ip d BLOCK_AUTO w) = (rb, w1)"
      by fastforce
    show thesis
    proof (cases rb)
      case (Inl e)
      with assms len \<open>py_index _ _ = Inr d\<close> py_index_mem [OF \<open>py_index _ _ = Inr d\<close>] rb show thesis
        by (intro raised) (auto simp: issue_block_def io_simps Let_def split: if_splits)
    next
      case (Inr u)
      have run: "(r, (b', w')) = (Inr (),
          ((booked now ip d b)\<lparr>log := deque_append 12 (log b) (fst (env_strftime env w1),
            (if dry_run b then ''WOULD BLOCK'' else ''BLOCKED'') @ '' '' @ ip @ '' for ''
              @ py_str_int d @ ''s ('' @ why @ '')'')\<rparr>, snd (env_strftime env w1)))"
        unfolding assms [symmetric]
        using len \<open>py_index _ _ = Inr d\<close> rb Inr
        by (cases "dry_run b")
          (simp_all add: issue_block_def io_simps Let_def blocker_note_def pop_after_strike
            cleared_def booked_def add_strike_def)
      show thesis
        using run rb Inr \<open>py_index _ _ = Inr d\<close>
        by (intro blocked [of d w1 "fst (env_strftime env w1)"]) (auto split: if_splits)
    qed
  qed
qed

lemma visit_cases:
  assumes "blocker_visit env now ip reason issued (b, w) = (r, (b', w'))"
  obtains (clean) "reason = None" "r = Inr issued" "b' = decay ip b" "w' = w"
  | (struck) why where "reason = Some why" "r = Inr issued" "b' = add_strike ip b" "w' = w"
      "dict_get (strikes b) ip 0 < 1"
  | (running) why where "reason = Some why" "r = Inr issued" "b' = cleared ip b"
      "w' = snd (env_time env w)" "1 \<le> dict_get (strikes b) ip 0"
      "fst (env_time env w) < dict_get (until b) ip 0"
  | (allowlisted) why w2 ts msg where "reason = Some why" "r = Inr issued"
      "b' = (cleared ip b)\<lparr>log := deque_append 12 (log b) (ts, msg)\<rparr>"
      "env_is_allowed env ip (snd (env_time env w)) = (Inr True, w2)"
      "env_strftime env w2 = (ts, w')" "1 \<le> dict_get (strikes b) ip 0"
      "dict_get (until b) ip 0 \<le> fst (env_time env w)"
  | (capped) why where "reason = Some why" "r = Inr issued" "b' = add_strike ip b"
      "env_is_allowed env ip (snd (env_time env w)) = (Inr False, w')" "32 \<le> issued"
      "1 \<le> dict_get (strikes b) ip 0" "dict_get (until b) ip 0 \<le> fst (env_time env w)"
  | (check_raised) why e where "reason = Some why" "r = Inl e" "b' = add_strike ip b"
      "env_is_allowed env ip (snd (env_time env w)) = (Inl e, w')"
      "1 \<le> dict_get (strikes b) ip 0"
  | (block_raised) why e w2 where "reason = Some why" "r = Inl e" "b' = add_strike ip b"
      "env_is_allowed env ip (snd (env_time env w)) = (Inr False, w2)"
      "issue_block env now ip why (add_strike ip b, w2) = (Inl e, (b', w'))"
      "1 \<le> dict_get (strikes b) ip 0" "issued < 32"
  | (issued) why w2 where "reason = Some why" "r = Inr (issued + 1)"
      "env_is_allowed env ip (snd (env_time env w)) = (Inr False, w2)"
      "issue_block env now ip why (add_strike ip b, w2) = (Inr (), (b', w'))"
      "1 \<le> dict_get (strikes b) ip 0" "issued < 32"
      "dict_get (until b) ip 0 \<le> fst (env_time env w)"
proof (cases reason)
  case None
  with assms clean show thesis by (simp add: blocker_visit_def io_simps)
next
  case (Some why)
  note unfold = blocker_visit_def io_simps blocker_is_blocked_def STRIKES_def MAX_PER_WINDOW_def
  show thesis
  proof (cases "dict_get (strikes b) ip 0 < 1")
    case True
    with assms Some show thesis by (intro struck) (auto simp: unfold)
  next
    case s: False
    show thesis
    proof (cases "fst (env_time env w) < dict_get (until b) ip 0")
      case True
      with assms Some s show thesis
        by (intro running) (auto simp: unfold pop_after_strike cleared_def add_strike_def)
    next
      case u: False
      obtain ra w2 where ra: "env_is_allowed env ip (snd (env_time env w)) = (ra, w2)" by fastforce
      show thesis
      proof (cases ra)
        case (Inl e)
        with assms Some s u ra show thesis by (intro check_raised) (auto simp: unfold)
      next
        case (Inr okay)
        consider (a) okay | (c) "\<not> okay" "32 \<le> issued" | (i) "\<not> okay" "issued < 32" by linarith
        then show thesis
        proof cases
          case a
          with assms Some s u ra Inr show thesis
            by (intro allowlisted [of why "fst (env_strftime env w2)"
                  "ip @ '' flagged ('' @ why @ '') but allowlisted''" w2])
              (auto simp: unfold pop_after_strike cleared_def add_strike_def blocker_note_def)
        next
          case c
          with assms Some s u ra Inr show thesis by (intro capped) (auto simp: unfold)
        next
          case i
          obtain ri b2 w3 where ri: "issue_block env now ip why (add_strike ip b, w2) = (ri, (b2, w3))"
            by (metis prod.exhaust)
          show thesis
          proof (cases ri)
            case (Inl e)
            then have "b2 = add_strike ip b" using ri by (auto elim: issue_block_cases)
            with assms Some s u ra Inr i ri Inl show thesis
              by (intro block_raised) (auto simp: unfold)
          next
            case (Inr _)
            with assms Some s u ra \<open>ra = Inr okay\<close> i ri show thesis
              by (intro issued) (auto simp: unfold)
          qed
        qed
      qed
    qed
  qed
qed

section \<open>The whole loop\<close>

text \<open>An invariant of the turns is an invariant of the loop, whether or not it raises.\<close>

lemma loop_rule:
  assumes run: "blocker_loop env now n vs (b, w) = (r, (b', w'))"
    and inv: "I n b w"
    and turn: "\<And>ip reason n b w r b' w'. (ip, reason) \<in> set vs \<Longrightarrow> I n b w \<Longrightarrow>
      blocker_visit env now ip reason n (b, w) = (r, (b', w')) \<Longrightarrow>
      (case r of Inl _ \<Rightarrow> J b' w' | Inr n' \<Rightarrow> I n' b' w')"
    and fin: "\<And>n b w. I n b w \<Longrightarrow> J b w"
  shows "J b' w'"
  using run inv turn
proof (induction vs arbitrary: n b w)
  case Nil
  then show ?case by (auto simp: io_simps fin)
next
  case (Cons v vs)
  obtain ip reason where v: "v = (ip, reason)" by fastforce
  obtain r1 b1 w1 where one: "blocker_visit env now ip reason n (b, w) = (r1, (b1, w1))"
    by (metis prod.exhaust)
  have step: "case r1 of Inl _ \<Rightarrow> J b1 w1 | Inr n' \<Rightarrow> I n' b1 w1"
    using Cons.prems(3) [of ip reason n b w r1 b1 w1] Cons.prems(2) one v by simp
  show ?case
  proof (cases r1)
    case (Inl e)
    with Cons.prems(1) one v step show ?thesis by (auto simp: io_simps)
  next
    case (Inr n')
    with Cons.prems(1) one v have "blocker_loop env now n' vs (b1, w1) = (r, (b', w'))"
      by (auto simp: io_simps)
    moreover have "I n' b1 w1" using step Inr by simp
    ultimately show ?thesis
      by (rule Cons.IH) (rule Cons.prems(3), auto)
  qed
qed

text \<open>The same with the verdicts that are still to come.\<close>

lemma loop_rule_rest:
  assumes run: "blocker_loop env now n vs (b, w) = (r, (b', w'))"
    and inv: "I n vs b w"
    and turn: "\<And>ip reason rest n b w r b' w'. I n ((ip, reason) # rest) b w \<Longrightarrow>
      blocker_visit env now ip reason n (b, w) = (r, (b', w')) \<Longrightarrow>
      (case r of Inl _ \<Rightarrow> J b' w' | Inr n' \<Rightarrow> I n' rest b' w')"
    and fin: "\<And>n b w. I n [] b w \<Longrightarrow> J b w"
  shows "J b' w'"
  using run inv
proof (induction vs arbitrary: n b w)
  case Nil
  then show ?case by (auto simp: io_simps fin)
next
  case (Cons v vs)
  obtain ip reason where v: "v = (ip, reason)" by fastforce
  obtain r1 b1 w1 where one: "blocker_visit env now ip reason n (b, w) = (r1, (b1, w1))"
    by (metis prod.exhaust)
  have step: "case r1 of Inl _ \<Rightarrow> J b1 w1 | Inr n' \<Rightarrow> I n' vs b1 w1"
    using turn [OF Cons.prems(2) [unfolded v] one] .
  show ?case
  proof (cases r1)
    case (Inl e)
    with Cons.prems(1) one v step show ?thesis by (auto simp: io_simps)
  next
    case (Inr n')
    with Cons.prems(1) one v have "blocker_loop env now n' vs (b1, w1) = (r, (b', w'))"
      by (auto simp: io_simps)
    with Cons.IH [of n' b1 w1] step Inr show ?thesis by simp
  qed
qed

lemma update_loop:
  assumes "blocker_update env vs (b, w) = (r, (b', w'))"
  shows "blocker_loop env (fst (env_time env w)) 0 vs (b, snd (env_time env w)) = (r, (b', w'))"
  using assms by (simp add: blocker_update_def io_simps)

subsection \<open>The invariant of the fields\<close>

lemma sum_list_dict_set:
  fixes d :: "('k, int) dict"
  assumes "dict_ok d"
  shows "sum_list (map snd (dict_set k (dict_get d k 0 + x) d)) = sum_list (map snd d) + x"
  using assms
proof (induction d)
  case (Cons p d)
  then show ?case
    by (cases p) (auto simp: dict_set_def dict_get_def split: option.splits)
qed (simp add: dict_set_def)

lemma list_all_dict_set:
  "list_all (\<lambda>p. P (snd p)) d \<Longrightarrow> P v \<Longrightarrow> list_all (\<lambda>p. P (snd p)) (dict_set k v d)"
  by (induction d) (auto simp: dict_set_def)

lemma list_all_dict_del:
  "list_all (\<lambda>p. P (snd p)) d \<Longrightarrow> list_all (\<lambda>p. P (snd p)) (dict_del k d)"
  by (auto simp: dict_del_def list_all_iff AList.delete_eq)

lemma dict_get_list_all:
  "list_all (\<lambda>p. P (snd p)) d \<Longrightarrow> P dflt \<Longrightarrow> P (dict_get d k dflt)"
  by (auto simp: dict_get_def list_all_iff dest!: map_of_SomeD split: option.splits)

lemma dict_get_pos_nonneg:
  "list_all (\<lambda>p. (1::int) \<le> snd p) d \<Longrightarrow> 0 \<le> dict_get d k 0"
  by (rule dict_get_list_all) (induction d, auto)

lemma strikes_nonneg: "blocker_ok b \<Longrightarrow> 0 \<le> dict_get (strikes b) ip 0"
  by (rule dict_get_pos_nonneg) (simp add: blocker_ok_def)

lemma offences_nonneg: "blocker_ok b \<Longrightarrow> 0 \<le> dict_get (offences b) ip 0"
  by (rule dict_get_pos_nonneg) (simp add: blocker_ok_def)

lemma dict_set_keys_cong: "map fst d = map fst d' \<Longrightarrow> map fst (dict_set k v d) = map fst (dict_set k v' d')"
proof (induction d arbitrary: d')
  case (Cons x d)
  then obtain y e where "d' = y # e" "fst y = fst x" "map fst e = map fst d" by (cases d') auto
  with Cons.IH [of e] show ?case by (cases x; cases y) (auto simp: dict_set_def)
qed (simp add: dict_set_def)

lemma blocker_ok_changes:
  assumes "blocker_ok b"
  shows "blocker_ok (decay ip b)" "blocker_ok (add_strike ip b)" "blocker_ok (cleared ip b)"
    "blocker_ok (b\<lparr>log := deque_append 12 (log b) x\<rparr>)"
    "blocker_ok (booked now ip d b)"
  using assms strikes_nonneg [OF assms, of ip] offences_nonneg [OF assms, of ip]
  by (auto simp: blocker_ok_def decay_def add_strike_def cleared_def booked_def
      sum_list_dict_set length_deque_append intro!: list_all_dict_set list_all_dict_del dict_set_keys_cong)

lemma blocker_ok_log:
  "blocker_ok b \<Longrightarrow> length l \<le> 12 \<Longrightarrow> blocker_ok (b\<lparr>log := l\<rparr>)"
  by (simp add: blocker_ok_def)

lemma blocker_ok_noted:
  "blocker_ok b \<Longrightarrow> blocker_ok c \<Longrightarrow> blocker_ok (c\<lparr>log := deque_append 12 (log b) x\<rparr>)"
  by (rule blocker_ok_log) (simp_all add: blocker_ok_def length_deque_append)

lemma issue_block_ok:
  assumes "issue_block env now ip why (add_strike ip b, w) = (r, (b', w'))" "blocker_ok b"
  shows "blocker_ok b'"
  using assms by (auto elim!: issue_block_cases intro!: blocker_ok_noted blocker_ok_changes)

lemma visit_ok:
  assumes "blocker_visit env now ip reason n (b, w) = (r, (b', w'))" "blocker_ok b"
  shows "blocker_ok b'"
  using assms(1)
  by (cases rule: visit_cases)
    (auto intro!: blocker_ok_changes blocker_ok_noted assms(2) dest: issue_block_ok [OF _ assms(2)])

lemma issue_block_count:
  assumes "issue_block env now ip why (add_strike ip b, w) = (r, (b', w'))"
  shows "blocks_issued b' = blocks_issued b + (if is_ok r then 1 else 0)" "dry_run b' = dry_run b"
  using assms by (auto elim!: issue_block_cases simp: booked_def)

lemma visit_count:
  assumes "blocker_visit env now ip reason n (b, w) = (r, (b', w'))"
  shows "dry_run b' = dry_run b"
    and "case r of Inl _ \<Rightarrow> blocks_issued b' = blocks_issued b
         | Inr n' \<Rightarrow> blocks_issued b' - blocks_issued b = n' - n \<and> (n' = n \<or> n' = n + 1 \<and> n < 32)"
  using assms
  by (cases rule: visit_cases; force simp: cleared_def decay_def dest: issue_block_count)+

subsection \<open>One source\<close>

text \<open>What the class knows of one source.\<close>

definition source :: "ip \<Rightarrow> blocker \<Rightarrow> int option \<times> int option \<times> rat option" where
  "source ip b = (map_of (strikes b) ip, map_of (offences b) ip, map_of (until b) ip)"

definition record_of :: "ip \<Rightarrow> blocker \<Rightarrow> int option \<times> rat option" where
  "record_of ip b = (map_of (offences b) ip, map_of (until b) ip)"

lemma issue_block_frame:
  assumes "issue_block env now ip' why (add_strike ip' b, w) = (r, (b', w'))" "ip \<noteq> ip'"
  shows "source ip b' = source ip b"
  using assms(1)
  by (cases rule: issue_block_cases)
    (use assms(2) in \<open>auto simp: source_def booked_def add_strike_def\<close>)

lemma source_changes:
  "ip \<noteq> ip' \<Longrightarrow> source ip (decay ip' b) = source ip b"
  "ip \<noteq> ip' \<Longrightarrow> source ip (add_strike ip' b) = source ip b"
  "ip \<noteq> ip' \<Longrightarrow> source ip (cleared ip' b) = source ip b"
  "source ip (b\<lparr>log := l\<rparr>) = source ip b"
  by (simp_all add: source_def decay_def add_strike_def cleared_def)

lemma visit_frame:
  assumes "blocker_visit env now ip' reason n (b, w) = (r, (b', w'))" "ip \<noteq> ip'"
  shows "source ip b' = source ip b"
  using assms(1)
  by (cases rule: visit_cases)
    (auto simp: source_changes assms(2) dest: issue_block_frame [OF _ assms(2)])

lemma loop_frame:
  assumes "blocker_loop env now n vs (b, w) = (r, (b', w'))" "ip \<notin> fst ` set vs"
  shows "source ip b' = source ip b"
  using assms(1)
proof (rule loop_rule [where I = "\<lambda>_ c _. source ip c = source ip b" and J = "\<lambda>c _. source ip c = source ip b"])
  fix ip' reason n c w r c' w'
  assume "(ip', reason) \<in> set vs" "source ip c = source ip b"
    and v: "blocker_visit env now ip' reason n (c, w) = (r, (c', w'))"
  with assms(2) have "ip \<noteq> ip'" by force
  with v \<open>source ip c = _\<close> show "case r of Inl _ \<Rightarrow> source ip c' = source ip b | Inr _ \<Rightarrow> source ip c' = source ip b"
    by (auto simp: visit_frame split: sum.splits)
qed simp_all

lemma source_strikes: "source ip b' = source ip b \<Longrightarrow> dict_get (strikes b') ip 0 = dict_get (strikes b) ip 0"
  by (simp add: source_def dict_get_def)

lemma source_record: "source ip b' = source ip b \<Longrightarrow> record_of ip b' = record_of ip b"
  by (simp add: source_def record_of_def)

text \<open>Below two strikes the source's record stays as it is and the count follows the class comment.\<close>

lemma visit_below:
  assumes "blocker_visit env now ip reason n (b, w) = (r, (b', w'))"
    and "0 \<le> dict_get (strikes b) ip 0"
    and "reason \<noteq> None \<Longrightarrow> dict_get (strikes b) ip 0 < 1"
  shows "record_of ip b' = record_of ip b \<and> is_ok r \<and>
    dict_get (strikes b') ip 0 =
      (if reason = None then max 0 (dict_get (strikes b) ip 0 - 1) else dict_get (strikes b) ip 0 + 1)"
  using assms(1)
  by (cases rule: visit_cases) (use assms(2,3) in \<open>auto simp: record_of_def decay_def\<close>)

lemma loop_below:
  assumes "blocker_loop env now n vs (b, w) = (r, (b', w'))" "dict_ok vs"
    and "0 \<le> dict_get (strikes b) ip 0"
    and "strike_next ip vs (dict_get (strikes b) ip 0) < 2"
  shows "record_of ip b' = record_of ip b \<and>
    (is_ok r \<longrightarrow> dict_get (strikes b') ip 0 = strike_next ip vs (dict_get (strikes b) ip 0))"
  using assms
proof (induction vs arbitrary: n b w)
  case Nil
  then show ?case by (auto simp: io_simps strike_next_def)
next
  case (Cons v vs)
  obtain ip' reason where v: "v = (ip', reason)" by fastforce
  obtain r1 b1 w1 where one: "blocker_visit env now ip' reason n (b, w) = (r1, (b1, w1))"
    by (metis prod.exhaust)
  have rest: "blocker_loop env now n' vs (b1, w1) = (r, (b', w'))" if "r1 = Inr n'" for n'
    using Cons.prems(1) one v that by (auto simp: io_simps)
  have stop: "b' = b1 \<and> \<not> is_ok r" if "r1 = Inl e" for e
    using Cons.prems(1) one v that by (auto simp: io_simps)
  show ?case
  proof (cases "ip' = ip")
    case True
    have next1: "strike_next ip (v # vs) s = (if reason = None then max 0 (s - 1) else s + 1)" for s
      using v True by (auto simp: strike_next_def split: option.splits)
    have out: "ip \<notin> fst ` set vs" using Cons.prems(2) v True by auto
    have below: "reason \<noteq> None \<Longrightarrow> dict_get (strikes b) ip 0 < 1"
      using Cons.prems(4) by (auto simp: next1)
    note b1 = visit_below [OF one [unfolded True] Cons.prems(3) below]
    then obtain n' where "r1 = Inr n'" by (cases r1) auto
    then have "source ip b' = source ip b1" using loop_frame [OF rest out] by simp
    note f = source_strikes [OF this] source_record [OF this]
    from b1 show ?thesis by (simp add: next1 f)
  next
    case False
    then have "source ip b1 = source ip b" by (intro visit_frame [OF one]) auto
    note f = source_strikes [OF this] source_record [OF this]
    have next2: "strike_next ip (v # vs) s = strike_next ip vs s" for s
      using v False by (simp add: strike_next_def)
    show ?thesis
    proof (cases r1)
      case (Inl e)
      with stop f show ?thesis by simp
    next
      case (Inr n')
      have "record_of ip b' = record_of ip b1 \<and>
          (is_ok r \<longrightarrow> dict_get (strikes b') ip 0 = strike_next ip vs (dict_get (strikes b1) ip 0))"
        by (rule Cons.IH [OF rest [OF Inr]])
          (use Cons.prems in \<open>auto simp: f next2\<close>)
      then show ?thesis by (simp add: f next2)
    qed
  qed
qed

text \<open>
  The books after a block: the source was flagged, had a strike, and is not allowlisted; its strikes are
  gone, it has one offence more, and the block ends after the duration for the offences it had.
\<close>

definition block_time :: "int \<Rightarrow> int" where
  "block_time n = (if n = 0 then 60 else if n = 1 then 300 else 900)"

definition block_booked ::
    "'w blk_env \<Rightarrow> ('w \<Rightarrow> ip \<Rightarrow> bool) \<Rightarrow> verdicts \<Rightarrow> 'w \<Rightarrow> blocker \<Rightarrow> blocker \<Rightarrow> ip \<Rightarrow> bool" where
  "block_booked env allowed vs w b b' ip \<longleftrightarrow>
     (\<exists>why. (ip, Some why) \<in> set vs) \<and> 1 \<le> dict_get (strikes b) ip 0 \<and> \<not> allowed w ip \<and>
     map_of (strikes b') ip = None \<and>
     map_of (offences b') ip = Some (dict_get (offences b) ip 0 + 1) \<and>
     map_of (until b') ip = Some (fl (fst (env_time env w) + of_int (block_time (dict_get (offences b) ip 0))))"

lemma duration_time: "py_index DURATIONS (min n 2) = Inr d \<Longrightarrow> 0 \<le> n \<Longrightarrow> d = block_time n"
  by (auto simp: py_index_def DURATIONS_def nth_Cons' min_def block_time_def split: if_splits)

lemma source_offences: "source ip b' = source ip b \<Longrightarrow> dict_get (offences b') ip 0 = dict_get (offences b) ip 0"
  by (simp add: source_def dict_get_def)

subsection \<open>Runs of windows\<close>

lemma update_ok:
  assumes "blocker_update env vs (b, w) = (r, (b', w'))" "blocker_ok b"
  shows "blocker_ok b'"
  using update_loop [OF assms(1)]
  by (rule loop_rule [where I = "\<lambda>_ c _. blocker_ok c" and J = "\<lambda>c _. blocker_ok c"])
    (use assms(2) in \<open>auto dest: visit_ok split: sum.splits\<close>)

lemma update_count:
  assumes "blocker_update env vs (b, w) = (r, (b', w'))"
  shows "blocks_issued b \<le> blocks_issued b' \<and> blocks_issued b' \<le> blocks_issued b + 32"
proof (rule loop_rule [OF update_loop [OF assms],
    where I = "\<lambda>n c _. blocks_issued c = blocks_issued b + n \<and> 0 \<le> n \<and> n \<le> 32"
      and J = "\<lambda>c _. blocks_issued b \<le> blocks_issued c \<and> blocks_issued c \<le> blocks_issued b + 32"])
  fix ip reason n c w1 r1 c' w2
  assume "blocks_issued c = blocks_issued b + n \<and> 0 \<le> n \<and> n \<le> 32"
    and "blocker_visit env (fst (env_time env w)) ip reason n (c, w1) = (r1, (c', w2))"
  then show "case r1 of
      Inl _ \<Rightarrow> blocks_issued b \<le> blocks_issued c' \<and> blocks_issued c' \<le> blocks_issued b + 32
    | Inr n' \<Rightarrow> blocks_issued c' = blocks_issued b + n' \<and> 0 \<le> n' \<and> n' \<le> 32"
    by (auto split: sum.splits dest!: visit_count(2))
qed simp_all

lemma run_below:
  assumes "blocker_run env vss (b, w) = (r, (b', w'))" "list_all dict_ok vss" "blocker_ok b"
    and "\<And>n. n \<le> length vss \<Longrightarrow> fold (strike_next ip) (take n vss) (dict_get (strikes b) ip 0) < 2"
  shows "record_of ip b' = record_of ip b"
  using assms
proof (induction vss arbitrary: b w)
  case Nil
  then show ?case by (simp add: io_simps)
next
  case (Cons vs vss)
  obtain r1 b1 w1 where one: "blocker_update env vs (b, w) = (r1, (b1, w1))"
    by (metis prod.exhaust)
  have "strike_next ip vs (dict_get (strikes b) ip 0) < 2"
    using Cons.prems(4) [of 1] by simp
  with loop_below [OF update_loop [OF one], of ip] Cons.prems(2,3)
  have b1: "record_of ip b1 = record_of ip b"
    "is_ok r1 \<longrightarrow> dict_get (strikes b1) ip 0 = strike_next ip vs (dict_get (strikes b) ip 0)"
    by (auto simp: strikes_nonneg)
  show ?case
  proof (cases r1)
    case (Inl e)
    with Cons.prems(1) one b1 show ?thesis by (simp add: io_simps)
  next
    case (Inr u)
    with Cons.prems(1) one have "blocker_run env vss (b1, w1) = (r, (b', w'))"
      by (simp add: io_simps)
    moreover have "blocker_ok b1" using update_ok [OF one] Cons.prems(3) by simp
    moreover have "fold (strike_next ip) (take n vss) (dict_get (strikes b1) ip 0) < 2"
      if "n \<le> length vss" for n
      using Cons.prems(4) [of "Suc n"] that b1 Inr by simp
    ultimately have "record_of ip b' = record_of ip b1"
      using Cons.prems(2) by (intro Cons.IH) auto
    with b1 show ?thesis by simp
  qed
qed

subsection \<open>The world\<close>

text \<open>
  Whatever the calls to the outside have in common, an update as a whole has too; in a dry run
  \<open>block\<close> is not among them.
\<close>

lemma issue_block_steps:
  assumes "preorder_on_states R" "\<And>w. R w (snd (env_strftime env w))"
    and "\<And>d w. \<not> dry_run b \<Longrightarrow> d \<in> set DURATIONS \<Longrightarrow> R w (snd (env_block env ip d BLOCK_AUTO w))"
    and "issue_block env now ip why (add_strike ip b, w) = (r, (b', w'))"
  shows "R w w'"
  using assms(4)
proof (cases rule: issue_block_cases)
  case (raised e)
  then show ?thesis using assms(1,3) unfolding preorder_on_states_def by (metis snd_conv)
next
  case (blocked d w1 ts msg)
  have "R w w1" using blocked(3) assms(1,3) py_index_mem [OF blocked(2)] unfolding preorder_on_states_def by (metis snd_conv)
  moreover have "R w1 w'" using assms(2) [of w1] blocked(4) by simp
  ultimately show ?thesis using assms(1) unfolding preorder_on_states_def by blast
qed

lemma visit_steps:
  assumes "preorder_on_states R" "\<And>w. R w (snd (env_time env w))" "\<And>w. R w (snd (env_strftime env w))"
    and "\<And>w. R w (snd (env_is_allowed env ip w))"
    and "\<And>d w. \<not> dry_run b \<Longrightarrow> d \<in> set DURATIONS \<Longrightarrow> R w (snd (env_block env ip d BLOCK_AUTO w))"
    and "blocker_visit env now ip reason n (b, w) = (r, (b', w'))"
  shows "R w w'"
proof -
  note refl = assms(1) [unfolded preorder_on_states_def, THEN conjunct1, rule_format]
  note trans = assms(1) [unfolded preorder_on_states_def, THEN conjunct2, rule_format]
  have asked: "R w w2" if "env_is_allowed env ip (snd (env_time env w)) = (ra, w2)" for ra w2
    using trans [OF assms(2) assms(4)] that by (metis snd_conv)
  from assms(6) show ?thesis
  proof (cases rule: visit_cases)
    case (allowlisted why w2 ts msg)
    then show ?thesis using trans [OF asked assms(3)] by (metis snd_conv)
  next
    case (block_raised why e w2)
    then show ?thesis using trans [OF asked issue_block_steps [OF assms(1,3,5)]] by blast
  next
    case (issued why w2)
    then show ?thesis using trans [OF asked issue_block_steps [OF assms(1,3,5)]] by blast
  qed (use refl assms(2) asked in auto)
qed

lemma update_steps:
  assumes "preorder_on_states R" "\<And>w. R w (snd (env_time env w))" "\<And>w. R w (snd (env_strftime env w))"
    and "\<And>ip w. R w (snd (env_is_allowed env ip w))"
    and "\<And>ip d w. \<not> dry_run b \<Longrightarrow> ip \<in> fst ` set vs \<Longrightarrow> d \<in> set DURATIONS \<Longrightarrow>
      R w (snd (env_block env ip d BLOCK_AUTO w))"
    and "blocker_update env vs (b, w) = (r, (b', w'))"
  shows "R w w' \<and> dry_run b' = dry_run b"
proof (rule loop_rule [OF update_loop [OF assms(6)],
    where I = "\<lambda>_ c w'. R w w' \<and> dry_run c = dry_run b" and J = "\<lambda>c w'. R w w' \<and> dry_run c = dry_run b"])
  fix ip reason n c w1 r1 c' w2
  assume vs: "(ip, reason) \<in> set vs" and I: "R w w1 \<and> dry_run c = dry_run b"
    and v: "blocker_visit env (fst (env_time env w)) ip reason n (c, w1) = (r1, (c', w2))"
  have "ip \<in> fst ` set vs" using vs by force
  then have "R w1 w2" using visit_steps [OF assms(1-3) _ _ v] assms(4,5) I by auto
  with I visit_count(1) [OF v] assms(1) have "R w w2 \<and> dry_run c' = dry_run b"
    unfolding preorder_on_states_def by metis
  then show "case r1 of Inl _ \<Rightarrow> R w w2 \<and> dry_run c' = dry_run b | Inr _ \<Rightarrow> R w w2 \<and> dry_run c' = dry_run b"
    by (simp split: sum.splits)
qed (use assms(2) in auto)

section \<open>What the blocker relies on\<close>

text \<open>
  The firewall as its client sees it, in the states of the world that satisfy \<open>okw\<close>: \<open>allowed\<close> and \<open>blocked\<close> are the contents of the
  two lists in a state of the world. Reading the clock and asking about an address change
  neither; a block that returns stores one entry, under the address's key, and a block that
  raises stores nothing.
\<close>

locale firewall_service =
  fixes env :: "'w blk_env"
    and okw :: "'w \<Rightarrow> bool"
    and allowed :: "'w \<Rightarrow> ip \<Rightarrow> bool"
    and blocked :: "'w \<Rightarrow> 'key \<Rightarrow> 'val option"
    and key_of :: "ip \<Rightarrow> 'key"
  assumes time_frame: "okw w \<Longrightarrow> env_time env w = (t, w') \<Longrightarrow>
      okw w' \<and> allowed w' = allowed w \<and> blocked w' = blocked w"
    and strftime_frame: "okw w \<Longrightarrow> env_strftime env w = (ts, w') \<Longrightarrow>
      okw w' \<and> allowed w' = allowed w \<and> blocked w' = blocked w"
    and is_allowed_frame: "okw w \<Longrightarrow> env_is_allowed env ip w = (r, w') \<Longrightarrow>
      okw w' \<and> allowed w' = allowed w \<and> blocked w' = blocked w"
    and is_allowed_result: "okw w \<Longrightarrow> env_is_allowed env ip w = (Inr a, w') \<Longrightarrow> a = allowed w ip"
    and block_frame: "okw w \<Longrightarrow> env_block env ip d reason w = (rb, w') \<Longrightarrow> okw w' \<and> allowed w' = allowed w"
    and block_stores: "okw w \<Longrightarrow> env_block env ip d reason w = (Inr (), w') \<Longrightarrow>
      \<exists>v. blocked w' = (blocked w)(key_of ip \<mapsto> v)"
    and block_raises: "okw w \<Longrightarrow> env_block env ip d reason w = (Inl e, w') \<Longrightarrow> blocked w' = blocked w"
begin

lemma time_frame': "okw w \<Longrightarrow> okw (snd (env_time env w)) \<and>
    allowed (snd (env_time env w)) = allowed w \<and> blocked (snd (env_time env w)) = blocked w"
  using time_frame [OF _ prod.collapse [symmetric]] .

lemma issue_world:
  assumes "okw w" "issue_block env now ip why (add_strike ip b, w) = (r, (b', w'))"
  shows "okw w' \<and> allowed w' = allowed w \<and>
    (blocked w' = blocked w \<or> \<not> dry_run b \<and> is_ok r \<and> (\<exists>v. blocked w' = (blocked w)(key_of ip \<mapsto> v)))"
  using assms(2)
proof (cases rule: issue_block_cases)
  case (raised e)
  then show ?thesis using assms(1) by (auto dest: block_frame block_raises)
next
  case (blocked d w1 ts msg)
  have w1: "okw w1 \<and> allowed w1 = allowed w \<and>
      (if dry_run b then blocked w1 = blocked w else \<exists>v. blocked w1 = (blocked w)(key_of ip \<mapsto> v))"
    using blocked(3) assms(1) by (auto split: if_splits dest: block_frame block_stores)
  with strftime_frame [OF _ blocked(4)] blocked(1) show ?thesis by (auto split: if_splits)
qed

lemma visit_world:
  assumes "okw w" "blocker_visit env now ip reason n (b, w) = (r, (b', w'))"
  shows "okw w' \<and> allowed w' = allowed w \<and>
    (blocked w' = blocked w \<or>
     (\<exists>why v. reason = Some why \<and> \<not> dry_run b \<and> \<not> allowed w ip \<and> 1 \<le> dict_get (strikes b) ip 0 \<and>
       r = Inr (n + 1) \<and> blocked w' = (blocked w)(key_of ip \<mapsto> v)))"
  using assms(2)
proof (cases rule: visit_cases)
  case (issued why w2)
  note t = time_frame' [OF assms(1)]
  from t have "okw w2 \<and> allowed w2 = allowed w \<and> blocked w2 = blocked w" "\<not> allowed w ip"
    using is_allowed_frame [OF _ issued(3)] is_allowed_result [OF _ issued(3)] by auto
  with issue_world [OF _ issued(4)] issued(1,2,5) show ?thesis by auto
next
  case (block_raised why e w2)
  from time_frame' [OF assms(1)] is_allowed_frame [OF _ block_raised(4)]
  have "okw w2 \<and> allowed w2 = allowed w \<and> blocked w2 = blocked w" by simp
  with issue_world [OF _ block_raised(5)] show ?thesis by auto
next
  case (allowlisted why w2 ts msg)
  from time_frame' [OF assms(1)] is_allowed_frame [OF _ allowlisted(4)] strftime_frame [OF _ allowlisted(5)]
  show ?thesis by simp
qed (use time_frame' [OF assms(1)] assms(1) in \<open>auto dest: is_allowed_frame\<close>)

lemma visit_books:
  assumes "okw w" "blocker_ok b" "blocker_visit env now ip reason n (b, w) = (r, (b', w'))"
  shows "record_of ip b' = record_of ip b \<or>
    reason \<noteq> None \<and> 1 \<le> dict_get (strikes b) ip 0 \<and> \<not> allowed w ip \<and> map_of (strikes b') ip = None \<and>
    map_of (offences b') ip = Some (dict_get (offences b) ip 0 + 1) \<and>
    map_of (until b') ip = Some (fl (now + of_int (block_time (dict_get (offences b) ip 0))))"
  using assms(3)
proof (cases rule: visit_cases)
  case (issued why w2)
  have "\<not> allowed w ip"
    using time_frame' [OF assms(1)] is_allowed_result [OF _ issued(3)] by auto
  moreover from issued(4) obtain d ts msg where d: "py_index DURATIONS (min (dict_get (offences b) ip 0) 2) = Inr d"
    "b' = (booked now ip d b)\<lparr>log := deque_append 12 (log b) (ts, msg)\<rparr>"
    by (cases rule: issue_block_cases) auto
  moreover have "d = block_time (dict_get (offences b) ip 0)"
    by (rule duration_time [OF d(1) offences_nonneg [OF assms(2)]])
  ultimately show ?thesis using issued(1,5) by (simp add: booked_def)
next
  case (block_raised why e w2)
  then show ?thesis by (simp add: record_of_def)
qed (simp_all add: record_of_def decay_def cleared_def)

text \<open>
  The guard rails, for any list of verdicts and whether or not the update raises. With one verdict
  per source, a source is blocked only if it had a strike before.
\<close>

lemma update_world_strict:
  assumes "okw w" "blocker_update env vs (b, w) = (r, (b', w'))"
  shows "okw w' \<and> allowed w' = allowed w \<and> (dry_run b \<longrightarrow> blocked w' = blocked w) \<and>
    finite {k. blocked w' k \<noteq> blocked w k} \<and> card {k. blocked w' k \<noteq> blocked w k} \<le> 32 \<and>
    {k. blocked w' k \<noteq> blocked w k} \<subseteq>
      {key_of ip |ip. \<exists>why. (ip, Some why) \<in> set vs \<and> \<not> allowed w ip \<and> (dict_ok vs \<longrightarrow> 1 \<le> dict_get (strikes b) ip 0)}"
proof -
  let ?D = "\<lambda>w'. {k. blocked w' k \<noteq> blocked w k}"
  let ?K = "{key_of ip |ip. \<exists>why. (ip, Some why) \<in> set vs \<and> \<not> allowed w ip \<and> (dict_ok vs \<longrightarrow> 1 \<le> dict_get (strikes b) ip 0)}"
  let ?S = "\<lambda>c w'. dry_run c = dry_run b \<and> okw w' \<and> allowed w' = allowed w \<and>
    (dry_run b \<longrightarrow> blocked w' = blocked w) \<and> finite (?D w') \<and> ?D w' \<subseteq> ?K"
  let ?R = "\<lambda>rest c. set rest \<subseteq> set vs \<and> (dict_ok vs \<longrightarrow> dict_ok rest \<and> (\<forall>x \<in> set rest. source (fst x) c = source (fst x) b))"
  have "?S b' w' \<and> card (?D w') \<le> 32"
  proof (rule loop_rule_rest [OF update_loop [OF assms(2)],
      where I = "\<lambda>n rest c w'. ?S c w' \<and> int (card (?D w')) \<le> n \<and> n \<le> 32 \<and> ?R rest c"
        and J = "\<lambda>c w'. ?S c w' \<and> card (?D w') \<le> 32"])
    fix ip reason rest n c w1 r1 c' w2
    assume I: "?S c w1 \<and> int (card (?D w1)) \<le> n \<and> n \<le> 32 \<and> ?R ((ip, reason) # rest) c"
      and vis: "blocker_visit env (fst (env_time env w)) ip reason n (c, w1) = (r1, (c', w2))"
    have "okw w1" using I by simp
    note c = visit_count [OF vis] and vw = visit_world [OF this vis]
    have R: "?R rest c'"
    proof -
      have "source (fst x) c' = source (fst x) c" if "dict_ok vs" "x \<in> set rest" for x
        using that I by (intro visit_frame [OF vis]) force
      then show ?thesis using I by auto
    qed
    show "case r1 of Inl _ \<Rightarrow> ?S c' w2 \<and> card (?D w2) \<le> 32
        | Inr n' \<Rightarrow> ?S c' w2 \<and> int (card (?D w2)) \<le> n' \<and> n' \<le> 32 \<and> ?R rest c'"
    proof (cases "blocked w2 = blocked w1")
      case True
      with vw have "okw w2" "allowed w2 = allowed w1" "?D w2 = ?D w1" by simp_all
      with I c True R show ?thesis by (auto split: sum.splits)
    next
      case False
      with vw obtain why u where u: "reason = Some why" "\<not> dry_run c" "\<not> allowed w1 ip" "1 \<le> dict_get (strikes c) ip 0"
        "r1 = Inr (n + 1)" "blocked w2 = (blocked w1)(key_of ip \<mapsto> u)" "allowed w2 = allowed w1" "okw w2" by blast
      have "dict_ok vs \<Longrightarrow> 1 \<le> dict_get (strikes b) ip 0" using I u(4) source_strikes [of ip c b] by auto
      then have "key_of ip \<in> ?K" using u(1,3) I by auto
      moreover have sub: "?D w2 \<subseteq> insert (key_of ip) (?D w1)" unfolding u(6) by auto
      moreover have fin: "finite (insert (key_of ip) (?D w1))" using I by simp
      moreover have "card (?D w2) \<le> Suc (card (?D w1))"
        using card_mono [OF fin sub] I by (simp add: card_insert_if split: if_splits)
      ultimately show ?thesis
        using I u c R finite_subset [OF sub] by auto
    qed
  qed (use time_frame' [OF assms(1)] in auto)
  then show ?thesis by blast
qed

lemma update_world:
  assumes "okw w" "blocker_update env vs (b, w) = (r, (b', w'))"
  shows "okw w' \<and> allowed w' = allowed w \<and> (dry_run b \<longrightarrow> blocked w' = blocked w) \<and>
    finite {k. blocked w' k \<noteq> blocked w k} \<and> card {k. blocked w' k \<noteq> blocked w k} \<le> 32 \<and>
    {k. blocked w' k \<noteq> blocked w k} \<subseteq>
      {key_of ip |ip. \<exists>why. (ip, Some why) \<in> set vs \<and> \<not> allowed w ip}"
  using update_world_strict [OF assms] by blast

text \<open>What one update does to the books of one source.\<close>

lemma update_books:
  assumes "okw w" "blocker_ok b" "dict_ok vs" "blocker_update env vs (b, w) = (r, (b', w'))"
  shows "record_of ip b' = record_of ip b \<or> block_booked env allowed vs w b b' ip"
proof (rule loop_rule_rest [OF update_loop [OF assms(4)],
    where I = "\<lambda>n rest c w'. okw w' \<and> allowed w' = allowed w \<and> blocker_ok c \<and> set rest \<subseteq> set vs \<and> dict_ok rest \<and>
        (if ip \<in> fst ` set rest then source ip c = source ip b
         else record_of ip c = record_of ip b \<or> block_booked env allowed vs w b c ip)"
      and J = "\<lambda>c _. record_of ip c = record_of ip b \<or> block_booked env allowed vs w b c ip"])
  let ?now = "fst (env_time env w)"
  fix ip' reason rest n c w1 r1 c' w2
  let ?I = "\<lambda>rest c w'. okw w' \<and> allowed w' = allowed w \<and> blocker_ok c \<and> set rest \<subseteq> set vs \<and> dict_ok rest \<and>
        (if ip \<in> fst ` set rest then source ip c = source ip b
         else record_of ip c = record_of ip b \<or> block_booked env allowed vs w b c ip)"
  assume I: "?I ((ip', reason) # rest) c w1" and vis: "blocker_visit env ?now ip' reason n (c, w1) = (r1, (c', w2))"
  have w1: "okw w1" "allowed w1 = allowed w" "blocker_ok c" using I by auto
  have kept: "okw w2" "allowed w2 = allowed w" "blocker_ok c'"
    using visit_world [OF w1(1) vis] visit_ok [OF vis w1(3)] w1(2) by auto
  have "if ip \<in> fst ` set rest then source ip c' = source ip b
      else record_of ip c' = record_of ip b \<or> block_booked env allowed vs w b c' ip"
  proof (cases "ip = ip'")
    case True
    then have out: "ip \<notin> fst ` set rest" and same: "source ip c = source ip b" and "(ip, reason) \<in> set vs" using I by auto
    with visit_books [OF w1(1,3) vis [folded True]] show ?thesis
      unfolding block_booked_def w1(2) using source_strikes [OF same] source_record [OF same] source_offences [OF same] by auto
  next
    case False
    then have "source ip c' = source ip c" by (intro visit_frame [OF vis])
    then have same: "record_of ip c' = record_of ip c" "block_booked env allowed vs w b c' ip = block_booked env allowed vs w b c ip"
      by (simp_all add: record_of_def block_booked_def source_def)
    have "if ip \<in> fst ` set rest then source ip c = source ip b
        else record_of ip c = record_of ip b \<or> block_booked env allowed vs w b c ip"
      using I False by (simp split: if_split_asm)
    then show ?thesis unfolding same \<open>source ip c' = source ip c\<close> .
  qed
  then show "case r1 of Inl _ \<Rightarrow> record_of ip c' = record_of ip b \<or> block_booked env allowed vs w b c' ip
      | Inr n' \<Rightarrow> ?I rest c' w2"
    using kept I source_record [of ip c' b] by (auto split: sum.splits if_splits)
qed (use time_frame' [OF assms(1)] assms in \<open>auto simp: record_of_def source_def split: if_splits\<close>)

end

section \<open>The fake firewall of the unit tests\<close>

text \<open>
  \<open>FakeFirewall\<close> of \<open>tests/test_policy.py\<close>, with a clock that stands still: a second
  provider of the interface beside the real one.
\<close>

record fake_fw =
  fake_allowed :: "ip list"
  fake_blocks :: "(ip, int) dict"
  fake_now :: rat

definition fake_env :: "fake_fw blk_env" where
  "fake_env = \<lparr>
     env_time = (\<lambda>w. (fake_now w, w)),
     env_strftime = (\<lambda>w. (''00:00:00'', w)),
     env_is_allowed = (\<lambda>ip w. (Inr (List.member (fake_allowed w) ip), w)),
     env_block = (\<lambda>ip duration reason w. (Inr (), w\<lparr>fake_blocks := dict_set ip duration (fake_blocks w)\<rparr>))\<rparr>"

interpretation fake: firewall_service fake_env "\<lambda>_. True"
  "\<lambda>w ip. List.member (fake_allowed w) ip" "\<lambda>w. map_of (fake_blocks w)" "\<lambda>ip. ip"
  by unfold_locales (auto simp: fake_env_def)

section \<open>Properties\<close>

text \<open>
  C9. \<open>update\<close> keeps the books of the blocker right, over any firewall that behaves as its client
  expects, for any verdicts with one entry per source, and whether or not a call to the firewall
  raises. The dictionaries have distinct keys, every
  stored strike and offence count is at least one, a source has a block end exactly when it has
  offences, \<open>blocks_issued\<close> is the sum of the offences, and the log holds at most twelve lines. One call
  adds at most 32 blocks. For each source, the
  offences and the block end stay as they are, or the source was flagged, had a strike and is not
  allowlisted: then its strikes are gone, it has one offence more, and its block ends 60 seconds after
  the time of the call for the first offence, 300 for the second, 900 from then on.
\<close>

theorem blocker_update_invariant:
  assumes "firewall_service env okw allowed blocked key_of" "okw w" "blocker_ok b" "dict_ok vs"
    and "blocker_update env vs (b, w) = (r, (b', w'))"
  shows "blocker_ok b' \<and> blocks_issued b \<le> blocks_issued b' \<and> blocks_issued b' \<le> blocks_issued b + 32 \<and>
    (\<forall>ip. map_of (offences b') ip = map_of (offences b) ip \<and> map_of (until b') ip = map_of (until b) ip \<or>
      (\<exists>why. (ip, Some why) \<in> set vs) \<and> 1 \<le> dict_get (strikes b) ip 0 \<and> \<not> allowed w ip \<and>
      map_of (strikes b') ip = None \<and> map_of (offences b') ip = Some (dict_get (offences b) ip 0 + 1) \<and>
      map_of (until b') ip = Some (fl (fst (env_time env w) +
        (if dict_get (offences b) ip 0 = 0 then 60 else if dict_get (offences b) ip 0 = 1 then 300 else 900))))"
  using update_ok [OF assms(5,3)] update_count [OF assms(5)] firewall_service.update_books [OF assms(1-5)]
  by (simp add: record_of_def block_booked_def block_time_def if_distrib [where f = of_int] cong: if_cong)

definition demo_fw :: fake_fw where
  "demo_fw = \<lparr>fake_allowed = [], fake_blocks = [], fake_now = 1000\<rparr>"

definition demo_one_strike :: blocker where
  "demo_one_strike = (blocker_init False)\<lparr>strikes := [(''x'', 1)]\<rparr>"

definition demo_blocked :: blocker where
  "demo_blocked = \<lparr>dry_run = False, strikes = [], offences = [(''x'', 1)], until = [(''x'', 1060)],
     blocks_issued = 1, log = [(''00:00:00'', ''BLOCKED x for 60s (syn flood)'')]\<rparr>"

lemma fl_1060: "fl 1060 = 1060"
  by (rule fl_numeral) simp

lemma str_60: "py_str_int 60 = ''60''"
  by code_simp

lemma demo_update:
  "blocker_update fake_env [(''x'', Some ''syn flood'')] (demo_one_strike, demo_fw) =
     (Inr (), (demo_blocked, demo_fw\<lparr>fake_blocks := [(''x'', 60)]\<rparr>))"
  by (simp add: blocker_update_def blocker_visit_def issue_block_def blocker_is_blocked_def
      blocker_note_def pop_strikes_def add_strike_def demo_one_strike_def demo_blocked_def
      demo_fw_def blocker_init_def fake_env_def io_simps STRIKES_def MAX_PER_WINDOW_def DURATIONS_def
      BLOCK_AUTO_def py_index_def dict_get_def dict_set_def dict_del_def deque_append_def
      str_60 fl_1060 Let_def)

theorem blocker_update_invariant_witness:
  "blocker_ok demo_blocked \<and> map_of (until demo_blocked) ''x'' = Some (fl (1000 + 60)) \<and> \<not> List.member (fake_allowed demo_fw) ''x''"
proof -
  have "blocker_ok demo_one_strike" by (simp add: demo_one_strike_def blocker_init_def blocker_ok_def)
  from blocker_update_invariant [OF fake.firewall_service_axioms TrueI this _ demo_update]
  have "blocker_ok demo_blocked" "\<not> List.member (fake_allowed demo_fw) ''x''"
    "map_of (until demo_blocked) ''x'' = Some (fl (fst (env_time fake_env demo_fw) + 60))"
    by (auto simp: demo_one_strike_def demo_blocked_def blocker_init_def dest!: spec [of _ "''x''"])
  then show ?thesis by (simp add: fake_env_def demo_fw_def)
qed

text \<open>
  C19. One noisy reading never blocks: as long as, counting one up for each flagged window and
  one down (not below zero) for each clean one, the count of a source stays below two over a
  run of windows, the source's offences and its block deadline are at the end what they were
  at the start. Alternating flagged and clean windows keep the count below two for ever.
\<close>

theorem isolated_windows_never_block:
  assumes "blocker_ok b" "list_all dict_ok vss"
    and "\<forall>n \<le> length vss. fold (strike_next ip) (take n vss) (dict_get (strikes b) ip 0) < 2"
    and "blocker_run env vss (b, w) = (r, (b', w'))"
  shows "map_of (offences b') ip = map_of (offences b) ip \<and> map_of (until b') ip = map_of (until b) ip"
  using run_below [of env vss b w r b' w' ip] assms by (simp add: record_of_def)

definition demo_flapping :: "verdicts list" where
  "demo_flapping = [[(''x'', Some ''syn flood'')], [(''x'', None)], [(''x'', Some ''syn flood'')]]"

lemma demo_flapping_run:
  "blocker_run fake_env demo_flapping (blocker_init False, demo_fw) =
     (Inr (), ((blocker_init False)\<lparr>strikes := [(''x'', 1)]\<rparr>, demo_fw))"
  by (simp add: demo_flapping_def blocker_update_def blocker_visit_def add_strike_def decay_def
      demo_fw_def blocker_init_def fake_env_def io_simps STRIKES_def dict_get_def dict_set_def dict_del_def)

theorem isolated_windows_never_block_witness:
  "map_of (offences ((blocker_init False)\<lparr>strikes := [(''x'', 1)]\<rparr>)) ''x'' = map_of (offences (blocker_init False)) ''x'' \<and>
   map_of (until ((blocker_init False)\<lparr>strikes := [(''x'', 1)]\<rparr>)) ''x'' = map_of (until (blocker_init False)) ''x''"
proof (rule isolated_windows_never_block)
  show "\<forall>n \<le> length demo_flapping.
      fold (strike_next ''x'') (take n demo_flapping) (dict_get (strikes (blocker_init False)) ''x'' 0) < 2"
  proof (intro allI impI)
    fix n :: nat
    assume "n \<le> length demo_flapping"
    then have "n \<in> {0, 1, 2, 3}" by (auto simp: demo_flapping_def)
    then show "fold (strike_next ''x'') (take n demo_flapping) (dict_get (strikes (blocker_init False)) ''x'' 0) < 2"
      by (auto simp: demo_flapping_def strike_next_def blocker_init_def)
  qed
qed (rule demo_flapping_run | simp add: blocker_init_def blocker_ok_def demo_flapping_def)+

text \<open>
  A source with a strike that is flagged again, whose last block has run out and which the
  firewall does not allow, is blocked in that window: for 60 seconds the first time, 300 the
  second, 900 from then on. Its strikes are forgotten, the offence and the deadline are
  recorded, and the log says so.
\<close>

theorem second_strike_blocks:
  assumes "blocker_ok b" "1 \<le> dict_get (strikes b) ip 0" "\<not> dry_run b"
    and "duration = (if dict_get (offences b) ip 0 = 0 then 60
                     else if dict_get (offences b) ip 0 = 1 then 300 else 900)"
    and "env_time env w = (now, w1)" "env_time env w1 = (t, w2)" "dict_get (until b) ip 0 \<le> t"
    and "env_is_allowed env ip w2 = (Inr False, w3)"
    and "env_block env ip duration BLOCK_AUTO w3 = (Inr (), w4)"
    and "env_strftime env w4 = (ts, w5)"
  shows "blocker_update env [(ip, Some why)] (b, w) = (Inr (),
    (b\<lparr>strikes := dict_del ip (strikes b),
       offences := dict_set ip (dict_get (offences b) ip 0 + 1) (offences b),
       until := dict_set ip (fl (now + of_int duration)) (until b),
       blocks_issued := blocks_issued b + 1,
       log := deque_append 12 (log b)
         (ts, ''BLOCKED '' @ ip @ '' for '' @ py_str_int duration @ ''s ('' @ why @ '')'')\<rparr>, w5))"
proof -
  have "py_index DURATIONS (min (dict_get (offences b) ip 0) (int (length DURATIONS) - 1)) = Inr duration"
    using offences_nonneg [OF assms(1), of ip] unfolding assms(4)
    by (auto simp: py_index_def DURATIONS_def nth_Cons' min_def)
  with assms(2,3,5-10) show ?thesis
    by (simp add: blocker_update_def blocker_visit_def issue_block_def blocker_is_blocked_def
        blocker_note_def pop_strikes_def add_strike_def io_simps STRIKES_def MAX_PER_WINDOW_def Let_def)
qed

theorem second_strike_blocks_witness:
  "blocker_update fake_env [(''x'', Some ''syn flood'')] (demo_one_strike, demo_fw) = (Inr (),
    (demo_one_strike\<lparr>strikes := dict_del ''x'' (strikes demo_one_strike),
       offences := dict_set ''x'' (dict_get (offences demo_one_strike) ''x'' 0 + 1) (offences demo_one_strike),
       until := dict_set ''x'' (fl (1000 + of_int 60)) (until demo_one_strike),
       blocks_issued := blocks_issued demo_one_strike + 1,
       log := deque_append 12 (log demo_one_strike)
         (''00:00:00'', ''BLOCKED '' @ ''x'' @ '' for '' @ py_str_int 60 @ ''s ('' @ ''syn flood'' @ '')'')\<rparr>,
     demo_fw\<lparr>fake_blocks := [(''x'', 60)]\<rparr>))"
  by (rule second_strike_blocks [where t = 1000 and ?w1.0 = demo_fw and ?w2.0 = demo_fw and ?w3.0 = demo_fw
        and ?w4.0 = "demo_fw\<lparr>fake_blocks := [(''x'', 60)]\<rparr>"])
    (simp_all add: demo_one_strike_def blocker_init_def blocker_ok_def fake_env_def demo_fw_def
      dict_get_def dict_set_def)

end
