(* ===== verification/Detect.thy ===== *)
theory Detect
  imports Firewall
begin

text \<open>
  \<open>control/detect.py\<close>: \<open>class Window\<close>, which turns two snapshots of the per-source counters
  into measurements, and \<open>classify\<close>, which names what a source does wrong. The measurements
  are Python floats, so every division is rounded; the lemmas show that rounding never makes
  \<open>classify\<close> flag a source that is not over the thresholds.
\<close>

section \<open>Measurements\<close>

record row =
  row_pps :: rat
  row_mean_len :: rat
  row_syn_ratio :: rat
  row_syn_fin_ratio :: rat
  row_icmp_ratio :: rat
  row_port_spread :: int
  row_drop_ratio :: rat

record window =
  win_prev :: "(string, src_state) dict option"
  win_prev_ns :: "int option"

definition window_init :: window where
  "window_init = \<lparr>win_prev = None, win_prev_ns = None\<rparr>"

text \<open>\<open>dict.fromkeys(cur, 0)\<close>\<close>

definition zero_state :: src_state where
  "zero_state = src_state_of (replicate 13 0)"

text \<open>The snapshot to compare with: none, or one with more packets, counts as all zeros.\<close>

definition baseline :: "(string, src_state) dict \<Rightarrow> string \<Rightarrow> src_state \<Rightarrow> src_state" where
  "baseline prev ip cur =
     (case map_of prev ip of
        None \<Rightarrow> zero_state
      | Some old \<Rightarrow> if ss_packets cur < ss_packets old then zero_state else old)"

text \<open>
  The body of the loop after that: the differences, and the row if the source sent packets.
  An integer is converted to a float before it is divided by one; the quotient of two integers
  is rounded once.
\<close>

definition measure_row :: "rat \<Rightarrow> src_state \<Rightarrow> src_state \<Rightarrow> row option result" where
  "measure_row secs old cur =
     (let n = ss_packets cur - ss_packets old; bytes = ss_bytes cur - ss_bytes old;
          dropped = ss_dropped cur - ss_dropped old; syn = ss_syn cur - ss_syn old;
          fin = ss_fin cur - ss_fin old; rst = ss_rst cur - ss_rst old; icmp = ss_icmp cur - ss_icmp old in
      if n \<le> 0 then Inr None
      else
        result_bind (py_truediv (fl (of_int n)) secs) (\<lambda>pps.
        result_bind (py_truediv (of_int bytes) (of_int n)) (\<lambda>mean_len.
        result_bind (py_truediv (of_int syn) (of_int n)) (\<lambda>syn_ratio.
        result_bind (py_truediv (of_int syn) (of_int (fin + rst + 1))) (\<lambda>syn_fin_ratio.
        result_bind (py_truediv (of_int icmp) (of_int n)) (\<lambda>icmp_ratio.
        result_bind (py_truediv (of_int dropped) (of_int n)) (\<lambda>drop_ratio.
        Inr (Some \<lparr>row_pps = pps, row_mean_len = mean_len, row_syn_ratio = syn_ratio,
          row_syn_fin_ratio = syn_fin_ratio, row_icmp_ratio = icmp_ratio,
          row_port_spread = bit_count (ss_port_bitmap cur), row_drop_ratio = drop_ratio\<rparr>))))))))"

fun window_rows ::
    "(string, src_state) dict \<Rightarrow> rat \<Rightarrow> (string, src_state) dict \<Rightarrow> (string, row) dict \<Rightarrow> (string, row) dict result" where
  "window_rows prev secs [] rows = Inr rows"
| "window_rows prev secs ((ip, cur) # states) rows =
     result_bind (measure_row secs (baseline prev ip cur) cur) (\<lambda>m.
     window_rows prev secs states (case m of None \<Rightarrow> rows | Some r \<Rightarrow> dict_set ip r rows))"

definition elapsed_secs :: "int \<Rightarrow> int \<Rightarrow> rat" where
  "elapsed_secs now_ns prev_ns = fl (fl (of_int (now_ns - prev_ns)) / 1000000000)"

definition MIN_SECS :: rat where
  "MIN_SECS = fl (1/1000)"

definition window_update :: "(string, src_state) dict \<Rightarrow> int \<Rightarrow> (window, (string, row) dict) io" where
  "window_update states now_ns =
     (\<lambda>self.
        let self' = self\<lparr>win_prev := Some states, win_prev_ns := Some now_ns\<rparr> in
        (case win_prev self of
           None \<Rightarrow> Inr []
         | Some prev \<Rightarrow>
             (case win_prev_ns self of
                None \<Rightarrow> Inl TypeError
              | Some prev_ns \<Rightarrow>
                  let secs = elapsed_secs now_ns prev_ns in
                  if secs < MIN_SECS then Inr [] else window_rows prev secs states []),
         self'))"

section \<open>Rules\<close>

definition FLOOD_PPS :: rat where "FLOOD_PPS = 8000"
definition SMALL_PKT :: rat where "SMALL_PKT = 600"
definition SYN_RATIO :: rat where "SYN_RATIO = fl (85/100)"
definition SYN_FIN_RATIO :: rat where "SYN_FIN_RATIO = 40"
definition SCAN_PORTS :: int where "SCAN_PORTS = 24"
definition SCAN_PKT :: rat where "SCAN_PKT = 100"

definition classify :: "row \<Rightarrow> string option" where
  "classify row =
     (if row_pps row > FLOOD_PPS \<and> row_mean_len row < SMALL_PKT then Some ''volumetric flood''
      else if row_port_spread row > SCAN_PORTS \<and> row_mean_len row < SCAN_PKT then Some ''port scan''
      else if row_syn_ratio row > SYN_RATIO \<and> row_syn_fin_ratio row > SYN_FIN_RATIO then Some ''syn flood''
      else if row_icmp_ratio row > fl (9/10) \<and> row_pps row > FLOOD_PPS / 4 then Some ''icmp flood''
      else None)"

lemmas thresholds = FLOOD_PPS_def SMALL_PKT_def SYN_RATIO_def SYN_FIN_RATIO_def SCAN_PORTS_def SCAN_PKT_def

section \<open>Rounding and the thresholds\<close>

lemma fl_above: "\<bar>m\<bar> \<le> 2 ^ 53 \<Longrightarrow> of_int m < fl q \<Longrightarrow> of_int m < q"
  using fl_le_int [of m q] by fastforce

lemma fl_below: "\<bar>m\<bar> \<le> 2 ^ 53 \<Longrightarrow> fl q < of_int m \<Longrightarrow> q < of_int m"
  using fl_ge_int [of m q] by fastforce

lemma fl_strict: "fl p < fl q \<Longrightarrow> p < q"
  using fl_mono [of q p] by fastforce

lemma measure_rowE:
  assumes "measure_row secs old cur = Inr (Some r)"
  obtains n where "n = ss_packets cur - ss_packets old" "0 < n"
    "row_pps r = fl (fl (of_int n) / secs)" "row_mean_len r = fl (of_int (ss_bytes cur - ss_bytes old) / of_int n)"
    "row_syn_ratio r = fl (of_int (ss_syn cur - ss_syn old) / of_int n)"
    "row_syn_fin_ratio r = fl (of_int (ss_syn cur - ss_syn old) /
       of_int (ss_fin cur - ss_fin old + (ss_rst cur - ss_rst old) + 1))"
    "row_icmp_ratio r = fl (of_int (ss_icmp cur - ss_icmp old) / of_int n)"
    "row_port_spread r = bit_count (ss_port_bitmap cur)"
    "row_drop_ratio r = fl (of_int (ss_dropped cur - ss_dropped old) / of_int n)" "secs \<noteq> 0"
  using assms
  by (auto simp: measure_row_def Let_def py_truediv_def result_bind_Inr split: if_splits)

text \<open>One measurement per source that sent something, and only for those.\<close>

lemma window_rows_result:
  assumes "window_rows prev secs states rows = Inr out" "distinct (map fst states)"
    and "\<And>ip. ip \<in> fst ` set states \<Longrightarrow> ip \<notin> fst ` set rows"
  shows "map_of out ip = (case map_of states ip of
      None \<Rightarrow> map_of rows ip
    | Some cur \<Rightarrow> (case measure_row secs (baseline prev ip cur) cur of Inr m \<Rightarrow> m | Inl _ \<Rightarrow> None))"
  using assms
proof (induction states arbitrary: rows)
  case (Cons s states)
  obtain ip' cur where s: "s = (ip', cur)" by fastforce
  then obtain m where m: "measure_row secs (baseline prev ip' cur) cur = Inr m"
    "window_rows prev secs states (case m of None \<Rightarrow> rows | Some r \<Rightarrow> dict_set ip' r rows) = Inr out"
    using Cons.prems(1) by (auto simp: result_bind_Inr)
  let ?rows = "case m of None \<Rightarrow> rows | Some r \<Rightarrow> dict_set ip' r rows"
  have "x \<notin> fst ` set ?rows" if "x \<in> fst ` set states" for x
    using Cons.prems(2) Cons.prems(3) [of x] that s by (auto split: option.splits)
  note IH = Cons.IH [OF m(2) _ this]
  have "ip' \<notin> fst ` set states" "ip' \<notin> fst ` set rows" using Cons.prems(2,3) s by auto
  then have new: "map_of states ip' = None" "map_of rows ip' = None" by (auto simp: map_of_eq_None_iff)
  show ?case
    using IH Cons.prems(2) m(1) new by (auto simp: s split: option.splits)
qed simp

lemma window_rows_total:
  "window_rows prev secs states rows = Inr out \<Longrightarrow> (ip, cur) \<in> set states \<Longrightarrow>
    \<exists>m. measure_row secs (baseline prev ip cur) cur = Inr m"
  by (induction states arbitrary: rows) (auto simp: result_bind_Inr)

lemma window_rows_distinct:
  "window_rows prev secs states rows = Inr out \<Longrightarrow> dict_ok rows \<Longrightarrow> dict_ok out"
proof (induction prev secs states rows rule: window_rows.induct)
  case (2 prev secs ip cur states rows)
  then obtain m where m: "measure_row secs (baseline prev ip cur) cur = Inr m"
    "window_rows prev secs states (case m of None \<Rightarrow> rows | Some r \<Rightarrow> dict_set ip r rows) = Inr out"
    by (auto simp: result_bind_Inr)
  from 2(1) [OF this(2)] 2(3) show ?case by (cases m) auto
qed simp

lemma window_update_distinct:
  assumes "window_update states now win = (Inr rows, win')"
  shows "dict_ok rows"
proof (cases "rows = []")
  case False
  then obtain prev secs where "window_rows prev secs states [] = Inr rows"
    using assms by (auto simp: window_update_def Let_def split: option.splits if_splits)
  from window_rows_distinct [OF this] show ?thesis by simp
qed simp

text \<open>The one division that can fail is by the number of closing packets plus one.\<close>

definition divides_by_zero :: "src_state \<Rightarrow> src_state \<Rightarrow> bool" where
  "divides_by_zero old cur \<longleftrightarrow> ss_packets old < ss_packets cur \<and> ss_fin cur + ss_rst cur + 1 = ss_fin old + ss_rst old"

lemma MIN_SECS_pos: "0 < MIN_SECS"
  by code_simp

lemma measure_row_raises:
  assumes "secs \<noteq> 0"
  shows "if divides_by_zero old cur then measure_row secs old cur = Inl ZeroDivisionError
    else \<exists>m. measure_row secs old cur = Inr m"
proof -
  have "(of_int (ss_fin cur - ss_fin old + (ss_rst cur - ss_rst old) + 1) :: rat) = 0 \<longleftrightarrow>
      ss_fin cur - ss_fin old + (ss_rst cur - ss_rst old) + 1 = 0" by (simp only: of_int_eq_0_iff)
  then show ?thesis using assms
    by (auto simp: measure_row_def divides_by_zero_def py_truediv_def Let_def simp del: of_int_add of_int_diff)
qed

lemma window_rows_raises:
  assumes "secs \<noteq> 0"
  shows "if \<exists>(ip, cur) \<in> set states. divides_by_zero (baseline prev ip cur) cur
    then window_rows prev secs states rows = Inl ZeroDivisionError else \<exists>out. window_rows prev secs states rows = Inr out"
proof (induction states arbitrary: rows)
  case (Cons s states)
  obtain ip cur where s: "s = (ip, cur)" by fastforce
  from measure_row_raises [OF assms, of "baseline prev ip cur" cur] Cons show ?case
    by (cases "divides_by_zero (baseline prev ip cur) cur") (auto simp: s)
qed simp

lemma baseline_divides:
  assumes "0 \<le> ss_fin cur" "0 \<le> ss_rst cur"
  shows "divides_by_zero (baseline prev ip cur) cur \<longleftrightarrow>
    (\<exists>old. map_of prev ip = Some old \<and> ss_packets old < ss_packets cur \<and>
      ss_fin cur + ss_rst cur + 1 = ss_fin old + ss_rst old)"
  using assms by (auto simp: divides_by_zero_def baseline_def zero_state_def src_state_of_def split: option.splits)

section \<open>Properties\<close>

text \<open>
  Rounding never gets a source flagged: when \<open>classify\<close> names a reason for a measurement of
  at most 2 to the 53rd packets, the exact counts satisfy that rule. A volumetric flood is more
  than 8000 packets per second of less than 600 bytes on average; a port scan is more than 24
  port bits with less than 100 bytes on average; a SYN flood is more than 85 percent SYNs and
  more than 40 of them per closing packet (plus one); an ICMP flood is more than 90 percent ICMP
  at more than 2000 packets per second.
\<close>

theorem classify_sound:
  assumes "measure_row secs old cur = Inr (Some r)" "0 < secs" "classify r = Some why"
    and "n = ss_packets cur - ss_packets old" "n \<le> 2 ^ 53"
    and "bytes = ss_bytes cur - ss_bytes old" "syn = ss_syn cur - ss_syn old" "icmp = ss_icmp cur - ss_icmp old"
    and "ends = ss_fin cur - ss_fin old + (ss_rst cur - ss_rst old)" "0 \<le> ends"
  shows "why = ''volumetric flood'' \<and> 8000 * secs < of_int n \<and> bytes < 600 * n \<or>
    why = ''port scan'' \<and> 24 < bit_count (ss_port_bitmap cur) \<and> bytes < 100 * n \<or>
    why = ''syn flood'' \<and> 85 * n < 100 * syn \<and> 40 * (ends + 1) < syn \<or>
    why = ''icmp flood'' \<and> 9 * n < 10 * icmp \<and> 2000 * secs < of_int n"
proof -
  note [simp del] = of_int_add of_int_diff
  from measure_rowE [OF assms(1)] assms(4-9) have r: "0 < n"
    "row_pps r = fl (fl (of_int n) / secs)" "row_mean_len r = fl (of_int bytes / of_int n)"
    "row_syn_ratio r = fl (of_int syn / of_int n)" "row_syn_fin_ratio r = fl (of_int syn / of_int (ends + 1))"
    "row_icmp_ratio r = fl (of_int icmp / of_int n)" "row_port_spread r = bit_count (ss_port_bitmap cur)"
    by metis+
  have n: "fl (of_int n) = of_int n" using r(1) assms(5) by (intro fl_of_int) simp
  have pps: "of_int m * secs < of_int n" if "of_int m < row_pps r" "\<bar>m\<bar> \<le> 2 ^ 53" for m
    using fl_above [OF that(2), of "of_int n / secs"] that(1) assms(2) by (simp add: r(2) n pos_less_divide_eq)
  have len: "bytes < m * n" if "row_mean_len r < of_int m" "\<bar>m\<bar> \<le> 2 ^ 53" for m
  proof -
    have "of_int bytes / of_int n < (of_int m :: rat)" using fl_below [OF that(2)] that(1) by (simp add: r(3))
    then have "(of_int bytes :: rat) < of_int (m * n)" using r(1) by (simp add: pos_divide_less_eq)
    then show ?thesis by (simp only: of_int_less_iff)
  qed
  have share: "a * n < b * x" if "fl (of_int a / of_int b) < fl (of_int x / of_int n)" "0 < b" for a b x
  proof -
    have "of_int a / of_int b < (of_int x / of_int n :: rat)" using fl_strict that(1) .
    then have "(of_int (a * n) :: rat) < of_int (b * x)"
      using r(1) that(2) by (simp add: pos_less_divide_eq pos_divide_less_eq mult.commute field_simps)
    then show ?thesis by (simp only: of_int_less_iff)
  qed
  have closing: "40 * (ends + 1) < syn" if "40 < row_syn_fin_ratio r"
  proof -
    have "40 < (of_int syn / of_int (ends + 1) :: rat)" using fl_above [of 40] that by (simp add: r(5))
    then have "40 * of_int (ends + 1) < (of_int syn :: rat)"
      using assms(10) by (simp add: pos_less_divide_eq)
    then have "(of_int (40 * (ends + 1)) :: rat) < of_int syn" by (simp only: of_int_mult of_int_numeral)
    then show ?thesis by (simp only: of_int_less_iff)
  qed
  from assms(3) show ?thesis
    using pps [of 8000] pps [of 2000] len [of 600] len [of 100] closing share [of 85 100 syn] share [of 9 10 icmp]
    by (auto simp: classify_def thresholds r(4,6,7) split: if_splits)
qed

text \<open>A flood of 20000 empty TCP packets in one second, after a snapshot without any.\<close>

definition demo_flood :: src_state where
  "demo_flood = zero_state\<lparr>ss_packets := 20000, ss_bytes := 1200000, ss_syn := 20000\<rparr>"

definition demo_row :: row where
  "demo_row = \<lparr>row_pps = 20000, row_mean_len = 60, row_syn_ratio = 1, row_syn_fin_ratio = 20000,
     row_icmp_ratio = 0, row_port_spread = 0, row_drop_ratio = 0\<rparr>"

lemma demo_measure: "measure_row 1 zero_state demo_flood = Inr (Some demo_row)"
  using fl_numeral [of "num.Bit0 (num.Bit0 (num.Bit1 (num.Bit1 (num.Bit1 num.One))))"] fl_of_int [of 20000]
  by (simp add: measure_row_def zero_state_def demo_flood_def demo_row_def src_state_of_def py_truediv_def
      bit_count_def popcount.simps Let_def)

theorem classify_sound_witness:
  "''volumetric flood'' = ''volumetric flood'' \<and> 8000 * (1 :: rat) < of_int 20000 \<and> (1200000 :: int) < 600 * 20000 \<or>
   ''volumetric flood'' = ''port scan'' \<and> 24 < bit_count (ss_port_bitmap demo_flood) \<and> (1200000 :: int) < 100 * 20000 \<or>
   ''volumetric flood'' = ''syn flood'' \<and> (85 :: int) * 20000 < 100 * 20000 \<and> (40 :: int) * (0 + 1) < 20000 \<or>
   ''volumetric flood'' = ''icmp flood'' \<and> (9 :: int) * 20000 < 10 * 0 \<and> 2000 * (1 :: rat) < of_int 20000"
  by (rule classify_sound [OF demo_measure])
    (simp_all add: classify_def demo_row_def thresholds demo_flood_def zero_state_def src_state_of_def)

text \<open>
  C26. When \<open>Window.update\<close> raises: with a previous snapshot at least the minimal time ago and no
  negative closing counts, it raises \<open>ZeroDivisionError\<close> exactly when some source has an entry in both
  snapshots, with more packets in the new one but exactly one closing packet (FIN or RST) less, and it returns
  rows otherwise. The kernel's counters never go down, so this is an entry that was deleted and
  created again in between and has overtaken the old packet count; the comparison of packet counts that should
  recognise it does not. The new snapshot is kept either way.
\<close>

theorem window_update_zero_division:
  assumes "MIN_SECS \<le> elapsed_secs now_ns prev_ns"
    and "\<forall>(ip, cur) \<in> set states. 0 \<le> ss_fin cur \<and> 0 \<le> ss_rst cur"
    and "window_update states now_ns \<lparr>win_prev = Some prev, win_prev_ns = Some prev_ns\<rparr> = (r, self')"
  shows "self' = \<lparr>win_prev = Some states, win_prev_ns = Some now_ns\<rparr> \<and>
    (if \<exists>ip cur old. (ip, cur) \<in> set states \<and> map_of prev ip = Some old \<and> ss_packets old < ss_packets cur \<and>
          ss_fin cur + ss_rst cur + 1 = ss_fin old + ss_rst old
     then r = Inl ZeroDivisionError else \<exists>rows. r = Inr rows)"
proof -
  let ?secs = "elapsed_secs now_ns prev_ns"
  have secs: "?secs \<noteq> 0" using MIN_SECS_pos assms(1) by simp
  have r: "r = window_rows prev ?secs states []" "self' = \<lparr>win_prev = Some states, win_prev_ns = Some now_ns\<rparr>"
    using assms(1,3) by (auto simp: window_update_def Let_def)
  have "divides_by_zero (baseline prev ip cur) cur \<longleftrightarrow>
      (\<exists>old. map_of prev ip = Some old \<and> ss_packets old < ss_packets cur \<and>
        ss_fin cur + ss_rst cur + 1 = ss_fin old + ss_rst old)" if "(ip, cur) \<in> set states" for ip cur
    using baseline_divides [of cur prev ip] assms(2) that by auto
  then have "(\<exists>(ip, cur) \<in> set states. divides_by_zero (baseline prev ip cur) cur) \<longleftrightarrow>
      (\<exists>ip cur old. (ip, cur) \<in> set states \<and> map_of prev ip = Some old \<and> ss_packets old < ss_packets cur \<and>
        ss_fin cur + ss_rst cur + 1 = ss_fin old + ss_rst old)" by (auto; blast)
  with window_rows_raises [OF secs, of states prev "[]"] r show ?thesis by simp
qed

definition reborn_source :: "(string, src_state) dict" where
  "reborn_source = [(''10.0.0.1'', zero_state\<lparr>ss_packets := 10\<rparr>)]"

definition old_source :: "(string, src_state) dict" where
  "old_source = [(''10.0.0.1'', zero_state\<lparr>ss_packets := 5, ss_fin := 1\<rparr>)]"

theorem window_update_zero_division_witness:
  "fst (window_update reborn_source 2000000000 \<lparr>win_prev = Some old_source, win_prev_ns = Some 1000000000\<rparr>) =
    Inl ZeroDivisionError"
proof -
  let ?r = "window_update reborn_source 2000000000 \<lparr>win_prev = Some old_source, win_prev_ns = Some 1000000000\<rparr>"
  have "elapsed_secs 2000000000 1000000000 = 1" by (simp add: elapsed_secs_def fl_numeral)
  moreover have "MIN_SECS \<le> 1" using fl_le_int [of 1 "1/1000"] by (simp add: MIN_SECS_def)
  ultimately show ?thesis
    using window_update_zero_division [of 2000000000 1000000000 reborn_source old_source "fst ?r" "snd ?r"]
    by (simp add: reborn_source_def old_source_def zero_state_def src_state_of_def)
qed

text \<open>
  After a first snapshot, \<open>Window.update\<close> returns a row for exactly those sources that sent
  packets since the previous snapshot (counting from zero when the source is new or its packet
  count went down), and for every row the shares of SYN, ICMP and dropped packets lie between
  zero and one when those counters grew, and grew no faster than the packets.
\<close>

theorem window_update_rows:
  assumes "window_update states now_ns \<lparr>win_prev = Some prev, win_prev_ns = Some prev_ns\<rparr> = (Inr rows, self')"
    and "distinct (map fst states)" "MIN_SECS \<le> elapsed_secs now_ns prev_ns"
  shows "self' = \<lparr>win_prev = Some states, win_prev_ns = Some now_ns\<rparr> \<and>
    fst ` set rows = {ip. \<exists>cur. map_of states ip = Some cur \<and> ss_packets (baseline prev ip cur) < ss_packets cur} \<and>
    (\<forall>ip cur r. \<forall>(f, share) \<in> set [(ss_syn, row_syn_ratio), (ss_icmp, row_icmp_ratio), (ss_dropped, row_drop_ratio)].
       map_of states ip = Some cur \<and> map_of rows ip = Some r \<and> 0 \<le> f cur - f (baseline prev ip cur) \<and>
       f cur - f (baseline prev ip cur) \<le> ss_packets cur - ss_packets (baseline prev ip cur) \<longrightarrow>
       0 \<le> share r \<and> share r \<le> 1)"
proof -
  let ?secs = "elapsed_secs now_ns prev_ns"
  have run: "window_rows prev ?secs states [] = Inr rows" "self' = \<lparr>win_prev = Some states, win_prev_ns = Some now_ns\<rparr>"
    using assms(1,3) by (auto simp: window_update_def Let_def)
  note row = window_rows_result [OF run(1) assms(2), simplified]
  have keys: "ip \<in> fst ` set rows \<longleftrightarrow> map_of rows ip \<noteq> None" for ip by (simp add: map_of_eq_None_iff)
  have total: "\<exists>m. measure_row ?secs (baseline prev ip cur) cur = Inr m" if "map_of states ip = Some cur" for ip cur
    using window_rows_total [OF run(1)] map_of_SomeD [OF that] by blast
  have some: "map_of rows ip \<noteq> None \<longleftrightarrow> (\<exists>cur. map_of states ip = Some cur \<and> ss_packets (baseline prev ip cur) < ss_packets cur)" for ip
    using total [of ip] row [of ip]
    by (auto simp: measure_row_def Let_def result_bind_Inr split: option.splits if_splits)
  have "0 \<le> share r \<and> share r \<le> 1"
    if "map_of states ip = Some cur" "map_of rows ip = Some r"
      "(f, share) \<in> set [(ss_syn, row_syn_ratio), (ss_icmp, row_icmp_ratio), (ss_dropped, row_drop_ratio)]"
      "0 \<le> f cur - f (baseline prev ip cur)"
      "f cur - f (baseline prev ip cur) \<le> ss_packets cur - ss_packets (baseline prev ip cur)" for ip cur r f share
  proof -
    let ?n = "ss_packets cur - ss_packets (baseline prev ip cur)" and ?x = "f cur - f (baseline prev ip cur)"
    have "measure_row ?secs (baseline prev ip cur) cur = Inr (Some r)"
      using row [of ip] that(1,2) total [OF that(1)] by auto
    then have "share r = fl (of_int ?x / of_int ?n)" "0 < ?n"
      using that(3) by (auto elim!: measure_rowE)
    moreover have "(of_int ?x / of_int ?n :: rat) \<le> 1"
      using that(5) \<open>0 < ?n\<close> by (simp add: divide_le_eq_1 del: of_int_diff)
    moreover have "0 \<le> (of_int ?x / of_int ?n :: rat)"
      using that(4) \<open>0 < ?n\<close> by (simp del: of_int_diff)
    ultimately show ?thesis using fl_le_int [of 1 "of_int ?x / of_int ?n"] by simp
  qed
  then have shares: "\<forall>ip cur r. \<forall>(f, share) \<in> set [(ss_syn, row_syn_ratio), (ss_icmp, row_icmp_ratio), (ss_dropped, row_drop_ratio)].
       map_of states ip = Some cur \<and> map_of rows ip = Some r \<and> 0 \<le> f cur - f (baseline prev ip cur) \<and>
       f cur - f (baseline prev ip cur) \<le> ss_packets cur - ss_packets (baseline prev ip cur) \<longrightarrow>
       0 \<le> share r \<and> share r \<le> 1" by fast
  have "fst ` set rows = {ip. \<exists>cur. map_of states ip = Some cur \<and> ss_packets (baseline prev ip cur) < ss_packets cur}"
    unfolding set_eq_iff mem_Collect_eq keys some by simp
  with run(2) shares show ?thesis by simp
qed

lemma demo_window:
  "window_update [(''10.0.0.1'', demo_flood)] 2000000000
     \<lparr>win_prev = Some [(''10.0.0.1'', zero_state)], win_prev_ns = Some 1000000000\<rparr> =
   (Inr [(''10.0.0.1'', demo_row)], \<lparr>win_prev = Some [(''10.0.0.1'', demo_flood)], win_prev_ns = Some 2000000000\<rparr>)"
  "MIN_SECS \<le> elapsed_secs 2000000000 1000000000"
proof -
  have e: "elapsed_secs 2000000000 1000000000 = 1" by (simp add: elapsed_secs_def fl_numeral)
  moreover have m: "MIN_SECS \<le> 1" using fl_le_int [of 1 "1/1000"] by (simp add: MIN_SECS_def)
  moreover have "baseline [(''10.0.0.1'', zero_state)] ''10.0.0.1'' demo_flood = zero_state"
    by (simp add: baseline_def)
  ultimately show "window_update [(''10.0.0.1'', demo_flood)] 2000000000
     \<lparr>win_prev = Some [(''10.0.0.1'', zero_state)], win_prev_ns = Some 1000000000\<rparr> =
   (Inr [(''10.0.0.1'', demo_row)], \<lparr>win_prev = Some [(''10.0.0.1'', demo_flood)], win_prev_ns = Some 2000000000\<rparr>)"
    by (simp add: window_update_def demo_measure Let_def dict_set_def)
  show "MIN_SECS \<le> elapsed_secs 2000000000 1000000000" using e m by simp
qed

theorem window_update_rows_witness:
  "fst ` set [(''10.0.0.1'', demo_row)] = {ip. \<exists>cur. map_of [(''10.0.0.1'', demo_flood)] ip = Some cur \<and>
      ss_packets (baseline [(''10.0.0.1'', zero_state)] ip cur) < ss_packets cur}"
  using window_update_rows [OF demo_window(1) _ demo_window(2)] by simp

end
