(* ===== verification/Py_Format.thy ===== *)
theory Py_Format
  imports Py_Float Py_Text
begin

text \<open>
  The format specifications that the programs use in their output: padding to a width, integers
  with thousands separators, floats with a fixed number of decimals and the general format
  \<open>g\<close>. A finite float is an exact rational number here, so rounding to a number of decimals is
  rounding half to even of a rational, as the C library does it on the exact value of a double.
\<close>

section \<open>Padding\<close>

text \<open>\<open>{s:<n}\<close> and \<open>{s:>n}\<close>.\<close>

definition py_ljust :: "nat \<Rightarrow> string \<Rightarrow> string" where
  "py_ljust n s = s @ replicate (n - length s) (CHR '' '')"

definition py_rjust :: "nat \<Rightarrow> string \<Rightarrow> string" where
  "py_rjust n s = replicate (n - length s) (CHR '' '') @ s"

definition zfill :: "nat \<Rightarrow> string \<Rightarrow> string" where
  "zfill n s = replicate (n - length s) (CHR ''0'') @ s"

lemma length_py_ljust [simp]: "length (py_ljust n s) = max n (length s)"
  by (simp add: py_ljust_def)

lemma length_py_rjust [simp]: "length (py_rjust n s) = max n (length s)"
  by (simp add: py_rjust_def)

section \<open>Integers\<close>

text \<open>\<open>{n:,}\<close>: a comma after every third digit from the right.\<close>

fun commas_rev :: "string \<Rightarrow> string" where
  "commas_rev (a # b # c # d # ds) = a # b # c # CHR '','' # commas_rev (d # ds)"
| "commas_rev ds = ds"

definition py_commas :: "int \<Rightarrow> string" where
  "py_commas n = (if n < 0 then ''-'' else '''') @ rev (commas_rev (rev (digits_of_nat (nat \<bar>n\<bar>))))"

text \<open>Without the commas it is the plain decimal number.\<close>

lemma commas_rev_digits: "CHR '','' \<notin> set ds \<Longrightarrow> filter (\<lambda>c. c \<noteq> CHR '','') (commas_rev ds) = ds"
  by (induction ds rule: commas_rev.induct) (auto intro!: filter_True)

lemma py_commas_digits: "filter (\<lambda>c. c \<noteq> CHR '','') (py_commas n) = py_str_int n"
proof -
  have "CHR '','' \<notin> set (digits_of_nat m)" for m
    by (auto dest!: digits_of_nat_digits simp: is_ascii_digit_def)
  then show ?thesis
    by (auto simp: py_commas_def py_str_int_def rev_filter [symmetric] commas_rev_digits)
qed

section \<open>Floats\<close>

text \<open>\<open>{x:.kf}\<close>.\<close>

definition fixed_units :: "nat \<Rightarrow> rat \<Rightarrow> nat" where
  "fixed_units k x = nat (round_even (\<bar>x\<bar> * 10 ^ k))"

definition fixed_frac :: "nat \<Rightarrow> nat \<Rightarrow> string" where
  "fixed_frac k u = (if k = 0 then '''' else ''.'' @ zfill k (digits_of_nat (u mod 10 ^ k)))"

definition py_fixed :: "nat \<Rightarrow> rat \<Rightarrow> string" where
  "py_fixed k x =
     (if x < 0 then ''-'' else '''') @ digits_of_nat (fixed_units k x div 10 ^ k) @ fixed_frac k (fixed_units k x)"

text \<open>\<open>{x:,.kf}\<close>.\<close>

definition py_fixed_commas :: "nat \<Rightarrow> rat \<Rightarrow> string" where
  "py_fixed_commas k x =
     (if x < 0 then ''-'' else '''') @ py_commas (int (fixed_units k x div 10 ^ k)) @ fixed_frac k (fixed_units k x)"

text \<open>The number printed is within half a unit of the last place.\<close>

lemma fixed_units_near: "\<bar>of_nat (fixed_units k x) / 10 ^ k - \<bar>x\<bar>\<bar> \<le> 1 / 2 / 10 ^ k"
proof -
  let ?y = "\<bar>x\<bar> * 10 ^ k"
  have "0 \<le> round_even ?y" by (rule round_even_ge_of_int) simp
  then have "of_nat (fixed_units k x) = (of_int (round_even ?y) :: rat)" by (simp add: fixed_units_def)
  then have "\<bar>of_nat (fixed_units k x) - ?y\<bar> \<le> 1 / 2" using round_even_near [of ?y] by simp
  then have "\<bar>of_nat (fixed_units k x) - ?y\<bar> / 10 ^ k \<le> 1 / 2 / 10 ^ k" by (rule divide_right_mono) simp
  moreover have "of_nat (fixed_units k x) / 10 ^ k - \<bar>x\<bar> = (of_nat (fixed_units k x) - ?y) / 10 ^ k"
    by (simp add: field_simps)
  ultimately show ?thesis by (simp add: abs_divide)
qed

text \<open>
  \<open>{x:g}\<close>: six significant digits, trailing zeros removed, and the exponent form when the
  decimal exponent is below -4 or above 5.
\<close>

definition dec_exp :: "rat \<Rightarrow> int" where
  "dec_exp q =
     (let (n, d) = quotient_of q;
          k = int (length (digits_of_nat (nat n))) - int (length (digits_of_nat (nat d))) in
      if 10 powi k \<le> q then k else k - 1)"

definition six_digits :: "rat \<Rightarrow> nat \<times> int" where
  "six_digits q =
     (let e = dec_exp q; m = nat (round_even (q / 10 powi (e - 5))) in
      if m = 1000000 then (100000, e + 1) else (m, e))"

definition strip_zeros :: "string \<Rightarrow> string" where
  "strip_zeros s = rev (dropWhile (\<lambda>c. c = CHR ''0'') (rev s))"

definition with_point :: "string \<Rightarrow> string \<Rightarrow> string" where
  "with_point a b = (let b = strip_zeros b in if b = '''' then a else a @ ''.'' @ b)"

definition general_pos :: "rat \<Rightarrow> string" where
  "general_pos q =
     (case six_digits q of (m, e) \<Rightarrow>
        let ds = digits_of_nat m in
        if e < - 4 \<or> 6 \<le> e then
          with_point (take 1 ds) (drop 1 ds) @ ''e'' @ (if e < 0 then ''-'' else ''+'') @ zfill 2 (digits_of_nat (nat \<bar>e\<bar>))
        else if e < 0 then with_point ''0'' (replicate (nat (- e - 1)) (CHR ''0'') @ ds)
        else with_point (take (nat e + 1) ds) (drop (nat e + 1) ds))"

fun py_general :: "pyfloat \<Rightarrow> string" where
  "py_general (Fin q) = (if q = 0 then ''0'' else if q < 0 then ''-'' @ general_pos (- q) else general_pos q)"
| "py_general PosInf = ''inf''"
| "py_general NegInf = ''-inf''"
| "py_general NaN = ''nan''"


end
