(* ===== verification/Fwctl.thy ===== *)
theory Fwctl
  imports Firewall_Props Py_Format "HOL-Library.List_Lexorder"
begin

text \<open>
  \<open>control/fwctl.py\<close>: the operator's commands. A handler runs on the pair of what has been
  written to the terminal and the outside world; it returns its exit code. The command line
  is given as parsed, one constructor per subcommand with its options.
\<close>

section \<open>Output\<close>

abbreviation newline :: string where
  "newline \<equiv> [CHR 0x0A]"

definition ansi :: "string \<Rightarrow> string" where
  "ansi s = CHR 0x1B # CHR ''['' # s"

definition BOLD :: string where "BOLD = ansi ''1m''"
definition DIM :: string where "DIM = ansi ''2m''"
definition RED :: string where "RED = ansi ''31m''"
definition GREEN :: string where "GREEN = ansi ''32m''"
definition YELLOW :: string where "YELLOW = ansi ''33m''"
definition RESET :: string where "RESET = ansi ''0m''"
definition CLEAR :: string where "CLEAR = ansi ''H'' @ ansi ''2J''"

type_synonym ('w, 'a) cmd = "(string \<times> 'w, 'a) io"

definition py_write :: "string \<Rightarrow> ('w, unit) cmd" where
  "py_write s = io_modify (\<lambda>out. out @ s)"

text \<open>\<open>print\<close> of the concatenation of the parts of a format string.\<close>

definition py_print :: "string list \<Rightarrow> ('w, unit) cmd" where
  "py_print parts = py_write (concat parts @ newline)"

definition HUMAN_UNITS :: "(string \<times> rat) list" where
  "HUMAN_UNITS = [(''G'', 1000000000), (''M'', 1000000), (''k'', 1000)]"

definition human :: "rat \<Rightarrow> string" where
  "human n =
     (case find (\<lambda>(unit, d). \<bar>n\<bar> \<ge> d) HUMAN_UNITS of
        Some (unit, d) \<Rightarrow> py_fixed 1 (fl (fl n / d)) @ unit
      | None \<Rightarrow> py_fixed 0 (fl n))"

definition human_int :: "int \<Rightarrow> string" where
  "human_int n = human (of_int n)"

text \<open>The functions of the \<open>time\<close> module.\<close>

record 'w clocks =
  clk_monotonic :: "'w \<Rightarrow> rat \<times> 'w"
  clk_time :: "'w \<Rightarrow> rat \<times> 'w"
  clk_strftime :: "'w \<Rightarrow> string \<times> 'w"
  clk_sleep :: "rat \<Rightarrow> 'w \<Rightarrow> 'w"

text \<open>\<open>watch(fn)\<close> for the turns before the interrupt.\<close>

fun watch :: "nat \<Rightarrow> 'w clocks \<Rightarrow> ('w, unit) cmd \<Rightarrow> ('w, unit) cmd" where
  "watch 0 clk fn = io_return ()"
| "watch (Suc n) clk fn =
     io_seq (py_write CLEAR)
    (io_seq fn
    (io_seq (io_outer (io_read (\<lambda>w. ((), clk_sleep clk 1 w))))
    (watch n clk fn)))"

section \<open>The command line\<close>

datatype allow_args = AllowAdd "string list" | AllowDel "string list" | AllowList

datatype block_args = BlockAdd "string list" pyfloat | BlockDel "string list" | BlockFlush | BlockList bool

datatype port_args = PortSet bool string "int list" | PortDel string "int list" | PortFlush | PortList

record config_args =
  set_rate :: "int option"
  set_burst :: "int option"
  set_aggressiveness :: "int option"
  set_enable :: "string list"
  set_disable :: "string list"

datatype fwctl_args =
    Status
  | Allow allow_args
  | Block block_args
  | Port port_args
  | Policy "bool option"
  | Top int bool
  | Stats
  | ConfigShow
  | ConfigSet config_args
  | Reset bool bool
  | Selftest

text \<open>\<open>ACTIONS[a]\<close>\<close>

definition action_name :: "int \<Rightarrow> string result" where
  "action_name a = (case map_of ACTIONS a of None \<Rightarrow> Inl KeyError | Some s \<Rightarrow> Inr s)"

definition cfg_policy_name :: "(string, int) dict \<Rightarrow> string result" where
  "cfg_policy_name cfg = result_bind (dict_index cfg ''default_policy'') action_name"

section \<open>status\<close>

text \<open>The non-zero counters whose name starts with a prefix, one line each.\<close>

definition print_counters :: "string \<Rightarrow> (string, int) dict \<Rightarrow> ('w, unit) cmd" where
  "print_counters prefix s =
     io_for STAT_NAMES (\<lambda>name.
       if starts_with name prefix
       then io_bind (io_of (dict_index s name)) (\<lambda>v.
         if v \<noteq> 0 then py_print [''    '', py_ljust 18 name, '' '', py_rjust 12 (py_commas v)] else io_return ())
       else io_return ())"

definition print_program :: "prog_info \<Rightarrow> ('w, unit) cmd" where
  "print_program prog =
     io_seq (py_print [''  program        '', info_name prog, '' id '', py_str_int (info_id prog), '', tag '', info_tag prog, '', '',
       py_str_int (info_xlated_bytes prog div 8), '' BPF instructions, JIT-compiled to '', py_commas (info_jited_bytes prog), '' bytes''])
    (if info_run_cnt prog \<noteq> 0
     then io_bind (io_of (py_truediv (of_int (info_run_time_ns prog)) (of_int (info_run_cnt prog)))) (\<lambda>ns.
       py_print [''  time in XDP    '', py_fixed 0 ns, '' ns per packet over '', py_commas (info_run_cnt prog), '' runs''])
     else io_return ())"

definition print_settings :: "'w os \<Rightarrow> firewall \<Rightarrow> (string, int) dict \<Rightarrow> ('w, unit) cmd" where
  "print_settings os fw cfg =
     io_bind (io_of (cfg_policy_name cfg)) (\<lambda>policy.
     io_bind (io_outer (bpfmap_keys os (fw_portrules fw))) (\<lambda>rules.
     io_seq (py_print [''  default policy '', policy, ''   ('', py_str_int (int (length rules)), '' port rules)''])
    (io_bind (io_of (dict_index cfg ''rate_pps'')) (\<lambda>rate.
     io_bind (io_of (dict_index cfg ''burst_pkts'')) (\<lambda>burst.
     io_seq (py_print [''  rate limit     '', py_str_int rate, '' pps/source, burst '', py_str_int burst])
    (io_bind (io_of (dict_index cfg ''aggressiveness'')) (\<lambda>lvl.
     io_seq (py_print [''  aggressiveness L'', py_str_int lvl])
    (io_bind (io_of (dict_index cfg ''features'')) (\<lambda>feats.
     py_print [''  features       '', describe_features feats])))))))))"

definition print_sizes :: "'w os \<Rightarrow> firewall \<Rightarrow> ('w, unit) cmd" where
  "print_sizes os fw =
     io_bind (io_outer (bpfmap_keys os (fw_allowlist fw))) (\<lambda>allowed.
     io_seq (py_print [''  allowlist      '', py_str_int (int (length allowed)), '' entries''])
    (io_bind (io_outer (fw_list_blocked os fw False)) (\<lambda>blocked.
     io_seq (py_print [''  blocklist      '', py_str_int (int (length blocked)), '' active''])
    (io_bind (io_outer (bpfmap_keys os (fw_srcstate fw))) (\<lambda>sources.
     py_print [''  tracked srcs   '', py_str_int (int (length sources)), '' / '', py_str_int MAX_TRACKED])))))"

definition print_totals :: "(string, int) dict \<Rightarrow> ('w, unit) cmd" where
  "print_totals s =
     io_seq (py_print [newline, BOLD, ''counters'', RESET])
    (io_bind (io_of (dict_index s ''rx_packets'')) (\<lambda>rx.
     io_bind (io_of (dict_index s ''rx_bytes'')) (\<lambda>rxb.
     io_seq (py_print [''  received       '', py_rjust 14 (py_commas rx), ''  ('', human_int rxb, ''B)''])
    (io_bind (io_of (dict_index s ''passes_total'')) (\<lambda>passes.
     io_seq (py_print [''  '', GREEN, ''passed'', RESET, ''         '', py_rjust 14 (py_commas passes)])
    (io_seq (print_counters ''pass_'' s)
    (io_bind (io_of (dict_index s ''drops_total'')) (\<lambda>drops.
     io_seq (py_print [''  '', RED, ''dropped'', RESET, ''        '', py_rjust 14 (py_commas drops)])
    (io_seq (print_counters ''drop_'' s)
    (io_bind (io_of (dict_index s ''state_full'')) (\<lambda>full.
     if full \<noteq> 0 then py_print [''  '', YELLOW, ''srcstate full '', py_commas full, '' times'', RESET]
     else io_return ())))))))))))"

definition cmd_status :: "'w os \<Rightarrow> firewall \<Rightarrow> ('w, unit) cmd" where
  "cmd_status os fw =
     io_bind (io_outer (fw_read_config os fw)) (\<lambda>cfg.
     io_bind (io_outer (fw_read_stats os fw)) (\<lambda>s.
     io_bind (io_outer (fw_prog_info os fw)) (\<lambda>prog.
     io_seq (py_print [BOLD, ''firewall status'', RESET])
    (io_seq (print_program prog)
    (io_seq (print_settings os fw cfg)
    (io_seq (print_sizes os fw)
    (print_totals s)))))))"

section \<open>allow and block\<close>

text \<open>Whether an entry was there, as \<open>del\<close> reports it.\<close>

definition print_removed :: "string \<Rightarrow> bool \<Rightarrow> string \<Rightarrow> ('w, unit) cmd" where
  "print_removed done found what = py_print [if found then done else ''not found:'', '' '', what]"

fun cmd_allow :: "'w os \<Rightarrow> firewall \<Rightarrow> allow_args \<Rightarrow> ('w, unit) cmd" where
  "cmd_allow os fw (AllowAdd cidrs) =
     io_for cidrs (\<lambda>cidr.
       io_seq (io_outer (fw_allow os fw cidr))
      (io_bind (io_of (parse_cidr cidr)) (\<lambda>net.
       py_print [GREEN, ''allowed'', RESET, '' '', show_network net])))"
| "cmd_allow os fw (AllowDel cidrs) =
     io_for cidrs (\<lambda>cidr.
       io_bind (io_outer (fw_unallow os fw cidr)) (\<lambda>found. print_removed ''removed'' found cidr))"
| "cmd_allow os fw AllowList =
     io_bind (io_outer (fw_list_allowed os fw)) (\<lambda>listed.
     let rows = sort_key (\<lambda>e. - ae_hits e) listed in
     io_seq (if rows = [] then py_print [''(allowlist is empty)''] else io_return ())
    (io_for rows (\<lambda>e. py_print [py_ljust 22 (ae_cidr e), py_rjust 14 (py_commas (ae_hits e))])))"

definition block_left :: "block_entry \<Rightarrow> string" where
  "block_left e =
     (if be_expired e then ''EXPIRED''
      else case be_remaining_s e of None \<Rightarrow> ''permanent'' | Some t \<Rightarrow> py_fixed 0 t @ ''s'')"

definition print_block :: "block_entry \<Rightarrow> ('w, unit) cmd" where
  "print_block e =
     py_print [py_ljust 20 (be_cidr e), py_rjust 12 (block_left e), py_rjust 14 (py_commas (be_hits e)), ''  '', be_reason e]"

text \<open>\<open>args.duration <= 0\<close>, which NaN is not.\<close>

fun not_positive :: "pyfloat \<Rightarrow> bool" where
  "not_positive (Fin q) = (q \<le> 0)"
| "not_positive PosInf = False"
| "not_positive NegInf = True"
| "not_positive NaN = False"

definition block_one :: "'w os \<Rightarrow> firewall \<Rightarrow> pyfloat \<Rightarrow> string \<Rightarrow> ('w, unit) cmd" where
  "block_one os fw duration cidr =
     io_bind (io_outer (fw_is_allowed os fw (hd (py_split (CHR ''/'') cidr)))) (\<lambda>okay.
     if okay then
       py_print [YELLOW, ''refused'', RESET, '' '', cidr, '': it is allowlisted. Remove it from the allowlist first.'']
     else
       io_seq (io_outer (fw_block os fw cidr duration BLOCK_MANUAL))
      (io_bind (io_of (parse_cidr cidr)) (\<lambda>net.
       py_print [RED, ''blocked'', RESET, '' '', show_network net, '' '',
         if not_positive duration then ''permanently'' else ''for '' @ py_general duration @ ''s''])))"

fun cmd_block :: "'w os \<Rightarrow> firewall \<Rightarrow> block_args \<Rightarrow> ('w, unit) cmd" where
  "cmd_block os fw (BlockAdd cidrs duration) = io_for cidrs (block_one os fw duration)"
| "cmd_block os fw (BlockDel cidrs) =
     io_for cidrs (\<lambda>cidr.
       io_bind (io_outer (fw_unblock os fw cidr)) (\<lambda>found. print_removed ''unblocked'' found cidr))"
| "cmd_block os fw BlockFlush =
     io_bind (io_outer (fw_clear_blocks os fw)) (\<lambda>n.
     py_print [''removed '', py_str_int n, '' blocklist entries''])"
| "cmd_block os fw (BlockList all_entries) =
     io_bind (io_outer (fw_list_blocked os fw all_entries)) (\<lambda>listed.
     let rows = sort_key (\<lambda>e. - be_hits e) listed in
     if rows = [] then py_print [''(blocklist is empty)'']
     else
       io_seq (py_print [BOLD, py_ljust 20 ''prefix'', py_rjust 12 ''remaining'', py_rjust 14 ''hits'', ''  reason'', RESET])
      (io_for rows print_block))"

section \<open>port and policy\<close>

definition rule_text :: "string \<Rightarrow> int \<Rightarrow> string" where
  "rule_text proto port = proto @ ''/'' @ py_str_int port"

definition print_rule :: "port_rule \<Rightarrow> ('w, unit) cmd" where
  "print_rule r =
     py_print [py_ljust 14 (rule_text (pr_proto r) (pr_port r)),
       if pr_action r = ''allow'' then GREEN else RED, py_ljust 8 (pr_action r), RESET, py_rjust 14 (py_commas (pr_hits r))]"

text \<open>The rows are sorted by the pair of protocol and port, that is by port first and then, keeping that order, by protocol.\<close>

fun cmd_port :: "'w os \<Rightarrow> firewall \<Rightarrow> port_args \<Rightarrow> ('w, unit) cmd" where
  "cmd_port os fw (PortSet allow proto ports) =
     io_for ports (\<lambda>port.
       io_seq (io_outer (fw_set_port_rule os fw proto port (if allow then ALLOW else DENY)))
      (py_print [if allow then GREEN else RED, if allow then ''allow'' else ''deny'', RESET, '' '', rule_text proto port]))"
| "cmd_port os fw (PortDel proto ports) =
     io_for ports (\<lambda>port.
       io_bind (io_outer (fw_del_port_rule os fw proto port)) (\<lambda>found. print_removed ''removed'' found (rule_text proto port)))"
| "cmd_port os fw PortFlush =
     io_bind (io_outer (fw_clear_port_rules os fw)) (\<lambda>n. py_print [''removed '', py_str_int n, '' port rules''])"
| "cmd_port os fw PortList =
     io_bind (io_outer (fw_read_config os fw)) (\<lambda>cfg.
     io_bind (io_of (cfg_policy_name cfg)) (\<lambda>policy.
     io_bind (io_outer (fw_list_port_rules os fw)) (\<lambda>listed.
     let rows = sort_key (\<lambda>r. map code (pr_proto r)) (sort_key pr_port listed) in
     io_seq (py_print [BOLD, py_ljust 14 ''rule'', py_ljust 8 ''action'', py_rjust 14 ''hits'', RESET])
    (io_seq (io_for rows print_rule)
    (py_print [py_ljust 14 ''anything else'', py_ljust 8 policy, ''  (default policy)''])))))"

fun cmd_policy :: "'w os \<Rightarrow> firewall \<Rightarrow> bool option \<Rightarrow> ('w, unit) cmd" where
  "cmd_policy os fw None =
     io_bind (io_outer (fw_read_config os fw)) (\<lambda>cfg.
     io_bind (io_of (cfg_policy_name cfg)) (\<lambda>policy.
     py_print [''default policy: '', policy]))"
| "cmd_policy os fw (Some allow) =
     io_seq (io_outer (fw_update_config os fw [(''default_policy'', if allow then ALLOW else DENY)]))
    (io_seq (py_print [''default policy: '', if allow then ''allow'' else ''deny''])
    (if allow then io_return ()
     else
       io_bind (io_outer (fw_list_port_rules os fw)) (\<lambda>listed.
       let allows = filter (\<lambda>r. pr_action r = ''allow'') listed in
       if allows = [] then
         py_print [YELLOW, ''note: there are no allow rules, so every IPv4 packet from a source that isn'', [CHR 0x27],
           ''t allowlisted is dropped'', RESET]
       else if \<not> list_ex (\<lambda>r. pr_proto r = ''icmp'') allows then
         py_print [DIM, ''ping is now dropped too; `port allow icmp 8` lets it through'', RESET]
       else io_return ())))"

section \<open>top and stats\<close>

definition print_source :: "string \<times> src_state \<Rightarrow> ('w, unit) cmd" where
  "print_source = (\<lambda>(ip, s).
     py_print [py_ljust 16 ip, '' '', py_rjust 12 (py_commas (ss_packets s)), '' '', py_rjust 8 (human_int (ss_bytes s)), '' '',
       py_rjust 12 (py_commas (ss_dropped s)), '' '', py_rjust 12 (py_commas (ss_syn s)), '' '', py_rjust 10 (py_commas (ss_udp s)), '' '',
       py_rjust 8 (py_commas (ss_icmp s)), '' '', py_rjust 8 (py_commas (ss_tokens s)), '' '', py_rjust 5 (py_str_int (bit_count (ss_port_bitmap s)))])"

text \<open>\<open>xs[:n]\<close>, where a negative \<open>n\<close> counts from the end.\<close>

definition py_slice_to :: "int \<Rightarrow> 'a list \<Rightarrow> 'a list" where
  "py_slice_to n xs = take (nat (if n < 0 then int (length xs) + n else n)) xs"

definition show_top :: "'w os \<Rightarrow> firewall \<Rightarrow> int \<Rightarrow> ('w, unit) cmd" where
  "show_top os fw count =
     io_bind (io_outer (fw_read_states os fw)) (\<lambda>all_states.
     let states = py_slice_to count (sort_key (\<lambda>(ip, s). - ss_packets s) all_states) in
     io_seq (py_print [BOLD, py_ljust 16 ''source'', '' '', py_rjust 12 ''packets'', '' '', py_rjust 8 ''bytes'', '' '',
       py_rjust 12 ''dropped'', '' '', py_rjust 12 ''syn'', '' '', py_rjust 10 ''udp'', '' '', py_rjust 8 ''icmp'', '' '',
       py_rjust 8 ''tokens'', '' '', py_rjust 5 ''ports'', RESET])
    (io_seq (io_for states print_source)
    (if states = [] then py_print [DIM, ''(no tracked sources)'', RESET] else io_return ())))"

definition cmd_top :: "nat \<Rightarrow> 'w clocks \<Rightarrow> 'w os \<Rightarrow> firewall \<Rightarrow> int \<Rightarrow> bool \<Rightarrow> ('w, unit) cmd" where
  "cmd_top turns clk os fw count watching =
     (if watching then watch turns clk (show_top os fw count) else show_top os fw count)"

definition cmd_stats :: "'w os \<Rightarrow> firewall \<Rightarrow> ('w, unit) cmd" where
  "cmd_stats os fw =
     io_bind (io_outer (fw_read_stats os fw)) (\<lambda>s.
     io_for STAT_NAMES (\<lambda>name.
       io_bind (io_of (dict_index s name)) (\<lambda>v. py_print [py_ljust 15 name, ''  '', py_rjust 16 (py_commas v)])))"

section \<open>config\<close>

definition cmd_config_show :: "'w os \<Rightarrow> firewall \<Rightarrow> ('w, unit) cmd" where
  "cmd_config_show os fw =
     io_bind (io_outer (fw_read_config os fw)) (\<lambda>cfg.
     io_bind (io_of (dict_index cfg ''rate_pps'')) (\<lambda>rate.
     io_seq (py_print [''rate_pps        '', py_str_int rate])
    (io_bind (io_of (dict_index cfg ''burst_pkts'')) (\<lambda>burst.
     io_seq (py_print [''burst_pkts      '', py_str_int burst])
    (io_bind (io_of (dict_index cfg ''aggressiveness'')) (\<lambda>lvl.
     io_seq (py_print [''aggressiveness  L'', py_str_int lvl])
    (io_bind (io_of (cfg_policy_name cfg)) (\<lambda>policy.
     io_seq (py_print [''default_policy  '', policy])
    (io_bind (io_of (dict_index cfg ''features'')) (\<lambda>feats.
     py_print [''features        '', describe_features feats]))))))))))"

text \<open>The features after \<open>--enable\<close> and \<open>--disable\<close>, in this order.\<close>

fun enable_features :: "string list \<Rightarrow> int \<Rightarrow> int result" where
  "enable_features [] feats = Inr feats"
| "enable_features (name # names) feats =
     result_bind (dict_index FEATURES name) (\<lambda>b. enable_features names (feats OR b))"

fun disable_features :: "string list \<Rightarrow> int \<Rightarrow> int result" where
  "disable_features [] feats = Inr feats"
| "disable_features (name # names) feats =
     result_bind (dict_index FEATURES name) (\<lambda>b. disable_features names (feats AND NOT b))"

definition opt_change :: "string \<Rightarrow> int option \<Rightarrow> (string, int) dict \<Rightarrow> (string, int) dict" where
  "opt_change name v changes = (case v of None \<Rightarrow> changes | Some x \<Rightarrow> dict_set name x changes)"

definition cmd_config_set :: "'w os \<Rightarrow> firewall \<Rightarrow> config_args \<Rightarrow> ('w, unit) cmd" where
  "cmd_config_set os fw args =
     io_bind (io_outer (fw_read_config os fw)) (\<lambda>cfg.
     io_bind (io_of (dict_index cfg ''features'')) (\<lambda>old.
     io_bind (io_of (enable_features (set_enable args) old)) (\<lambda>more.
     io_bind (io_of (disable_features (set_disable args) more)) (\<lambda>feats.
     let changes = opt_change ''burst_pkts'' (set_burst args) (opt_change ''rate_pps'' (set_rate args) [(''features'', feats)]) in
     if \<not> (0 \<le> dict_get changes ''rate_pps'' 0 \<and> dict_get changes ''rate_pps'' 0 \<le> 100000000) then io_raise ValueError
     else if dict_get changes ''burst_pkts'' 1 < 1 then io_raise ValueError
     else
       io_bind (io_outer (fw_update_config os fw (opt_change ''aggressiveness'' (set_aggressiveness args) changes))) (\<lambda>new.
       io_bind (io_of (dict_index new ''rate_pps'')) (\<lambda>rate.
       io_bind (io_of (dict_index new ''burst_pkts'')) (\<lambda>burst.
       io_bind (io_of (dict_index new ''aggressiveness'')) (\<lambda>lvl.
       io_seq (py_print [''rate '', py_str_int rate, '' pps/src, burst '', py_str_int burst, '', L'', py_str_int lvl])
      (io_bind (io_of (dict_index new ''features'')) (\<lambda>bits.
       py_print [''features: '', describe_features bits]))))))))))"

section \<open>reset\<close>

definition DEFAULT_FEATURES :: int where
  "DEFAULT_FEATURES = sum_list (map snd FEATURES) AND NOT (dict_get FEATURES ''frags'' 0)"

definition DEFAULT_SETTINGS :: "(string, int) dict" where
  "DEFAULT_SETTINGS = [(''rate_pps'', 20000), (''burst_pkts'', 40000), (''aggressiveness'', 0), (''default_policy'', ALLOW),
     (''features'', DEFAULT_FEATURES)]"

fun unallow_all :: "'w os \<Rightarrow> firewall \<Rightarrow> allow_entry list \<Rightarrow> int \<Rightarrow> ('w, int) io" where
  "unallow_all os fw [] n = io_return n"
| "unallow_all os fw (e # es) n =
     io_bind (fw_unallow os fw (ae_cidr e)) (\<lambda>found. unallow_all os fw es (n + of_bool found))"

definition cmd_reset :: "'w os \<Rightarrow> firewall \<Rightarrow> bool \<Rightarrow> bool \<Rightarrow> ('w, unit) cmd" where
  "cmd_reset os fw blocks everything =
     io_seq (io_outer (fw_reset_stats os fw))
    (io_bind (io_outer (fw_clear_states os fw)) (\<lambda>sources.
     io_seq (py_print [''counters zeroed; forgot '', py_str_int sources, '' tracked sources''])
    (io_seq (if blocks \<or> everything then
        io_bind (io_outer (fw_clear_blocks os fw)) (\<lambda>n. py_print [''removed '', py_str_int n, '' blocklist entries''])
      else io_return ())
    (if everything then
       io_bind (io_outer (fw_list_allowed os fw)) (\<lambda>entries.
       io_bind (io_outer (unallow_all os fw entries 0)) (\<lambda>n.
       io_bind (io_outer (fw_clear_port_rules os fw)) (\<lambda>rules.
       io_seq (py_print [''removed '', py_str_int n, '' allowlist entries and '', py_str_int rules, '' port rules''])
      (io_seq (io_outer (fw_update_config os fw DEFAULT_SETTINGS))
      (py_print [''settings back to the defaults: policy allow, 20000 pps/source, burst 40000, all stages on except frags''])))))
     else io_return ()))))"

section \<open>selftest\<close>

text \<open>\<open>check(label, passed, detail)\<close>, which updates the flag \<open>ok\<close> of the enclosing function.\<close>

definition st_check :: "string \<Rightarrow> bool \<Rightarrow> string \<Rightarrow> bool \<Rightarrow> ('w, bool) cmd" where
  "st_check label passed detail ok =
     io_seq (py_print [label, '' ... '', if passed then ''OK'' else ''FAIL'', '' ('', detail, '')'']) (io_return (ok \<and> passed))"

definition TEST_IP :: string where "TEST_IP = ''203.0.113.42''"

definition selftest_config :: "'w os \<Rightarrow> firewall \<Rightarrow> ('w, bool) cmd" where
  "selftest_config os fw =
     io_bind (io_outer (fw_read_config os fw)) (\<lambda>cfg.
     io_bind (io_of (dict_index cfg ''burst_pkts'')) (\<lambda>burst.
     io_bind (io_of (dict_index cfg ''rate_pps'')) (\<lambda>rate.
     st_check ''1. reading config map'' (burst > 0) (''rate='' @ py_str_int rate) True)))"

definition selftest_block :: "'w os \<Rightarrow> firewall \<Rightarrow> bool \<Rightarrow> ('w, bool) cmd" where
  "selftest_block os fw ok =
     io_seq (io_outer (fw_block os fw TEST_IP (Fin 5) BLOCK_MANUAL))
    (io_bind (io_outer (fw_list_blocked os fw False)) (\<lambda>listed.
     let entry = find (\<lambda>e. starts_with (be_cidr e) TEST_IP) listed;
         left = Option.bind entry be_remaining_s in
     io_bind (st_check ''2. round-tripping a blocklist entry''
        (case left of None \<Rightarrow> False | Some t \<Rightarrow> 4 < t \<and> t \<le> 5)
        (case left of None \<Rightarrow> ''not found'' | Some t \<Rightarrow> ''expires in '' @ py_fixed 1 t @ ''s'') ok) (\<lambda>ok.
     io_bind (st_check ''3. checking address byte order''
        (case entry of None \<Rightarrow> False | Some e \<Rightarrow> be_cidr e = TEST_IP @ ''/32'')
        (case entry of None \<Rightarrow> ''nothing read back'' | Some e \<Rightarrow> be_cidr e) ok) (\<lambda>ok.
     io_seq (io_outer (fw_unblock os fw TEST_IP)) (io_return ok)))))"

definition selftest_allow :: "'w os \<Rightarrow> firewall \<Rightarrow> bool \<Rightarrow> ('w, bool) cmd" where
  "selftest_allow os fw ok =
     io_seq (io_outer (fw_allow os fw ''198.51.100.0/24''))
    (io_bind (io_outer (fw_is_allowed os fw ''198.51.100.7'')) (\<lambda>found.
     io_bind (st_check ''4. round-tripping an allowlist prefix'' found ''LPM /24 matched a /32 lookup'' ok) (\<lambda>ok.
     io_seq (io_outer (fw_unallow os fw ''198.51.100.0/24'')) (io_return ok))))"

definition is_test_rule :: "port_rule \<Rightarrow> bool" where
  "is_test_rule r \<longleftrightarrow> pr_proto r = ''udp'' \<and> pr_port r = 65001"

definition selftest_port :: "'w os \<Rightarrow> firewall \<Rightarrow> bool \<Rightarrow> ('w, bool) cmd" where
  "selftest_port os fw ok =
     io_bind (io_outer (fw_list_port_rules os fw)) (\<lambda>had.
     io_seq (io_outer (fw_set_port_rule os fw ''udp'' 65001 DENY))
    (io_bind (io_outer (fw_list_port_rules os fw)) (\<lambda>listed.
     let rule = find is_test_rule listed in
     io_bind (st_check ''5. round-tripping a port rule''
        (case rule of None \<Rightarrow> False | Some r \<Rightarrow> pr_action r = ''deny'')
        (if rule \<noteq> None then ''udp/65001 deny'' else ''not found'') ok) (\<lambda>ok.
     io_seq (if list_ex is_test_rule had then io_return ()
             else io_seq (io_outer (fw_del_port_rule os fw ''udp'' 65001)) (io_return ()))
       (io_return ok)))))"

definition selftest_stats :: "'w os \<Rightarrow> firewall \<Rightarrow> bool \<Rightarrow> ('w, bool) cmd" where
  "selftest_stats os fw ok =
     io_bind (io_outer (fw_read_stats os fw)) (\<lambda>s.
     io_bind (io_of (dict_index s ''passes_total'')) (\<lambda>passes.
     io_bind (io_of (dict_index s ''drops_total'')) (\<lambda>drops.
     io_bind (io_of (dict_index s ''rx_packets'')) (\<lambda>rx.
     st_check ''6. summing per-CPU stats'' (passes + drops \<le> rx)
       (py_str_int (int (bm_ncpu (fw_stats fw))) @ '' CPUs, rx_packets='' @ py_commas rx) ok))))"

definition sane_source :: "src_state \<Rightarrow> bool" where
  "sane_source st \<longleftrightarrow> ss_packets st = 0 \<or>
     (let mean = fl (of_int (ss_bytes st) / of_int (ss_packets st)) in 20 \<le> mean \<and> mean \<le> 65536)"

definition selftest_states :: "'w os \<Rightarrow> firewall \<Rightarrow> bool \<Rightarrow> ('w, bool) cmd" where
  "selftest_states os fw ok =
     io_bind (io_outer (fw_read_states os fw)) (\<lambda>states.
     st_check ''7. reading srcstate with BPF_F_LOCK'' (list_all (\<lambda>(ip, st). sane_source st) states)
       (py_str_int (int (length states)) @ '' sources'') ok)"

definition selftest_prog :: "'w os \<Rightarrow> firewall \<Rightarrow> bool \<Rightarrow> ('w, bool) cmd" where
  "selftest_prog os fw ok =
     io_bind (io_outer (fw_prog_info os fw)) (\<lambda>prog.
     st_check (''8. reading the program'' @ [CHR 0x27] @ ''s info'') (info_name prog = ''xdp_firewall'')
       (''id '' @ py_str_int (info_id prog) @ '', '' @ py_str_int (info_jited_bytes prog) @ '' bytes of JIT code'') ok)"

definition cmd_selftest :: "'w os \<Rightarrow> firewall \<Rightarrow> ('w, int) cmd" where
  "cmd_selftest os fw =
     io_bind (selftest_config os fw) (\<lambda>ok.
     io_bind (selftest_block os fw ok) (\<lambda>ok.
     io_bind (selftest_allow os fw ok) (\<lambda>ok.
     io_bind (selftest_port os fw ok) (\<lambda>ok.
     io_bind (selftest_stats os fw ok) (\<lambda>ok.
     io_bind (selftest_states os fw ok) (\<lambda>ok.
     io_bind (selftest_prog os fw ok) (\<lambda>ok.
     io_seq (py_print [])
    (io_seq (py_print (if ok then [GREEN, ''self-test passed'', RESET] else [RED, ''self-test FAILED'', RESET]))
    (io_return (if ok then 0 else 1))))))))))"

section \<open>main\<close>

text \<open>\<open>handler(fw, args) or 0\<close>; \<open>turns\<close> is the number of screens before \<open>top --watch\<close> is interrupted.\<close>

fun fwctl_handler :: "nat \<Rightarrow> 'w clocks \<Rightarrow> 'w os \<Rightarrow> firewall \<Rightarrow> fwctl_args \<Rightarrow> ('w, int) cmd" where
  "fwctl_handler turns clk os fw Status = io_seq (cmd_status os fw) (io_return 0)"
| "fwctl_handler turns clk os fw (Allow a) = io_seq (cmd_allow os fw a) (io_return 0)"
| "fwctl_handler turns clk os fw (Block a) = io_seq (cmd_block os fw a) (io_return 0)"
| "fwctl_handler turns clk os fw (Port a) = io_seq (cmd_port os fw a) (io_return 0)"
| "fwctl_handler turns clk os fw (Policy p) = io_seq (cmd_policy os fw p) (io_return 0)"
| "fwctl_handler turns clk os fw (Top n watching) = io_seq (cmd_top turns clk os fw n watching) (io_return 0)"
| "fwctl_handler turns clk os fw Stats = io_seq (cmd_stats os fw) (io_return 0)"
| "fwctl_handler turns clk os fw ConfigShow = io_seq (cmd_config_show os fw) (io_return 0)"
| "fwctl_handler turns clk os fw (ConfigSet c) = io_seq (cmd_config_set os fw c) (io_return 0)"
| "fwctl_handler turns clk os fw (Reset blocks everything) = io_seq (cmd_reset os fw blocks everything) (io_return 0)"
| "fwctl_handler turns clk os fw Selftest = cmd_selftest os fw"

text \<open>\<open>except (OSError, ValueError)\<close>: the message goes to the terminal and the exit code is 1.\<close>

fun caught :: "exn \<Rightarrow> bool" where
  "caught (BpfError _ _) = True"
| "caught OSError = True"
| "caught ValueError = True"
| "caught _ = False"

fun exit_code :: "int result \<Rightarrow> int result" where
  "exit_code (Inl e) = (if caught e then Inr 1 else Inl e)"
| "exit_code (Inr rc) = Inr rc"

text \<open>The maps are closed whatever the handler does.\<close>

definition fwctl_main :: "nat \<Rightarrow> 'w clocks \<Rightarrow> 'w os \<Rightarrow> bool \<Rightarrow> fwctl_args \<Rightarrow> ('w, int) cmd" where
  "fwctl_main turns clk os is_root args =
     (if \<not> is_root then io_return 1
      else (\<lambda>(out, w). case firewall_open os PIN_DIR w of
          (Inl e, w1) \<Rightarrow> (exit_code (Inl e), (out, w1))
        | (Inr fw, w1) \<Rightarrow>
            (case fwctl_handler turns clk os fw args (out, w1) of (r, (out2, w2)) \<Rightarrow>
               (case firewall_close os fw w2 of
                  (Inl e, w3) \<Rightarrow> (exit_code (Inl e), (out2, w3))
                | (Inr _, w3) \<Rightarrow> (exit_code r, (out2, w3))))))"

end
