(* ===== verification/Fwctl_Runs.thy ===== *)
theory Fwctl_Runs
  imports Fwctl
begin

unbundle bit_operations_syntax

text \<open>
  What the operator's commands do to the maps of a lawful kernel: which maps each subcommand may
  touch, and what \<open>block add\<close>, \<open>config set\<close>, \<open>reset\<close> and \<open>selftest\<close> leave behind. The commands also
  open and close the program's pin and sleep, so the kernel's laws are extended (\<open>cli_kernel\<close>) by
  those calls leaving the maps alone.
\<close>

section \<open>The maps a command may touch\<close>

fun touched :: "firewall \<Rightarrow> fwctl_args \<Rightarrow> int set" where
  "touched fw (Allow a) = (if a = AllowList then {} else {bm_fd (fw_allowlist fw)})"
| "touched fw (Block a) = (case a of BlockList _ \<Rightarrow> {} | _ \<Rightarrow> {bm_fd (fw_blocklist fw)})"
| "touched fw (Port a) = (if a = PortList then {} else {bm_fd (fw_portrules fw)})"
| "touched fw (Policy p) = (if p = None then {} else {bm_fd (fw_config fw)})"
| "touched fw (ConfigSet c) = {bm_fd (fw_config fw)}"
| "touched fw (Reset blocks everything) =
     {bm_fd (fw_stats fw), bm_fd (fw_srcstate fw)} \<union>
     (if blocks \<or> everything then {bm_fd (fw_blocklist fw)} else {}) \<union>
     (if everything then {bm_fd (fw_allowlist fw), bm_fd (fw_portrules fw), bm_fd (fw_config fw)} else {})"
| "touched fw Selftest = {bm_fd (fw_allowlist fw), bm_fd (fw_blocklist fw), bm_fd (fw_portrules fw)}"
| "touched fw _ = {}"

section \<open>The kernel for the commands\<close>

locale cli_kernel = fw_kernel os is_map kind ksize vsize inv view pos fw
  for os :: "'w os" and is_map kind ksize vsize inv and view :: "'w \<Rightarrow> int \<Rightarrow> (bytes, bytes) dict" and pos fw +
  fixes clk :: "'w clocks"
  assumes get_view: "os_bpf os (OBJ_GET path) w = (rep, w') \<Longrightarrow> view w' = view w"
    and info_view: "os_bpf os (OBJ_GET_INFO_BY_FD fd n) w = (rep, w') \<Longrightarrow> view w' = view w"
    and closing: "inv w \<Longrightarrow> os_close os fd w = (rc, w') \<Longrightarrow> inv w' \<and> view w' = view w"
    and sleeping: "inv w \<Longrightarrow> inv (clk_sleep clk t w) \<and> view (clk_sleep clk t w) = view w"
begin

text \<open>A run that leaves every map outside \<open>S\<close> alone.\<close>

definition only :: "int set \<Rightarrow> 'w \<Rightarrow> 'w \<Rightarrow> bool" where
  "only S w w' \<longleftrightarrow> (inv w \<longrightarrow> inv w' \<and> (\<forall>fd. fd \<notin> S \<longrightarrow> view w' fd = view w fd))"

lemma only_preorder: "preorder_on_states (only S)"
  unfolding preorder_on_states_def only_def by auto

lemma only_reads:
  assumes "\<And>w r w'. inv w \<Longrightarrow> m w = (r, w') \<Longrightarrow> inv w' \<and> view w' = view w"
  shows "io_steps (only S) m"
  by (rule io_stepsI) (use assms in \<open>force simp: only_def\<close>)

lemma only_writes:
  assumes "\<And>w r w'. inv w \<Longrightarrow> m w = (r, w') \<Longrightarrow> inv w' \<and> (\<forall>fd. fd \<noteq> x \<longrightarrow> view w' fd = view w fd)" "x \<in> S"
  shows "io_steps (only S) m"
  by (rule io_stepsI) (use assms in \<open>force simp: only_def\<close>)

lemmas only_basic = io_steps_basic [OF only_preorder] io_steps_bind [OF only_preorder] io_steps_seq [OF only_preorder]
  io_steps_for [OF only_preorder] io_steps_if

text \<open>The queries.\<close>

lemma only_keys: "handle m \<Longrightarrow> io_steps (only S) (bpfmap_keys os m)"
  by (rule only_reads) (use keys_run size_bound in blast)

lemma only_items: "handle m \<Longrightarrow> io_steps (only S) (bpfmap_items os m flags)"
  by (rule only_reads) (use items_all in blast)

lemma only_ktime: "io_steps (only S) (ktime_ns os)"
  by (rule only_reads) (auto simp: ktime_ns_def io_simps intro: ktime_inv ktime_view prod.collapse [symmetric])

lemma only_read_config: "io_steps (only S) (fw_read_config os fw)"
  by (rule only_reads) (auto dest: read_config_run)

lemma only_read_stats: "io_steps (only S) (fw_read_stats os fw)"
  by (rule only_reads) (use read_stats_run in blast)

lemma only_read_states: "io_steps (only S) (fw_read_states os fw)"
  by (rule only_reads) (use read_states_run in blast)

lemma only_is_allowed: "io_steps (only S) (fw_is_allowed os fw ip)"
  by (rule only_reads) (use is_allowed_run in blast)

lemma only_lists:
  "io_steps (only S) (fw_list_allowed os fw)" "io_steps (only S) (fw_list_blocked os fw b)"
  "io_steps (only S) (fw_list_port_rules os fw)"
  unfolding fw_list_allowed_def fw_list_blocked_def fw_list_port_rules_def
  by (intro only_basic only_items only_ktime allowlist_map blocklist_map portrules_map)+

lemma only_prog_info: "io_steps (only S) (fw_prog_info os fw)"
proof -
  have open_only: "io_steps (only S) (open_pinned os path)" for path
  proof -
    have "io_steps (only S) (bpf os (OBJ_GET path))"
      by (rule only_reads) (auto simp: bpf_def io_simps intro: bpf_inv get_view prod.collapse [symmetric])
    then show ?thesis unfolding open_pinned_def bpf_raise_def by (intro only_basic)
  qed
  have info_only: "io_steps (only S) (prog_read_info os path fd)" for path fd
  proof -
    have "io_steps (only S) (bpf os (OBJ_GET_INFO_BY_FD fd INFO_SIZE))"
      by (rule only_reads) (auto simp: bpf_def io_simps intro: bpf_inv info_view prod.collapse [symmetric])
    then show ?thesis unfolding prog_read_info_def bpf_raise_def by (intro only_basic)
  qed
  have close_only: "io_steps (only S) (pinned_close os fd)" for fd
  proof -
    have "io_steps (only S) (os_close os fd)" by (rule only_reads) (use closing in blast)
    then show ?thesis unfolding pinned_close_def by (intro only_basic)
  qed
  have "io_steps (only S) (\<lambda>w. case prog_read_info os path fd w of (r, w1) \<Rightarrow>
      (case pinned_close os fd w1 of (Inl e, w2) \<Rightarrow> (Inl e, w2) | (Inr _, w2) \<Rightarrow> (r, w2)))" for path fd
    using info_only [of path fd] close_only [of fd]
    unfolding io_steps_def only_def by (auto split: prod.splits sum.splits) (metis snd_conv)+
  then show ?thesis
    unfolding fw_prog_info_def Let_def by (intro only_basic open_only)
qed

text \<open>The changes.\<close>

lemma only_allow: "bm_fd (fw_allowlist fw) \<in> S \<Longrightarrow> io_steps (only S) (fw_allow os fw cidr)"
  by (cases "lpm_key cidr")
    (auto intro!: only_writes simp: fw_allow_def io_simps dest: allow_run)

lemma only_unallow: "bm_fd (fw_allowlist fw) \<in> S \<Longrightarrow> io_steps (only S) (fw_unallow os fw cidr)"
  by (cases "lpm_key cidr")
    (auto intro!: only_writes simp: fw_unallow_def io_simps dest: unallow_run)

lemma only_block: "bm_fd (fw_blocklist fw) \<in> S \<Longrightarrow> io_steps (only S) (fw_block os fw cidr d reason)"
  by (rule only_writes) (use block_run in blast)+

lemma only_unblock: "bm_fd (fw_blocklist fw) \<in> S \<Longrightarrow> io_steps (only S) (fw_unblock os fw cidr)"
  by (cases "lpm_key cidr")
    (auto intro!: only_writes simp: fw_unblock_def io_simps dest: unblock_run)

lemma only_clear:
  "bm_fd (fw_blocklist fw) \<in> S \<Longrightarrow> io_steps (only S) (fw_clear_blocks os fw)"
  "bm_fd (fw_portrules fw) \<in> S \<Longrightarrow> io_steps (only S) (fw_clear_port_rules os fw)"
  "bm_fd (fw_srcstate fw) \<in> S \<Longrightarrow> io_steps (only S) (fw_clear_states os fw)"
proof -
  have clear: "io_steps (only S) (fw_clear os m)" if "handle m" "kind (bm_fd m) \<noteq> ARRAY" "bm_fd m \<in> S" for m
    by (rule only_writes [OF _ that(3)]) (use clear_run [OF _ that(1,2)] in blast)
  show "bm_fd (fw_blocklist fw) \<in> S \<Longrightarrow> io_steps (only S) (fw_clear_blocks os fw)"
    unfolding fw_clear_blocks_def by (rule clear) (simp_all add: blocklist_map)
  show "bm_fd (fw_portrules fw) \<in> S \<Longrightarrow> io_steps (only S) (fw_clear_port_rules os fw)"
    unfolding fw_clear_port_rules_def by (rule clear) (simp_all add: portrules_map)
  show "bm_fd (fw_srcstate fw) \<in> S \<Longrightarrow> io_steps (only S) (fw_clear_states os fw)"
    unfolding fw_clear_states_def by (rule clear) (simp_all add: srcstate_map)
qed

lemma only_port:
  "bm_fd (fw_portrules fw) \<in> S \<Longrightarrow> io_steps (only S) (fw_set_port_rule os fw proto port a)"
  "bm_fd (fw_portrules fw) \<in> S \<Longrightarrow> io_steps (only S) (fw_del_port_rule os fw proto port)"
  by (rule only_writes, use set_port_rule_run in blast, assumption)
    (cases "port_key proto port", auto intro!: only_writes simp: fw_del_port_rule_def io_simps dest: del_port_rule_run)

lemma only_update_config: "bm_fd (fw_config fw) \<in> S \<Longrightarrow> io_steps (only S) (fw_update_config os fw changes)"
  by (rule only_writes) (use update_config_run in blast)+

lemma only_reset_stats: "bm_fd (fw_stats fw) \<in> S \<Longrightarrow> io_steps (only S) (fw_reset_stats os fw)"
  by (rule only_writes) (use reset_stats_run in blast)+

lemmas only_methods = only_read_config only_read_stats only_read_states only_is_allowed only_lists only_prog_info
  only_allow only_unallow only_block only_unblock only_clear only_port only_update_config only_reset_stats
  only_keys [OF allowlist_map(1)] only_keys [OF portrules_map(1)] only_keys [OF srcstate_map(1)]

text \<open>A command writes to the terminal besides.\<close>

abbreviation only_cmd :: "int set \<Rightarrow> string \<times> 'w \<Rightarrow> string \<times> 'w \<Rightarrow> bool" where
  "only_cmd S \<equiv> outer_rel (only S)"

lemmas cmd_preorder = outer_preorder [OF only_preorder]

lemma only_print: "io_steps (only_cmd S) (py_write s)" "io_steps (only_cmd S) (py_print parts)"
  unfolding py_print_def py_write_def by (rule io_steps_self [OF only_preorder])+

lemmas cmd_rules = io_steps_basic [OF cmd_preorder] io_steps_bind [OF cmd_preorder] io_steps_seq [OF cmd_preorder]
  io_steps_for [OF cmd_preorder] io_steps_if only_print io_steps_outer only_methods

lemma only_status: "io_steps (only_cmd S) (cmd_status os fw)"
proof -
  have "io_steps (only_cmd S) (print_counters prefix s)" for prefix s
    unfolding print_counters_def by (intro cmd_rules)
  then show ?thesis
    unfolding cmd_status_def print_program_def print_settings_def print_sizes_def print_totals_def
    by (intro cmd_rules)
qed

lemma only_top: "io_steps (only_cmd S) (cmd_top n clk os fw count watching)"
proof -
  have show_only: "io_steps (only_cmd S) (show_top os fw count)"
    unfolding show_top_def Let_def print_source_def by (auto intro!: cmd_rules)
  have sleep_only: "io_steps (only S) (io_read (\<lambda>w. ((), clk_sleep clk 1 w)))"
    by (rule only_reads) (use sleeping in \<open>auto simp: io_simps\<close>)
  have "io_steps (only_cmd S) (watch n clk (show_top os fw count))"
    by (induction n) (auto intro!: cmd_rules show_only sleep_only)
  with show_only show ?thesis unfolding cmd_top_def by (intro io_steps_if)
qed

lemma only_stats_show: "io_steps (only_cmd S) (cmd_stats os fw)" "io_steps (only_cmd S) (cmd_config_show os fw)"
  unfolding cmd_stats_def cmd_config_show_def by (intro cmd_rules)+

lemma only_allowlist: "io_steps (only_cmd (touched fw (Allow a))) (cmd_allow os fw a)"
  by (cases a) (auto simp: print_removed_def Let_def intro!: cmd_rules)

lemma only_blocklist: "io_steps (only_cmd (touched fw (Block a))) (cmd_block os fw a)"
proof (cases a)
  case (BlockAdd cidrs d)
  have "io_steps (only_cmd {bm_fd (fw_blocklist fw)}) (block_one os fw d cidr)" for cidr
    unfolding block_one_def by (intro cmd_rules) simp
  then show ?thesis unfolding BlockAdd by (auto intro!: cmd_rules)
qed (auto simp: print_removed_def print_block_def Let_def intro!: cmd_rules)

lemma only_ports: "io_steps (only_cmd (touched fw (Port a))) (cmd_port os fw a)"
  by (cases a) (auto simp: print_removed_def print_rule_def Let_def intro!: cmd_rules)

lemma only_policy: "io_steps (only_cmd (touched fw (Policy p))) (cmd_policy os fw p)"
  by (cases p) (auto simp: Let_def intro!: cmd_rules)

lemma only_config: "io_steps (only_cmd (touched fw (ConfigSet c))) (cmd_config_set os fw c)"
  by (auto simp: cmd_config_set_def Let_def intro!: cmd_rules)

lemma only_reset: "io_steps (only_cmd (touched fw (Reset b a))) (cmd_reset os fw b a)"
proof -
  have "io_steps (only S) (unallow_all os fw es n)" if "bm_fd (fw_allowlist fw) \<in> S" for S es n
    using that by (induction es arbitrary: n) (auto intro!: only_basic only_unallow)
  then show ?thesis unfolding cmd_reset_def by (intro cmd_rules) auto
qed

lemma only_selftest: "io_steps (only_cmd (touched fw Selftest)) (cmd_selftest os fw)"
  unfolding cmd_selftest_def selftest_config_def selftest_block_def selftest_allow_def selftest_port_def
    selftest_stats_def selftest_states_def selftest_prog_def st_check_def Let_def
  by (intro cmd_rules) auto

lemma handler_only: "io_steps (only_cmd (touched fw args)) (fwctl_handler n clk os fw args)"
  by (cases args)
    (auto simp del: touched.simps cmd_allow.simps cmd_block.simps cmd_port.simps cmd_policy.simps
      intro!: io_steps_seq [OF cmd_preorder] io_steps_basic [OF cmd_preorder] only_status only_top only_stats_show
        only_allowlist only_blocklist only_ports only_policy only_config only_reset only_selftest)

end

section \<open>Settings\<close>

definition feature_bit :: "string \<Rightarrow> int" where
  "feature_bit name = dict_get FEATURES name 0"

lemma FEATURES_nth: "i < length FEATURES \<Longrightarrow> FEATURES ! i = (fst (FEATURES ! i), 2 ^ i)"
proof -
  have "map snd FEATURES = map (\<lambda>i. 2 ^ i) [0..<7]" by code_simp
  then have "i < length FEATURES \<Longrightarrow> snd (FEATURES ! i) = 2 ^ i"
    by (metis diff_zero length_map length_upt nth_map nth_upt plus_nat.add_0)
  then show "i < length FEATURES \<Longrightarrow> FEATURES ! i = (fst (FEATURES ! i), 2 ^ i)" by (metis prod.collapse)
qed

lemma FEATURES_ok: "dict_ok FEATURES"
  by (simp add: FEATURES_def)

lemma bit_feature:
  assumes "name \<in> fst ` set FEATURES"
  shows "dict_index FEATURES name = Inr (feature_bit name)"
    and "0 \<le> feature_bit name" "feature_bit name < 2 ^ 32"
    and "bit (feature_bit name) i \<longleftrightarrow> i < length FEATURES \<and> fst (FEATURES ! i) = name"
proof -
  obtain j where j: "j < length FEATURES" "fst (FEATURES ! j) = name"
    using assms by (metis imageE in_set_conv_nth)
  have "FEATURES ! j = (name, 2 ^ j)" using FEATURES_nth [OF j(1)] j(2) by simp
  then have "map_of FEATURES name = Some (2 ^ j)"
    using FEATURES_ok j(1) by (metis map_of_is_SomeI nth_mem)
  then have b: "feature_bit name = 2 ^ j" and "dict_index FEATURES name = Inr (2 ^ j)"
    by (simp_all add: feature_bit_def dict_get_def dict_index_def)
  then show "dict_index FEATURES name = Inr (feature_bit name)" by simp
  have "j < 32" using j(1) by (simp add: FEATURES_def)
  then have "(2 :: int) ^ j < 2 ^ 32" by (intro power_strict_increasing) simp_all
  then show "0 \<le> feature_bit name" "feature_bit name < 2 ^ 32" by (simp_all add: b)
  have "i < length FEATURES \<and> fst (FEATURES ! i) = name \<longleftrightarrow> i = j"
    using FEATURES_ok j by (metis length_map nth_eq_iff_index_eq nth_map)
  then show "bit (feature_bit name) i \<longleftrightarrow> i < length FEATURES \<and> fst (FEATURES ! i) = name"
    by (auto simp: b bit_exp_iff)
qed

lemma or_range: "0 \<le> x \<Longrightarrow> x < 2 ^ n \<Longrightarrow> 0 \<le> y \<Longrightarrow> y < 2 ^ n \<Longrightarrow> 0 \<le> x OR y \<and> x OR y < (2 :: int) ^ n"
  by (simp add: OR_upper)

lemma and_range: "0 \<le> x \<Longrightarrow> x < 2 ^ n \<Longrightarrow> 0 \<le> x AND y \<and> x AND y < (2 :: int) ^ n"
  using AND_upper1 [of x y] by simp

lemma enable_features_bits:
  assumes "set names \<subseteq> fst ` set FEATURES" "0 \<le> f" "f < 2 ^ 32"
  shows "\<exists>g. enable_features names f = Inr g \<and> 0 \<le> g \<and> g < 2 ^ 32 \<and>
    (\<forall>i. bit g i \<longleftrightarrow> bit f i \<or> i < length FEATURES \<and> fst (FEATURES ! i) \<in> set names)"
  using assms
proof (induction names arbitrary: f)
  case (Cons n names)
  then have n: "n \<in> fst ` set FEATURES" by simp
  have "0 \<le> f OR feature_bit n \<and> f OR feature_bit n < 2 ^ 32"
    using Cons.prems bit_feature(2,3) [OF n] by (intro or_range) simp_all
  with Cons.IH [of "f OR feature_bit n"] Cons.prems bit_feature [OF n] show ?case
    by (auto simp: bit_or_iff)
qed auto

lemma disable_features_bits:
  assumes "set names \<subseteq> fst ` set FEATURES" "0 \<le> f" "f < 2 ^ 32"
  shows "\<exists>g. disable_features names f = Inr g \<and> 0 \<le> g \<and> g < 2 ^ 32 \<and>
    (\<forall>i. bit g i \<longleftrightarrow> bit f i \<and> \<not> (i < length FEATURES \<and> fst (FEATURES ! i) \<in> set names))"
  using assms
proof (induction names arbitrary: f)
  case (Cons n names)
  then have n: "n \<in> fst ` set FEATURES" by simp
  have "0 \<le> f AND NOT (feature_bit n) \<and> f AND NOT (feature_bit n) < 2 ^ 32"
    using Cons.prems by (intro and_range) simp_all
  with Cons.IH [of "f AND NOT (feature_bit n)"] Cons.prems bit_feature [OF n] show ?case
    by (auto simp: bit_and_iff bit_not_iff)
qed auto

definition pick :: "'a option \<Rightarrow> 'a \<Rightarrow> 'a" where
  "pick x d = (case x of None \<Rightarrow> d | Some y \<Rightarrow> y)"

definition bad_limits :: "config_args \<Rightarrow> bool" where
  "bad_limits args \<longleftrightarrow> \<not> (0 \<le> pick (set_rate args) 0 \<and> pick (set_rate args) 0 \<le> 100000000) \<or> pick (set_burst args) 1 < 1"

definition config_changes :: "config_args \<Rightarrow> int \<Rightarrow> (string, int) dict" where
  "config_changes args feats =
     opt_change ''aggressiveness'' (set_aggressiveness args)
      (opt_change ''burst_pkts'' (set_burst args) (opt_change ''rate_pps'' (set_rate args) [(''features'', feats)]))"

lemma dict_get_change: "dict_get (opt_change n v d) k dflt = (if k = n then pick v (dict_get d k dflt) else dict_get d k dflt)"
  by (simp add: opt_change_def pick_def split: option.splits)

lemma config_changes_simps:
  "dict_ok (config_changes args feats)"
  "list_all (\<lambda>(k, v). List.member CONFIG_FIELDS k) (config_changes args feats)"
proof -
  have keys: "fst ` set (config_changes args feats) \<subseteq> set CONFIG_FIELDS"
    by (auto simp: config_changes_def opt_change_def CONFIG_FIELDS_def split: option.splits)
  then show "list_all (\<lambda>(k, v). List.member CONFIG_FIELDS k) (config_changes args feats)"
    by (force simp: list_all_iff List.member_iff)
  show "dict_ok (config_changes args feats)"
    by (simp add: config_changes_def opt_change_def split: option.splits)
qed

lemma new_features:
  assumes "set (set_enable args) \<union> set (set_disable args) \<subseteq> fst ` set FEATURES" "0 \<le> old" "old < 2 ^ 32"
  obtains g h where "enable_features (set_enable args) old = Inr g" "disable_features (set_disable args) g = Inr h"
    "0 \<le> h" "h < 2 ^ 32"
    "\<And>i. bit h i \<longleftrightarrow> (if i < length FEATURES then fst (FEATURES ! i) \<notin> set (set_disable args) \<and>
       (fst (FEATURES ! i) \<in> set (set_enable args) \<or> bit old i) else bit old i)"
proof -
  obtain g where g: "enable_features (set_enable args) old = Inr g" "0 \<le> g" "g < 2 ^ 32"
    "\<forall>i. bit g i \<longleftrightarrow> bit old i \<or> i < length FEATURES \<and> fst (FEATURES ! i) \<in> set (set_enable args)"
    using enable_features_bits [OF _ assms(2,3), of "set_enable args"] assms(1) by auto
  obtain h where "disable_features (set_disable args) g = Inr h" "0 \<le> h" "h < 2 ^ 32"
    "\<forall>i. bit h i \<longleftrightarrow> bit g i \<and> \<not> (i < length FEATURES \<and> fst (FEATURES ! i) \<in> set (set_disable args))"
    using disable_features_bits [OF _ g(2,3), of "set_disable args"] assms(1) by auto
  with g show thesis by (intro that [of g h]) auto
qed

definition new_settings :: "config_args \<Rightarrow> (string, int) dict \<Rightarrow> int \<Rightarrow> (string, int) dict" where
  "new_settings args cfg feats =
     [(''rate_pps'', pick (set_rate args) (dict_get cfg ''rate_pps'' 0)),
      (''burst_pkts'', pick (set_burst args) (dict_get cfg ''burst_pkts'' 0)), (''features'', feats),
      (''aggressiveness'', pick (set_aggressiveness args) (dict_get cfg ''aggressiveness'' 0)),
      (''default_policy'', dict_get cfg ''default_policy'' 0)]"

lemma changed_settings:
  "map (\<lambda>k. (k, dict_get (config_changes args feats) k (dict_get cfg k 0))) CONFIG_FIELDS = new_settings args cfg feats"
  by (simp add: CONFIG_FIELDS_def config_changes_def dict_get_change dict_get_Cons new_settings_def)

lemma new_settings_fit:
  assumes "map fst cfg = CONFIG_FIELDS" "config_fits (map snd cfg)" "0 \<le> feats" "feats < 2 ^ 32" "\<not> bad_limits args"
    and "\<forall>lvl. set_aggressiveness args = Some lvl \<longrightarrow> 0 \<le> lvl \<and> lvl \<le> 3"
  shows "config_fits (map snd (new_settings args cfg feats)) \<longleftrightarrow> pick (set_burst args) 1 < 2 ^ 64"
proof -
  obtain a b c d e where "cfg = [(''rate_pps'', a), (''burst_pkts'', b), (''features'', c), (''aggressiveness'', d), (''default_policy'', e)]"
    using assms(1) by (auto simp: CONFIG_FIELDS_def)
  with assms show ?thesis
    by (auto simp: new_settings_def config_fits_def bad_limits_def pick_def dict_get_def split: option.splits)
qed

context fw_kernel
begin

lemma config_set_steps:
  assumes "fw_read_config os fw w = (Inr cfg, w0)" "map_of cfg ''features'' = Some old"
    and "enable_features (set_enable args) old = Inr g" "disable_features (set_disable args) g = Inr h"
    and "fw_update_config os fw (config_changes args h) w0 = (ru, w1)"
    and "cmd_config_set os fw args (out, w) = (r, (out', w'))"
  shows "bad_limits args \<Longrightarrow> r = Inl ValueError \<and> w' = w0"
    and "\<not> bad_limits args \<Longrightarrow> ru = Inl e \<Longrightarrow> r = Inl e \<and> w' = w1"
    and "\<not> bad_limits args \<Longrightarrow> ru = Inr (new_settings args cfg h) \<Longrightarrow> r = Inr () \<and> w' = w1"
proof -
  let ?ch = "opt_change ''burst_pkts'' (set_burst args) (opt_change ''rate_pps'' (set_rate args) [(''features'', h)])"
  have get: "dict_get ?ch ''rate_pps'' 0 = pick (set_rate args) 0" "dict_get ?ch ''burst_pkts'' 1 = pick (set_burst args) 1"
    by (simp_all add: dict_get_change dict_get_Cons)
  have idx: "dict_index cfg ''features'' = Inr old" using assms(2) by (simp add: dict_index_def)
  note go = assms(6) [unfolded cmd_config_set_def Let_def] assms(1,3,4) idx assms(5) [unfolded config_changes_def]
  show "bad_limits args \<Longrightarrow> r = Inl ValueError \<and> w' = w0"
    using go by (auto simp: io_simps get bad_limits_def split: if_splits)
  show "\<not> bad_limits args \<Longrightarrow> ru = Inl e \<Longrightarrow> r = Inl e \<and> w' = w1"
    using go by (auto simp: io_simps get bad_limits_def)
  show "\<not> bad_limits args \<Longrightarrow> ru = Inr (new_settings args cfg h) \<Longrightarrow> r = Inr () \<and> w' = w1"
    using go by (auto simp: io_simps get bad_limits_def dict_index_def py_print_def py_write_def new_settings_def)
qed

lemma config_set_run:
  assumes "inv w" "fst (fw_read_config os fw w) = Inr cfg"
    and "set (set_enable args) \<union> set (set_disable args) \<subseteq> fst ` set FEATURES"
    and "\<forall>lvl. set_aggressiveness args = Some lvl \<longrightarrow> 0 \<le> lvl \<and> lvl \<le> 3"
    and "cmd_config_set os fw args (out, w) = (r, (out', w'))"
  shows "if bad_limits args then r = Inl ValueError \<and> view w' = view w
    else if 2 ^ 64 \<le> pick (set_burst args) 1 then r = Inl StructError \<and> view w' = view w
    else r = Inr () \<and> (\<exists>feats. fst (fw_read_config os fw w') = Inr (new_settings args cfg feats) \<and>
        (\<forall>i. bit feats i \<longleftrightarrow>
          (if i < length FEATURES then
             fst (FEATURES ! i) \<notin> set (set_disable args) \<and>
             (fst (FEATURES ! i) \<in> set (set_enable args) \<or> bit (dict_get cfg ''features'' 0) i)
           else bit (dict_get cfg ''features'' 0) i)))"
proof -
  obtain w0 where rd: "fw_read_config os fw w = (Inr cfg, w0)" using assms(2) by (metis prod.collapse)
  note w0 = read_config_run [OF assms(1) rd]
  have rd0: "fst (fw_read_config os fw w0) = Inr cfg"
    using read_config_run [OF _ prod.collapse [symmetric], of w0] w0 by (simp add: settings_def)
  have fits: "config_fits (map snd cfg)" and keys: "map fst cfg = CONFIG_FIELDS"
    using settings_fit [OF assms(1)] settings_keys [of w] w0 by simp_all
  let ?old = "dict_get cfg ''features'' 0"
  have old: "map_of cfg ''features'' = Some ?old" "0 \<le> ?old" "?old < 2 ^ 32"
    using fits keys by (auto simp: CONFIG_FIELDS_def config_fits_def dict_get_def)
  obtain g h where gh: "enable_features (set_enable args) ?old = Inr g" "disable_features (set_disable args) g = Inr h"
    "0 \<le> h" "h < 2 ^ 32"
    "\<And>i. bit h i \<longleftrightarrow> (if i < length FEATURES then fst (FEATURES ! i) \<notin> set (set_disable args) \<and>
       (fst (FEATURES ! i) \<in> set (set_enable args) \<or> bit ?old i) else bit ?old i)"
    using new_features [OF assms(3) old(2,3)] by blast
  obtain ru w1 where up: "fw_update_config os fw (config_changes args h) w0 = (ru, w1)" by fastforce
  note steps = config_set_steps [OF rd old(1) gh(1,2) up assms(5)]
  note nf = new_settings_fit [OF keys fits gh(3,4) _ assms(4)]
  have spec: "if config_fits (map snd (new_settings args cfg h))
      then ru = Inr (new_settings args cfg h) \<and> fst (fw_read_config os fw w1) = Inr (new_settings args cfg h)
      else ru = Inl StructError \<and> view w1 = view w0"
    using update_config_spec [OF _ config_changes_simps(1) rd0 up, unfolded changed_settings] w0
      config_changes_simps(2) [of args h] by (simp add: Let_def)
  show ?thesis
  proof (cases "\<not> bad_limits args \<and> pick (set_burst args) 1 < 2 ^ 64")
    case True
    with nf spec steps(3) have "r = Inr ()" "fst (fw_read_config os fw w') = Inr (new_settings args cfg h)" by auto
    with True gh(5) show ?thesis by auto
  qed (use w0 spec nf steps(1) steps(2) [of StructError] in auto)
qed

end

section \<open>Resetting\<close>

definition factory_settings :: "(string, int) dict" where
  "factory_settings = [(''rate_pps'', 20000), (''burst_pkts'', 40000), (''features'', 95), (''aggressiveness'', 0), (''default_policy'', 0)]"

lemma default_settings:
  "dict_ok DEFAULT_SETTINGS" "list_all (\<lambda>(k, v). List.member CONFIG_FIELDS k) DEFAULT_SETTINGS"
  "map (\<lambda>k. (k, dict_get DEFAULT_SETTINGS k (dict_get cfg k 0))) CONFIG_FIELDS = factory_settings"
  "config_fits (map snd factory_settings)"
proof -
  have "DEFAULT_FEATURES = 95" "ALLOW = 0" by code_simp+
  then show "map (\<lambda>k. (k, dict_get DEFAULT_SETTINGS k (dict_get cfg k 0))) CONFIG_FIELDS = factory_settings"
    by (simp add: CONFIG_FIELDS_def DEFAULT_SETTINGS_def factory_settings_def dict_get_Cons)
qed (simp_all add: DEFAULT_SETTINGS_def CONFIG_FIELDS_def List.member_iff factory_settings_def config_fits_def)

context fw_kernel
begin

lemma maps_distinct:
  "bm_fd (fw_allowlist fw) \<noteq> bm_fd (fw_blocklist fw)" "bm_fd (fw_allowlist fw) \<noteq> bm_fd (fw_portrules fw)"
  "bm_fd (fw_allowlist fw) \<noteq> bm_fd (fw_srcstate fw)" "bm_fd (fw_allowlist fw) \<noteq> bm_fd (fw_stats fw)"
  "bm_fd (fw_allowlist fw) \<noteq> bm_fd (fw_config fw)" "bm_fd (fw_blocklist fw) \<noteq> bm_fd (fw_portrules fw)"
  "bm_fd (fw_blocklist fw) \<noteq> bm_fd (fw_srcstate fw)" "bm_fd (fw_blocklist fw) \<noteq> bm_fd (fw_stats fw)"
  "bm_fd (fw_blocklist fw) \<noteq> bm_fd (fw_config fw)" "bm_fd (fw_portrules fw) \<noteq> bm_fd (fw_srcstate fw)"
  "bm_fd (fw_portrules fw) \<noteq> bm_fd (fw_stats fw)" "bm_fd (fw_portrules fw) \<noteq> bm_fd (fw_config fw)"
  "bm_fd (fw_srcstate fw) \<noteq> bm_fd (fw_stats fw)" "bm_fd (fw_srcstate fw) \<noteq> bm_fd (fw_config fw)"
  "bm_fd (fw_stats fw) \<noteq> bm_fd (fw_config fw)"
  using fds_distinct by auto

lemmas maps_differ = maps_distinct maps_distinct [symmetric]

lemma unallow_all_run:
  assumes "inv w" "\<And>k. k \<in> set ks \<Longrightarrow> lpm_key (show_network (lpm_network k)) = Inr k"
    and "map ae_cidr es = map (\<lambda>k. show_network (lpm_network k)) ks" "unallow_all os fw es n w = (r, w')"
  shows "inv w' \<and> (\<forall>fd. fd \<noteq> bm_fd (fw_allowlist fw) \<longrightarrow> view w' fd = view w fd) \<and> is_ok r \<and>
    map_of (allow_entries w') = map_of (allow_entries w) |` (- set ks)"
  using assms
proof (induction es arbitrary: w n ks)
  case Nil
  then show ?case by (auto simp: io_simps restrict_map_def)
next
  case (Cons e es)
  then obtain k ks' where ks: "ks = k # ks'" "ae_cidr e = show_network (lpm_network k)"
    "map ae_cidr es = map (\<lambda>k. show_network (lpm_network k)) ks'" by (cases ks) auto
  obtain r1 w1 where u: "fw_unallow os fw (ae_cidr e) w = (r1, w1)" by fastforce
  have "lpm_key (ae_cidr e) = Inr k" using Cons.prems(2) [of k] ks by simp
  note w1 = unallow_run [OF Cons.prems(1) this u]
  then obtain m where "unallow_all os fw es m w1 = (r, w')" using Cons.prems(4) u by (auto simp: io_simps)
  from Cons.IH [OF _ _ ks(3) this] Cons.prems(2) w1 show ?case
    by (auto simp: ks(1) restrict_map_def fun_eq_iff)
qed

text \<open>The part of \<open>reset --all\<close> after the blocklist has been cleared.\<close>

lemma unallow_listed:
  assumes "inv w" "fw_list_allowed os fw w = (r, w1)"
  obtains es n w2 where "r = Inr es" "unallow_all os fw es 0 w1 = (Inr n, w2)" "inv w2" "allow_entries w2 = []"
    "\<And>fd. fd \<noteq> bm_fd (fw_allowlist fw) \<Longrightarrow> view w2 fd = view w fd"
proof -
  from list_allowed_run [OF assms] obtain es where
    es: "r = Inr es" "map ae_cidr es = map (\<lambda>k. show_network (lpm_network k)) (map fst (allow_entries w))"
    "inv w1" "view w1 = view w" by (auto simp: case_prod_beta comp_def)
  obtain ru w2 where u: "unallow_all os fw es 0 w1 = (ru, w2)" by fastforce
  have "lpm_key (show_network (lpm_network k)) = Inr k" if "k \<in> set (map fst (allow_entries w))" for k
    using that allow_keys(3) [OF assms(1)] by auto
  note w2 = unallow_all_run [OF es(3) this es(2) u]
  have "map_of (allow_entries w) |` (- fst ` set (allow_entries w)) = Map.empty"
    by (auto simp: restrict_map_def map_of_eq_None_iff fun_eq_iff)
  with w2 es(4) have "allow_entries w2 = []" by simp
  with w2 es u show thesis by (cases ru) (auto intro: that)
qed

lemma reset_all_run:
  assumes "inv w" "fw_list_allowed os fw w = (r1, w1)"
  obtains es n rules w2 w3 w4 where "r1 = Inr es" "unallow_all os fw es 0 w1 = (Inr n, w2)"
    "fw_clear_port_rules os fw w2 = (Inr rules, w3)" "fw_update_config os fw DEFAULT_SETTINGS w3 = (Inr factory_settings, w4)"
    "inv w4" "allow_entries w4 = []" "port_entries w4 = []" "settings w4 = factory_settings"
    "\<forall>fd. fd \<notin> {bm_fd (fw_allowlist fw), bm_fd (fw_portrules fw), bm_fd (fw_config fw)} \<longrightarrow> view w4 fd = view w fd"
proof -
  from unallow_listed [OF assms] obtain es n w2 where w2: "r1 = Inr es" "unallow_all os fw es 0 w1 = (Inr n, w2)"
    "inv w2" "allow_entries w2 = []" "\<And>fd. fd \<noteq> bm_fd (fw_allowlist fw) \<Longrightarrow> view w2 fd = view w fd" by blast
  obtain rp w3 where p: "fw_clear_port_rules os fw w2 = (rp, w3)" by fastforce
  from clear_run [OF w2(3) portrules_map(1) _ p [unfolded fw_clear_port_rules_def]] portrules_map(2)
  have w3: "inv w3" "port_entries w3 = []" "\<And>fd. fd \<noteq> bm_fd (fw_portrules fw) \<Longrightarrow> view w3 fd = view w2 fd" "is_ok rp"
    by auto
  obtain rc w4 where c: "fw_update_config os fw DEFAULT_SETTINGS w3 = (rc, w4)" by fastforce
  have "dict_of DEFAULT_SETTINGS (settings w3) = factory_settings"
    by (simp only: settings_replaced [OF default_settings(1,2) settings_keys] default_settings(3))
  with update_config_run [OF w3(1) c refl] default_settings(2,4)
  have w4: "inv w4" "rc = Inr factory_settings" "settings w4 = factory_settings"
    "\<And>fd. fd \<noteq> bm_fd (fw_config fw) \<Longrightarrow> view w4 fd = view w3 fd" by auto
  have frame: "view w4 fd = view w fd"
    if "fd \<notin> {bm_fd (fw_allowlist fw), bm_fd (fw_portrules fw), bm_fd (fw_config fw)}" for fd
    using that w2(5) w3(3) w4(4) by simp
  obtain rules where "rp = Inr rules" using w3(4) by (cases rp) auto
  with w2 p w3 c w4 show thesis by (intro that [OF _ _ _ _ _ _ _ _ allI [OF impI [OF frame]]]) (simp_all add: maps_differ)
qed

lemma clear_part:
  assumes "inv w"
  obtains n w' where "(if b then io_bind (io_outer (fw_clear_blocks os fw)) (\<lambda>n. py_print [''removed '', py_str_int n, '' blocklist entries''])
      else io_return ()) (out, w) = (Inr (), (n, w'))" "inv w'"
    "block_entries w' = (if b then [] else block_entries w)" "\<And>fd. fd \<noteq> bm_fd (fw_blocklist fw) \<Longrightarrow> view w' fd = view w fd"
proof (cases b)
  case True
  obtain r w' where c: "fw_clear_blocks os fw w = (r, w')" by fastforce
  with clear_blocks_run [OF assms c] True show thesis
    by (auto intro!: that [of _ w'] simp: io_simps py_print_def py_write_def)
qed (use assms that in \<open>auto simp: io_simps\<close>)

lemma reset_run:
  assumes "inv w" "cmd_reset os fw blocks everything (out, w) = (r, (out', w'))"
  shows "r = Inr () \<and> inv w' \<and> list_all (\<lambda>(name, v). v = 0) (counters w') \<and> state_entries w' = [] \<and>
    block_entries w' = (if blocks \<or> everything then [] else block_entries w) \<and>
    (if everything then allow_entries w' = [] \<and> port_entries w' = [] \<and> settings w' = factory_settings
     else allow_entries w' = allow_entries w \<and> port_entries w' = port_entries w \<and> settings w' = settings w)"
proof -
  obtain rs w1 where s: "fw_reset_stats os fw w = (rs, w1)" by fastforce
  note w1 = reset_stats_run [OF assms(1) s]
  obtain rc w2 where c: "fw_clear_states os fw w1 = (rc, w2)" by fastforce
  from clear_run [OF _ srcstate_map(1) _ c [unfolded fw_clear_states_def]] srcstate_map(2) w1
  have w2: "inv w2" "state_entries w2 = []" "\<And>fd. fd \<noteq> bm_fd (fw_srcstate fw) \<Longrightarrow> view w2 fd = view w1 fd" "is_ok rc"
    by auto
  obtain k where k: "rc = Inr k" using w2(4) by (cases rc) auto
  let ?out = "out @ concat [''counters zeroed; forgot '', py_str_int k, '' tracked sources''] @ newline"
  obtain o3 w3 where w3: "(if blocks \<or> everything then io_bind (io_outer (fw_clear_blocks os fw)) (\<lambda>n. py_print [''removed '', py_str_int n, '' blocklist entries''])
      else io_return ()) (?out, w2) = (Inr (), (o3, w3))" "inv w3"
    "block_entries w3 = (if blocks \<or> everything then [] else block_entries w2)"
    "\<And>fd. fd \<noteq> bm_fd (fw_blocklist fw) \<Longrightarrow> view w3 fd = view w2 fd" 
    using clear_part [OF w2(1), of "blocks \<or> everything" ?out] by blast
  have zero: "list_all (\<lambda>(name, v). v = 0) (counters w3)"
    using w1 w2(3) w3(4) by (subst counters_cong [of _ w1]) (simp_all add: maps_differ)
  have same: "view w3 fd = view w fd" if "fd \<notin> {bm_fd (fw_stats fw), bm_fd (fw_srcstate fw), bm_fd (fw_blocklist fw)}" for fd
    using that w1 w2(3) w3(4) by simp
  note go = assms(2) [unfolded cmd_reset_def] s w1 c k w3(1)
  show ?thesis
  proof (cases everything)
    case False
    with go have "r = Inr ()" "w' = w3" by (auto simp: io_simps py_print_def py_write_def)
    with False w1 w2 w3 zero same show ?thesis by (auto simp: settings_def maps_differ)
  next
    case True
    obtain rl w4 where l: "fw_list_allowed os fw w3 = (rl, w4)" by fastforce
    obtain es n rules w5 w6 w7 where w7: "rl = Inr es" "unallow_all os fw es 0 w4 = (Inr n, w5)"
      "fw_clear_port_rules os fw w5 = (Inr rules, w6)" "fw_update_config os fw DEFAULT_SETTINGS w6 = (Inr factory_settings, w7)"
      "inv w7" "allow_entries w7 = []" "port_entries w7 = []" "settings w7 = factory_settings"
      "\<forall>fd. fd \<notin> {bm_fd (fw_allowlist fw), bm_fd (fw_portrules fw), bm_fd (fw_config fw)} \<longrightarrow> view w7 fd = view w3 fd"
      by (rule reset_all_run [OF w3(2) l])
    have "r = Inr () \<and> w' = w7" using go True l w7(1-4) by (auto simp: io_simps py_print_def py_write_def)
    moreover have "list_all (\<lambda>(name, v). v = 0) (counters w7)"
      using zero w7(9) by (subst counters_cong [of _ w3]) (simp_all add: maps_differ)
    ultimately show ?thesis using True w2 w3 w7 by (simp add: maps_differ)
  qed
qed

end

section \<open>Blocking by hand\<close>

definition base_text :: "string \<Rightarrow> string" where
  "base_text cidr = hd (py_split (CHR ''/'') cidr)"

context fw_kernel
begin

lemma allowed_cong:
  assumes "inv w" "inv w'" "allow_entries w' = allow_entries w"
  shows "fst (fw_is_allowed os fw ip w') = fst (fw_is_allowed os fw ip w)"
  using is_allowed_run [OF assms(1) prod.collapse [symmetric]] is_allowed_run [OF assms(2) prod.collapse [symmetric]] assms(3)
  by simp

lemma block_one_run:
  assumes "inv w" "block_one os fw d cidr (out, w) = (r, (out', w'))"
  shows "inv w' \<and> (\<forall>fd. fd \<noteq> bm_fd (fw_blocklist fw) \<longrightarrow> view w' fd = view w fd) \<and>
    (view w' = view w \<and> (r = Inr () \<longrightarrow> fst (fw_is_allowed os fw (base_text cidr) w) = Inr True) \<or>
     r = Inr () \<and> fst (fw_is_allowed os fw (base_text cidr) w) = Inr False \<and>
     (\<exists>k val. lpm_key cidr = Inr k \<and> map_of (block_entries w') = (map_of (block_entries w))(k \<mapsto> val)))"
proof -
  obtain ra w1 where a: "fw_is_allowed os fw (base_text cidr) w = (ra, w1)" by fastforce
  note w1 = is_allowed_run [OF assms(1) a]
  obtain rb w2 where b: "fw_block os fw cidr d BLOCK_MANUAL w1 = (rb, w2)" by fastforce
  note w2 = block_run [OF _ b]
  note go = assms(2) [unfolded block_one_def, folded base_text_def] a
  consider e where "ra = Inl e" | "ra = Inr True" | "ra = Inr False" by (cases ra) auto
  then show ?thesis
  proof cases
    case 3
    then have run: "(r, w') = (case rb of Inl e \<Rightarrow> (Inl e, w2) | Inr _ \<Rightarrow> (result_map (\<lambda>_. ()) (parse_cidr cidr), w2))"
      using go b by (auto simp: io_simps py_print_def py_write_def split: sum.splits)
    show ?thesis
    proof (cases rb)
      case (Inl e)
      with run w2 w1 show ?thesis by auto
    next
      case (Inr u)
      with w2 w1 obtain k val where k: "lpm_key cidr = Inr k" "map_of (block_entries w2) = (map_of (block_entries w1))(k \<mapsto> val)"
        by auto
      then have "is_ok (parse_cidr cidr)" by (auto simp: lpm_key_Inr)
      with 3 Inr run k w1 w2 a show ?thesis by (cases "parse_cidr cidr") auto
    qed
  qed (use go a w1 in \<open>auto simp: io_simps py_print_def py_write_def\<close>)
qed

lemma block_all_run:
  assumes "inv w" "io_for cidrs (block_one os fw d) (out, w) = (r, (out', w'))"
  shows "inv w' \<and> (\<forall>fd. fd \<noteq> bm_fd (fw_blocklist fw) \<longrightarrow> view w' fd = view w fd) \<and>
    (\<forall>k. map_of (block_entries w') k \<noteq> map_of (block_entries w) k \<longrightarrow>
      (\<exists>cidr \<in> set cidrs. lpm_key cidr = Inr k \<and> fst (fw_is_allowed os fw (base_text cidr) w) = Inr False)) \<and>
    (\<forall>k. map_of (block_entries w) k \<noteq> None \<longrightarrow> map_of (block_entries w') k \<noteq> None) \<and>
    (r = Inr () \<longrightarrow> (\<forall>cidr \<in> set cidrs. fst (fw_is_allowed os fw (base_text cidr) w) = Inr True \<or>
      (\<exists>k. lpm_key cidr = Inr k \<and> map_of (block_entries w') k \<noteq> None)))"
  using assms
proof (induction cidrs arbitrary: w out)
  case Nil
  then show ?case by (simp add: io_simps)
next
  case (Cons c cidrs)
  obtain r1 o1 w1 where one: "block_one os fw d c (out, w) = (r1, (o1, w1))" by (metis prod.exhaust)
  note w1 = block_one_run [OF Cons.prems(1) one]
  have eq: "fst (fw_is_allowed os fw ip w1) = fst (fw_is_allowed os fw ip w)" for ip
    using w1 Cons.prems(1) by (intro allowed_cong) (simp_all add: maps_differ)
  show ?case
  proof (cases r1)
    case (Inl e)
    with Cons.prems(2) one have "r = Inl e" "w' = w1" by (auto simp: io_simps)
    with Inl w1 show ?thesis by auto
  next
    case (Inr u)
    with Cons.prems(2) one have rest: "io_for cidrs (block_one os fw d) (o1, w1) = (r, (out', w'))"
      by (simp add: io_simps)
    note ih = Cons.IH [OF _ rest, unfolded eq]
    from w1 Inr consider "view w1 = view w" "fst (fw_is_allowed os fw (base_text c) w) = Inr True"
      | k val where "fst (fw_is_allowed os fw (base_text c) w) = Inr False" "lpm_key c = Inr k"
        "map_of (block_entries w1) = (map_of (block_entries w))(k \<mapsto> val)" by auto
    then show ?thesis
    proof cases
      case 1
      with ih w1 show ?thesis by auto
    next
      case (2 k val)
      have changed: "\<exists>cidr \<in> set (c # cidrs). lpm_key cidr = Inr x \<and> fst (fw_is_allowed os fw (base_text cidr) w) = Inr False"
        if "map_of (block_entries w') x \<noteq> map_of (block_entries w) x" for x
      proof (cases "x = k")
        case True
        with 2 show ?thesis by simp
      next
        case False
        with that 2(3) have "map_of (block_entries w') x \<noteq> map_of (block_entries w1) x" by simp
        with ih w1 show ?thesis by auto
      qed
      have kept: "map_of (block_entries w') x \<noteq> None" if "map_of (block_entries w1) x \<noteq> None" for x
        using that ih w1 by blast
      show ?thesis using changed kept ih w1 2 by (auto simp: maps_differ)
    qed
  qed
qed

end

section \<open>The self-test\<close>

definition TEST_HOST :: bytes where "TEST_HOST = [32, 0, 0, 0, 203, 0, 113, 42]"
definition TEST_NET :: bytes where "TEST_NET = [24, 0, 0, 0, 198, 51, 100, 0]"
definition TEST_RULE :: bytes where "TEST_RULE = [17, 0, 233, 253]"

lemma test_keys:
  "lpm_key TEST_IP = Inr TEST_HOST" "lpm_key ''198.51.100.0/24'' = Inr TEST_NET"
  "port_key ''udp'' 65001 = Inr TEST_RULE" "struct_unpack PORT_KEY TEST_RULE = Inr [VInt 17, VInt 65001]"
  "proto_name 17 = ''udp''"
  by code_simp+

context fw_kernel
begin

lemma st_check_apply:
  "fst (st_check label passed detail ok (out, w)) = Inr (ok \<and> passed)"
  "snd (st_check label passed detail ok (out, w)) = (out @ concat [label, '' ... '', if passed then ''OK'' else ''FAIL'', '' ('', detail, '')''] @ newline, w)"
  by (simp_all add: st_check_def io_simps py_print_def py_write_def)

lemma list_blocked_view:
  assumes "inv w" "fw_list_blocked os fw b w = (r, w')"
  shows "inv w' \<and> view w' = view w"
proof -
  obtain t w0 where t: "os_ktime os w = (t, w0)" by fastforce
  obtain ri w1 where i: "bpfmap_items os (fw_blocklist fw) 0 w0 = (ri, w1)" by fastforce
  note w0 = ktime_view [OF t] ktime_inv [OF assms(1) t]
  from items_all [OF w0(2) blocklist_map(1) i] w0 assms(2) t i show ?thesis
    by (auto simp: fw_list_blocked_def ktime_ns_def io_simps)
qed

lemma selftest_block_run:
  assumes "inv w" "selftest_block os fw ok (out, w) = (Inr ok', (out', w'))"
  shows "inv w' \<and> (\<forall>fd. fd \<noteq> bm_fd (fw_blocklist fw) \<longrightarrow> view w' fd = view w fd) \<and>
    map_of (block_entries w') = (map_of (block_entries w))(TEST_HOST := None)"
proof -
  obtain r1 w1 where b: "fw_block os fw TEST_IP (Fin 5) BLOCK_MANUAL w = (r1, w1)" by fastforce
  note w1 = block_run [OF assms(1) b]
  obtain r2 w2 where l: "fw_list_blocked os fw False w1 = (r2, w2)" by fastforce
  note w2 = list_blocked_view [OF _ l]
  obtain r3 w3 where u: "fw_unblock os fw TEST_IP w2 = (r3, w3)" by fastforce
  note w3 = unblock_run [OF _ test_keys(1) u]
  have "is_ok r1" "w' = w3"
    using assms(2) b l u by (auto simp: selftest_block_def io_simps Let_def st_check_apply split: sum.splits)
  with w1 w2 w3 test_keys(1) show ?thesis by (cases r1) auto
qed

lemma selftest_allow_run:
  assumes "inv w" "selftest_allow os fw ok (out, w) = (Inr ok', (out', w'))"
  shows "inv w' \<and> (\<forall>fd. fd \<noteq> bm_fd (fw_allowlist fw) \<longrightarrow> view w' fd = view w fd) \<and>
    map_of (allow_entries w') = (map_of (allow_entries w))(TEST_NET := None)"
proof -
  obtain r1 w1 where a: "fw_allow os fw ''198.51.100.0/24'' w = (r1, w1)" by fastforce
  note w1 = allow_run [OF assms(1) test_keys(2) a]
  obtain r2 w2 where l: "fw_is_allowed os fw ''198.51.100.7'' w1 = (r2, w2)" by fastforce
  note w2 = is_allowed_run [OF _ l]
  obtain r3 w3 where u: "fw_unallow os fw ''198.51.100.0/24'' w2 = (r3, w3)" by fastforce
  note w3 = unallow_run [OF _ test_keys(2) u]
  have "is_ok r1" "w' = w3"
    using assms(2) a l u by (auto simp: selftest_allow_def io_simps st_check_apply split: sum.splits)
  with w1 w2 w3 show ?thesis by (cases r1) auto
qed

text \<open>A rule for the tested port that was there before is found in the list.\<close>

lemma test_rule_listed:
  assumes "inv w" "fst (fw_list_port_rules os fw w) = Inr rows" "\<not> list_ex is_test_rule rows"
  shows "map_of (port_entries w) TEST_RULE = None"
proof (rule ccontr)
  assume "map_of (port_entries w) TEST_RULE \<noteq> None"
  then obtain v where v: "map_of (port_entries w) TEST_RULE = Some v" by auto
  have "length v = 16 * bm_ncpu (fw_portrules fw)"
    using kdict_okD [OF contents_ok [OF assms(1) portrules_map(1)] map_of_SomeD [OF v]] portrules_map
    by (simp add: handle_def)
  then obtain row where row: "port_row (TEST_RULE, v) = Inr row"
    using port_row_total [of TEST_RULE v] portrules_map(5) by (auto simp: TEST_RULE_def)
  with list_port_rules_run [OF assms(1) prod.collapse [symmetric]] assms(2) v have "row \<in> set rows" by auto
  moreover have "is_test_rule row"
    using port_row_identity [OF row test_keys(4)] test_keys(5) by (simp add: is_test_rule_def)
  ultimately show False using assms(3) by (auto simp: list_ex_iff)
qed

lemma selftest_port_run:
  assumes "inv w" "fst (fw_list_port_rules os fw w) = Inr rows"
    and "selftest_port os fw ok (out, w) = (Inr ok', (out', w'))"
  shows "inv w' \<and> (\<forall>fd. fd \<noteq> bm_fd (fw_portrules fw) \<longrightarrow> view w' fd = view w fd) \<and>
    map_of (port_entries w') = (if list_ex is_test_rule rows
      then (map_of (port_entries w))(TEST_RULE \<mapsto> concat (replicate (bm_ncpu (fw_portrules fw)) (port_bytes DENY)))
      else map_of (port_entries w))"
proof -
  obtain w0 where h: "fw_list_port_rules os fw w = (Inr rows, w0)" using assms(2) by (metis prod.collapse)
  note w0 = list_port_rules_run [OF assms(1) h]
  obtain r1 w1 where s: "fw_set_port_rule os fw ''udp'' 65001 DENY w0 = (r1, w1)" by fastforce
  note w1 = set_port_rule_run [OF _ s]
  obtain r2 w2 where l: "fw_list_port_rules os fw w1 = (r2, w2)" by fastforce
  note w2 = list_port_rules_run [OF _ l]
  obtain r3 w3 where u: "fw_del_port_rule os fw ''udp'' 65001 w2 = (r3, w3)" by fastforce
  note w3 = del_port_rule_run [OF _ test_keys(3) u]
  have ok: "is_ok r1" "w' = (if list_ex is_test_rule rows then w2 else w3)"
    using assms(3) h s l u by (auto simp: selftest_port_def io_simps Let_def st_check_apply split: sum.splits if_splits)
  have port: "map_of (port_entries w2) = (map_of (port_entries w))
      (TEST_RULE \<mapsto> concat (replicate (bm_ncpu (fw_portrules fw)) (port_bytes DENY)))"
    using ok(1) w0 w1 w2 test_keys(3) by (cases r1) auto
  have gone: "\<not> list_ex is_test_rule rows \<Longrightarrow> (map_of (port_entries w))(TEST_RULE := None) = map_of (port_entries w)"
    using test_rule_listed [OF assms(1,2)] by auto
  show ?thesis
  proof (cases "list_ex is_test_rule rows")
    case True
    with ok port w0 w1 w2 show ?thesis by auto
  next
    case False
    with ok port gone w0 w1 w2 w3 show ?thesis by auto
  qed
qed

end

context cli_kernel
begin

lemma reads_only:
  assumes "io_steps (only_cmd {}) m" "m (out, w) = (r, (out', w'))" "inv w"
  shows "inv w' \<and> view w' = view w"
  using io_stepsD [OF assms(1,2)] assms(3) by (auto simp: outer_rel_def only_def fun_eq_iff)

lemma selftest_reads:
  "io_steps (only_cmd {}) (selftest_config os fw)" "io_steps (only_cmd {}) (selftest_stats os fw ok)"
  "io_steps (only_cmd {}) (selftest_states os fw ok)" "io_steps (only_cmd {}) (selftest_prog os fw ok)"
  unfolding selftest_config_def selftest_stats_def selftest_states_def selftest_prog_def st_check_def
  by (intro cmd_rules)+

lemma test_rule_cong:
  assumes "inv w" "inv w'" "port_entries w' = port_entries w" "fst (fw_list_port_rules os fw w) = Inr rows"
  obtains rows' where "fst (fw_list_port_rules os fw w') = Inr rows'" "list_ex is_test_rule rows' = list_ex is_test_rule rows"
  using list_port_rules_run [OF assms(1) prod.collapse [symmetric]] list_port_rules_run [OF assms(2) prod.collapse [symmetric]]
    assms(3,4) that by (auto simp: list_ex_iff)

lemma selftest_run:
  assumes "inv w" "fst (fw_list_port_rules os fw w) = Inr rows" "cmd_selftest os fw (out, w) = (Inr rc, (out', w'))"
  shows "rc \<in> {0, 1} \<and> map_of (allow_entries w') = (map_of (allow_entries w))(TEST_NET := None) \<and>
    map_of (block_entries w') = (map_of (block_entries w))(TEST_HOST := None) \<and>
    map_of (port_entries w') = (if list_ex is_test_rule rows
      then (map_of (port_entries w))(TEST_RULE \<mapsto> concat (replicate (bm_ncpu (fw_portrules fw)) (port_bytes DENY)))
      else map_of (port_entries w))"
proof -
  from assms(3) obtain k1 o1 w1 k2 o2 w2 k3 o3 w3 k4 o4 w4 k5 o5 w5 k6 o6 w6 k7 o7 w7 where
    t1: "selftest_config os fw (out, w) = (Inr k1, (o1, w1))" and
    t2: "selftest_block os fw k1 (o1, w1) = (Inr k2, (o2, w2))" and
    t3: "selftest_allow os fw k2 (o2, w2) = (Inr k3, (o3, w3))" and
    t4: "selftest_port os fw k3 (o3, w3) = (Inr k4, (o4, w4))" and
    t5: "selftest_stats os fw k4 (o4, w4) = (Inr k5, (o5, w5))" and
    t6: "selftest_states os fw k5 (o5, w5) = (Inr k6, (o6, w6))" and
    t7: "selftest_prog os fw k6 (o6, w6) = (Inr k7, (o7, w7))" and
    e: "rc = (if k7 then 0 else 1)" "w' = w7"
    unfolding cmd_selftest_def io_bind_Inr by (auto simp: io_simps py_print_def py_write_def)
  note w1 = reads_only [OF selftest_reads(1) t1 assms(1)]
  note w2 = selftest_block_run [OF _ t2]
  note w3 = selftest_allow_run [OF _ t3]
  have i3: "inv w3" "port_entries w3 = port_entries w" using w1 w2 w3 by (auto simp: maps_differ)
  obtain rows' where rows': "fst (fw_list_port_rules os fw w3) = Inr rows'"
    "list_ex is_test_rule rows' = list_ex is_test_rule rows"
    using test_rule_cong [OF assms(1) i3 assms(2)] by blast
  note w4 = selftest_port_run [OF i3(1) rows'(1) t4, unfolded rows'(2)]
  have "view w7 = view w4"
    using reads_only [OF selftest_reads(2) t5] reads_only [OF selftest_reads(3) t6] reads_only [OF selftest_reads(4) t7] w4
    by auto
  with w1 w2 w3 w4 e i3 show ?thesis by (auto simp: maps_differ)
qed

end

section \<open>Two processes\<close>

context fw_kernel
begin

text \<open>A process writes back the settings it read before the other one changed them.\<close>

lemma lost_update:
  assumes "inv w" "fst (fw_read_config os fw w) = Inr cfg" "dict_ok changes"
    and "fw_update_config os fw others w = (Inr theirs, w1)" "config_write os fw changes cfg w1 = (Inr mine, w2)"
  shows "mine = map (\<lambda>k. (k, dict_get changes k (dict_get cfg k 0))) CONFIG_FIELDS \<and> fst (fw_read_config os fw w2) = Inr mine"
proof -
  have cfg: "cfg = settings w" using read_config_run [OF assms(1) prod.collapse [symmetric]] assms(2) by simp
  have keys: "map fst cfg = CONFIG_FIELDS" by (simp add: cfg settings_keys)
  have w1: "inv w1" using update_config_run [OF assms(1,4) refl] by blast
  note w2 = config_write_run [OF w1 keys assms(5) refl]
  then have known: "list_all (\<lambda>(k, v). List.member CONFIG_FIELDS k) changes" and mine: "mine = dict_of changes cfg" "settings w2 = mine"
    by (auto split: if_splits)
  have "fst (fw_read_config os fw w2) = Inr (settings w2)"
    using read_config_run [OF _ prod.collapse [symmetric], of w2] w2 by simp
  with mine settings_replaced [OF assms(3) known keys] show ?thesis by simp
qed

end

section \<open>A self-test that runs to its end\<close>

lemma block_row_total:
  assumes "length v = 24" "unpack_cidr k = Inr c"
  shows "is_ok (block_row now b (k, v))"
proof -
  have "unpack_ints BLOCK_VAL v = Inr [le_int (take 8 v), le_int (take 8 (drop 8 v)), le_int (take 4 (drop 16 v)), le_int (take 4 (drop 20 v))]"
    using assms(1) by (simp add: unpack_ints_def struct_unpack_def BLOCK_VAL_def)
  with assms(2) show ?thesis by (simp add: block_row_def py_index_def Let_def)
qed

context fw_kernel
begin

lemma list_blocked_total:
  assumes "inv w"
  shows "is_ok (fst (fw_list_blocked os fw b w))"
proof -
  obtain t w0 where t: "os_ktime os w = (t, w0)" by fastforce
  obtain ri w1 where i: "bpfmap_items os (fw_blocklist fw) 0 w0 = (ri, w1)" by fastforce
  note w0 = ktime_view [OF t] ktime_inv [OF assms t]
  note w1 = items_all [OF w0(2) blocklist_map(1) i]
  have "is_ok (block_row t b e)" if "e \<in> set (block_entries w)" for e
  proof -
    obtain k v where e: "e = (k, v)" by fastforce
    have k: "key_ok LPM_TRIE 8 k" by (rule kdict_ok_key [OF block_ok [OF assms]]) (use that e in force)
    then have "unpack_cidr k = Inr (show_network (lpm_network k))"
      using unpack_cidr_lpm [of "lpm_network k"] by (simp add: key_ok_def lpm_bytes_network)
    with kdict_okD [OF block_ok [OF assms], of k v] that e show ?thesis by (auto intro: block_row_total)
  qed
  then have "is_ok (result_list (block_row t b) (block_entries w))" by (rule result_list_total)
  with t i w0 w1 show ?thesis
    by (cases "result_list (block_row t b) (block_entries w)")
      (simp_all add: fw_list_blocked_def ktime_ns_def io_simps)
qed

lemma selftest_config_ok: "inv w \<Longrightarrow> is_ok (fst (selftest_config os fw (out, w)))"
  using read_config_run [OF _ prod.collapse [symmetric], of w] settings_keys [of w]
  by (auto simp: selftest_config_def io_simps CONFIG_FIELDS_def dict_index_def st_check_apply)

lemma selftest_block_ok:
  assumes "inv w" "fst (fw_block os fw TEST_IP (Fin 5) BLOCK_MANUAL w) = Inr ()"
  shows "is_ok (fst (selftest_block os fw ok (out, w)))"
proof -
  obtain w1 where b: "fw_block os fw TEST_IP (Fin 5) BLOCK_MANUAL w = (Inr (), w1)" using assms(2) by (metis prod.collapse)
  have w1: "inv w1" using block_run [OF assms(1) b] by blast
  obtain es w2 where l: "fw_list_blocked os fw False w1 = (Inr es, w2)"
    using list_blocked_total [OF w1] by (metis is_ok.elims(2) prod.collapse)
  have "inv w2" using list_blocked_view [OF w1 l] by blast
  then have "is_ok (fst (fw_unblock os fw TEST_IP w2))"
    using unblock_run [OF _ test_keys(1) prod.collapse [symmetric]] by simp
  with b l show ?thesis
    by (cases "fst (fw_unblock os fw TEST_IP w2)") (simp_all add: selftest_block_def io_simps Let_def st_check_apply)
qed

lemma selftest_allow_ok:
  assumes "inv w" "fst (fw_allow os fw ''198.51.100.0/24'' w) = Inr ()"
  shows "is_ok (fst (selftest_allow os fw ok (out, w)))"
proof -
  obtain w1 where a: "fw_allow os fw ''198.51.100.0/24'' w = (Inr (), w1)" using assms(2) by (metis prod.collapse)
  have w1: "inv w1" using allow_run [OF assms(1) test_keys(2) a] by blast
  have "lpm_key ''198.51.100.7'' = Inr [32, 0, 0, 0, 198, 51, 100, 7]" by code_simp
  then obtain x w2 where l: "fw_is_allowed os fw ''198.51.100.7'' w1 = (Inr x, w2)" "inv w2"
    using is_allowed_run [OF w1 prod.collapse [symmetric]] by (metis prod.collapse result_map.simps(2))
  then have "is_ok (fst (fw_unallow os fw ''198.51.100.0/24'' w2))"
    using unallow_run [OF _ test_keys(2) prod.collapse [symmetric]] by simp
  with a l show ?thesis
    by (cases "fst (fw_unallow os fw ''198.51.100.0/24'' w2)") (simp_all add: selftest_allow_def io_simps st_check_apply)
qed

lemma selftest_port_ok:
  assumes "inv w" "\<And>w'. inv w' \<Longrightarrow> port_entries w' = port_entries w \<Longrightarrow> fst (fw_set_port_rule os fw ''udp'' 65001 DENY w') = Inr ()"
  shows "is_ok (fst (selftest_port os fw ok (out, w)))"
proof -
  obtain rows w0 where h: "fw_list_port_rules os fw w = (Inr rows, w0)" "inv w0" "view w0 = view w"
    using list_port_rules_run [OF assms(1) prod.collapse [symmetric]] by (metis prod.collapse)
  then obtain w1 where s: "fw_set_port_rule os fw ''udp'' 65001 DENY w0 = (Inr (), w1)"
    using assms(2) [of w0] by (metis prod.collapse)
  have w1: "inv w1" using set_port_rule_run [OF h(2) s] by blast
  obtain rows' w2 where l: "fw_list_port_rules os fw w1 = (Inr rows', w2)" "inv w2"
    using list_port_rules_run [OF w1 prod.collapse [symmetric]] by (metis prod.collapse)
  then have "is_ok (fst (fw_del_port_rule os fw ''udp'' 65001 w2))"
    using del_port_rule_run [OF _ test_keys(3) prod.collapse [symmetric]] by simp
  with h s l show ?thesis
    by (cases "fst (fw_del_port_rule os fw ''udp'' 65001 w2)") (simp_all add: selftest_port_def io_simps Let_def st_check_apply)
qed

lemma selftest_stats_ok:
  assumes "inv w"
  shows "is_ok (fst (selftest_stats os fw ok (out, w)))"
proof -
  obtain w1 where s: "fw_read_stats os fw w = (Inr (counters w @ [(''drops_total'', total_of ''drop_'' (counters w)),
      (''passes_total'', total_of ''pass_'' (counters w))]), w1)"
    using read_stats_run [OF assms prod.collapse [symmetric]] by (metis prod.collapse)
  have keys: "map fst (counters w) = STAT_NAMES"
    by (simp add: counters_def py_enumerate_def case_prod_beta comp_def)
  let ?s = "counters w @ [(''drops_total'', total_of ''drop_'' (counters w)), (''passes_total'', total_of ''pass_'' (counters w))]"
  have "\<exists>v. dict_index ?s k = Inr v" if "k \<in> set (STAT_NAMES @ [''drops_total'', ''passes_total''])" for k
  proof -
    have "map fst ?s = STAT_NAMES @ [''drops_total'', ''passes_total'']" by (simp add: keys)
    then have "k \<in> fst ` set ?s" using that by (simp only: set_map [symmetric])
    then obtain v where "map_of ?s k = Some v" by (metis domD dom_map_of_conv_image_fst)
    then show ?thesis by (simp only: dict_index_def option.case) blast
  qed
  from this [of "''rx_packets''"] this [of "''passes_total''"] this [of "''drops_total''"]
  obtain x y z where "dict_index ?s ''rx_packets'' = Inr x" "dict_index ?s ''passes_total'' = Inr y" "dict_index ?s ''drops_total'' = Inr z"
    by (auto simp: STAT_NAMES_def)
  with s show ?thesis by (simp add: selftest_stats_def io_simps st_check_apply)
qed

lemma selftest_states_ok: "inv w \<Longrightarrow> is_ok (fst (selftest_states os fw ok (out, w)))"
  using read_states_run [OF _ prod.collapse [symmetric], of w] by (auto simp: selftest_states_def io_simps st_check_apply)

end

end
