(* ===== verification/Fwctl_Props.thy ===== *)
theory Fwctl_Props
  imports Fwctl_Runs
begin

unbundle bit_operations_syntax

text \<open>
  The commands on the reference kernel with clocks, and the properties of the subcommands of
  \<open>control/fwctl.py\<close>, among them the lost update when two processes change the settings at once.
\<close>

section \<open>The reference kernel with clocks\<close>

definition ref_clk :: "kernel clocks" where
  "ref_clk = \<lparr>clk_monotonic = (\<lambda>w. (of_int (k_clock w) / 1000000000, w)),
     clk_time = (\<lambda>w. (of_int (k_clock w) / 1000000000, w)), clk_strftime = (\<lambda>w. (''00:00:00'', w)),
     clk_sleep = (\<lambda>t w. w\<lparr>k_clock := k_clock w + max 0 (trunc_rat (t * 1000000000))\<rparr>)\<rparr>"

interpretation rcli: cli_kernel ref_os ref_is_map "\<lambda>fd. md_kind (decl_of fd)" "\<lambda>fd. md_ksize (decl_of fd)"
  "\<lambda>fd. md_vsize (decl_of fd)" kernel_ok ref_view "\<lambda>_. token_pos" ref_fw ref_clk
  by unfold_locales (auto simp: ref_clk_def io_simps)

lemmas ref_cli_laws = rcli.cli_kernel_axioms

section \<open>The self-test on the reference kernel\<close>

lemma ref_write_ok:
  assumes "kernel_ok w" "ref_is_map fd" "ref_view w fd = []" "md_kind (decl_of fd) \<noteq> ARRAY" "0 < md_max (decl_of fd)"
    and "key_ok (md_kind (decl_of fd)) ks k" "ks = md_ksize (decl_of fd)" "vs = md_vsize (decl_of fd)" "length v = vs"
  shows "fst (bpfmap_update ref_os (ref_map nm ks vs n fd) k v BPF_ANY w) = Inr ()"
proof -
  have "key_buffer (ref_map nm ks vs n fd) (Some k) = Inr (Some k)"
    using assms(6) by (auto simp: key_buffer_def key_ok_def)
  with assms show ?thesis
    by (simp add: bpfmap_update_def bpf_elem_def bpf_def io_simps ref_update_def reply_def)
qed

lemma ref_test_block:
  assumes "kernel_ok w" "ref_view w 4 = []" "k_clock w = 1000000000"
  shows "fst (fw_block ref_os ref_fw TEST_IP (Fin 5) BLOCK_MANUAL w) = Inr ()"
proof -
  have five: "py_int_of_float (pyfloat_scale 1000000000 (Fin 5)) = Inr 5000000000"
  proof -
    have "fl 5000000000 = 5000000000" by (rule fl_numeral) simp
    then show ?thesis by (simp add: Let_def trunc_rat_def max_double_def)
  qed
  obtain val where val: "pack_ints BLOCK_VAL [6000000000, 0, BLOCK_MANUAL, 0] = Inr val"
    using block_pack_ok [of 6000000000 BLOCK_MANUAL] by (auto simp: BLOCK_MANUAL_def)
  let ?w = "w\<lparr>k_clock := k_clock w + k_step w\<rparr>"
  have "fst (bpfmap_update ref_os (ref_map ''blocklist'' 8 24 1 4) TEST_HOST val BPF_ANY ?w) = Inr ()"
    using assms block_pack [OF val] lpm_key_ok [OF test_keys(1)]
    by (intro ref_write_ok) (simp_all add: ref_maps ref_decls MAX_BLOCKLIST_def)
  with assms val five show ?thesis
    by (simp add: fw_block_def io_simps ktime_ns_def ref_os_def test_keys(1) ref_fw_simps)
qed

lemma ref_test_allow:
  assumes "kernel_ok w" "ref_view w 3 = []"
  shows "fst (fw_allow ref_os ref_fw ''198.51.100.0/24'' w) = Inr ()"
  using assms lpm_key_ok [OF test_keys(2)]
  by (simp add: fw_allow_def io_simps test_keys(2) allow_zero ref_fw_simps ref_write_ok ref_maps ref_decls MAX_ALLOWLIST_def zeros_def)

lemma ref_test_port:
  assumes "kernel_ok w" "ref_view w 5 = []"
  shows "fst (fw_set_port_rule ref_os ref_fw ''udp'' 65001 DENY w) = Inr ()"
proof -
  have "0 \<le> DENY \<and> DENY < 2 ^ 32" by (simp add: DENY_def)
  moreover have "length (concat (replicate 2 (port_bytes DENY))) = 32" by (subst length_concat_same [of _ 16]) auto
  moreover have "key_ok HASH 4 TEST_RULE" by (simp add: key_ok_def TEST_RULE_def)
  ultimately show ?thesis
    using assms by (simp add: fw_set_port_rule_def io_simps test_keys(3) port_pack ref_fw_simps ref_write_ok ref_maps ref_decls MAX_PORT_RULES_def)
qed

lemma ref_read_config_state: "snd (fw_read_config ref_os ref_fw w) = w"
  by (auto simp: fw_read_config_def bpfmap_lookup_def bpf_elem_def bpf_def bpf_raise_def io_simps zero_key
      ref_fw_simps ref_maps split: sum.splits option.splits)

text \<open>The calls leave the description of the program alone, so it can be part of what is known of the kernel.\<close>

lemma ref_bpf_info: "k_info (snd (ref_bpf call w)) = k_info w"
  by (cases call) (auto simp: ref_update_def ref_delete_def ref_set_def Let_def split: option.splits)

definition info_ok :: "kernel \<Rightarrow> bool" where
  "info_ok w \<longleftrightarrow> kernel_ok w \<and> k_info w = zeros 232"

lemma info_okD: "info_ok w \<Longrightarrow> kernel_ok w"
  by (simp add: info_ok_def)

lemma info_ok_steps:
  "info_ok w \<Longrightarrow> os_bpf ref_os call w = (rep, w') \<Longrightarrow> info_ok w'"
  "info_ok w \<Longrightarrow> os_ktime ref_os w = (t, w') \<Longrightarrow> info_ok w'"
  using ref_bpf_ok [of w call] ref_bpf_info [of call w] by (auto simp: info_ok_def ref_os_def)

interpretation rinfo: cli_kernel ref_os ref_is_map "\<lambda>fd. md_kind (decl_of fd)" "\<lambda>fd. md_ksize (decl_of fd)"
  "\<lambda>fd. md_vsize (decl_of fd)" info_ok ref_view "\<lambda>_. token_pos" ref_fw ref_clk
  by unfold_locales
    (assumption
      | rule info_ok_steps ref.view_ok ref.ktime_view ref.lookup_view ref.next_view ref.batch_view ref.lookup_law ref.update_law
          ref.replace_law ref.delete_law ref.next_law ref.batch_law rf.allowlist_map rf.blocklist_map rf.portrules_map
          rf.srcstate_map rf.stats_map rf.config_map rf.fds_distinct rf.stats_keys rf.config_key rf.size_bound
          rcli.get_view rcli.info_view info_okD
      | auto simp: info_ok_def ref_clk_def io_simps; fail)+

lemmas ref_info_laws = rinfo.cli_kernel_axioms

lemma ref_prog_info:
  assumes "info_ok w"
  shows "is_ok (fst (fw_prog_info ref_os ref_fw w))"
proof -
  have "is_ok (decode_info (zeros 232))" by code_simp
  moreover have "ref_open (PIN_DIR @ ''/xdp_firewall'') = reply PROG_FD 0 []"
    by (simp add: ref_open_def py_enumerate_def map_decls_def)
  ultimately show ?thesis
    using assms by (simp add: fw_prog_info_def open_pinned_def prog_read_info_def pinned_close_def bpf_def io_simps
        reply_def INFO_SIZE_def info_ok_def overlay_def PROG_FD_def ref_fw_def Let_def zeros_def)
qed

lemma ok_cases:
  assumes "is_ok (fst x)"
  obtains a b c where "x = (Inr a, (b, c))"
  using assms by (cases x; cases "fst x") auto

lemma boot_info: "info_ok boot_kernel"
  using boot_kernel_ok by (simp add: info_ok_def boot_kernel_def)

lemma selftest_boot_ends: "is_ok (fst (cmd_selftest ref_os ref_fw ([], boot_kernel)))"
proof -
  have start: "snd (snd (selftest_config ref_os ref_fw ([], boot_kernel))) = boot_kernel"
    using ref_read_config_state [of boot_kernel]
    by (auto simp: selftest_config_def io_simps rf.st_check_apply split: sum.splits)
  obtain k1 o1 where t1: "selftest_config ref_os ref_fw ([], boot_kernel) = (Inr k1, (o1, boot_kernel))"
    using ok_cases [OF rinfo.selftest_config_ok [OF boot_info, of "[]"]] start by (metis snd_conv)
  have b: "fst (fw_block ref_os ref_fw TEST_IP (Fin 5) BLOCK_MANUAL boot_kernel) = Inr ()"
    using boot_kernel_ok by (intro ref_test_block) (simp_all add: boot_views, simp add: boot_kernel_def)
  obtain k2 o2 w2 where t2: "selftest_block ref_os ref_fw k1 (o1, boot_kernel) = (Inr k2, (o2, w2))"
    using ok_cases [OF rinfo.selftest_block_ok [OF boot_info b]] .
  note w2 = rinfo.selftest_block_run [OF boot_info t2]
  have a: "fst (fw_allow ref_os ref_fw ''198.51.100.0/24'' w2) = Inr ()"
    using w2 by (intro ref_test_allow) (auto simp: ref_fw_simps boot_views intro: info_okD)
  obtain k3 o3 w3 where t3: "selftest_allow ref_os ref_fw k2 (o2, w2) = (Inr k3, (o3, w3))"
    using ok_cases [OF rinfo.selftest_allow_ok [OF _ a]] w2 by blast
  have w3: "info_ok w3" "ref_view w3 5 = []"
    using rinfo.selftest_allow_run [OF _ t3] w2 by (auto simp: ref_fw_simps boot_views)
  have p: "fst (fw_set_port_rule ref_os ref_fw ''udp'' 65001 DENY w) = Inr ()"
    if "info_ok w" "ref_view w (bm_fd (fw_portrules ref_fw)) = ref_view w3 (bm_fd (fw_portrules ref_fw))" for w
    using that w3(2) by (intro ref_test_port) (auto simp: ref_fw_simps intro: info_okD)
  obtain k4 o4 w4 where t4: "selftest_port ref_os ref_fw k3 (o3, w3) = (Inr k4, (o4, w4))"
    using ok_cases [OF rinfo.selftest_port_ok [OF w3(1) p]] .
  obtain rows where "fst (fw_list_port_rules ref_os ref_fw w3) = Inr rows"
    using rinfo.list_port_rules_run [OF w3(1) prod.collapse [symmetric]] by blast
  then have w4: "info_ok w4" using rinfo.selftest_port_run [OF w3(1) _ t4] by blast
  obtain k5 o5 w5 where t5: "selftest_stats ref_os ref_fw k4 (o4, w4) = (Inr k5, (o5, w5))"
    using ok_cases [OF rinfo.selftest_stats_ok [OF w4]] .
  have w5: "info_ok w5" using rinfo.reads_only [OF rinfo.selftest_reads(2) t5 w4] by blast
  obtain k6 o6 w6 where t6: "selftest_states ref_os ref_fw k5 (o5, w5) = (Inr k6, (o6, w6))"
    using ok_cases [OF rinfo.selftest_states_ok [OF w5]] .
  have w6: "info_ok w6" using rinfo.reads_only [OF rinfo.selftest_reads(3) t6 w5] by blast
  from ref_prog_info [OF w6] t1 t2 t3 t4 t5 t6 show ?thesis
    by (cases "fst (fw_prog_info ref_os ref_fw w6)")
      (simp_all add: cmd_selftest_def io_simps selftest_prog_def rf.st_check_apply py_print_def py_write_def)
qed

section \<open>Properties\<close>

text \<open>
  C27. Whatever a subcommand returns or raises, it changes at most the maps it is about: the
  listing commands, \<open>status\<close>, \<open>top\<close>, \<open>stats\<close> and \<open>config show\<close> change none, \<open>allow\<close>, \<open>block\<close> and
  \<open>port\<close> only their own list, \<open>policy\<close> and \<open>config set\<close> only the settings, \<open>reset\<close> the counters and
  the per-source state and with its options the rest, \<open>selftest\<close> only the three lists.
\<close>

theorem command_touches:
  assumes "cli_kernel os is_map kind ksize vsize okw view pos fw clk" "okw w"
    and "fwctl_handler turns clk os fw args (out, w) = (r, (out', w'))"
  shows "okw w' \<and> (\<forall>fd. fd \<in> touched fw args \<or> view w' fd = view w fd)"
  using io_stepsD [OF cli_kernel.handler_only [OF assms(1)] assms(3)] assms(2)
  by (auto simp: outer_rel_def cli_kernel.only_def [OF assms(1)])

abbreviation flushed :: "int result \<times> string \<times> kernel" where
  "flushed \<equiv> fwctl_handler 0 ref_clk ref_os ref_fw (Block BlockFlush) ([], shadow_kernel)"

theorem command_touches_witness:
  "kernel_ok (snd (snd flushed)) \<and> (\<forall>fd. fd = 4 \<or> ref_view (snd (snd flushed)) fd = ref_view shadow_kernel fd)"
  using command_touches [OF ref_cli_laws shadow_ok, of 0 "Block BlockFlush" "[]" "fst flushed" "fst (snd flushed)" "snd (snd flushed)"]
  by (simp add: ref_fw_simps)

text \<open>
  C30. \<open>config set\<close> with the options that the parser admits: a rate outside 0 to 100000000 or a
  burst below 1 is refused with \<open>ValueError\<close>; a burst that 64 bits cannot hold raises \<open>struct.error\<close>;
  neither writes anything. Otherwise it succeeds, the settings that are named get their new values
  and the others keep theirs, and a stage is on afterwards exactly when it is not in \<open>--disable\<close> and
  is in \<open>--enable\<close> or was on before.
\<close>

theorem config_set_exact:
  assumes "fw_kernel os is_map kind ksize vsize okw view pos fw" "okw w" "fst (fw_read_config os fw w) = Inr cfg"
    and "set (set_enable args) \<union> set (set_disable args) \<subseteq> fst ` set FEATURES"
    and "\<forall>lvl. set_aggressiveness args = Some lvl \<longrightarrow> 0 \<le> lvl \<and> lvl \<le> 3"
    and "cmd_config_set os fw args (out, w) = (r, (out', w'))"
  shows "if bad_limits args then r = Inl ValueError \<and> view w' = view w
    else if 2 ^ 64 \<le> pick (set_burst args) 1 then r = Inl StructError \<and> view w' = view w
    else r = Inr () \<and> (\<exists>feats. fst (fw_read_config os fw w') = Inr (new_settings args cfg feats) \<and>
        (\<forall>i. bit feats i \<longleftrightarrow>
          (if i < length FEATURES then
             fst (FEATURES ! i) \<notin> set (set_disable args) \<and>
             (fst (FEATURES ! i) \<in> set (set_enable args) \<or> bit (dict_get cfg ''features'' 0) i)
           else bit (dict_get cfg ''features'' 0) i)))"
  using fw_kernel.config_set_run [OF assms] .

definition slow_args :: config_args where
  "slow_args = \<lparr>set_rate = Some 1000, set_burst = None, set_aggressiveness = Some 2, set_enable = [''frags''], set_disable = [''state'']\<rparr>"

definition fast_args :: config_args where
  "fast_args = \<lparr>set_rate = Some 100000001, set_burst = None, set_aggressiveness = None, set_enable = [], set_disable = []\<rparr>"

theorem config_set_exact_witness:
  "fst (cmd_config_set ref_os ref_fw slow_args ([], boot_kernel)) = Inr () \<and>
   fst (cmd_config_set ref_os ref_fw fast_args ([], boot_kernel)) = Inl ValueError"
proof -
  have "fst ` set FEATURES \<supseteq> {''frags'', ''state''}" by (simp add: FEATURES_def)
  then have slow: "set (set_enable slow_args) \<union> set (set_disable slow_args) \<subseteq> fst ` set FEATURES"
    "\<forall>lvl. set_aggressiveness slow_args = Some lvl \<longrightarrow> 0 \<le> lvl \<and> lvl \<le> 3"
    by (simp_all add: slow_args_def)
  have fast: "set (set_enable fast_args) \<union> set (set_disable fast_args) \<subseteq> fst ` set FEATURES"
    "\<forall>lvl. set_aggressiveness fast_args = Some lvl \<longrightarrow> 0 \<le> lvl \<and> lvl \<le> 3"
    by (simp_all add: fast_args_def)
  have "\<not> bad_limits slow_args" "bad_limits fast_args" "pick (set_burst slow_args) 1 < 2 ^ 64"
    by (simp_all add: bad_limits_def slow_args_def fast_args_def pick_def)
  then show ?thesis
    using config_set_exact [OF ref_fw_laws boot_kernel_ok boot_settings slow, of "[]"]
      config_set_exact [OF ref_fw_laws boot_kernel_ok boot_settings fast, of "[]"]
    by (metis leD prod.collapse)
qed

text \<open>
  C31. \<open>reset\<close> succeeds; all counters read zero and no source is tracked afterwards. The blocklist
  is empty with \<open>--blocks\<close> or \<open>--all\<close> and as before without; with \<open>--all\<close> the allowlist and the port
  rules are empty and the settings are those the loader starts with, and without it these three
  are as before.
\<close>

theorem reset_exact:
  assumes "fw_kernel os is_map kind ksize vsize okw view pos fw" "okw w"
    and "cmd_reset os fw blocks everything (out, w) = (r, (out', w'))"
  shows "r = Inr () \<and>
    fst (fw_read_stats os fw w') = Inr (map (\<lambda>name. (name, 0)) (STAT_NAMES @ [''drops_total'', ''passes_total''])) \<and>
    view w' (bm_fd (fw_srcstate fw)) = [] \<and>
    view w' (bm_fd (fw_blocklist fw)) = (if blocks \<or> everything then [] else view w (bm_fd (fw_blocklist fw))) \<and>
    view w' (bm_fd (fw_allowlist fw)) = (if everything then [] else view w (bm_fd (fw_allowlist fw))) \<and>
    view w' (bm_fd (fw_portrules fw)) = (if everything then [] else view w (bm_fd (fw_portrules fw))) \<and>
    fst (fw_read_config os fw w') = (if everything
      then Inr [(''rate_pps'', 20000), (''burst_pkts'', 40000), (''features'', 95), (''aggressiveness'', 0), (''default_policy'', 0)]
      else fst (fw_read_config os fw w))"
proof -
  note run = fw_kernel.reset_run [OF assms]
  then have "okw w'" by simp
  note cfg = fw_kernel.read_config_run [OF assms(1) this prod.collapse [symmetric]]
    fw_kernel.read_config_run [OF assms(1,2) prod.collapse [symmetric]]
  from run cfg fw_kernel.zero_counters_read [OF assms(1) \<open>okw w'\<close>] show ?thesis
    by (simp add: factory_settings_def split: if_splits)
qed

abbreviation reset_world :: kernel where
  "reset_world \<equiv> snd (snd (cmd_reset ref_os ref_fw False True ([], shadow_kernel)))"

theorem reset_exact_witness:
  "fst (cmd_reset ref_os ref_fw False True ([], shadow_kernel)) = Inr () \<and>
   ref_view reset_world (bm_fd (fw_blocklist ref_fw)) = [] \<and> ref_view reset_world (bm_fd (fw_allowlist ref_fw)) = [] \<and>
   fst (fw_read_config ref_os ref_fw reset_world) = Inr
     [(''rate_pps'', 20000), (''burst_pkts'', 40000), (''features'', 95), (''aggressiveness'', 0), (''default_policy'', 0)]"
  using reset_exact [OF ref_fw_laws shadow_ok, of False True "[]" "fst (cmd_reset ref_os ref_fw False True ([], shadow_kernel))"
      "fst (snd (cmd_reset ref_os ref_fw False True ([], shadow_kernel)))" reset_world]
  by simp

text \<open>
  C32. \<open>block add\<close> changes nothing but the blocklist, removes no entry from it, and every entry
  that it adds or replaces is the key of one of its arguments whose base address is not
  allowlisted. When it succeeds, every argument was refused because its base address is
  allowlisted or has an entry now.
\<close>

theorem block_add_respects_allowlist:
  assumes "fw_kernel os is_map kind ksize vsize okw view pos fw" "okw w"
    and "cmd_block os fw (BlockAdd cidrs duration) (out, w) = (r, (out', w'))"
  shows "(\<forall>fd. fd = bm_fd (fw_blocklist fw) \<or> view w' fd = view w fd) \<and>
    dom (map_of (view w (bm_fd (fw_blocklist fw)))) \<subseteq> dom (map_of (view w' (bm_fd (fw_blocklist fw)))) \<and>
    (\<forall>k. map_of (view w' (bm_fd (fw_blocklist fw))) k = map_of (view w (bm_fd (fw_blocklist fw))) k \<or>
      (\<exists>cidr \<in> set cidrs. lpm_key cidr = Inr k \<and> fst (fw_is_allowed os fw (base_text cidr) w) = Inr False)) \<and>
    (r = Inr () \<longrightarrow> (\<forall>cidr \<in> set cidrs. fst (fw_is_allowed os fw (base_text cidr) w) = Inr True \<or>
      (\<exists>k. lpm_key cidr = Inr k \<and> k \<in> dom (map_of (view w' (bm_fd (fw_blocklist fw)))))))"
  using fw_kernel.block_all_run [OF assms(1,2) assms(3) [unfolded cmd_block.simps]]
  by (auto simp: dom_def)

abbreviation blocked_now :: "unit result \<times> string \<times> kernel" where
  "blocked_now \<equiv> cmd_block ref_os ref_fw (BlockAdd [''10.1.2.9'', ''10.9.0.0/16''] (Fin 60)) ([], boot_kernel)"

theorem block_add_respects_allowlist_witness:
  "(\<forall>fd. fd = 4 \<or> ref_view (snd (snd blocked_now)) fd = ref_view boot_kernel fd) \<and>
   dom (map_of (ref_view boot_kernel 4)) \<subseteq> dom (map_of (ref_view (snd (snd blocked_now)) 4))"
  using block_add_respects_allowlist [OF ref_fw_laws boot_kernel_ok, of "[''10.1.2.9'', ''10.9.0.0/16'']" "Fin 60" "[]"
      "fst blocked_now" "fst (snd blocked_now)" "snd (snd blocked_now)"]
  by (simp add: ref_fw_simps del: cmd_block.simps)

text \<open>
  C33. A \<open>selftest\<close> that runs to its end exits with 0 or 1 and leaves the per-source state, the
  counters and the settings alone, but it removes the entries 203.0.113.42/32 and 198.51.100.0/24
  from the lists also when they were there before, and a rule for UDP port 65001 that was there
  before is replaced by a deny rule with no hits; without such a rule the port rules are as before.
\<close>

theorem selftest_side_effects:
  assumes "cli_kernel os is_map kind ksize vsize okw view pos fw clk" "okw w"
    and "fst (fw_list_port_rules os fw w) = Inr rows" "cmd_selftest os fw (out, w) = (Inr rc, (out', w'))"
  shows "rc \<in> {0, 1} \<and> (\<forall>m \<in> {fw_srcstate fw, fw_stats fw, fw_config fw}. view w' (bm_fd m) = view w (bm_fd m)) \<and>
    map_of (view w' (bm_fd (fw_allowlist fw))) = (map_of (view w (bm_fd (fw_allowlist fw))))([24, 0, 0, 0, 198, 51, 100, 0] := None) \<and>
    map_of (view w' (bm_fd (fw_blocklist fw))) = (map_of (view w (bm_fd (fw_blocklist fw))))([32, 0, 0, 0, 203, 0, 113, 42] := None) \<and>
    map_of (view w' (bm_fd (fw_portrules fw))) = (if list_ex is_test_rule rows
      then (map_of (view w (bm_fd (fw_portrules fw))))
        ([17, 0, 233, 253] \<mapsto> concat (replicate (bm_ncpu (fw_portrules fw)) (port_bytes DENY)))
      else map_of (view w (bm_fd (fw_portrules fw))))"
proof -
  have fwk: "fw_kernel os is_map kind ksize vsize okw view pos fw" using assms(1) by (simp add: cli_kernel_def)
  have "view w' (bm_fd m) = view w (bm_fd m)" if "m \<in> {fw_srcstate fw, fw_stats fw, fw_config fw}" for m
    using io_stepsD [OF cli_kernel.only_selftest [OF assms(1)] assms(4)] assms(2) that fw_kernel.maps_differ [OF fwk]
    by (auto simp: outer_rel_def cli_kernel.only_def [OF assms(1)])
  with cli_kernel.selftest_run [OF assms] show ?thesis
    unfolding TEST_NET_def TEST_HOST_def TEST_RULE_def by blast
qed

abbreviation tested :: "int result \<times> string \<times> kernel" where
  "tested \<equiv> cmd_selftest ref_os ref_fw ([], boot_kernel)"

theorem selftest_side_effects_witness:
  "fst tested \<in> {Inr 0, Inr 1} \<and> map_of (ref_view (snd (snd tested)) 3) = Map.empty \<and>
   map_of (ref_view (snd (snd tested)) 4) = Map.empty \<and> map_of (ref_view (snd (snd tested)) 5) = Map.empty"
proof -
  obtain rc where "fst tested = Inr rc" using selftest_boot_ends by (cases "fst tested") auto
  then have run: "tested = (Inr rc, (fst (snd tested), snd (snd tested)))" by (metis prod.collapse)
  obtain rows where rows: "fst (fw_list_port_rules ref_os ref_fw boot_kernel) = Inr rows" "set rows = {}"
    using rf.list_port_rules_run [OF boot_kernel_ok prod.collapse [symmetric]] by (auto simp: ref_fw_simps boot_views)
  from selftest_side_effects [OF ref_cli_laws boot_kernel_ok rows(1) run] rows(2) \<open>fst tested = Inr rc\<close> show ?thesis
    by (auto simp: ref_fw_simps boot_views)
qed

text \<open>
  Two processes that change the settings at once: when one runs a whole \<open>update_config\<close>
  between the other's reading and writing, the settings at the end are what the other read with
  its own changes, and every change of the first to a setting that the second does not name is
  lost, although both report success.
\<close>

theorem config_lost_update:
  assumes "fw_kernel os is_map kind ksize vsize okw view pos fw" "okw w" "fst (fw_read_config os fw w) = Inr cfg"
    and "distinct (map fst changes)" "fw_update_config os fw others w = (Inr theirs, w1)"
    and "config_write os fw changes cfg w1 = (Inr mine, w2)"
  shows "mine = map (\<lambda>k. (k, dict_get changes k (dict_get cfg k 0))) CONFIG_FIELDS \<and> fst (fw_read_config os fw w2) = Inr mine"
  using fw_kernel.lost_update [OF assms(1-4) assms(5,6)] .

lemma ref_update_settings:
  assumes "kernel_ok w" "distinct (map fst changes)" "list_all (\<lambda>(k, v). List.member CONFIG_FIELDS k) changes"
    and "map fst old = CONFIG_FIELDS" "config_fits (map snd (dict_of changes old))"
  obtains w' where "config_write ref_os ref_fw changes old w = (Inr (dict_of changes old), w')" "kernel_ok w'"
  using rf.config_write_run [OF assms(1,4) prod.collapse [symmetric] refl, of changes] assms(3,5) that
  by (metis prod.collapse)

theorem config_lost_update_witness:
  "\<exists>w1 w2 theirs mine. fw_update_config ref_os ref_fw [(''rate_pps'', 5000)] boot_kernel = (Inr theirs, w1) \<and>
     config_write ref_os ref_fw [(''default_policy'', 1)]
       [(''rate_pps'', 20000), (''burst_pkts'', 40000), (''features'', 95), (''aggressiveness'', 0), (''default_policy'', 0)] w1 = (Inr mine, w2) \<and>
     fst (fw_read_config ref_os ref_fw w2) =
       Inr [(''rate_pps'', 20000), (''burst_pkts'', 40000), (''features'', 95), (''aggressiveness'', 0), (''default_policy'', 1)]"
proof -
  let ?cfg = "[(''rate_pps'', 20000), (''burst_pkts'', 40000), (''features'', 95), (''aggressiveness'', 0), (''default_policy'', 0)] :: (string, int) dict"
  have keys: "map fst ?cfg = CONFIG_FIELDS" by (simp add: CONFIG_FIELDS_def)
  obtain w0 where rd: "fw_read_config ref_os ref_fw boot_kernel = (Inr ?cfg, w0)" "kernel_ok w0"
    using boot_settings rf.read_config_run [OF boot_kernel_ok prod.collapse [symmetric]] by (metis prod.collapse)
  have fits: "config_fits (map snd (dict_of [(''rate_pps'', 5000)] ?cfg))" "config_fits (map snd (dict_of [(''default_policy'', 1)] ?cfg))"
    by (simp_all add: dict_set_def config_fits_def)
  obtain w1 where up: "config_write ref_os ref_fw [(''rate_pps'', 5000)] ?cfg w0 = (Inr (dict_of [(''rate_pps'', 5000)] ?cfg), w1)" "kernel_ok w1"
    by (rule ref_update_settings [OF rd(2) _ _ keys fits(1)]) (simp_all add: CONFIG_FIELDS_def List.member_iff)
  obtain w2 where wr: "config_write ref_os ref_fw [(''default_policy'', 1)] ?cfg w1 = (Inr (dict_of [(''default_policy'', 1)] ?cfg), w2)"
    by (rule ref_update_settings [OF up(2) _ _ keys fits(2)]) (simp_all add: CONFIG_FIELDS_def List.member_iff)
  have full: "fw_update_config ref_os ref_fw [(''rate_pps'', 5000)] boot_kernel = (Inr (dict_of [(''rate_pps'', 5000)] ?cfg), w1)"
    using rd(1) up(1) by (simp add: fw_update_config_def io_simps)
  show ?thesis
    using config_lost_update [OF ref_fw_laws boot_kernel_ok boot_settings _ full wr] full wr
    by (auto simp: CONFIG_FIELDS_def dict_get_Cons dict_set_def)
qed

end
