(* ===== verification/Controller.thy ===== *)
theory Controller
  imports Aggressiveness Blocker Detect Fwctl_Props
begin

text \<open>
  \<open>class Controller\<close> of \<open>control/controller.py\<close>: one step per second reads the counters,
  measures and judges the sources, lets the blocker act, derives the load, lets the tiers act
  on the rate limit, and cleans up. The fields of the object are a record, the step is a program
  over that record and the world, and the clocks are parameters beside the operating system.
  A turn of the loop returns the screen it prints.
\<close>

section \<open>The class\<close>

record ctl_args =
  arg_dry_run :: bool
  arg_no_auto_tune :: bool
  arg_allow :: "string list"
  arg_interval :: rat
  arg_top :: int
  arg_iface :: string

record controller =
  ctl_window :: window
  ctl_blocker :: blocker
  ctl_aggr :: aggr
  ctl_cycles :: int
  ctl_prev :: "((string, int) dict \<times> rat) option"
  ctl_pps :: rat
  ctl_drop_ratio :: rat

text \<open>What the blocker sees of the firewall it was given.\<close>

definition blocker_env :: "'w os \<Rightarrow> 'w clocks \<Rightarrow> firewall \<Rightarrow> 'w blk_env" where
  "blocker_env os clk fw = \<lparr>
     env_time = clk_time clk,
     env_strftime = clk_strftime clk,
     env_is_allowed = fw_is_allowed os fw,
     env_block = (\<lambda>ip duration reason. fw_block os fw ip (Fin (of_int duration)) reason)\<rparr>"

definition controller_init :: "'w os \<Rightarrow> ctl_args \<Rightarrow> ('w, firewall \<times> controller) io" where
  "controller_init os args =
     io_bind (firewall_open os PIN_DIR) (\<lambda>fw.
     io_seq (io_for (arg_allow args) (fw_allow os fw))
    (io_return (fw, \<lparr>ctl_window = window_init, ctl_blocker = blocker_init (arg_dry_run args),
       ctl_aggr = aggr_init, ctl_cycles = 0, ctl_prev = None, ctl_pps = 0, ctl_drop_ratio = 0\<rparr>)))"

text \<open>Calls on the objects in the fields.\<close>

definition with_blocker :: "(blocker \<times> 'w, 'a) io \<Rightarrow> (controller \<times> 'w, 'a) io" where
  "with_blocker m = (\<lambda>(c, w). case m (ctl_blocker c, w) of (r, (b, w')) \<Rightarrow> (r, (c\<lparr>ctl_blocker := b\<rparr>, w')))"

definition with_window :: "(window, 'a) io \<Rightarrow> (controller \<times> 'w, 'a) io" where
  "with_window m = (\<lambda>(c, w). case m (ctl_window c) of (r, x) \<Rightarrow> (r, (c\<lparr>ctl_window := x\<rparr>, w)))"

definition with_aggr :: "(aggr, 'a) io \<Rightarrow> (controller \<times> 'w, 'a) io" where
  "with_aggr m = (\<lambda>(c, w). case m (ctl_aggr c) of (r, x) \<Rightarrow> (r, (c\<lparr>ctl_aggr := x\<rparr>, w)))"

text \<open>The load over the last interval.\<close>

definition stats_delta :: "(string, int) dict \<Rightarrow> (string, int) dict \<Rightarrow> (string, int) dict result" where
  "stats_delta stats old =
     result_list (\<lambda>(k, v). result_map (\<lambda>o'. (k, v - o')) (dict_index old k)) stats"

definition measure_load :: "(string, int) dict \<Rightarrow> rat \<Rightarrow> controller \<Rightarrow> controller result" where
  "measure_load stats now self =
     (case ctl_prev self of
        None \<Rightarrow> Inr self
      | Some (old, before) \<Rightarrow>
          result_bind (stats_delta stats old) (\<lambda>delta.
          result_bind (result_map sum_list (result_list (dict_index delta) LIMITER_INPUT)) (\<lambda>load.
          result_bind (dict_index delta ''rx_packets'') (\<lambda>rx.
          if rx \<ge> 0 \<and> load \<ge> 0 \<and> now > before then
            result_bind (py_truediv (fl (of_int load)) (fl (now - before))) (\<lambda>pps.
            result_bind (if load \<noteq> 0
              then result_bind (dict_index delta ''drop_ratelimit'') (\<lambda>d. py_truediv (of_int d) (of_int load))
              else Inr 0) (\<lambda>ratio.
            Inr (self\<lparr>ctl_pps := pps, ctl_drop_ratio := ratio\<rparr>)))
          else Inr self))))"

definition update_load :: "(string, int) dict \<Rightarrow> rat \<Rightarrow> (controller \<times> 'w, unit) io" where
  "update_load stats now = (\<lambda>(c, w).
     case measure_load stats now c of
       Inl e \<Rightarrow> (Inl e, (c, w))
     | Inr c' \<Rightarrow> (Inr (), (c'\<lparr>ctl_prev := Some (stats, now)\<rparr>, w)))"

definition tune_note :: "bool \<Rightarrow> int \<Rightarrow> int \<Rightarrow> int \<Rightarrow> string" where
  "tune_note dry lvl rate burst =
     (if dry then ''would set'' else ''aggressiveness ->'') @ '' L'' @ py_str_int lvl @
     '' (rate '' @ py_str_int rate @ '' pps, burst '' @ py_str_int burst @ '')''"

definition auto_tune :: "'w os \<Rightarrow> 'w clocks \<Rightarrow> firewall \<Rightarrow> ctl_args \<Rightarrow> (controller \<times> 'w, unit) io" where
  "auto_tune os clk fw args =
     (if arg_no_auto_tune args then io_return ()
      else
        io_bind io_self (\<lambda>self.
        io_bind (with_aggr (aggr_update (ctl_pps self) (ctl_drop_ratio self))) (\<lambda>changed.
        if \<not> changed then io_return ()
        else
          io_bind io_self (\<lambda>self.
          io_bind (io_of (aggr_limits (ctl_aggr self))) (\<lambda>(rate, burst).
          io_seq (if arg_dry_run args then io_return ()
                  else io_seq (io_outer (fw_update_config os fw
                         [(''rate_pps'', rate), (''burst_pkts'', burst), (''aggressiveness'', level (ctl_aggr self))]))
                       (io_return ()))
         (with_blocker (blocker_note (blocker_env os clk fw)
            (tune_note (arg_dry_run args) (level (ctl_aggr self)) rate burst))))))))"

definition clean_up :: "'w os \<Rightarrow> firewall \<Rightarrow> ctl_args \<Rightarrow> (controller \<times> 'w, unit) io" where
  "clean_up os fw args =
     io_bind io_self (\<lambda>self.
     if ctl_cycles self mod 5 = 0 \<and> \<not> arg_dry_run args then
       io_seq (io_outer (fw_remove_expired_blocks os fw))
      (io_seq (io_outer (fw_remove_idle_states os fw (Fin (of_int IDLE_TIMEOUT_S))))
      (io_return ()))
     else io_return ())"

type_synonym step_result = "(string, row) dict \<times> verdicts \<times> (string, int) dict"

definition controller_step ::
    "'w os \<Rightarrow> 'w clocks \<Rightarrow> firewall \<Rightarrow> ctl_args \<Rightarrow> (controller \<times> 'w, step_result) io" where
  "controller_step os clk fw args =
     io_bind (io_outer (fw_read_stats os fw)) (\<lambda>stats.
     io_bind (io_outer (io_read (clk_monotonic clk))) (\<lambda>now.
     io_bind (io_outer (fw_read_states os fw)) (\<lambda>states.
     io_bind (io_outer (ktime_ns os)) (\<lambda>now_ns.
     io_bind (with_window (window_update states now_ns)) (\<lambda>rows.
     let verdicts = map (\<lambda>(ip, r). (ip, classify r)) rows in
     io_seq (with_blocker (blocker_update (blocker_env os clk fw) verdicts))
    (io_seq (update_load stats now)
    (io_seq (auto_tune os clk fw args)
    (io_seq (clean_up os fw args)
    (io_seq (io_modify (\<lambda>self. self\<lparr>ctl_cycles := ctl_cycles self + 1\<rparr>))
    (io_return (rows, verdicts, stats)))))))))))"

subsection \<open>The screen\<close>

definition LEVEL_COLOURS :: "string list" where
  "LEVEL_COLOURS = [GREEN, GREEN, YELLOW, RED]"

text \<open>The lines of \<open>LOAD\<close> and \<open>COUNTERS\<close>.\<close>

definition load_line :: "controller \<Rightarrow> ctl_args \<Rightarrow> (string, int) dict \<Rightarrow> string result" where
  "load_line self args cfg =
     (let lvl = level (ctl_aggr self) in
      result_bind (py_index LEVEL_COLOURS lvl) (\<lambda>colour.
      result_bind (dict_index cfg ''rate_pps'') (\<lambda>rate.
      result_bind (dict_index cfg ''burst_pkts'') (\<lambda>burst.
      result_bind (cfg_policy_name cfg) (\<lambda>policy.
      Inr (concat [BOLD, '' LOAD'', RESET, ''     '', human (ctl_pps self), '' pps at the rate limiter   rate-limited '',
        py_rjust 5 (py_fixed 1 (fl (ctl_drop_ratio self * 100))), ''%   aggressiveness '', colour, ''L'', py_str_int lvl, RESET,
        if arg_dry_run args then '' (not applied)'' else [], ''   rate '', py_str_int rate, '' pps/src   burst '', py_str_int burst,
        ''   policy '', policy]))))))"

definition counters_line :: "(string, int) dict \<Rightarrow> string result" where
  "counters_line stats =
     result_bind (result_list (\<lambda>name. result_map human_int (dict_index stats name))
       [''rx_packets'', ''passes_total'', ''drops_total'', ''drop_blocklist'', ''drop_port_rule'', ''drop_default'',
        ''drop_ratelimit'', ''drop_proto'', ''drop_malformed'']) (\<lambda>h.
     Inr (concat [BOLD, '' COUNTERS'', RESET, '' rx '', h ! 0, ''   pass '', h ! 1, ''   '', RED, ''drop '', h ! 2, RESET, ''   '',
       DIM, ''(blocklist '', h ! 3, '' | port rule '', h ! 4, '' | default '', h ! 5, '' | rate '', h ! 6, '' | flags '', h ! 7,
       '' | bad '', h ! 8, '')'', RESET]))"

text \<open>The status column of one source; the questions are asked in this order.\<close>

definition source_status ::
    "'w os \<Rightarrow> 'w clocks \<Rightarrow> firewall \<Rightarrow> verdicts \<Rightarrow> ip \<Rightarrow> (controller \<times> 'w, string) io" where
  "source_status os clk fw vs ip =
     io_bind (io_outer (fw_is_allowed os fw ip)) (\<lambda>okay.
     if okay then io_return (GREEN @ ''allowlisted'' @ RESET)
     else io_bind (io_outer (fw_is_blocked os fw ip)) (\<lambda>blocked.
     if blocked then io_return (RED @ ''BLOCKED'' @ RESET)
     else io_bind (with_blocker (blocker_is_blocked (blocker_env os clk fw) ip)) (\<lambda>would.
     if would then io_return (YELLOW @ ''would be blocked'' @ RESET)
     else case dict_get vs ip None of
       Some reason \<Rightarrow> io_bind io_self (\<lambda>self.
         io_return (concat [YELLOW, reason, RESET, '' '', DIM, ''['', py_str_int (dict_get (strikes (ctl_blocker self)) ip 0), ''/'',
           py_str_int STRIKES, '']'', RESET]))
     | None \<Rightarrow> io_return (DIM @ ''ok'' @ RESET))))"

definition source_line ::
    "'w os \<Rightarrow> 'w clocks \<Rightarrow> firewall \<Rightarrow> verdicts \<Rightarrow> ip \<times> row \<Rightarrow> (controller \<times> 'w, string) io" where
  "source_line os clk fw vs = (\<lambda>(ip, r).
     io_bind (source_status os clk fw vs ip) (\<lambda>tag.
     io_return (concat ['' '', py_ljust 16 ip, py_rjust 9 (human (row_pps r)), py_rjust 8 (py_fixed 0 (row_mean_len r)),
       py_rjust 7 (py_fixed 0 (fl (row_syn_ratio r * 100))), py_rjust 7 (py_fixed 0 (min (row_syn_fin_ratio r) 999)),
       py_rjust 7 (py_str_int (row_port_spread r)), py_rjust 7 (py_fixed 0 (fl (row_drop_ratio r * 100))), ''  '', tag])))"

definition block_line :: "block_entry \<Rightarrow> string" where
  "block_line b =
     concat [''   '', RED, py_ljust 20 (be_cidr b), RESET,
       py_rjust 14 (case be_remaining_s b of None \<Rightarrow> ''permanent'' | Some t \<Rightarrow> py_fixed 0 t @ ''s left''), ''   '',
       py_rjust 8 (human_int (be_hits b)), '' pkts dropped   '', DIM, be_reason b, RESET]"

definition log_line :: "string \<times> string \<Rightarrow> string" where
  "log_line = (\<lambda>(ts, msg). concat [''   '', DIM, ts, RESET, ''  '', msg])"

text \<open>The whole screen, from what it shows.\<close>

definition screen_text ::
    "controller \<Rightarrow> ctl_args \<Rightarrow> string \<Rightarrow> string \<Rightarrow> int \<Rightarrow> string list \<Rightarrow> block_entry list \<Rightarrow> string" where
  "screen_text self args load counts full sources blocked =
     py_join newline
      ([concat [CLEAR, BOLD, '' Adaptive XDP firewall'', RESET, DIM, '' - control plane'', RESET,
          if arg_dry_run args then concat [''  '', YELLOW, ''DRY RUN (nothing is written)'', RESET] else []], [], load, counts]
       @ (if full \<noteq> 0 then [concat [''   '', YELLOW, ''srcstate map full '', py_commas full, '' times'', RESET]] else [])
       @ [[], concat [BOLD, '' SOURCES'', RESET],
          concat ['' '', py_ljust 16 ''source'', py_rjust 9 ''pps'', py_rjust 8 ''B/pkt'', py_rjust 7 ''syn%'', py_rjust 7 ''s/f'',
            py_rjust 7 ''ports'', py_rjust 7 ''drop%'', ''  status'']]
       @ sources
       @ (if sources = [] then [concat ['' '', DIM, ''(no traffic in the last second)'', RESET]] else [])
       @ [[], concat [BOLD, '' BLOCKLIST'', RESET, '' '', DIM, ''('', py_str_int (int (length blocked)), '' active)'', RESET]]
       @ map block_line (take 8 blocked)
       @ [[], concat [BOLD, '' RECENT ACTIONS'', RESET]]
       @ map log_line (drop (length (log (ctl_blocker self)) - 6) (log (ctl_blocker self)))
       @ [[], concat ['' '', DIM, ''Ctrl-C to stop. The firewall keeps running without this process.'', RESET]])"

definition controller_draw ::
    "'w os \<Rightarrow> 'w clocks \<Rightarrow> firewall \<Rightarrow> ctl_args \<Rightarrow> step_result \<Rightarrow> (controller \<times> 'w, string) io" where
  "controller_draw os clk fw args = (\<lambda>(rows, vs, stats).
     io_bind (io_outer (fw_read_config os fw)) (\<lambda>cfg.
     io_bind (io_outer (fw_list_blocked os fw False)) (\<lambda>listed.
     let blocked = sort_key (\<lambda>b. - be_hits b) listed in
     io_bind io_self (\<lambda>self.
     io_bind (io_of (load_line self args cfg)) (\<lambda>load.
     io_bind (io_of (counters_line stats)) (\<lambda>counts.
     io_bind (io_of (dict_index stats ''state_full'')) (\<lambda>full.
     let ranked = py_slice_to (arg_top args) (sort_key (\<lambda>(ip, r). - row_pps r) rows) in
     io_bind (io_list ranked (source_line os clk fw vs)) (\<lambda>sources.
     io_return (screen_text self args load counts full sources blocked)))))))))"

subsection \<open>The loop\<close>

text \<open>
  One turn of the loop in \<open>run\<close>, with the screen it prints, and \<open>n\<close> turns, after which a signal
  has cleared the flag, the last lines are printed and the maps are closed.
\<close>

definition controller_turn :: "'w os \<Rightarrow> 'w clocks \<Rightarrow> firewall \<Rightarrow> ctl_args \<Rightarrow> (controller \<times> 'w, string) io" where
  "controller_turn os clk fw args =
     io_bind (io_outer (io_read (clk_time clk))) (\<lambda>start.
     io_bind (controller_step os clk fw args) (\<lambda>seen.
     io_bind (controller_draw os clk fw args seen) (\<lambda>screen.
     io_bind (io_outer (io_read (clk_time clk))) (\<lambda>stop.
     io_seq (io_outer (io_read (\<lambda>w. ((), clk_sleep clk (max 0 (fl (arg_interval args - fl (stop - start)))) w))))
    (io_return screen)))))"

fun controller_loop :: "nat \<Rightarrow> 'w os \<Rightarrow> 'w clocks \<Rightarrow> firewall \<Rightarrow> ctl_args \<Rightarrow> (controller \<times> 'w, string list) io" where
  "controller_loop 0 os clk fw args = io_return []"
| "controller_loop (Suc n) os clk fw args =
     io_bind (controller_turn os clk fw args) (\<lambda>screen.
     io_bind (controller_loop n os clk fw args) (\<lambda>screens. io_return (screen # screens)))"

definition last_words :: "ctl_args \<Rightarrow> controller \<Rightarrow> string list" where
  "last_words args self =
     [newline @ ''control plane stopped. The XDP firewall is still attached and enforcing.'',
      concat [''  '', if arg_dry_run args then ''would have blocked'' else ''blocks issued'', '' this session: '',
        py_str_int (blocks_issued (ctl_blocker self))],
      concat [''  to unload it: sudo ./bin/fwload -i '', arg_iface args, '' -u'']]"

definition controller_run :: "nat \<Rightarrow> 'w os \<Rightarrow> 'w clocks \<Rightarrow> firewall \<Rightarrow> ctl_args \<Rightarrow> (controller \<times> 'w, string list) io" where
  "controller_run n os clk fw args =
     io_bind (controller_loop n os clk fw args) (\<lambda>screens.
     io_bind io_self (\<lambda>self.
     io_seq (io_outer (firewall_close os fw)) (io_return (screens @ last_words args self))))"

text \<open>
  \<open>main\<close> after the command line has been parsed: its exit code, or the exception that ends it.
  Only an \<open>OSError\<close> is turned into an exit code; raising the priority has no effect on the model.
\<close>

fun main_exit :: "exn \<Rightarrow> int result" where
  "main_exit (BpfError _ _) = Inr 1"
| "main_exit OSError = Inr 1"
| "main_exit e = Inl e"

definition controller_main :: "nat \<Rightarrow> 'w os \<Rightarrow> 'w clocks \<Rightarrow> bool \<Rightarrow> ctl_args \<Rightarrow> ('w, int) io" where
  "controller_main n os clk is_root args w =
     (if \<not> is_root then (Inr 1, w)
      else case controller_init os args w of
          (Inl e, w1) \<Rightarrow> (main_exit e, w1)
        | (Inr (fw, self), w1) \<Rightarrow>
            (case controller_run n os clk fw args (self, w1) of
               (Inl e, (_, w2)) \<Rightarrow> (main_exit e, w2)
             | (Inr _, (_, w2)) \<Rightarrow> (Inr 0, w2)))"

section \<open>The controller on a kernel\<close>

definition key_of_ip :: "ip \<Rightarrow> bytes" where
  "key_of_ip ip = (case lpm_key ip of Inr k \<Rightarrow> k | Inl _ \<Rightarrow> [])"

text \<open>Whether the allowlist, with these contents, covers an address given as text.\<close>

definition allowlisted_in :: "(bytes, bytes) dict \<Rightarrow> ip \<Rightarrow> bool" where
  "allowlisted_in d ip \<longleftrightarrow>
     (case lpm_key ip of Inr k \<Rightarrow> kmap_find LPM_TRIE d k \<noteq> None | Inl _ \<Rightarrow> False)"

text \<open>
  The part of the maps that belongs to the operator: the allowlist, the port rules, the counters
  and, of the settings, the enabled stages and the default policy.
\<close>

definition operator_part ::
    "firewall \<Rightarrow> (int \<Rightarrow> (bytes, bytes) dict) \<Rightarrow>
     (bytes, bytes) dict \<times> (bytes, bytes) dict \<times> (bytes, bytes) dict \<times> int \<times> int" where
  "operator_part fw v =
     (let cfg = config_ints (the (map_of (v (bm_fd (fw_config fw))) (zeros 4))) in
      (v (bm_fd (fw_allowlist fw)), v (bm_fd (fw_portrules fw)), v (bm_fd (fw_stats fw)), cfg ! 2, cfg ! 4))"

text \<open>
  Reading a clock, sleeping and closing a descriptor change no map: what the maps look like at
  the end is then the controller's own doing.
\<close>

locale ctl_kernel = cli_kernel os is_map kind ksize vsize inv view pos fw clk
  for os :: "'w os" and is_map kind ksize vsize inv and view :: "'w \<Rightarrow> int \<Rightarrow> (bytes, bytes) dict" and pos fw
    and clk :: "'w clocks" +
  assumes monotonic_frame: "inv w \<Longrightarrow> clk_monotonic clk w = (t, w') \<Longrightarrow> inv w' \<and> view w' = view w"
    and wall_frame: "inv w \<Longrightarrow> clk_time clk w = (t, w') \<Longrightarrow> inv w' \<and> view w' = view w"
    and text_frame: "inv w \<Longrightarrow> clk_strftime clk w = (ts, w') \<Longrightarrow> inv w' \<and> view w' = view w"
begin

abbreviation env :: "'w blk_env" where
  "env \<equiv> blocker_env os clk fw"

end

sublocale ctl_kernel \<subseteq> svc: firewall_service "blocker_env os clk fw" inv
  "\<lambda>w. allowlisted_in (view w (bm_fd (fw_allowlist fw)))" "\<lambda>w. map_of (view w (bm_fd (fw_blocklist fw)))" key_of_ip
proof (unfold_locales, goal_cases)
  case (1 w t w')
  then show ?case using wall_frame by (auto simp: blocker_env_def)
next
  case (2 w ts w')
  then show ?case using text_frame by (auto simp: blocker_env_def)
next
  case (3 w ip r w')
  then show ?case using is_allowed_run by (auto simp: blocker_env_def)
next
  case (4 w ip a w')
  then show ?case
    using is_allowed_run [of w ip "Inr a" w']
    by (auto simp: blocker_env_def allowlisted_in_def split: sum.splits)
next
  case (5 w ip d reason rb w')
  have "bm_fd (fw_allowlist fw) \<noteq> bm_fd (fw_blocklist fw)" using fds_distinct by simp
  with 5 show ?case using block_run [of w ip _ reason rb w'] by (auto simp: blocker_env_def)
next
  case (6 w ip d reason w')
  then show ?case
    using block_run [OF 6(1), of ip "Fin (of_int d)" reason "Inr ()" w'] by (auto simp: blocker_env_def key_of_ip_def)
next
  case (7 w ip d reason e w')
  then show ?case using block_run [of w ip _ reason "Inl e" w'] by (auto simp: blocker_env_def)
qed

context ctl_kernel
begin

text \<open>\<open>kept f\<close>: from a good state to a good state with the same \<open>f\<close> of the maps.\<close>

definition kept :: "((int \<Rightarrow> (bytes, bytes) dict) \<Rightarrow> 'k) \<Rightarrow> 'w \<Rightarrow> 'w \<Rightarrow> bool" where
  "kept f w w' \<longleftrightarrow> (inv w \<longrightarrow> inv w' \<and> f (view w') = f (view w))"

lemma kept_preorder: "preorder_on_states (kept f)"
  by (auto simp: preorder_on_states_def kept_def)

lemma kept_reads:
  assumes "\<And>w r w'. inv w \<Longrightarrow> m w = (r, w') \<Longrightarrow> inv w' \<and> view w' = view w"
  shows "io_steps (kept f) m"
proof (rule io_stepsI)
  fix w r w'
  assume "m w = (r, w')"
  with assms [of w r w'] show "kept f w w'" by (auto simp: kept_def)
qed

lemma reads_keep:
  "io_steps (kept f) (fw_read_stats os fw)" "io_steps (kept f) (fw_read_states os fw)"
  "io_steps (kept f) (ktime_ns os)" "io_steps (kept f) (io_read (clk_monotonic clk))"
  "io_steps (kept f) (fw_is_allowed os fw ip)" "io_steps (kept f) (io_read (clk_time clk))"
  "io_steps (kept f) (io_read (clk_strftime clk))"
proof -
  show "io_steps (kept f) (fw_read_stats os fw)" by (rule kept_reads) (auto dest: read_stats_run)
  show "io_steps (kept f) (fw_read_states os fw)" by (rule kept_reads) (auto dest: read_states_run)
  show "io_steps (kept f) (ktime_ns os)"
  proof (rule kept_reads)
    fix w r w'
    assume "inv w" "ktime_ns os w = (r, w')"
    then show "inv w' \<and> view w' = view w"
      using ktime_inv [of w "fst (os_ktime os w)" w'] ktime_view [of w "fst (os_ktime os w)" w']
      by (auto simp: ktime_ns_def io_simps)
  qed
  show "io_steps (kept f) (io_read (clk_monotonic clk))"
    by (rule kept_reads) (auto simp: io_simps intro: monotonic_frame dest: monotonic_frame [OF _ prod.collapse [symmetric]])
  show "io_steps (kept f) (fw_is_allowed os fw ip)" by (rule kept_reads) (auto dest: is_allowed_run)
  show "io_steps (kept f) (io_read (clk_time clk))"
    by (rule kept_reads) (auto simp: io_simps dest: wall_frame [OF _ prod.collapse [symmetric]])
  show "io_steps (kept f) (io_read (clk_strftime clk))"
    by (rule kept_reads) (auto simp: io_simps dest: text_frame [OF _ prod.collapse [symmetric]])
qed

lemma env_keep:
  "kept f w (snd (env_time env w))" "kept f w (snd (env_strftime env w))" "kept f w (snd (env_is_allowed env ip w))"
  using reads_keep(5,6,7) [where f = f]
  by (auto simp: io_steps_def io_simps blocker_env_def)

text \<open>
  The steps of the controller. With \<open>P = (\<lambda>_. True)\<close> the maps keep \<open>f\<close> in any case, with
  \<open>P = (\<lambda>dry. dry)\<close> in a dry run.
\<close>

definition dry :: "controller \<times> 'w \<Rightarrow> bool" where
  "dry x = dry_run (ctl_blocker (fst x))"

definition ctl_rel ::
    "(bool \<Rightarrow> bool) \<Rightarrow> ((int \<Rightarrow> (bytes, bytes) dict) \<Rightarrow> 'k) \<Rightarrow> controller \<times> 'w \<Rightarrow> controller \<times> 'w \<Rightarrow> bool" where
  "ctl_rel P f x y \<longleftrightarrow> dry y = dry x \<and> (P (dry x) \<longrightarrow> kept f (snd x) (snd y))"

lemma ctl_preorder: "preorder_on_states (ctl_rel P f)"
  unfolding preorder_on_states_def ctl_rel_def kept_def by auto

lemma ctl_trans: "ctl_rel P f x y \<Longrightarrow> ctl_rel P f y z \<Longrightarrow> ctl_rel P f x z"
  using ctl_preorder [of P f] unfolding preorder_on_states_def by blast

lemma ctl_outer: "io_steps (kept f) m \<Longrightarrow> io_steps (ctl_rel P f) (io_outer m)"
  by (auto simp: io_steps_def ctl_rel_def dry_def io_outer_apply)

lemma ctl_self: "io_steps (ctl_rel P f) io_self"
  by (auto simp: io_steps_def ctl_rel_def dry_def kept_def io_simps)

lemma ctl_modify:
  "(\<And>c. dry_run (ctl_blocker (g c)) = dry_run (ctl_blocker c)) \<Longrightarrow> io_steps (ctl_rel P f) (io_modify g)"
  by (auto simp: io_steps_def ctl_rel_def dry_def kept_def io_simps)

lemma ctl_window_aggr: "io_steps (ctl_rel P f) (with_window m)" "io_steps (ctl_rel P f) (with_aggr k)"
  by (auto simp: io_steps_def ctl_rel_def dry_def kept_def with_window_def with_aggr_def split: prod.splits)

lemma ctl_load: "io_steps (ctl_rel P f) (update_load stats now)"
proof -
  have "ctl_blocker c' = ctl_blocker c" if "measure_load stats now c = Inr c'" for c c'
    using that by (auto simp: measure_load_def result_bind_Inr split: option.splits if_splits)
  then show ?thesis
    by (auto simp: io_steps_def ctl_rel_def dry_def kept_def update_load_def split: sum.splits)
qed

lemma ctl_note: "io_steps (ctl_rel P f) (with_blocker (blocker_note env msg))"
proof (rule io_stepsI)
  fix x r y
  assume "with_blocker (blocker_note env msg) x = (r, y)"
  then show "ctl_rel P f x y"
    using env_keep(2) [of f "snd x"]
    by (cases x) (auto simp: with_blocker_def blocker_note_def io_simps ctl_rel_def dry_def)
qed

lemma ctl_block:
  assumes "\<And>ip d w. P False \<Longrightarrow> kept f w (snd (env_block env ip d BLOCK_AUTO w))"
  shows "io_steps (ctl_rel P f) (with_blocker (blocker_update env vs))"
proof (rule io_stepsI)
  fix x r y
  assume run: "with_blocker (blocker_update env vs) x = (r, y)"
  obtain c w where x: "x = (c, w)" by fastforce
  obtain r1 b' w' where up: "blocker_update env vs (ctl_blocker c, w) = (r1, (b', w'))" by (metis prod.exhaust)
  have y: "y = (c\<lparr>ctl_blocker := b'\<rparr>, w')" using run up x by (simp add: with_blocker_def)
  have trivial: "dry_run b' = dry_run (ctl_blocker c)"
    using update_steps [OF _ _ _ _ _ up, of "\<lambda>_ _. True"] by (simp add: preorder_on_states_def)
  show "ctl_rel P f x y"
  proof (cases "P (dry x)")
    case True
    then have "kept f w (snd (env_block env ip d BLOCK_AUTO w))" if "\<not> dry_run (ctl_blocker c)" for ip d w
      using assms that x by (simp add: dry_def)
    then have "kept f w w'" using update_steps [OF kept_preorder env_keep _ up] by blast
    with trivial show ?thesis by (simp add: ctl_rel_def dry_def x y)
  qed (use trivial in \<open>simp add: ctl_rel_def dry_def x y\<close>)
qed

text \<open>A write that \<open>P\<close> allows to ignore: the arguments say whether this is a dry run.\<close>

lemma step_steps:
  assumes block: "\<And>ip d w. P False \<Longrightarrow> kept f w (snd (env_block env ip d BLOCK_AUTO w))"
    and config: "\<And>rate burst lvl. \<not> arg_dry_run args \<Longrightarrow> io_steps (kept f) (fw_update_config os fw
      [(''rate_pps'', rate), (''burst_pkts'', burst), (''aggressiveness'', lvl)])"
    and clean: "\<not> arg_dry_run args \<Longrightarrow> io_steps (kept f) (fw_remove_expired_blocks os fw)"
      "\<not> arg_dry_run args \<Longrightarrow> io_steps (kept f) (fw_remove_idle_states os fw (Fin (of_int IDLE_TIMEOUT_S)))"
  shows "io_steps (ctl_rel P f) (controller_step os clk fw args)"
proof -
  note pre = ctl_preorder [of P f]
  note basics = io_steps_basic [OF pre] io_steps_bind [OF pre] io_steps_seq [OF pre]
    ctl_outer ctl_self ctl_window_aggr ctl_load ctl_note ctl_block [OF block] reads_keep
  have "io_steps (ctl_rel P f) (auto_tune os clk fw args)"
    unfolding auto_tune_def
    by (intro basics io_steps_if config) (auto simp: case_prod_beta intro!: basics io_steps_if config split: prod.splits)
  moreover have "io_steps (ctl_rel P f) (clean_up os fw args)"
    unfolding clean_up_def by (intro basics io_steps_if clean) auto
  moreover have "io_steps (ctl_rel P f) (io_modify (\<lambda>self. self\<lparr>ctl_cycles := ctl_cycles self + 1\<rparr>))"
    by (rule ctl_modify) simp
  ultimately show ?thesis
    unfolding controller_step_def Let_def by (intro basics)
qed

text \<open>Drawing, sleeping and closing only read.\<close>

lemma more_reads_keep:
  "io_steps (kept f) (fw_read_config os fw)" "io_steps (kept f) (fw_list_blocked os fw b)"
  "io_steps (kept f) (fw_is_blocked os fw ip)" "io_steps (kept f) (io_read (\<lambda>w. ((), clk_sleep clk t w)))"
  "io_steps (kept f) (firewall_close os fw)"
proof -
  note pre = kept_preorder [of f]
  show "io_steps (kept f) (fw_read_config os fw)" by (rule kept_reads) (auto dest: read_config_run)
  have "io_steps (kept f) (bpfmap_items os (fw_blocklist fw) 0)"
    by (rule kept_reads) (use items_all [OF _ blocklist_map(1)] in blast)
  then show "io_steps (kept f) (fw_list_blocked os fw b)"
    unfolding fw_list_blocked_def
    by (intro io_steps_bind [OF pre] reads_keep io_steps_basic [OF pre])
  show "io_steps (kept f) (fw_is_blocked os fw ip)"
  proof (cases "lpm_key ip")
    case (Inl e)
    then show ?thesis by (auto simp: fw_is_blocked_def io_steps_def io_simps kept_def)
  next
    case (Inr k)
    show ?thesis by (rule kept_reads) (use is_blocked_run [OF _ Inr] in blast)
  qed
  show "io_steps (kept f) (io_read (\<lambda>w. ((), clk_sleep clk t w)))"
    by (rule kept_reads) (use sleeping in \<open>auto simp: io_simps\<close>)
  have "io_steps (kept f) (os_close os fd)" for fd by (rule kept_reads) (use closing in blast)
  then have "io_steps (kept f) (bpfmap_close os m)" for m
    unfolding bpfmap_close_def pinned_close_def
    by (intro io_steps_bind [OF pre] io_steps_seq [OF pre] io_steps_if io_steps_basic [OF pre])
  then show "io_steps (kept f) (firewall_close os fw)"
    unfolding firewall_close_def by (intro io_steps_bind [OF pre] io_steps_basic [OF pre])
qed

lemma ctl_asks: "io_steps (ctl_rel P f) (with_blocker (blocker_is_blocked env ip))"
proof (rule io_stepsI)
  fix x r y
  assume "with_blocker (blocker_is_blocked env ip) x = (r, y)"
  then show "ctl_rel P f x y"
    using env_keep(1) [of f "snd x"]
    by (cases x) (auto simp: with_blocker_def blocker_is_blocked_def io_simps ctl_rel_def dry_def)
qed

lemma draw_steps: "io_steps (ctl_rel P f) (controller_draw os clk fw args seen)"
proof -
  note pre = ctl_preorder [of P f]
  note basics = io_steps_basic [OF pre] io_steps_bind [OF pre] io_steps_seq [OF pre] io_steps_list [OF pre]
    ctl_outer ctl_self ctl_asks reads_keep more_reads_keep
  have "io_steps (ctl_rel P f) (source_status os clk fw vs ip)" for vs ip
    unfolding source_status_def by (auto intro!: basics io_steps_if split: option.splits)
  then have "io_steps (ctl_rel P f) (source_line os clk fw vs x)" for vs x
    unfolding source_line_def by (cases x) (auto intro!: basics)
  then show ?thesis
    unfolding controller_draw_def Let_def by (cases seen) (auto intro!: basics)
qed

lemma turn_steps:
  assumes "io_steps (ctl_rel P f) (controller_step os clk fw args)"
  shows "io_steps (ctl_rel P f) (controller_turn os clk fw args)"
proof -
  note pre = ctl_preorder [of P f]
  show ?thesis
    unfolding controller_turn_def
    by (intro io_steps_basic [OF pre] io_steps_bind [OF pre] io_steps_seq [OF pre] ctl_outer reads_keep more_reads_keep
        draw_steps assms)
qed

lemma run_steps:
  assumes "io_steps (ctl_rel P f) (controller_step os clk fw args)"
  shows "io_steps (ctl_rel P f) (controller_run n os clk fw args)"
proof -
  note pre = ctl_preorder [of P f]
  note basics = io_steps_basic [OF pre] io_steps_bind [OF pre] io_steps_seq [OF pre] ctl_outer ctl_self more_reads_keep
  have "io_steps (ctl_rel P f) (controller_loop n os clk fw args)"
    by (induction n) (auto intro!: basics turn_steps [OF assms])
  then show ?thesis unfolding controller_run_def by (intro basics)
qed

subsection \<open>What a step leaves alone\<close>

lemma sixty_seconds: "py_int_of_float (pyfloat_scale 1000000000 (Fin (of_int IDLE_TIMEOUT_S))) = Inr 60000000000"
proof -
  have "fl 60000000000 = 60000000000" by (rule fl_numeral) simp
  then show ?thesis by (simp add: Let_def trunc_rat_def max_double_def IDLE_TIMEOUT_S_def)
qed

lemma expired_only_blocks:
  "io_steps (\<lambda>w w'. inv w \<longrightarrow> inv w' \<and> (\<forall>fd. fd \<noteq> bm_fd (fw_blocklist fw) \<longrightarrow> view w' fd = view w fd))
    (fw_remove_expired_blocks os fw)"
  by (rule io_stepsI) (use remove_expired_run [OF _ prod.collapse [symmetric]] in blast)

lemma idle_only_states:
  "io_steps (\<lambda>w w'. inv w \<longrightarrow> inv w' \<and> (\<forall>fd. fd \<noteq> bm_fd (fw_srcstate fw) \<longrightarrow> view w' fd = view w fd))
    (fw_remove_idle_states os fw (Fin (of_int IDLE_TIMEOUT_S)))"
  by (rule io_stepsI) (use remove_idle_run [OF _ prod.collapse [symmetric] sixty_seconds] in blast)

lemma tune_keeps_operator:
  "io_steps (kept (operator_part fw)) (fw_update_config os fw
     [(''rate_pps'', rate), (''burst_pkts'', burst), (''aggressiveness'', lvl)])"
proof (rule io_stepsI)
  fix w r w'
  let ?ch = "[(''rate_pps'', rate), (''burst_pkts'', burst), (''aggressiveness'', lvl)]"
  assume run: "fw_update_config os fw ?ch w = (r, w')"
  show "kept (operator_part fw) w w'"
    unfolding kept_def
  proof
    assume "inv w"
    note u = update_config_run [OF this run refl]
    have known: "list_all (\<lambda>(k, v). List.member CONFIG_FIELDS k) ?ch" by (simp add: CONFIG_FIELDS_def)
    have at: "map_of (settings x) ''features'' = Some (config_ints (config_value x) ! 2)"
      "map_of (settings x) ''default_policy'' = Some (config_ints (config_value x) ! 4)" for x
      by (simp_all add: settings_def CONFIG_FIELDS_def config_ints_def)
    show "inv w' \<and> operator_part fw (view w') = operator_part fw (view w)"
    proof (cases "view w' = view w")
      case False
      with u known have "settings w' = dict_of ?ch (settings w)" by (auto split: if_splits)
      then have "map_of (settings w') k = map_of (settings w) k" if "k \<in> {''features'', ''default_policy''}" for k
        using that by (auto simp del: dict_of.simps simp: map_of_dict_of)
      then have "config_ints (config_value w') ! 2 = config_ints (config_value w) ! 2"
        "config_ints (config_value w') ! 4 = config_ints (config_value w) ! 4"
        using at [of w'] at [of w] by auto
      with u maps_differ show ?thesis by (auto simp: operator_part_def Let_def)
    qed (use u in simp)
  qed
qed

lemma block_keeps:
  assumes "\<And>v v'. (\<forall>fd. fd \<noteq> bm_fd (fw_blocklist fw) \<longrightarrow> v' fd = v fd) \<Longrightarrow> f v' = f v"
  shows "kept f w (snd (env_block env ip d BLOCK_AUTO w))"
  using block_run [of w ip "Fin (of_int d)" BLOCK_AUTO, OF _ prod.collapse [symmetric]] assms
  by (auto simp: kept_def blocker_env_def)

lemma step_keeps_operator: "io_steps (ctl_rel (\<lambda>_. True) (operator_part fw)) (controller_step os clk fw args)"
proof (rule step_steps)
  have frame: "operator_part fw v' = operator_part fw v"
    if "\<forall>fd. fd \<noteq> bm_fd (fw_blocklist fw) \<longrightarrow> v' fd = v fd" for v v'
    using that maps_differ by (simp add: operator_part_def)
  show "kept (operator_part fw) w (snd (env_block env ip d BLOCK_AUTO w))" for ip d w
    by (rule block_keeps) (rule frame)
  show "io_steps (kept (operator_part fw)) (fw_remove_expired_blocks os fw)"
    using expired_only_blocks frame unfolding io_steps_def kept_def by blast
  show "io_steps (kept (operator_part fw)) (fw_remove_idle_states os fw (Fin (of_int IDLE_TIMEOUT_S)))"
    using idle_only_states maps_differ unfolding io_steps_def kept_def operator_part_def by (simp add: Let_def)
qed (rule tune_keeps_operator)

lemma dry_step_writes_nothing:
  "arg_dry_run args \<Longrightarrow> io_steps (ctl_rel (\<lambda>d. d) (\<lambda>v. v)) (controller_step os clk fw args)"
  by (rule step_steps) simp_all

subsection \<open>What a step does to the blocklist\<close>

abbreviation blocks :: "(int \<Rightarrow> (bytes, bytes) dict) \<Rightarrow> (bytes, bytes) dict" where
  "blocks v \<equiv> v (bm_fd (fw_blocklist fw))"

lemma tune_keeps_blocks: "io_steps (ctl_rel (\<lambda>_. True) blocks) (auto_tune os clk fw args)"
proof -
  have cfg: "io_steps (kept blocks) (fw_update_config os fw ch)" for ch
  proof (rule io_stepsI)
    fix w r w'
    assume run: "fw_update_config os fw ch w = (r, w')"
    show "kept blocks w w'"
      unfolding kept_def using update_config_run [OF _ run refl] maps_differ by blast
  qed
  note pre = ctl_preorder [of "\<lambda>_. True" blocks]
  note basics = io_steps_basic [OF pre] io_steps_bind [OF pre] io_steps_seq [OF pre]
    ctl_outer ctl_self ctl_window_aggr ctl_note cfg
  show ?thesis
    unfolding auto_tune_def
    by (intro basics io_steps_if) (auto simp: case_prod_beta intro!: basics io_steps_if split: prod.splits)
qed

text \<open>Cleaning up takes only entries that are no longer in force.\<close>

lemma clean_up_blocks:
  assumes "clean_up os fw args (c, w) = (r, (c', w'))" "inv w"
  shows "\<exists>now. \<forall>k. map_of (blocks (view w')) k = map_of (blocks (view w)) k \<or>
    (\<exists>v. map_of (blocks (view w)) k = Some v \<and> \<not> in_force now v \<and> map_of (blocks (view w')) k = None)"
proof (cases "ctl_cycles c mod 5 = 0 \<and> \<not> arg_dry_run args")
  case True
  obtain r1 w1 where e: "fw_remove_expired_blocks os fw w = (r1, w1)" by fastforce
  obtain now w0 where t: "os_ktime os w = (now, w0)" by fastforce
  note ex = remove_expired_run [OF assms(2) t e]
  obtain r2 w2 where i: "fw_remove_idle_states os fw (Fin (of_int IDLE_TIMEOUT_S)) w1 = (r2, w2)" by fastforce
  have "blocks (view w2) = blocks (view w1)" using io_stepsD [OF idle_only_states i] ex maps_differ by blast
  moreover have "w' = w2" using assms(1) True e i ex by (auto simp: clean_up_def io_simps split: sum.splits)
  ultimately have "map_of (blocks (view w')) k = (case map_of (blocks (view w)) k of
       None \<Rightarrow> None | Some v \<Rightarrow> if in_force now v then Some v else None)" for k using ex by simp
  then show ?thesis by (intro exI [of _ now]) (auto split: option.splits)
next
  case False
  with assms(1) have "w' = w" by (auto simp: clean_up_def io_simps)
  then show ?thesis by simp
qed

lemma step_phases:
  assumes "controller_step os clk fw args (c, w) = (Inr (rows, vs, stats), (c', w'))" "inv w"
  obtains b w1 b2 w2 c3 w3 c4 where "inv w1" "view w1 = view w" "b = ctl_blocker c"
    "blocker_update env vs (b, w1) = (Inr (), (b2, w2))" "inv w2"
    "inv w3" "blocks (view w3) = blocks (view w2)" "clean_up os fw args (c3, w3) = (Inr (), (c4, w'))" "dict_ok vs"
proof -
  let ?R = "ctl_rel (\<lambda>_. True) (\<lambda>v. v)"
  note reads = ctl_outer [OF reads_keep(1)] ctl_outer [OF reads_keep(4)] ctl_outer [OF reads_keep(2)]
    ctl_outer [OF reads_keep(3)] ctl_window_aggr(1)
  from assms(1) obtain stats' x1 now x2 states x3 now_ns x4 rows' c5 w5 c6 w6 x7 c8 w8 c9 where
    st: "io_outer (fw_read_stats os fw) (c, w) = (Inr stats', x1)"
      "io_outer (io_read (clk_monotonic clk)) x1 = (Inr now, x2)"
      "io_outer (fw_read_states os fw) x2 = (Inr states, x3)"
      "io_outer (ktime_ns os) x3 = (Inr now_ns, x4)"
      "with_window (window_update states now_ns) x4 = (Inr rows', (c5, w5))"
      "with_blocker (blocker_update env (map (\<lambda>(ip, r). (ip, classify r)) rows')) (c5, w5) = (Inr (), (c6, w6))"
      "update_load stats' now (c6, w6) = (Inr (), x7)"
      "auto_tune os clk fw args x7 = (Inr (), (c8, w8))"
      "clean_up os fw args (c8, w8) = (Inr (), (c9, w'))"
      "vs = map (\<lambda>(ip, r). (ip, classify r)) rows'"
    unfolding controller_step_def Let_def io_seq_def io_bind_Inr
    by (auto simp: io_return_def io_modify_def split: prod.splits)
  have "?R (c, w) (c5, w5)"
    by (rule ctl_trans [OF io_stepsD [OF reads(1) st(1)] ctl_trans [OF io_stepsD [OF reads(2) st(2)]
          ctl_trans [OF io_stepsD [OF reads(3) st(3)] ctl_trans [OF io_stepsD [OF reads(4) st(4)]
          io_stepsD [OF reads(5) st(5)]]]]])
  then have w5: "inv w5" "view w5 = view w" using assms(2) by (auto simp: ctl_rel_def kept_def)
  have "fst x4 = c" using st(1-4) by (auto simp: io_outer_apply)
  then have c5: "ctl_blocker c5 = ctl_blocker c" using st(5) by (cases x4) (auto simp: with_window_def split: prod.splits)
  obtain b2 where up: "blocker_update env vs (ctl_blocker c5, w5) = (Inr (), (b2, w6))"
    using st(6,10) by (auto simp: with_blocker_def split: prod.splits)
  have w6: "inv w6" using svc.update_world [OF w5(1) up] by simp
  have "ctl_rel (\<lambda>_. True) blocks (c6, w6) (c8, w8)"
    by (rule ctl_trans [OF io_stepsD [OF ctl_load st(7)] io_stepsD [OF tune_keeps_blocks st(8)]])
  with w6 have "inv w8" "blocks (view w8) = blocks (view w6)" by (auto simp: ctl_rel_def kept_def)
  moreover have "dict_ok vs"
  proof -
    obtain win win' where "window_update states now_ns win = (Inr rows', win')"
      using st(5) by (cases x4) (auto simp: with_window_def split: prod.splits)
    moreover have "map fst vs = map fst rows'" by (simp add: st(10) comp_def case_prod_beta)
    ultimately show ?thesis using window_update_distinct by simp
  qed
  ultimately show thesis using w5 c5 up w6 st(9) by (intro that)
qed

lemma step_blocks:
  assumes "controller_step os clk fw args (c, w) = (Inr (rows, vs, stats), (c', w'))" "inv w"
    and "offenders = {key_of_ip ip |ip. \<exists>why. (ip, Some why) \<in> set vs \<and>
      \<not> allowlisted_in (view w (bm_fd (fw_allowlist fw))) ip \<and> 1 \<le> dict_get (strikes (ctl_blocker c)) ip 0}"
    and "added = {k. map_of (blocks (view w')) k \<noteq> None \<and> map_of (blocks (view w')) k \<noteq> map_of (blocks (view w)) k}"
  shows "finite added \<and> card added \<le> 32 \<and> added \<subseteq> offenders \<and>
    (\<exists>now. \<forall>k v. map_of (blocks (view w)) k = Some v \<and> in_force now v \<and> k \<notin> offenders \<longrightarrow>
      map_of (blocks (view w')) k = Some v)"
proof -
  from step_phases [OF assms(1,2)] obtain b w1 b2 w2 c3 w3 c4 where
    ph: "inv w1" "view w1 = view w" "blocker_update env vs (b, w1) = (Inr (), (b2, w2))"
    "inv w3" "blocks (view w3) = blocks (view w2)" "clean_up os fw args (c3, w3) = (Inr (), (c4, w'))"
    and books: "b = ctl_blocker c" "dict_ok vs" by metis
  let ?D = "{k. map_of (blocks (view w2)) k \<noteq> map_of (blocks (view w)) k}"
  have D: "finite ?D" "card ?D \<le> 32" "?D \<subseteq> offenders"
    using svc.update_world_strict [OF ph(1,3)] books(2) unfolding ph(2) assms(3) books(1) by blast+
  obtain now where now: "\<And>k. map_of (blocks (view w')) k = map_of (blocks (view w2)) k \<or>
    (\<exists>v. map_of (blocks (view w2)) k = Some v \<and> \<not> in_force now v \<and> map_of (blocks (view w')) k = None)"
    using clean_up_blocks [OF ph(6,4)] ph(5) by metis
  have sub: "added \<subseteq> ?D"
  proof
    fix k
    assume "k \<in> added"
    with now [of k] show "k \<in> ?D" by (auto simp: assms(4))
  qed
  moreover have "map_of (blocks (view w')) k = Some v"
    if "map_of (blocks (view w)) k = Some v" "in_force now v" "k \<notin> offenders" for k v
  proof -
    have "k \<notin> ?D" using that(3) D(3) by blast
    then have "map_of (blocks (view w2)) k = Some v" by (simp add: that(1))
    with now [of k] that(2) show ?thesis by auto
  qed
  ultimately show ?thesis
    using D finite_subset [OF sub D(1)] card_mono [OF D(1) sub] by auto
qed

end

section \<open>The whole program\<close>

text \<open>
  Opening the pinned maps either raises or gives the handles \<open>fw\<close>, and changes no map.
\<close>

locale pinned_kernel = ctl_kernel os is_map kind ksize vsize inv view pos fw clk
  for os :: "'w os" and is_map kind ksize vsize inv and view :: "'w \<Rightarrow> int \<Rightarrow> (bytes, bytes) dict" and pos fw
    and clk :: "'w clocks" +
  assumes opens_pinned: "inv w \<Longrightarrow> firewall_open os PIN_DIR w = (r, w') \<Longrightarrow>
      inv w' \<and> view w' = view w \<and> (\<forall>fw'. r = Inr fw' \<longrightarrow> fw' = fw)"
begin

text \<open>Only the allowlist changes, and there only these keys.\<close>

definition allows :: "bytes set \<Rightarrow> 'w \<Rightarrow> 'w \<Rightarrow> bool" where
  "allows S w w' \<longleftrightarrow> (inv w \<longrightarrow> inv w' \<and> (\<forall>fd. fd \<noteq> bm_fd (fw_allowlist fw) \<longrightarrow> view w' fd = view w fd) \<and>
     {k. map_of (allow_entries w') k \<noteq> map_of (allow_entries w) k} \<subseteq> S)"

lemma allows_preorder: "preorder_on_states (allows S)"
proof -
  have "allows S w w" for w by (simp add: allows_def)
  moreover have "allows S x z" if "allows S x y" "allows S y z" for x y z
  proof -
    let ?D = "\<lambda>x y. {k. map_of (allow_entries y) k \<noteq> map_of (allow_entries x) k}"
    have "?D x z \<subseteq> ?D x y \<union> ?D y z" by auto
    also have "\<dots> \<subseteq> S" if "inv x" using \<open>allows S x y\<close> \<open>allows S y z\<close> that by (simp add: allows_def)
    finally have "inv x \<Longrightarrow> ?D x z \<subseteq> S" .
    moreover have "inv x \<Longrightarrow> inv z \<and> (\<forall>fd. fd \<noteq> bm_fd (fw_allowlist fw) \<longrightarrow> view z fd = view x fd)"
      using that by (simp add: allows_def)
    ultimately show ?thesis by (simp add: allows_def)
  qed
  ultimately show ?thesis unfolding preorder_on_states_def by blast
qed

lemma allow_allows: "lpm_key cidr = Inr k \<Longrightarrow> k \<in> S \<Longrightarrow> io_steps (allows S) (fw_allow os fw cidr)"
proof (rule io_stepsI)
  fix w r w'
  assume k: "lpm_key cidr = Inr k" "k \<in> S" and run: "fw_allow os fw cidr w = (r, w')"
  show "allows S w w'"
  proof (cases "inv w")
    case True
    note a = allow_run [OF this k(1) run]
    then have "{k. map_of (allow_entries w') k \<noteq> map_of (allow_entries w) k} \<subseteq> S"
      using k(2) by (cases r) (simp_all, auto)
    with a show ?thesis by (simp add: allows_def)
  qed (simp add: allows_def)
qed

lemma args_allows:
  "io_steps (allows {k. \<exists>cidr \<in> set cidrs. lpm_key cidr = Inr k}) (io_for cidrs (fw_allow os fw))"
proof (rule io_steps_for [OF allows_preorder])
  fix cidr
  let ?S = "{k. \<exists>cidr \<in> set cidrs. lpm_key cidr = Inr k}"
  assume cidr: "cidr \<in> set cidrs"
  show "io_steps (allows ?S) (fw_allow os fw cidr)"
  proof (cases "lpm_key cidr")
    case (Inl e)
    then show ?thesis by (simp add: fw_allow_def io_steps_def io_simps allows_def)
  next
    case (Inr k)
    then show ?thesis by (rule allow_allows) (use cidr Inr in blast)
  qed
qed

lemma init_allows:
  assumes "controller_init os args w = (r, w')" "inv w"
  shows "allows {k. \<exists>cidr \<in> set (arg_allow args). lpm_key cidr = Inr k} w w'"
    "inv w'" "arg_allow args = [] \<Longrightarrow> view w' = view w"
    "r = Inr (fw', c) \<Longrightarrow> fw' = fw \<and> dry_run (ctl_blocker c) = arg_dry_run args"
proof -
  let ?S = "{k. \<exists>cidr \<in> set (arg_allow args). lpm_key cidr = Inr k}"
  obtain ro w0 where opened: "firewall_open os PIN_DIR w = (ro, w0)" by fastforce
  note o = opens_pinned [OF assms(2) opened]
  obtain ra w1 where allow: "io_for (arg_allow args) (fw_allow os fw) w0 = (ra, w1)" by fastforce
  have w1: "allows ?S w0 w1" using io_stepsD [OF args_allows allow] .
  have ends: "w' = (case ro of Inl _ \<Rightarrow> w0 | Inr _ \<Rightarrow> w1)"
    "r = Inr (fw', c) \<Longrightarrow> fw' = fw \<and> dry_run (ctl_blocker c) = arg_dry_run args"
    using assms(1) opened allow o
    by (auto simp: controller_init_def io_simps blocker_init_def split: sum.splits)
  show "allows ?S w w'" "inv w'"
    using w1 o assms(2) by (auto simp: ends(1) allows_def split: sum.splits)
  show "view w' = view w" if "arg_allow args = []"
    using that allow o by (auto simp: ends(1) io_simps split: sum.splits)
  show "r = Inr (fw', c) \<Longrightarrow> fw' = fw \<and> dry_run (ctl_blocker c) = arg_dry_run args" by (rule ends)
qed

lemma main_dry:
  assumes "controller_main n os clk is_root args w = (r, w')" "inv w" "arg_dry_run args"
  shows "allows {k. \<exists>cidr \<in> set (arg_allow args). lpm_key cidr = Inr k} w w' \<and>
    inv w' \<and> (arg_allow args = [] \<longrightarrow> view w' = view w)"
proof (cases is_root)
  case True
  obtain ri w1 where init: "controller_init os args w = (ri, w1)" by fastforce
  note i = init_allows [OF init assms(2)]
  show ?thesis
  proof (cases ri)
    case (Inl e)
    then show ?thesis using assms(1) True init i by (simp add: controller_main_def)
  next
    case (Inr x)
    obtain c where x: "x = (fw, c)" "dry_run (ctl_blocker c)" using i(4) [of "fst x" "snd x"] Inr assms(3) by (cases x) auto
    obtain rr c' w2 where run: "controller_run n os clk fw args (c, w1) = (rr, (c', w2))" by (metis prod.exhaust)
    have "w' = w2" using assms(1) True init Inr x(1) run by (auto simp: controller_main_def split: sum.splits)
    moreover have "inv w2" "view w2 = view w1"
      using io_stepsD [OF run_steps [OF dry_step_writes_nothing [OF assms(3)]] run] x(2) i(2)
      by (simp_all add: ctl_rel_def kept_def dry_def)
    ultimately show ?thesis using i by (simp add: allows_def)
  qed
qed (use assms in \<open>simp add: controller_main_def allows_def\<close>)

end

section \<open>The reference kernel with clocks\<close>

interpretation rc: ctl_kernel ref_os ref_is_map "\<lambda>fd. md_kind (decl_of fd)" "\<lambda>fd. md_ksize (decl_of fd)"
  "\<lambda>fd. md_vsize (decl_of fd)" kernel_ok ref_view "\<lambda>_. token_pos" ref_fw ref_clk
  by unfold_locales (auto simp: ref_clk_def io_simps)

lemmas ref_ctl_laws = rc.ctl_kernel_axioms

interpretation rp: pinned_kernel ref_os ref_is_map "\<lambda>fd. md_kind (decl_of fd)" "\<lambda>fd. md_ksize (decl_of fd)"
  "\<lambda>fd. md_vsize (decl_of fd)" kernel_ok ref_view "\<lambda>_. token_pos" ref_fw ref_clk
  by unfold_locales (auto simp: ref_firewall_open)

section \<open>Properties\<close>

text \<open>
  C6. However many steps the controller runs, whatever it sees and whether or not a step raises,
  the allowlist, the port rules, the counters, the enabled stages and the default policy are at
  the end what they were at the start.
\<close>

theorem controller_respects_operator:
  assumes "ctl_kernel os is_map kind ksize vsize okw view pos fw clk" "okw w"
    and "controller_run n os clk fw args (c, w) = (r, (c', w'))"
  shows "okw w' \<and> operator_part fw (view w') = operator_part fw (view w)"
  using io_stepsD [OF ctl_kernel.run_steps [OF assms(1) ctl_kernel.step_keeps_operator [OF assms(1)]] assms(3)] assms(2)
  by (simp add: ctl_kernel.ctl_rel_def [OF assms(1)] ctl_kernel.kept_def [OF assms(1)])

definition demo_args :: ctl_args where
  "demo_args = \<lparr>arg_dry_run = True, arg_no_auto_tune = True, arg_allow = [''198.51.100.0/24''],
     arg_interval = 1, arg_top = 12, arg_iface = ''veth-fw''\<rparr>"

definition demo_ctl :: controller where
  "demo_ctl = \<lparr>ctl_window = window_init, ctl_blocker = blocker_init True, ctl_aggr = aggr_init,
     ctl_cycles = 0, ctl_prev = None, ctl_pps = 0, ctl_drop_ratio = 0\<rparr>"

abbreviation demo_end :: "nat \<Rightarrow> kernel" where
  "demo_end n \<equiv> snd (snd (controller_run n ref_os ref_clk ref_fw demo_args (demo_ctl, shadow_kernel)))"

lemma demo_run:
  "controller_run n ref_os ref_clk ref_fw demo_args (demo_ctl, shadow_kernel) =
    (fst (controller_run n ref_os ref_clk ref_fw demo_args (demo_ctl, shadow_kernel)),
     (fst (snd (controller_run n ref_os ref_clk ref_fw demo_args (demo_ctl, shadow_kernel))), demo_end n))"
  by simp

theorem controller_respects_operator_witness:
  "kernel_ok (demo_end 10) \<and> operator_part ref_fw (ref_view (demo_end 10)) = operator_part ref_fw (ref_view shadow_kernel)"
  by (rule controller_respects_operator [OF ref_ctl_laws shadow_ok demo_run])

text \<open>
  C25. With \<open>--dry-run\<close> the controller program, from opening the maps to its exit, however many turns it makes and
  whether or not something raises, changes no map but the allowlist; there only the keys of the
  prefixes given with \<open>--allow\<close> can change, which the constructor writes, and without \<open>--allow\<close> no map changes at all.
\<close>

theorem dry_run_writes_nothing:
  assumes "pinned_kernel os is_map kind ksize vsize okw view pos fw clk" "okw w" "arg_dry_run args"
    and "controller_main n os clk is_root args w = (r, w')"
    and "allowlist = bm_fd (fw_allowlist fw)"
  shows "okw w' \<and> (\<forall>fd. fd \<noteq> allowlist \<longrightarrow> view w' fd = view w fd) \<and>
    {k. map_of (view w' allowlist) k \<noteq> map_of (view w allowlist) k} \<subseteq> {k. \<exists>cidr \<in> set (arg_allow args). lpm_key cidr = Inr k} \<and>
    (arg_allow args = [] \<longrightarrow> view w' = view w)"
  using pinned_kernel.main_dry [OF assms(1,4,2,3)] assms(2)
  unfolding pinned_kernel.allows_def [OF assms(1)] assms(5) by blast

theorem dry_run_writes_nothing_witness:
  "ref_view (snd (controller_main 10 ref_os ref_clk True (demo_args\<lparr>arg_allow := []\<rparr>) shadow_kernel)) = ref_view shadow_kernel"
  using dry_run_writes_nothing [OF rp.pinned_kernel_axioms shadow_ok _ prod.collapse [symmetric] refl,
      of "demo_args\<lparr>arg_allow := []\<rparr>" 10 True]
  by (simp add: demo_args_def)

text \<open>
  Starting the controller with \<open>--dry-run\<close> and \<open>--allow\<close> does write: the constructor puts
  the prefix on the allowlist.
\<close>

theorem dry_run_allow_writes:
  "arg_dry_run demo_args \<and>
   controller_init ref_os demo_args boot_kernel = (Inr (ref_fw, demo_ctl), demo_allowed) \<and>
   ref_view demo_allowed (bm_fd (fw_allowlist ref_fw)) \<noteq> ref_view boot_kernel (bm_fd (fw_allowlist ref_fw))"
proof -
  have "ref_view demo_allowed 3 = [([24, 0, 0, 0, 198, 51, 100, 0], zeros 16)]"
    unfolding demo_allowed_def by (subst ref_view_set [OF boot_kernel_ok]) (simp_all add: ref_maps)
  then show ?thesis
    using demo_allow
    by (simp add: controller_init_def ref_firewall_open io_simps demo_args_def demo_ctl_def ref_fw_simps boot_views)
qed

end
