(* ===== verification/Fw_System.thy ===== *)
theory Fw_System
  imports Controller Xdp_State
begin

text \<open>
  The whole system on one set of maps: packets arrive on the CPUs and run the packet program, the
  operator runs \<open>fwctl\<close>, a controller may be started, turns and ends, and time passes. The events come
  in any order. The state is the kernel with its maps and clock and, while one runs, the controller.
  Each event runs to its end before the next: within one call the locales of the control plane
  describe maps that nobody else changes.
\<close>

section \<open>Events\<close>

type_synonym system = "kernel \<times> (ctl_args \<times> firewall \<times> controller) option"

datatype event =
    Packet nat bytes
  | Tick nat
  | Command nat bool fwctl_args
  | Start ctl_args
  | Turn
  | Halt

inductive sys_step :: "system \<Rightarrow> event \<Rightarrow> system \<Rightarrow> bool" where
  packet: "cpu < REF_CPUS \<Longrightarrow> xdp_firewall cpu (of_int (k_clock w)) p w = (v, w') \<Longrightarrow>
    sys_step (w, c) (Packet cpu p) (w', c)"
| tick: "sys_step (w, c) (Tick n) (w\<lparr>k_clock := k_clock w + int n\<rparr>, c)"
| command: "fwctl_main turns ref_clk ref_os is_root args ([], w) = (r, (out, w')) \<Longrightarrow>
    sys_step (w, c) (Command turns is_root args) (w', c)"
| start: "controller_init ref_os args w = (Inr (fw, ctl), w') \<Longrightarrow>
    sys_step (w, None) (Start args) (w', Some (args, fw, ctl))"
| start_fails: "controller_init ref_os args w = (Inl e, w') \<Longrightarrow> sys_step (w, None) (Start args) (w', None)"
| turn: "controller_turn ref_os ref_clk fw args (ctl, w) = (Inr screen, (ctl', w')) \<Longrightarrow>
    sys_step (w, Some (args, fw, ctl)) Turn (w', Some (args, fw, ctl'))"
| turn_fails: "controller_turn ref_os ref_clk fw args (ctl, w) = (Inl e, (ctl', w')) \<Longrightarrow>
    sys_step (w, Some (args, fw, ctl)) Turn (w', None)"
| halt: "firewall_close ref_os fw w = (r, w') \<Longrightarrow> sys_step (w, Some (args, fw, ctl)) Halt (w', None)"

inductive sys_run :: "system \<Rightarrow> event list \<Rightarrow> system \<Rightarrow> bool" where
  nothing: "sys_run s [] s"
| more: "sys_step s e s' \<Longrightarrow> sys_run s' es s'' \<Longrightarrow> sys_run s (e # es) s''"

inductive_cases sys_runE: "sys_run s (e # es) s''"

inductive_simps sys_step_simps:
  "sys_step s (Packet cpu p) s'" "sys_step s (Tick n) s'"

text \<open>An invariant of the steps, for the events that \<open>A\<close> admits, holds at the end of every such run.\<close>

lemma run_invariant:
  assumes "sys_run s es s'" "I s" "list_all A es" "\<And>s e s'. sys_step s e s' \<Longrightarrow> A e \<Longrightarrow> I s \<Longrightarrow> I s'"
  shows "I s'"
  using assms(1-3) by (induction) (auto intro: assms(4))

section \<open>Time\<close>

text \<open>
  The clock of the reference kernel never goes back. The laws hold of the kernel as it is at any time
  after \<open>t\<close> as well, which gives the direction of the clock for every program of the control plane.
\<close>

definition kernel_since :: "int \<Rightarrow> kernel \<Rightarrow> bool" where
  "kernel_since t w \<longleftrightarrow> kernel_ok w \<and> t \<le> k_clock w \<and> 0 \<le> k_step w"

lemma kernel_sinceD: "kernel_since t w \<Longrightarrow> kernel_ok w"
  by (simp add: kernel_since_def)

lemma ref_bpf_clock: "k_clock (snd (ref_bpf call w)) = k_clock w" "k_step (snd (ref_bpf call w)) = k_step w"
  by (cases call; auto simp: ref_update_def ref_delete_def ref_set_def Let_def split: option.splits)+

lemma kernel_since_steps:
  "kernel_since t w \<Longrightarrow> os_bpf ref_os call w = (rep, w') \<Longrightarrow> kernel_since t w'"
  "kernel_since t w \<Longrightarrow> os_ktime ref_os w = (n, w') \<Longrightarrow> kernel_since t w'"
  using ref_bpf_ok [of w call] ref_bpf_clock [of call w] by (auto simp: kernel_since_def ref_os_def)

interpretation since: ctl_kernel ref_os ref_is_map "\<lambda>fd. md_kind (decl_of fd)" "\<lambda>fd. md_ksize (decl_of fd)"
  "\<lambda>fd. md_vsize (decl_of fd)" "kernel_since t" ref_view "\<lambda>_. token_pos" ref_fw ref_clk for t
  by unfold_locales
    (assumption
      | rule kernel_since_steps ref.view_ok ref.ktime_view ref.lookup_view ref.next_view ref.batch_view ref.lookup_law ref.update_law
          ref.replace_law ref.delete_law ref.next_law ref.batch_law rf.allowlist_map rf.blocklist_map rf.portrules_map
          rf.srcstate_map rf.stats_map rf.config_map rf.fds_distinct rf.stats_keys rf.config_key rf.size_bound
          rcli.get_view rcli.info_view kernel_sinceD
      | auto simp: kernel_since_def ref_clk_def io_simps; fail)+

text \<open>From a good kernel to a good kernel, not earlier, with the maps outside \<open>S\<close> unchanged.\<close>

definition kernel_live :: "kernel \<Rightarrow> bool" where
  "kernel_live w \<longleftrightarrow> kernel_ok w \<and> 0 \<le> k_clock w \<and> 0 \<le> k_step w"

definition later :: "int set \<Rightarrow> kernel \<Rightarrow> kernel \<Rightarrow> bool" where
  "later S w w' \<longleftrightarrow> (kernel_live w \<longrightarrow> kernel_live w' \<and> k_clock w \<le> k_clock w' \<and>
     (\<forall>fd. fd \<notin> S \<longrightarrow> ref_view w' fd = ref_view w fd))"

lemma laterI:
  "(\<And>t. kernel_since t w \<Longrightarrow> kernel_since t w' \<and> (\<forall>fd. fd \<notin> S \<longrightarrow> ref_view w' fd = ref_view w fd)) \<Longrightarrow> later S w w'"
  by (auto simp: later_def kernel_live_def kernel_since_def)

lemma later_preorder: "preorder_on_states (later S)"
  by (auto simp: preorder_on_states_def later_def)

lemma later_mono: "later S w w' \<Longrightarrow> S \<subseteq> S' \<Longrightarrow> later S' w w'"
  by (auto simp: later_def)

lemma later_only: "(\<And>t. io_steps (since.only t S) m) \<Longrightarrow> io_steps (later S) m"
  unfolding io_steps_def since.only_def by (auto intro!: laterI)

lemma later_kept: "(\<And>t. io_steps (since.kept t (\<lambda>v. v)) m) \<Longrightarrow> io_steps (later S) m"
  unfolding io_steps_def since.kept_def by (auto intro!: laterI)


section \<open>Packets\<close>

text \<open>
  The part of an entry that is a rule and not a hit counter: nothing but the key on the allowlist,
  deadline and reason on the blocklist, and the action of each CPU's slot of a port rule.
\<close>

definition rule_part :: "int \<Rightarrow> bytes \<Rightarrow> bytes" where
  "rule_part fd v =
     (if fd = FD_ALLOWLIST then []
      else if fd = FD_BLOCKLIST then take 8 v @ take 4 (drop 16 v)
      else if fd = FD_PORTRULES then concat (map (\<lambda>i. take 8 (drop (16 * i + 8) v)) [0..<REF_CPUS])
      else v)"

definition rules :: "kernel \<Rightarrow> int \<Rightarrow> (bytes \<times> bytes) list" where
  "rules w fd = map (\<lambda>(k, v). (k, rule_part fd v)) (ref_view w fd)"

lemma map_dict_set:
  "map_of d k = Some v \<Longrightarrow> g (k, v') = g (k, v) \<Longrightarrow> map g (dict_set k v' d) = map g d"
  by (induction d) (auto simp: dict_set_def split: if_splits)

text \<open>What a packet leaves alone: the rules, the settings and the clock.\<close>

definition tame :: "kernel \<Rightarrow> kernel \<Rightarrow> bool" where
  "tame w w' \<longleftrightarrow> k_clock w' = k_clock w \<and> k_step w' = k_step w \<and>
     (\<forall>fd. fd \<notin> {FD_SRCSTATE, FD_STATS} \<longrightarrow> rules w' fd = rules w fd)"

lemma tame_trans: "tame w1 w2 \<Longrightarrow> tame w2 w3 \<Longrightarrow> tame w1 w3"
  by (auto simp: tame_def)

lemma tame_view:
  "k_clock w' = k_clock w \<Longrightarrow> k_step w' = k_step w \<Longrightarrow>
    (\<And>fd. fd \<notin> {FD_SRCSTATE, FD_STATS} \<Longrightarrow> ref_view w' fd = ref_view w fd) \<Longrightarrow> tame w w'"
  by (simp add: tame_def rules_def)

lemma ref_set_clock [simp]: "k_clock (ref_set fd d w) = k_clock w" "k_step (ref_set fd d w) = k_step w"
  by (simp_all add: ref_set_def)

lemma write_clock [simp]:
  "k_clock (write_entry fd k v w) = k_clock w" "k_step (write_entry fd k v w) = k_step w"
  "k_clock (stat_add cpu s n w) = k_clock w" "k_step (stat_add cpu s n w) = k_step w"
  "k_clock (stat_inc cpu s w) = k_clock w" "k_step (stat_inc cpu s w) = k_step w"
  by (auto simp: write_entry_def stat_add_def stat_inc_def split: option.splits)

lemma tame_stat: "kernel_ok w \<Longrightarrow> cpu < REF_CPUS \<Longrightarrow> tame w (stat_inc cpu s w)"
  by (intro tame_view) (simp_all add: stat_inc_run(2))

lemma tame_hit:
  assumes "kernel_ok w" "ref_is_map fd" "lookup_entry fd k w = Some (e, v)" "rule_part fd v' = rule_part fd v"
  shows "tame w (write_entry fd e v' w)"
proof -
  have "map_of (ref_view w fd) e = Some v" using lookup_entry_mem [OF assms(1-3)] by simp
  then have "rules (write_entry fd e v' w) fd = rules w fd"
    using assms(4) by (auto simp: rules_def write_entry_view [OF assms(1,2)] intro: map_dict_set)
  then have "rules (write_entry fd e v' w) fd' = rules w fd'" for fd'
    by (cases "fd' = fd") (simp_all add: rules_def write_entry_view [OF assms(1,2)])
  then show ?thesis by (simp add: tame_def)
qed

lemma rule_part_hit:
  assumes "kernel_ok w" "ref_is_map fd" "lookup_entry fd k w = Some (e, v)"
  shows "fd = FD_ALLOWLIST \<Longrightarrow> rule_part fd (add64 0 1 v) = rule_part fd v"
    and "fd = FD_BLOCKLIST \<Longrightarrow> rule_part fd (add64 8 1 v) = rule_part fd v"
    and "fd = FD_PORTRULES \<Longrightarrow> cpu < REF_CPUS \<Longrightarrow> rule_part fd (add64 (16 * cpu) 1 v) = rule_part fd v"
proof -
  have len: "length v = md_vsize (decl_of fd)" using lookup_entry_mem [OF assms] by simp
  show "fd = FD_ALLOWLIST \<Longrightarrow> rule_part fd (add64 0 1 v) = rule_part fd v" by (simp add: rule_part_def)
  show "fd = FD_BLOCKLIST \<Longrightarrow> rule_part fd (add64 8 1 v) = rule_part fd v"
    using len by (simp add: rule_part_def fds ref_decls add64_def put64_def)
  show "fd = FD_PORTRULES \<Longrightarrow> cpu < REF_CPUS \<Longrightarrow> rule_part fd (add64 (16 * cpu) 1 v) = rule_part fd v"
    using len by (auto simp: rule_part_def fds ref_decls REF_CPUS_def add64_def intro!: arg_cong [of _ _ concat] take_drop_put64)
qed

lemma state_stage_tame:
  assumes "kernel_ok w" "cpu < REF_CPUS" "verdict_of reason = Some verdict"
    and "state_stage cpu now cfg len ip l4 verdict reason w = (v, w')"
  shows "tame w w'"
proof (rule tame_view)
  fix fd
  assume "fd \<notin> {FD_SRCSTATE, FD_STATS}"
  then show "ref_view w' fd = ref_view w fd"
    using state_stage_run [OF assms] by (auto simp: counted_def)
qed (use assms(4) in \<open>auto simp: state_stage_def Let_def ref_update_def split: if_splits option.splits prod.splits\<close>)

lemma rule_stage_tame:
  assumes "kernel_ok w" "cpu < REF_CPUS" "rule_stage cpu cfg proto l4 w = (v, r, w')"
  shows "tame w w'"
proof (cases "lookup_entry FD_PORTRULES (port_bytes_key proto (l4_rule_port l4)) w")
  case None
  with assms(3) have "w' = w" by (auto simp: rule_stage_def split: if_splits)
  then show ?thesis by (simp add: tame_def)
next
  case (Some e)
  then obtain k val where l: "lookup_entry FD_PORTRULES (port_bytes_key proto (l4_rule_port l4)) w = Some (k, val)" by (cases e) auto
  note hit = tame_hit [OF assms(1) fd_maps(3) l rule_part_hit(3) [OF assms(1) fd_maps(3) l refl assms(2)]]
  have "w' = w \<or> w' = write_entry FD_PORTRULES k (add64 (16 * cpu) 1 val) w"
    using assms(3) l by (auto simp: rule_stage_def Let_def split: if_splits)
  with hit show ?thesis by (auto simp: tame_def)
qed

lemma l4_stages_tame:
  assumes "kernel_ok w" "cpu < REF_CPUS" "l4_stages cpu now cfg p ip w = (v, w')"
  shows "tame w w'"
proof (cases "parse_l4 p ip")
  case None
  with assms tame_stat [OF assms(1,2)] show ?thesis by (auto simp: l4_stages_def)
next
  case (Some l4)
  show ?thesis
  proof (cases "ip_frag ip")
    case True
    obtain v1 r1 where f: "frag_stage cfg = (v1, r1)" by fastforce
    have "state_stage cpu now cfg (length p) ip l4 v1 r1 w = (v, w')" using assms(3) Some True f by (simp add: l4_stages_def)
    with frag_stage_run [OF f] show ?thesis by (intro state_stage_tame [OF assms(1,2)]) auto
  next
    case False
    obtain v1 r1 w1 where r: "rule_stage cpu cfg (ip_proto ip) l4 w = (v1, r1, w1)" by (rule prod_cases3)
    note rule = rule_stage_run [OF assms(1,2) r]
    have "state_stage cpu now cfg (length p) ip l4 v1 r1 w1 = (v, w')" using assms(3) Some False r by (simp add: l4_stages_def)
    then have "tame w1 w'" using rule by (intro state_stage_tame [OF _ assms(2)]) auto
    with rule_stage_tame [OF assms(1,2) r] show ?thesis by (rule tame_trans)
  qed
qed

lemma hit_tame:
  assumes "kernel_ok w" "cpu < REF_CPUS" "ref_is_map fd" "lookup_entry fd k w = Some (e, val)"
    and "off + 8 \<le> md_vsize (decl_of fd)" "rule_part fd (add64 off 1 val) = rule_part fd val"
  shows "tame w (stat_inc cpu r (write_entry fd e (add64 off 1 val) w))"
  by (rule tame_trans [OF tame_hit [OF assms(1,3,4,6)] tame_stat [OF hit_ok [OF assms(1,3-5)] assms(2)]])

lemma source_stages_tame:
  assumes "kernel_ok w" "cpu < REF_CPUS" "source_stages cpu now cfg p ip w = (v, w')"
  shows "tame w w'"
proof -
  have l4: "tame w w'" if "l4_stages cpu now cfg p ip w = (v, w')" by (rule l4_stages_tame [OF assms(1,2) that])
  have allow: "tame w (stat_inc cpu r (write_entry FD_ALLOWLIST k (add64 0 1 val) w))"
    if "lookup_entry FD_ALLOWLIST (host_key (ip_saddr ip)) w = Some (k, val)" for k val r
    by (rule hit_tame [OF assms(1,2) fd_maps(1) that _ rule_part_hit(1) [OF assms(1) fd_maps(1) that refl]])
      (simp add: fds ref_decls)
  have block: "tame w (stat_inc cpu r (write_entry FD_BLOCKLIST k (add64 8 1 val) w))"
    if "lookup_entry FD_BLOCKLIST (host_key (ip_saddr ip)) w = Some (k, val)" for k val r
    by (rule hit_tame [OF assms(1,2) fd_maps(2) that _ rule_part_hit(2) [OF assms(1) fd_maps(2) that refl]])
      (simp add: fds ref_decls)
  from assms(3) show ?thesis
    by (auto simp: source_stages_def blocklist_stage_def intro: l4 allow block split: if_splits option.splits prod.splits)
qed

lemma packet_tame:
  assumes "kernel_ok w" "cpu < REF_CPUS" "xdp_firewall cpu now p w = (v, w')"
  shows "kernel_ok w' \<and> tame w w'"
proof -
  note a = arrived_run [OF assms(1,2), where p = p]
  have "tame w (arrived cpu p w)" by (intro tame_view) (simp_all add: a(2), simp_all add: arrived_def)
  moreover have "tame (arrived cpu p w) w'"
    using assms(3) tame_stat [OF a(1) assms(2)] source_stages_tame [OF a(1) assms(2)] tame_view [of "arrived cpu p w"]
    by (auto simp: xdp_firewall_def arrived_def [symmetric] Let_def split: option.splits l3.splits)
  moreover have "kernel_ok w'" using xdp_run [OF assms] by (auto simp: counted_def)
  ultimately show ?thesis using tame_trans by blast
qed

section \<open>The control plane\<close>

lemma close_later: "io_steps (later S) (firewall_close ref_os ref_fw)"
  by (rule later_kept) (rule since.more_reads_keep(5))

lemma init_later: "io_steps (later {FD_ALLOWLIST}) (controller_init ref_os args)"
proof -
  have "io_steps (since.only t {FD_ALLOWLIST}) (fw_allow ref_os ref_fw cidr)" for t cidr
    by (rule since.only_allow) (simp add: ref_fw_simps fds)
  then have allow: "io_steps (since.only t {FD_ALLOWLIST}) (io_for (arg_allow args) (fw_allow ref_os ref_fw))" for t
    by (intro since.only_basic)
  show ?thesis
  proof (rule later_only, rule io_stepsI)
    fix t w r w'
    assume "controller_init ref_os args w = (r, w')"
    then have "w' = snd (io_for (arg_allow args) (fw_allow ref_os ref_fw) w)"
      by (auto simp: controller_init_def ref_firewall_open io_simps split: prod.splits sum.splits)
    with allow [of t] show "since.only t {FD_ALLOWLIST} w w'" by (simp add: io_steps_def)
  qed
qed

lemma init_fw: "controller_init ref_os args w = (Inr (fw, ctl), w') \<Longrightarrow> fw = ref_fw"
  by (auto simp: controller_init_def ref_firewall_open io_simps split: prod.splits sum.splits)

lemma command_later:
  assumes "fwctl_main turns ref_clk ref_os is_root args (out, w) = (r, (out', w'))"
  shows "later (touched ref_fw args) w w'"
proof (cases is_root)
  case True
  obtain rh o1 w1 where h: "fwctl_handler turns ref_clk ref_os ref_fw args (out, w) = (rh, (o1, w1))" by (metis prod.exhaust)
  obtain rc w2 where c: "firewall_close ref_os ref_fw w1 = (rc, w2)" by fastforce
  have "w' = w2" using assms True h c by (auto simp: fwctl_main_def ref_firewall_open split: sum.splits)
  moreover have "later (touched ref_fw args) w w1"
    using io_stepsD [OF since.handler_only h] by (intro laterI) (auto simp: outer_rel_def since.only_def)
  ultimately show ?thesis
    using io_stepsD [OF close_later c] later_preorder unfolding preorder_on_states_def by blast
next
  case False
  with assms show ?thesis using later_preorder by (auto simp: fwctl_main_def io_simps preorder_on_states_def)
qed

lemma turn_since:
  assumes "controller_turn ref_os ref_clk ref_fw args (c, w) = (r, (c', w'))" "kernel_since t w"
  shows "kernel_since t w' \<and> operator_part ref_fw (ref_view w') = operator_part ref_fw (ref_view w)"
  using io_stepsD [OF since.turn_steps [OF since.step_keeps_operator] assms(1)] assms(2)
  by (simp add: since.ctl_rel_def since.kept_def)

lemma turn_live:
  assumes "controller_turn ref_os ref_clk ref_fw args (c, w) = (r, (c', w'))" "kernel_live w"
  shows "kernel_live w'" "k_clock w \<le> k_clock w'"
    "operator_part ref_fw (ref_view w') = operator_part ref_fw (ref_view w)"
  using turn_since [OF assms(1), of "k_clock w"] assms(2) by (auto simp: kernel_live_def kernel_since_def)

section \<open>Every reachable state\<close>

definition sys_ok :: "system \<Rightarrow> bool" where
  "sys_ok s \<longleftrightarrow> kernel_live (fst s) \<and> (case snd s of None \<Rightarrow> True | Some (args, fw, ctl) \<Rightarrow> fw = ref_fw)"

lemma tame_live: "kernel_live w \<Longrightarrow> kernel_ok w' \<Longrightarrow> tame w w' \<Longrightarrow> kernel_live w'"
  by (simp add: kernel_live_def tame_def)

lemma later_live: "later S w w' \<Longrightarrow> kernel_live w \<Longrightarrow> kernel_live w'"
  by (simp add: later_def)

lemma step_ok:
  assumes "sys_step s e s'" "sys_ok s"
  shows "sys_ok s'"
  using assms
proof (cases rule: sys_step.cases)
  case (packet cpu w p v w' c)
  then have live: "kernel_live w" using assms(2) by (simp add: sys_ok_def)
  then have "kernel_ok w" by (simp add: kernel_live_def)
  from tame_live [OF live] packet_tame [OF this packet(4,5)] assms(2) packet show ?thesis by (simp add: sys_ok_def)
next
  case (tick w c n)
  with assms(2) show ?thesis by (simp add: sys_ok_def kernel_live_def)
next
  case (command turns is_root args w r out w' c)
  with assms(2) later_live [OF command_later [OF command(4)]] show ?thesis by (simp add: sys_ok_def)
next
  case (start args w fw ctl w')
  with assms(2) later_live [OF io_stepsD [OF init_later start(4)]] init_fw [OF start(4)] show ?thesis by (simp add: sys_ok_def)
next
  case (start_fails args w e w')
  with assms(2) later_live [OF io_stepsD [OF init_later start_fails(4)]] show ?thesis by (simp add: sys_ok_def)
next
  case (turn fw args ctl w screen ctl' w')
  with assms(2) turn_live(1) [of args ctl w "Inr screen" ctl' w'] show ?thesis by (simp add: sys_ok_def)
next
  case (turn_fails fw args ctl w e ctl' w')
  with assms(2) turn_live(1) [of args ctl w "Inl e" ctl' w'] show ?thesis by (simp add: sys_ok_def)
next
  case (halt fw w r w' args ctl)
  have "later {} w w'" if "fw = ref_fw" using io_stepsD [OF close_later] halt(4) that by blast
  with assms(2) later_live [of "{}" w w'] halt show ?thesis by (simp add: sys_ok_def)
qed

lemma boot_ok: "sys_ok (boot_kernel, None)"
  using boot_kernel_ok by (simp add: sys_ok_def kernel_live_def) (simp add: boot_kernel_def)

end
