(* ===== verification/Fw_System_Props.thy ===== *)
theory Fw_System_Props
  imports Fw_System
begin

text \<open>
  Properties of every state that the system can reach: the maps stay well typed and readable,
  the controller's blocks end, and only the operator's commands change the rules.
\<close>

section \<open>Programs that keep an invariant\<close>

text \<open>
  \<open>io_holds P Q m\<close>: from a state with \<open>P\<close>, whatever \<open>m\<close> returns or raises, the state has \<open>P\<close> again,
  and a value that it returns has \<open>Q\<close>.
\<close>

definition io_holds :: "('w \<Rightarrow> bool) \<Rightarrow> ('a \<Rightarrow> bool) \<Rightarrow> ('w, 'a) io \<Rightarrow> bool" where
  "io_holds P Q m \<longleftrightarrow> (\<forall>w r w'. P w \<longrightarrow> m w = (r, w') \<longrightarrow> P w' \<and> (\<forall>a. r = Inr a \<longrightarrow> Q a))"

abbreviation any :: "'a \<Rightarrow> bool" where
  "any \<equiv> \<lambda>_. True"

lemma io_holdsI: "(\<And>w r w'. P w \<Longrightarrow> m w = (r, w') \<Longrightarrow> P w' \<and> (\<forall>a. r = Inr a \<longrightarrow> Q a)) \<Longrightarrow> io_holds P Q m"
  by (simp add: io_holds_def)

lemma io_holdsD: "io_holds P Q m \<Longrightarrow> P w \<Longrightarrow> m w = (r, w') \<Longrightarrow> P w'"
  unfolding io_holds_def by blast

lemma io_holds_bind:
  assumes "io_holds P Q m" "\<And>a. Q a \<Longrightarrow> io_holds P Q' (f a)"
  shows "io_holds P Q' (io_bind m f)"
proof (rule io_holdsI)
  fix w r w'
  assume w: "P w" and run: "io_bind m f w = (r, w')"
  obtain rm w1 where m: "m w = (rm, w1)" by fastforce
  then have "P w1" "\<forall>a. rm = Inr a \<longrightarrow> Q a" using assms(1) w unfolding io_holds_def by blast+
  with run m assms(2) show "P w' \<and> (\<forall>a. r = Inr a \<longrightarrow> Q' a)"
    unfolding io_holds_def by (cases rm) (auto simp: io_bind_def)
qed

lemma io_holds_seq: "io_holds P any m \<Longrightarrow> io_holds P Q k \<Longrightarrow> io_holds P Q (io_seq m k)"
  unfolding io_seq_def by (rule io_holds_bind)

lemma io_holds_basic: "io_holds P any (io_return a)" "io_holds P any (io_of r)"
  by (auto simp: io_holds_def io_simps)

lemma io_holds_if: "(b \<Longrightarrow> io_holds P Q m) \<Longrightarrow> (\<not> b \<Longrightarrow> io_holds P Q k) \<Longrightarrow> io_holds P Q (if b then m else k)"
  by simp

lemma io_holds_outer: "io_holds P Q m \<Longrightarrow> io_holds (\<lambda>x. P (snd x)) Q (io_outer m)"
  by (auto simp: io_holds_def io_outer_apply) (metis prod.collapse)+

subsection \<open>Invariants of the blocklist\<close>

text \<open>The events by which the operator writes to the blocklist.\<close>

fun sets_blocks :: "event \<Rightarrow> bool" where
  "sets_blocks (Command turns is_root args) \<longleftrightarrow> FD_BLOCKLIST \<in> touched ref_fw args"
| "sets_blocks _ \<longleftrightarrow> False"

definition quads :: "string list \<Rightarrow> bool" where
  "quads ips \<longleftrightarrow> (\<forall>ip \<in> set ips. \<exists>a. length a = 4 \<and> ip = quad a)"

lemma window_rows_keys:
  "window_rows prev secs states rows = Inr out \<Longrightarrow> fst ` set out \<subseteq> fst ` set states \<union> fst ` set rows"
proof (induction prev secs states rows rule: window_rows.induct)
  case (2 prev secs ip cur states rows)
  then obtain m where m: "measure_row secs (baseline prev ip cur) cur = Inr m"
    "window_rows prev secs states (case m of None \<Rightarrow> rows | Some r \<Rightarrow> dict_set ip r rows) = Inr out"
    by (auto simp: result_bind_Inr)
  from 2(1) [OF this(2)] show ?case by (cases m) auto
qed simp

lemma window_update_keys:
  assumes "window_update states now win = (Inr rows, win')"
  shows "fst ` set rows \<subseteq> fst ` set states"
proof (cases "rows = []")
  case False
  then obtain prev secs where "window_rows prev secs states [] = Inr rows"
    using assms by (auto simp: window_update_def Let_def split: option.splits if_splits)
  from window_rows_keys [OF this] show ?thesis by simp
qed simp

text \<open>
  A property of the kernel that depends on the blocklist and the clock only, and that a block of the
  controller and the removal of expired blocks keep. Whatever the controller does keeps it then, and
  so does every event but a command of the operator on the blocklist.
\<close>

locale blocklist_invariant =
  fixes P :: "kernel \<Rightarrow> bool"
  assumes P_live: "P w \<Longrightarrow> kernel_live w"
    and later_keeps: "later S w w' \<Longrightarrow> FD_BLOCKLIST \<notin> S \<Longrightarrow> P w \<Longrightarrow> P w'"
    and tame_keeps: "P w \<Longrightarrow> kernel_ok w' \<Longrightarrow> tame w w' \<Longrightarrow> P w'"
    and block_keeps: "P w \<Longrightarrow> d \<in> set DURATIONS \<Longrightarrow> length a = 4 \<Longrightarrow>
      fw_block ref_os ref_fw (quad a) (Fin (of_int d)) reason w = (r, w') \<Longrightarrow> P w'"
    and expired_keeps: "P w \<Longrightarrow> fw_remove_expired_blocks ref_os ref_fw w = (removed, w') \<Longrightarrow> P w'"
begin

lemma P_ok: "P w \<Longrightarrow> kernel_ok w"
  using P_live by (simp add: kernel_live_def)

lemma keeps_later: "io_steps (later S) m \<Longrightarrow> FD_BLOCKLIST \<notin> S \<Longrightarrow> io_holds P any m"
  by (rule io_holdsI) (blast intro: later_keeps dest: io_stepsD)

lemma keeps_reads:
  "io_holds P any (fw_read_stats ref_os ref_fw)" "io_holds P any (ktime_ns ref_os)"
  "io_holds P any (io_read (clk_monotonic ref_clk))" "io_holds P any (io_read (clk_time ref_clk))"
  "io_holds P any (io_read (\<lambda>w. ((), clk_sleep ref_clk t w)))"
  by (rule keeps_later [of "{}"], rule later_kept, rule since.reads_keep since.more_reads_keep, simp)+

lemma keeps_states: "io_holds P (\<lambda>states. quads (map fst states)) (fw_read_states ref_os ref_fw)"
proof (rule io_holdsI)
  fix w r w'
  assume w: "P w" and run: "fw_read_states ref_os ref_fw w = (r, w')"
  have "io_holds P any (fw_read_states ref_os ref_fw)"
    by (rule keeps_later [of "{}"], rule later_kept, rule since.reads_keep, simp)
  then have "P w'" using w run by (rule io_holdsD)
  moreover have ok: "kernel_ok w" using w by (rule P_ok)
  have "quads (map fst (states_of (rf.state_entries w)))"
    using kdict_okD [OF rf.state_ok [OF ok]] by (force simp: quads_def states_of_def)
  ultimately show "P w' \<and> (\<forall>a. r = Inr a \<longrightarrow> quads (map fst a))"
    using rf.read_states_run [OF ok run] by simp
qed

lemma keeps_fields: "io_holds (\<lambda>x. P (snd x)) any io_self" "io_holds (\<lambda>x. P (snd x)) any (io_modify g)"
  "io_holds (\<lambda>x. P (snd x)) any (with_aggr m)" "io_holds (\<lambda>x. P (snd x)) any (update_load stats now)"
  by (auto simp: io_holds_def io_simps with_aggr_def update_load_def split: prod.splits sum.splits)

lemma keeps_window:
  assumes "quads (map fst states)"
  shows "io_holds (\<lambda>x. P (snd x)) (\<lambda>rows. quads (map fst rows)) (with_window (window_update states now))"
proof (rule io_holdsI)
  fix x r y
  assume x: "P (snd x)" and run: "with_window (window_update states now) x = (r, y)"
  obtain c w where xw: "x = (c, w)" by fastforce
  obtain r1 win where up: "window_update states now (ctl_window c) = (r1, win)" by fastforce
  have y: "r = r1" "y = (c\<lparr>ctl_window := win\<rparr>, w)" using run up xw by (simp_all add: with_window_def)
  have "quads (map fst rows)" if "r1 = Inr rows" for rows
    using window_update_keys [of states now "ctl_window c" rows win] up that assms unfolding quads_def set_map by blast
  then show "P (snd y) \<and> (\<forall>rows. r = Inr rows \<longrightarrow> quads (map fst rows))" using x xw y by simp
qed

lemma keeps_note: "io_holds (\<lambda>x. P (snd x)) any (with_blocker (blocker_note (blocker_env ref_os ref_clk ref_fw) msg))"
  by (auto simp: io_holds_def with_blocker_def blocker_note_def io_simps blocker_env_def ref_clk_def split: prod.splits)

lemma keeps_blocker:
  assumes "quads (map fst vs)"
  shows "io_holds (\<lambda>x. P (snd x)) any (with_blocker (blocker_update (blocker_env ref_os ref_clk ref_fw) vs))"
proof (rule io_holdsI)
  fix x r y
  let ?env = "blocker_env ref_os ref_clk ref_fw" and ?R = "\<lambda>w w'. P w \<longrightarrow> P w'"
  assume x: "P (snd x)" and run: "with_blocker (blocker_update ?env vs) x = (r, y)"
  obtain c w where xw: "x = (c, w)" by fastforce
  obtain r1 b' w' where up: "blocker_update ?env vs (ctl_blocker c, w) = (r1, (b', w'))" by (metis prod.exhaust)
  have "io_holds P any (fw_is_allowed ref_os ref_fw ip)" for ip
    by (rule keeps_later [of "{}"], rule later_kept, rule since.reads_keep, simp)
  then have asks: "?R v (snd (env_is_allowed ?env ip v))" for ip v
    using io_holdsD prod.collapse by (metis blk_env.select_convs(3) blocker_env_def)
  have clocks: "?R v (snd (env_time ?env v))" "?R v (snd (env_strftime ?env v))" for v
    by (simp_all add: blocker_env_def ref_clk_def)
  have "?R v (snd (env_block ?env ip d BLOCK_AUTO v))" if ip: "ip \<in> fst ` set vs" and d: "d \<in> set DURATIONS" for ip d v
  proof
    assume v: "P v"
    obtain a where "length a = 4" "ip = quad a" using assms ip by (auto simp: quads_def)
    with block_keeps [OF v d _ prod.collapse [symmetric]] show "P (snd (env_block ?env ip d BLOCK_AUTO v))"
      by (simp add: blocker_env_def)
  qed
  then have "?R w w'"
    using update_steps [of ?R, OF _ clocks asks _ up] by (simp add: preorder_on_states_def)
  then show "P (snd y) \<and> (\<forall>a. r = Inr a \<longrightarrow> True)" using x run up xw by (auto simp: with_blocker_def)
qed

lemma keeps_clean:
  "io_holds P any (fw_remove_expired_blocks ref_os ref_fw)"
  "io_holds P any (fw_remove_idle_states ref_os ref_fw (Fin (of_int IDLE_TIMEOUT_S)))"
proof -
  show "io_holds P any (fw_remove_expired_blocks ref_os ref_fw)" by (rule io_holdsI) (auto intro: expired_keeps)
  have idle: "later {FD_SRCSTATE} w w'" if "fw_remove_idle_states ref_os ref_fw (Fin (of_int IDLE_TIMEOUT_S)) w = (r, w')" for w r w'
    using io_stepsD [OF since.idle_only_states that] by (intro laterI) (auto simp: ref_fw_simps fds)
  show "io_holds P any (fw_remove_idle_states ref_os ref_fw (Fin (of_int IDLE_TIMEOUT_S)))"
    by (rule keeps_later [of "{FD_SRCSTATE}"], rule io_stepsI, rule idle) (simp_all add: fds)
qed

lemma keeps_clean_up: "io_holds (\<lambda>x. P (snd x)) any (clean_up ref_os ref_fw args)"
  unfolding clean_up_def
  by (intro io_holds_seq io_holds_basic io_holds_if io_holds_outer keeps_fields keeps_clean io_holds_bind [where Q = any])

lemma keeps_step: "io_holds (\<lambda>x. P (snd x)) any (controller_step ref_os ref_clk ref_fw args)"
proof -
  have cfg: "io_holds P any (fw_update_config ref_os ref_fw ch)" for ch
    by (rule keeps_later [of "{FD_CONFIG}"], rule later_only, rule since.only_update_config) (simp_all add: ref_fw_simps fds)
  note basics = io_holds_seq io_holds_basic io_holds_if io_holds_outer keeps_reads keeps_fields keeps_note keeps_clean cfg
  have tune: "io_holds (\<lambda>x. P (snd x)) any (auto_tune ref_os ref_clk ref_fw args)"
    unfolding auto_tune_def
    by (intro basics io_holds_bind [where Q = any]) (auto simp: case_prod_beta intro!: basics io_holds_bind [where Q = any])
  have after: "io_holds (\<lambda>x. P (snd x)) any (let verdicts = map (\<lambda>(ip, r). (ip, classify r)) rows in
      io_seq (with_blocker (blocker_update (blocker_env ref_os ref_clk ref_fw) verdicts))
        (io_seq (update_load stats now) (io_seq (auto_tune ref_os ref_clk ref_fw args) (io_seq (clean_up ref_os ref_fw args)
          (io_seq (io_modify (\<lambda>self. self\<lparr>ctl_cycles := ctl_cycles self + 1\<rparr>)) (io_return (rows, verdicts, stats)))))))"
    if "quads (map fst rows)" for rows stats now
  proof -
    have "quads (map fst (map (\<lambda>(ip, r). (ip, classify r)) rows))" using that by (simp add: comp_def case_prod_beta)
    then show ?thesis unfolding Let_def by (intro basics keeps_blocker tune keeps_clean_up)
  qed
  show ?thesis
    unfolding controller_step_def
    by (rule io_holds_bind [OF io_holds_outer [OF keeps_reads(1)]], rule io_holds_bind [OF io_holds_outer [OF keeps_reads(3)]],
        rule io_holds_bind [OF io_holds_outer [OF keeps_states]], rule io_holds_bind [OF io_holds_outer [OF keeps_reads(2)]],
        rule io_holds_bind [OF keeps_window], assumption, rule after)
qed

lemma keeps_draw: "io_holds (\<lambda>x. P (snd x)) any (controller_draw ref_os ref_clk ref_fw args seen)"
proof (rule io_holdsI)
  fix x r y
  assume x: "P (snd x)" and run: "controller_draw ref_os ref_clk ref_fw args seen x = (r, y)"
  have "later {} (snd x) (snd y)"
    using io_stepsD [OF since.draw_steps [of _ "\<lambda>_. True" "\<lambda>v. v"] run]
    by (intro laterI) (auto simp: since.ctl_rel_def since.kept_def)
  from later_keeps [OF this _ x] show "P (snd y) \<and> (\<forall>a. r = Inr a \<longrightarrow> True)" by simp
qed

lemma keeps_turn: "io_holds (\<lambda>x. P (snd x)) any (controller_turn ref_os ref_clk ref_fw args)"
  unfolding controller_turn_def
  by (intro io_holds_bind [where Q = any] io_holds_seq io_holds_basic io_holds_outer keeps_reads keeps_step keeps_draw)

lemma step_keeps:
  assumes "sys_step s e s'" "\<not> sets_blocks e" "sys_ok s" "P (fst s)"
  shows "P (fst s')"
  using assms
proof (cases rule: sys_step.cases)
  case (packet cpu w p v w' c)
  then have "kernel_ok w" using assms(3) by (simp add: sys_ok_def kernel_live_def)
  from packet_tame [OF this packet(4,5)] tame_keeps assms(4) packet show ?thesis by simp
next
  case (tick w c n)
  have "later {} w (w\<lparr>k_clock := k_clock w + int n\<rparr>)" by (simp add: later_def kernel_live_def)
  from later_keeps [OF this] assms(4) tick show ?thesis by simp
next
  case (command turns is_root args w r out w' c)
  with assms(2,4) later_keeps [OF command_later [OF command(4)]] show ?thesis by simp
next
  case (start args w fw ctl w')
  with assms(4) later_keeps [OF io_stepsD [OF init_later start(4)]] show ?thesis by (simp add: fds)
next
  case (start_fails args w e w')
  with assms(4) later_keeps [OF io_stepsD [OF init_later start_fails(4)]] show ?thesis by (simp add: fds)
next
  case (turn fw args ctl w screen ctl' w')
  with assms(3,4) io_holdsD [OF keeps_turn, of "(ctl, w)" args "Inr screen" "(ctl', w')"] show ?thesis by (simp add: sys_ok_def)
next
  case (turn_fails fw args ctl w e ctl' w')
  with assms(3,4) io_holdsD [OF keeps_turn, of "(ctl, w)" args "Inl e" "(ctl', w')"] show ?thesis by (simp add: sys_ok_def)
next
  case (halt fw w r w' args ctl)
  have "later {} w w'" if "fw = ref_fw" using io_stepsD [OF close_later] halt(4) that by blast
  with assms(3,4) later_keeps [of "{}" w w'] halt show ?thesis by (simp add: sys_ok_def)
qed

end

section \<open>The blocks of the controller\<close>

text \<open>An entry for one address that ends, and not later than fifteen minutes from now.\<close>

definition own_block :: "int \<Rightarrow> bytes \<times> bytes \<Rightarrow> bool" where
  "own_block now = (\<lambda>(k, v). take 4 k = le_bytes 4 32 \<and> 0 < deadline v \<and> deadline v \<le> now + 900000000000)"

definition blocks_end :: "kernel \<Rightarrow> bool" where
  "blocks_end w \<longleftrightarrow> kernel_live w \<and> list_all (own_block (k_clock w)) (ref_view w FD_BLOCKLIST)"

lemma own_block_later: "own_block t e \<Longrightarrow> t \<le> t' \<Longrightarrow> own_block t' e"
  by (auto simp: own_block_def)

lemma block_lookup:
  assumes "kernel_ok w"
  shows "list_all f (ref_view w FD_BLOCKLIST) \<longleftrightarrow> (\<forall>k v. map_of (ref_view w FD_BLOCKLIST) k = Some v \<longrightarrow> f (k, v))"
proof -
  have "distinct (map fst (ref_view w FD_BLOCKLIST))"
    using ref_view_ok [OF assms fd_maps(2)] by (simp add: decl_dict_ok_def kdict_ok_def)
  then show ?thesis by (auto simp: list_all_iff dest: map_of_SomeD)
qed

lemma later_blocks:
  assumes "later S w w'" "FD_BLOCKLIST \<notin> S" "blocks_end w"
  shows "blocks_end w'"
  using assms own_block_later by (auto simp: later_def blocks_end_def list_all_iff)

lemma tame_blocks:
  assumes "blocks_end w" "kernel_ok w'" "tame w w'"
  shows "blocks_end w'"
proof -
  have rule_block: "list_all (own_block t) (ref_view x FD_BLOCKLIST) \<longleftrightarrow> list_all (own_block t) (rules x FD_BLOCKLIST)"
    if "kernel_ok x" for x t
  proof -
    have "length v = 24" if "(k, v) \<in> set (ref_view x FD_BLOCKLIST)" for k v
      using rf.block_ok [OF \<open>kernel_ok x\<close>] kdict_okD that by (fastforce simp: ref_fw_simps fds)
    then have "own_block t (k, rule_part FD_BLOCKLIST v) = own_block t (k, v)" if "(k, v) \<in> set (ref_view x FD_BLOCKLIST)" for k v
      using that by (force simp: own_block_def deadline_def rule_part_def fds)
    then show ?thesis by (force simp: rules_def list_all_iff)
  qed
  have "rules w' FD_BLOCKLIST = rules w FD_BLOCKLIST" "k_clock w' = k_clock w"
    using assms(3) by (simp_all add: tame_def fds)
  with assms tame_live [OF _ assms(2,3)] rule_block [of w] rule_block [of w'] show ?thesis
    by (auto simp: blocks_end_def kernel_live_def)
qed

lemma duration_ns:
  assumes "d \<in> set DURATIONS" "py_int_of_float (pyfloat_scale 1000000000 (Fin (of_int d))) = Inr n"
  shows "60000000000 \<le> n \<and> n \<le> 900000000000"
proof -
  have "fl 60000000000 = 60000000000" "fl 300000000000 = 300000000000" "fl 900000000000 = 900000000000"
    by (rule fl_numeral; simp)+
  with assms show ?thesis by (auto simp: DURATIONS_def Let_def trunc_rat_def max_double_def)
qed

text \<open>What a block of the controller does to the blocklist: nothing if it raises, otherwise one entry with its deadline.\<close>

lemma block_effect:
  assumes "kernel_live w" "d \<in> set DURATIONS" "length a = 4"
    and "fw_block ref_os ref_fw (quad a) (Fin (of_int d)) reason w = (r, w')"
  shows "later {FD_BLOCKLIST} w w'" "r = Inl e \<Longrightarrow> ref_view w' FD_BLOCKLIST = ref_view w FD_BLOCKLIST"
    and "r = Inr u \<Longrightarrow> \<exists>val n. map_of (ref_view w' FD_BLOCKLIST) = (map_of (ref_view w FD_BLOCKLIST))(host_key a \<mapsto> val) \<and>
      deadline val = k_clock w + n \<and> 60000000000 \<le> n \<and> n \<le> 900000000000"
proof -
  have ok: "kernel_ok w" using assms(1) by (simp add: kernel_live_def)
  note run = rf.block_run [OF ok assms(4)]
  show "later {FD_BLOCKLIST} w w'"
    using io_stepsD [OF later_only [OF since.only_block] assms(4)] by (simp add: ref_fw_simps fds)
  show "r = Inl e \<Longrightarrow> ref_view w' FD_BLOCKLIST = ref_view w FD_BLOCKLIST" using run by (simp add: ref_fw_simps fds)
  assume r: "r = Inr u"
  have "0 < d" using assms(2) by (auto simp: DURATIONS_def)
  with run r obtain val n where val: "map_of (ref_view w' FD_BLOCKLIST) = (map_of (ref_view w FD_BLOCKLIST))(host_key a \<mapsto> val)"
    "py_int_of_float (pyfloat_scale 1000000000 (Fin (of_int d))) = Inr n" "deadline val = k_clock w + n"
    using host_key_quad [OF assms(3)] by (auto simp: ref_fw_simps fds)
  with duration_ns [OF assms(2) val(2)]
  show "\<exists>val n. map_of (ref_view w' FD_BLOCKLIST) = (map_of (ref_view w FD_BLOCKLIST))(host_key a \<mapsto> val) \<and>
      deadline val = k_clock w + n \<and> 60000000000 \<le> n \<and> n \<le> 900000000000" by blast
qed

lemma block_ends:
  assumes "blocks_end w" "d \<in> set DURATIONS" "length a = 4"
    and "fw_block ref_os ref_fw (quad a) (Fin (of_int d)) reason w = (r, w')"
  shows "blocks_end w'"
proof -
  have live: "kernel_live w" "kernel_ok w" using assms(1) by (simp_all add: blocks_end_def kernel_live_def)
  note effect = block_effect [OF live(1) assms(2-4)]
  then have w': "kernel_live w'" "k_clock w \<le> k_clock w'" using live by (simp_all add: later_def)
  have "own_block (k_clock w') (k, v)" if "map_of (ref_view w' FD_BLOCKLIST) k = Some v" for k v
  proof (cases "map_of (ref_view w FD_BLOCKLIST) k = Some v")
    case True
    with assms(1) block_lookup [OF live(2)] own_block_later [OF _ w'(2)] show ?thesis by (auto simp: blocks_end_def)
  next
    case False
    with that effect(2) obtain u where "r = Inr u" by (cases r) auto
    with effect(3) that False obtain n where "k = host_key a" "deadline v = k_clock w + n" "60000000000 \<le> n" "n \<le> 900000000000"
      by (auto split: if_splits)
    with w'(2) live(1) show ?thesis by (simp add: own_block_def host_key_def kernel_live_def)
  qed
  with w' block_lookup show ?thesis by (auto simp: blocks_end_def kernel_live_def)
qed

lemma expired_ends:
  assumes "blocks_end w" "fw_remove_expired_blocks ref_os ref_fw w = (r, w')"
  shows "blocks_end w'"
proof -
  have live: "kernel_live w" "kernel_ok w" using assms(1) by (simp_all add: blocks_end_def kernel_live_def)
  have "later {FD_BLOCKLIST} w w'"
    using io_stepsD [OF since.expired_only_blocks assms(2)] by (intro laterI) (auto simp: ref_fw_simps fds)
  then have w': "kernel_live w'" "k_clock w \<le> k_clock w'" using live by (simp_all add: later_def)
  obtain now w0 where "os_ktime ref_os w = (now, w0)" by fastforce
  note ex = rf.remove_expired_run [OF live(2) this assms(2)]
  have "map_of (ref_view w FD_BLOCKLIST) k = Some v" if "map_of (ref_view w' FD_BLOCKLIST) k = Some v" for k v
    using that ex by (auto simp: ref_fw_simps fds split: option.splits if_splits)
  then have "list_all (own_block (k_clock w')) (ref_view w' FD_BLOCKLIST)"
    using assms(1) live w' own_block_later [OF _ w'(2)] by (simp add: block_lookup blocks_end_def kernel_live_def)
  with w' show ?thesis by (simp add: blocks_end_def)
qed

interpretation ending: blocklist_invariant blocks_end
  by unfold_locales (blast intro: later_blocks tame_blocks block_ends expired_ends | simp add: blocks_end_def)+

section \<open>Rules\<close>

text \<open>What only the operator may change: the keys of the allowlist, the port rules with their actions, and two settings.\<close>

definition operator_rules :: "kernel \<Rightarrow> (bytes \<times> bytes) list \<times> (bytes \<times> bytes) list \<times> int \<times> int" where
  "operator_rules w =
     (let cfg = config_ints (the (map_of (ref_view w FD_CONFIG) (zeros 4))) in
      (rules w FD_ALLOWLIST, rules w FD_PORTRULES, cfg ! 2, cfg ! 4))"

lemma operator_rules_part:
  "operator_part ref_fw (ref_view w') = operator_part ref_fw (ref_view w) \<Longrightarrow> operator_rules w' = operator_rules w"
  by (simp add: operator_part_def operator_rules_def rules_def Let_def ref_fw_simps fds)

lemma operator_rules_tame: "tame w w' \<Longrightarrow> operator_rules w' = operator_rules w"
proof -
  assume t: "tame w w'"
  then have "rules w' FD_CONFIG = rules w FD_CONFIG" by (simp add: tame_def fds)
  then have "ref_view w' FD_CONFIG = ref_view w FD_CONFIG"
    by (simp add: rules_def rule_part_def fds case_prod_beta)
  with t show ?thesis by (simp add: operator_rules_def tame_def fds)
qed

lemma operator_rules_later:
  "later S w w' \<Longrightarrow> kernel_live w \<Longrightarrow> S \<inter> {FD_ALLOWLIST, FD_PORTRULES, FD_CONFIG} = {} \<Longrightarrow>
    operator_rules w' = operator_rules w"
  by (auto simp: later_def operator_rules_def rules_def)

text \<open>The events that are the operator's own.\<close>

fun sets_rules :: "event \<Rightarrow> bool" where
  "sets_rules (Command turns is_root args) \<longleftrightarrow> touched ref_fw args \<inter> {FD_ALLOWLIST, FD_PORTRULES, FD_CONFIG} \<noteq> {}"
| "sets_rules (Start args) \<longleftrightarrow> arg_allow args \<noteq> []"
| "sets_rules _ \<longleftrightarrow> False"

lemma start_without_allow:
  "controller_init ref_os args w = (r, w') \<Longrightarrow> arg_allow args = [] \<Longrightarrow> w' = w"
  by (auto simp: controller_init_def ref_firewall_open io_simps)

lemma step_rules:
  assumes "sys_step s e s'" "\<not> sets_rules e" "sys_ok s"
  shows "operator_rules (fst s') = operator_rules (fst s)"
  using assms
proof (cases rule: sys_step.cases)
  case (packet cpu w p v w' c)
  then have "kernel_ok w" using assms(3) by (simp add: sys_ok_def kernel_live_def)
  from operator_rules_tame packet_tame [OF this packet(4,5)] packet show ?thesis by simp
next
  case (tick w c n)
  then show ?thesis by (simp add: operator_rules_def rules_def)
next
  case (command turns is_root args w r out w' c)
  with assms(2,3) operator_rules_later [OF command_later [OF command(4)]] show ?thesis by (simp add: sys_ok_def)
next
  case (start args w fw ctl w')
  with assms(2) start_without_allow [OF start(4)] show ?thesis by simp
next
  case (start_fails args w e w')
  with assms(2) start_without_allow [OF start_fails(4)] show ?thesis by simp
next
  case (turn fw args ctl w screen ctl' w')
  with assms(3) turn_live(3) [of args ctl w "Inr screen" ctl' w'] operator_rules_part [of w' w] show ?thesis by (simp add: sys_ok_def)
next
  case (turn_fails fw args ctl w e ctl' w')
  with assms(3) turn_live(3) [of args ctl w "Inl e" ctl' w'] operator_rules_part [of w' w] show ?thesis by (simp add: sys_ok_def)
next
  case (halt fw w r w' args ctl)
  have "later {} w w'" if "fw = ref_fw" using io_stepsD [OF close_later] halt(4) that by blast
  with assms(3) operator_rules_later [of "{}" w w'] halt show ?thesis by (simp add: sys_ok_def)
qed

lemma run_ok: "sys_run s es s' \<Longrightarrow> sys_ok s \<Longrightarrow> sys_ok s'"
  by (rule run_invariant [where A = "\<lambda>_. True"]) (auto intro: step_ok simp: list_all_iff)

lemma run_rules:
  assumes "sys_run s es s'" "sys_ok s" "list_all (\<lambda>e. \<not> sets_rules e) es"
  shows "operator_rules (fst s') = operator_rules (fst s)"
proof -
  have "sys_ok s' \<and> operator_rules (fst s') = operator_rules (fst s)"
    by (rule run_invariant [OF assms(1) _ assms(3), where I = "\<lambda>x. sys_ok x \<and> operator_rules (fst x) = operator_rules (fst s)"])
      (use assms(2) in \<open>auto simp: step_ok step_rules\<close>)
  then show ?thesis by simp
qed

text \<open>Every event but a start beside a running controller can happen.\<close>

lemma step_exists:
  "\<exists>s'. sys_step (w, Some (args, fw, ctl)) Turn s'" "\<exists>s'. sys_step s (Tick n) s'"
  "cpu < REF_CPUS \<Longrightarrow> \<exists>s'. sys_step s (Packet cpu p) s'"
proof -
  obtain r ctl' w' where "controller_turn ref_os ref_clk fw args (ctl, w) = (r, (ctl', w'))" by (metis prod.exhaust)
  then show "\<exists>s'. sys_step (w, Some (args, fw, ctl)) Turn s'" by (cases r) (blast intro: turn turn_fails)+
  show "\<exists>s'. sys_step s (Tick n) s'" by (cases s) (blast intro: tick)
  show "\<exists>s'. sys_step s (Packet cpu p) s'" if "cpu < REF_CPUS"
    using that by (cases s) (metis packet prod.collapse)
qed

lemma demo_start: "sys_step (boot_kernel, None) (Start demo_args) (demo_allowed, Some (demo_args, ref_fw, demo_ctl))"
  by (rule start)
    (use demo_allow in \<open>simp add: controller_init_def ref_firewall_open io_simps demo_args_def demo_ctl_def\<close>)

abbreviation demo_events :: "event list" where
  "demo_events \<equiv> [Turn, Packet 0 (demo_packet [10, 1, 2, 3]), Tick 1000000000]"

lemma demo_reach: "\<exists>w c. sys_run (demo_allowed, Some (demo_args, ref_fw, demo_ctl)) demo_events (w, c)"
proof -
  obtain s1 where s1: "sys_step (demo_allowed, Some (demo_args, ref_fw, demo_ctl)) Turn s1" using step_exists(1) by blast
  have "0 < REF_CPUS" by (simp add: REF_CPUS_def)
  then obtain s2 where s2: "sys_step s1 (Packet 0 (demo_packet [10, 1, 2, 3])) s2" using step_exists(3) by blast
  obtain w c where "sys_step s2 (Tick 1000000000) (w, c)" using step_exists(2) by fastforce
  with s1 s2 show ?thesis by (blast intro: sys_run.intros)
qed

text \<open>Whether the packet program lets a source pass as allowlisted depends on these rules only.\<close>

lemma allowed_rules:
  assumes "kernel_ok w" "kernel_ok w'" "operator_rules w' = operator_rules w" "read_c_config w = Some cfg"
  shows "\<exists>cfg'. read_c_config w' = Some cfg' \<and> cfg_features cfg' = cfg_features cfg \<and>
    (allowed_source cfg' a w' \<longleftrightarrow> allowed_source cfg a w)"
proof -
  have features: "\<exists>cfg. read_c_config x = Some cfg \<and>
      cfg_features cfg = word_of_int (config_ints (the (map_of (ref_view x FD_CONFIG) (zeros 4))) ! 2)" if "kernel_ok x" for x
    using config_present [OF that] by (auto simp: read_c_config_def le_bytes_zero get32_def config_ints_def fds)
  obtain cfg' where cfg': "read_c_config w' = Some cfg'" "cfg_features cfg' = cfg_features cfg"
    using features [OF assms(1)] features [OF assms(2)] assms(3,4) by (auto simp: operator_rules_def Let_def)
  have found: "lookup_entry FD_ALLOWLIST k x \<noteq> None \<longleftrightarrow> list_ex (\<lambda>e. lpm_matches (fst e) k) (rules x FD_ALLOWLIST)" for k x
    by (simp add: lookup_entry_def fds ref_decls lpm_longest_None filter_empty_conv list_ex_iff rules_def case_prod_beta)
  have "rules w' FD_ALLOWLIST = rules w FD_ALLOWLIST" using assms(3) by (simp add: operator_rules_def Let_def)
  then show ?thesis using cfg' found by (auto simp: allowed_source_def)
qed

section \<open>Properties\<close>

text \<open>
  C5. Whatever happens after loading, in any order - packets with any bytes on any CPU, commands of
  the operator with any arguments, controllers that start, turn, stop and die -, the maps keep
  the types that the packet program declares, and every query of the control plane returns a value:
  none of them can meet an entry that it cannot decode.
\<close>

theorem reachable_reads_succeed:
  assumes "sys_run (boot_kernel, None) es (w, c)" "length saddr = 4"
  shows "kernel_ok w \<and> is_ok (fst (fw_read_states ref_os ref_fw w)) \<and> is_ok (fst (fw_read_stats ref_os ref_fw w)) \<and>
    is_ok (fst (fw_read_config ref_os ref_fw w)) \<and> is_ok (fst (fw_list_allowed ref_os ref_fw w)) \<and>
    is_ok (fst (fw_list_blocked ref_os ref_fw b w)) \<and> is_ok (fst (fw_list_port_rules ref_os ref_fw w)) \<and>
    is_ok (fst (fw_is_allowed ref_os ref_fw (quad saddr) w)) \<and> is_ok (fst (fw_is_blocked ref_os ref_fw (quad saddr) w))"
proof -
  have ok: "kernel_ok w" using run_ok [OF assms(1) boot_ok] by (simp add: sys_ok_def kernel_live_def)
  note runs = rf.read_states_run rf.read_stats_run rf.read_config_run rf.list_allowed_run rf.list_port_rules_run rf.is_allowed_run
  note here = runs [OF ok prod.collapse [symmetric]]
  have "is_ok (fst (fw_is_allowed ref_os ref_fw (quad saddr) w))"
    using here(6) [of "quad saddr"] host_key_quad [OF assms(2)] by simp
  moreover have "is_ok (fst (fw_list_allowed ref_os ref_fw w))" "is_ok (fst (fw_list_port_rules ref_os ref_fw w))"
    using here(4,5) by auto
  ultimately show ?thesis
    using ok here(1-3) rf.list_blocked_total [OF ok, of b] ref_is_blocked [OF ok host_key_quad [OF assms(2)]] by simp
qed

theorem reachable_reads_succeed_witness:
  "\<exists>w c. sys_run (boot_kernel, None) (Start demo_args # demo_events) (w, c) \<and> kernel_ok w \<and>
     is_ok (fst (fw_read_states ref_os ref_fw w)) \<and> is_ok (fst (fw_is_blocked ref_os ref_fw (quad [10, 1, 2, 3]) w))"
proof -
  obtain w c where run: "sys_run (boot_kernel, None) (Start demo_args # demo_events) (w, c)"
    using demo_reach demo_start by (blast intro: sys_run.more)
  with reachable_reads_succeed [OF run, of "[10, 1, 2, 3]"] show ?thesis by auto
qed

text \<open>
  C3. No block of the controller is for ever or for a network. As long as no command of the operator
  writes to the blocklist, every entry there, at any time, is for a single address and ends,
  within fifteen minutes at the latest.
\<close>

theorem automatic_blocks_end:
  assumes "sys_run (boot_kernel, None) es (w, c)" "list_all (\<lambda>e. \<not> sets_blocks e) es"
  shows "list_all (own_block (k_clock w)) (ref_view w FD_BLOCKLIST)"
proof -
  have "sys_ok (boot_kernel, None) \<and> blocks_end (fst (boot_kernel, None))"
    using boot_ok by (simp add: sys_ok_def blocks_end_def) (simp add: boot_views fds)
  then have "sys_ok (w, c) \<and> blocks_end (fst (w, c))"
    by (rule run_invariant [OF assms(1) _ assms(2)]) (auto simp: step_ok ending.step_keeps)
  then show ?thesis by (simp add: blocks_end_def)
qed

theorem automatic_blocks_end_witness:
  "\<exists>w c. sys_run (boot_kernel, None) (Start demo_args # demo_events) (w, c) \<and>
     list_all (own_block (k_clock w)) (ref_view w FD_BLOCKLIST)"
proof -
  obtain w c where run: "sys_run (boot_kernel, None) (Start demo_args # demo_events) (w, c)"
    using demo_reach demo_start by (blast intro: sys_run.more)
  with automatic_blocks_end [OF run] show ?thesis by auto
qed

text \<open>
  C4. Only the operator changes the rules. Over any run in which no command writes to the allowlist,
  the port rules or the settings and no controller is started with \<open>--allow\<close>, the prefixes of
  the allowlist, the port rules with their actions on every CPU, the enabled stages and the default
  policy stay what they are: neither packets nor the controller can touch them.
\<close>

theorem rules_are_the_operators:
  assumes "sys_run (boot_kernel, None) es (w, c)" "sys_run (w, c) es' (w', c')" "list_all (\<lambda>e. \<not> sets_rules e) es'"
  shows "operator_rules w' = operator_rules w"
  using run_rules [OF assms(2) run_ok [OF assms(1) boot_ok] assms(3)] by simp

theorem rules_are_the_operators_witness:
  "\<exists>w c. sys_run (demo_allowed, Some (demo_args, ref_fw, demo_ctl)) demo_events (w, c) \<and>
     operator_rules w = operator_rules demo_allowed"
proof -
  obtain w c where run: "sys_run (demo_allowed, Some (demo_args, ref_fw, demo_ctl)) demo_events (w, c)"
    using demo_reach by blast
  have "sys_run (boot_kernel, None) [Start demo_args] (demo_allowed, Some (demo_args, ref_fw, demo_ctl))"
    by (rule sys_run.more [OF demo_start sys_run.nothing])
  from rules_are_the_operators [OF this run] run show ?thesis by auto
qed

text \<open>
  C2. A source that the operator has allowlisted keeps passing. Once \<open>is_allowed\<close> says yes for an
  address and the allowlist is on, then after any further run without changes of the rules - attacks
  included, and whatever the controller makes of them - every IPv4 packet of this source passes.
\<close>

theorem allowlisted_keeps_passing:
  assumes "sys_run (boot_kernel, None) es (w, c)" "read_c_config w = Some cfg" "feat cfg FEAT_ALLOWLIST"
    and "fst (fw_is_allowed ref_os ref_fw (quad (ip_saddr ip)) w) = Inr True"
    and "sys_run (w, c) es' (w', c')" "list_all (\<lambda>e. \<not> sets_rules e) es'"
    and "cpu < REF_CPUS" "parse_l3 p = L3Ip ip"
  shows "fst (xdp_firewall cpu now p w') = XDP_PASS"
proof -
  note ok = run_ok [OF assms(1) boot_ok] run_ok [OF assms(5) run_ok [OF assms(1) boot_ok]]
  then have k: "kernel_ok w" "kernel_ok w'" by (simp_all add: sys_ok_def kernel_live_def)
  have same: "operator_rules w' = operator_rules w" using run_rules [OF assms(5) ok(1) assms(6)] by simp
  have "allowed_source cfg (ip_saddr ip) w"
    using assms(3,4) allowed_source_agrees [OF k(1) saddr_length [OF assms(8)]] by (simp add: allowed_source_def)
  then obtain cfg' where "read_c_config w' = Some cfg'" "allowed_source cfg' (ip_saddr ip) w'"
    using allowed_rules [OF k same assms(2)] by blast
  with xdp_run [OF k(2) assms(7) prod.collapse [symmetric]] assms(8)
  obtain fs where "counted fs cpu (fst (xdp_firewall cpu now p w')) STAT_PASS_ALLOWLIST (arrived cpu p w')
      (snd (xdp_firewall cpu now p w'))" by fastforce
  then show ?thesis by (simp add: counted_def)
qed

theorem allowlisted_keeps_passing_witness:
  "\<exists>w c. sys_run (demo_allowed, Some (demo_args, ref_fw, demo_ctl)) demo_events (w, c) \<and>
     fst (xdp_firewall 1 7 (demo_packet [198, 51, 100, 7]) w) = XDP_PASS"
proof -
  obtain w c where run: "sys_run (demo_allowed, Some (demo_args, ref_fw, demo_ctl)) demo_events (w, c)"
    using demo_reach by blast
  have "sys_run (boot_kernel, None) [Start demo_args] (demo_allowed, Some (demo_args, ref_fw, demo_ctl))"
    by (rule sys_run.more [OF demo_start sys_run.nothing])
  from allowlisted_keeps_passing [OF this boot_features [OF demo_allowed_view] _ _ run _ _ demo_parse(2), of 1 7] run show ?thesis
    by (auto simp: feature_bits demo_ip_info_def demo_allowed_yes REF_CPUS_def)
qed

end
