(* ===== verification/Fw_System_Live.thy ===== *)
theory Fw_System_Live
  imports Fw_System_Props
begin

text \<open>
  What the firewall is for: a source that goes on attacking is blocked, and its packets are dropped.
  The verdicts of one step of the controller are followed through the blocker and the map into the
  packet program, over whatever else happens in the minute after it.
\<close>

section \<open>The blocker blocks\<close>

lemma loop_steps:
  assumes "preorder_on_states R" "\<And>w. R w (snd (env_time env w))" "\<And>w. R w (snd (env_strftime env w))"
    and "\<And>ip w. R w (snd (env_is_allowed env ip w))"
    and "\<And>ip d w. ip \<in> fst ` set vs \<Longrightarrow> d \<in> set DURATIONS \<Longrightarrow> R w (snd (env_block env ip d BLOCK_AUTO w))"
    and "blocker_loop env now n vs (b, w) = (r, (b', w'))"
  shows "R w w'"
proof (rule loop_rule [OF assms(6), where I = "\<lambda>_ c w'. R w w'" and J = "\<lambda>c w'. R w w'"])
  show "R w w" using assms(1) by (simp add: preorder_on_states_def)
  fix ip reason n c w1 r1 c' w2
  assume vs: "(ip, reason) \<in> set vs" and I: "R w w1" and v: "blocker_visit env now ip reason n (c, w1) = (r1, (c', w2))"
  have "ip \<in> fst ` set vs" using vs by force
  then have "R w1 w2" using visit_steps [OF assms(1-3) _ _ v] assms(4,5) by auto
  with I assms(1) have "R w w2" unfolding preorder_on_states_def by metis
  then show "case r1 of Inl _ \<Rightarrow> R w w2 | Inr _ \<Rightarrow> R w w2" by (simp split: sum.splits)
qed

text \<open>
  \<open>I\<close> holds of the world while the loop runs, \<open>B\<close> once the source is blocked. If the source has a strike,
  is flagged in this window and no more than 32 sources are, the loop gets to \<open>B\<close> or raises.
\<close>

lemma loop_blocks:
  assumes "blocker_loop env now n vs (b, w) = (Inr (), (b', w'))" "I w"
    and "(ip, Some why) \<in> set vs" "distinct (map fst vs)"
    and "1 \<le> dict_get (strikes b) ip 0" "dict_get (until b) ip 0 \<le> t" "\<not> dry_run b"
    and "n + int (length (filter (\<lambda>v. snd v \<noteq> None) vs)) \<le> 32"
    and time: "\<And>w. I w \<Longrightarrow> t \<le> fst (env_time env w) \<and> I (snd (env_time env w)) \<and> (B w \<longrightarrow> B (snd (env_time env w)))"
    and stamp: "\<And>w. I w \<Longrightarrow> I (snd (env_strftime env w)) \<and> (B w \<longrightarrow> B (snd (env_strftime env w)))"
    and asks: "\<And>ip w. I w \<Longrightarrow> I (snd (env_is_allowed env ip w)) \<and> (B w \<longrightarrow> B (snd (env_is_allowed env ip w)))"
    and not_allowed: "\<And>w. I w \<Longrightarrow> fst (env_is_allowed env ip w) \<noteq> Inr True"
    and other: "\<And>ip' d w. ip' \<in> fst ` set vs \<Longrightarrow> d \<in> set DURATIONS \<Longrightarrow> I w \<Longrightarrow>
      I (snd (env_block env ip' d BLOCK_AUTO w)) \<and> (B w \<longrightarrow> B (snd (env_block env ip' d BLOCK_AUTO w)))"
    and own: "\<And>d w w'. d \<in> set DURATIONS \<Longrightarrow> I w \<Longrightarrow> env_block env ip d BLOCK_AUTO w = (Inr (), w') \<Longrightarrow> B w'"
  shows "B w'"
  using assms(1-8) other
proof (induction vs arbitrary: n b w)
  case (Cons v vs)
  define R where "R = (\<lambda>w w'. I w \<longrightarrow> I w' \<and> (B w \<longrightarrow> B w'))"
  have pre: "preorder_on_states R" by (auto simp: preorder_on_states_def R_def)
  have steps: "R w (snd (env_time env w))" "R w (snd (env_strftime env w))" "R w (snd (env_is_allowed env ip' w))" for w ip'
    using time stamp asks by (simp_all add: R_def)
  have block: "R w (snd (env_block env ip' d BLOCK_AUTO w))" if "ip' \<in> fst ` set (v # vs)" "d \<in> set DURATIONS" for ip' d w
    using Cons.prems(9) that by (simp add: R_def)
  obtain ip' reason where v: "v = (ip', reason)" by fastforce
  obtain n1 b1 w1 where one: "blocker_visit env now ip' reason n (b, w) = (Inr n1, (b1, w1))"
    "blocker_loop env now n1 vs (b1, w1) = (Inr (), (b', w'))"
    using Cons.prems(1) unfolding v blocker_loop.simps io_bind_Inr by auto
  have R1: "R w w1" by (rule visit_steps [OF pre steps(1,2,3) block one(1)]) (simp_all add: v)
  show ?case
  proof (cases "ip' = ip")
    case False
    have src: "source ip b1 = source ip b" by (rule visit_frame [OF one(1)]) (use False in simp)
    then have "dict_get (strikes b1) ip 0 = dict_get (strikes b) ip 0" "dict_get (until b1) ip 0 = dict_get (until b) ip 0"
      by (simp_all add: source_def dict_get_def)
    moreover have "n1 \<le> n + (if reason = None then 0 else 1)"
      using one(1) by (cases rule: visit_cases) auto
    moreover have "dry_run b1 = dry_run b" by (rule visit_count(1) [OF one(1)])
    ultimately show ?thesis
      using Cons.prems False v R1 by (intro Cons.IH [OF one(2)]) (auto simp: R_def split: if_splits)
  next
    case True
    then have why: "reason = Some why" using Cons.prems(3,4) v by (force simp: rev_image_eqI)
    have "B w1"
      using one(1)
    proof (cases rule: visit_cases)
      case (issued why' w2)
      have "I w2" using issued(3) time asks Cons.prems(2) by (metis snd_conv)
      from issued(4) show ?thesis
      proof (cases rule: issue_block_cases)
        case (blocked d w3 ts msg)
        have d: "d \<in> set DURATIONS" using blocked(2) by (rule py_index_mem)
        have "env_block env ip d BLOCK_AUTO w2 = (Inr (), w3)" using blocked(3) Cons.prems(7) True by simp
        then have "B w3" "I w3" using own [OF d \<open>I w2\<close>] block [of ip' d w2] d \<open>I w2\<close> True v by (auto simp: R_def)
        with stamp [of w3] blocked(4) show ?thesis by simp
      qed simp
    next
      case (allowlisted why' w2 ts msg)
      then show ?thesis using not_allowed time Cons.prems(2) True by (metis fst_conv)
    qed (use why True Cons.prems(2,5,6,8) v time in \<open>force+\<close>)
    moreover have "I w1" using R1 Cons.prems(2) by (simp add: R_def)
    moreover have "R w1 w'"
      by (rule loop_steps [OF pre steps(1,2,3) block one(2)]) simp_all
    ultimately show ?thesis by (simp add: R_def)
  qed
qed simp

section \<open>The minute after a block\<close>

text \<open>The entry of an address that lasts until a minute after \<open>t\<close>.\<close>

definition minute_block :: "int \<Rightarrow> bytes \<Rightarrow> kernel \<Rightarrow> bool" where
  "minute_block t a w \<longleftrightarrow> (\<exists>v. map_of (ref_view w FD_BLOCKLIST) (host_key a) = Some v \<and> t + 60000000000 \<le> deadline v)"

text \<open>It is there, or the minute is over.\<close>

definition held :: "int \<Rightarrow> bytes \<Rightarrow> kernel \<Rightarrow> bool" where
  "held t a w \<longleftrightarrow> kernel_live w \<and> t \<le> k_clock w \<and> (minute_block t a w \<or> t + 60000000000 \<le> k_clock w)"

lemma minute_block_set:
  assumes "kernel_live w" "t \<le> k_clock w" "d \<in> set DURATIONS" "length a' = 4"
    and "fw_block ref_os ref_fw (quad a') (Fin (of_int d)) reason w = (r, w')"
  shows "minute_block t a w \<Longrightarrow> minute_block t a w'" "r = Inr () \<Longrightarrow> minute_block t a' w'"
proof -
  note effect = block_effect [OF assms(1,3-5)]
  show "minute_block t a w \<Longrightarrow> minute_block t a w'"
    using effect(2,3) assms(2) by (cases r) (fastforce simp: minute_block_def)+
  show "r = Inr () \<Longrightarrow> minute_block t a' w'"
    using effect(3) assms(2) by (fastforce simp: minute_block_def)
qed

lemma minute_block_tame:
  assumes "kernel_ok w" "kernel_ok w'" "tame w w'" "minute_block t a w"
  shows "minute_block t a w'"
proof -
  have deadlines: "map_of (rules x FD_BLOCKLIST) k = map_option (rule_part FD_BLOCKLIST) (map_of (ref_view x FD_BLOCKLIST) k)" for x k
    unfolding rules_def by (induction "ref_view x FD_BLOCKLIST") (auto simp: map_of_map)
  have part: "deadline (rule_part FD_BLOCKLIST v) = deadline v" if "map_of (ref_view x FD_BLOCKLIST) k = Some v" "kernel_ok x" for x k v
  proof -
    have "length v = 24" using kdict_okD [OF rf.block_ok [OF that(2)]] map_of_SomeD [OF that(1)] by (fastforce simp: ref_fw_simps fds)
    then show ?thesis by (simp add: deadline_def rule_part_def fds)
  qed
  have "rules w' FD_BLOCKLIST = rules w FD_BLOCKLIST" using assms(3) by (simp add: tame_def fds)
  moreover obtain v where v: "map_of (ref_view w FD_BLOCKLIST) (host_key a) = Some v" "t + 60000000000 \<le> deadline v"
    using assms(4) by (auto simp: minute_block_def)
  ultimately have "map_option (rule_part FD_BLOCKLIST) (map_of (ref_view w' FD_BLOCKLIST) (host_key a)) = Some (rule_part FD_BLOCKLIST v)"
    using deadlines [of w' "host_key a"] deadlines [of w "host_key a"] by simp
  then obtain v' where "map_of (ref_view w' FD_BLOCKLIST) (host_key a) = Some v'"
    "rule_part FD_BLOCKLIST v' = rule_part FD_BLOCKLIST v" by (auto simp: map_option_eq_Some)
  with part [OF v(1) assms(1)] part [OF _ assms(2)] v(2) show ?thesis by (metis minute_block_def)
qed

lemma minute_block_expired:
  assumes "kernel_live w" "minute_block t a w" "fw_remove_expired_blocks ref_os ref_fw w = (r, w')"
  shows "minute_block t a w' \<or> t + 60000000000 \<le> k_clock w"
proof -
  have ok: "kernel_ok w" using assms(1) by (simp add: kernel_live_def)
  obtain w0 where "os_ktime ref_os w = (k_clock w, w0)" by (simp add: ref_os_def)
  note ex = rf.remove_expired_run [OF ok this assms(3)]
  obtain v where v: "map_of (ref_view w FD_BLOCKLIST) (host_key a) = Some v" "t + 60000000000 \<le> deadline v"
    using assms(2) by (auto simp: minute_block_def)
  show ?thesis
  proof (cases "in_force (k_clock w) v")
    case True
    then show ?thesis using ex v by (auto simp: minute_block_def ref_fw_simps fds)
  next
    case False
    then show ?thesis using v(2) by (simp add: in_force_def)
  qed
qed

interpretation holding: blocklist_invariant "held t a" for t a
proof (unfold_locales, goal_cases)
  case (1 w)
  then show ?case by (simp add: held_def)
next
  case (2 S w w')
  then have "ref_view w' FD_BLOCKLIST = ref_view w FD_BLOCKLIST" "k_clock w \<le> k_clock w'" "kernel_live w'"
    by (simp_all add: later_def held_def)
  with 2 show ?case by (auto simp: held_def minute_block_def)
next
  case (3 w w')
  then have "kernel_live w'" "k_clock w' = k_clock w" using tame_live by (auto simp: held_def tame_def)
  with 3 minute_block_tame [of w w' t a] show ?case by (auto simp: held_def kernel_live_def)
next
  case (4 w d a' reason r w')
  have w: "kernel_live w" "t \<le> k_clock w" using 4 by (simp_all add: held_def)
  then have "kernel_live w'" "k_clock w \<le> k_clock w'" using block_effect(1) [OF w(1) 4(2-4)] by (simp_all add: later_def)
  with 4(1) minute_block_set(1) [OF w 4(2-4)] show ?case by (auto simp: held_def)
next
  case (5 w removed w')
  have w: "kernel_live w" "t \<le> k_clock w" using 5 by (simp_all add: held_def)
  have "later {FD_BLOCKLIST} w w'"
    using io_stepsD [OF since.expired_only_blocks 5(2)] by (intro laterI) (auto simp: ref_fw_simps fds)
  with w have "kernel_live w'" "k_clock w \<le> k_clock w'" by (simp_all add: later_def)
  with 5(1) minute_block_expired [OF w(1) _ 5(2), of t a] show ?case by (auto simp: held_def)
qed

section \<open>One step of the controller\<close>

lemma step_verdicts:
  assumes "controller_step ref_os ref_clk ref_fw args (c, w) = (Inr (rows, vs, stats), (c', w'))" "kernel_ok w"
  shows "quads (map fst vs)" "distinct (map fst vs)"
proof -
  from assms(1) obtain stats' x1 now x2 states x3 now_ns x4 rows' x5 where
    st: "io_outer (fw_read_stats ref_os ref_fw) (c, w) = (Inr stats', x1)"
      "io_outer (io_read (clk_monotonic ref_clk)) x1 = (Inr now, x2)"
      "io_outer (fw_read_states ref_os ref_fw) x2 = (Inr states, x3)"
      "io_outer (ktime_ns ref_os) x3 = (Inr now_ns, x4)"
      "with_window (window_update states now_ns) x4 = (Inr rows', x5)"
      "vs = map (\<lambda>(ip, r). (ip, classify r)) rows'"
    unfolding controller_step_def Let_def io_seq_def io_bind_Inr
    by (auto simp: io_return_def io_modify_def split: prod.splits)
  have "kernel_ok (snd x1)" using st(1) rf.read_stats_run [OF assms(2) prod.collapse [symmetric]] by (auto simp: io_outer_apply)
  moreover have "snd x2 = snd x1" using st(2) by (cases x1) (auto simp: io_outer_apply io_simps ref_clk_def)
  ultimately have "kernel_ok (snd x2)" by simp
  then have "states = states_of (rf.state_entries (snd x2))"
    using st(3) rf.read_states_run [OF _ prod.collapse [symmetric], of "snd x2"] by (cases x2) (auto simp: io_outer_apply)
  then have "quads (map fst states)"
    using kdict_okD [OF rf.state_ok [OF \<open>kernel_ok (snd x2)\<close>]] by (force simp: quads_def states_of_def)
  moreover obtain win win' where up: "window_update states now_ns win = (Inr rows', win')"
    using st(5) by (cases x4) (auto simp: with_window_def split: prod.splits)
  moreover have same: "map fst vs = map fst rows'" by (simp add: st(6) comp_def case_prod_beta)
  ultimately show "quads (map fst vs)" "distinct (map fst vs)"
    using window_update_keys [OF up] window_update_distinct [OF up] unfolding quads_def same set_map by blast+
qed

lemma step_blocks_offender:
  assumes "kernel_live w" "controller_step ref_os ref_clk ref_fw args (c, w) = (Inr (rows, vs, stats), (c', w'))"
    and "(quad a, Some why) \<in> set vs" "length a = 4" "1 \<le> dict_get (strikes (ctl_blocker c)) (quad a) 0"
    and "dict_get (until (ctl_blocker c)) (quad a) 0 \<le> of_int (k_clock w) / 1000000000" "\<not> dry_run (ctl_blocker c)"
    and "length (filter (\<lambda>v. snd v \<noteq> None) vs) \<le> 32" "fst (fw_is_allowed ref_os ref_fw (quad a) w) = Inr False"
  shows "held (k_clock w) a w'"
proof -
  let ?t = "k_clock w" and ?env = "blocker_env ref_os ref_clk ref_fw"
  let ?I = "\<lambda>x. kernel_since ?t x \<and> \<not> allowlisted_in (ref_view x FD_ALLOWLIST) (quad a)"
  have ok: "kernel_ok w" "kernel_since ?t w" using assms(1) by (simp_all add: kernel_live_def kernel_since_def)
  note vs = step_verdicts [OF assms(2) ok(1)]
  have live: "kernel_live x" "?t \<le> k_clock x" if "kernel_since ?t x" for x
    using that assms(1) by (simp_all add: kernel_live_def kernel_since_def)
  obtain b w1 b2 w2 c3 w3 c4 where ph: "kernel_since ?t w1" "ref_view w1 = ref_view w" "b = ctl_blocker c"
    "blocker_update ?env vs (b, w1) = (Inr (), (b2, w2))" "kernel_since ?t w2"
    "kernel_since ?t w3" "ref_view w3 (bm_fd (fw_blocklist ref_fw)) = ref_view w2 (bm_fd (fw_blocklist ref_fw))"
    "clean_up ref_os ref_fw args (c3, w3) = (Inr (), (c4, w'))"
    by (rule since.step_phases [OF assms(2) ok(2)])
  have not_allowed: "fst (fw_is_allowed ref_os ref_fw (quad a) x) = Inr (allowlisted_in (ref_view x FD_ALLOWLIST) (quad a))"
    if "kernel_since ?t x" for x
    using since.is_allowed_run [OF that prod.collapse [symmetric], of "quad a"] host_key_quad [OF assms(4)]
    by (simp add: allowlisted_in_def ref_fw_simps fds)
  have reads: "kernel_since ?t (snd (fw_is_allowed ref_os ref_fw ip x)) \<and> ref_view (snd (fw_is_allowed ref_os ref_fw ip x)) = ref_view x"
    if "kernel_since ?t x" for ip x
    using since.is_allowed_run [OF that prod.collapse [symmetric]] by blast
  have block: "kernel_since ?t x' \<and> ref_view x' FD_ALLOWLIST = ref_view x FD_ALLOWLIST \<and> (minute_block ?t a x \<longrightarrow> minute_block ?t a x') \<and>
      (r = Inr () \<longrightarrow> ip = quad a \<longrightarrow> minute_block ?t a x')"
    if x: "kernel_since ?t x" and ip: "ip \<in> fst ` set vs" and d: "d \<in> set DURATIONS"
      and run: "fw_block ref_os ref_fw ip (Fin (of_int d)) BLOCK_AUTO x = (r, x')" for x ip d r x'
  proof -
    obtain a' where a': "length a' = 4" "ip = quad a'" using vs(1) ip by (auto simp: quads_def)
    note set = minute_block_set [OF live [OF x] d a'(1) run [unfolded a'(2)]] block_effect(1) [OF live(1) [OF x] d a'(1) run [unfolded a'(2)]]
    then have "kernel_since ?t x'" using live [OF x] by (simp add: later_def kernel_live_def kernel_since_def)
    moreover have "ref_view x' FD_ALLOWLIST = ref_view x FD_ALLOWLIST" using set(3) live(1) [OF x] by (simp add: later_def fds)
    moreover have "a' = a" if "ip = quad a" using that a' assms(4) by (simp add: quad_inj)
    ultimately show ?thesis using set(1,2) by blast
  qed
  have "minute_block ?t a w2"
  proof (rule loop_blocks [OF update_loop [OF ph(4)], where I = ?I and ip = "quad a" and why = why and t = "of_int ?t / 1000000000"])
    show "(quad a, Some why) \<in> set vs" "distinct (map fst vs)" by (rule assms(3), rule vs(2))
    show "0 + int (length (filter (\<lambda>v. snd v \<noteq> None) vs)) \<le> 32" using assms(8) by simp
    show "?I (snd (env_time ?env w1))"
      using ph(1,2) not_allowed [OF ok(2)] assms(9) by (simp add: blocker_env_def ref_clk_def)
    show "1 \<le> dict_get (strikes b) (quad a) 0" "dict_get (until b) (quad a) 0 \<le> of_int ?t / 1000000000" "\<not> dry_run b"
      using assms(5-7) ph(3) by simp_all
  next
    fix x
    assume I: "?I x"
    show "of_int ?t / 1000000000 \<le> fst (env_time ?env x) \<and> ?I (snd (env_time ?env x)) \<and>
        (minute_block ?t a x \<longrightarrow> minute_block ?t a (snd (env_time ?env x)))"
      using I live [of x] by (simp add: blocker_env_def ref_clk_def divide_right_mono)
    show "?I (snd (env_strftime ?env x)) \<and> (minute_block ?t a x \<longrightarrow> minute_block ?t a (snd (env_strftime ?env x)))"
      using I by (simp add: blocker_env_def ref_clk_def)
    show "?I (snd (env_is_allowed ?env ip x)) \<and> (minute_block ?t a x \<longrightarrow> minute_block ?t a (snd (env_is_allowed ?env ip x)))" for ip
      using I reads [of x ip] by (simp add: blocker_env_def minute_block_def)
    show "fst (env_is_allowed ?env (quad a) x) \<noteq> Inr True" using I not_allowed [of x] by (simp add: blocker_env_def)
    show "?I (snd (env_block ?env ip d BLOCK_AUTO x)) \<and> (minute_block ?t a x \<longrightarrow> minute_block ?t a (snd (env_block ?env ip d BLOCK_AUTO x)))"
      if "ip \<in> fst ` set vs" "d \<in> set DURATIONS" for ip d
      using block [OF conjunct1 [OF I] that prod.collapse [symmetric]] I by (simp add: blocker_env_def)
    show "minute_block ?t a x'" if "d \<in> set DURATIONS" "env_block ?env (quad a) d BLOCK_AUTO x = (Inr (), x')" for d x'
      using block [OF conjunct1 [OF I] _ that(1), of "quad a" "Inr ()" x'] that(2) assms(3) by (force simp: blocker_env_def)
  qed
  then have "held ?t a w3" using ph(6,7) live by (simp add: held_def minute_block_def ref_fw_simps fds)
  moreover have "io_holds (\<lambda>x. held ?t a (snd x)) any (clean_up ref_os ref_fw args)" by (rule holding.keeps_clean_up)
  ultimately show ?thesis using io_holdsD [of "\<lambda>x. held ?t a (snd x)" any "clean_up ref_os ref_fw args" "(c3, w3)"] ph(8) by simp
qed

text \<open>And the rest of the turn keeps it.\<close>

lemma turn_blocks_offender:
  assumes "controller_step ref_os ref_clk ref_fw args (c, w) = (Inr seen, (c1, w1))" "held t a w1"
    and "controller_turn ref_os ref_clk ref_fw args (c, w) = (r, (c', w'))"
  shows "held t a w'"
proof -
  let ?P = "\<lambda>x. held t a (snd x)"
  let ?rest = "\<lambda>start. io_bind (controller_draw ref_os ref_clk ref_fw args seen) (\<lambda>screen.
     io_bind (io_outer (io_read (clk_time ref_clk))) (\<lambda>stop.
     io_seq (io_outer (io_read (\<lambda>w. ((), clk_sleep ref_clk (max 0 (fl (arg_interval args - fl (stop - start)))) w)))) (io_return screen)))"
  have "io_holds ?P any (?rest start)" for start
    by (intro io_holds_bind [where Q = any] io_holds_seq io_holds_basic io_holds_outer holding.keeps_reads holding.keeps_draw)
  moreover have "?rest (of_int (k_clock w) / 1000000000) (c1, w1) = (r, (c', w'))"
    using assms(1,3) by (simp add: controller_turn_def io_bind_apply io_outer_apply io_read_apply ref_clk_def)
  ultimately show ?thesis using io_holdsD [of ?P any "?rest (of_int (k_clock w) / 1000000000)" "(c1, w1)" r "(c', w')"] assms(2) by simp
qed

section \<open>The packet program\<close>

lemma held_drops:
  assumes "held t a w" "k_clock w < t + 60000000000" "cpu < REF_CPUS" "parse_l3 p = L3Ip ip" "ip_saddr ip = a"
    and "read_c_config w = Some cfg" "feat cfg FEAT_BLOCKLIST" "\<not> allowed_source cfg a w"
  shows "fst (xdp_firewall cpu (of_int (k_clock w)) p w) = XDP_DROP"
proof -
  let ?now = "of_int (k_clock w) :: 64 word"
  have w: "kernel_ok w" "0 \<le> k_clock w" using assms(1) by (simp_all add: held_def kernel_live_def)
  have len: "length a = 4" using saddr_length [OF assms(4)] assms(5) by simp
  obtain v where v: "map_of (ref_view w FD_BLOCKLIST) (host_key a) = Some v" "t + 60000000000 \<le> deadline v"
    using assms(1,2) by (auto simp: held_def minute_block_def)
  have "lpm_matches (host_key a) (host_key a)" by (simp add: lpm_matches_def)
  then have "kmap_find LPM_TRIE (ref_view w FD_BLOCKLIST) (host_key a) = Some v"
    using v(1) rf.block_ok [OF w(1)]
    by (subst kmap_find_lpm_Some [of 24]) (auto simp: ref_fw_simps fds lpm_matches_def intro!: exI [of _ "host_key a"])
  then obtain k where found: "lookup_entry FD_BLOCKLIST (host_key a) w = Some (k, v)"
    using lookup_entry_find [of FD_BLOCKLIST "host_key a" w] by (auto simp: fds ref_decls)
  have "uint ?now \<le> k_clock w" using w(2) by (simp add: uint_word_of_int zmod_le_nonneg_dividend)
  then have "?now < get64 0 v" using v(2) assms(2) by (simp add: word_less_def uint_get64 deadline_def)
  then have "live_block ?now cfg a w" using found assms(7) by (simp add: live_block_def)
  with xdp_run [OF w(1) assms(3) prod.collapse [symmetric], of ?now p] assms(4-6,8) show ?thesis
    by (auto simp: counted_def)
qed

section \<open>Property\<close>

text \<open>
  C1. Who attacks is dropped. Take any good state with a controller running - every state the system can
  reach is one - and a turn in which it flags a source that already has a strike, that is not allowlisted and not blocked by it
  at the time, in a window with at most 32 flagged sources. If the step of this turn returns, then for
  a minute from its start, whatever happens then - packets, more turns, restarts of the controller,
  commands that leave the rules and the blocklist alone - every IPv4 packet of this source is dropped.
\<close>

theorem offender_is_dropped:
  assumes "sys_ok (w, Some (args, fw, c))"
    and "controller_step ref_os ref_clk fw args (c, w) = (Inr (rows, verdicts, stats), (c1, w1))"
    and "(quad (ip_saddr ip), Some why) \<in> set verdicts" "length (filter (\<lambda>v. snd v \<noteq> None) verdicts) \<le> 32"
    and "1 \<le> dict_get (strikes (ctl_blocker c)) (quad (ip_saddr ip)) 0" "\<not> dry_run (ctl_blocker c)"
    and "dict_get (until (ctl_blocker c)) (quad (ip_saddr ip)) 0 \<le> of_int (k_clock w) / 1000000000"
    and "fst (fw_is_allowed ref_os ref_fw (quad (ip_saddr ip)) w) = Inr False"
    and "sys_run (w, Some (args, fw, c)) (Turn # es') (w', c')" "list_all (\<lambda>e. \<not> sets_rules e \<and> \<not> sets_blocks e) es'"
    and "k_clock w' < k_clock w + 60000000000"
    and "read_c_config w = Some cfg" "feat cfg FEAT_BLOCKLIST" "cpu < REF_CPUS" "parse_l3 p = L3Ip ip"
  shows "fst (xdp_firewall cpu (of_int (k_clock w')) p w') = XDP_DROP"
proof -
  let ?a = "ip_saddr ip" and ?t = "k_clock w"
  have len: "length ?a = 4" by (rule saddr_length [OF assms(15)])
  note ok = assms(1)
  then have live: "kernel_live w" "kernel_ok w" and fw: "fw = ref_fw" by (simp_all add: sys_ok_def kernel_live_def)
  obtain s where turn: "sys_step (w, Some (args, fw, c)) Turn s" and run: "sys_run s es' (w', c')"
    using assms(9) by (auto elim: sys_runE)
  have "held ?t ?a w1"
    by (rule step_blocks_offender [OF live(1) assms(2) [unfolded fw] assms(3) len assms(5,7,6,4,8)])
  moreover obtain r c2 w2 cc where "controller_turn ref_os ref_clk fw args (c, w) = (r, (c2, w2))" "s = (w2, cc)"
    using turn by (cases rule: sys_step.cases) auto
  ultimately have "held ?t ?a (fst s)" using turn_blocks_offender [OF assms(2) [unfolded fw]] fw by auto
  moreover have "sys_ok s" by (rule step_ok [OF turn ok])
  ultimately have "sys_ok (w', c') \<and> held ?t ?a (fst (w', c'))"
    by (intro run_invariant [OF run _ assms(10), where I = "\<lambda>s. sys_ok s \<and> held ?t ?a (fst s)"]) (auto simp: step_ok holding.step_keeps)
  then have w': "kernel_ok w'" "held ?t ?a w'" by (simp_all add: sys_ok_def kernel_live_def)
  have "operator_rules w' = operator_rules w"
    using run_rules [OF assms(9) ok] assms(10) by (simp add: list_all_iff)
  from allowed_rules [OF live(2) w'(1) this assms(12)] obtain cfg' where
    cfg': "read_c_config w' = Some cfg'" "cfg_features cfg' = cfg_features cfg" "allowed_source cfg' ?a w' \<longleftrightarrow> allowed_source cfg ?a w" by blast
  have "\<not> allowed_source cfg ?a w" using assms(8) allowed_source_agrees [OF live(2) len] by (simp add: allowed_source_def)
  with cfg' assms(13) show ?thesis by (intro held_drops [OF w'(2) assms(11,14,15) refl cfg'(1)]) auto
qed

subsection \<open>An attack\<close>

text \<open>
  The reference kernel with a clock that stands still while the controller works. Nothing in a step or
  in the drawing of the screen sleeps, so the laws may be used with a clock that does not either.
\<close>

definition kernel_still :: "int \<Rightarrow> kernel \<Rightarrow> bool" where
  "kernel_still t w \<longleftrightarrow> kernel_ok w \<and> k_clock w = t \<and> k_step w = 0"

definition still_clk :: "kernel clocks" where
  "still_clk = ref_clk\<lparr>clk_sleep := \<lambda>_ w. w\<rparr>"

lemma kernel_still_steps:
  "kernel_still t w \<Longrightarrow> os_bpf ref_os call w = (rep, w') \<Longrightarrow> kernel_still t w'"
  "kernel_still t w \<Longrightarrow> os_ktime ref_os w = (n, w') \<Longrightarrow> kernel_still t w'"
  "kernel_still t w \<Longrightarrow> kernel_ok w"
  using ref_bpf_ok [of w call] ref_bpf_clock [of call w] by (auto simp: kernel_still_def ref_os_def)

interpretation still: ctl_kernel ref_os ref_is_map "\<lambda>fd. md_kind (decl_of fd)" "\<lambda>fd. md_ksize (decl_of fd)"
  "\<lambda>fd. md_vsize (decl_of fd)" "kernel_still t" ref_view "\<lambda>_. token_pos" ref_fw still_clk for t
  by unfold_locales
    (assumption
      | rule kernel_still_steps ref.view_ok ref.ktime_view ref.lookup_view ref.next_view ref.batch_view ref.lookup_law ref.update_law
          ref.replace_law ref.delete_law ref.next_law ref.batch_law rf.allowlist_map rf.blocklist_map rf.portrules_map
          rf.srcstate_map rf.stats_map rf.config_map rf.fds_distinct rf.stats_keys rf.config_key rf.size_bound
          rcli.get_view rcli.info_view kernel_still_steps(3)
      | auto simp: kernel_still_def still_clk_def ref_clk_def io_simps; fail)+

lemma still_ktime: "kernel_still t w \<Longrightarrow> os_ktime ref_os w = (t, w)"
  by (simp add: kernel_still_def ref_os_def)

lemma ref_clk_reads:
  "clk_time ref_clk w = (of_int (k_clock w) / 1000000000, w)" "clk_monotonic ref_clk w = (of_int (k_clock w) / 1000000000, w)"
  by (simp_all add: ref_clk_def)

lemma still_env: "blocker_env ref_os ref_clk fw = blocker_env ref_os still_clk fw"
  by (simp add: blocker_env_def still_clk_def)

lemma still_draw: "controller_draw ref_os ref_clk fw args seen = controller_draw ref_os still_clk fw args seen"
  by (simp only: controller_draw_def source_line_def source_status_def still_env)

definition flood_state :: bytes where
  "flood_state = put64 OFF_PACKETS 20000 (put64 OFF_BYTES 1200000 (zeros 104))"

definition attacked :: kernel where
  "attacked = boot_kernel\<lparr>k_maps := (k_maps boot_kernel)[3 := [([10, 1, 2, 3], flood_state)]], k_batches := True, k_step := 0\<rparr>"

definition watch_args :: ctl_args where
  "watch_args = \<lparr>arg_dry_run = False, arg_no_auto_tune = True, arg_allow = [], arg_interval = 1, arg_top = 12, arg_iface = ''veth-fw''\<rparr>"

definition struck_ctl :: controller where
  "struck_ctl = \<lparr>ctl_window = \<lparr>win_prev = Some [], win_prev_ns = Some 0\<rparr>,
     ctl_blocker = (blocker_init False)\<lparr>strikes := [(quad [10, 1, 2, 3], 1)]\<rparr>, ctl_aggr = aggr_init,
     ctl_cycles = 1, ctl_prev = None, ctl_pps = 0, ctl_drop_ratio = 0\<rparr>"

lemma attacked_still: "kernel_still 1000000000 attacked"
proof -
  have "length flood_state = 104" by (simp add: flood_state_def OFF_PACKETS_def OFF_BYTES_def put64_def zeros_def)
  then have "kernel_ok (boot_kernel\<lparr>k_maps := (k_maps boot_kernel)[3 := [([10, 1, 2, 3], flood_state)]], k_batches := True\<rparr>)"
    by (intro kernel_ok_maps [OF boot_kernel_ok])
      (simp_all add: map_decls_def decl_dict_ok_def kdict_ok_def key_ok_def C_MAX_TRACKED_def)
  then show ?thesis by (simp add: kernel_still_def attacked_def kernel_ok_def boot_kernel_def)
qed

lemma attacked_views: "ref_view attacked 3 = []" "ref_view attacked 4 = []" "ref_view attacked 6 = [([10, 1, 2, 3], flood_state)]"
  "ref_view attacked 8 = [(zeros 4, boot_config)]"
  by (simp_all add: ref_view_def ref_maps attacked_def boot_kernel_def FIRST_FD_def)

definition flood_row :: row where
  "flood_row = \<lparr>row_pps = 20000, row_mean_len = 60, row_syn_ratio = 0, row_syn_fin_ratio = 0, row_icmp_ratio = 0,
     row_port_spread = 0, row_drop_ratio = 0\<rparr>"

lemma flood_measured:
  "fst (window_update [(quad [10, 1, 2, 3], decode_state flood_state)] 1000000000 \<lparr>win_prev = Some [], win_prev_ns = Some 0\<rparr>) =
     Inr [(quad [10, 1, 2, 3], flood_row)]"
  by code_simp

lemma flood_flagged: "classify flood_row = Some ''volumetric flood''"
  by (simp add: flood_row_def classify_def thresholds)

definition flood_val :: bytes where
  "flood_val = le_bytes 8 61000000000 @ zeros 8 @ le_bytes 4 BLOCK_AUTO @ zeros 4"

lemma flood_pack: "pack_ints BLOCK_VAL [61000000000, 0, BLOCK_AUTO, 0] = Inr flood_val"
  by code_simp

lemma a_minute: "py_int_of_float (pyfloat_scale 1000000000 (Fin 60)) = Inr 60000000000"
proof -
  have "fl 60000000000 = 60000000000" by (rule fl_numeral) simp
  then show ?thesis by (simp add: Let_def trunc_rat_def max_double_def)
qed

lemma attack_blocked:
  assumes "kernel_still 1000000000 w" "ref_view w = ref_view attacked"
  shows "\<exists>w'. fw_block ref_os ref_fw (quad [10, 1, 2, 3]) (Fin 60) BLOCK_AUTO w = (Inr (), w') \<and> kernel_still 1000000000 w'"
proof -
  have key: "lpm_key (quad [10, 1, 2, 3]) = Inr (host_key [10, 1, 2, 3])" by (rule host_key_quad) simp
  have "length flood_val = 24" by (simp add: flood_val_def zeros_def)
  then have "\<exists>w'. bpfmap_update ref_os (fw_blocklist ref_fw) (host_key [10, 1, 2, 3]) flood_val BPF_ANY w = (Inr (), w')"
    using ref_update_runs [OF ref_handles(2), of "host_key [10, 1, 2, 3]" flood_val w] lpm_key_ok [OF key] assms(2)
    by (simp add: ref_fw_simps ref_decls attacked_views MAX_BLOCKLIST_def)
  with still_ktime [OF assms(1)] have "\<exists>w'. fw_block ref_os ref_fw (quad [10, 1, 2, 3]) (Fin 60) BLOCK_AUTO w = (Inr (), w')"
    by (simp add: fw_block_def ktime_ns_def io_simps flood_pack key a_minute del: pyfloat_scale.simps ref_os_simps)
  with still.block_run [OF assms(1)] show ?thesis by blast
qed

lemma attack_visit:
  assumes "kernel_still 1000000000 w" "ref_view w = ref_view attacked"
  shows "\<exists>b w'. blocker_update (blocker_env ref_os ref_clk ref_fw) [(quad [10, 1, 2, 3], Some why)]
      ((blocker_init False)\<lparr>strikes := [(quad [10, 1, 2, 3], 1)]\<rparr>, w) = (Inr (), (b, w')) \<and> kernel_still 1000000000 w'"
proof -
  let ?ip = "quad [10, 1, 2, 3]"
  obtain ra w1 where a: "fw_is_allowed ref_os ref_fw ?ip w = (ra, w1)" by fastforce
  note a' = still.is_allowed_run [OF assms(1) a]
  have "ra = Inr False" using not_allowed_empty [of w "[10, 1, 2, 3]"] a assms by (simp add: kernel_still_def attacked_views)
  moreover obtain w2 where b: "fw_block ref_os ref_fw ?ip (Fin 60) BLOCK_AUTO w1 = (Inr (), w2)" "kernel_still 1000000000 w2"
    using attack_blocked [of w1] a' assms by auto
  moreover have "k_clock w = 1000000000" using assms(1) by (simp add: kernel_still_def)
  ultimately show ?thesis
    using a by (simp add: blocker_update_def blocker_visit_def blocker_is_blocked_def blocker_env_def issue_block_def io_simps
        ref_clk_def add_strike_def pop_strikes_def blocker_note_def blocker_init_def STRIKES_def MAX_PER_WINDOW_def DURATIONS_def
        py_index_def dict_get_def dict_set_def)
qed

lemma attack_step:
  "\<exists>stats c' w'. controller_step ref_os ref_clk ref_fw watch_args (struck_ctl, attacked) =
     (Inr ([(quad [10, 1, 2, 3], flood_row)], [(quad [10, 1, 2, 3], Some ''volumetric flood'')], stats), (c', w')) \<and>
     kernel_still 1000000000 w'"
proof -
  let ?ip = "quad [10, 1, 2, 3]"
  obtain rs w1 where s: "fw_read_stats ref_os ref_fw attacked = (rs, w1)" by fastforce
  note s' = still.read_stats_run [OF attacked_still s]
  obtain rt w2 where t: "fw_read_states ref_os ref_fw w1 = (rt, w2)" by fastforce
  have "kernel_still 1000000000 w1" using s' by blast
  note t' = still.read_states_run [OF this t]
  have states: "rt = Inr [(?ip, decode_state flood_state)]" using t' s' by (simp add: states_of_def ref_fw_simps attacked_views)
  have w2: "kernel_still 1000000000 w2" "ref_view w2 = ref_view attacked" using s' t' by auto
  note still_ktime [OF w2(1)]
  moreover obtain x where "window_update [(?ip, decode_state flood_state)] 1000000000 \<lparr>win_prev = Some [], win_prev_ns = Some 0\<rparr> =
      (Inr [(?ip, flood_row)], x)" using flood_measured by (metis prod.collapse)
  moreover obtain b w4 where "blocker_update (blocker_env ref_os ref_clk ref_fw) [(?ip, Some ''volumetric flood'')]
      ((blocker_init False)\<lparr>strikes := [(?ip, 1)]\<rparr>, w2) = (Inr (), (b, w4))" "kernel_still 1000000000 w4"
    using attack_visit [OF w2] by blast
  ultimately show ?thesis
    using s s' t states flood_flagged
    by (simp add: controller_step_def io_simps ref_clk_reads ktime_ns_def with_window_def with_blocker_def struck_ctl_def Let_def
        update_load_def measure_load_def auto_tune_def clean_up_def watch_args_def del: ref_os_simps)
qed

text \<open>The turn that follows ends within the second for which it sleeps.\<close>

lemma attack_turn:
  assumes "controller_turn ref_os ref_clk ref_fw watch_args (struck_ctl, attacked) = (r, (c, w))"
  shows "k_clock w \<le> 2000000000"
proof -
  obtain stats c1 w1 where step: "controller_step ref_os ref_clk ref_fw watch_args (struck_ctl, attacked) =
      (Inr ([(quad [10, 1, 2, 3], flood_row)], [(quad [10, 1, 2, 3], Some ''volumetric flood'')], stats), (c1, w1))"
    "kernel_still 1000000000 w1" using attack_step by blast
  let ?seen = "([(quad [10, 1, 2, 3], flood_row)], [(quad [10, 1, 2, 3], Some ''volumetric flood'')], stats)"
  obtain d c2 w2 where draw: "controller_draw ref_os ref_clk ref_fw watch_args ?seen (c1, w1) = (d, (c2, w2))"
    by (metis prod.exhaust)
  have "still.ctl_rel 1000000000 (\<lambda>_. True) (\<lambda>_. ()) (c1, w1) (snd (controller_draw ref_os ref_clk ref_fw watch_args ?seen (c1, w1)))"
    using still.draw_steps [where t = 1000000000] unfolding io_steps_def still_draw by blast
  then have "kernel_still 1000000000 w2"
    using draw step(2) by (simp add: still.ctl_rel_def still.kept_def)
  then have "k_clock attacked = 1000000000" "k_clock w2 = 1000000000"
    using attacked_still by (simp_all add: kernel_still_def)
  then show ?thesis
    using assms step(1) draw
    by (cases d) (auto simp: controller_turn_def io_simps ref_clk_reads ref_clk_def watch_args_def trunc_rat_def)
qed

theorem offender_is_dropped_witness:
  "\<exists>w c. sys_run (attacked, Some (watch_args, ref_fw, struck_ctl)) [Turn] (w, c) \<and>
     fst (xdp_firewall 0 (of_int (k_clock w)) (demo_packet [10, 1, 2, 3]) w) = XDP_DROP"
proof -
  let ?s = "(attacked, Some (watch_args, ref_fw, struck_ctl))"
  have ok: "kernel_ok attacked" "k_clock attacked = 1000000000" "k_step attacked = 0" using attacked_still by (simp_all add: kernel_still_def)
  obtain stats c1 w1 where step: "controller_step ref_os ref_clk ref_fw watch_args (struck_ctl, attacked) =
      (Inr ([(quad [10, 1, 2, 3], flood_row)], [(quad [10, 1, 2, 3], Some ''volumetric flood'')], stats), (c1, w1))"
    using attack_step by blast
  obtain w c where turn: "sys_step ?s Turn (w, c)" using step_exists(1) by (metis prod.exhaust)
  then have run: "sys_run ?s [Turn] (w, c)" by (rule sys_run.more [OF _ sys_run.nothing])
  obtain r c' where "controller_turn ref_os ref_clk ref_fw watch_args (struck_ctl, attacked) = (r, (c', w))"
    using turn by (cases rule: sys_step.cases) auto
  then have "k_clock w < k_clock attacked + 60000000000" using attack_turn ok(2) by fastforce
  then have "fst (xdp_firewall 0 (of_int (k_clock w)) (demo_packet [10, 1, 2, 3]) w) = XDP_DROP"
    using ok not_allowed_empty [OF ok(1) attacked_views(1), of "[10, 1, 2, 3]"]
    by (intro offender_is_dropped [OF _ step _ _ _ _ _ _ run _ _ boot_features [OF attacked_views(4)] _ _ demo_parse(1)])
      (simp_all add: sys_ok_def kernel_live_def demo_ip_info_def struck_ctl_def blocker_init_def dict_get_def feature_bits REF_CPUS_def)
  with run show ?thesis by blast
qed


text \<open>In the attack, the one block the step adds is that of the attacker.\<close>

lemma attacker_offends:
  "{key_of_ip ip |ip. \<exists>why. (ip, Some why) \<in> set [(quad [10, 1, 2, 3], Some ''volumetric flood'')] \<and>
      \<not> allowlisted_in (ref_view attacked (bm_fd (fw_allowlist ref_fw))) ip \<and>
      1 \<le> dict_get (strikes (ctl_blocker struck_ctl)) ip 0} = {host_key [10, 1, 2, 3]}"
proof -
  have "lpm_key (quad [10, 1, 2, 3]) = Inr (host_key [10, 1, 2, 3])" by (rule host_key_quad) simp
  then show ?thesis
    by (auto simp: key_of_ip_def allowlisted_in_def ref_fw_simps attacked_views struck_ctl_def dict_get_def kmap_find_def)
qed


end
