(* ===== verification/Py_Stats.thy ===== *)
theory Py_Stats
  imports Py_Format "HOL-Library.Multiset"
begin

text \<open>
  What the benchmark reports use of the standard library besides text: \<open>float\<close> of a decimal
  literal, \<open>statistics.median\<close>, \<open>min\<close>, \<open>sorted\<close>, and the rows that \<open>csv.DictReader\<close> delivers
  (a dictionary from column names to texts each). The files hold numbers that the scripts print
  in decimal notation; the other spellings that \<open>float\<close> accepts (\<open>inf\<close>, \<open>nan\<close>, underscores) are
  refused here.
\<close>

type_synonym csv_row = "(string, string) dict"

section \<open>Reading numbers\<close>

text \<open>A sign, if there is one, and the rest.\<close>

definition split_sign :: "string \<Rightarrow> bool \<times> string" where
  "split_sign s =
     (case s of
        [] \<Rightarrow> (False, [])
      | c # cs \<Rightarrow> if c = CHR ''-'' then (True, cs) else if c = CHR ''+'' then (False, cs) else (False, c # cs))"

definition exponent_of :: "string \<Rightarrow> int result" where
  "exponent_of s =
     (case split_sign s of (neg, ds) \<Rightarrow>
        if ds = [] \<or> \<not> list_all is_ascii_digit ds then Inl ValueError
        else Inr (if neg then - int (nat_of_digits ds) else int (nat_of_digits ds)))"

definition decimal_of :: "string \<Rightarrow> rat result" where
  "decimal_of s =
     (case py_partition (CHR ''.'') s of (whole, dec) \<Rightarrow>
        if whole @ dec = [] \<or> \<not> list_all is_ascii_digit (whole @ dec) then Inl ValueError
        else Inr (of_nat (nat_of_digits (whole @ dec)) / 10 ^ length dec))"

definition py_float_of_str :: "string \<Rightarrow> rat result" where
  "py_float_of_str s =
     (case split_sign (py_strip s) of (neg, t) \<Rightarrow>
        let mant = takeWhile (\<lambda>c. c \<noteq> CHR ''e'' \<and> c \<noteq> CHR ''E'') t in
        result_bind (decimal_of mant) (\<lambda>m.
        result_bind (if length mant = length t then Inr 0 else exponent_of (drop (length mant + 1) t)) (\<lambda>e.
        let q = fl (m * 10 powi e) in Inr (if neg then - q else q))))"

text \<open>\<open>float(r[f])\<close>\<close>

definition float_field :: "csv_row \<Rightarrow> string \<Rightarrow> rat result" where
  "float_field r f = result_bind (dict_index r f) py_float_of_str"

section \<open>Statistics\<close>

fun py_min :: "'a::linorder list \<Rightarrow> 'a result" where
  "py_min [] = Inl ValueError"
| "py_min (x # xs) = Inr (fold min xs x)"

text \<open>\<open>statistics.median\<close>: the middle of the sorted values, or the mean of the two in the middle.\<close>

definition py_median :: "rat list \<Rightarrow> rat result" where
  "py_median xs =
     (let v = sort xs; n = length v in
      if n = 0 then Inl ValueError
      else if odd n then Inr (v ! (n div 2))
      else Inr (fl (fl (v ! (n div 2 - 1) + v ! (n div 2)) / 2)))"

section \<open>Lemmas\<close>

lemma fold_min_Min: "fold min xs x = Min (set (x # xs))"
  by (simp only: Min.set_eq_fold)

lemma py_min_Inr: "xs \<noteq> [] \<Longrightarrow> py_min xs = Inr (Min (set xs))"
  by (cases xs) (simp_all add: fold_min_Min)

lemma median_perm: "mset xs = mset ys \<Longrightarrow> py_median xs = py_median ys"
proof -
  assume "mset xs = mset ys"
  then have "sort xs = sort ys" by (metis properties_for_sort sorted_sort mset_sort)
  then show ?thesis by (simp add: py_median_def)
qed

text \<open>The values are doubles, and rounding keeps the median between the smallest and the largest.\<close>

lemma is_double_uminus: "is_double q \<Longrightarrow> is_double (- q)"
proof -
  assume "is_double q"
  then obtain m e where "q = of_int m * 2 powi e" "\<bar>m\<bar> \<le> 2 ^ 53" "- 1074 \<le> e"
    unfolding is_double_def by blast
  then have "- q = of_int (- m) * 2 powi e \<and> \<bar>- m\<bar> \<le> 2 ^ 53 \<and> - 1074 \<le> e" by simp
  then show ?thesis unfolding is_double_def by blast
qed

lemma is_double_twice: "is_double q \<Longrightarrow> is_double (2 * q)"
proof -
  assume "is_double q"
  then obtain m e where "q = of_int m * 2 powi e" "\<bar>m\<bar> \<le> 2 ^ 53" "- 1074 \<le> e"
    unfolding is_double_def by blast
  then have "2 * q = of_int m * 2 powi (e + 1) \<and> \<bar>m\<bar> \<le> 2 ^ 53 \<and> - 1074 \<le> e + 1"
    by (simp add: powi2_Suc)
  then show ?thesis unfolding is_double_def by blast
qed

lemma is_double_0 [simp]: "is_double 0"
  using is_double_of_int [of 0] by simp

lemma is_double_fl: "is_double (fl q)"
proof -
  have pos: "is_double (fl_pos p)" if "0 < p" for p
  proof -
    let ?r = "p / 2 powi fexp p"
    have "p < 2 powi (ilog2 p + 1)" using that by (simp add: ilog2_bounds)
    also have "\<dots> \<le> 2 powi (fexp p + 53)" by (simp add: fexp_def)
    finally have "?r < 2 powi 53" by (simp add: power_int_add divide_less_eq mult.commute)
    then have "?r \<le> of_int (2 ^ 53)" by simp
    then have "round_even ?r \<le> 2 ^ 53" by (rule round_even_le_of_int)
    moreover have "0 \<le> round_even ?r" using that by (intro round_even_ge_of_int) simp
    ultimately show ?thesis
      unfolding is_double_def fl_pos_def by (intro exI [of _ "round_even ?r"] exI [of _ "fexp p"]) (simp add: fexp_def)
  qed
  from pos [of q] pos [of "- q"] is_double_uminus show ?thesis by (auto simp: fl_def)
qed

lemma fl_between:
  assumes "is_double a" "is_double b" "a \<le> b"
  shows "a \<le> fl (fl (a + b) / 2) \<and> fl (fl (a + b) / 2) \<le> b"
proof -
  have "fl (2 * a) = 2 * a" "fl (2 * b) = 2 * b"
    using assms by (simp_all add: fl_double is_double_twice)
  then have "2 * a \<le> fl (a + b)" "fl (a + b) \<le> 2 * b"
    using fl_mono [of "2 * a" "a + b"] fl_mono [of "a + b" "2 * b"] assms(3) by simp_all
  then show ?thesis
    using fl_mono [of a "fl (a + b) / 2"] fl_mono [of "fl (a + b) / 2" b] assms(1,2) by (simp add: fl_double)
qed

lemma median_bounds:
  assumes "py_median xs = Inr m" "\<And>x. x \<in> set xs \<Longrightarrow> is_double x"
  shows "Min (set xs) \<le> m \<and> m \<le> Max (set xs)"
proof -
  let ?v = "sort xs"
  have ne: "xs \<noteq> []" using assms(1) by (auto simp: py_median_def Let_def)
  then have sorted_ne: "?v \<noteq> []" by (metis length_0_conv length_sort)
  have bounds: "Min (set xs) \<le> ?v ! i" "?v ! i \<le> Max (set xs)" "is_double (?v ! i)" if "i < length xs" for i
    using nth_mem [of i ?v] that assms(2) by auto
  show ?thesis
  proof (cases "odd (length xs)")
    case True
    with assms(1) sorted_ne have "m = ?v ! (length xs div 2)" by (simp add: py_median_def Let_def)
    with bounds [of "length xs div 2"] ne show ?thesis by simp
  next
    case False
    let ?a = "?v ! (length xs div 2 - 1)" and ?b = "?v ! (length xs div 2)"
    have "0 < length xs" using ne by simp
    with False have half: "0 < length xs div 2" "length xs div 2 < length xs" by presburger+
    then have le: "?a \<le> ?b" using sorted_nth_mono [of ?v "length xs div 2 - 1" "length xs div 2"] by simp
    have "m = fl (fl (?a + ?b) / 2)" using False assms(1) sorted_ne by (simp add: py_median_def Let_def)
    moreover have before: "length xs div 2 - 1 < length xs" using half by simp
    ultimately have "?a \<le> m" "m \<le> ?b"
      using fl_between [OF bounds(3) [OF before] bounds(3) [OF half(2)] le] by simp_all
    with bounds(1) [OF before] bounds(2) [OF half(2)] show ?thesis by linarith
  qed
qed

lemma float_is_double: "py_float_of_str s = Inr q \<Longrightarrow> is_double q"
  by (auto simp: py_float_of_str_def Let_def result_bind_Inr is_double_fl is_double_uminus split: prod.splits if_splits)

section \<open>Numbers printed and read\<close>

text \<open>\<open>float\<close> of a number printed with a fixed number of decimals is the printed number.\<close>

lemma nat_of_digits_append: "nat_of_digits (a @ b) = nat_of_digits a * 10 ^ length b + nat_of_digits b"
  by (induction b rule: rev_induct) (auto simp: nat_of_digits_def)

lemma length_zfill: "length s \<le> n \<Longrightarrow> length (zfill n s) = n"
  by (simp add: zfill_def)

lemma nat_of_zfill: "nat_of_digits (zfill n s) = nat_of_digits s"
proof -
  have "nat_of_digits (replicate m (CHR ''0'')) = 0" for m
    by (induction m) (auto simp: nat_of_digits_def digit_value_def code_def)
  then show ?thesis by (simp add: zfill_def nat_of_digits_append)
qed

lemma zfill_digits: "list_all is_ascii_digit s \<Longrightarrow> list_all is_ascii_digit (zfill n s)"
  by (auto simp: zfill_def list_all_iff is_ascii_digit_def)

lemma digits_plain:
  assumes "list_all is_ascii_digit ds" "c \<in> set ds"
  shows "\<not> is_space c" "c \<notin> {CHR ''e'', CHR ''E'', CHR ''.'', CHR ''-'', CHR ''+'', CHR 0x1B}"
  using assms by (auto simp: list_all_iff is_ascii_digit_def is_space_def code_def)

lemma float_of_decimal:
  assumes "whole \<noteq> []" "list_all is_ascii_digit whole" "list_all is_ascii_digit dec"
    and "s = whole \<and> dec = [] \<or> s = whole @ ''.'' @ dec"
  shows "py_float_of_str s = Inr (fl (of_nat (nat_of_digits (whole @ dec)) / 10 ^ length dec))"
proof -
  have plain: "\<not> is_space c" "c \<notin> {CHR ''e'', CHR ''E'', CHR ''-'', CHR ''+''}" if "c \<in> set s" for c
    using that assms digits_plain(1) [OF assms(2), of c] digits_plain(1) [OF assms(3), of c]
      digits_plain(2) [OF assms(2), of c] digits_plain(2) [OF assms(3), of c]
    by (auto simp: is_space_def code_def)
  obtain c cs where s: "s = c # cs" using assms(1,4) by (cases s) auto
  have strip: "py_strip s = s" using plain(1) by (intro py_strip_id) auto
  have sign: "split_sign s = (False, s)" using plain(2) [of c] s by (simp add: split_sign_def)
  have mant: "takeWhile (\<lambda>c. c \<noteq> CHR ''e'' \<and> c \<noteq> CHR ''E'') s = s" using plain(2) by (intro takeWhile_eq_all_conv [THEN iffD2]) auto
  have whole: "takeWhile (\<lambda>c. c \<noteq> CHR ''.'') (whole @ t) = whole @ takeWhile (\<lambda>c. c \<noteq> CHR ''.'') t"
    "dropWhile (\<lambda>c. c \<noteq> CHR ''.'') (whole @ t) = dropWhile (\<lambda>c. c \<noteq> CHR ''.'') t" for t
    using digits_plain(2) [OF assms(2)] by (auto intro!: takeWhile_append2 dropWhile_append2)
  have "py_partition (CHR ''.'') s = (whole, dec)"
    using assms(4) whole [of "[]"] whole [of "''.'' @ dec"]
    unfolding py_partition_def by (elim disjE conjE) (simp_all only: append_Nil2 takeWhile.simps dropWhile.simps drop_Nil append.simps
        simp_thms if_False drop_Suc_Cons drop_0 One_nat_def)
  then have "decimal_of s = Inr (of_nat (nat_of_digits (whole @ dec)) / 10 ^ length dec)"
    using assms by (simp add: decimal_of_def)
  then show ?thesis by (simp add: py_float_of_str_def strip sign mant Let_def)
qed

lemma float_of_fixed:
  assumes "0 \<le> x"
  shows "py_float_of_str (py_fixed k x) = Inr (fl (of_nat (fixed_units k x) / 10 ^ k))"
proof -
  let ?u = "fixed_units k x"
  let ?dec = "if k = 0 then [] else zfill k (digits_of_nat (?u mod 10 ^ k))"
  have len: "length ?dec = k" using length_digits [of "?u mod 10 ^ k" k] by (simp add: length_zfill)
  have "nat_of_digits (digits_of_nat (?u div 10 ^ k) @ ?dec) = ?u"
    using len by (simp add: nat_of_digits_append nat_of_zfill nat_of_digits_of_nat div_mult_mod_eq split: if_splits)
  moreover have "py_float_of_str (py_fixed k x) =
      Inr (fl (of_nat (nat_of_digits (digits_of_nat (?u div 10 ^ k) @ ?dec)) / 10 ^ length ?dec))"
    by (rule float_of_decimal) (use assms in \<open>auto simp: py_fixed_def fixed_frac_def zfill_digits\<close>)
  ultimately show ?thesis using len by simp
qed

end
