(* ===== verification/Py_Argparse.thy ===== *)
theory Py_Argparse
  imports Py_Float Py_Text Py_Stats
begin

text \<open>
  \<open>argparse\<close> as far as the two programs use it: options with and without a value, abbreviated and
  joined options, positional arguments, sub-commands, defaults, types and choices. The algorithm is the
  one of Python 3.11. A parser either returns a namespace or ends the process; \<open>Inl\<close> is the exit
  status, 0 after the help and 2 after an error. The texts of the help and of the errors are left out.
\<close>

section \<open>Values and arguments\<close>

datatype arg_val =
    NoneVal
  | BoolVal bool
  | IntVal int
  | FloatVal pyfloat
  | StrVal string
  | ListVal "arg_val list"

type_synonym namespace = "(string, arg_val) dict"

type_synonym 'a parsed = "int + 'a"

abbreviation usage_error :: "'a parsed" where "usage_error \<equiv> Inl 2"

datatype nargs = ExactlyOne | AtMostOne | OneOrMore | NoArgs | SubCommand

datatype arg_type = AsStr | AsInt | AsFloat

datatype arg_effect = Store | StoreTrue | Append | ShowHelp | RunParser

text \<open>An argument; positional if it has no option strings.\<close>

record arg_action =
  act_options :: "string list"
  act_dest :: string
  act_nargs :: nargs
  act_type :: arg_type
  act_choices :: "arg_val list option"
  act_default :: arg_val
  act_required :: bool
  act_effect :: arg_effect

text \<open>A parser: its arguments, the defaults that were set for it, and its sub-parsers by name.\<close>

datatype arg_parser = ArgumentParser "arg_action list" namespace "(string \<times> arg_parser) list"

section \<open>Building parsers\<close>

definition help_action :: arg_action where
  "help_action = \<lparr>act_options = [''-h'', ''--help''], act_dest = [], act_nargs = NoArgs, act_type = AsStr,
     act_choices = None, act_default = NoneVal, act_required = False, act_effect = ShowHelp\<rparr>"

definition new_parser :: arg_parser where
  "new_parser = ArgumentParser [help_action] [] []"

definition positional :: "string \<Rightarrow> nargs \<Rightarrow> arg_type \<Rightarrow> arg_action" where
  "positional dest n t = \<lparr>act_options = [], act_dest = dest, act_nargs = n, act_type = t, act_choices = None,
     act_default = NoneVal, act_required = (n \<noteq> AtMostOne), act_effect = Store\<rparr>"

definition valued :: "string list \<Rightarrow> string \<Rightarrow> arg_type \<Rightarrow> arg_val \<Rightarrow> arg_action" where
  "valued names dest t d = \<lparr>act_options = names, act_dest = dest, act_nargs = ExactlyOne, act_type = t,
     act_choices = None, act_default = d, act_required = False, act_effect = Store\<rparr>"

definition flag :: "string list \<Rightarrow> string \<Rightarrow> arg_action" where
  "flag names dest = \<lparr>act_options = names, act_dest = dest, act_nargs = NoArgs, act_type = AsStr,
     act_choices = None, act_default = BoolVal False, act_required = False, act_effect = StoreTrue\<rparr>"

definition appended :: "string list \<Rightarrow> string \<Rightarrow> arg_action" where
  "appended names dest = (valued names dest AsStr NoneVal)\<lparr>act_effect := Append\<rparr>"

fun add_argument :: "arg_action \<Rightarrow> arg_parser \<Rightarrow> arg_parser" where
  "add_argument a (ArgumentParser acts defs subs) = ArgumentParser (acts @ [a]) defs subs"

definition sub_action :: "string \<Rightarrow> bool \<Rightarrow> arg_action" where
  "sub_action dest required = \<lparr>act_options = [], act_dest = dest, act_nargs = SubCommand, act_type = AsStr,
     act_choices = None, act_default = NoneVal, act_required = required, act_effect = RunParser\<rparr>"

fun add_subparsers :: "string \<Rightarrow> bool \<Rightarrow> (string \<times> arg_parser) list \<Rightarrow> arg_parser \<Rightarrow> arg_parser" where
  "add_subparsers dest required ps (ArgumentParser acts defs subs) =
     ArgumentParser (acts @ [sub_action dest required]) defs ps"

text \<open>\<open>set_defaults\<close> also replaces the default of an argument that is already there.\<close>

fun set_defaults :: "namespace \<Rightarrow> arg_parser \<Rightarrow> arg_parser" where
  "set_defaults kw (ArgumentParser acts defs subs) =
     ArgumentParser
       (map (\<lambda>a. case map_of kw (act_dest a) of None \<Rightarrow> a | Some v \<Rightarrow> a\<lparr>act_default := v\<rparr>) acts)
       (foldl (\<lambda>d (k, v). dict_set k v d) defs kw) subs"

section \<open>Options and arguments on the command line\<close>

type_synonym options = "(string \<times> arg_action) list"

definition option_actions :: "arg_action list \<Rightarrow> options" where
  "option_actions acts = concat (map (\<lambda>a. map (\<lambda>s. (s, a)) (act_options a)) acts)"

text \<open>
  What \<open>_parse_optional\<close> finds: the argument, if the parser has it, the option string, and the
  separator and the text of a value that was joined to it.
\<close>

type_synonym opt_tuple = "arg_action option \<times> string \<times> (string \<times> string) option"

definition starts_with :: "string \<Rightarrow> string \<Rightarrow> bool" where
  "starts_with s p \<longleftrightarrow> take (length p) s = p"

definition option_tuples :: "options \<Rightarrow> string \<Rightarrow> opt_tuple list" where
  "option_tuples os s =
     (if starts_with s ''--'' then
        (case py_partition (CHR ''='') s of (pre, arg) \<Rightarrow>
           map (\<lambda>(name, a). (Some a, name, if CHR ''='' \<in> set s then Some (''='', arg) else None))
             (filter (\<lambda>(name, a). starts_with name pre) os))
      else
        map (\<lambda>(name, a). (Some a, name, if name = take 2 s then Some ([], drop 2 s) else None))
          (filter (\<lambda>(name, a). name = take 2 s \<or> starts_with name s) os))"

definition all_digits :: "string \<Rightarrow> bool" where
  "all_digits s \<longleftrightarrow> s \<noteq> [] \<and> list_all is_ascii_digit s"

text \<open>The regular expression \<open>^-\d+$|^-\d*\.\d+$\<close>, where \<open>$\<close> also matches before a last line feed.\<close>

definition negative_number :: "string \<Rightarrow> bool" where
  "negative_number s =
     (case (if s \<noteq> [] \<and> last s = CHR 10 then butlast s else s) of
        [] \<Rightarrow> False
      | c # r \<Rightarrow> c = CHR ''-'' \<and>
          (all_digits r \<or>
           CHR ''.'' \<in> set r \<and>
           (case py_partition (CHR ''.'') r of (w, f) \<Rightarrow> list_all is_ascii_digit w \<and> all_digits f)))"

definition parse_optional :: "options \<Rightarrow> string \<Rightarrow> opt_tuple option parsed" where
  "parse_optional os s =
     (if s = [] \<or> hd s \<noteq> CHR ''-'' then Inr None
      else if map_of os s \<noteq> None then Inr (Some (map_of os s, s, None))
      else if length s = 1 then Inr None
      else case py_partition (CHR ''='') s of (pre, arg) \<Rightarrow>
        if CHR ''='' \<in> set s \<and> map_of os pre \<noteq> None then Inr (Some (map_of os pre, pre, Some (''='', arg)))
        else case option_tuples os s of
            t # u # ts \<Rightarrow> usage_error
          | [t] \<Rightarrow> Inr (Some t)
          | [] \<Rightarrow>
              if negative_number s \<and> \<not> list_ex (\<lambda>(name, a). negative_number name) os then Inr None
              else if CHR '' '' \<in> set s then Inr None
              else Inr (Some (None, s, None)))"

text \<open>Each string on the command line is an argument, an option or the first \<open>--\<close>.\<close>

datatype arg_kind = KArg | KDash | is_opt: KOpt opt_tuple

type_synonym word_kinds = "(string \<times> arg_kind) list"

fun arg_kinds :: "options \<Rightarrow> string list \<Rightarrow> word_kinds parsed" where
  "arg_kinds os [] = Inr []"
| "arg_kinds os (s # ss) =
     (if s = ''--'' then Inr ((s, KDash) # map (\<lambda>t. (t, KArg)) ss)
      else case parse_optional os s of
          Inl e \<Rightarrow> Inl e
        | Inr t \<Rightarrow>
            (case arg_kinds os ss of
               Inl e \<Rightarrow> Inl e
             | Inr ks \<Rightarrow> Inr ((s, case t of None \<Rightarrow> KArg | Some u \<Rightarrow> KOpt u) # ks)))"

section \<open>How many strings an argument takes\<close>

text \<open>
  The patterns of \<open>_get_nargs_pattern\<close> for positional arguments. Each is greedy in all of its
  parts, so of several matches the longest comes first.
\<close>

fun group_ok :: "nargs \<Rightarrow> arg_kind list \<Rightarrow> bool" where
  "group_ok ExactlyOne ks = (case dropWhile (\<lambda>k. k = KDash) ks of [] \<Rightarrow> False | k # r \<Rightarrow> k = KArg \<and> list_all (\<lambda>k. k = KDash) r)"
| "group_ok AtMostOne ks = (case dropWhile (\<lambda>k. k = KDash) ks of [] \<Rightarrow> True | k # r \<Rightarrow> k = KArg \<and> list_all (\<lambda>k. k = KDash) r)"
| "group_ok OneOrMore ks = (case dropWhile (\<lambda>k. k = KDash) ks of [] \<Rightarrow> False | k # r \<Rightarrow> k = KArg \<and> list_all (\<lambda>k. \<not> is_opt k) r)"
| "group_ok SubCommand ks = (case dropWhile (\<lambda>k. k = KDash) ks of [] \<Rightarrow> False | k # r \<Rightarrow> k = KArg)"
| "group_ok NoArgs ks = list_all (\<lambda>k. k = KDash) ks"

text \<open>The lengths of the groups when the patterns are matched one after the other.\<close>

primrec match_groups :: "nargs list \<Rightarrow> arg_kind list \<Rightarrow> nat list option" where
  "match_groups [] ks = Some []"
| "match_groups (n # ns) ks =
     (case find (\<lambda>l. group_ok n (take l ks) \<and> match_groups ns (drop l ks) \<noteq> None) (rev [0..<Suc (length ks)]) of
        None \<Rightarrow> None
      | Some l \<Rightarrow> map_option ((#) l) (match_groups ns (drop l ks)))"

text \<open>\<open>_match_arguments_partial\<close>: as many of the arguments as possible, from \<open>i\<close> downwards.\<close>

fun match_partial :: "nargs list \<Rightarrow> arg_kind list \<Rightarrow> nat \<Rightarrow> nat list" where
  "match_partial ns ks 0 = []"
| "match_partial ns ks (Suc i) =
     (case match_groups (take (Suc i) ns) ks of Some ls \<Rightarrow> ls | None \<Rightarrow> match_partial ns ks i)"

text \<open>For an option the patterns have no \<open>-\<close>.\<close>

fun option_count :: "nargs \<Rightarrow> arg_kind list \<Rightarrow> nat option" where
  "option_count ExactlyOne ks = (case ks of KArg # _ \<Rightarrow> Some 1 | _ \<Rightarrow> None)"
| "option_count AtMostOne ks = (case ks of KArg # _ \<Rightarrow> Some 1 | _ \<Rightarrow> Some 0)"
| "option_count OneOrMore ks = (let n = length (takeWhile (\<lambda>k. k = KArg) ks) in if n = 0 then None else Some n)"
| "option_count NoArgs ks = Some 0"
| "option_count SubCommand ks = (case ks of KArg # _ \<Rightarrow> Some (length ks) | _ \<Rightarrow> None)"

section \<open>Values\<close>

text \<open>\<open>float\<close> of a text: single underscores between digits, infinities and not-a-number, and rounding to infinity.\<close>

fun no_underscores :: "bool \<Rightarrow> string \<Rightarrow> string option" where
  "no_underscores d [] = Some []"
| "no_underscores d (c # cs) =
     (if c = CHR ''_'' then
        (if d \<and> cs \<noteq> [] \<and> is_ascii_digit (hd cs) then no_underscores False cs else None)
      else map_option ((#) c) (no_underscores (is_ascii_digit c) cs))"

definition py_float :: "string \<Rightarrow> pyfloat result" where
  "py_float s =
     (case split_sign (py_lower (py_strip s)) of (neg, t) \<Rightarrow>
        if t = ''inf'' \<or> t = ''infinity'' then Inr (if neg then NegInf else PosInf)
        else if t = ''nan'' then Inr NaN
        else case no_underscores False (py_strip s) of
            None \<Rightarrow> Inl ValueError
          | Some u \<Rightarrow> result_map (\<lambda>q. if q > max_double then PosInf else if q < - max_double then NegInf else Fin q) (py_float_of_str u))"

definition get_value :: "arg_action \<Rightarrow> string \<Rightarrow> arg_val parsed" where
  "get_value a s =
     (case act_type a of
        AsStr \<Rightarrow> Inr (StrVal s)
      | AsInt \<Rightarrow> (case py_int_of_str s of Inl _ \<Rightarrow> usage_error | Inr n \<Rightarrow> Inr (IntVal n))
      | AsFloat \<Rightarrow> (case py_float s of Inl _ \<Rightarrow> usage_error | Inr q \<Rightarrow> Inr (FloatVal q)))"

definition check_value :: "arg_action \<Rightarrow> arg_val \<Rightarrow> arg_val parsed" where
  "check_value a v =
     (case act_choices a of None \<Rightarrow> Inr v | Some vs \<Rightarrow> if v \<in> set vs then Inr v else usage_error)"

definition good_value :: "arg_action \<Rightarrow> string \<Rightarrow> arg_val parsed" where
  "good_value a s = (case get_value a s of Inl e \<Rightarrow> Inl e | Inr v \<Rightarrow> check_value a v)"

fun good_values :: "arg_action \<Rightarrow> string list \<Rightarrow> arg_val list parsed" where
  "good_values a [] = Inr []"
| "good_values a (s # ss) =
     (case good_value a s of
        Inl e \<Rightarrow> Inl e
      | Inr v \<Rightarrow> (case good_values a ss of Inl e \<Rightarrow> Inl e | Inr vs \<Rightarrow> Inr (v # vs)))"

text \<open>\<open>_get_values\<close>, but for sub-commands; the first \<open>--\<close> is dropped from those of a positional argument.\<close>

definition get_values :: "arg_action \<Rightarrow> string list \<Rightarrow> arg_val parsed" where
  "get_values a ss =
     (let ts = if act_options a = [] then remove1 ''--'' ss else ss in
      if ts = [] \<and> act_nargs a = AtMostOne then
        (case act_default a of StrVal s \<Rightarrow> good_value a s | v \<Rightarrow> Inr v)
      else if length ts = 1 \<and> (act_nargs a = ExactlyOne \<or> act_nargs a = AtMostOne) then good_value a (hd ts)
      else case good_values a ts of Inl e \<Rightarrow> Inl e | Inr vs \<Rightarrow> Inr (ListVal vs))"

section \<open>Taking actions\<close>

record parse_state =
  ps_ns :: namespace
  ps_seen :: "arg_action list"
  ps_unrecognized :: "string list"

type_synonym sub_parsers = "(string \<times> (string list \<Rightarrow> (namespace \<times> string list) parsed)) list"

definition ns_update :: "namespace \<Rightarrow> namespace \<Rightarrow> namespace" where
  "ns_update ns new = foldl (\<lambda>d (k, v). dict_set k v d) ns new"

definition see :: "arg_action \<Rightarrow> parse_state \<Rightarrow> parse_state" where
  "see a st = st\<lparr>ps_seen := a # ps_seen st\<rparr>"

definition store :: "arg_action \<Rightarrow> arg_val \<Rightarrow> parse_state \<Rightarrow> parse_state" where
  "store a v st = st\<lparr>ps_ns := dict_set (act_dest a) v (ps_ns st)\<rparr>"

definition appended_items :: "arg_action \<Rightarrow> namespace \<Rightarrow> arg_val list" where
  "appended_items a ns = (case map_of ns (act_dest a) of Some (ListVal vs) \<Rightarrow> vs | _ \<Rightarrow> [])"

text \<open>
  A sub-command runs its parser in a namespace of its own, whose contents are then copied; what that
  parser does not know is kept for the end. The pattern gives a sub-command at least its name.
\<close>

definition run_sub :: "sub_parsers \<Rightarrow> arg_action \<Rightarrow> string list \<Rightarrow> parse_state \<Rightarrow> parse_state parsed" where
  "run_sub subs a ss st =
     (case ss of
        [] \<Rightarrow> usage_error
      | name # rest \<Rightarrow>
          (case map_of subs name of
             None \<Rightarrow> usage_error
           | Some sub \<Rightarrow>
               (case sub rest of
                  Inl e \<Rightarrow> Inl e
                | Inr (new, unknown) \<Rightarrow>
                    Inr (st\<lparr>ps_ns := ns_update (dict_set (act_dest a) (StrVal name) (ps_ns st)) new,
                            ps_unrecognized := ps_unrecognized st @ unknown\<rparr>))))"

definition take_action :: "sub_parsers \<Rightarrow> arg_action \<Rightarrow> string list \<Rightarrow> parse_state \<Rightarrow> parse_state parsed" where
  "take_action subs a ss st =
     (if act_effect a = RunParser then run_sub subs a ss (see a st)
      else case get_values a ss of
          Inl e \<Rightarrow> Inl e
        | Inr v \<Rightarrow>
            (case act_effect a of
               ShowHelp \<Rightarrow> Inl 0
             | StoreTrue \<Rightarrow> Inr (store a (BoolVal True) (see a st))
             | Append \<Rightarrow> Inr (store a (ListVal (appended_items a (ps_ns st) @ [v])) (see a st))
             | _ \<Rightarrow> Inr (store a v (see a st))))"

fun take_actions :: "sub_parsers \<Rightarrow> (arg_action \<times> string list) list \<Rightarrow> parse_state \<Rightarrow> parse_state parsed" where
  "take_actions subs [] st = Inr st"
| "take_actions subs ((a, ss) # todo) st =
     (case take_action subs a ss st of Inl e \<Rightarrow> Inl e | Inr st' \<Rightarrow> take_actions subs todo st')"

section \<open>The parser's loop\<close>

fun split_counts :: "nat list \<Rightarrow> 'a list \<Rightarrow> 'a list list" where
  "split_counts [] xs = []"
| "split_counts (n # ns) xs = take n xs # split_counts ns (drop n xs)"

text \<open>\<open>consume_positionals\<close>: how many strings were taken, and the positional arguments that are left.\<close>

definition consume_positionals ::
    "sub_parsers \<Rightarrow> arg_action list \<Rightarrow> word_kinds \<Rightarrow> parse_state \<Rightarrow> (nat \<times> arg_action list \<times> parse_state) parsed" where
  "consume_positionals subs pos rest st =
     (let counts = match_partial (map act_nargs pos) (map snd rest) (length pos) in
      case take_actions subs (zip pos (split_counts counts (map fst rest))) st of
        Inl e \<Rightarrow> Inl e
      | Inr st' \<Rightarrow> Inr (sum_list counts, drop (length counts) pos, st'))"

text \<open>
  The loop of \<open>consume_optional\<close>: an option with the strings that it takes, or several joined ones. The
  result is what to do, what is not known, and how many of the following strings are used.
\<close>

fun next_explicit :: "string \<Rightarrow> (string \<times> string) option" where
  "next_explicit [] = None"
| "next_explicit (c # cs) = (if c = CHR ''='' then Some (''='', cs) else Some ([], c # cs))"

function option_cluster ::
    "options \<Rightarrow> arg_action \<Rightarrow> string \<Rightarrow> (string \<times> string) option \<Rightarrow> word_kinds \<Rightarrow>
     ((arg_action \<times> string list) list \<times> string list \<times> nat) parsed" where
  "option_cluster os a name None rest =
     (case option_count (act_nargs a) (map snd rest) of
        None \<Rightarrow> usage_error
      | Some n \<Rightarrow> Inr ([(a, map fst (take n rest))], [], n))"
| "option_cluster os a name (Some (sep, arg)) rest =
     (case option_count (act_nargs a) [KArg] of
        None \<Rightarrow> usage_error
      | Some n \<Rightarrow>
          if n = 0 \<and> \<not> starts_with name ''--'' \<and> arg \<noteq> [] then
            (if sep \<noteq> [] \<or> hd arg = CHR ''-'' then usage_error
             else case map_of os [CHR ''-'', hd arg] of
                 None \<Rightarrow> Inr ([(a, [])], [CHR ''-'' # arg], 0)
               | Some a' \<Rightarrow>
                   (case option_cluster os a' [CHR ''-'', hd arg] (next_explicit (tl arg)) rest of
                      Inl e \<Rightarrow> Inl e
                    | Inr (todo, unknown, k) \<Rightarrow> Inr ((a, []) # todo, unknown, k)))
          else if n = 1 then Inr ([(a, [arg])], [], 0)
          else usage_error)"
  by pat_completeness auto
termination
proof (relation "measure (\<lambda>(os, a, name, e, rest). case e of None \<Rightarrow> 0 | Some (sep, arg) \<Rightarrow> Suc (length arg))", goal_cases)
  case (2 os a name sep arg rest n a')
  then have "length (tl arg) < length arg" by simp
  then show ?case by (cases "tl arg") auto
qed simp

definition not_option :: "string \<times> arg_kind \<Rightarrow> bool" where
  "not_option x \<longleftrightarrow> \<not> is_opt (snd x)"

lemma loop_shorter:
  "dropWhile P xs = y # ys \<Longrightarrow> length (drop k ys) < length xs"
  "dropWhile P xs = y # ys \<Longrightarrow> length ys < length xs"
  "\<not> list_all P xs \<Longrightarrow> 0 < n \<Longrightarrow> length (drop n xs) < length xs"
  using length_dropWhile_le [of P xs] by (simp, simp, cases xs, simp_all)

text \<open>
  Positional arguments and options in turn until the last option. \<open>rest\<close> are the strings from the
  current index on, \<open>pos\<close> the positional arguments left, \<open>ex\<close> the strings nobody took.
\<close>

function parse_loop ::
    "options \<Rightarrow> sub_parsers \<Rightarrow> word_kinds \<Rightarrow> arg_action list \<Rightarrow> string list \<Rightarrow> parse_state \<Rightarrow>
     (word_kinds \<times> arg_action list \<times> string list \<times> parse_state) parsed" where
  "parse_loop os subs rest pos ex st =
     (if list_all not_option rest then Inr (rest, pos, ex, st)
      else case (if not_option (hd rest) then consume_positionals subs pos rest st else Inr (0, pos, st)) of
          Inl e \<Rightarrow> Inl e
        | Inr (n, pos', st') \<Rightarrow>
            if n > 0 then parse_loop os subs (drop n rest) pos' ex st'
            else case dropWhile not_option rest of
                (s, KOpt (Some a, name, e)) # rest2 \<Rightarrow>
                  (case option_cluster os a name e rest2 of
                     Inl c \<Rightarrow> Inl c
                   | Inr (todo, unknown, k) \<Rightarrow>
                       (case take_actions subs todo st' of
                          Inl c \<Rightarrow> Inl c
                        | Inr st2 \<Rightarrow>
                            parse_loop os subs (drop k rest2) pos'
                              (ex @ map fst (takeWhile not_option rest) @ unknown) st2))
              | (s, _) # rest2 \<Rightarrow>
                  parse_loop os subs rest2 pos' (ex @ map fst (takeWhile not_option rest) @ [s]) st'
              | [] \<Rightarrow> Inr ([], pos', ex @ map fst rest, st'))"
  by pat_completeness auto
termination
  by (relation "measure (\<lambda>(os, subs, rest, pos, ex, st). length rest)") (auto simp del: length_drop intro: loop_shorter)

declare parse_loop.simps [simp del]

text \<open>The defaults of the arguments and of the parser, where there is no attribute of that name yet.\<close>

definition put_default :: "string \<Rightarrow> arg_val \<Rightarrow> namespace \<Rightarrow> namespace" where
  "put_default k v ns = (if map_of ns k = None then ns @ [(k, v)] else ns)"

definition initial_ns :: "arg_action list \<Rightarrow> namespace \<Rightarrow> namespace" where
  "initial_ns acts defs =
     foldl (\<lambda>ns (k, v). put_default k v ns)
       (foldl (\<lambda>ns a. put_default (act_dest a) (act_default a) ns) [] (filter (\<lambda>a. act_effect a \<noteq> ShowHelp) acts)) defs"

text \<open>
  \<open>parse_known_args\<close>: the namespace and the strings that were not recognised. At its end \<open>argparse\<close>
  also converts defaults that are texts; those of the programs have no type, so nothing changes.
\<close>

definition run_parser ::
    "arg_action list \<Rightarrow> namespace \<Rightarrow> sub_parsers \<Rightarrow> string list \<Rightarrow> (namespace \<times> string list) parsed" where
  "run_parser acts defs subs argv =
     (let os = option_actions acts;
          st = \<lparr>ps_ns = initial_ns acts defs, ps_seen = [], ps_unrecognized = []\<rparr> in
      case arg_kinds os argv of
        Inl e \<Rightarrow> Inl e
      | Inr ks \<Rightarrow>
          (case parse_loop os subs ks (filter (\<lambda>a. act_options a = []) acts) [] st of
             Inl e \<Rightarrow> Inl e
           | Inr (rest, pos, ex, st1) \<Rightarrow>
               (case consume_positionals subs pos rest st1 of
                  Inl e \<Rightarrow> Inl e
                | Inr (n, _, st2) \<Rightarrow>
                    if list_ex (\<lambda>a. act_required a \<and> a \<notin> set (ps_seen st2)) acts then usage_error
                    else Inr (ps_ns st2, ex @ map fst (drop n rest) @ ps_unrecognized st2))))"

primrec parse_known_args :: "arg_parser \<Rightarrow> string list \<Rightarrow> (namespace \<times> string list) parsed" where
  "parse_known_args (ArgumentParser acts defs subs) =
     run_parser acts defs (map (map_prod id parse_known_args) subs)"

definition parse_args :: "arg_parser \<Rightarrow> string list \<Rightarrow> namespace parsed" where
  "parse_args p argv =
     (case parse_known_args p argv of
        Inl e \<Rightarrow> Inl e
      | Inr (ns, unknown) \<Rightarrow> if unknown = [] then Inr ns else usage_error)"

end
