(* ===== verification/Fwctl_Cli.thy ===== *)
theory Fwctl_Cli
  imports Fwctl Controller Py_Argparse
begin

text \<open>
  The command lines of the two programs: \<open>parser\<close> and the start of \<open>main\<close> of \<open>control/fwctl.py\<close>, and
  those of \<open>control/controller.py\<close>. The attributes that the handlers read from the namespace
  are collected into the arguments in parsed form on which the handlers are defined.
\<close>

section \<open>The parser of fwctl\<close>

definition leaf :: "arg_action list \<Rightarrow> arg_parser" where
  "leaf acts = foldl (\<lambda>p a. add_argument a p) new_parser acts"

definition cidr_arg :: arg_action where
  "cidr_arg = positional ''cidr'' OneOrMore AsStr"

definition allow_parser :: arg_parser where
  "allow_parser = set_defaults [(''action'', StrVal ''list'')] (add_subparsers ''action'' False
     [(''add'', leaf [cidr_arg]), (''del'', leaf [cidr_arg]), (''list'', leaf [])] new_parser)"

text \<open>The default of \<open>--duration\<close> is the \<open>int\<close> 60; the handler only compares, multiplies and prints it as a \<open>float\<close>.\<close>

definition block_parser :: arg_parser where
  "block_parser = set_defaults [(''action'', StrVal ''list''), (''all'', BoolVal False)] (add_subparsers ''action'' False
     [(''add'', leaf [cidr_arg, valued [''--duration''] ''duration'' AsFloat (FloatVal (Fin 60))]),
      (''del'', leaf [cidr_arg]),
      (''list'', leaf [flag [''--all''] ''all'']),
      (''flush'', leaf [])] new_parser)"

definition port_leaf :: arg_parser where
  "port_leaf = leaf [positional ''proto'' ExactlyOne AsStr, positional ''ports'' OneOrMore AsInt]"

definition port_parser :: arg_parser where
  "port_parser = set_defaults [(''action'', StrVal ''list'')] (add_subparsers ''action'' False
     [(''allow'', port_leaf), (''deny'', port_leaf), (''del'', port_leaf), (''list'', leaf []), (''flush'', leaf [])] new_parser)"

definition policy_parser :: arg_parser where
  "policy_parser =
     leaf [(positional ''policy'' AtMostOne AsStr)\<lparr>act_choices := Some [StrVal ''allow'', StrVal ''deny'']\<rparr>]"

definition top_parser :: arg_parser where
  "top_parser = leaf [valued [''-n'', ''--count''] ''count'' AsInt (IntVal 20), flag [''-w'', ''--watch''] ''watch'']"

definition feature_names :: "arg_val list" where
  "feature_names = map (StrVal \<circ> fst) FEATURES"

definition config_set_parser :: arg_parser where
  "config_set_parser = leaf
     [valued [''--rate''] ''rate'' AsInt NoneVal,
      valued [''--burst''] ''burst'' AsInt NoneVal,
      (valued [''--aggressiveness''] ''aggressiveness'' AsInt NoneVal)\<lparr>act_choices := Some (map IntVal [0..3])\<rparr>,
      (appended [''--enable''] ''enable'')\<lparr>act_choices := Some feature_names\<rparr>,
      (appended [''--disable''] ''disable'')\<lparr>act_choices := Some feature_names\<rparr>]"

definition config_parser :: arg_parser where
  "config_parser = set_defaults [(''action'', StrVal ''show'')] (add_subparsers ''action'' False
     [(''show'', leaf []), (''set'', config_set_parser)] new_parser)"

definition reset_parser :: arg_parser where
  "reset_parser = leaf [flag [''--blocks''] ''blocks'', flag [''--all''] ''all'']"

definition fwctl_parser :: arg_parser where
  "fwctl_parser = add_subparsers ''cmd'' True
     [(''status'', leaf []), (''allow'', allow_parser), (''block'', block_parser), (''port'', port_parser),
      (''policy'', policy_parser), (''top'', top_parser), (''stats'', leaf []), (''config'', config_parser),
      (''reset'', reset_parser), (''selftest'', leaf [])] new_parser"

section \<open>Reading the namespace\<close>

text \<open>
  The attributes that a handler reads. \<open>None\<close> stands for an attribute that is missing or is not of the
  kind that the handler expects.
\<close>

definition attr_str :: "namespace \<Rightarrow> string \<Rightarrow> string option" where
  "attr_str ns k = (case map_of ns k of Some (StrVal s) \<Rightarrow> Some s | _ \<Rightarrow> None)"

definition attr_bool :: "namespace \<Rightarrow> string \<Rightarrow> bool option" where
  "attr_bool ns k = (case map_of ns k of Some (BoolVal b) \<Rightarrow> Some b | _ \<Rightarrow> None)"

definition attr_int :: "namespace \<Rightarrow> string \<Rightarrow> int option" where
  "attr_int ns k = (case map_of ns k of Some (IntVal n) \<Rightarrow> Some n | _ \<Rightarrow> None)"

definition attr_float :: "namespace \<Rightarrow> string \<Rightarrow> pyfloat option" where
  "attr_float ns k = (case map_of ns k of Some (FloatVal q) \<Rightarrow> Some q | _ \<Rightarrow> None)"

fun str_of_val :: "arg_val \<Rightarrow> string option" where
  "str_of_val (StrVal s) = Some s"
| "str_of_val _ = None"

fun int_of_val :: "arg_val \<Rightarrow> int option" where
  "int_of_val (IntVal n) = Some n"
| "int_of_val _ = None"

fun all_some :: "'a option list \<Rightarrow> 'a list option" where
  "all_some [] = Some []"
| "all_some (None # xs) = None"
| "all_some (Some x # xs) = map_option ((#) x) (all_some xs)"

definition attr_strs :: "namespace \<Rightarrow> string \<Rightarrow> string list option" where
  "attr_strs ns k = (case map_of ns k of Some (ListVal vs) \<Rightarrow> all_some (map str_of_val vs) | _ \<Rightarrow> None)"

definition attr_ints :: "namespace \<Rightarrow> string \<Rightarrow> int list option" where
  "attr_ints ns k = (case map_of ns k of Some (ListVal vs) \<Rightarrow> all_some (map int_of_val vs) | _ \<Rightarrow> None)"

text \<open>An attribute that may be \<open>None\<close>, and a list that may be: \<open>args.enable or []\<close>.\<close>

definition attr_maybe_int :: "namespace \<Rightarrow> string \<Rightarrow> int option option" where
  "attr_maybe_int ns k = (case map_of ns k of Some NoneVal \<Rightarrow> Some None | _ \<Rightarrow> map_option Some (attr_int ns k))"

definition attr_maybe_str :: "namespace \<Rightarrow> string \<Rightarrow> string option option" where
  "attr_maybe_str ns k = (case map_of ns k of Some NoneVal \<Rightarrow> Some None | _ \<Rightarrow> map_option Some (attr_str ns k))"

definition attr_strs_or_empty :: "namespace \<Rightarrow> string \<Rightarrow> string list option" where
  "attr_strs_or_empty ns k = (case map_of ns k of Some NoneVal \<Rightarrow> Some [] | _ \<Rightarrow> attr_strs ns k)"

definition allow_args_of :: "namespace \<Rightarrow> allow_args option" where
  "allow_args_of ns = Option.bind (attr_str ns ''action'') (\<lambda>action.
     if action = ''add'' then map_option AllowAdd (attr_strs ns ''cidr'')
     else if action = ''del'' then map_option AllowDel (attr_strs ns ''cidr'')
     else Some AllowList)"

definition block_args_of :: "namespace \<Rightarrow> block_args option" where
  "block_args_of ns = Option.bind (attr_str ns ''action'') (\<lambda>action.
     if action = ''add'' then
       Option.bind (attr_strs ns ''cidr'') (\<lambda>cs. map_option (BlockAdd cs) (attr_float ns ''duration''))
     else if action = ''del'' then map_option BlockDel (attr_strs ns ''cidr'')
     else if action = ''flush'' then Some BlockFlush
     else map_option BlockList (attr_bool ns ''all''))"

definition port_args_of :: "namespace \<Rightarrow> port_args option" where
  "port_args_of ns = Option.bind (attr_str ns ''action'') (\<lambda>action.
     if action = ''allow'' \<or> action = ''deny'' then
       Option.bind (attr_str ns ''proto'') (\<lambda>proto. map_option (PortSet (action = ''allow'') proto) (attr_ints ns ''ports''))
     else if action = ''del'' then
       Option.bind (attr_str ns ''proto'') (\<lambda>proto. map_option (PortDel proto) (attr_ints ns ''ports''))
     else if action = ''flush'' then Some PortFlush
     else Some PortList)"

definition config_args_of :: "namespace \<Rightarrow> fwctl_args option" where
  "config_args_of ns = Option.bind (attr_str ns ''action'') (\<lambda>action.
     if action \<noteq> ''set'' then Some ConfigShow
     else
       Option.bind (attr_strs_or_empty ns ''enable'') (\<lambda>on.
       Option.bind (attr_strs_or_empty ns ''disable'') (\<lambda>off.
       Option.bind (attr_maybe_int ns ''rate'') (\<lambda>rate.
       Option.bind (attr_maybe_int ns ''burst'') (\<lambda>burst.
       map_option (\<lambda>lvl. ConfigSet \<lparr>set_rate = rate, set_burst = burst, set_aggressiveness = lvl,
           set_enable = on, set_disable = off\<rparr>) (attr_maybe_int ns ''aggressiveness''))))))"

text \<open>\<open>globals()[f"cmd_{args.cmd}"]\<close> with what that handler reads.\<close>

definition command_args :: "string \<Rightarrow> namespace \<Rightarrow> fwctl_args option" where
  "command_args cmd ns =
     (if cmd = ''status'' then Some Status
      else if cmd = ''allow'' then map_option Allow (allow_args_of ns)
      else if cmd = ''block'' then map_option Block (block_args_of ns)
      else if cmd = ''port'' then map_option Port (port_args_of ns)
      else if cmd = ''policy'' then map_option (\<lambda>p. Policy (map_option (\<lambda>s. s = ''allow'') p)) (attr_maybe_str ns ''policy'')
      else if cmd = ''top'' then Option.bind (attr_int ns ''count'') (\<lambda>n. map_option (Top n) (attr_bool ns ''watch''))
      else if cmd = ''stats'' then Some Stats
      else if cmd = ''config'' then config_args_of ns
      else if cmd = ''reset'' then Option.bind (attr_bool ns ''blocks'') (\<lambda>b. map_option (Reset b) (attr_bool ns ''all''))
      else if cmd = ''selftest'' then Some Selftest
      else None)"

definition fwctl_args_of :: "namespace \<Rightarrow> fwctl_args option" where
  "fwctl_args_of ns = Option.bind (attr_str ns ''cmd'') (\<lambda>cmd. command_args cmd ns)"

section \<open>The parser of the controller\<close>

definition controller_parser :: arg_parser where
  "controller_parser = leaf
     [valued [''--iface''] ''iface'' AsStr (StrVal ''veth-fw''),
      valued [''--interval''] ''interval'' AsFloat (FloatVal (Fin 1)),
      flag [''--dry-run''] ''dry_run'',
      flag [''--no-auto-tune''] ''no_auto_tune'',
      appended [''--allow''] ''allow'',
      valued [''--top''] ''top'' AsInt (IntVal 12)]"

text \<open>
  \<open>ctl_args\<close> from the namespace; \<open>for cidr in args.allow or []\<close> is where a missing \<open>--allow\<close> becomes
  the empty list. An interval of \<open>inf\<close> or \<open>nan\<close>, which \<open>float\<close> accepts, has no \<open>ctl_args\<close>: with it the
  loop ends in \<open>time.sleep\<close> or never sleeps.
\<close>

definition ctl_args_of :: "namespace \<Rightarrow> ctl_args option" where
  "ctl_args_of ns =
     Option.bind (attr_bool ns ''dry_run'') (\<lambda>dry.
     Option.bind (attr_bool ns ''no_auto_tune'') (\<lambda>fixed.
     Option.bind (attr_strs_or_empty ns ''allow'') (\<lambda>cidrs.
     Option.bind (attr_float ns ''interval'') (\<lambda>t.
     Option.bind (attr_int ns ''top'') (\<lambda>n.
     Option.bind (attr_str ns ''iface'') (\<lambda>iface.
     case t of
       Fin q \<Rightarrow> Some \<lparr>arg_dry_run = dry, arg_no_auto_tune = fixed, arg_allow = cidrs, arg_interval = q, arg_top = n, arg_iface = iface\<rparr>
     | _ \<Rightarrow> None))))))"

end
