(* ===== verification/Py_Argparse_Props.thy ===== *)
theory Py_Argparse_Props
  imports Py_Argparse
begin

text \<open>
  What is true of every parser: how a parser without sub-commands leaves the namespace, what a parser
  with nothing but sub-commands does, and which exit statuses there are.
\<close>

section \<open>Stored values\<close>

fun typed :: "arg_type \<Rightarrow> arg_val \<Rightarrow> bool" where
  "typed AsStr v = (\<exists>s. v = StrVal s)"
| "typed AsInt v = (\<exists>n. v = IntVal n)"
| "typed AsFloat v = (\<exists>q. v = FloatVal q)"

definition one_ok :: "arg_action \<Rightarrow> arg_val \<Rightarrow> bool" where
  "one_ok a v \<longleftrightarrow> typed (act_type a) v \<and> (case act_choices a of None \<Rightarrow> True | Some vs \<Rightarrow> v \<in> set vs)"

definition list_ok :: "arg_action \<Rightarrow> arg_val \<Rightarrow> bool" where
  "list_ok a v \<longleftrightarrow> (\<exists>vs. v = ListVal vs \<and> list_all (one_ok a) vs)"

text \<open>The values that an argument can leave in the namespace when it was on the command line.\<close>

definition stored_ok :: "arg_action \<Rightarrow> arg_val \<Rightarrow> bool" where
  "stored_ok a v =
     (case act_effect a of
        StoreTrue \<Rightarrow> v = BoolVal True
      | Append \<Rightarrow> list_ok a v
      | Store \<Rightarrow>
          (case act_nargs a of
             ExactlyOne \<Rightarrow> one_ok a v
           | AtMostOne \<Rightarrow> one_ok a v \<or> v = act_default a
           | _ \<Rightarrow> list_ok a v)
      | _ \<Rightarrow> False)"

lemma good_value_ok: "good_value a s = Inr v \<Longrightarrow> one_ok a v"
  by (auto simp: good_value_def get_value_def check_value_def one_ok_def split: arg_type.splits sum.splits option.splits if_splits)

lemma good_values_ok: "good_values a ss = Inr vs \<Longrightarrow> list_all (one_ok a) vs"
  by (induction ss arbitrary: vs) (auto dest: good_value_ok split: sum.splits)

text \<open>The strings that an argument with at most one value must be given.\<close>

definition args_fit :: "arg_action \<Rightarrow> string list \<Rightarrow> bool" where
  "args_fit a ss =
     (let n = length (if act_options a = [] then remove1 ''--'' ss else ss) in
      case act_nargs a of ExactlyOne \<Rightarrow> n = 1 | AtMostOne \<Rightarrow> n \<le> 1 | _ \<Rightarrow> True)"

lemma get_values_ok:
  assumes "get_values a ss = Inr v" "args_fit a ss"
  shows "act_nargs a = ExactlyOne \<Longrightarrow> one_ok a v"
    and "act_nargs a = AtMostOne \<Longrightarrow> one_ok a v \<or> v = act_default a"
    and "act_nargs a \<noteq> ExactlyOne \<Longrightarrow> act_nargs a \<noteq> AtMostOne \<Longrightarrow> list_ok a v"
  using assms good_value_ok [of a] good_values_ok [of a]
  by (auto simp: get_values_def args_fit_def list_ok_def Let_def le_Suc_eq split: if_splits arg_val.splits sum.splits)

section \<open>Which strings belong to which argument\<close>

text \<open>
  Before the first \<open>--\<close> no string is \<open>--\<close>, after it every string is an argument.
\<close>

fun fresh :: "word_kinds \<Rightarrow> bool" where
  "fresh [] = True"
| "fresh ((s, k) # ks) = (if s = ''--'' then k = KDash \<and> list_all (\<lambda>x. snd x = KArg) ks else k \<noteq> KDash \<and> fresh ks)"

lemma arg_kinds_fresh: "arg_kinds os ss = Inr ks \<Longrightarrow> fresh ks"
  by (induction ss arbitrary: ks) (auto simp: list_all_iff split: if_splits sum.splits option.splits)

lemma arg_kinds_words: "arg_kinds os ss = Inr ks \<Longrightarrow> map fst ks = ss"
  by (induction ss arbitrary: ks) (auto simp: comp_def split: if_splits sum.splits option.splits)

lemma list_all_take: "list_all P xs \<Longrightarrow> list_all P (take l xs)"
  using set_take_subset [of l xs] by (auto simp: list_all_iff)

lemma all_args_dashes:
  assumes "list_all (\<lambda>x. snd x = KArg) ks" "list_all (\<lambda>k. k = KDash) (map snd (take l ks))"
  shows "take l ks = []"
  using list_all_take [OF assms(1), of l] assms(2) by (cases "take l ks") auto

lemma fresh_dashes:
  assumes "fresh ks" "list_all (\<lambda>k. k = KDash) (map snd (take l ks))"
  shows "map fst (take l ks) \<in> {[], [''--'']}"
proof (cases "take l ks")
  case (Cons x xs)
  then obtain m ys where "ks = x # ys" "l = Suc m" by (cases ks; cases l) auto
  with assms all_args_dashes [of ys m] show ?thesis by (cases x) (auto split: if_splits)
qed simp

lemma fresh_one:
  assumes "fresh ks" "group_ok ExactlyOne (map snd (take l ks))"
  shows "length (remove1 ''--'' (map fst (take l ks))) = 1"
proof (cases "take l ks")
  case (Cons x xs)
  then obtain m ys where *: "ks = x # ys" "l = Suc m" "xs = take m ys" by (cases ks; cases l) auto
  show ?thesis
  proof (cases "fst x = ''--''")
    case True
    with assms * have x: "snd x = KDash" and args: "list_all (\<lambda>x. snd x = KArg) xs"
      using list_all_take [of "\<lambda>x. snd x = KArg" ys m] by (cases x; simp)+
    with assms(2) Cons obtain y zs where "xs = y # zs" by (cases xs) auto
    with assms(2) Cons x args have "zs = []" by (cases zs) auto
    with True Cons \<open>xs = y # zs\<close> show ?thesis by simp
  next
    case False
    with assms * have "snd x \<noteq> KDash" "fresh ys" by (cases x; simp)+
    with assms(2) * fresh_dashes [of ys m] False show ?thesis by auto
  qed
qed (use assms(2) in auto)

lemma fresh_at_most_one:
  assumes "fresh ks" "group_ok AtMostOne (map snd (take l ks))"
  shows "length (remove1 ''--'' (map fst (take l ks))) \<le> 1"
proof (cases "dropWhile (\<lambda>k. k = KDash) (map snd (take l ks))")
  case Nil
  then have "list_all (\<lambda>k. k = KDash) (map snd (take l ks))" by (auto simp: dropWhile_eq_Nil_conv list_all_iff)
  from fresh_dashes [OF assms(1) this] show ?thesis by auto
next
  case (Cons k r)
  with assms(2) have "group_ok ExactlyOne (map snd (take l ks))" by simp
  from fresh_one [OF assms(1) this] show ?thesis by simp
qed

lemma match_groups_spec:
  "match_groups ns ks = Some ls \<Longrightarrow> length ls = length ns \<and> (ns \<noteq> [] \<longrightarrow> group_ok (hd ns) (take (hd ls) ks))"
proof (induction ns arbitrary: ks ls)
  case (Cons n ns)
  then obtain l where "find (\<lambda>l. group_ok n (take l ks) \<and> match_groups ns (drop l ks) \<noteq> None) (rev [0..<Suc (length ks)]) = Some l"
    and l: "map_option ((#) l) (match_groups ns (drop l ks)) = Some ls"
    by (auto split: option.splits)
  then have "group_ok n (take l ks)" unfolding find_Some_iff by blast
  with l Cons.IH show ?case by auto
qed simp

lemma match_partial_spec:
  "i \<le> length ns \<Longrightarrow> ls = match_partial ns ks i \<Longrightarrow>
   length ls \<le> i \<and> (ls \<noteq> [] \<longrightarrow> group_ok (hd ns) (take (hd ls) ks))"
proof (induction i)
  case (Suc i)
  show ?case
  proof (cases "match_groups (take (Suc i) ns) ks")
    case None
    with Suc show ?thesis by auto
  next
    case (Some ms)
    with Suc match_groups_spec [OF this] show ?thesis by (cases ns) auto
  qed
qed simp

declare match_groups.simps(2) [simp del] match_partial.simps(2) [simp del]

lemma length_split_counts [simp]: "length (split_counts ns xs) = length ns"
  by (induction ns xs rule: split_counts.induct) auto


section \<open>A parser without sub-commands\<close>

text \<open>
  Options of such a parser take one string or none; of the positional arguments only the first may be
  something else than a list.
\<close>

definition plain_action :: "arg_action \<Rightarrow> bool" where
  "plain_action a \<longleftrightarrow> act_effect a \<noteq> RunParser \<and> act_nargs a \<noteq> SubCommand \<and>
     (act_options a \<noteq> [] \<longrightarrow> act_nargs a = ExactlyOne \<or> act_nargs a = NoArgs) \<and>
     (act_effect a = Append \<longrightarrow> act_nargs a = ExactlyOne \<and> act_default a = NoneVal)"

definition lists_only :: "arg_action list \<Rightarrow> bool" where
  "lists_only pos \<longleftrightarrow> list_all (\<lambda>a. act_nargs a = OneOrMore) pos"

definition kept_actions :: "arg_action list \<Rightarrow> arg_action list" where
  "kept_actions acts = filter (\<lambda>a. act_effect a \<noteq> ShowHelp) acts"

definition leaf_ok :: "arg_action list \<Rightarrow> bool" where
  "leaf_ok acts \<longleftrightarrow> list_all plain_action acts \<and> distinct (map act_dest (kept_actions acts)) \<and>
     lists_only (tl (filter (\<lambda>a. act_options a = []) acts))"

text \<open>
  The invariant of the loop: every argument has its attribute, which is the default until the
  argument was seen and a value that the argument admits from then on, and there are no others.
\<close>

definition attr_ok :: "arg_action \<Rightarrow> parse_state \<Rightarrow> bool" where
  "attr_ok a st \<longleftrightarrow>
     (case map_of (ps_ns st) (act_dest a) of
        None \<Rightarrow> False
      | Some v \<Rightarrow> if a \<in> set (ps_seen st) then stored_ok a v else v = act_default a)"

definition state_ok :: "arg_action list \<Rightarrow> parse_state \<Rightarrow> bool" where
  "state_ok acts st \<longleftrightarrow> (\<forall>a \<in> set (kept_actions acts). attr_ok a st) \<and> dict_ok (ps_ns st) \<and>
     fst ` set (ps_ns st) \<subseteq> act_dest ` set (kept_actions acts)"

lemma dest_unique:
  "leaf_ok acts \<Longrightarrow> a \<in> set (kept_actions acts) \<Longrightarrow> b \<in> set (kept_actions acts) \<Longrightarrow> act_dest a = act_dest b \<Longrightarrow> a = b"
  by (auto simp: leaf_ok_def distinct_map inj_on_def)

lemma store_ok:
  assumes "leaf_ok acts" "state_ok acts st" "a \<in> set (kept_actions acts)" "stored_ok a v"
  shows "state_ok acts (store a v (see a st))"
  unfolding state_ok_def
proof (intro conjI ballI)
  show "dict_ok (ps_ns (store a v (see a st)))" "fst ` set (ps_ns (store a v (see a st))) \<subseteq> act_dest ` set (kept_actions acts)"
    using assms(2,3) by (simp_all add: store_def see_def state_ok_def)
next
  fix b
  assume b: "b \<in> set (kept_actions acts)"
  show "attr_ok b (store a v (see a st))"
  proof (cases "b = a")
    case True
    with assms(4) show ?thesis by (simp add: attr_ok_def store_def see_def)
  next
    case False
    then have "act_dest b \<noteq> act_dest a" using dest_unique [OF assms(1) b assms(3)] by blast
    with assms(2) b False show ?thesis by (auto simp: attr_ok_def store_def see_def state_ok_def split: option.splits)
  qed
qed

lemma appended_ok:
  assumes "state_ok acts st" "a \<in> set (kept_actions acts)" "act_effect a = Append" "plain_action a"
  shows "list_all (one_ok a) (appended_items a (ps_ns st))"
proof -
  have "attr_ok a st" using assms(1,2) by (simp add: state_ok_def)
  with assms(3,4) show ?thesis
    by (auto simp: attr_ok_def stored_ok_def plain_action_def appended_items_def list_ok_def split: option.splits if_splits)
qed

lemma take_action_ok:
  assumes "leaf_ok acts" "state_ok acts st" "a \<in> set acts" "args_fit a ss" "take_action subs a ss st = Inr st'"
  shows "state_ok acts st' \<and> ps_seen st' = a # ps_seen st \<and> ps_unrecognized st' = ps_unrecognized st"
proof -
  have plain: "plain_action a" using assms(1,3) by (auto simp: leaf_ok_def list_all_iff)
  then have run: "act_effect a \<noteq> RunParser" by (simp add: plain_action_def)
  with assms(5) obtain v where v: "get_values a ss = Inr v" by (auto simp: take_action_def split: sum.splits)
  note vals = get_values_ok [OF v assms(4)]
  have kept: "act_effect a \<noteq> ShowHelp" using assms(5) v run by (auto simp: take_action_def)
  with assms(3) have a: "a \<in> set (kept_actions acts)" by (simp add: kept_actions_def)
  obtain u where u: "st' = store a u (see a st)" "stored_ok a u"
  proof (cases "act_effect a")
    case Store
    then show ?thesis using that [of v] assms(5) v vals plain
      by (auto simp: take_action_def stored_ok_def plain_action_def split: nargs.splits)
  next
    case StoreTrue
    then show ?thesis using that [of "BoolVal True"] assms(5) v by (auto simp: take_action_def stored_ok_def)
  next
    case Append
    then show ?thesis
      using that [of "ListVal (appended_items a (ps_ns st) @ [v])"] assms(5) v vals plain appended_ok [OF assms(2) a Append plain]
      by (auto simp: take_action_def stored_ok_def list_ok_def plain_action_def)
  qed (use run kept in auto)
  with store_ok [OF assms(1,2) a] show ?thesis by (simp add: store_def see_def)
qed

lemma take_actions_ok:
  assumes "leaf_ok acts" "state_ok acts st" "\<forall>(a, ss) \<in> set todo. a \<in> set acts \<and> args_fit a ss" "take_actions subs todo st = Inr st'"
  shows "state_ok acts st' \<and> ps_unrecognized st' = ps_unrecognized st"
  using assms(2-4)
proof (induction todo arbitrary: st)
  case (Cons x todo)
  obtain a ss where x: "x = (a, ss)" by fastforce
  with Cons.prems obtain st1 where st1: "take_action subs a ss st = Inr st1" "take_actions subs todo st1 = Inr st'"
    by (auto split: sum.splits)
  with Cons take_action_ok [OF assms(1) Cons.prems(1) _ _ st1(1)] show ?case by (auto simp: x)
qed simp

section \<open>The loop\<close>

lemma option_cluster_ok:
  assumes "list_all plain_action acts" "a \<in> set acts" "act_options a \<noteq> []" "os = option_actions acts"
    and "option_cluster os a name e rest = Inr (todo, unknown, k)"
  shows "(\<forall>(b, ss) \<in> set todo. b \<in> set acts \<and> args_fit b ss) \<and> (k = 0 \<or> k = 1 \<and> rest \<noteq> [] \<and> snd (hd rest) = KArg)"
  using assms
proof (induction os a name e rest arbitrary: todo unknown k rule: option_cluster.induct)
  case (1 os a name rest)
  have "act_nargs a = ExactlyOne \<or> act_nargs a = NoArgs"
    using 1(1,2,3) by (auto simp: list_all_iff plain_action_def)
  with 1 show ?case by (cases rest) (auto simp: args_fit_def split: option.splits list.splits arg_kind.splits)
next
  case (2 os a name sep arg rest)
  have n: "act_nargs a = ExactlyOne \<or> act_nargs a = NoArgs"
    using 2(2,3,4) by (auto simp: list_all_iff plain_action_def)
  show ?case
  proof (cases "act_nargs a = ExactlyOne")
    case True
    with 2 show ?thesis by (auto simp: args_fit_def split: if_splits)
  next
    case False
    then have no: "act_nargs a = NoArgs" using n by blast
    with 2(6) have *: "\<not> starts_with name ''--''" "arg \<noteq> []" "\<not> (sep \<noteq> [] \<or> hd arg = CHR ''-'')"
      by (auto split: if_splits)
    show ?thesis
    proof (cases "map_of os [CHR ''-'', hd arg]")
      case None
      with 2 * no show ?thesis by (auto simp: args_fit_def)
    next
      case (Some b)
      then have b: "b \<in> set acts" "act_options b \<noteq> []"
        using 2(5) by (auto simp: option_actions_def dest!: map_of_SomeD)
      from Some 2(6) * no obtain todo' where todo': "option_cluster os b [CHR ''-'', hd arg] (next_explicit (tl arg)) rest = Inr (todo', unknown, k)"
        "todo = (a, []) # todo'" by (auto split: sum.splits)
      from 2(1) [of 0 b, OF _ _ _ Some 2(2) b 2(5) todo'(1)] * no todo'(2) 2(3) show ?thesis by (auto simp: args_fit_def)
    qed
  qed
qed

definition pos_ready :: "arg_action list \<Rightarrow> word_kinds \<Rightarrow> bool" where
  "pos_ready pos rest \<longleftrightarrow> fresh rest \<and> lists_only (tl pos) \<or> lists_only pos"

lemma split_counts_fit:
  assumes "pos_ready pos rest" "counts = match_partial (map act_nargs pos) (map snd rest) (length pos)"
    and "\<forall>a \<in> set pos. act_options a = []" "(a, ss) \<in> set (zip pos (split_counts counts (map fst rest)))"
  shows "args_fit a ss"
proof (cases pos)
  case (Cons b pos')
  with assms(4) obtain l ls where counts: "counts = l # ls" by (cases counts) auto
  have group: "group_ok (act_nargs b) (map snd (take l rest))"
    using match_partial_spec [OF _ assms(2)] Cons counts by (simp add: take_map)
  show ?thesis
  proof (cases "lists_only pos")
    case True
    with assms(4) show ?thesis by (auto simp: lists_only_def list_all_iff args_fit_def dest!: set_zip_leftD)
  next
    case False
    with assms(1) Cons have "fresh rest" "lists_only pos'" by (auto simp: pos_ready_def)
    moreover from assms(4) Cons counts have "a = b \<and> ss = map fst (take l rest) \<or> a \<in> set pos'"
      by (auto simp: take_map dest: set_zip_leftD)
    ultimately show ?thesis
      using group fresh_one [of rest l] fresh_at_most_one [of rest l] assms(3) Cons
      by (cases "act_nargs b") (auto simp: lists_only_def list_all_iff args_fit_def simp del: group_ok.simps)
  qed
qed (use assms(4) in simp)

lemma consume_positionals_ok:
  assumes "leaf_ok acts" "state_ok acts st" "pos_ready pos rest" "set pos \<subseteq> set acts" "\<forall>a \<in> set pos. act_options a = []"
    and "consume_positionals subs pos rest st = Inr (n, pos', st')"
  shows "state_ok acts st' \<and> ps_unrecognized st' = ps_unrecognized st \<and> set pos' \<subseteq> set pos \<and>
    (lists_only pos' \<or> n = 0 \<and> pos' = pos)"
proof -
  define counts where "counts = match_partial (map act_nargs pos) (map snd rest) (length pos)"
  obtain st1 where st1: "take_actions subs (zip pos (split_counts counts (map fst rest))) st = Inr st1"
    and eqs: "n = sum_list counts" "pos' = drop (length counts) pos" "st' = st1"
    using assms(6) by (auto simp: consume_positionals_def Let_def counts_def [symmetric] split: sum.splits)
  have "\<forall>(a, ss) \<in> set (zip pos (split_counts counts (map fst rest))). a \<in> set acts \<and> args_fit a ss"
    using split_counts_fit [OF assms(3) counts_def assms(5)] assms(4) by (auto dest: set_zip_leftD)
  from take_actions_ok [OF assms(1,2) this st1] have "state_ok acts st' \<and> ps_unrecognized st' = ps_unrecognized st" by (simp add: eqs)
  moreover have "set pos' \<subseteq> set pos" by (simp add: eqs set_drop_subset)
  moreover have "lists_only pos' \<or> n = 0 \<and> pos' = pos"
  proof (cases counts)
    case (Cons l ls)
    have "lists_only (tl pos)" using assms(3) by (cases pos) (auto simp: pos_ready_def lists_only_def)
    then show ?thesis using eqs Cons set_drop_subset [of "length ls" "tl pos"]
      by (auto simp: lists_only_def list_all_iff drop_Suc)
  qed (simp add: eqs)
  ultimately show ?thesis by blast
qed

lemma fresh_dropWhile: "fresh ks \<Longrightarrow> dropWhile not_option ks = x # ys \<Longrightarrow> fresh ys \<and> is_opt (snd x)"
proof (induction ks)
  case (Cons y ks)
  show ?case
  proof (cases "not_option y")
    case True
    have "dropWhile not_option ks \<noteq> x # ys" if "list_all (\<lambda>x. snd x = KArg) ks"
    proof -
      have "dropWhile not_option ks = []" using that by (auto simp: list_all_iff not_option_def)
      then show ?thesis by (metis list.distinct(1))
    qed
    with Cons True show ?thesis by (cases y) (auto split: if_splits)
  next
    case False
    with Cons show ?thesis by (cases y) (auto simp: not_option_def split: if_splits)
  qed
qed simp

text \<open>What the positional arguments, unknown options and known options all keep, the loop keeps.\<close>

lemma parse_loop_invariant:
  assumes "parse_loop os subs rest pos ex st = Inr (rest', pos', ex', st')" "I rest pos st"
    and pos: "\<And>rest pos st n pos1 st1. I rest pos st \<Longrightarrow> consume_positionals subs pos rest st = Inr (n, pos1, st1) \<Longrightarrow> I (drop n rest) pos1 st1"
    and skip: "\<And>rest pos st s name e rest2. I rest pos st \<Longrightarrow> dropWhile not_option rest = (s, KOpt (None, name, e)) # rest2 \<Longrightarrow>
      I rest2 pos st"
    and opt: "\<And>rest pos st s a name e rest2 todo unknown k st2. I rest pos st \<Longrightarrow>
      dropWhile not_option rest = (s, KOpt (Some a, name, e)) # rest2 \<Longrightarrow>
      option_cluster os a name e rest2 = Inr (todo, unknown, k) \<Longrightarrow> take_actions subs todo st = Inr st2 \<Longrightarrow> I (drop k rest2) pos st2"
  shows "I rest' pos' st' \<and> list_all not_option rest'"
  using assms(1,2)
proof (induction "length rest" arbitrary: rest pos ex st rule: less_induct)
  case less
  show ?case
  proof (cases "list_all not_option rest")
    case True
    with less.prems show ?thesis by (simp add: parse_loop.simps)
  next
    case some: False
    with less.prems(1) obtain n pos1 st1 where
      first: "(if not_option (hd rest) then consume_positionals subs pos rest st else Inr (0, pos, st)) = Inr (n, pos1, st1)"
      by (subst (asm) parse_loop.simps) (auto split: sum.splits)
    have one: "I (drop n rest) pos1 st1" using first less.prems(2) assms(3) by (auto split: if_splits)
    note body = less.prems(1) [unfolded parse_loop.simps [of os subs rest] first]
    show ?thesis
    proof (cases "n > 0")
      case True
      with some body have "parse_loop os subs (drop n rest) pos1 ex st1 = Inr (rest', pos', ex', st')" by simp
      from less.hyps [OF loop_shorter(3) [OF some True] this one] show ?thesis .
    next
      case False
      with one have one: "I rest pos1 st1" by simp
      obtain x rest2 where x: "dropWhile not_option rest = x # rest2"
        using some by (cases "dropWhile not_option rest") (auto simp: list_all_iff)
      have "is_opt (snd x)" using hd_dropWhile [of not_option rest] x by (simp add: not_option_def)
      then obtain s t where xt: "x = (s, KOpt t)" by (cases x; cases "snd x") auto
      show ?thesis
      proof (cases "fst t")
        case None
        then have "parse_loop os subs rest2 pos1 (ex @ map fst (takeWhile not_option rest) @ [s]) st1 = Inr (rest', pos', ex', st')"
          using body some False x xt by (cases t) simp
        from less.hyps [OF loop_shorter(2) [OF x] this] skip [OF one] x xt None show ?thesis by (cases t) auto
      next
        case (Some a)
        then obtain name e where t: "t = (Some a, name, e)" by (cases t) auto
        obtain todo unknown k st2 where
          cl: "option_cluster os a name e rest2 = Inr (todo, unknown, k)" "take_actions subs todo st1 = Inr st2" and
          more: "parse_loop os subs (drop k rest2) pos1 (ex @ map fst (takeWhile not_option rest) @ unknown) st2 = Inr (rest', pos', ex', st')"
          using body some False x xt t by (auto split: sum.splits)
        from less.hyps [OF loop_shorter(1) [OF x] more opt [OF one x [unfolded xt t] cl]] show ?thesis .
      qed
    qed
  qed
qed

definition known_options :: "arg_action list \<Rightarrow> word_kinds \<Rightarrow> bool" where
  "known_options acts rest \<longleftrightarrow>
     (\<forall>x \<in> set rest. \<forall>a name e. snd x = KOpt (Some a, name, e) \<longrightarrow> a \<in> set acts \<and> act_options a \<noteq> [])"

lemma known_options_dropWhile:
  assumes "known_options acts rest" "dropWhile not_option rest = (s, KOpt t) # rest2"
  shows "known_options acts rest2" "fst t = Some a \<Longrightarrow> a \<in> set acts \<and> act_options a \<noteq> []"
proof -
  have "set ((s, KOpt t) # rest2) \<subseteq> set rest" using set_dropWhileD assms(2) by (metis subsetI)
  with assms(1) show "known_options acts rest2" by (auto simp: known_options_def)
  from \<open>set ((s, KOpt t) # rest2) \<subseteq> set rest\<close> assms(1) show "fst t = Some a \<Longrightarrow> a \<in> set acts \<and> act_options a \<noteq> []"
    by (cases t) (force simp: known_options_def)
qed

lemma known_options_drop: "known_options acts rest \<Longrightarrow> known_options acts (drop n rest)"
  by (auto simp: known_options_def dest: in_set_dropD)

lemma parse_loop_ok:
  assumes "leaf_ok acts" "os = option_actions acts"
    and "parse_loop os subs rest pos ex st = Inr (rest', pos', ex', st')"
    and "state_ok acts st" "pos_ready pos rest" "set pos \<subseteq> set acts" "\<forall>a \<in> set pos. act_options a = []" "known_options acts rest"
  shows "state_ok acts st' \<and> pos_ready pos' rest' \<and> set pos' \<subseteq> set acts \<and> (\<forall>a \<in> set pos'. act_options a = [])"
proof -
  let ?I = "\<lambda>rest pos st. state_ok acts st \<and> pos_ready pos rest \<and> set pos \<subseteq> set acts \<and> (\<forall>a \<in> set pos. act_options a = []) \<and>
    known_options acts rest"
  have plain: "list_all plain_action acts" using assms(1) by (simp add: leaf_ok_def)
  have "?I rest' pos' st' \<and> list_all not_option rest'"
  proof (rule parse_loop_invariant [OF assms(3), where I = ?I])
    show "?I (drop n rest) pos1 st1" if "?I rest pos st" "consume_positionals subs pos rest st = Inr (n, pos1, st1)" for rest pos st n pos1 st1
      using consume_positionals_ok [OF assms(1) _ _ _ _ that(2)] that(1) by (auto simp: pos_ready_def known_options_drop)
    show "?I rest2 pos st" if "?I rest pos st" "dropWhile not_option rest = (s, KOpt (None, name, e)) # rest2" for rest pos st s name e rest2
      using that(1) known_options_dropWhile(1) [OF _ that(2)] fresh_dropWhile [OF _ that(2)] by (auto simp: pos_ready_def)
    show "?I (drop k rest2) pos st2"
      if "?I rest pos st" "dropWhile not_option rest = (s, KOpt (Some a, name, e)) # rest2"
        "option_cluster os a name e rest2 = Inr (todo, unknown, k)" "take_actions subs todo st = Inr st2"
      for rest pos st s a name e rest2 todo unknown k st2
    proof -
      have a: "a \<in> set acts" "act_options a \<noteq> []" and known: "known_options acts rest2"
        using known_options_dropWhile [OF _ that(2)] that(1) by auto
      note cl = option_cluster_ok [OF plain a assms(2) that(3)]
      have "pos_ready pos rest2" using that(1) fresh_dropWhile [OF _ that(2)] by (auto simp: pos_ready_def)
      then have "pos_ready pos (drop k rest2)" using cl by (cases rest2) (auto simp: pos_ready_def split: if_splits)
      moreover have "state_ok acts st2" using take_actions_ok [OF assms(1) _ _ that(4)] that(1) cl by blast
      ultimately show ?thesis using that(1) known known_options_drop by blast
    qed
  qed (use assms in auto)
  then show ?thesis by blast
qed

lemma arg_kinds_options:
  assumes "arg_kinds (option_actions acts) ss = Inr ks"
  shows "known_options acts ks"
proof -
  have member: "a \<in> set acts \<and> act_options a \<noteq> []" if "(name, a) \<in> set (option_actions acts)" for name a
    using that by (auto simp: option_actions_def)
  have single: "a \<in> set acts \<and> act_options a \<noteq> []" if "parse_optional (option_actions acts) s = Inr (Some (Some a, name, e))" for s a name e
  proof -
    let ?os = "option_actions acts"
    have tuples: "b \<in> set acts \<and> act_options b \<noteq> []" if "option_tuples ?os s = [(Some b, name', e')]" for b name' e'
    proof -
      have "(Some b, name', e') \<in> set (option_tuples ?os s)" using that by simp
      then show ?thesis unfolding option_tuples_def using member by (force split: if_splits prod.splits)
    qed
    have "a \<in> snd ` set ?os \<or> option_tuples ?os s = [(Some a, name, e)]"
      using that by (auto simp: parse_optional_def dest: map_of_SomeD intro: rev_image_eqI split: if_splits prod.splits list.splits)
    with member tuples show ?thesis by auto
  qed
  from assms show ?thesis unfolding known_options_def
    by (induction ss arbitrary: ks) (auto dest: single split: if_splits sum.splits option.splits)
qed

lemma put_defaults:
  "map_of (foldl (\<lambda>ns x. put_default (f x) (g x) ns) ns0 xs) k =
   (case map_of ns0 k of None \<Rightarrow> map_of (map (\<lambda>x. (f x, g x)) xs) k | Some v \<Rightarrow> Some v)"
  by (induction xs arbitrary: ns0) (auto simp: put_default_def map_add_def split: option.splits)

lemma put_defaults_ok:
  "dict_ok ns0 \<Longrightarrow> dict_ok (foldl (\<lambda>ns x. put_default (f x) (g x) ns) ns0 xs) \<and>
   fst ` set (foldl (\<lambda>ns x. put_default (f x) (g x) ns) ns0 xs) = fst ` set ns0 \<union> f ` set xs"
proof (induction xs arbitrary: ns0)
  case (Cons x xs)
  have "dict_ok (put_default (f x) (g x) ns0)" "fst ` set (put_default (f x) (g x) ns0) = insert (f x) (fst ` set ns0)"
    using Cons.prems by (auto simp: put_default_def map_of_eq_None_iff)
  with Cons.IH [of "put_default (f x) (g x) ns0"] show ?case by auto
qed simp

lemma initial_attr:
  assumes "distinct (map act_dest (kept_actions acts))" "a \<in> set (kept_actions acts)"
  shows "map_of (initial_ns acts defs) (act_dest a) = Some (act_default a)"
proof -
  have "map_of (map (\<lambda>a. (act_dest a, act_default a)) (kept_actions acts)) (act_dest a) = Some (act_default a)"
    using assms by (intro map_of_is_SomeI) (auto simp: comp_def)
  then show ?thesis
    unfolding initial_ns_def case_prod_beta by (simp add: put_defaults kept_actions_def)
qed

lemma initial_state_ok:
  assumes "leaf_ok acts"
  shows "state_ok acts \<lparr>ps_ns = initial_ns acts [], ps_seen = [], ps_unrecognized = []\<rparr>"
proof -
  have "distinct (map act_dest (kept_actions acts))" using assms by (simp add: leaf_ok_def)
  moreover have "dict_ok (initial_ns acts []) \<and> fst ` set (initial_ns acts []) = act_dest ` set (kept_actions acts)"
    using put_defaults_ok [of "[]" act_dest act_default "kept_actions acts"] by (simp add: initial_ns_def kept_actions_def)
  ultimately show ?thesis by (simp add: state_ok_def attr_ok_def initial_attr)
qed

text \<open>The namespace that a parser without sub-commands returns.\<close>

definition leaf_ns :: "arg_action list \<Rightarrow> namespace \<Rightarrow> bool" where
  "leaf_ns acts ns \<longleftrightarrow> dict_ok ns \<and> fst ` set ns \<subseteq> act_dest ` set (kept_actions acts) \<and>
     (\<forall>a \<in> set (kept_actions acts). \<exists>v. map_of ns (act_dest a) = Some v \<and> (stored_ok a v \<or> \<not> act_required a \<and> v = act_default a))"

lemma leaf_namespace:
  assumes "leaf_ok acts" "run_parser acts [] subs argv = Inr (ns, unknown)"
  shows "leaf_ns acts ns"
proof -
  let ?os = "option_actions acts" and ?pos = "filter (\<lambda>a. act_options a = []) acts"
  let ?st = "\<lparr>ps_ns = initial_ns acts [], ps_seen = [], ps_unrecognized = []\<rparr>"
  obtain ks rest pos ex st1 n pos2 st2 where
    ks: "arg_kinds ?os argv = Inr ks" and loop: "parse_loop ?os subs ks ?pos [] ?st = Inr (rest, pos, ex, st1)" and
    final: "consume_positionals subs pos rest st1 = Inr (n, pos2, st2)" and
    ns: "ns = ps_ns st2" "\<not> list_ex (\<lambda>a. act_required a \<and> a \<notin> set (ps_seen st2)) acts"
    using assms(2) by (auto simp: run_parser_def Let_def split: sum.splits if_splits)
  have "pos_ready ?pos ks" using assms(1) arg_kinds_fresh [OF ks] by (simp add: pos_ready_def leaf_ok_def)
  then have "state_ok acts st1 \<and> pos_ready pos rest \<and> set pos \<subseteq> set acts \<and> (\<forall>a \<in> set pos. act_options a = [])"
    by (intro parse_loop_ok [OF assms(1) refl loop] arg_kinds_options [OF ks] initial_state_ok [OF assms(1)]) auto
  then have "state_ok acts st2" using consume_positionals_ok [OF assms(1) _ _ _ _ final] by blast
  moreover have "set (kept_actions acts) \<subseteq> set acts" by (auto simp: kept_actions_def)
  ultimately show ?thesis
    using ns by (fastforce simp: leaf_ns_def state_ok_def attr_ok_def list_ex_iff split: option.splits if_splits)
qed

section \<open>A parser with nothing but sub-commands\<close>

text \<open>
  Beside the help such a parser has only its sub-command. The strings before it can only be options
  that it does not know, and the sub-command takes everything that follows.
\<close>

definition sub_default :: "string \<Rightarrow> bool \<Rightarrow> arg_val \<Rightarrow> arg_action" where
  "sub_default dest required d = (sub_action dest required)\<lparr>act_default := d\<rparr>"

lemma sub_default_simps [simp]:
  "act_options (sub_default dest req d) = []" "act_dest (sub_default dest req d) = dest"
  "act_nargs (sub_default dest req d) = SubCommand" "act_effect (sub_default dest req d) = RunParser"
  "act_required (sub_default dest req d) = req" "act_default (sub_default dest req d) = d"
  by (simp_all add: sub_default_def sub_action_def)

lemma help_simps [simp]:
  "act_options help_action = [''-h'', ''--help'']" "act_nargs help_action = NoArgs" "act_effect help_action = ShowHelp"
  "act_required help_action = False"
  by (simp_all add: help_action_def)

lemma take_help: "take_actions subs ((help_action, ss) # todo) st \<noteq> Inr st'"
  by (auto simp: take_action_def split: sum.splits)

lemma map_of_ns_update: "dict_ok new \<Longrightarrow> map_of (ns_update ns new) = map_of ns ++ map_of new"
proof (induction new arbitrary: ns)
  case (Cons x new)
  then have "map_of new (fst x) = None" by (simp add: map_of_eq_None_iff)
  with Cons show ?case by (cases x) (auto simp: ns_update_def fun_eq_iff map_add_def split: option.splits)
qed (simp add: ns_update_def)

lemma dict_ok_ns_update: "dict_ok ns \<Longrightarrow> dict_ok (ns_update ns new)"
  by (induction new arbitrary: ns) (auto simp: ns_update_def)

definition sub_result :: "string \<Rightarrow> namespace \<Rightarrow> sub_parsers \<Rightarrow> namespace \<Rightarrow> bool" where
  "sub_result dest ns0 subs ns \<longleftrightarrow> (\<exists>name f rest new unknown. map_of subs name = Some f \<and> f rest = Inr (new, unknown) \<and>
     ns = ns_update (dict_set dest (StrVal name) ns0) new)"

lemma consume_sub:
  assumes "consume_positionals subs [a] rest st = Inr (n, pos', st')"
  shows "pos' = [a] \<and> st' = st \<or> (\<exists>ss. pos' = [] \<and> take_action subs a ss st = Inr st')"
proof -
  define counts where "counts = match_partial [act_nargs a] (map snd rest) 1"
  have "length counts \<le> 1" using match_partial_spec [OF _ counts_def] by simp
  moreover obtain st1 where "take_actions subs (zip [a] (split_counts counts (map fst rest))) st = Inr st1"
    "pos' = drop (length counts) [a]" "st' = st1"
    using assms unfolding counts_def by (auto simp: consume_positionals_def Let_def split: sum.splits)
  ultimately show ?thesis by (cases counts) (auto split: sum.splits)
qed

lemma run_sub_result:
  "run_sub subs a ss st = Inr st' \<Longrightarrow> sub_result (act_dest a) (ps_ns st) subs (ps_ns st')"
  unfolding run_sub_def sub_result_def by (auto split: list.splits option.splits sum.splits) blast

lemma group_namespace:
  assumes "run_parser [help_action, sub_default dest req d] defs subs argv = Inr (ns, unknown)"
  shows "\<not> req \<and> ns = initial_ns [help_action, sub_default dest req d] defs \<or>
    sub_result dest (initial_ns [help_action, sub_default dest req d] defs) subs ns"
proof -
  let ?sub = "sub_default dest req d"
  let ?acts = "[help_action, ?sub]"
  let ?os = "option_actions ?acts" and ?ns = "initial_ns ?acts defs"
  let ?st = "\<lparr>ps_ns = ?ns, ps_seen = [], ps_unrecognized = []\<rparr>"
  define I where "I = (\<lambda>pos (st :: parse_state). pos = [?sub] \<and> ps_ns st = ?ns \<and> ?sub \<notin> set (ps_seen st) \<or> pos = [] \<and> sub_result dest ?ns subs (ps_ns st))"
  have step: "I pos1 st1" if "I pos st" "consume_positionals subs pos rest st = Inr (n, pos1, st1)" for rest pos st n pos1 st1
  proof (cases "pos = []")
    case True
    then show ?thesis using that by (auto simp: I_def consume_positionals_def)
  next
    case False
    then have "pos = [?sub]" "ps_ns st = ?ns" "?sub \<notin> set (ps_seen st)" using that(1) by (auto simp: I_def)
    with consume_sub [of subs ?sub rest st n pos1 st1] that(2) show ?thesis
      by (auto simp: I_def take_action_def see_def dest!: run_sub_result)
  qed
  obtain ks rest pos ex st1 n pos2 st2 where
    ks: "arg_kinds ?os argv = Inr ks" and loop: "parse_loop ?os subs ks [?sub] [] ?st = Inr (rest, pos, ex, st1)" and
    final: "consume_positionals subs pos rest st1 = Inr (n, pos2, st2)" and
    ns: "ns = ps_ns st2" "\<not> (req \<and> ?sub \<notin> set (ps_seen st2))"
    using assms by (auto simp: run_parser_def Let_def split: sum.splits if_splits)
  have "(I pos st1 \<and> known_options ?acts rest) \<and> list_all not_option rest"
  proof (rule parse_loop_invariant [OF loop, where I = "\<lambda>rest pos st. I pos st \<and> known_options ?acts rest"])
    show "I pos1 st1 \<and> known_options ?acts (drop n rest)"
      if "I pos st \<and> known_options ?acts rest" "consume_positionals subs pos rest st = Inr (n, pos1, st1)" for rest pos st n pos1 st1
      using step [OF conjunct1 [OF that(1)] that(2)] known_options_drop [OF conjunct2 [OF that(1)]] by blast
    show "I pos st \<and> known_options ?acts rest2"
      if "I pos st \<and> known_options ?acts rest" "dropWhile not_option rest = (s, KOpt (None, name, e)) # rest2" for rest pos st s name e rest2
      using that known_options_dropWhile(1) by blast
    show "I pos st2 \<and> known_options ?acts (drop k rest2)"
      if "I pos st \<and> known_options ?acts rest" "dropWhile not_option rest = (s, KOpt (Some a, name, e)) # rest2"
        "option_cluster ?os a name e rest2 = Inr (todo, unknown, k)" "take_actions subs todo st = Inr st2"
      for rest pos st s a name e rest2 todo unknown k st2
    proof -
      have "a \<in> set ?acts \<and> act_options a \<noteq> []"
        using known_options_dropWhile(2) [OF conjunct2 [OF that(1)] that(2)] by simp
      then have "a = help_action" by auto
      then have "\<exists>ss todo'. todo = (help_action, ss) # todo'"
        using that(3) by (cases e) (auto split: if_splits option.splits sum.splits)
      with that(4) take_help show ?thesis by metis
    qed
  qed (simp add: I_def arg_kinds_options [OF ks])
  then have "I pos2 st2" using step [OF _ final] by blast
  with ns show ?thesis by (auto simp: I_def)
qed


section \<open>Exit statuses\<close>

definition stops_well :: "'a parsed \<Rightarrow> bool" where
  "stops_well r \<longleftrightarrow> (case r of Inl e \<Rightarrow> e = 0 \<or> e = 2 | Inr _ \<Rightarrow> True)"

lemma stops_well_simps [simp]: "stops_well (Inr x)" "stops_well (Inl e) \<longleftrightarrow> e = 0 \<or> e = 2"
  by (simp_all add: stops_well_def)

lemma stops_case:
  "stops_well m \<Longrightarrow> (\<And>x. m = Inr x \<Longrightarrow> stops_well (f x)) \<Longrightarrow> stops_well (case m of Inl e \<Rightarrow> Inl e | Inr x \<Rightarrow> f x)"
  by (cases m) auto

lemma values_stop: "stops_well (good_value a s)" "stops_well (good_values a ss)" "stops_well (get_values a ss)"
proof -
  show one: "stops_well (good_value a s)" for s
    by (auto simp: good_value_def get_value_def check_value_def split: arg_type.splits sum.splits option.splits)
  show list: "stops_well (good_values a ss)" for ss
    by (induction ss) (auto intro!: stops_case one)
  show "stops_well (get_values a ss)"
    using one list by (auto simp: get_values_def Let_def intro!: stops_case split: arg_val.splits)
qed

lemma kinds_stop: "stops_well (arg_kinds os ss)"
proof (induction ss)
  case (Cons s ss)
  have "stops_well (parse_optional os s)" by (auto simp: parse_optional_def split: list.splits prod.splits)
  with Cons show ?case by (auto intro!: stops_case)
qed simp

lemma cluster_stop: "stops_well (option_cluster os a name e rest)"
  by (induction os a name e rest rule: option_cluster.induct) (auto intro!: stops_case split: option.splits)

definition subs_stop :: "sub_parsers \<Rightarrow> bool" where
  "subs_stop subs \<longleftrightarrow> (\<forall>name f ss. map_of subs name = Some f \<longrightarrow> stops_well (f ss))"

lemma actions_stop:
  assumes "subs_stop subs"
  shows "stops_well (take_actions subs todo st)" "stops_well (consume_positionals subs pos rest st)"
proof -
  have "stops_well (run_sub subs a ss st)" for a ss st
    using assms by (auto simp: run_sub_def subs_stop_def intro!: stops_case split: list.splits option.splits)
  then have "stops_well (take_action subs a ss st)" for a ss st
    by (auto simp: take_action_def intro!: stops_case values_stop split: arg_effect.splits)
  then show all: "stops_well (take_actions subs todo st)" for todo st
    by (induction todo arbitrary: st) (auto intro!: stops_case)
  show "stops_well (consume_positionals subs pos rest st)"
    by (auto simp: consume_positionals_def Let_def intro!: stops_case all)
qed

lemma loop_stops:
  assumes "subs_stop subs"
  shows "stops_well (parse_loop os subs rest pos ex st)"
proof (induction "length rest" arbitrary: rest pos ex st rule: less_induct)
  case less
  show ?case
  proof (cases "list_all not_option rest")
    case False
    have first: "stops_well (if not_option (hd rest) then consume_positionals subs pos rest st else Inr (0, pos, st))"
      by (simp add: actions_stop [OF assms])
    show ?thesis
      unfolding parse_loop.simps [of os subs rest] if_not_P [OF False]
      by (intro stops_case first, auto intro!: stops_case cluster_stop actions_stop [OF assms] less.hyps
        simp del: length_drop split: list.splits arg_kind.splits option.splits) (meson False loop_shorter)+
  qed (simp add: parse_loop.simps)
qed

lemma run_parser_stops: "subs_stop subs \<Longrightarrow> stops_well (run_parser acts defs subs argv)"
  by (auto simp: run_parser_def Let_def intro!: stops_case kinds_stop loop_stops actions_stop)

lemma parse_known_stops: "stops_well (parse_known_args p argv)"
proof (induction p arbitrary: argv)
  case (ArgumentParser acts defs subs)
  have "subs_stop (map (map_prod id parse_known_args) subs)"
    using ArgumentParser by (force simp: subs_stop_def dest!: map_of_SomeD)
  then show ?case by (simp add: run_parser_stops)
qed

lemma parse_args_stops: "stops_well (parse_args p argv)"
  by (auto simp: parse_args_def intro!: stops_case parse_known_stops)

section \<open>Numbers\<close>

text \<open>\<open>int\<close> reads back what \<open>str\<close> prints, up to the 4300 digits that it accepts.\<close>

definition int_ok :: "int \<Rightarrow> bool" where
  "int_ok n \<longleftrightarrow> length (digits_of_nat (nat \<bar>n\<bar>)) \<le> 4300"

lemma int_of_str_int:
  assumes "length (digits_of_nat (nat \<bar>n\<bar>)) \<le> 4300"
  shows "py_int_of_str (py_str_int n) = Inr n"
proof -
  have digits: "list_all is_ascii_digit (digits_of_nat m)" for m by simp
  have "\<not> is_space (CHR ''-'')" by (simp add: is_space_def code_def)
  then have strip: "py_strip (py_str_int n) = py_str_int n"
    using digit_not_space [OF digits_of_nat_digits] by (intro py_strip_id) (auto simp: py_str_int_def split: if_splits)
  have val: "py_int_digits (digits_of_nat m) = Inr (int m)" if "length (digits_of_nat m) \<le> 4300" for m
    using that by (simp add: py_int_digits_def drop_underscores_digits digits)
  show ?thesis
  proof (cases "n < 0")
    case True
    then show ?thesis using assms val by (simp add: py_int_of_str_def strip) (simp add: py_str_int_def)
  next
    case False
    obtain d ds where d: "digits_of_nat (nat n) = d # ds" by (meson digits_of_nat_not_Nil neq_Nil_conv)
    have "d \<noteq> CHR ''-''" "d \<noteq> CHR ''+''" using digits_of_nat_digits [of d "nat n"] d by (auto simp: is_ascii_digit_def)
    with False d assms val [of "nat n"] show ?thesis by (simp add: py_int_of_str_def strip) (simp add: py_str_int_def)
  qed
qed

end
