(* ===== verification/Fwctl_Cli_Props.thy ===== *)
theory Fwctl_Cli_Props
  imports Fwctl_Cli Py_Argparse_Props
begin

text \<open>
  The command lines of the two programs: whatever is typed, a handler finds the attributes that it
  reads, and every command can be typed.
\<close>

section \<open>The parsers\<close>

lemma foldl_add_argument: "foldl (\<lambda>p a. add_argument a p) (ArgumentParser acts defs subs) new = ArgumentParser (acts @ new) defs subs"
  by (induction new arbitrary: acts) auto

lemma leaf_parser: "leaf acts = ArgumentParser (help_action # acts) [] []"
  by (simp add: leaf_def new_parser_def foldl_add_argument)

lemma parse_leaf: "parse_known_args (leaf acts) = run_parser (help_action # acts) [] []"
  by (simp add: leaf_parser)

lemma sub_action_default: "sub_action dest req = sub_default dest req NoneVal"
  by (simp add: sub_default_def sub_action_def)

lemma group_parser:
  "set_defaults defs (add_subparsers dest req subs new_parser) =
   ArgumentParser [help_action, sub_default dest req (case map_of defs dest of None \<Rightarrow> NoneVal | Some v \<Rightarrow> v)]
     (foldl (\<lambda>d (k, v). dict_set k v d) [] defs) subs"
  if "map_of defs [] = None"
  using that by (simp add: new_parser_def help_action_def sub_default_def sub_action_def split: option.splits)

lemmas action_defs = positional_def valued_def flag_def appended_def

section \<open>Attributes\<close>

lemmas attr_defs = attr_str_def attr_bool_def attr_int_def attr_float_def attr_maybe_int_def attr_maybe_str_def attr_strs_or_empty_def

lemma all_some_map: "list_all (\<lambda>x. \<exists>y. f x = Some y \<and> P y) xs \<Longrightarrow> \<exists>ys. all_some (map f xs) = Some ys \<and> list_all P ys"
  by (induction xs) auto

lemma attr_lists:
  assumes "map_of ns k = Some v" "list_ok a v"
  shows "act_type a = AsStr \<Longrightarrow> \<exists>ss. attr_strs ns k = Some ss \<and>
      list_all (\<lambda>s. case act_choices a of None \<Rightarrow> True | Some vs \<Rightarrow> StrVal s \<in> set vs) ss"
    and "act_type a = AsInt \<Longrightarrow> \<exists>ns'. attr_ints ns k = Some ns'"
proof -
  obtain vs where v: "v = ListVal vs" "list_all (one_ok a) vs" using assms(2) by (auto simp: list_ok_def)
  show "\<exists>ss. attr_strs ns k = Some ss \<and> list_all (\<lambda>s. case act_choices a of None \<Rightarrow> True | Some vs \<Rightarrow> StrVal s \<in> set vs) ss"
    if "act_type a = AsStr"
  proof -
    have "list_all (\<lambda>x. \<exists>y. str_of_val x = Some y \<and> (case act_choices a of None \<Rightarrow> True | Some vs \<Rightarrow> StrVal y \<in> set vs)) vs"
      using v(2) that by (auto simp: one_ok_def list_all_iff)
    from all_some_map [OF this] v(1) assms(1) show ?thesis by (simp add: attr_strs_def)
  qed
  show "\<exists>ns'. attr_ints ns k = Some ns'" if "act_type a = AsInt"
  proof -
    have "list_all (\<lambda>x. \<exists>y. int_of_val x = Some y \<and> True) vs"
      using v(2) that by (auto simp: one_ok_def list_all_iff)
    from all_some_map [OF this] v(1) assms(1) show ?thesis by (auto simp: attr_ints_def)
  qed
qed

text \<open>What each command of \<open>fwctl\<close> leaves in the namespace.\<close>

lemma leaf_result:
  assumes "parse_known_args (leaf acts) ss = Inr (ns, unknown)" "leaf_ok (help_action # acts)" "list_all (\<lambda>a. act_effect a \<noteq> ShowHelp) acts"
  shows "dict_ok ns" "fst ` set ns \<subseteq> act_dest ` set acts"
    "a \<in> set acts \<Longrightarrow> \<exists>v. map_of ns (act_dest a) = Some v \<and> (stored_ok a v \<or> \<not> act_required a \<and> v = act_default a)"
proof -
  have "kept_actions (help_action # acts) = acts" using assms(3) by (simp add: kept_actions_def list_all_iff)
  with leaf_namespace [OF assms(2) assms(1) [unfolded parse_leaf]] show "dict_ok ns" "fst ` set ns \<subseteq> act_dest ` set acts"
    "a \<in> set acts \<Longrightarrow> \<exists>v. map_of ns (act_dest a) = Some v \<and> (stored_ok a v \<or> \<not> act_required a \<and> v = act_default a)"
    unfolding leaf_ns_def by auto
qed

lemmas leaf_checks = leaf_ok_def plain_action_def kept_actions_def lists_only_def action_defs

text \<open>Each kind of argument gives an attribute of its kind.\<close>

lemma attr_of_action:
  assumes "map_of ns k = Some v" "stored_ok a v \<or> \<not> act_required a \<and> v = act_default a"
  shows "a = positional k OneOrMore AsStr \<Longrightarrow> \<exists>ss. attr_strs ns k = Some ss"
    and "a = positional k OneOrMore AsInt \<Longrightarrow> \<exists>ns'. attr_ints ns k = Some ns'"
    and "a = positional k ExactlyOne AsStr \<Longrightarrow> \<exists>s. attr_str ns k = Some s"
    and "a = (positional k AtMostOne AsStr)\<lparr>act_choices := cs\<rparr> \<Longrightarrow> \<exists>s. attr_maybe_str ns k = Some s"
    and "a = flag names k \<Longrightarrow> \<exists>b. attr_bool ns k = Some b"
    and "a = valued names k AsInt (IntVal n) \<Longrightarrow> \<exists>n. attr_int ns k = Some n"
    and "a = valued names k AsFloat (FloatVal q) \<Longrightarrow> \<exists>q. attr_float ns k = Some q"
    and "a = (valued names k AsInt NoneVal)\<lparr>act_choices := cs\<rparr> \<Longrightarrow>
      \<exists>n. attr_maybe_int ns k = Some n \<and> (\<forall>m vs. n = Some m \<and> cs = Some vs \<longrightarrow> IntVal m \<in> set vs)"
    and "a = (appended names k)\<lparr>act_choices := cs\<rparr> \<Longrightarrow>
      \<exists>ss. attr_strs_or_empty ns k = Some ss \<and> (\<forall>vs. cs = Some vs \<longrightarrow> (\<forall>s \<in> set ss. StrVal s \<in> set vs))"
    and "a = valued names k AsStr (StrVal s) \<Longrightarrow> \<exists>s. attr_str ns k = Some s"
proof -
  show "a = positional k OneOrMore AsStr \<Longrightarrow> \<exists>ss. attr_strs ns k = Some ss"
    using assms attr_lists(1) [OF assms(1), of a] by (auto simp: action_defs stored_ok_def)
  show "a = positional k OneOrMore AsInt \<Longrightarrow> \<exists>ns'. attr_ints ns k = Some ns'"
    using assms attr_lists(2) [OF assms(1), of a] by (auto simp: action_defs stored_ok_def)
  show "a = (appended names k)\<lparr>act_choices := cs\<rparr> \<Longrightarrow>
      \<exists>ss. attr_strs_or_empty ns k = Some ss \<and> (\<forall>vs. cs = Some vs \<longrightarrow> (\<forall>s \<in> set ss. StrVal s \<in> set vs))"
    using assms attr_lists(1) [OF assms(1), of a]
    by (auto simp: action_defs stored_ok_def attr_strs_or_empty_def list_all_iff list_ok_def split: option.splits)
qed (use assms in \<open>auto simp: action_defs stored_ok_def one_ok_def attr_defs split: option.splits\<close>)

text \<open>What the parser of a command without sub-commands returns, by its arguments.\<close>

lemma act_dests [simp]:
  "act_dest (positional k n t) = k" "act_dest (flag names k) = k" "act_dest (valued names k t d) = k" "act_dest (appended names k) = k"
  by (simp_all add: action_defs)

lemma leaf_attrs:
  assumes "parse_known_args (leaf acts) ss = Inr (ns, unknown)" "leaf_ok (help_action # acts)" "list_all (\<lambda>a. act_effect a \<noteq> ShowHelp) acts"
  shows "positional k OneOrMore AsStr \<in> set acts \<Longrightarrow> \<exists>ss. attr_strs ns k = Some ss"
    and "positional k OneOrMore AsInt \<in> set acts \<Longrightarrow> \<exists>ns'. attr_ints ns k = Some ns'"
    and "positional k ExactlyOne AsStr \<in> set acts \<Longrightarrow> \<exists>s. attr_str ns k = Some s"
    and "(positional k AtMostOne AsStr)\<lparr>act_choices := cs\<rparr> \<in> set acts \<Longrightarrow> \<exists>s. attr_maybe_str ns k = Some s"
    and "flag names k \<in> set acts \<Longrightarrow> \<exists>b. attr_bool ns k = Some b"
    and "valued names k AsInt (IntVal n) \<in> set acts \<Longrightarrow> \<exists>n. attr_int ns k = Some n"
    and "valued names k AsFloat (FloatVal q) \<in> set acts \<Longrightarrow> \<exists>q. attr_float ns k = Some q"
    and "(valued names k AsInt NoneVal)\<lparr>act_choices := cs\<rparr> \<in> set acts \<Longrightarrow>
      \<exists>n. attr_maybe_int ns k = Some n \<and> (\<forall>m vs. n = Some m \<and> cs = Some vs \<longrightarrow> IntVal m \<in> set vs)"
    and "(appended names k)\<lparr>act_choices := cs\<rparr> \<in> set acts \<Longrightarrow>
      \<exists>ss. attr_strs_or_empty ns k = Some ss \<and> (\<forall>vs. cs = Some vs \<longrightarrow> (\<forall>s \<in> set ss. StrVal s \<in> set vs))"
    and "valued names k AsStr (StrVal s) \<in> set acts \<Longrightarrow> \<exists>s. attr_str ns k = Some s"
proof -
  have base: "\<exists>v. map_of ns k = Some v \<and> (stored_ok a v \<or> \<not> act_required a \<and> v = act_default a)" if "a \<in> set acts" "act_dest a = k" for a k
    using leaf_result(3) [OF assms that(1)] that(2) by simp
  note attrs = attr_of_action [of ns k]
  show "positional k OneOrMore AsStr \<in> set acts \<Longrightarrow> \<exists>ss. attr_strs ns k = Some ss" using base attrs(1) act_dests(1) by metis
  show "positional k OneOrMore AsInt \<in> set acts \<Longrightarrow> \<exists>ns'. attr_ints ns k = Some ns'" using base attrs(2) act_dests(1) by metis
  show "positional k ExactlyOne AsStr \<in> set acts \<Longrightarrow> \<exists>s. attr_str ns k = Some s" using base attrs(3) act_dests(1) by metis
  show "(positional k AtMostOne AsStr)\<lparr>act_choices := cs\<rparr> \<in> set acts \<Longrightarrow> \<exists>s. attr_maybe_str ns k = Some s"
    using base [of "(positional k AtMostOne AsStr)\<lparr>act_choices := cs\<rparr>" k] attrs(4) by auto
  show "flag names k \<in> set acts \<Longrightarrow> \<exists>b. attr_bool ns k = Some b" using base attrs(5) act_dests(2) by metis
  show "valued names k AsInt (IntVal n) \<in> set acts \<Longrightarrow> \<exists>n. attr_int ns k = Some n" using base attrs(6) act_dests(3) by metis
  show "valued names k AsFloat (FloatVal q) \<in> set acts \<Longrightarrow> \<exists>q. attr_float ns k = Some q" using base attrs(7) act_dests(3) by metis
  show "\<exists>n. attr_maybe_int ns k = Some n \<and> (\<forall>m vs. n = Some m \<and> cs = Some vs \<longrightarrow> IntVal m \<in> set vs)"
    if m: "(valued names k AsInt NoneVal)\<lparr>act_choices := cs\<rparr> \<in> set acts"
  proof -
    from base [OF m, of k] obtain v where v: "map_of ns k = Some v"
      "stored_ok ((valued names k AsInt NoneVal)\<lparr>act_choices := cs\<rparr>) v \<or> \<not> act_required ((valued names k AsInt NoneVal)\<lparr>act_choices := cs\<rparr>) \<and>
        v = act_default ((valued names k AsInt NoneVal)\<lparr>act_choices := cs\<rparr>)" by auto
    show ?thesis by (rule attr_of_action(8) [OF v refl])
  qed
  show "\<exists>ss. attr_strs_or_empty ns k = Some ss \<and> (\<forall>vs. cs = Some vs \<longrightarrow> (\<forall>s \<in> set ss. StrVal s \<in> set vs))"
    if m: "(appended names k)\<lparr>act_choices := cs\<rparr> \<in> set acts"
  proof -
    from base [OF m, of k] obtain v where v: "map_of ns k = Some v"
      "stored_ok ((appended names k)\<lparr>act_choices := cs\<rparr>) v \<or> \<not> act_required ((appended names k)\<lparr>act_choices := cs\<rparr>) \<and>
        v = act_default ((appended names k)\<lparr>act_choices := cs\<rparr>)" by auto
    show ?thesis by (rule attr_of_action(9) [OF v refl])
  qed
  show "valued names k AsStr (StrVal s) \<in> set acts \<Longrightarrow> \<exists>s. attr_str ns k = Some s" using base attrs(10) act_dests(3) by metis
qed

section \<open>Whatever is typed\<close>

lemma group_result:
  assumes "parse_known_args (ArgumentParser [help_action, sub_default dest req d] defs subs) ss = Inr (ns, unknown)"
  obtains "\<not> req" "ns = initial_ns [help_action, sub_default dest req d] defs"
    | name p rest new unknown' where "map_of subs name = Some p" "parse_known_args p rest = Inr (new, unknown')"
        "ns = ns_update (dict_set dest (StrVal name) (initial_ns [help_action, sub_default dest req d] defs)) new"
proof -
  have "map_of (map (map_prod id parse_known_args) subs) name = map_option parse_known_args (map_of subs name)" for name
    by (induction subs) auto
  with group_namespace [of dest req d defs "map (map_prod id parse_known_args) subs" ss ns unknown] assms that show ?thesis
    by (auto simp: sub_result_def)
qed

lemma merged:
  assumes "ns = ns_update (dict_set dest v init) new" "dict_ok new" "dict_ok init"
  shows "dict_ok ns" "map_of ns k = (case map_of new k of None \<Rightarrow> if k = dest then Some v else map_of init k | Some u \<Rightarrow> Some u)"
    "fst ` set ns = insert dest (fst ` set init) \<union> fst ` set new"
proof -
  show "dict_ok ns" using assms by (simp add: dict_ok_ns_update)
  show "map_of ns k = (case map_of new k of None \<Rightarrow> if k = dest then Some v else map_of init k | Some u \<Rightarrow> Some u)" for k
    using assms by (simp add: map_of_ns_update map_add_def split: option.splits)
  have "fst ` set ns = dom (map_of ns)" by (simp add: dom_map_of_conv_image_fst)
  also have "\<dots> = insert dest (fst ` set init) \<union> fst ` set new"
    using assms by (auto simp: map_of_ns_update dom_map_of_conv_image_fst)
  finally show "fst ` set ns = insert dest (fst ` set init) \<union> fst ` set new" .
qed

lemma keys_None: "fst ` set ns \<subseteq> K \<Longrightarrow> k \<notin> K \<Longrightarrow> map_of ns k = None"
  by (auto simp: map_of_eq_None_iff)

lemma leaf_nothing: "parse_known_args (leaf []) ss = Inr (ns, unknown) \<Longrightarrow> ns = []"
  using leaf_result(2) [of "[]" ss ns unknown] by (simp add: leaf_checks)

lemma attr_same:
  assumes "map_of ns k = map_of ns' k"
  shows "attr_str ns k = attr_str ns' k" "attr_bool ns k = attr_bool ns' k" "attr_int ns k = attr_int ns' k"
    "attr_float ns k = attr_float ns' k" "attr_strs ns k = attr_strs ns' k" "attr_ints ns k = attr_ints ns' k"
    "attr_maybe_int ns k = attr_maybe_int ns' k" "attr_maybe_str ns k = attr_maybe_str ns' k" "attr_strs_or_empty ns k = attr_strs_or_empty ns' k"
  using assms by (simp_all add: attr_defs attr_strs_def attr_ints_def split: option.splits arg_val.splits)

definition leaf_fit :: "arg_action list \<Rightarrow> bool" where
  "leaf_fit acts \<longleftrightarrow> leaf_ok (help_action # acts) \<and> list_all (\<lambda>a. act_effect a \<noteq> ShowHelp) acts"

lemma action_result [consumes 4, case_names by_default named]:
  assumes "parse_known_args (ArgumentParser [help_action, sub_default ''action'' False d] init subs) ss = Inr (ns, unknown)"
    and "initial_ns [help_action, sub_default ''action'' False d] init = init" "dict_ok init"
    and "list_all (\<lambda>(name, p). \<exists>acts. p = leaf acts \<and> leaf_fit acts \<and> ''action'' \<notin> act_dest ` set acts) subs"
  obtains "ns = init"
    | name acts rest new unknown' where "map_of subs name = Some (leaf acts)" "parse_known_args (leaf acts) rest = Inr (new, unknown')"
        "leaf_fit acts" "dict_ok ns" "fst ` set ns \<subseteq> {''action''} \<union> fst ` set init \<union> act_dest ` set acts"
        "attr_str ns ''action'' = Some name" "\<And>k. k \<in> act_dest ` set acts \<Longrightarrow> map_of ns k = map_of new k"
        "\<And>k. k \<notin> act_dest ` set acts \<Longrightarrow> k \<noteq> ''action'' \<Longrightarrow> map_of ns k = map_of init k"
  using assms(1)
proof (cases rule: group_result)
  case 1
  with assms(2) that(1) show ?thesis by simp
next
  case (2 name p rest new unknown')
  then obtain acts where acts: "p = leaf acts" "leaf_fit acts" "''action'' \<notin> act_dest ` set acts"
    using assms(4) by (auto simp: list_all_iff dest!: map_of_SomeD)
  note new = leaf_result [OF 2(2) [unfolded acts(1)] conjunct1 [OF acts(2) [unfolded leaf_fit_def]] conjunct2 [OF acts(2) [unfolded leaf_fit_def]]]
  note m = merged [OF 2(3) [unfolded assms(2)] new(1) assms(3)]
  have none: "map_of new k = None" if "k \<notin> act_dest ` set acts" for k using keys_None [OF new(2) that] .
  show ?thesis
  proof (rule that(2) [OF 2(1) [unfolded acts(1)] 2(2) [unfolded acts(1)] acts(2) m(1)])
    show "fst ` set ns \<subseteq> {''action''} \<union> fst ` set init \<union> act_dest ` set acts" using m(3) new(2) by auto
    show "attr_str ns ''action'' = Some name" using m(2) [of "''action''"] none [OF acts(3)] by (simp add: attr_str_def)
    show "map_of ns k = map_of new k" if k: "k \<in> act_dest ` set acts" for k
    proof -
      obtain v where "map_of new k = Some v" using new(3) k by blast
      then show ?thesis using m(2) [of k] by simp
    qed
    show "map_of ns k = map_of init k" if "k \<notin> act_dest ` set acts" "k \<noteq> ''action''" for k
      using m(2) [of k] none [OF that(1)] that(2) by simp
  qed
qed

lemma leafI:
  "leaf_fit acts \<Longrightarrow> ''action'' \<notin> act_dest ` set acts \<Longrightarrow> \<exists>acts'. leaf acts = leaf acts' \<and> leaf_fit acts' \<and> ''action'' \<notin> act_dest ` set acts'"
  by blast

text \<open>The arguments of the commands.\<close>

lemma cidr_dest [simp]: "act_dest cidr_arg = ''cidr''"
  by (simp add: cidr_arg_def)

abbreviation duration_arg :: arg_action where
  "duration_arg \<equiv> valued [''--duration''] ''duration'' AsFloat (FloatVal (Fin 60))"

abbreviation port_args :: "arg_action list" where
  "port_args \<equiv> [positional ''proto'' ExactlyOne AsStr, positional ''ports'' OneOrMore AsInt]"

lemma command_leaves:
  "leaf_fit []" "leaf_fit [cidr_arg]" "leaf_fit [cidr_arg, duration_arg]" "leaf_fit [flag [''--all''] ''all'']" "leaf_fit port_args"
  by (simp_all add: leaf_fit_def leaf_checks cidr_arg_def)

lemma allow_result:
  assumes "parse_known_args allow_parser ss = Inr (ns, unknown)"
  shows "dict_ok ns \<and> ''cmd'' \<notin> fst ` set ns \<and> (\<exists>a. allow_args_of ns = Some a)"
proof -
  let ?init = "[(''action'', StrVal ''list'')]"
  have "allow_parser = ArgumentParser [help_action, sub_default ''action'' False (StrVal ''list'')] ?init
      [(''add'', leaf [cidr_arg]), (''del'', leaf [cidr_arg]), (''list'', leaf [])]"
    by (simp add: allow_parser_def group_parser dict_set_def)
  note p = assms [unfolded this]
  have init: "initial_ns [help_action, sub_default ''action'' False (StrVal ''list'')] ?init = ?init" "dict_ok ?init"
    by (simp_all add: initial_ns_def put_default_def)
  have "list_all (\<lambda>(name, p). \<exists>acts. p = leaf acts \<and> leaf_fit acts \<and> ''action'' \<notin> act_dest ` set acts)
      [(''add'', leaf [cidr_arg]), (''del'', leaf [cidr_arg]), (''list'', leaf [])]"
    unfolding list.pred_inject prod.case by (intro conjI leafI command_leaves TrueI; simp)
  with p init show ?thesis
  proof (cases rule: action_result)
    case (named name acts rest new unknown')
    have "name = ''list'' \<and> acts = [] \<or> (name = ''add'' \<or> name = ''del'') \<and> acts = [cidr_arg]"
      using named(1) by (auto simp: leaf_parser split: if_splits)
    then show ?thesis
    proof
      assume "name = ''list'' \<and> acts = []"
      with named show ?thesis by (auto simp: allow_args_of_def)
    next
      assume n: "(name = ''add'' \<or> name = ''del'') \<and> acts = [cidr_arg]"
      have "attr_strs ns ''cidr'' = attr_strs new ''cidr''" using n named(7) by (intro attr_same) (simp add: cidr_arg_def)
      moreover obtain cs where "attr_strs new ''cidr'' = Some cs"
        using leaf_attrs(1) [OF named(2)] named(3) n by (auto simp: leaf_fit_def cidr_arg_def)
      ultimately show ?thesis using n named(4,5,6) by (auto simp: allow_args_of_def cidr_arg_def)
    qed
  qed (simp add: allow_args_of_def attr_defs)
qed

lemma block_result:
  assumes "parse_known_args block_parser ss = Inr (ns, unknown)"
  shows "dict_ok ns \<and> ''cmd'' \<notin> fst ` set ns \<and> (\<exists>a. block_args_of ns = Some a)"
proof -
  let ?init = "[(''action'', StrVal ''list''), (''all'', BoolVal False)]"
  let ?subs = "[(''add'', leaf [cidr_arg, duration_arg]), (''del'', leaf [cidr_arg]), (''list'', leaf [flag [''--all''] ''all'']), (''flush'', leaf [])]"
  have "block_parser = ArgumentParser [help_action, sub_default ''action'' False (StrVal ''list'')] ?init ?subs"
    by (simp add: block_parser_def group_parser dict_set_def)
  note p = assms [unfolded this]
  have init: "initial_ns [help_action, sub_default ''action'' False (StrVal ''list'')] ?init = ?init" "dict_ok ?init"
    by (simp_all add: initial_ns_def put_default_def)
  have "list_all (\<lambda>(name, p). \<exists>acts. p = leaf acts \<and> leaf_fit acts \<and> ''action'' \<notin> act_dest ` set acts) ?subs"
    unfolding list.pred_inject prod.case by (intro conjI leafI command_leaves TrueI; simp)
  with p init show ?thesis
  proof (cases rule: action_result)
    case (named name acts rest new unknown')
    note attrs = leaf_attrs [OF named(2) conjunct1 [OF named(3) [unfolded leaf_fit_def]] conjunct2 [OF named(3) [unfolded leaf_fit_def]]]
    note same = attr_same [OF named(7)]
    from named(1) consider "name = ''add''" "acts = [cidr_arg, duration_arg]" | "name = ''del''" "acts = [cidr_arg]"
      | "name = ''list''" "acts = [flag [''--all''] ''all'']" | "name = ''flush''" "acts = []"
      by (auto simp: leaf_parser split: if_splits)
    then show ?thesis
    proof cases
      case 1
      with attrs(1) [of "''cidr''"] attrs(7) [of "[''--duration'']" "''duration''" "Fin 60"] same [of "''cidr''"] same [of "''duration''"]
        named(4,5,6) show ?thesis by (auto simp: block_args_of_def cidr_arg_def)
    next
      case 2
      with attrs(1) [of "''cidr''"] same [of "''cidr''"] named(4,5,6) show ?thesis by (auto simp: block_args_of_def cidr_arg_def)
    next
      case 3
      with attrs(5) [of "[''--all'']" "''all''"] same [of "''all''"] named(4,5,6) show ?thesis by (auto simp: block_args_of_def)
    next
      case 4
      with named(4,5,6) show ?thesis by (auto simp: block_args_of_def)
    qed
  qed (simp add: block_args_of_def attr_defs)
qed

lemma port_result:
  assumes "parse_known_args port_parser ss = Inr (ns, unknown)"
  shows "dict_ok ns \<and> ''cmd'' \<notin> fst ` set ns \<and> (\<exists>a. port_args_of ns = Some a)"
proof -
  let ?init = "[(''action'', StrVal ''list'')]"
  let ?subs = "[(''allow'', leaf port_args), (''deny'', leaf port_args), (''del'', leaf port_args), (''list'', leaf []), (''flush'', leaf [])]"
  have "port_parser = ArgumentParser [help_action, sub_default ''action'' False (StrVal ''list'')] ?init ?subs"
    by (simp add: port_parser_def port_leaf_def group_parser dict_set_def)
  note p = assms [unfolded this]
  have init: "initial_ns [help_action, sub_default ''action'' False (StrVal ''list'')] ?init = ?init" "dict_ok ?init"
    by (simp_all add: initial_ns_def put_default_def)
  have "list_all (\<lambda>(name, p). \<exists>acts. p = leaf acts \<and> leaf_fit acts \<and> ''action'' \<notin> act_dest ` set acts) ?subs"
    unfolding list.pred_inject prod.case by (intro conjI leafI command_leaves TrueI; simp)
  with p init show ?thesis
  proof (cases rule: action_result)
    case (named name acts rest new unknown')
    note attrs = leaf_attrs [OF named(2) conjunct1 [OF named(3) [unfolded leaf_fit_def]] conjunct2 [OF named(3) [unfolded leaf_fit_def]]]
    note same = attr_same [OF named(7)]
    from named(1) consider "name \<in> {''allow'', ''deny'', ''del''}" "acts = port_args" | "name \<in> {''list'', ''flush''}" "acts = []"
      by (auto simp: leaf_parser split: if_splits)
    then show ?thesis
    proof cases
      case 1
      then obtain proto ports where "attr_str new ''proto'' = Some proto" "attr_ints new ''ports'' = Some ports"
        using attrs(3) [of "''proto''"] attrs(2) [of "''ports''"] by auto
      moreover have "attr_str ns ''proto'' = attr_str new ''proto''" "attr_ints ns ''ports'' = attr_ints new ''ports''"
        using same(1) [of "''proto''"] same(6) [of "''ports''"] 1 by simp_all
      moreover have "''cmd'' \<notin> fst ` set ns" using named(5) 1(2) by auto
      ultimately have "\<exists>a. port_args_of ns = Some a" using 1(1) named(6) by (simp add: port_args_of_def)
      with named(4) \<open>''cmd'' \<notin> fst ` set ns\<close> show ?thesis by blast
    next
      case 2
      then have "\<exists>a. port_args_of ns = Some a" using named(6) by (auto simp: port_args_of_def)
      moreover have "''cmd'' \<notin> fst ` set ns" using named(5) 2(2) by auto
      ultimately show ?thesis using named(4) by blast
    qed
  qed (simp add: port_args_of_def attr_defs)
qed

definition features_ok :: "string list \<Rightarrow> bool" where
  "features_ok names \<longleftrightarrow> set names \<subseteq> set (map fst FEATURES)"

text \<open>What the choices of the command line ensure.\<close>

fun line_args_ok :: "fwctl_args \<Rightarrow> bool" where
  "line_args_ok (ConfigSet c) \<longleftrightarrow> features_ok (set_enable c) \<and> features_ok (set_disable c) \<and>
     (case set_aggressiveness c of None \<Rightarrow> True | Some n \<Rightarrow> 0 \<le> n \<and> n \<le> 3)"
| "line_args_ok _ \<longleftrightarrow> True"

abbreviation set_args :: "arg_action list" where
  "set_args \<equiv>
     [valued [''--rate''] ''rate'' AsInt NoneVal,
      valued [''--burst''] ''burst'' AsInt NoneVal,
      (valued [''--aggressiveness''] ''aggressiveness'' AsInt NoneVal)\<lparr>act_choices := Some (map IntVal [0..3])\<rparr>,
      (appended [''--enable''] ''enable'')\<lparr>act_choices := Some feature_names\<rparr>,
      (appended [''--disable''] ''disable'')\<lparr>act_choices := Some feature_names\<rparr>]"

lemma set_args_fit: "leaf_fit set_args"
  by (simp add: leaf_fit_def leaf_checks)

lemma set_attrs:
  assumes "parse_known_args (leaf set_args) ss = Inr (ns, unknown)"
  obtains rate burst lvl on off where "attr_maybe_int ns ''rate'' = Some rate" "attr_maybe_int ns ''burst'' = Some burst"
    "attr_maybe_int ns ''aggressiveness'' = Some lvl" "case lvl of None \<Rightarrow> True | Some n \<Rightarrow> 0 \<le> n \<and> n \<le> 3"
    "attr_strs_or_empty ns ''enable'' = Some on" "attr_strs_or_empty ns ''disable'' = Some off" "features_ok on" "features_ok off"
proof -
  note attrs = leaf_attrs [OF assms conjunct1 [OF set_args_fit [unfolded leaf_fit_def]] conjunct2 [OF set_args_fit [unfolded leaf_fit_def]]]
  have plain: "valued names k AsInt NoneVal = (valued names k AsInt NoneVal)\<lparr>act_choices := None\<rparr>" for names k
    by (simp add: valued_def)
  from attrs(8) [where names = "[''--rate'']" and k = "''rate''" and cs = None] obtain rate where rate: "attr_maybe_int ns ''rate'' = Some rate"
    by (auto simp flip: plain)
  from attrs(8) [where names = "[''--burst'']" and k = "''burst''" and cs = None] obtain burst where burst: "attr_maybe_int ns ''burst'' = Some burst"
    by (auto simp flip: plain)
  from attrs(8) [where names = "[''--aggressiveness'']" and k = "''aggressiveness''" and cs = "Some (map IntVal [0..3])"] obtain lvl where
    lvl: "attr_maybe_int ns ''aggressiveness'' = Some lvl" "\<forall>m vs. lvl = Some m \<and> Some (map IntVal [0..3]) = Some vs \<longrightarrow> IntVal m \<in> set vs"
    by auto
  from attrs(9) [where names = "[''--enable'']" and k = "''enable''" and cs = "Some feature_names"] obtain on where
    on: "attr_strs_or_empty ns ''enable'' = Some on" "\<forall>s \<in> set on. StrVal s \<in> set feature_names" by auto
  from attrs(9) [where names = "[''--disable'']" and k = "''disable''" and cs = "Some feature_names"] obtain off where
    off: "attr_strs_or_empty ns ''disable'' = Some off" "\<forall>s \<in> set off. StrVal s \<in> set feature_names" by auto
  have "features_ok on" "features_ok off" using on(2) off(2) by (auto simp: features_ok_def feature_names_def)
  moreover have "case lvl of None \<Rightarrow> True | Some n \<Rightarrow> 0 \<le> n \<and> n \<le> 3" using lvl(2) by (auto split: option.splits)
  ultimately show ?thesis using that rate burst lvl(1) on(1) off(1) by blast
qed

lemma config_result:
  assumes "parse_known_args config_parser ss = Inr (ns, unknown)"
  shows "dict_ok ns \<and> ''cmd'' \<notin> fst ` set ns \<and> (\<exists>a. config_args_of ns = Some a \<and> line_args_ok a)"
proof -
  let ?init = "[(''action'', StrVal ''show'')]"
  let ?subs = "[(''show'', leaf []), (''set'', leaf set_args)]"
  have "config_parser = ArgumentParser [help_action, sub_default ''action'' False (StrVal ''show'')] ?init ?subs"
    by (simp add: config_parser_def config_set_parser_def group_parser dict_set_def)
  note p = assms [unfolded this]
  have init: "initial_ns [help_action, sub_default ''action'' False (StrVal ''show'')] ?init = ?init" "dict_ok ?init"
    by (simp_all add: initial_ns_def put_default_def)
  have "list_all (\<lambda>(name, p). \<exists>acts. p = leaf acts \<and> leaf_fit acts \<and> ''action'' \<notin> act_dest ` set acts) ?subs"
    unfolding list.pred_inject prod.case by (intro conjI leafI command_leaves set_args_fit TrueI; simp)
  with p init show ?thesis
  proof (cases rule: action_result)
    case (named name acts rest new unknown')
    from named(1) consider "name = ''show''" "acts = []" | "name = ''set''" "acts = set_args"
      by (auto simp: leaf_parser split: if_splits)
    then show ?thesis
    proof cases
      case 1
      then have "config_args_of ns = Some ConfigShow" using named(6) by (simp add: config_args_of_def)
      moreover have "''cmd'' \<notin> fst ` set ns" using named(5) 1(2) by auto
      ultimately show ?thesis using named(4) by simp
    next
      case 2
      obtain rate burst lvl on off where
        r: "attr_maybe_int new ''rate'' = Some rate" "attr_maybe_int new ''burst'' = Some burst"
          "attr_maybe_int new ''aggressiveness'' = Some lvl" "case lvl of None \<Rightarrow> True | Some n \<Rightarrow> 0 \<le> n \<and> n \<le> 3"
          "attr_strs_or_empty new ''enable'' = Some on" "attr_strs_or_empty new ''disable'' = Some off" "features_ok on" "features_ok off"
        by (rule set_attrs [OF named(2) [unfolded 2(2)]])
      have dests: "act_dest ` set acts = {''rate'', ''burst'', ''aggressiveness'', ''enable'', ''disable''}" unfolding 2(2) by simp
      have same: "map_of ns k = map_of new k" if "k \<in> {''rate'', ''burst'', ''aggressiveness'', ''enable'', ''disable''}" for k
      proof -
        have "k \<in> act_dest ` set acts" using that unfolding dests .
        then show ?thesis by (rule named(7))
      qed
      have "attr_maybe_int ns k = attr_maybe_int new k" "attr_strs_or_empty ns k = attr_strs_or_empty new k"
        if "k \<in> {''rate'', ''burst'', ''aggressiveness'', ''enable'', ''disable''}" for k
        using same [OF that] by (rule attr_same)+
      with r named(6) 2(1) have "\<exists>a. config_args_of ns = Some a \<and> line_args_ok a" by (simp add: config_args_of_def)
      moreover have "''cmd'' \<notin> fst ` set ns" using named(5) unfolding dests by auto
      ultimately show ?thesis using named(4) by blast
    qed
  qed (simp add: config_args_of_def attr_defs)
qed

lemma leaf_command:
  assumes "parse_known_args (leaf acts) ss = Inr (ns, unknown)" "leaf_fit acts" "''cmd'' \<notin> act_dest ` set acts"
  shows "dict_ok ns \<and> ''cmd'' \<notin> fst ` set ns"
  using leaf_result(1,2) [OF assms(1)] assms(2,3) by (auto simp: leaf_fit_def)

lemma other_results:
  "parse_known_args policy_parser ss = Inr (ns, unknown) \<Longrightarrow> dict_ok ns \<and> ''cmd'' \<notin> fst ` set ns \<and> (\<exists>s. attr_maybe_str ns ''policy'' = Some s)"
  "parse_known_args top_parser ss = Inr (ns, unknown) \<Longrightarrow>
     dict_ok ns \<and> ''cmd'' \<notin> fst ` set ns \<and> (\<exists>n. attr_int ns ''count'' = Some n) \<and> (\<exists>b. attr_bool ns ''watch'' = Some b)"
  "parse_known_args reset_parser ss = Inr (ns, unknown) \<Longrightarrow>
     dict_ok ns \<and> ''cmd'' \<notin> fst ` set ns \<and> (\<exists>b. attr_bool ns ''blocks'' = Some b) \<and> (\<exists>b. attr_bool ns ''all'' = Some b)"
proof -
  let ?policy = "[(positional ''policy'' AtMostOne AsStr)\<lparr>act_choices := Some [StrVal ''allow'', StrVal ''deny'']\<rparr>]"
  have fit: "leaf_fit ?policy" by (simp add: leaf_fit_def leaf_checks)
  show "dict_ok ns \<and> ''cmd'' \<notin> fst ` set ns \<and> (\<exists>s. attr_maybe_str ns ''policy'' = Some s)" if "parse_known_args policy_parser ss = Inr (ns, unknown)"
    using leaf_command [OF that [unfolded policy_parser_def] fit] leaf_attrs(4) [OF that [unfolded policy_parser_def]] fit
    by (simp add: leaf_fit_def)
  let ?top = "[valued [''-n'', ''--count''] ''count'' AsInt (IntVal 20), flag [''-w'', ''--watch''] ''watch'']"
  have fit: "leaf_fit ?top" by (simp add: leaf_fit_def leaf_checks)
  show "dict_ok ns \<and> ''cmd'' \<notin> fst ` set ns \<and> (\<exists>n. attr_int ns ''count'' = Some n) \<and> (\<exists>b. attr_bool ns ''watch'' = Some b)"
    if "parse_known_args top_parser ss = Inr (ns, unknown)"
    using leaf_command [OF that [unfolded top_parser_def] fit] leaf_attrs(5) [OF that [unfolded top_parser_def], where names = "[''-w'', ''--watch'']" and k = "''watch''"]
      leaf_attrs(6) [OF that [unfolded top_parser_def], where names = "[''-n'', ''--count'']" and k = "''count''" and n = 20] fit
    by (simp add: leaf_fit_def)
  let ?reset = "[flag [''--blocks''] ''blocks'', flag [''--all''] ''all'']"
  have fit: "leaf_fit ?reset" by (simp add: leaf_fit_def leaf_checks)
  show "dict_ok ns \<and> ''cmd'' \<notin> fst ` set ns \<and> (\<exists>b. attr_bool ns ''blocks'' = Some b) \<and> (\<exists>b. attr_bool ns ''all'' = Some b)"
    if "parse_known_args reset_parser ss = Inr (ns, unknown)"
    using leaf_command [OF that [unfolded reset_parser_def] fit] leaf_attrs(5) [OF that [unfolded reset_parser_def], where names = "[''--blocks'']" and k = "''blocks''"]
      leaf_attrs(5) [OF that [unfolded reset_parser_def], where names = "[''--all'']" and k = "''all''"] fit
    by (simp add: leaf_fit_def)
qed

lemma command_args_same: "(\<And>k. k \<noteq> ''cmd'' \<Longrightarrow> map_of ns k = map_of ns' k) \<Longrightarrow> command_args c ns = command_args c ns'"
  by (simp add: command_args_def allow_args_of_def block_args_of_def port_args_of_def config_args_of_def attr_same [of ns _ ns'] cong: if_cong)

definition fwctl_commands :: "(string \<times> arg_parser) list" where
  "fwctl_commands = [(''status'', leaf []), (''allow'', allow_parser), (''block'', block_parser), (''port'', port_parser),
     (''policy'', policy_parser), (''top'', top_parser), (''stats'', leaf []), (''config'', config_parser),
     (''reset'', reset_parser), (''selftest'', leaf [])]"

lemma command_result:
  assumes "map_of fwctl_commands name = Some p" "parse_known_args p rest = Inr (new, unknown)"
  shows "dict_ok new \<and> ''cmd'' \<notin> fst ` set new \<and> (\<exists>a. command_args name new = Some a \<and> line_args_ok a)"
proof -
  from map_of_SomeD [OF assms(1)] have "name \<in> {''status'', ''stats'', ''selftest''} \<and> p = leaf [] \<or> name = ''allow'' \<and> p = allow_parser \<or>
      name = ''block'' \<and> p = block_parser \<or> name = ''port'' \<and> p = port_parser \<or> name = ''policy'' \<and> p = policy_parser \<or>
      name = ''top'' \<and> p = top_parser \<or> name = ''config'' \<and> p = config_parser \<or> name = ''reset'' \<and> p = reset_parser"
    unfolding fwctl_commands_def by (simp only: list.set insert_iff empty_iff prod.inject) (elim disjE conjE FalseE; simp)
  then consider "name = ''status'' \<or> name = ''stats'' \<or> name = ''selftest''" "p = leaf []"
    | "name = ''allow''" "p = allow_parser" | "name = ''block''" "p = block_parser" | "name = ''port''" "p = port_parser"
    | "name = ''policy''" "p = policy_parser" | "name = ''top''" "p = top_parser" | "name = ''config''" "p = config_parser"
    | "name = ''reset''" "p = reset_parser"
    by (elim disjE conjE) auto
  then show ?thesis
  proof cases
    case 1
    from leaf_nothing [OF assms(2) [unfolded 1(2)]] have "new = []" .
    with 1(1) show ?thesis by (elim disjE) (simp_all add: command_args_def)
  next
    case 2
    from allow_result [OF assms(2) [unfolded 2(2)]] obtain a where "dict_ok new \<and> ''cmd'' \<notin> fst ` set new" "allow_args_of new = Some a" by blast
    with 2(1) show ?thesis by (simp add: command_args_def)
  next
    case 3
    from block_result [OF assms(2) [unfolded 3(2)]] obtain a where "dict_ok new \<and> ''cmd'' \<notin> fst ` set new" "block_args_of new = Some a" by blast
    with 3(1) show ?thesis by (simp add: command_args_def)
  next
    case 4
    from port_result [OF assms(2) [unfolded 4(2)]] obtain a where "dict_ok new \<and> ''cmd'' \<notin> fst ` set new" "port_args_of new = Some a" by blast
    with 4(1) show ?thesis by (simp add: command_args_def)
  next
    case 5
    from other_results(1) [OF assms(2) [unfolded 5(2)]] obtain s where "dict_ok new \<and> ''cmd'' \<notin> fst ` set new" "attr_maybe_str new ''policy'' = Some s" by blast
    with 5(1) show ?thesis by (simp add: command_args_def)
  next
    case 6
    from other_results(2) [OF assms(2) [unfolded 6(2)]] obtain n b where "dict_ok new \<and> ''cmd'' \<notin> fst ` set new"
      "attr_int new ''count'' = Some n" "attr_bool new ''watch'' = Some b" by blast
    with 6(1) show ?thesis by (simp add: command_args_def)
  next
    case 7
    from config_result [OF assms(2) [unfolded 7(2)]] obtain a where "dict_ok new \<and> ''cmd'' \<notin> fst ` set new" "config_args_of new = Some a" "line_args_ok a" by blast
    with 7(1) show ?thesis by (simp add: command_args_def)
  next
    case 8
    from other_results(3) [OF assms(2) [unfolded 8(2)]] obtain b c where "dict_ok new \<and> ''cmd'' \<notin> fst ` set new"
      "attr_bool new ''blocks'' = Some b" "attr_bool new ''all'' = Some c" by blast
    with 8(1) show ?thesis by (simp add: command_args_def)
  qed
qed

text \<open>
  C28. Whatever is typed after \<open>fwctl\<close>, the program either stops before it touches a map, with status
  0 or 2, or the handler it chooses finds every attribute that it reads, each of the kind
  it expects; the stages named are stages, and the tier is one of the four.
\<close>

theorem command_lines_fit:
  "case parse_args fwctl_parser argv of
     Inl status \<Rightarrow> status = 0 \<or> status = 2
   | Inr ns \<Rightarrow> \<exists>a. fwctl_args_of ns = Some a \<and> line_args_ok a"
proof (cases "parse_args fwctl_parser argv")
  case (Inl status)
  with parse_args_stops [of fwctl_parser argv] show ?thesis by simp
next
  case (Inr ns)
  let ?subs = fwctl_commands
  have "fwctl_parser = ArgumentParser [help_action, sub_default ''cmd'' True NoneVal] [] ?subs"
    by (simp add: fwctl_parser_def fwctl_commands_def new_parser_def sub_action_default)
  with Inr obtain unknown where "parse_known_args (ArgumentParser [help_action, sub_default ''cmd'' True NoneVal] [] ?subs) argv = Inr (ns, unknown)"
    by (auto simp: parse_args_def split: sum.splits if_splits)
  then obtain name p rest new unknown' where sub: "map_of ?subs name = Some p" "parse_known_args p rest = Inr (new, unknown')"
    "ns = ns_update (dict_set ''cmd'' (StrVal name) (initial_ns [help_action, sub_default ''cmd'' True NoneVal] [])) new"
    by (cases rule: group_result) auto
  have init: "initial_ns [help_action, sub_default ''cmd'' True NoneVal] [] = [(''cmd'', NoneVal)]"
    by (simp add: initial_ns_def put_default_def)
  have new: "dict_ok new \<and> ''cmd'' \<notin> fst ` set new \<and> (\<exists>a. command_args name new = Some a \<and> line_args_ok a)"
    by (rule command_result [OF sub(1,2)])
  note m = merged [OF sub(3) [unfolded init] conjunct1 [OF new]]
  have "map_of new ''cmd'' = None" using new by (simp add: map_of_eq_None_iff)
  then have "attr_str ns ''cmd'' = Some name" using m(2) [of "''cmd''"] by (simp add: attr_str_def)
  moreover have "command_args name ns = command_args name new"
    by (rule command_args_same) (use m(2) in \<open>simp split: option.splits\<close>)
  ultimately show ?thesis using Inr new by (simp add: fwctl_args_of_def)
qed

section \<open>The controller\<close>

abbreviation controller_options :: "arg_action list" where
  "controller_options \<equiv>
     [valued [''--iface''] ''iface'' AsStr (StrVal ''veth-fw''),
      valued [''--interval''] ''interval'' AsFloat (FloatVal (Fin 1)),
      flag [''--dry-run''] ''dry_run'',
      flag [''--no-auto-tune''] ''no_auto_tune'',
      appended [''--allow''] ''allow'',
      valued [''--top''] ''top'' AsInt (IntVal 12)]"

lemma controller_options_fit: "leaf_fit controller_options"
  by (simp add: leaf_fit_def leaf_checks)

text \<open>
  Whatever is typed after \<open>controller\<close>, the program either stops with status 0 or 2 before it opens
  a map, or every option has a value of the kind that the controller reads; the arguments are
  complete unless the interval is infinite or not a number.
\<close>

theorem controller_lines_fit:
  "case parse_args controller_parser argv of
     Inl status \<Rightarrow> status = 0 \<or> status = 2
   | Inr ns \<Rightarrow> (\<exists>a. ctl_args_of ns = Some a) \<or> attr_float ns ''interval'' \<in> {Some PosInf, Some NegInf, Some NaN}"
proof (cases "parse_args controller_parser argv")
  case (Inl status)
  with parse_args_stops [of controller_parser argv] show ?thesis by simp
next
  case (Inr ns)
  then obtain unknown where "parse_known_args (leaf controller_options) argv = Inr (ns, unknown)"
    by (auto simp: parse_args_def controller_parser_def split: sum.splits if_splits)
  note attrs = leaf_attrs [OF this conjunct1 [OF controller_options_fit [unfolded leaf_fit_def]] conjunct2 [OF controller_options_fit [unfolded leaf_fit_def]]]
  have plain: "(appended [''--allow''] ''allow'')\<lparr>act_choices := None\<rparr> = appended [''--allow''] ''allow''" by (simp add: action_defs)
  obtain dry where "attr_bool ns ''dry_run'' = Some dry" using attrs(5) [of "[''--dry-run'']" "''dry_run''"] by auto
  moreover obtain fixed where "attr_bool ns ''no_auto_tune'' = Some fixed" using attrs(5) [of "[''--no-auto-tune'']" "''no_auto_tune''"] by auto
  moreover obtain n where "attr_int ns ''top'' = Some n" using attrs(6) [of "[''--top'']" "''top''" 12] by auto
  moreover obtain t where "attr_float ns ''interval'' = Some t" using attrs(7) [of "[''--interval'']" "''interval''" "Fin 1"] by auto
  moreover obtain cidrs where "attr_strs_or_empty ns ''allow'' = Some cidrs"
    using attrs(9) [where names = "[''--allow'']" and k = "''allow''" and cs = None] unfolding plain by auto
  moreover obtain iface where "attr_str ns ''iface'' = Some iface" using attrs(10) [of "[''--iface'']" "''iface''" "''veth-fw''"] by auto
  ultimately show ?thesis using Inr by (cases t) (simp_all add: ctl_args_of_def)
qed

end
