(* ===== verification/Fwctl_Cli_Words.thy ===== *)
theory Fwctl_Cli_Words
  imports Fwctl_Cli_Props
begin

text \<open>
  How the commands of \<open>fwctl\<close> are typed, and that \<open>argparse\<close> reads each of them as it was meant.
\<close>

section \<open>Words\<close>

definition is_word :: "string \<Rightarrow> bool" where
  "is_word s \<longleftrightarrow> s = [] \<or> hd s \<noteq> CHR ''-''"

lemma word_kind: "is_word s \<Longrightarrow> parse_optional os s = Inr None" "is_word s \<Longrightarrow> s \<noteq> ''--''"
  by (auto simp: parse_optional_def is_word_def)

text \<open>A number is an argument even if it is negative, unless the parser has options that look like numbers.\<close>

definition no_digit_options :: "options \<Rightarrow> bool" where
  "no_digit_options os \<longleftrightarrow> list_all (\<lambda>(name, a). 2 \<le> length name \<and> \<not> is_ascii_digit (name ! 1) \<and> \<not> negative_number name) os"

lemma digits_no_dash: "CHR ''-'' \<notin> set (digits_of_nat n)" "CHR ''='' \<notin> set (digits_of_nat n)" "CHR 10 \<notin> set (digits_of_nat n)"
  using digits_of_nat_digits [of "CHR ''-''" n] digits_of_nat_digits [of "CHR ''=''" n] digits_of_nat_digits [of "CHR 10" n]
  by (auto simp: is_ascii_digit_def)

lemma number_kind:
  assumes "no_digit_options os"
  shows "parse_optional os (py_str_int n) = Inr None" "py_str_int n \<noteq> ''--''"
proof -
  obtain d ds where d: "digits_of_nat (nat (- n)) = d # ds" by (meson digits_of_nat_not_Nil neq_Nil_conv)
  have digit: "is_ascii_digit d" using digits_of_nat_digits [of d "nat (- n)"] d by simp
  show dash: "py_str_int n \<noteq> ''--''" using digits_no_dash(1) [of "nat (- n)"] digits_no_dash(1) [of "nat n"] by (auto simp: py_str_int_def)
  show "parse_optional os (py_str_int n) = Inr None"
  proof (cases "n < 0")
    case False
    have "hd (digits_of_nat (nat n)) \<noteq> CHR ''-''" using digits_no_dash(1) hd_in_set [OF digits_of_nat_not_Nil] by metis
    then have "is_word (py_str_int n)" using False by (simp add: is_word_def py_str_int_def)
    then show ?thesis by (rule word_kind)
  next
    case True
    let ?s = "CHR ''-'' # d # ds"
    have s: "py_str_int n = ?s" using True d by (simp add: py_str_int_def)
    have other: "name \<noteq> [CHR ''-'', d] \<and> \<not> starts_with name ?s" if "(name, a) \<in> set os" for name a
    proof -
      have "name ! 1 \<noteq> d" "2 \<le> length name" using assms that digit by (auto simp: no_digit_options_def list_all_iff)
      then show ?thesis by (cases name; cases "tl name") (auto simp: starts_with_def)
    qed
    then have tuples: "option_tuples os ?s = []"
      using dash s digits_no_dash(1) [of "nat (- n)"] d by (auto simp: option_tuples_def starts_with_def [of _ "''--''"] filter_empty_conv)
    have "map_of os ?s = None"
      using other [of ?s] by (force simp: map_of_eq_None_iff starts_with_def)
    moreover have "CHR ''='' \<notin> set ?s" using digits_no_dash(2) [of "nat (- n)"] d by auto
    moreover have "last (d # ds) \<noteq> CHR 10" using digits_no_dash(3) d last_in_set [of "d # ds"] by (metis list.distinct(1))
    then have "negative_number ?s"
      using d digits_list_all [of "nat (- n)"] by (simp add: negative_number_def all_digits_def)
    moreover have "\<not> list_ex (\<lambda>(name, a). negative_number name) os" using assms by (auto simp: no_digit_options_def list_all_iff list_ex_iff)
    ultimately show ?thesis unfolding s using tuples by (auto simp: parse_optional_def split: prod.splits)
  qed
qed

section \<open>Steps of the loop\<close>

text \<open>An option with a value in the next string, one with the value joined to it, and one without a value.\<close>

lemma loop_done: "list_all not_option rest \<Longrightarrow> parse_loop os subs rest pos ex st = Inr (rest, pos, ex, st)"
  by (simp add: parse_loop.simps)

lemma loop_valued:
  assumes "act_nargs a = ExactlyOne"
  shows "parse_loop os subs ((name, KOpt (Some a, name, None)) # (s, KArg) # rest) pos ex st =
    (case take_action subs a [s] st of Inl e \<Rightarrow> Inl e | Inr st' \<Rightarrow> parse_loop os subs rest pos ex st')"
  using assms by (simp add: parse_loop.simps [of os subs "_ # _"] not_option_def split: sum.splits)

lemma loop_joined:
  assumes "act_nargs a = ExactlyOne"
  shows "parse_loop os subs ((w, KOpt (Some a, name, Some (sep, s))) # rest) pos ex st =
    (case take_action subs a [s] st of Inl e \<Rightarrow> Inl e | Inr st' \<Rightarrow> parse_loop os subs rest pos ex st')"
  using assms by (simp add: parse_loop.simps [of os subs "_ # _"] not_option_def split: sum.splits)

lemma loop_flag:
  assumes "act_nargs a = NoArgs"
  shows "parse_loop os subs ((name, KOpt (Some a, name, None)) # rest) pos ex st =
    (case take_action subs a [] st of Inl e \<Rightarrow> Inl e | Inr st' \<Rightarrow> parse_loop os subs rest pos ex st')"
  using assms by (simp add: parse_loop.simps [of os subs "_ # _"] not_option_def split: sum.splits)

lemma loop_positionals:
  assumes "not_option (hd rest)" "\<not> list_all not_option rest" "consume_positionals subs pos rest st = Inr (n, pos', st')" "0 < n"
  shows "parse_loop os subs rest pos ex st = parse_loop os subs (drop n rest) pos' ex st'"
  using assms by (simp add: parse_loop.simps [of os subs rest])

text \<open>Positional arguments that are followed by nothing but options.\<close>

lemma find_first: "(\<And>x. x \<in> set xs \<Longrightarrow> \<not> P x) \<Longrightarrow> P y \<Longrightarrow> find P (xs @ y # ys) = Some y"
  by (induction xs) auto

lemma rev_upt_split: "m \<le> n \<Longrightarrow> rev [0..<Suc n] = rev [Suc m..<Suc n] @ m # rev [0..<m]"
proof -
  assume "m \<le> n"
  then have "[0..<Suc n] = [0..<m] @ [m..<Suc n]" using upt_add_eq_append [of 0 m "Suc n - m"] by simp
  moreover have "[m..<Suc n] = m # [Suc m..<Suc n]" using \<open>m \<le> n\<close> by (intro upt_conv_Cons) simp
  ultimately show ?thesis by (simp del: upt_Suc)
qed

lemma match_list:
  assumes "ks \<noteq> []" "list_all (\<lambda>k. k = KArg) ks" "ls = [] \<or> is_opt (hd ls)"
  shows "match_groups [OneOrMore] (ks @ ls) = Some [length ks]"
proof -
  let ?P = "\<lambda>l. group_ok OneOrMore (take l (ks @ ls)) \<and> match_groups [] (drop l (ks @ ls)) \<noteq> None"
  have first: "?P (length ks)" using assms(1,2) by (cases ks) (auto simp: list_all_iff)
  have more: "\<not> ?P l" if l: "length ks < l" "l \<le> length (ks @ ls)" for l
  proof -
    from l assms(3) obtain k r where "ls = k # r" "is_opt k" by (cases ls) auto
    moreover obtain a as where "ks = a # as" "a = KArg" using assms(1,2) by (cases ks) auto
    moreover obtain m where "l = Suc (length ks + m)" using less_imp_Suc_add [OF l(1)] by blast
    ultimately show ?thesis by simp
  qed
  have "length ks \<le> length (ks @ ls)" by simp
  from rev_upt_split [OF this] have "find ?P (rev [0..<Suc (length (ks @ ls))]) = Some (length ks)"
  proof (rule ssubst)
    show "find ?P (rev [Suc (length ks)..<Suc (length (ks @ ls))] @ length ks # rev [0..<length ks]) = Some (length ks)"
    proof (rule find_first)
      show "?P (length ks)" by (rule first)
      show "\<not> ?P l" if "l \<in> set (rev [Suc (length ks)..<Suc (length (ks @ ls))])" for l
        by (rule more) (use that in \<open>simp_all del: upt_Suc\<close>)
    qed
  qed
  then show ?thesis by (simp add: match_groups.simps(2) del: group_ok.simps upt_Suc)
qed

lemma consume_list:
  assumes "act_nargs a = OneOrMore" "ws \<noteq> []" "rest = [] \<or> is_opt (snd (hd rest))"
  shows "consume_positionals subs [a] (map (\<lambda>w. (w, KArg)) ws @ rest) st =
    (case take_action subs a ws st of Inl e \<Rightarrow> Inl e | Inr st' \<Rightarrow> Inr (length ws, [], st'))"
proof -
  have "match_groups [OneOrMore] (map snd (map (\<lambda>w. (w, KArg)) ws) @ map snd rest) = Some [length (map snd (map (\<lambda>w. (w, KArg)) ws))]"
    using assms(2,3) by (intro match_list; cases rest) (auto simp: list_all_iff)
  then show ?thesis using assms(1) by (simp add: consume_positionals_def match_partial.simps(2) comp_def split: sum.splits)
qed

lemma consume_none: "consume_positionals subs [] rest st = Inr (0, [], st)"
  by (simp add: consume_positionals_def)

lemma consume_two:
  assumes "act_nargs a = ExactlyOne" "act_nargs b = OneOrMore" "ws \<noteq> []"
  shows "consume_positionals subs [a, b] (map (\<lambda>w. (w, KArg)) (w # ws)) st =
    (case take_actions subs [(a, [w]), (b, ws)] st of Inl e \<Rightarrow> Inl e | Inr st' \<Rightarrow> Inr (Suc (length ws), [], st'))"
proof -
  let ?ks = "map snd (map (\<lambda>w. (w, KArg)) ws)"
  let ?P = "\<lambda>l. group_ok ExactlyOne (take l (KArg # ?ks)) \<and> match_groups [OneOrMore] (drop l (KArg # ?ks)) \<noteq> None"
  have tail: "match_groups [OneOrMore] ?ks = Some [length ws]"
    using match_list [of ?ks "[]"] assms(3) by (simp add: list_all_iff)
  have more: "\<not> ?P l" if "l \<in> set (rev [2..<Suc (length (KArg # ?ks))])" for l
  proof -
    have "2 \<le> l" "l \<le> Suc (length ws)" using that by auto
    then obtain m where "l = Suc (Suc m)" by (metis add_2_eq_Suc le_Suc_ex)
    with \<open>l \<le> Suc (length ws)\<close> show ?thesis by (cases ws) auto
  qed
  have "rev [0..<Suc (length (KArg # ?ks))] = rev [2..<Suc (length (KArg # ?ks))] @ 1 # [0]"
    using rev_upt_split [of 1 "length (KArg # ?ks)"] by (simp add: numeral_2_eq_2 del: upt_Suc) simp
  then have "find ?P (rev [0..<Suc (length (KArg # ?ks))]) = Some 1"
  proof (rule ssubst)
    show "find ?P (rev [2..<Suc (length (KArg # ?ks))] @ 1 # [0]) = Some 1"
    proof (rule find_first)
      show "?P 1" using tail by simp
    qed (rule more)
  qed
  then have "match_partial [ExactlyOne, OneOrMore] (map snd (map (\<lambda>w. (w, KArg)) (w # ws))) 2 = [1, length ws]"
    using tail by (simp add: numeral_2_eq_2 match_partial.simps(2) match_groups.simps(2) [of ExactlyOne] del: group_ok.simps upt_Suc)
  then show ?thesis using assms(1,2) by (simp add: consume_positionals_def comp_def numeral_2_eq_2 split: sum.splits)
qed

section \<open>Sub-commands\<close>

text \<open>A parser with nothing but sub-commands can always tell options from arguments.\<close>

lemma help_tuples: "length (option_tuples [(''-h'', h), (''--help'', h)] (CHR ''-'' # c # r)) \<le> 1"
proof (cases "c = CHR ''-''")
  case True
  let ?pre = "takeWhile (\<lambda>x. x \<noteq> CHR ''='') r"
  have "\<not> starts_with ''-h'' (CHR ''-'' # CHR ''-'' # ?pre)" by (simp add: starts_with_def)
  with True show ?thesis by (simp add: option_tuples_def starts_with_def [of _ "''--''"] py_partition_def)
next
  case False
  then have "\<not> starts_with ''--help'' (CHR ''-'' # c # r)" by (auto simp: starts_with_def)
  with False show ?thesis by (auto simp: option_tuples_def starts_with_def [of _ "''--''"])
qed

lemma help_kinds: "\<exists>ks. arg_kinds [(''-h'', h), (''--help'', h)] ss = Inr ks"
proof (induction ss)
  case (Cons s ss)
  have "\<exists>t. parse_optional [(''-h'', h), (''--help'', h)] s = Inr t"
  proof (cases "\<exists>c r. s = CHR ''-'' # c # r")
    case True
    then obtain c r where s: "s = CHR ''-'' # c # r" by blast
    have "\<not> (\<exists>t u ts. option_tuples [(''-h'', h), (''--help'', h)] s = t # u # ts)"
      using help_tuples [of h c r] s by auto
    then show ?thesis
      by (cases "option_tuples [(''-h'', h), (''--help'', h)] s"; cases "tl (option_tuples [(''-h'', h), (''--help'', h)] s)")
        (auto simp: parse_optional_def split: prod.splits)
  next
    case False
    then have "s = [] \<or> hd s \<noteq> CHR ''-'' \<or> s = ''-''" by (cases s; cases "tl s") auto
    then show ?thesis by (auto simp: parse_optional_def)
  qed
  with Cons show ?case by auto
qed simp

lemma match_command:
  "match_partial [SubCommand] (KArg # ks) 1 = [Suc (length ks)]"
  by (simp add: match_partial.simps(2) match_groups.simps(2))

text \<open>The sub-command takes all strings that follow its name.\<close>

lemma group_step:
  assumes "is_word name" "map_of subs name = Some p" "parse_known_args p rest = Inr (new, unknown)"
  shows "parse_known_args (ArgumentParser [help_action, sub_default dest req d] defs subs) (name # rest) =
    Inr (ns_update (dict_set dest (StrVal name) (initial_ns [help_action, sub_default dest req d] defs)) new, unknown)"
proof -
  let ?sub = "sub_default dest req d" and ?subs = "map (map_prod id parse_known_args) subs"
  let ?init = "initial_ns [help_action, ?sub] defs"
  let ?st = "\<lparr>ps_ns = ?init, ps_seen = [], ps_unrecognized = []\<rparr>"
  let ?os = "[(''-h'', help_action), (''--help'', help_action)]"
  let ?st' = "\<lparr>ps_ns = ns_update (dict_set dest (StrVal name) ?init) new, ps_seen = [?sub], ps_unrecognized = unknown\<rparr>"
  have os: "option_actions [help_action, ?sub] = ?os" by (simp add: option_actions_def)
  obtain ks where ks: "arg_kinds ?os rest = Inr ks" using help_kinds by blast
  have words: "map fst ks = rest" by (rule arg_kinds_words [OF ks])
  have kinds: "arg_kinds ?os (name # rest) = Inr ((name, KArg) # ks)"
    using ks word_kind [OF assms(1)] by simp
  have sub: "map_of ?subs name = Some (parse_known_args p)"
    using assms(2) by (induction subs) (auto split: if_splits)
  have take: "take_action ?subs ?sub (name # rest) ?st = Inr ?st'"
    using sub assms(3) by (simp add: take_action_def run_sub_def see_def)
  have consume: "consume_positionals ?subs [?sub] ((name, KArg) # ks) ?st = Inr (Suc (length ks), [], ?st')"
    using take words by (auto simp: consume_positionals_def match_command Let_def)
  have "parse_loop ?os ?subs ((name, KArg) # ks) [?sub] [] ?st = Inr (if list_all not_option ks then ((name, KArg) # ks, [?sub], [], ?st) else ([], [], [], ?st'))"
    using consume by (auto simp: parse_loop.simps not_option_def)
  then show ?thesis
    using consume by (simp add: run_parser_def os kinds consume_none Let_def del: arg_kinds.simps)
qed

section \<open>The commands\<close>

text \<open>How a command is typed. \<open>sf\<close> is how a duration is written.\<close>

fun allow_words :: "allow_args \<Rightarrow> string list" where
  "allow_words (AllowAdd cs) = ''add'' # cs"
| "allow_words (AllowDel cs) = ''del'' # cs"
| "allow_words AllowList = [''list'']"

fun block_words :: "(pyfloat \<Rightarrow> string) \<Rightarrow> block_args \<Rightarrow> string list" where
  "block_words sf (BlockAdd cs d) = ''add'' # cs @ [''--duration='' @ sf d]"
| "block_words sf (BlockDel cs) = ''del'' # cs"
| "block_words sf BlockFlush = [''flush'']"
| "block_words sf (BlockList everything) = ''list'' # (if everything then [''--all''] else [])"

fun port_words :: "port_args \<Rightarrow> string list" where
  "port_words (PortSet allowed proto ports) = (if allowed then ''allow'' else ''deny'') # proto # map py_str_int ports"
| "port_words (PortDel proto ports) = ''del'' # proto # map py_str_int ports"
| "port_words PortFlush = [''flush'']"
| "port_words PortList = [''list'']"

definition int_words :: "string \<Rightarrow> int option \<Rightarrow> string list" where
  "int_words name n = (case n of None \<Rightarrow> [] | Some m \<Rightarrow> [name, py_str_int m])"

definition set_words :: "config_args \<Rightarrow> string list" where
  "set_words c = int_words ''--rate'' (set_rate c) @ int_words ''--burst'' (set_burst c) @
     int_words ''--aggressiveness'' (set_aggressiveness c) @
     concat (map (\<lambda>f. [''--enable'', f]) (set_enable c)) @ concat (map (\<lambda>f. [''--disable'', f]) (set_disable c))"

fun fwctl_words :: "(pyfloat \<Rightarrow> string) \<Rightarrow> fwctl_args \<Rightarrow> string list" where
  "fwctl_words sf Status = [''status'']"
| "fwctl_words sf (Allow a) = ''allow'' # allow_words a"
| "fwctl_words sf (Block a) = ''block'' # block_words sf a"
| "fwctl_words sf (Port a) = ''port'' # port_words a"
| "fwctl_words sf (Policy p) = ''policy'' # (case p of None \<Rightarrow> [] | Some True \<Rightarrow> [''allow''] | Some False \<Rightarrow> [''deny''])"
| "fwctl_words sf (Top n watching) = [''top'', ''-n'', py_str_int n] @ (if watching then [''--watch''] else [])"
| "fwctl_words sf Stats = [''stats'']"
| "fwctl_words sf ConfigShow = [''config'', ''show'']"
| "fwctl_words sf (ConfigSet c) = ''config'' # ''set'' # set_words c"
| "fwctl_words sf (Reset blocks everything) = ''reset'' # (if blocks then [''--blocks''] else []) @ (if everything then [''--all''] else [])"
| "fwctl_words sf Selftest = [''selftest'']"

text \<open>
  What can be typed: prefixes and protocols that are not options, at least one of them, numbers that
  \<open>int\<close> reads, a duration that \<open>float\<close> reads, and the choices.
\<close>

definition words_ok :: "string list \<Rightarrow> bool" where
  "words_ok cs \<longleftrightarrow> cs \<noteq> [] \<and> list_all is_word cs"

definition maybe_ok :: "('a \<Rightarrow> bool) \<Rightarrow> 'a option \<Rightarrow> bool" where
  "maybe_ok P x = (case x of None \<Rightarrow> True | Some y \<Rightarrow> P y)"

fun typable :: "(pyfloat \<Rightarrow> string) \<Rightarrow> fwctl_args \<Rightarrow> bool" where
  "typable sf (Allow (AllowAdd cs)) \<longleftrightarrow> words_ok cs"
| "typable sf (Allow (AllowDel cs)) \<longleftrightarrow> words_ok cs"
| "typable sf (Block (BlockAdd cs d)) \<longleftrightarrow> words_ok cs \<and> py_float (sf d) = Inr d"
| "typable sf (Block (BlockDel cs)) \<longleftrightarrow> words_ok cs"
| "typable sf (Port (PortSet allowed proto ports)) \<longleftrightarrow> is_word proto \<and> ports \<noteq> [] \<and> list_all int_ok ports"
| "typable sf (Port (PortDel proto ports)) \<longleftrightarrow> is_word proto \<and> ports \<noteq> [] \<and> list_all int_ok ports"
| "typable sf (Top n watching) \<longleftrightarrow> int_ok n"
| "typable sf (ConfigSet c) \<longleftrightarrow> maybe_ok int_ok (set_rate c) \<and> maybe_ok int_ok (set_burst c) \<and>
     maybe_ok (\<lambda>n. 0 \<le> n \<and> n \<le> 3) (set_aggressiveness c) \<and> features_ok (set_enable c) \<and> features_ok (set_disable c)"
| "typable sf _ \<longleftrightarrow> True"

section \<open>Reading them back\<close>

lemma words_kinds:
  "list_all is_word ws \<Longrightarrow> arg_kinds os (ws @ rest) =
     (case arg_kinds os rest of Inl e \<Rightarrow> Inl e | Inr ks \<Rightarrow> Inr (map (\<lambda>w. (w, KArg)) ws @ ks))"
  by (induction ws) (auto simp: word_kind split: sum.splits)

lemma numbers_kinds:
  "no_digit_options os \<Longrightarrow> arg_kinds os (map py_str_int ns @ rest) =
     (case arg_kinds os rest of Inl e \<Rightarrow> Inl e | Inr ks \<Rightarrow> Inr (map (\<lambda>n. (py_str_int n, KArg)) ns @ ks))"
  by (induction ns) (auto simp: number_kind split: sum.splits)

lemma str_values: "act_type a = AsStr \<Longrightarrow> act_choices a = None \<Longrightarrow> good_values a ss = Inr (map StrVal ss)"
  by (induction ss) (auto simp: good_value_def get_value_def check_value_def)

lemma int_values:
  "act_type a = AsInt \<Longrightarrow> act_choices a = None \<Longrightarrow> list_all int_ok ns \<Longrightarrow> good_values a (map py_str_int ns) = Inr (map IntVal ns)"
  by (induction ns) (auto simp: good_value_def get_value_def check_value_def int_of_str_int int_ok_def)

lemma parse_cidrs:
  assumes "words_ok cs"
  shows "parse_known_args (leaf [cidr_arg]) cs = Inr ([(''cidr'', ListVal (map StrVal cs))], [])"
proof -
  let ?os = "option_actions [help_action, cidr_arg]"
  have kinds: "arg_kinds ?os cs = Inr (map (\<lambda>w. (w, KArg)) cs)"
    using words_kinds [of cs ?os "[]"] assms by (simp add: words_ok_def)
  have dash: "remove1 ''--'' cs = cs" using assms word_kind(2) by (auto simp: words_ok_def list_all_iff intro!: remove1_idem)
  have "take_action [] cidr_arg cs st = Inr (store cidr_arg (ListVal (map StrVal cs)) (see cidr_arg st))" for st
    using assms dash by (simp add: take_action_def get_values_def cidr_arg_def action_defs str_values words_ok_def)
  then show ?thesis
    using assms consume_list [of cidr_arg cs "[]" "[]"] kinds
    by (simp add: parse_leaf run_parser_def Let_def loop_done list_all_iff not_option_def words_ok_def cidr_arg_def action_defs store_def see_def
        initial_ns_def put_default_def dict_set_def)
qed

lemma parse_block_add:
  assumes "words_ok cs" "py_float t = Inr d"
  shows "parse_known_args (leaf [cidr_arg, duration_arg]) (cs @ [''--duration='' @ t]) =
    Inr ([(''cidr'', ListVal (map StrVal cs)), (''duration'', FloatVal d)], [])"
proof -
  let ?os = "option_actions [help_action, cidr_arg, duration_arg]"
  let ?opt = "(''--duration='' @ t, KOpt (Some duration_arg, ''--duration'', Some (''='', t)))"
  let ?rest = "map (\<lambda>w. (w, KArg)) cs @ [?opt]"
  have os: "?os = [(''-h'', help_action), (''--help'', help_action), (''--duration'', duration_arg)]"
    by (simp add: option_actions_def cidr_arg_def action_defs)
  have part: "py_partition (CHR ''='') (''--duration='' @ t) = (''--duration'', t)" by (simp add: py_partition_def)
  have "parse_optional ?os (''--duration='' @ t) = Inr (Some (Some duration_arg, ''--duration'', Some (''='', t)))"
    unfolding parse_optional_def part os by simp
  then have kinds: "arg_kinds ?os (cs @ [''--duration='' @ t]) = Inr ?rest"
    using words_kinds [of cs ?os "[''--duration='' @ t]"] assms(1) by (simp add: words_ok_def)
  have dash: "remove1 ''--'' cs = cs" using assms(1) word_kind(2) by (auto simp: words_ok_def list_all_iff intro!: remove1_idem)
  have cidrs: "take_action [] cidr_arg cs st = Inr (store cidr_arg (ListVal (map StrVal cs)) (see cidr_arg st))" for st
    using assms(1) dash by (simp add: take_action_def get_values_def cidr_arg_def action_defs str_values words_ok_def)
  have dur: "take_action [] duration_arg [t] st = Inr (store duration_arg (FloatVal d) (see duration_arg st))" for st
    using assms(2) by (simp add: take_action_def get_values_def good_value_def get_value_def check_value_def action_defs)
  have n: "act_nargs cidr_arg = OneOrMore" "act_nargs duration_arg = ExactlyOne" by (simp_all add: cidr_arg_def action_defs)
  have consume: "consume_positionals [] [cidr_arg] ?rest st = Inr (length cs, [], store cidr_arg (ListVal (map StrVal cs)) (see cidr_arg st))" for st
    using consume_list [OF n(1), of cs "[?opt]" "[]" st] assms(1) cidrs by (simp add: words_ok_def)
  have "parse_loop ?os [] ?rest [cidr_arg] [] st =
      Inr ([], [], [], store duration_arg (FloatVal d) (see duration_arg (store cidr_arg (ListVal (map StrVal cs)) (see cidr_arg st))))" for st
  proof -
    have "not_option (hd ?rest)" "\<not> list_all not_option ?rest" "0 < length cs"
      using assms(1) by (auto simp: words_ok_def hd_append hd_map not_option_def)
    from loop_positionals [OF this(1,2) consume this(3)] show ?thesis
      by (simp add: loop_joined [OF n(2)] dur loop_done)
  qed
  then show ?thesis
    using kinds by (simp add: parse_leaf run_parser_def Let_def consume_none cidr_arg_def action_defs store_def see_def
        initial_ns_def put_default_def dict_set_def)
qed

lemma parse_ports:
  assumes "is_word proto" "ports \<noteq> []" "list_all int_ok ports"
  shows "parse_known_args port_leaf (proto # map py_str_int ports) =
    Inr ([(''proto'', StrVal proto), (''ports'', ListVal (map IntVal ports))], [])"
proof -
  let ?proto = "positional ''proto'' ExactlyOne AsStr" and ?ports = "positional ''ports'' OneOrMore AsInt"
  let ?os = "option_actions [help_action, ?proto, ?ports]"
  have os: "?os = [(''-h'', help_action), (''--help'', help_action)]" by (simp add: option_actions_def action_defs)
  then have "no_digit_options ?os" by (simp add: no_digit_options_def is_ascii_digit_def negative_number_def all_digits_def)
  then have kinds: "arg_kinds ?os (proto # map py_str_int ports) = Inr (map (\<lambda>w. (w, KArg)) (proto # map py_str_int ports))"
    using numbers_kinds [of ?os ports "[]"] word_kind [OF assms(1)] by (simp add: comp_def)
  have "''--'' \<notin> set (map py_str_int ports)" using number_kind(2) [OF \<open>no_digit_options ?os\<close>] by (metis ex_map_conv)
  then have dash: "remove1 ''--'' (map py_str_int ports) = map py_str_int ports" by (rule remove1_idem)
  have "take_actions [] [(?proto, [proto]), (?ports, map py_str_int ports)] st =
      Inr (store ?ports (ListVal (map IntVal ports)) (see ?ports (store ?proto (StrVal proto) (see ?proto st))))" for st
    using assms word_kind(2) [OF assms(1)] dash
    by (simp add: take_action_def get_values_def good_value_def get_value_def check_value_def action_defs int_values)
  then show ?thesis
    using consume_two [of ?proto ?ports "map py_str_int ports" "[]" proto] assms(2) kinds
    by (simp add: port_leaf_def parse_leaf run_parser_def Let_def loop_done list_all_iff not_option_def action_defs store_def see_def
        initial_ns_def put_default_def dict_set_def)
qed

text \<open>Options with a number, which may be left out, and options that are repeated.\<close>

definition int_kinds :: "arg_action \<Rightarrow> string \<Rightarrow> int option \<Rightarrow> word_kinds" where
  "int_kinds a name n = (case n of None \<Rightarrow> [] | Some m \<Rightarrow> [(name, KOpt (Some a, name, None)), (py_str_int m, KArg)])"

definition rep_kinds :: "arg_action \<Rightarrow> string \<Rightarrow> string list \<Rightarrow> word_kinds" where
  "rep_kinds a name fs = concat (map (\<lambda>f. [(name, KOpt (Some a, name, None)), (f, KArg)]) fs)"

definition option_name :: "options \<Rightarrow> string \<Rightarrow> arg_action \<Rightarrow> bool" where
  "option_name os name a \<longleftrightarrow> map_of os name = Some a \<and> name \<noteq> [] \<and> hd name = CHR ''-'' \<and> name \<noteq> ''--''"

lemma option_kind: "option_name os name a \<Longrightarrow> parse_optional os name = Inr (Some (Some a, name, None))"
  by (simp add: option_name_def parse_optional_def)

lemma int_words_kinds:
  assumes "option_name os name a" "no_digit_options os" "arg_kinds os rest = Inr ks"
  shows "arg_kinds os (int_words name n @ rest) = Inr (int_kinds a name n @ ks)"
  using assms option_kind [OF assms(1)] number_kind [OF assms(2)]
  by (auto simp: int_words_def int_kinds_def option_name_def split: option.splits)

lemma rep_words_kinds:
  assumes "option_name os name a" "list_all is_word fs" "arg_kinds os rest = Inr ks"
  shows "arg_kinds os (concat (map (\<lambda>f. [name, f]) fs) @ rest) = Inr (rep_kinds a name fs @ ks)"
  using assms(2,3)
proof (induction fs)
  case (Cons f fs)
  with option_kind [OF assms(1)] word_kind [of f] assms(1) show ?case by (auto simp: rep_kinds_def option_name_def)
qed (simp add: rep_kinds_def)

definition put_int :: "arg_action \<Rightarrow> int option \<Rightarrow> parse_state \<Rightarrow> parse_state" where
  "put_int a n st = (case n of None \<Rightarrow> st | Some m \<Rightarrow> store a (IntVal m) (see a st))"

definition put_more :: "arg_action \<Rightarrow> parse_state \<Rightarrow> string \<Rightarrow> parse_state" where
  "put_more a st f = store a (ListVal (appended_items a (ps_ns st) @ [StrVal f])) (see a st)"

lemma int_loop:
  assumes "act_nargs a = ExactlyOne" "act_effect a = Store" "act_type a = AsInt" "act_options a \<noteq> []"
    and "maybe_ok (\<lambda>m. int_ok m \<and> (case act_choices a of None \<Rightarrow> True | Some vs \<Rightarrow> IntVal m \<in> set vs)) n"
  shows "parse_loop os subs (int_kinds a name n @ rest) pos ex st = parse_loop os subs rest pos ex (put_int a n st)"
proof (cases n)
  case (Some m)
  with assms have "take_action subs a [py_str_int m] st = Inr (store a (IntVal m) (see a st))"
    by (auto simp: take_action_def get_values_def good_value_def get_value_def check_value_def maybe_ok_def int_ok_def int_of_str_int
        split: option.splits)
  with Some assms(1) show ?thesis by (simp add: int_kinds_def put_int_def loop_valued)
qed (simp add: int_kinds_def put_int_def)

lemma rep_loop:
  assumes "act_nargs a = ExactlyOne" "act_effect a = Append" "act_type a = AsStr" "act_options a \<noteq> []"
    and "list_all (\<lambda>f. case act_choices a of None \<Rightarrow> True | Some vs \<Rightarrow> StrVal f \<in> set vs) fs"
  shows "parse_loop os subs (rep_kinds a name fs @ rest) pos ex st = parse_loop os subs rest pos ex (foldl (put_more a) st fs)"
  using assms(5)
proof (induction fs arbitrary: st)
  case (Cons f fs)
  have "take_action subs a [f] st = Inr (put_more a st f)"
    using assms(1-4) Cons.prems
    by (auto simp: take_action_def get_values_def good_value_def get_value_def check_value_def put_more_def split: option.splits)
  with Cons assms(1) show ?case by (simp add: rep_kinds_def loop_valued)
qed (simp add: rep_kinds_def)

lemma put_int_attr:
  "map_of (ps_ns (put_int a n st)) k = (if k = act_dest a \<and> n \<noteq> None then Some (IntVal (the n)) else map_of (ps_ns st) k)"
  "ps_unrecognized (put_int a n st) = ps_unrecognized st"
  by (auto simp: put_int_def store_def see_def split: option.splits)

lemma put_more_attr:
  "map_of (ps_ns (foldl (put_more a) st fs)) k =
     (if k = act_dest a \<and> fs \<noteq> [] then Some (ListVal (appended_items a (ps_ns st) @ map StrVal fs)) else map_of (ps_ns st) k)"
  "ps_unrecognized (foldl (put_more a) st fs) = ps_unrecognized st"
proof (induction fs arbitrary: st)
  case (Cons f fs)
  case 1
  show ?case using Cons(1) [of "put_more a st f"] by (auto simp: put_more_def store_def see_def appended_items_def)
next
  case (Cons f fs)
  case 2
  show ?case using Cons(2) [of "put_more a st f"] by (simp add: put_more_def store_def see_def)
qed simp_all

lemma put_int_attrs:
  "k \<noteq> act_dest a \<Longrightarrow> attr_maybe_int (ps_ns (put_int a n st)) k = attr_maybe_int (ps_ns st) k"
  "k = act_dest a \<Longrightarrow> attr_maybe_int (ps_ns st) k = Some None \<Longrightarrow> attr_maybe_int (ps_ns (put_int a n st)) k = Some n"
proof -
  show "attr_maybe_int (ps_ns (put_int a n st)) k = attr_maybe_int (ps_ns st) k" if "k \<noteq> act_dest a"
    by (rule attr_same) (simp add: put_int_attr that)
  show "attr_maybe_int (ps_ns (put_int a n st)) k = Some n" if "k = act_dest a" "attr_maybe_int (ps_ns st) k = Some None"
    using that by (cases n) (auto simp: put_int_def attr_maybe_int_def attr_int_def put_int_attr store_def see_def)
qed

lemma all_some_strs [simp]: "all_some (map (str_of_val \<circ> StrVal) fs) = Some fs" "all_some (map (int_of_val \<circ> IntVal) ns) = Some ns"
  by (induction fs, simp_all) (induction ns, simp_all)

lemma put_more_attrs:
  "k \<noteq> act_dest a \<Longrightarrow> attr_maybe_int (ps_ns (foldl (put_more a) st fs)) k = attr_maybe_int (ps_ns st) k"
  "k \<noteq> act_dest a \<Longrightarrow> attr_strs_or_empty (ps_ns (foldl (put_more a) st fs)) k = attr_strs_or_empty (ps_ns st) k"
  "k = act_dest a \<Longrightarrow> map_of (ps_ns st) k = Some NoneVal \<Longrightarrow> attr_strs_or_empty (ps_ns (foldl (put_more a) st fs)) k = Some fs"
proof -
  have same: "map_of (ps_ns (foldl (put_more a) st fs)) k = map_of (ps_ns st) k" if "k \<noteq> act_dest a"
    by (simp add: put_more_attr that)
  from attr_same(7,9) [OF same] show "attr_maybe_int (ps_ns (foldl (put_more a) st fs)) k = attr_maybe_int (ps_ns st) k"
    "attr_strs_or_empty (ps_ns (foldl (put_more a) st fs)) k = attr_strs_or_empty (ps_ns st) k" if "k \<noteq> act_dest a"
    using that by simp_all
  show "attr_strs_or_empty (ps_ns (foldl (put_more a) st fs)) k = Some fs" if "k = act_dest a" "map_of (ps_ns st) k = Some NoneVal"
    using that by (auto simp: attr_strs_or_empty_def attr_strs_def put_more_attr appended_items_def)
qed

lemma parse_top:
  assumes "int_ok n"
  shows "parse_known_args top_parser ([''-n'', py_str_int n] @ (if watching then [''--watch''] else [])) =
    Inr ([(''count'', IntVal n), (''watch'', BoolVal watching)], [])"
proof -
  let ?n = "valued [''-n'', ''--count''] ''count'' AsInt (IntVal 20)" and ?w = "flag [''-w'', ''--watch''] ''watch''"
  let ?os = "option_actions [help_action, ?n, ?w]"
  have os: "?os = [(''-h'', help_action), (''--help'', help_action), (''-n'', ?n), (''--count'', ?n), (''-w'', ?w), (''--watch'', ?w)]"
    by (simp add: option_actions_def action_defs)
  have digits: "no_digit_options ?os" unfolding os by (simp add: no_digit_options_def is_ascii_digit_def negative_number_def all_digits_def)
  have names: "option_name ?os ''-n'' ?n" "option_name ?os ''--watch'' ?w" unfolding os by (simp_all add: option_name_def)
  have kinds: "arg_kinds ?os ([''-n'', py_str_int n] @ (if watching then [''--watch''] else [])) =
      Inr ([(''-n'', KOpt (Some ?n, ''-n'', None)), (py_str_int n, KArg)] @ (if watching then [(''--watch'', KOpt (Some ?w, ''--watch'', None))] else []))"
    using option_kind [OF names(1)] option_kind [OF names(2)] number_kind [OF digits] by simp
  have acts: "take_action [] ?n [py_str_int n] st = Inr (store ?n (IntVal n) (see ?n st))" "take_action [] ?w [] st = Inr (store ?w (BoolVal True) (see ?w st))" for st
    using assms by (simp_all add: take_action_def get_values_def good_value_def get_value_def check_value_def action_defs int_ok_def int_of_str_int)
  have nargs: "act_nargs ?n = ExactlyOne" "act_nargs ?w = NoArgs" "act_options ?n \<noteq> []" "act_options ?w \<noteq> []" by (simp_all add: action_defs)
  have "parse_loop ?os [] ([(''-n'', KOpt (Some ?n, ''-n'', None)), (py_str_int n, KArg)] @ (if watching then [(''--watch'', KOpt (Some ?w, ''--watch'', None))] else [])) [] [] st =
      Inr ([], [], [], (if watching then \<lambda>st. store ?w (BoolVal True) (see ?w st) else id) (store ?n (IntVal n) (see ?n st)))" for st
    by (simp add: loop_valued [OF nargs(1)] loop_flag [OF nargs(2)] acts loop_done)
  with kinds nargs(3,4) show ?thesis
    by (simp add: top_parser_def parse_leaf run_parser_def Let_def consume_none store_def see_def initial_ns_def put_default_def dict_set_def action_defs)
qed

lemma features_words: "features_ok fs \<Longrightarrow> list_all is_word fs \<and> list_all (\<lambda>f. StrVal f \<in> set feature_names) fs"
  by (auto simp: features_ok_def feature_names_def FEATURES_def is_word_def list_all_iff subset_iff)

lemma parse_set:
  assumes "typable sf (ConfigSet c)"
  shows "\<exists>ns. parse_known_args config_set_parser (set_words c) = Inr (ns, []) \<and>
    attr_maybe_int ns ''rate'' = Some (set_rate c) \<and> attr_maybe_int ns ''burst'' = Some (set_burst c) \<and>
    attr_maybe_int ns ''aggressiveness'' = Some (set_aggressiveness c) \<and>
    attr_strs_or_empty ns ''enable'' = Some (set_enable c) \<and> attr_strs_or_empty ns ''disable'' = Some (set_disable c)"
proof -
  let ?r = "valued [''--rate''] ''rate'' AsInt NoneVal" and ?b = "valued [''--burst''] ''burst'' AsInt NoneVal"
  let ?a = "(valued [''--aggressiveness''] ''aggressiveness'' AsInt NoneVal)\<lparr>act_choices := Some (map IntVal [0..3])\<rparr>"
  let ?e = "(appended [''--enable''] ''enable'')\<lparr>act_choices := Some feature_names\<rparr>"
  let ?d = "(appended [''--disable''] ''disable'')\<lparr>act_choices := Some feature_names\<rparr>"
  let ?os = "option_actions (help_action # set_args)"
  let ?st = "\<lparr>ps_ns = initial_ns (help_action # set_args) [], ps_seen = [], ps_unrecognized = []\<rparr>"
  have os: "?os = [(''-h'', help_action), (''--help'', help_action), (''--rate'', ?r), (''--burst'', ?b), (''--aggressiveness'', ?a), (''--enable'', ?e), (''--disable'', ?d)]"
    by (simp add: option_actions_def action_defs)
  have digits: "no_digit_options ?os" unfolding os by (simp add: no_digit_options_def is_ascii_digit_def negative_number_def all_digits_def)
  have names: "option_name ?os ''--rate'' ?r" "option_name ?os ''--burst'' ?b" "option_name ?os ''--aggressiveness'' ?a"
    "option_name ?os ''--enable'' ?e" "option_name ?os ''--disable'' ?d" unfolding os by (simp_all add: option_name_def)
  have on: "list_all is_word (set_enable c)" "list_all (\<lambda>f. StrVal f \<in> set feature_names) (set_enable c)"
    and off: "list_all is_word (set_disable c)" "list_all (\<lambda>f. StrVal f \<in> set feature_names) (set_disable c)"
    using assms features_words by auto
  let ?ks = "int_kinds ?r ''--rate'' (set_rate c) @ int_kinds ?b ''--burst'' (set_burst c) @ int_kinds ?a ''--aggressiveness'' (set_aggressiveness c) @
    rep_kinds ?e ''--enable'' (set_enable c) @ rep_kinds ?d ''--disable'' (set_disable c) @ []"
  have "arg_kinds ?os (set_words c @ []) = Inr ?ks"
    unfolding set_words_def append_assoc by (intro int_words_kinds rep_words_kinds names digits on off) simp
  then have kinds: "arg_kinds ?os (set_words c) = Inr ?ks" by simp
  let ?st1 = "put_int ?a (set_aggressiveness c) (put_int ?b (set_burst c) (put_int ?r (set_rate c) ?st))"
  let ?st2 = "foldl (put_more ?d) (foldl (put_more ?e) ?st1 (set_enable c)) (set_disable c)"
  have small: "int_ok m" if "0 \<le> m" "m \<le> 3" for m
  proof -
    have "length (digits_of_nat (nat \<bar>m\<bar>)) \<le> 1" using that by (intro length_digits) auto
    then show ?thesis by (simp add: int_ok_def)
  qed
  have tier: "maybe_ok (\<lambda>m. int_ok m \<and> (case Some (map IntVal [0..3]) of None \<Rightarrow> True | Some vs \<Rightarrow> IntVal m \<in> set vs)) (set_aggressiveness c)"
    using assms small by (cases "set_aggressiveness c") (auto simp: maybe_ok_def)
  have given: "maybe_ok int_ok (set_rate c)" "maybe_ok int_ok (set_burst c)" using assms by simp_all
  have r: "parse_loop ?os [] (int_kinds ?r ''--rate'' (set_rate c) @ ks) pos ex st = parse_loop ?os [] ks pos ex (put_int ?r (set_rate c) st)"
    and b: "parse_loop ?os [] (int_kinds ?b ''--burst'' (set_burst c) @ ks) pos ex st = parse_loop ?os [] ks pos ex (put_int ?b (set_burst c) st)"
    and t: "parse_loop ?os [] (int_kinds ?a ''--aggressiveness'' (set_aggressiveness c) @ ks) pos ex st =
      parse_loop ?os [] ks pos ex (put_int ?a (set_aggressiveness c) st)" for ks pos ex st
    using given tier by (intro int_loop; simp add: action_defs del: set_map)+
  have e: "parse_loop ?os [] (rep_kinds ?e ''--enable'' (set_enable c) @ ks) pos ex st = parse_loop ?os [] ks pos ex (foldl (put_more ?e) st (set_enable c))"
    and d: "parse_loop ?os [] (rep_kinds ?d ''--disable'' (set_disable c) @ ks) pos ex st = parse_loop ?os [] ks pos ex (foldl (put_more ?d) st (set_disable c))"
    for ks pos ex st
    using on(2) off(2) by (intro rep_loop; simp add: action_defs)+
  have loop: "parse_loop ?os [] ?ks [] [] ?st = Inr ([], [], [], ?st2)"
    unfolding r b t e d by (simp add: loop_done)
  have init: "initial_ns (help_action # set_args) [] =
      [(''rate'', NoneVal), (''burst'', NoneVal), (''aggressiveness'', NoneVal), (''enable'', NoneVal), (''disable'', NoneVal)]"
    by (simp add: initial_ns_def put_default_def action_defs)
  have parsed: "parse_known_args config_set_parser (set_words c) = Inr (ps_ns ?st2, [])"
    using kinds loop by (simp add: config_set_parser_def parse_leaf run_parser_def Let_def consume_none put_more_attr put_int_attr action_defs)
  have dests: "act_dest ?r = ''rate''" "act_dest ?b = ''burst''" "act_dest ?a = ''aggressiveness''" "act_dest ?e = ''enable''" "act_dest ?d = ''disable''"
    by (simp_all add: action_defs)
  have none: "attr_maybe_int (ps_ns ?st) k = Some None" "map_of (ps_ns ?st) k = Some NoneVal" "attr_strs_or_empty (ps_ns ?st) k = Some []"
    if "k = ''rate'' \<or> k = ''burst'' \<or> k = ''aggressiveness'' \<or> k = ''enable'' \<or> k = ''disable''" for k
    using that unfolding init by (elim disjE; simp add: attr_defs)+
  have ints: "attr_maybe_int (ps_ns ?st2) k = attr_maybe_int (ps_ns ?st1) k" if "k \<noteq> ''enable''" "k \<noteq> ''disable''" for k
    using that by (simp add: put_more_attrs(1) dests)
  have "attr_maybe_int (ps_ns ?st1) ''rate'' = Some (set_rate c)"
    by (simp add: put_int_attrs(1) dests put_int_attrs(2) [OF dests(1) [symmetric] none(1)])
  moreover have "attr_maybe_int (ps_ns (put_int ?b (set_burst c) (put_int ?r (set_rate c) ?st))) ''burst'' = Some (set_burst c)"
    by (rule put_int_attrs(2) [OF dests(2) [symmetric]]) (use none(1) [of "''burst''"] in \<open>simp add: put_int_attrs(1) dests\<close>)
  then have "attr_maybe_int (ps_ns ?st1) ''burst'' = Some (set_burst c)" by (simp add: put_int_attrs(1) dests)
  moreover have "attr_maybe_int (ps_ns ?st1) ''aggressiveness'' = Some (set_aggressiveness c)"
    by (rule put_int_attrs(2) [OF dests(3) [symmetric]]) (use none(1) [of "''aggressiveness''"] in \<open>simp add: put_int_attrs(1) dests\<close>)
  moreover have "attr_strs_or_empty (ps_ns ?st2) ''disable'' = Some (set_disable c)"
    by (rule put_more_attrs(3) [OF dests(5) [symmetric]]) (use none(2) [of "''disable''"] in \<open>simp add: put_more_attr put_int_attr dests\<close>)
  moreover have "attr_strs_or_empty (ps_ns (foldl (put_more ?e) ?st1 (set_enable c))) ''enable'' = Some (set_enable c)"
    by (rule put_more_attrs(3) [OF dests(4) [symmetric]]) (use none(2) [of "''enable''"] in \<open>simp add: put_int_attr dests\<close>)
  then have "attr_strs_or_empty (ps_ns ?st2) ''enable'' = Some (set_enable c)"
    by (simp add: put_more_attrs(2) dests)
  ultimately show ?thesis using parsed by (intro exI [of _ "ps_ns ?st2"]) (simp add: ints)
qed

section \<open>Whole command lines\<close>

lemma read_back:
  assumes "map_of fwctl_commands name = Some p" "is_word name" "parse_known_args p rest = Inr (new, [])" "command_args name new = Some a"
  shows "\<exists>ns. parse_args fwctl_parser (name # rest) = Inr ns \<and> fwctl_args_of ns = Some a"
proof -
  have parser: "fwctl_parser = ArgumentParser [help_action, sub_default ''cmd'' True NoneVal] [] fwctl_commands"
    by (simp add: fwctl_parser_def fwctl_commands_def new_parser_def sub_action_default)
  have init: "initial_ns [help_action, sub_default ''cmd'' True NoneVal] [] = [(''cmd'', NoneVal)]"
    by (simp add: initial_ns_def put_default_def)
  let ?ns = "ns_update (dict_set ''cmd'' (StrVal name) [(''cmd'', NoneVal)]) new"
  have parsed: "parse_args fwctl_parser (name # rest) = Inr ?ns"
    unfolding parse_args_def parser group_step [OF assms(2,1,3)] init by simp
  have new: "dict_ok new" "''cmd'' \<notin> fst ` set new" using command_result [OF assms(1,3)] by auto
  have m: "map_of ?ns k = (case map_of new k of None \<Rightarrow> if k = ''cmd'' then Some (StrVal name) else map_of [(''cmd'', NoneVal)] k | Some u \<Rightarrow> Some u)" for k
    using merged(2) [OF refl new(1), of "[(''cmd'', NoneVal)]"] by simp
  have "map_of new ''cmd'' = None" using new(2) by (simp add: map_of_eq_None_iff)
  then have "attr_str ?ns ''cmd'' = Some name" using m [of "''cmd''"] by (simp add: attr_str_def)
  moreover have "command_args name ?ns = command_args name new"
    by (rule command_args_same) (use m in \<open>simp split: option.splits\<close>)
  ultimately show ?thesis using parsed assms(4) by (simp add: fwctl_args_of_def)
qed

lemma parse_nothing: "parse_known_args (leaf []) [] = Inr ([], [])"
  by (simp add: parse_leaf run_parser_def option_actions_def loop_done consume_none Let_def initial_ns_def)

abbreviation action_parser :: "arg_val \<Rightarrow> namespace \<Rightarrow> (string \<times> arg_parser) list \<Rightarrow> arg_parser" where
  "action_parser d init subs \<equiv> ArgumentParser [help_action, sub_default ''action'' False d] init subs"

lemma read_action:
  assumes "is_word name" "map_of subs name = Some p" "parse_known_args p rest = Inr (new, [])"
    and "initial_ns [help_action, sub_default ''action'' False d] init = init"
    and "args_of (ns_update (dict_set ''action'' (StrVal name) init) new) = Some x"
  shows "\<exists>ns. parse_known_args (action_parser d init subs) (name # rest) = Inr (ns, []) \<and> args_of ns = Some x"
  unfolding group_step [OF assms(1-3)] assms(4) using assms(5) by blast

lemmas read_defs = initial_ns_def put_default_def is_word_def ns_update_def dict_set_def attr_str_def attr_bool_def attr_float_def attr_strs_def attr_ints_def

lemma read_allow:
  assumes "typable sf (Allow x)"
  shows "\<exists>ns. parse_known_args allow_parser (allow_words x) = Inr (ns, []) \<and> allow_args_of ns = Some x"
proof -
  have parser: "allow_parser = action_parser (StrVal ''list'') [(''action'', StrVal ''list'')]
      [(''add'', leaf [cidr_arg]), (''del'', leaf [cidr_arg]), (''list'', leaf [])]"
    by (simp add: allow_parser_def group_parser dict_set_def)
  show ?thesis
  proof (cases x)
    case (AllowAdd cs)
    then have "parse_known_args (leaf [cidr_arg]) cs = Inr ([(''cidr'', ListVal (map StrVal cs))], [])" using assms by (simp add: parse_cidrs)
    then show ?thesis unfolding parser AllowAdd allow_words.simps
      by (rule read_action [rotated 2]) (simp_all add: read_defs allow_args_of_def)
  next
    case (AllowDel cs)
    then have "parse_known_args (leaf [cidr_arg]) cs = Inr ([(''cidr'', ListVal (map StrVal cs))], [])" using assms by (simp add: parse_cidrs)
    then show ?thesis unfolding parser AllowDel allow_words.simps
      by (rule read_action [rotated 2]) (simp_all add: read_defs allow_args_of_def)
  next
    case AllowList
    show ?thesis unfolding parser AllowList allow_words.simps
      by (rule read_action [OF _ _ parse_nothing]) (simp_all add: read_defs allow_args_of_def)
  qed
qed

text \<open>The commands that take nothing but flags and choices are finitely many.\<close>

lemma parse_all:
  "parse_known_args (leaf [flag [''--all''] ''all'']) [''--all''] = Inr ([(''all'', BoolVal True)], [])"
  "parse_known_args (leaf [flag [''--all''] ''all'']) [] = Inr ([(''all'', BoolVal False)], [])"
  by code_simp+

lemma parse_reset:
  "parse_known_args reset_parser ((if blocks then [''--blocks''] else []) @ (if everything then [''--all''] else [])) =
     Inr ([(''blocks'', BoolVal blocks), (''all'', BoolVal everything)], [])"
proof -
  have "parse_known_args reset_parser [''--blocks'', ''--all''] = Inr ([(''blocks'', BoolVal True), (''all'', BoolVal True)], [])"
    "parse_known_args reset_parser [''--blocks''] = Inr ([(''blocks'', BoolVal True), (''all'', BoolVal False)], [])"
    "parse_known_args reset_parser [''--all''] = Inr ([(''blocks'', BoolVal False), (''all'', BoolVal True)], [])"
    "parse_known_args reset_parser [] = Inr ([(''blocks'', BoolVal False), (''all'', BoolVal False)], [])"
    by code_simp+
  then show ?thesis by simp
qed

lemma parse_policy:
  "parse_known_args policy_parser (case p of None \<Rightarrow> [] | Some True \<Rightarrow> [''allow''] | Some False \<Rightarrow> [''deny'']) =
     Inr ([(''policy'', case p of None \<Rightarrow> NoneVal | Some True \<Rightarrow> StrVal ''allow'' | Some False \<Rightarrow> StrVal ''deny'')], [])"
proof -
  have "parse_known_args policy_parser [] = Inr ([(''policy'', NoneVal)], [])"
    "parse_known_args policy_parser [''allow''] = Inr ([(''policy'', StrVal ''allow'')], [])"
    "parse_known_args policy_parser [''deny''] = Inr ([(''policy'', StrVal ''deny'')], [])"
    by code_simp+
  then show ?thesis by (simp split: option.split bool.split)
qed

lemma parse_show: "parse_known_args config_parser [''show''] = Inr ([(''action'', StrVal ''show'')], [])"
  by code_simp

lemma read_block:
  assumes "typable sf (Block x)"
  shows "\<exists>ns. parse_known_args block_parser (block_words sf x) = Inr (ns, []) \<and> block_args_of ns = Some x"
proof -
  have parser: "block_parser = action_parser (StrVal ''list'') [(''action'', StrVal ''list''), (''all'', BoolVal False)]
      [(''add'', leaf [cidr_arg, duration_arg]), (''del'', leaf [cidr_arg]), (''list'', leaf [flag [''--all''] ''all'']), (''flush'', leaf [])]"
    by (simp add: block_parser_def group_parser dict_set_def)
  show ?thesis
  proof (cases x)
    case (BlockAdd cs d)
    then have "parse_known_args (leaf [cidr_arg, duration_arg]) (cs @ [''--duration='' @ sf d]) =
        Inr ([(''cidr'', ListVal (map StrVal cs)), (''duration'', FloatVal d)], [])" using assms by (intro parse_block_add) auto
    then show ?thesis unfolding parser BlockAdd block_words.simps
      by (rule read_action [rotated 2]) (simp_all add: read_defs block_args_of_def)
  next
    case (BlockDel cs)
    then have "parse_known_args (leaf [cidr_arg]) cs = Inr ([(''cidr'', ListVal (map StrVal cs))], [])" using assms by (simp add: parse_cidrs)
    then show ?thesis unfolding parser BlockDel block_words.simps
      by (rule read_action [rotated 2]) (simp_all add: read_defs block_args_of_def)
  next
    case BlockFlush
    show ?thesis unfolding parser BlockFlush block_words.simps
      by (rule read_action [OF _ _ parse_nothing]) (simp_all add: read_defs block_args_of_def)
  next
    case (BlockList everything)
    have "parse_known_args (leaf [flag [''--all''] ''all'']) (if everything then [''--all''] else []) = Inr ([(''all'', BoolVal everything)], [])"
      by (simp add: parse_all)
    then show ?thesis unfolding parser BlockList block_words.simps
      by (rule read_action [rotated 2]) (simp_all add: read_defs block_args_of_def)
  qed
qed

lemma read_port:
  assumes "typable sf (Port x)"
  shows "\<exists>ns. parse_known_args port_parser (port_words x) = Inr (ns, []) \<and> port_args_of ns = Some x"
proof -
  have parser: "port_parser = action_parser (StrVal ''list'') [(''action'', StrVal ''list'')]
      [(''allow'', port_leaf), (''deny'', port_leaf), (''del'', port_leaf), (''list'', leaf []), (''flush'', leaf [])]"
    by (simp add: port_parser_def group_parser dict_set_def)
  show ?thesis
  proof (cases x)
    case (PortSet allowed proto ports)
    then have "parse_known_args port_leaf (proto # map py_str_int ports) =
        Inr ([(''proto'', StrVal proto), (''ports'', ListVal (map IntVal ports))], [])" using assms by (simp add: parse_ports)
    then show ?thesis unfolding parser PortSet port_words.simps
      by (rule read_action [rotated 2]) (cases allowed; simp add: read_defs port_args_of_def)+
  next
    case (PortDel proto ports)
    then have "parse_known_args port_leaf (proto # map py_str_int ports) =
        Inr ([(''proto'', StrVal proto), (''ports'', ListVal (map IntVal ports))], [])" using assms by (simp add: parse_ports)
    then show ?thesis unfolding parser PortDel port_words.simps
      by (rule read_action [rotated 2]) (simp_all add: read_defs port_args_of_def)
  next
    case PortFlush
    show ?thesis unfolding parser PortFlush port_words.simps
      by (rule read_action [OF _ _ parse_nothing]) (simp_all add: read_defs port_args_of_def)
  next
    case PortList
    show ?thesis unfolding parser PortList port_words.simps
      by (rule read_action [OF _ _ parse_nothing]) (simp_all add: read_defs port_args_of_def)
  qed
qed

lemma read_config_set:
  assumes "typable sf (ConfigSet c)"
  shows "\<exists>ns. parse_known_args config_parser (''set'' # set_words c) = Inr (ns, []) \<and> config_args_of ns = Some (ConfigSet c)"
proof -
  let ?init = "[(''action'', StrVal ''show'')]"
  have parser: "config_parser = action_parser (StrVal ''show'') ?init [(''show'', leaf []), (''set'', config_set_parser)]"
    by (simp add: config_parser_def group_parser dict_set_def)
  obtain new where new: "parse_known_args config_set_parser (set_words c) = Inr (new, [])"
    and attrs: "attr_maybe_int new ''rate'' = Some (set_rate c)" "attr_maybe_int new ''burst'' = Some (set_burst c)"
      "attr_maybe_int new ''aggressiveness'' = Some (set_aggressiveness c)"
      "attr_strs_or_empty new ''enable'' = Some (set_enable c)" "attr_strs_or_empty new ''disable'' = Some (set_disable c)"
    using parse_set [OF assms] by blast
  note keys = leaf_result(1,2) [OF new [unfolded config_set_parser_def] conjunct1 [OF set_args_fit [unfolded leaf_fit_def]]
      conjunct2 [OF set_args_fit [unfolded leaf_fit_def]]]
  have "dict_ok new" by (rule keys)
  have "map_of new ''action'' = None" by (rule keys_None [OF keys(2)]) simp
  let ?ns = "ns_update (dict_set ''action'' (StrVal ''set'') ?init) new"
  have m: "map_of ?ns k = (case map_of new k of None \<Rightarrow> if k = ''action'' then Some (StrVal ''set'') else map_of ?init k | Some u \<Rightarrow> Some u)" for k
    using merged(2) [OF refl \<open>dict_ok new\<close>, of ?init] by simp
  have same: "map_of ?ns k = map_of new k" if "k \<noteq> ''action''" for k using m [of k] that by (simp split: option.splits)
  have "attr_str ?ns ''action'' = Some ''set''" using m [of "''action''"] \<open>map_of new ''action'' = None\<close> by (simp add: attr_str_def)
  moreover have "attr_maybe_int ?ns k = attr_maybe_int new k" "attr_strs_or_empty ?ns k = attr_strs_or_empty new k" if "k \<noteq> ''action''" for k
    using same [OF that] by (rule attr_same)+
  ultimately have "config_args_of ?ns = Some (ConfigSet c)" using attrs by (simp add: config_args_of_def)
  with new show ?thesis unfolding parser by (intro read_action) (simp_all add: is_word_def initial_ns_def put_default_def)
qed

lemma read_plain:
  assumes "typable sf a" "a \<in> {Status, Stats, Selftest, ConfigShow} \<or> (\<exists>p. a = Policy p) \<or> (\<exists>n b. a = Top n b) \<or> (\<exists>b e. a = Reset b e)"
  shows "\<exists>ns. parse_args fwctl_parser (fwctl_words sf a) = Inr ns \<and> fwctl_args_of ns = Some a"
proof (cases a)
  case (Policy p)
  have "command_args ''policy'' [(''policy'', case p of None \<Rightarrow> NoneVal | Some True \<Rightarrow> StrVal ''allow'' | Some False \<Rightarrow> StrVal ''deny'')] = Some (Policy p)"
    by (cases p; cases "the p") (simp_all add: command_args_def attr_defs)
  then show ?thesis unfolding Policy fwctl_words.simps
    by (intro read_back [OF _ _ parse_policy]) (simp_all add: fwctl_commands_def is_word_def)
next
  case (Top n watching)
  then have "int_ok n" using assms(1) by simp
  from parse_top [OF this, unfolded append_Cons] show ?thesis unfolding Top fwctl_words.simps append_Cons
    by (rule read_back [rotated 2]) (simp_all add: fwctl_commands_def is_word_def command_args_def attr_defs)
next
  case (Reset blocks everything)
  show ?thesis unfolding Reset fwctl_words.simps
    by (rule read_back [OF _ _ parse_reset]) (simp_all add: fwctl_commands_def is_word_def command_args_def attr_defs)
next
  case ConfigShow
  show ?thesis unfolding ConfigShow fwctl_words.simps
    by (rule read_back [OF _ _ parse_show]) (simp_all add: fwctl_commands_def is_word_def command_args_def config_args_of_def attr_defs)
next
  case Status
  show ?thesis unfolding Status fwctl_words.simps
    by (rule read_back [OF _ _ parse_nothing]) (simp_all add: fwctl_commands_def is_word_def command_args_def)
next
  case Stats
  show ?thesis unfolding Stats fwctl_words.simps
    by (rule read_back [OF _ _ parse_nothing]) (simp_all add: fwctl_commands_def is_word_def command_args_def)
next
  case Selftest
  show ?thesis unfolding Selftest fwctl_words.simps
    by (rule read_back [OF _ _ parse_nothing]) (simp_all add: fwctl_commands_def is_word_def command_args_def)
qed (use assms(2) in auto)

text \<open>
  C29. Every command of \<open>fwctl\<close> can be typed: written out with its prefixes, ports, numbers and options,
  the command line is accepted, and the handler reads back exactly the arguments that were meant.
\<close>

theorem command_line_roundtrip:
  assumes "typable sf a"
  shows "\<exists>ns. parse_args fwctl_parser (fwctl_words sf a) = Inr ns \<and> fwctl_args_of ns = Some a"
proof (cases a)
  case (Allow x)
  then obtain new where new: "parse_known_args allow_parser (allow_words x) = Inr (new, [])" "allow_args_of new = Some x"
    using read_allow assms by blast
  show ?thesis unfolding Allow fwctl_words.simps
    by (rule read_back [OF _ _ new(1)]) (use new(2) in \<open>simp_all add: fwctl_commands_def is_word_def command_args_def\<close>)
next
  case (Block x)
  then obtain new where new: "parse_known_args block_parser (block_words sf x) = Inr (new, [])" "block_args_of new = Some x"
    using read_block assms by blast
  show ?thesis unfolding Block fwctl_words.simps
    by (rule read_back [OF _ _ new(1)]) (use new(2) in \<open>simp_all add: fwctl_commands_def is_word_def command_args_def\<close>)
next
  case (Port x)
  then obtain new where new: "parse_known_args port_parser (port_words x) = Inr (new, [])" "port_args_of new = Some x"
    using read_port assms by blast
  show ?thesis unfolding Port fwctl_words.simps
    by (rule read_back [OF _ _ new(1)]) (use new(2) in \<open>simp_all add: fwctl_commands_def is_word_def command_args_def\<close>)
next
  case (ConfigSet c)
  then obtain new where new: "parse_known_args config_parser (''set'' # set_words c) = Inr (new, [])" "config_args_of new = Some (ConfigSet c)"
    using read_config_set assms by blast
  show ?thesis unfolding ConfigSet fwctl_words.simps
    by (rule read_back [OF _ _ new(1)]) (use new(2) in \<open>simp_all add: fwctl_commands_def is_word_def command_args_def\<close>)
qed (rule read_plain [OF assms]; simp)+

theorem command_line_roundtrip_witness:
  "\<exists>ns. parse_args fwctl_parser [''block'', ''add'', ''10.10.1.3'', ''10.10.2.0/24'', ''--duration=inf''] = Inr ns \<and>
     fwctl_args_of ns = Some (Block (BlockAdd [''10.10.1.3'', ''10.10.2.0/24''] PosInf))"
proof -
  have "py_float ''inf'' = Inr PosInf" by code_simp
  then show ?thesis
    using command_line_roundtrip [of "\<lambda>_. ''inf''" "Block (BlockAdd [''10.10.1.3'', ''10.10.2.0/24''] PosInf)"]
    by (simp add: words_ok_def is_word_def)
qed

end
