(* ===== verification/Bench_Plot.thy ===== *)
theory Bench_Plot
  imports Py_Stats "HOL-Library.List_Lexorder"
begin

text \<open>
  \<open>bench/plot.py\<close>: grouping of the benchmark's rows, the summary table and the checks on the run.
  The rows are given as \<open>csv.DictReader\<close> delivers them and the environment file as its text; the
  chart is not modelled.
\<close>

section \<open>Rows and groups\<close>

definition PLOT_SYSTEMS :: "string list" where
  "PLOT_SYSTEMS = [''none'', ''nftables'', ''nft-ingress'', ''xdp'', ''xdp-empty'']"

definition WORKLOADS :: "(string, string) dict" where
  "WORKLOADS = [(''block'', ''traffic from a blocked IP''), (''limit'', ''traffic over the rate limit'')]"

type_synonym plot_key = "string \<times> int"
type_synonym plot_data = "(plot_key, (string, csv_row list) dict) dict"

definition plot_add :: "csv_row \<Rightarrow> plot_data \<Rightarrow> plot_data result" where
  "plot_add r out =
     result_bind (dict_index r ''workload'') (\<lambda>wl.
     result_bind (result_bind (dict_index r ''senders'') py_int_of_str) (\<lambda>n.
     result_bind (dict_index r ''system'') (\<lambda>s.
     let g = dict_get out (wl, n) [] in
     Inr (dict_set (wl, n) (dict_set s (dict_get g s [] @ [r]) g) out))))"

fun plot_load :: "csv_row list \<Rightarrow> plot_data \<Rightarrow> plot_data result" where
  "plot_load [] out = Inr out"
| "plot_load (r # rs) out = result_bind (plot_add r out) (plot_load rs)"

text \<open>\<open>order.index(k[0]) if k[0] in order else 9\<close>\<close>

definition workload_rank :: "string \<Rightarrow> int" where
  "workload_rank wl = (case find (\<lambda>(i, w). w = wl) (py_enumerate (map fst WORKLOADS)) of Some (i, _) \<Rightarrow> i | None \<Rightarrow> 9)"

text \<open>Sorted by the pair of rank and number of senders: by the second first, then stably by the first.\<close>

definition plot_points :: "plot_data \<Rightarrow> plot_key list" where
  "plot_points data = sort_key (\<lambda>(wl, n). workload_rank wl) (sort_key snd (map fst data))"

definition med :: "csv_row list \<Rightarrow> string \<Rightarrow> rat result" where
  "med rows field = result_bind (result_list (\<lambda>r. float_field r field) rows) py_median"

definition core_pct :: "csv_row list \<Rightarrow> rat result" where
  "core_pct rows = result_map (\<lambda>x. fl (x / 100)) (med rows ''ns_per_pkt'')"

section \<open>The environment\<close>

text \<open>The number in the first line that \<open>^cpus\s+(\d+)\<close> matches; the white space may include line ends.\<close>

definition match_cpus :: "string \<Rightarrow> int option" where
  "match_cpus s =
     (if take 4 s \<noteq> ''cpus'' then None
      else let rest = drop 4 s; ds = takeWhile is_ascii_digit (dropWhile is_space rest) in
        if rest = [] \<or> \<not> is_space (hd rest) \<or> ds = [] then None else Some (int (nat_of_digits ds)))"

fun search_cpus :: "bool \<Rightarrow> string \<Rightarrow> int option" where
  "search_cpus at_line [] = None"
| "search_cpus at_line (c # cs) =
     (case (if at_line then match_cpus (c # cs) else None) of
        Some n \<Rightarrow> Some n
      | None \<Rightarrow> search_cpus (c = CHR 0x0A) cs)"

section \<open>Checks\<close>

text \<open>The difference between the IP counter and what the drops leave, in percent; nothing without traffic.\<close>

definition row_diff :: "string \<Rightarrow> csv_row \<Rightarrow> rat option result" where
  "row_diff s r =
     result_bind (float_field r ''received'') (\<lambda>rx.
     result_bind (if s = ''nftables'' then Inr rx
       else result_map (\<lambda>dropped. fl (rx - dropped)) (float_field r ''fw_dropped'')) (\<lambda>expect.
     if rx = 0 then Inr None
     else result_bind (float_field r ''ip_in'') (\<lambda>ip_in.
       Inr (Some (fl (fl (\<bar>fl (ip_in - expect)\<bar> / rx) * 100))))))"

definition group_diffs :: "string \<Rightarrow> csv_row list \<Rightarrow> rat option list result" where
  "group_diffs s rows = (if s = ''xdp-empty'' then Inr [] else result_list (row_diff s) rows)"

definition is_noisy :: "csv_row list \<Rightarrow> bool result" where
  "is_noisy rows =
     result_bind (result_list (\<lambda>r. float_field r ''ns_per_pkt'') rows) (\<lambda>vals.
     if length vals \<le> 1 then Inr False
     else
       result_bind (py_max vals) (\<lambda>hi.
       result_bind (py_min vals) (\<lambda>lo.
       result_bind (py_median vals) (\<lambda>m.
       result_map (\<lambda>spread. spread > 1 / 4) (py_truediv (fl (hi - lo)) m)))))"

definition is_busy :: "csv_row list \<Rightarrow> bool result" where
  "is_busy rows = result_map (\<lambda>b. b > 90) (med rows ''cpu_busy_pct'')"

definition is_unseen :: "int \<Rightarrow> int \<Rightarrow> csv_row list \<Rightarrow> bool result" where
  "is_unseen ncpu n rows =
     (if ncpu = 0 then Inr False
      else
        result_bind (med rows ''cpu_busy_pct'') (\<lambda>b.
        result_map (\<lambda>least. b < least) (py_truediv (of_int (80 * min n ncpu)) (of_int ncpu))))"

record check_state =
  worst :: rat
  noisy :: "string list"
  busy :: "string list"
  unseen :: "string list"

definition group_name :: "string \<Rightarrow> plot_key \<Rightarrow> string" where
  "group_name s key = s @ '' '' @ fst key @ ''/'' @ py_str_int (snd key)"

definition note_if :: "bool \<Rightarrow> string \<Rightarrow> string list \<Rightarrow> string list" where
  "note_if b x xs = (if b then xs @ [x] else xs)"

definition check_group :: "int \<Rightarrow> plot_key \<Rightarrow> string \<times> csv_row list \<Rightarrow> check_state \<Rightarrow> check_state result" where
  "check_group ncpu key g st =
     (case g of (s, rows) \<Rightarrow>
       result_bind (group_diffs s rows) (\<lambda>diffs.
       result_bind (is_noisy rows) (\<lambda>nz.
       result_bind (is_busy rows) (\<lambda>bz.
       result_bind (is_unseen ncpu (snd key) rows) (\<lambda>uz.
       Inr \<lparr>worst = fold max (List.map_filter id diffs) (worst st), noisy = note_if nz (group_name s key) (noisy st),
         busy = note_if bz (group_name s key) (busy st), unseen = note_if uz (group_name s key) (unseen st)\<rparr>)))))"

fun check_groups :: "int \<Rightarrow> (plot_key \<times> string \<times> csv_row list) list \<Rightarrow> check_state \<Rightarrow> check_state result" where
  "check_groups ncpu [] st = Inr st"
| "check_groups ncpu ((key, g) # gs) st = result_bind (check_group ncpu key g st) (check_groups ncpu gs)"

definition all_groups :: "plot_data \<Rightarrow> (plot_key \<times> string \<times> csv_row list) list" where
  "all_groups data = concat (map (\<lambda>(key, by_sys). map (\<lambda>g. (key, g)) by_sys) data)"

definition names :: "string list \<Rightarrow> string" where
  "names xs = py_join '', '' xs"

definition check_lines :: "check_state \<Rightarrow> string list" where
  "check_lines st =
     [if unseen st = [] then ''[ok] CPU time is being accounted (every sender shows as a busy CPU)''
      else concat [''[FAIL] CPU busy is lower than the senders alone must use: '', names (unseen st), ''. '',
        ''This VM is not reporting CPU time reliably, so the CPU figures from this '',
        ''run are not valid (the packet counts are). On VirtualBox under Windows the '',
        ''usual cause is Hyper-V running underneath it (a green turtle icon in the '',
        ''VM window); measure on a machine without that layer.''],
      concat [''['', if worst st < 1 then ''ok'' else ''CHECK'', ''] the kernel'', [CHR 0x27], ''s IP counter agrees with the '',
        ''firewalls'', [CHR 0x27], '' drop counters (worst difference '', py_fixed 2 (worst st), ''% of packets)''],
      if noisy st = [] then ''[ok] runs within 25% of each other''
      else concat [''[note] runs more than 25% apart: '', names (noisy st), '' (try --repeat 5)''],
      if busy st = [] then ''[ok] no run above 90% CPU busy''
      else concat [''[note] CPU saturated: '', names (busy st), '' (use fewer senders than vCPUs)'']]"

definition plot_checks :: "plot_data \<Rightarrow> string \<Rightarrow> string list result" where
  "plot_checks data env =
     (let ncpu = (case search_cpus True env of Some n \<Rightarrow> n | None \<Rightarrow> 0) in
      result_map check_lines
        (check_groups ncpu (all_groups data) \<lparr>worst = 0, noisy = [], busy = [], unseen = []\<rparr>))"

section \<open>The summary\<close>

definition summary_row :: "plot_key \<Rightarrow> string \<Rightarrow> csv_row list \<Rightarrow> string result" where
  "summary_row key s rows =
     result_bind (med rows ''received'') (\<lambda>rx.
     result_bind (med rows ''offered'') (\<lambda>offered.
     result_bind (med rows ''duration_s'') (\<lambda>secs.
     result_bind (py_truediv offered secs) (\<lambda>pps.
     result_bind (med rows ''fw_dropped'') (\<lambda>dropped.
     result_bind (py_truediv (fl (100 * dropped)) rx) (\<lambda>drop_pct.
     result_bind (med rows ''ip_in'') (\<lambda>ip_in.
     result_bind (py_truediv (fl (100 * ip_in)) rx) (\<lambda>ip_pct.
     result_bind (med rows ''cpu_busy_pct'') (\<lambda>bz.
     result_bind (med rows ''cpu_softirq_pct'') (\<lambda>softirq.
     result_bind (med rows ''ns_per_pkt'') (\<lambda>ns.
     result_bind (core_pct rows) (\<lambda>core.
     Inr (concat [py_ljust 9 (fst key), py_ljust 8 (py_str_int (snd key)), py_ljust 14 s, py_rjust 12 (py_fixed_commas 0 pps),
       py_rjust 8 (py_fixed 1 drop_pct), ''%'', py_rjust 8 (py_fixed 1 ip_pct), ''%'', py_rjust 6 (py_fixed 0 bz), ''%'',
       py_rjust 8 (py_fixed 1 softirq), ''%'', py_rjust 9 (py_fixed 0 ns), py_rjust 19 (py_fixed 1 core), ''%''])))))))))))))"

text \<open>The rows of one point, for the systems that were measured there, and an empty line.\<close>

definition point_rows :: "plot_data \<Rightarrow> plot_key \<Rightarrow> string list result" where
  "point_rows data key =
     (let g = dict_get data key [] in
      result_map (\<lambda>lines. lines @ [[]])
        (result_list (\<lambda>s. summary_row key s (dict_get g s []))
          (filter (\<lambda>s. dict_get g s [] \<noteq> []) PLOT_SYSTEMS)))"

definition own_work :: "plot_data \<Rightarrow> plot_key \<Rightarrow> string list result" where
  "own_work data key =
     (let g = dict_get data key []; fw = dict_get g ''xdp'' []; floor_rows = dict_get g ''xdp-empty'' [] in
      if fw = [] \<or> floor_rows = [] then Inr []
      else
        result_bind (med fw ''ns_per_pkt'') (\<lambda>a.
        result_bind (med floor_rows ''ns_per_pkt'') (\<lambda>b.
        Inr [concat [fst key, ''/'', py_str_int (snd key), '': the XDP firewall'', [CHR 0x27], ''s own work is '',
          py_fixed 0 (fl (a - b)), '' ns per packet (xdp minus the empty program)'']])))"

definition py_rstrip :: "string \<Rightarrow> string" where
  "py_rstrip s = rev (dropWhile is_space (rev s))"

definition summary_head :: "int \<Rightarrow> string \<Rightarrow> string list" where
  "summary_head reps env =
     [''environment'', ''-----------'', py_rstrip env, [],
      concat [''CPU per packet (median of '', py_str_int reps, '' runs)''], ''-------------------------------------'',
      concat [py_ljust 9 ''workload'', py_ljust 8 ''senders'', py_ljust 14 ''system'', py_rjust 12 ''offered pps'',
        py_rjust 9 ''dropped'', py_rjust 9 ''IP saw'', py_rjust 7 ''busy'', py_rjust 9 ''softirq'', py_rjust 9 ''ns/pkt'',
        py_rjust 20 ''core% per 100k pps'']]"

definition plot_summary :: "plot_data \<Rightarrow> string \<Rightarrow> string result" where
  "plot_summary data env =
     result_bind (py_max (map (\<lambda>(key, s, rows). int (length rows)) (all_groups data))) (\<lambda>reps.
     result_bind (result_list (point_rows data) (plot_points data)) (\<lambda>tables.
     result_bind (result_list (own_work data) (plot_points data)) (\<lambda>works.
     let out = summary_head reps env @ concat tables @ concat works;
         out = (if last out \<noteq> [] then out @ [[]] else out) in
     result_bind (plot_checks data env) (\<lambda>lines.
     Inr (py_join [CHR 0x0A] (out @ [''checks'', ''------''] @ lines))))))"

section \<open>Lemmas\<close>

text \<open>All rows of a group of values.\<close>

definition rows_of :: "(string, csv_row list) dict \<Rightarrow> csv_row multiset" where
  "rows_of g = mset (concat (map snd g))"

definition rows_in :: "plot_data \<Rightarrow> csv_row multiset" where
  "rows_in data = sum_list (map (\<lambda>(key, g). rows_of g) data)"

lemma rows_of_set: "rows_of (dict_set s v g) + mset (dict_get g s []) = rows_of g + mset v"
  by (induction g) (auto simp: rows_of_def dict_set_def dict_get_def)

lemma rows_in_set: "rows_in (dict_set k g data) + rows_of (dict_get data k []) = rows_in data + rows_of g"
  by (induction data) (auto simp: rows_in_def dict_set_def dict_get_def rows_of_def ac_simps)

lemma plot_add_rows:
  assumes "plot_add r out = Inr out'"
  shows "rows_in out' = add_mset r (rows_in out)"
proof -
  obtain key s where out': "out' = dict_set key (dict_set s (dict_get (dict_get out key []) s [] @ [r]) (dict_get out key [])) out"
    using assms by (auto simp: plot_add_def result_bind_Inr Let_def)
  have "rows_of (dict_set s (dict_get (dict_get out key []) s [] @ [r]) (dict_get out key [])) =
      add_mset r (rows_of (dict_get out key []))"
    using rows_of_set [of s "dict_get (dict_get out key []) s [] @ [r]" "dict_get out key []"] by simp
  with rows_in_set [of key "dict_set s (dict_get (dict_get out key []) s [] @ [r]) (dict_get out key [])" out]
  have "rows_in out' + rows_of (dict_get out key []) = add_mset r (rows_in out) + rows_of (dict_get out key [])"
    unfolding out' by simp
  then show ?thesis by (simp only: add_right_cancel)
qed

lemma plot_load_rows: "plot_load rs out = Inr out' \<Longrightarrow> rows_in out' = rows_in out + mset rs"
proof (induction rs arbitrary: out)
  case (Cons r rs)
  then obtain out1 where "plot_add r out = Inr out1" "plot_load rs out1 = Inr out'" by (auto simp: result_bind_Inr)
  with Cons.IH plot_add_rows show ?case by simp
qed simp

lemma rows_in_groups: "rows_in data = mset (concat (map (\<lambda>(key, s, rows). rows) (all_groups data)))"
  by (induction data) (auto simp: rows_in_def all_groups_def rows_of_def comp_def case_prod_beta)

text \<open>
  What the checks are to find, from the numbers in the columns: the value of a cell, the median of some numbers, and
  for a row the difference between the IP counter and the packets that the firewall left, in percent of the packets
  received, with every operation rounded. Only the hook of \<open>nftables\<close> lies behind the counter.
\<close>

definition cell :: "string \<Rightarrow> csv_row \<Rightarrow> rat" where
  "cell field r = (case float_field r field of Inr x \<Rightarrow> x | Inl _ \<Rightarrow> 0)"

definition middle :: "rat list \<Rightarrow> rat" where
  "middle xs = (case py_median xs of Inr m \<Rightarrow> m | Inl _ \<Rightarrow> 0)"

definition counter_gap :: "string \<Rightarrow> csv_row \<Rightarrow> rat" where
  "counter_gap s r =
     (let left = (if s = ''nftables'' then cell ''received'' r else fl (cell ''received'' r - cell ''fw_dropped'' r)) in
      fl (fl (\<bar>fl (cell ''ip_in'' r - left)\<bar> / cell ''received'' r) * 100))"

lemma column_cells: "result_list (\<lambda>r. float_field r f) rows = Inr vals \<Longrightarrow> vals = map (cell f) rows"
proof -
  assume "result_list (\<lambda>r. float_field r f) rows = Inr vals"
  then have "list_all2 (\<lambda>r v. float_field r f = Inr v) rows vals" by (simp add: result_list_Inr)
  then show ?thesis by (induction rule: list_all2_induct) (simp_all add: cell_def)
qed

lemma med_cells: "med rows f = Inr m \<Longrightarrow> m = middle (map (cell f) rows)"
  by (auto simp: med_def result_bind_Inr middle_def dest!: column_cells)

lemma is_busy_cells: "is_busy rows = Inr b \<Longrightarrow> b \<longleftrightarrow> \<not> middle (map (cell ''cpu_busy_pct'') rows) \<le> 90"
  by (auto simp: is_busy_def not_le dest!: med_cells elim!: result_map.elims)

lemma is_unseen_cells:
  "is_unseen ncpu n rows = Inr b \<Longrightarrow>
   b \<longleftrightarrow> \<not> (ncpu = 0 \<or> fl (of_int (80 * min n ncpu) / of_int ncpu) \<le> middle (map (cell ''cpu_busy_pct'') rows))"
  by (auto simp: is_unseen_def result_bind_Inr not_le py_truediv_def dest!: med_cells split: if_splits)

lemma is_noisy_cells:
  assumes "is_noisy rows = Inr b"
  shows "b \<longleftrightarrow> \<not> (length rows \<le> 1 \<or>
    fl (fl (Max (cell ''ns_per_pkt'' ` set rows) - Min (cell ''ns_per_pkt'' ` set rows)) / middle (map (cell ''ns_per_pkt'') rows)) \<le> 1 / 4)"
proof -
  let ?vals = "map (cell ''ns_per_pkt'') rows"
  obtain vals where v: "result_list (\<lambda>r. float_field r ''ns_per_pkt'') rows = Inr vals"
    using assms by (auto simp: is_noisy_def result_bind_Inr)
  show ?thesis
  proof (cases "length rows \<le> 1")
    case True
    then show ?thesis using assms v column_cells [OF v] by (simp add: is_noisy_def)
  next
    case False
    then have "?vals \<noteq> []" by auto
    then have "py_max ?vals = Inr (Max (set ?vals))" "py_min ?vals = Inr (Min (set ?vals))"
      by (rule py_max_Inr, rule py_min_Inr)
    then show ?thesis using assms v column_cells [OF v] False
      by (auto simp: is_noisy_def result_bind_Inr py_truediv_def middle_def not_le elim!: result_map.elims split: if_splits)
  qed
qed

lemma row_diff_cells:
  assumes "row_diff s r = Inr d"
  shows "d = (if cell ''received'' r = 0 then None else Some (counter_gap s r))"
  using assms
  by (auto simp: row_diff_def result_bind_Inr counter_gap_def cell_def elim!: result_map.elims split: if_splits)

lemma fold_max_less: "fold max xs (w :: 'a :: linorder) < b \<longleftrightarrow> w < b \<and> list_all (\<lambda>x. x < b) xs"
  by (induction xs arbitrary: w) auto

lemma diffs_small:
  assumes "group_diffs s rows = Inr ds"
  shows "list_all (\<lambda>d. d < 1) (List.map_filter id ds) \<longleftrightarrow>
    s = ''xdp-empty'' \<or> list_all (\<lambda>r. cell ''received'' r = 0 \<or> counter_gap s r < 1) rows"
proof (cases "s = ''xdp-empty''")
  case True
  with assms show ?thesis by (simp add: group_diffs_def)
next
  case False
  with assms have "list_all2 (\<lambda>r d. row_diff s r = Inr d) rows ds" by (simp add: group_diffs_def result_list_Inr)
  then have "list_all (\<lambda>d. d < 1) (List.map_filter id ds) \<longleftrightarrow>
      list_all (\<lambda>r. cell ''received'' r = 0 \<or> counter_gap s r < 1) rows"
    by (induction rows ds rule: list_all2_induct) (auto dest!: row_diff_cells split: if_splits)
  with False show ?thesis by simp
qed

text \<open>The four things that are wrong or not with a group.\<close>

definition group_seen :: "int \<Rightarrow> plot_key \<times> string \<times> csv_row list \<Rightarrow> bool" where
  "group_seen ncpu = (\<lambda>((wl, n), s, rows).
     ncpu = 0 \<or> fl (of_int (80 * min n ncpu) / of_int ncpu) \<le> middle (map (cell ''cpu_busy_pct'') rows))"

definition group_agrees :: "plot_key \<times> string \<times> csv_row list \<Rightarrow> bool" where
  "group_agrees = (\<lambda>(key, s, rows).
     s = ''xdp-empty'' \<or> list_all (\<lambda>r. cell ''received'' r = 0 \<or> counter_gap s r < 1) rows)"

definition group_steady :: "plot_key \<times> string \<times> csv_row list \<Rightarrow> bool" where
  "group_steady = (\<lambda>(key, s, rows). length rows \<le> 1 \<or>
     fl (fl (Max (cell ''ns_per_pkt'' ` set rows) - Min (cell ''ns_per_pkt'' ` set rows)) / middle (map (cell ''ns_per_pkt'') rows)) \<le> 1 / 4)"

definition group_free :: "plot_key \<times> string \<times> csv_row list \<Rightarrow> bool" where
  "group_free = (\<lambda>(key, s, rows). middle (map (cell ''cpu_busy_pct'') rows) \<le> 90)"

lemma check_group_effect:
  assumes "check_group ncpu key (s, rows) st = Inr st'"
  shows "worst st' < 1 \<longleftrightarrow> worst st < 1 \<and> group_agrees (key, s, rows)"
    "noisy st' = [] \<longleftrightarrow> noisy st = [] \<and> group_steady (key, s, rows)"
    "busy st' = [] \<longleftrightarrow> busy st = [] \<and> group_free (key, s, rows)"
    "unseen st' = [] \<longleftrightarrow> unseen st = [] \<and> group_seen ncpu (key, s, rows)"
proof -
  obtain ds nz bz uz where g: "group_diffs s rows = Inr ds" "is_noisy rows = Inr nz" "is_busy rows = Inr bz"
      "is_unseen ncpu (snd key) rows = Inr uz"
    and st': "st' = \<lparr>worst = fold max (List.map_filter id ds) (worst st), noisy = note_if nz (group_name s key) (noisy st),
         busy = note_if bz (group_name s key) (busy st), unseen = note_if uz (group_name s key) (unseen st)\<rparr>"
    using assms by (auto simp: check_group_def result_bind_Inr)
  show "worst st' < 1 \<longleftrightarrow> worst st < 1 \<and> group_agrees (key, s, rows)"
    by (simp add: st' fold_max_less diffs_small [OF g(1)] group_agrees_def)
  show "noisy st' = [] \<longleftrightarrow> noisy st = [] \<and> group_steady (key, s, rows)"
    using is_noisy_cells [OF g(2)] by (simp add: st' note_if_def group_steady_def)
  show "busy st' = [] \<longleftrightarrow> busy st = [] \<and> group_free (key, s, rows)"
    using is_busy_cells [OF g(3)] by (simp add: st' note_if_def group_free_def)
  show "unseen st' = [] \<longleftrightarrow> unseen st = [] \<and> group_seen ncpu (key, s, rows)"
    using is_unseen_cells [OF g(4)] by (cases key) (simp add: st' note_if_def group_seen_def)
qed

lemma check_groups_effect:
  assumes "check_groups ncpu gs st = Inr st'"
  shows "(worst st' < 1 \<longleftrightarrow> worst st < 1 \<and> list_all group_agrees gs) \<and>
    (noisy st' = [] \<longleftrightarrow> noisy st = [] \<and> list_all group_steady gs) \<and>
    (busy st' = [] \<longleftrightarrow> busy st = [] \<and> list_all group_free gs) \<and>
    (unseen st' = [] \<longleftrightarrow> unseen st = [] \<and> list_all (group_seen ncpu) gs)"
  using assms
proof (induction gs arbitrary: st)
  case (Cons x gs)
  obtain key s rows where x: "x = (key, s, rows)" by (cases x) auto
  with Cons.prems obtain st1 where st1: "check_group ncpu key (s, rows) st = Inr st1" "check_groups ncpu gs st1 = Inr st'"
    by (auto simp: result_bind_Inr)
  from check_group_effect [OF st1(1)] Cons.IH [OF st1(2)] show ?case by (auto simp: x)
qed simp

section \<open>Properties\<close>

text \<open>
  The groups of \<open>load\<close> together hold every row of the file exactly as often as the file does,
  and the median that the tables show of a column lies between the smallest and the largest value
  of the column in the group.
\<close>

theorem load_keeps_rows:
  assumes "plot_load rs [] = Inr data"
  shows "mset (concat (map (\<lambda>(key, s, rows). rows) (all_groups data))) = mset rs \<and>
    (\<forall>rows field vals m. result_list (\<lambda>r. float_field r field) rows = Inr vals \<longrightarrow> med rows field = Inr m \<longrightarrow>
      Min (set vals) \<le> m \<and> m \<le> Max (set vals))"
proof -
  have "rows_in data = mset rs" using plot_load_rows [OF assms] by (simp add: rows_in_def)
  moreover have "Min (set vals) \<le> m \<and> m \<le> Max (set vals)"
    if "result_list (\<lambda>r. float_field r field) rows = Inr vals" "med rows field = Inr m" for rows field vals m
  proof (rule median_bounds)
    show "py_median vals = Inr m" using that by (simp add: med_def)
    have "list_all2 (\<lambda>r v. float_field r field = Inr v) rows vals" using that(1) by (simp add: result_list_Inr)
    then show "is_double v" if "v \<in> set vals" for v
      using that by (auto simp: in_set_conv_nth list_all2_conv_all_nth float_field_def result_bind_Inr dest!: float_is_double)
  qed
  ultimately show ?thesis by (simp add: rows_in_groups)
qed

definition demo_run :: "string \<Rightarrow> string \<Rightarrow> string \<Rightarrow> csv_row" where
  "demo_run s dropped ns =
     [(''workload'', ''block''), (''senders'', ''2''), (''system'', s), (''duration_s'', ''10''), (''offered'', ''1000''),
      (''received'', ''1000''), (''fw_dropped'', dropped), (''ip_in'', ''5''), (''cpu_busy_pct'', ''60''),
      (''cpu_softirq_pct'', ''10''), (''ns_per_pkt'', ns)]"

definition demo_runs :: "csv_row list" where
  "demo_runs = [demo_run ''xdp'' ''995'' ''100'', demo_run ''none'' ''0'' ''300'', demo_run ''xdp'' ''995'' ''110'']"

definition demo_data :: plot_data where
  "demo_data = [((''block'', 2), [(''xdp'', [demo_run ''xdp'' ''995'' ''100'', demo_run ''xdp'' ''995'' ''110'']),
     (''none'', [demo_run ''none'' ''0'' ''300''])])]"

lemma demo_load: "plot_load demo_runs [] = Inr demo_data"
  by code_simp

theorem load_keeps_rows_witness:
  "mset (concat (map (\<lambda>(key, s, rows). rows) (all_groups demo_data))) = mset demo_runs"
  using load_keeps_rows [OF demo_load] by blast

text \<open>
  C34. The four lines of \<open>checks\<close> say ok exactly when they should, by the numbers in the rows. With the number of CPUs known,
  every group's median CPU share is at least 80 percent of a core per sender (no more senders than
  CPUs) over all cores; in every row with traffic, except those of the empty program, the IP counter differs from the
  packets the firewall left by less than one percent of the packets received (for \<open>nftables\<close>, whose hook lies behind that counter,
  from the packets received); in every group of more than one run the
  largest and the smallest cost per packet are at most a quarter of the median apart; and every group's median CPU share is at most 90.
\<close>

theorem checks_exact:
  assumes "plot_checks data env = Inr lines" "ncpu = (case search_cpus True env of Some n \<Rightarrow> n | None \<Rightarrow> 0)"
  shows "map (\<lambda>l. take 4 l = ''[ok]'') lines =
    [list_all (\<lambda>((wl, n), s, rows). ncpu = 0 \<or>
        fl (of_int (80 * min n ncpu) / of_int ncpu) \<le> middle (map (cell ''cpu_busy_pct'') rows)) (all_groups data),
     list_all (\<lambda>(key, s, rows). s = ''xdp-empty'' \<or> list_all (\<lambda>r. cell ''received'' r = 0 \<or>
        (let left = (if s = ''nftables'' then cell ''received'' r else fl (cell ''received'' r - cell ''fw_dropped'' r)) in
         fl (fl (\<bar>fl (cell ''ip_in'' r - left)\<bar> / cell ''received'' r) * 100) < 1)) rows) (all_groups data),
     list_all (\<lambda>(key, s, rows). length rows \<le> 1 \<or>
        fl (fl (Max (cell ''ns_per_pkt'' ` set rows) - Min (cell ''ns_per_pkt'' ` set rows)) /
          middle (map (cell ''ns_per_pkt'') rows)) \<le> 1 / 4) (all_groups data),
     list_all (\<lambda>(key, s, rows). middle (map (cell ''cpu_busy_pct'') rows) \<le> 90) (all_groups data)]"
proof -
  obtain st where st: "check_groups ncpu (all_groups data) \<lparr>worst = 0, noisy = [], busy = [], unseen = []\<rparr> = Inr st"
    "lines = check_lines st"
    using assms by (auto simp: plot_checks_def Let_def)
      (metis result_map.elims sum.distinct(1) sum.inject(2))
  have "map (\<lambda>l. take 4 l = ''[ok]'') lines = [unseen st = [], worst st < 1, noisy st = [], busy st = []]"
    by (simp add: st(2) check_lines_def)
  also have "\<dots> = [list_all (group_seen ncpu) (all_groups data), list_all group_agrees (all_groups data),
      list_all group_steady (all_groups data), list_all group_free (all_groups data)]"
    using check_groups_effect [OF st(1)] by simp
  finally show ?thesis
    unfolding group_seen_def group_agrees_def group_steady_def group_free_def counter_gap_def Let_def .
qed

lemma float_text: "ds \<noteq> [] \<Longrightarrow> list_all is_ascii_digit ds \<Longrightarrow> is_ok (py_float_of_str ds)"
  using float_of_decimal [of ds "[]" ds] by simp

lemma demo_cpus: "search_cpus True ''cpus 4'' = Some 4"
  by (simp add: match_cpus_def is_space_def code_def is_ascii_digit_def nat_of_digits_def digit_value_def)

definition one_each :: plot_data where
  "one_each = [((''block'', 2), [(''xdp'', [demo_run ''xdp'' ''995'' ''100'']), (''none'', [demo_run ''none'' ''0'' ''300''])])]"

lemma one_run_ok:
  assumes "\<And>f. f \<in> set [''received'', ''fw_dropped'', ''ip_in'', ''cpu_busy_pct'', ''ns_per_pkt''] \<Longrightarrow> is_ok (float_field r f)"
  shows "is_ok (check_group 4 key (s, [r]) st)"
proof -
  obtain a b c d e where "float_field r ''received'' = Inr a" "float_field r ''fw_dropped'' = Inr b" "float_field r ''ip_in'' = Inr c"
    "float_field r ''cpu_busy_pct'' = Inr d" "float_field r ''ns_per_pkt'' = Inr e"
    using is_ok_Ex [OF assms [of "''received''"]] is_ok_Ex [OF assms [of "''fw_dropped''"]] is_ok_Ex [OF assms [of "''ip_in''"]]
      is_ok_Ex [OF assms [of "''cpu_busy_pct''"]] is_ok_Ex [OF assms [of "''ns_per_pkt''"]] by auto
  then show ?thesis
    by (simp add: check_group_def group_diffs_def row_diff_def is_noisy_def is_busy_def is_unseen_def med_def py_median_def
        py_truediv_def)
qed

lemma one_each_checked: "is_ok (plot_checks one_each ''cpus 4'')"
proof -
  have ok: "is_ok (py_float_of_str ''1000'')" "is_ok (py_float_of_str ''5'')" "is_ok (py_float_of_str ''60'')"
    by (intro float_text; simp add: is_ascii_digit_def)+
  have "is_ok (float_field (demo_run s d n) f)"
    if f: "f \<in> set [''received'', ''fw_dropped'', ''ip_in'', ''cpu_busy_pct'', ''ns_per_pkt'']"
      and dn: "is_ok (py_float_of_str d)" "is_ok (py_float_of_str n)" for s d n f
  proof -
    have "dict_index (demo_run s d n) ''received'' = Inr ''1000''" "dict_index (demo_run s d n) ''fw_dropped'' = Inr d"
      "dict_index (demo_run s d n) ''ip_in'' = Inr ''5''" "dict_index (demo_run s d n) ''cpu_busy_pct'' = Inr ''60''"
      "dict_index (demo_run s d n) ''ns_per_pkt'' = Inr n" by (simp_all add: demo_run_def dict_index_def)
    then show ?thesis using f ok dn unfolding float_field_def list.set insert_iff empty_iff by (elim disjE) (simp_all only: result_bind.simps)
  qed
  then have "is_ok (check_group 4 key (s, [demo_run s d n]) st)" if "is_ok (py_float_of_str d)" "is_ok (py_float_of_str n)" for key s d n st
    using that by (intro one_run_ok) blast
  moreover have "is_ok (py_float_of_str ''995'')" "is_ok (py_float_of_str ''100'')" "is_ok (py_float_of_str ''0'')" "is_ok (py_float_of_str ''300'')"
    by (intro float_text; simp add: is_ascii_digit_def)+
  ultimately have go: "is_ok (check_group 4 key (''xdp'', [demo_run ''xdp'' ''995'' ''100'']) st)"
    "is_ok (check_group 4 key (''none'', [demo_run ''none'' ''0'' ''300'']) st)" for key st by blast+
  obtain st1 where st1: "check_group 4 (''block'', 2) (''xdp'', [demo_run ''xdp'' ''995'' ''100'']) \<lparr>worst = 0, noisy = [], busy = [], unseen = []\<rparr> = Inr st1"
    using is_ok_Ex [OF go(1)] by blast
  obtain st2 where "check_group 4 (''block'', 2) (''none'', [demo_run ''none'' ''0'' ''300'']) st1 = Inr st2"
    using is_ok_Ex [OF go(2)] by blast
  with st1 show ?thesis by (simp add: plot_checks_def one_each_def all_groups_def demo_cpus del: search_cpus.simps)
qed

lemma one_each_groups:
  "all_groups one_each = [((''block'', 2), ''xdp'', [demo_run ''xdp'' ''995'' ''100'']), ((''block'', 2), ''none'', [demo_run ''none'' ''0'' ''300''])]"
  by (simp add: one_each_def all_groups_def)

lemma demo_cells:
  "cell ''cpu_busy_pct'' (demo_run s d n) = 60" "cell ''received'' (demo_run s d n) = 1000" "cell ''ip_in'' (demo_run s d n) = 5"
  "cell ''fw_dropped'' (demo_run s ''0'' n) = 0"
proof -
  have "nat_of_digits ''60'' = 60" "nat_of_digits ''1000'' = 1000" "nat_of_digits ''5'' = 5" "nat_of_digits ''0'' = 0" by code_simp+
  then have "py_float_of_str ''60'' = Inr 60" "py_float_of_str ''1000'' = Inr 1000" "py_float_of_str ''5'' = Inr 5" "py_float_of_str ''0'' = Inr 0"
    using float_of_decimal [of "''60''" "[]" "''60''"] float_of_decimal [of "''1000''" "[]" "''1000''"]
      float_of_decimal [of "''5''" "[]" "''5''"] float_of_decimal [of "''0''" "[]" "''0''"]
    by (simp_all add: is_ascii_digit_def fl_numeral)
  then show "cell ''cpu_busy_pct'' (demo_run s d n) = 60" "cell ''received'' (demo_run s d n) = 1000" "cell ''ip_in'' (demo_run s d n) = 5"
    "cell ''fw_dropped'' (demo_run s ''0'' n) = 0"
    by (simp_all add: cell_def float_field_def demo_run_def dict_index_def)
qed

text \<open>The system without a firewall has dropped nothing and yet the IP layer saw only five packets: one line is not ok.\<close>

theorem checks_exact_witness:
  "\<exists>lines. plot_checks one_each ''cpus 4'' = Inr lines \<and> map (\<lambda>l. take 4 l = ''[ok]'') lines = [True, False, True, True]"
proof -
  have cpus: "(4 :: int) = (case search_cpus True ''cpus 4'' of Some n \<Rightarrow> n | None \<Rightarrow> 0)" by (simp only: demo_cpus option.case)
  obtain lines where lines: "plot_checks one_each ''cpus 4'' = Inr lines" using is_ok_Ex [OF one_each_checked] by blast
  have one: "middle [60] = 60" by (simp add: middle_def py_median_def)
  have "fl 40 \<le> 60" by (simp add: fl_numeral)
  moreover have "\<not> fl (fl (\<bar>fl (5 - fl (1000 - 0))\<bar> / 1000) * 100) < 1"
  proof -
    have "fl (5 - fl (1000 - 0)) = -995" using fl_of_int [of "-995"] by (simp add: fl_numeral)
    moreover have "fl (1 / 2) = 1 / 2"
      by (rule fl_double, unfold is_double_def, rule exI [of _ 1], rule exI [of _ "-1"]) simp
    then have "1 / 2 \<le> fl (995 / 1000)" using fl_mono [of "1 / 2" "995 / 1000"] by simp
    ultimately show ?thesis using fl_ge_int [of 1 "fl (995 / 1000) * 100"] by simp
  qed
  ultimately have oks: "map (\<lambda>l. take 4 l = ''[ok]'') lines = [True, False, True, True]"
    unfolding checks_exact [OF lines cpus] one_each_groups by (simp add: demo_cells one)
  show ?thesis by (rule exI [of _ lines]) (rule conjI [OF lines oks])
qed

end
