(* ===== verification/Bench_Eval.thy ===== *)
theory Bench_Eval
  imports Bench_Plot
begin

text \<open>
  \<open>bench/eval_report.py\<close>: the tables of the evaluation. The directory is given as two functions,
  from paths to the rows of CSV files and to the texts of log files, \<open>None\<close> where there is no file.
  The figures are not modelled; what they are drawn from is part of the results.
\<close>

type_synonym csv_files = "string \<Rightarrow> csv_row list option"
type_synonym log_files = "string \<Rightarrow> string option"

section \<open>Common parts\<close>

definition TIMEOUT_MS :: rat where "TIMEOUT_MS = 3000"
definition SLOW_MS :: rat where "SLOW_MS = 100"

definition EVAL_SYSTEMS :: "string list" where
  "EVAL_SYSTEMS = [''none'', ''nft-ingress'', ''xdp'', ''xdp-adaptive'']"

definition ATTACKS :: "(string, string) dict" where
  "ATTACKS = [(''single'', ''SYN flood, one source''), (''spread'', ''UDP flood, 100 sources''),
     (''random'', ''SYN flood, 65,000 random sources'')]"

definition path_join :: "string \<Rightarrow> string \<Rightarrow> string" where
  "path_join d name = (if d = [] then name else if last d = CHR ''/'' then d @ name else d @ ''/'' @ name)"

definition csv_rows :: "csv_files \<Rightarrow> string \<Rightarrow> csv_row list result" where
  "csv_rows files path = (case files path of None \<Rightarrow> Inl OSError | Some rs \<Rightarrow> Inr rs)"

text \<open>\<open>s.split()\<close>: the words between white space.\<close>

fun words_from :: "string \<Rightarrow> string \<Rightarrow> string list" where
  "words_from word [] = (if word = [] then [] else [word])"
| "words_from word (c # cs) =
     (if is_space c then (if word = [] then words_from [] cs else word # words_from [] cs)
      else words_from (word @ [c]) cs)"

definition pct :: "rat list \<Rightarrow> rat \<Rightarrow> pyfloat" where
  "pct values q =
     (if values = [] then NaN
      else let v = sort values; n = int (length v) in
        Fin (v ! nat (min (n - 1) (max 0 (round_even (fl (q * of_int n)) - 1)))))"

fun fixed_float :: "nat \<Rightarrow> pyfloat \<Rightarrow> string" where
  "fixed_float k (Fin x) = py_fixed k x"
| "fixed_float k NaN = ''nan''"
| "fixed_float k PosInf = ''inf''"
| "fixed_float k NegInf = ''-inf''"

fun scan_blocked :: "rat \<Rightarrow> string \<Rightarrow> csv_row list \<Rightarrow> rat option result" where
  "scan_blocked start prefix [] = Inr None"
| "scan_blocked start prefix (w # ws) =
     result_bind (dict_index w ''blocked'') (\<lambda>text.
     if List.member (words_from [] text) prefix
     then result_map (\<lambda>t. Some (fl (t - start))) (float_field w ''time'')
     else scan_blocked start prefix ws)"

definition first_block :: "csv_files \<Rightarrow> string \<Rightarrow> rat \<Rightarrow> string \<Rightarrow> rat option result" where
  "first_block files path start prefix =
     (case files path of None \<Rightarrow> Inr None | Some rs \<Rightarrow> scan_blocked start prefix rs)"

section \<open>Collateral damage\<close>

definition WINDOWS :: "(string \<times> rat \<times> rat) list" where
  "WINDOWS = [(''before'', - 10, 0), (''first 5 s'', 0, 5), (''5-40 s'', 5, 40)]"

text \<open>A request: its time from the start of the attack, whether it was answered, and how long it took.\<close>

type_synonym request = "rat \<times> bool \<times> rat"

definition request_of :: "rat \<Rightarrow> csv_row \<Rightarrow> request result" where
  "request_of start p =
     result_bind (float_field p ''time'') (\<lambda>t.
     result_bind (dict_index p ''ok'') (\<lambda>ok.
     result_bind (dict_index p ''latency_ms'') (\<lambda>text.
     result_bind (if text = [] then Inr TIMEOUT_MS else py_float_of_str text) (\<lambda>ms.
     Inr (fl (t - start), ok = ''1'', ms)))))"

text \<open>The time of the first row with any block, and the highest tier of a watch file.\<close>

fun first_marked :: "rat \<Rightarrow> csv_row list \<Rightarrow> rat option result" where
  "first_marked start [] = Inr None"
| "first_marked start (x # xs) =
     result_bind (dict_index x ''blocked'') (\<lambda>text.
     if text \<noteq> [] then result_map (\<lambda>t. Some (fl (t - start))) (float_field x ''time'')
     else first_marked start xs)"

definition top_tier :: "csv_row list \<Rightarrow> int result" where
  "top_tier w = result_bind (result_list (\<lambda>x. result_bind (dict_index x ''tier'') py_int_of_str) w) py_max"

definition one_run :: "csv_files \<Rightarrow> string \<Rightarrow> string \<Rightarrow> string \<Rightarrow> csv_row \<Rightarrow> (request list \<times> rat option list \<times> int list) result" where
  "one_run files d a s r =
     result_bind (dict_index r ''run'') (\<lambda>run.
     result_bind (float_field r ''attack_start'') (\<lambda>start.
     let tag = concat [s, ''-'', a, ''-'', run] in
     result_bind (csv_rows files (path_join d (concat [''probe-'', tag, ''.csv'']))) (\<lambda>probes.
     result_bind (result_list (request_of start) probes) (\<lambda>reqs.
     case (if s = ''xdp-adaptive'' then files (path_join d (concat [''watch-'', tag, ''.csv''])) else None) of
       None \<Rightarrow> Inr (reqs, [], [])
     | Some w \<Rightarrow>
         result_bind (first_marked start w) (\<lambda>t.
         result_map (\<lambda>tier. (reqs, [t], [tier])) (top_tier w))))))"

definition window_cell :: "request list \<Rightarrow> string \<times> rat \<times> rat \<Rightarrow> string" where
  "window_cell reqs = (\<lambda>(_, lo, hi).
     let win = filter (\<lambda>(t, _, _). lo \<le> t \<and> t < hi) reqs;
         ok = map (\<lambda>(_, _, ms). ms) (filter (\<lambda>(_, answered, _). answered) win);
         slow = length (filter (\<lambda>(_, answered, ms). \<not> answered \<or> ms > SLOW_MS) win) in
     if win = [] then py_rjust 31 ''-''
     else concat [py_rjust 7 (py_fixed 1 (fl (of_nat (100 * length ok) / of_nat (length win)))), ''%'',
       py_rjust 8 (fixed_float 1 (pct ok (1 / 2))), py_rjust 8 (fixed_float 1 (pct ok (fl (99 / 100)))),
       py_rjust 6 (py_fixed 1 (fl (of_nat (100 * slow) / of_nat (length win)))), ''%''])"

definition load_of :: "csv_row list \<Rightarrow> string \<Rightarrow> (rat \<times> rat \<times> rat) result" where
  "load_of rs f =
     result_bind (med rs f) (\<lambda>m.
     result_bind (result_list (\<lambda>r. float_field r f) rs) (\<lambda>vals.
     result_bind (py_min vals) (\<lambda>lo.
     result_map (\<lambda>hi. (m, lo, hi)) (py_max vals))))"

definition ns_per_packet :: "int \<Rightarrow> csv_row \<Rightarrow> rat result" where
  "ns_per_packet ncpu r =
     result_bind (float_field r ''softirq_pct'') (\<lambda>softirq.
     result_bind (float_field r ''attack_pps'') (\<lambda>pps.
     py_truediv (fl (fl (fl (softirq / 100) * of_int ncpu) * 1000000000)) pps))"

definition controller_line :: "rat option list \<Rightarrow> int list \<Rightarrow> string result" where
  "controller_line blocks tiers =
     result_bind (py_max tiers) (\<lambda>tier.
     let got = List.map_filter id blocks in
     result_bind (if got = [] then Inr ''blocked nothing''
       else result_map (\<lambda>m. concat [''first block '', py_fixed 1 m, '' s after the attack began (median of '',
         py_str_int (int (length got)), '')'']) (py_median got)) (\<lambda>what.
     Inr (concat [''  '', py_ljust 14 [], ''controller: highest tier L'', py_str_int tier, ''; '', what])))"

record collateral_part =
  cp_lines :: "string list"
  cp_dist :: "rat list"
  cp_load :: "(string, rat \<times> rat \<times> rat) dict"

definition system_part :: "csv_files \<Rightarrow> string \<Rightarrow> int \<Rightarrow> string \<Rightarrow> string \<Rightarrow> csv_row list \<Rightarrow> collateral_part result" where
  "system_part files d ncpu a s rs =
     result_bind (result_list (one_run files d a s) rs) (\<lambda>runs.
     let reqs = concat (map fst runs); blocks = concat (map (fst \<circ> snd) runs); tiers = concat (map (snd \<circ> snd) runs) in
     result_bind (load_of rs ''ip_pps'') (\<lambda>ip.
     result_bind (load_of rs ''softirq_pct'') (\<lambda>softirq.
     result_bind (result_bind (result_list (ns_per_packet ncpu) rs) py_median) (\<lambda>ns.
     result_bind (med rs ''attack_pps'') (\<lambda>pps.
     let line = concat ([''  '', py_ljust 14 s, py_rjust 11 (py_fixed_commas 0 pps), py_rjust 9 (py_fixed_commas 0 (fst ip)),
         py_rjust 8 (py_fixed 1 (fst softirq)), ''%'', py_rjust 8 (py_fixed_commas 0 ns)] @ map (window_cell reqs) WINDOWS) in
     result_bind (if s = ''xdp-adaptive'' then result_map (\<lambda>l. [l]) (controller_line blocks tiers) else Inr []) (\<lambda>more.
     Inr \<lparr>cp_lines = line # more,
       cp_dist = sort (map (\<lambda>(_, ok, ms). if ok then ms else TIMEOUT_MS) (filter (\<lambda>(t, _, _). 0 \<le> t \<and> t < 40) reqs)),
       cp_load = [(''ip_pps'', ip), (''softirq_pct'', softirq)]\<rparr>))))))"

definition collateral_head :: "string list" where
  "collateral_head =
     [''Normal client during an attack (requests pooled over all runs)'', replicate 62 (CHR ''-''),
      ''ok: requests answered within 3 s. p50/p99: response time of the answered'',
      ''ones. slow: requests slower than 100 ms or unanswered (here that means TCP'',
      ''retransmitted). attack pps: what the sender managed. at IP: packets per'',
      ''second reaching the IP layer. softirq: share of all CPU time spent in'',
      ''the receive path. ns/pkt: that CPU time per attack packet received (the'',
      ''benchmark'' @ [CHR 0x27] @ ''s measure). All three over the attack; medians of the runs.'', []]"

definition attack_head :: "string \<Rightarrow> string list" where
  "attack_head title =
     [title,
      concat ([''  '', py_ljust 14 ''system'', py_rjust 11 ''attack pps'', py_rjust 9 ''at IP'', py_rjust 9 ''softirq'',
        py_rjust 8 ''ns/pkt''] @ map (\<lambda>(w, _, _). py_rjust 31 w) WINDOWS),
      concat ([''  '', py_ljust 14 [], py_rjust 11 [], py_rjust 9 [], py_rjust 9 [], py_rjust 8 []] @
        map (\<lambda>_. concat [py_rjust 8 ''ok'', py_rjust 8 ''p50 ms'', py_rjust 8 ''p99 ms'', py_rjust 7 ''slow'']) WINDOWS)]"

type_synonym runs_by = "(string \<times> string, csv_row list) dict"

fun group_runs :: "csv_row list \<Rightarrow> runs_by \<Rightarrow> runs_by result" where
  "group_runs [] by_run = Inr by_run"
| "group_runs (r # rs) by_run =
     result_bind (dict_index r ''attack'') (\<lambda>a.
     result_bind (dict_index r ''system'') (\<lambda>s.
     group_runs rs (dict_set (a, s) (dict_get by_run (a, s) [] @ [r]) by_run)))"

definition attack_part :: "csv_files \<Rightarrow> string \<Rightarrow> int \<Rightarrow> runs_by \<Rightarrow> string \<Rightarrow> (string \<times> collateral_part) list result" where
  "attack_part files d ncpu by_run a =
     result_list (\<lambda>s. result_map (\<lambda>p. (s, p)) (system_part files d ncpu a s (dict_get by_run (a, s) [])))
       (filter (\<lambda>s. dict_get by_run (a, s) [] \<noteq> []) EVAL_SYSTEMS)"

text \<open>The text, the response times and the loads by attack and system, and the attacks there are runs of.\<close>

definition collateral :: "csv_files \<Rightarrow> string \<Rightarrow> int \<Rightarrow>
    (string \<times> (string \<times> string, rat list) dict \<times> (string \<times> string, (string, rat \<times> rat \<times> rat) dict) dict \<times> string list) result" where
  "collateral files d ncpu =
     result_bind (csv_rows files (path_join d ''runs.csv'')) (\<lambda>runs.
     result_bind (group_runs runs []) (\<lambda>by_run.
     let attacks = filter (\<lambda>a. list_ex (\<lambda>(k, _). fst k = a) by_run) (map fst ATTACKS) in
     result_bind (result_list (attack_part files d ncpu by_run) attacks) (\<lambda>parts.
     let sections = zip attacks parts;
         out = collateral_head @ concat (map (\<lambda>(a, ps). attack_head (dict_get ATTACKS a []) @ concat (map (cp_lines \<circ> snd) ps) @ [[]]) sections) in
     Inr (py_join [CHR 0x0A] out,
       concat (map (\<lambda>(a, ps). map (\<lambda>(s, p). ((a, s), cp_dist p)) ps) sections),
       concat (map (\<lambda>(a, ps). map (\<lambda>(s, p). ((a, s), cp_load p)) ps) sections), attacks))))"

section \<open>The controller's log\<close>

text \<open>\<open>re.sub\<close> of the terminal's escape sequences; \<open>skip\<close> counts the characters of a match still to be dropped.\<close>

definition is_letter :: "char \<Rightarrow> bool" where
  "is_letter c \<longleftrightarrow> 65 \<le> code c \<and> code c \<le> 90 \<or> 97 \<le> code c \<and> code c \<le> 122"

definition escape_length :: "string \<Rightarrow> nat" where
  "escape_length s =
     (if take 2 s \<noteq> [CHR 0x1B, CHR ''['' ] then 0
      else let ps = takeWhile (\<lambda>c. is_ascii_digit c \<or> c = CHR '';'') (drop 2 s) in
        case drop (2 + length ps) s of [] \<Rightarrow> 0 | c # _ \<Rightarrow> if is_letter c then 3 + length ps else 0)"

fun strip_escapes :: "nat \<Rightarrow> string \<Rightarrow> string" where
  "strip_escapes skip [] = []"
| "strip_escapes skip (c # cs) =
     (if skip > 0 then strip_escapes (skip - 1) cs
      else case escape_length (c # cs) of 0 \<Rightarrow> c # strip_escapes 0 cs | Suc n \<Rightarrow> strip_escapes n cs)"

text \<open>The parts of the two patterns: a literal, one or more characters of a class, each with the rest.\<close>

definition eat :: "string \<Rightarrow> string \<Rightarrow> string option" where
  "eat lit s = (if take (length lit) s = lit then Some (drop (length lit) s) else None)"

definition eat_some :: "(char \<Rightarrow> bool) \<Rightarrow> string \<Rightarrow> (string \<times> string) option" where
  "eat_some p s = (let x = takeWhile p s in if x = [] then None else Some (x, drop (length x) s))"

text \<open>\<open>BLOCKED src for \d+s \(([^)]+)\)\<close> at the start of a text: the group and the rest.\<close>

definition match_reason :: "string \<Rightarrow> string \<Rightarrow> (string \<times> string) option" where
  "match_reason src s =
     Option.bind (eat (''BLOCKED '' @ src @ '' for '') s) (\<lambda>s.
     Option.bind (eat_some is_ascii_digit s) (\<lambda>(_, s).
     Option.bind (eat ''s ('' s) (\<lambda>s.
     Option.bind (eat_some (\<lambda>c. c \<noteq> CHR '')'') s) (\<lambda>(why, s).
     map_option (\<lambda>s. (why, s)) (eat '')'' s)))))"

fun find_reasons :: "string \<Rightarrow> nat \<Rightarrow> string \<Rightarrow> string list" where
  "find_reasons src skip [] = []"
| "find_reasons src skip (c # cs) =
     (if skip > 0 then find_reasons src (skip - 1) cs
      else case match_reason src (c # cs) of
          None \<Rightarrow> find_reasons src 0 cs
        | Some (why, rest) \<Rightarrow> why # find_reasons src (length cs - length rest) cs)"

text \<open>A row of the table of sources: the number and the unit of the rate, the dropped share and the status.\<close>

record seen_row =
  seen_num :: string
  seen_unit :: string
  seen_drop :: string
  seen_status :: string

definition eat_column :: "string \<Rightarrow> string option" where
  "eat_column s = Option.bind (eat_some is_space s) (\<lambda>(_, s). map_option snd (eat_some is_ascii_digit s))"

definition eat_unit :: "string \<Rightarrow> string \<times> string" where
  "eat_unit s = (case s of [] \<Rightarrow> ([], []) | c # cs \<Rightarrow> if List.member ''kMG'' c then ([c], cs) else ([], s))"

definition match_seen :: "string \<Rightarrow> string \<Rightarrow> (seen_row \<times> string) option" where
  "match_seen src s =
     Option.bind (eat ('' '' @ src) s) (\<lambda>s.
     Option.bind (eat_some is_space s) (\<lambda>(_, s).
     Option.bind (eat_some (\<lambda>c. is_ascii_digit c \<or> c = CHR ''.'') s) (\<lambda>(num, s).
     case eat_unit s of (u, s) \<Rightarrow>
     Option.bind (eat_column s) (\<lambda>s. Option.bind (eat_column s) (\<lambda>s. Option.bind (eat_column s) (\<lambda>s.
     Option.bind (eat_column s) (\<lambda>s.
     Option.bind (eat_some is_space s) (\<lambda>(_, s).
     Option.bind (eat_some is_ascii_digit s) (\<lambda>(p, s).
     Option.bind (eat_some is_space s) (\<lambda>(_, s).
     map_option (\<lambda>(status, s). (\<lparr>seen_num = num, seen_unit = u, seen_drop = p, seen_status = status\<rparr>, s))
       (eat_some (\<lambda>c. \<not> is_space c) s)))))))))))"

fun find_seen :: "string \<Rightarrow> bool \<Rightarrow> nat \<Rightarrow> string \<Rightarrow> seen_row list" where
  "find_seen src at_line skip [] = []"
| "find_seen src at_line skip (c # cs) =
     (if skip > 0 then find_seen src (c = CHR 0x0A) (skip - 1) cs
      else case (if at_line then match_seen src (c # cs) else None) of
          None \<Rightarrow> find_seen src (c = CHR 0x0A) 0 cs
        | Some (r, rest) \<Rightarrow> r # find_seen src (c = CHR 0x0A) (length cs - length rest) cs)"

definition unit_scale :: "string \<Rightarrow> rat" where
  "unit_scale u = (if u = ''k'' then 1000 else if u = ''M'' then 1000000 else if u = ''G'' then 1000000000 else 1)"

definition from_log :: "log_files \<Rightarrow> string \<Rightarrow> string \<Rightarrow> (string list \<times> rat \<times> rat) result" where
  "from_log logs path src =
     (case logs path of
        None \<Rightarrow> Inl OSError
      | Some raw \<Rightarrow>
          let text = strip_escapes 0 raw; why = remdups (find_reasons src 0 text); seen = find_seen src True 0 text in
          result_bind (result_list (\<lambda>r. result_map (\<lambda>x. fl (x * unit_scale (seen_unit r))) (py_float_of_str (seen_num r))) seen) (\<lambda>rates.
          result_bind (if rates = [] then Inr 0 else py_max rates) (\<lambda>peak.
          result_bind (result_list (\<lambda>r. py_int_of_str (seen_drop r)) (filter (\<lambda>r. seen_status r \<noteq> ''BLOCKED'') seen)) (\<lambda>drops.
          result_map (\<lambda>m. (why, peak, m)) (if drops = [] then Inr 0 else py_median (map of_int drops))))))"

section \<open>Detection\<close>

definition valid :: "csv_row \<Rightarrow> bool result" where
  "valid r =
     result_bind (dict_index r ''kind'') (\<lambda>kind.
     if kind \<noteq> ''attack'' then Inr True
     else result_bind (dict_index r ''setting'') (\<lambda>setting.
     if setting = ''max'' then Inr True
     else result_bind (float_field r ''rx_pps'') (\<lambda>rx.
     result_map (\<lambda>target. \<not> rx < fl (target / 2)) (py_float_of_str setting))))"

fun result_filter :: "('a \<Rightarrow> bool result) \<Rightarrow> 'a list \<Rightarrow> 'a list result" where
  "result_filter p [] = Inr []"
| "result_filter p (x # xs) =
     result_bind (p x) (\<lambda>b. result_map (\<lambda>ys. if b then x # ys else ys) (result_filter p xs))"

type_synonym det_key = "string \<times> string \<times> string"

fun group_detection :: "csv_row list \<Rightarrow> (det_key, csv_row list) dict \<Rightarrow> (det_key, csv_row list) dict result" where
  "group_detection [] by_run = Inr by_run"
| "group_detection (r # rs) by_run =
     result_bind (dict_index r ''kind'') (\<lambda>kind.
     result_bind (dict_index r ''traffic'') (\<lambda>traffic.
     result_bind (dict_index r ''setting'') (\<lambda>setting.
     group_detection rs (dict_set (kind, traffic, setting) (dict_get by_run (kind, traffic, setting) [] @ [r]) by_run))))"

text \<open>One valid run: the reasons, the peak rate, the share dropped, and the time of the block if there was one.\<close>

definition one_detection :: "csv_files \<Rightarrow> log_files \<Rightarrow> string \<Rightarrow> det_key \<Rightarrow> csv_row \<Rightarrow>
    (string list \<times> rat \<times> rat \<times> rat option) result" where
  "one_detection files logs d k r =
     result_bind (dict_index r ''run'') (\<lambda>run.
     let tag = concat [fst (snd k), ''-'', snd (snd k), ''-'', run] in
     result_bind (dict_index r ''source'') (\<lambda>src.
     result_bind (from_log logs (path_join d (concat [''controller-'', tag, ''.log''])) src) (\<lambda>(why, peak, dropped).
     result_bind (float_field r ''start'') (\<lambda>start.
     result_map (\<lambda>t. (why, peak, dropped, t))
       (first_block files (path_join d (concat [''watch-'', tag, ''.csv''])) start (src @ ''/32''))))))"

definition when_text :: "rat list \<Rightarrow> nat \<Rightarrow> string result" where
  "when_text ts runs =
     (if length ts = runs then result_map (\<lambda>m. py_fixed 1 m @ '' s'') (py_median ts)
      else if ts \<noteq> [] then result_map (\<lambda>m. py_fixed 1 m @ '' s*'') (py_median ts)
      else Inr ''-'')"

type_synonym det_point = "det_key \<times> rat \<times> nat \<times> nat"

definition detection_row :: "csv_files \<Rightarrow> log_files \<Rightarrow> string \<Rightarrow> det_key \<Rightarrow> csv_row list \<Rightarrow> (string \<times> det_point list) result" where
  "detection_row files logs d k all_runs =
     result_bind (result_filter valid all_runs) (\<lambda>rs.
     if rs = [] then
       result_map (\<lambda>sent. (concat [''  '', py_ljust 11 (fst (snd k)), py_rjust 8 (snd (snd k)),
         ''   not measured: the sender reached only '', py_general (Fin sent), '' pps in all '', py_str_int (int (length all_runs)), '' runs''], []))
         (med all_runs ''rx_pps'')
     else
       result_bind (result_list (one_detection files logs d k) rs) (\<lambda>runs.
       let ts = List.map_filter (snd \<circ> snd \<circ> snd) runs;
           why = remdups (concat (map fst (filter (\<lambda>x. snd (snd (snd x)) \<noteq> None) runs)));
           skipped = length all_runs - length rs in
       result_bind (when_text ts (length rs)) (\<lambda>at_time.
       result_bind (med rs ''mean_bytes'') (\<lambda>mean_bytes.
       result_bind (py_median (map (fst \<circ> snd) runs)) (\<lambda>peak.
       result_bind (py_median (map (fst \<circ> snd \<circ> snd) runs)) (\<lambda>dropped.
       Inr (concat [''  '', py_ljust 11 (fst (snd k)), py_rjust 8 (snd (snd k)), py_rjust 10 (py_fixed_commas 0 peak),
           py_rjust 7 (py_fixed 0 mean_bytes), py_rjust 8 (py_fixed 0 dropped), ''%'',
           py_rjust 5 (py_str_int (int (length ts))), ''/'', py_ljust 3 (py_str_int (int (length rs))),
           py_rjust 15 at_time, ''  '', py_join '', '' (sort_key (map code) why),
           if skipped \<noteq> 0 then concat [''  ('', py_str_int (int skipped), '' run(s) left out)''] else []],
         [(k, peak, length ts, length rs)])))))))"

definition KINDS :: "(string \<times> string) list" where
  "KINDS = [(''attack'', ''Attacks: is the source blocked, and how fast?''),
     (''normal'', ''Normal clients: is the source wrongly blocked?'')]"

definition kind_part :: "csv_files \<Rightarrow> log_files \<Rightarrow> string \<Rightarrow> (det_key, csv_row list) dict \<Rightarrow> string \<times> string \<Rightarrow>
    (string list \<times> det_point list) result" where
  "kind_part files logs d by_run = (\<lambda>(kind, title).
     let keys = filter (\<lambda>k. fst k = kind) (map fst by_run) in
     if keys = [] then Inr ([], [])
     else
       result_map (\<lambda>rows. ([title, replicate (length title) (CHR ''-''),
           concat [''  '', py_ljust 11 ''traffic'', py_rjust 8 ''setting'', py_rjust 10 ''peak pps'', py_rjust 7 ''bytes'',
             py_rjust 9 ''dropped'', py_rjust 9 ''blocked'', py_rjust 15 ''time to block'', ''  rule'']] @ map fst rows @ [[]],
         concat (map snd rows)))
       (result_list (\<lambda>k. detection_row files logs d k (dict_get by_run k [])) keys))"

definition detection_notes :: "string list" where
  "detection_notes =
     [''setting: target packets per second (max = as fast as hping3 can) for'',
      ''attacks; ports per second for port_scan; users or packets per second for'',
      ''normal clients. peak pps: the highest one-second rate the controller'',
      ''measured for the source (median over runs), which is what the rules see.'',
      ''bytes: mean packet size. dropped: share of the source'' @ [CHR 0x27] @ ''s packets the'',
      ''firewall dropped in a typical second before any block (rate limiting).'',
      ''Time to block is the median from the first packet; * means only some'',
      ''runs were blocked, and the median is of those. A run whose sender'',
      ''reached less than half the requested rate is left out.'']"

definition detection :: "csv_files \<Rightarrow> log_files \<Rightarrow> string \<Rightarrow> (string \<times> det_point list) result" where
  "detection files logs d =
     result_bind (csv_rows files (path_join d ''runs.csv'')) (\<lambda>runs.
     result_bind (group_detection runs []) (\<lambda>by_run.
     result_map (\<lambda>parts. (py_join [CHR 0x0A] (concat (map fst parts) @ detection_notes), concat (map snd parts)))
       (result_list (kind_part files logs d by_run) KINDS)))"

section \<open>Lemmas\<close>

lemma length_filter_sort: "length (filter P (sort xs)) = length (filter P xs)"
  by (metis mset_filter mset_sort size_mset)

lemma order_statistic:
  assumes "i < length (xs :: 'a :: linorder list)"
  shows "length (filter (\<lambda>y. y < sort xs ! i) xs) \<le> i" "i < length (filter (\<lambda>y. y \<le> sort xs ! i) xs)"
proof -
  let ?v = "sort xs" and ?x = "sort xs ! i"
  have "\<not> y < ?x" if "y \<in> set (drop i ?v)" for y
    using that assms sorted_nth_mono [of ?v i] by (auto simp: in_set_conv_nth not_less)
  then have "filter (\<lambda>y. y < ?x) (drop i ?v) = []" by (simp add: filter_empty_conv)
  then have "length (filter (\<lambda>y. y < ?x) ?v) \<le> length (take i ?v)"
    by (metis append_Nil2 append_take_drop_id filter_append length_filter_le)
  then show "length (filter (\<lambda>y. y < ?x) xs) \<le> i" by (simp add: length_filter_sort)
  have "y \<le> ?x" if "y \<in> set (take (Suc i) ?v)" for y
    using that assms sorted_nth_mono [of ?v _ i] by (auto simp: in_set_conv_nth)
  then have "filter (\<lambda>y. y \<le> ?x) (take (Suc i) ?v) = take (Suc i) ?v" by (simp add: filter_id_conv)
  then have "Suc i \<le> length (filter (\<lambda>y. y \<le> ?x) ?v)"
    using assms by (metis append_take_drop_id filter_append le_add1 length_append length_sort length_take min.absorb2 Suc_leI)
  then show "i < length (filter (\<lambda>y. y \<le> ?x) xs)" by (simp add: length_filter_sort)
qed

definition det_key_of :: "csv_row \<Rightarrow> det_key result" where
  "det_key_of r =
     result_bind (dict_index r ''kind'') (\<lambda>kind.
     result_bind (dict_index r ''traffic'') (\<lambda>traffic.
     result_map (\<lambda>setting. (kind, traffic, setting)) (dict_index r ''setting'')))"

lemma group_detection_get:
  assumes "group_detection rs by_run = Inr out"
  shows "dict_get out k [] = dict_get by_run k [] @ filter (\<lambda>r. det_key_of r = Inr k) rs"
  using assms
proof (induction rs arbitrary: by_run)
  case (Cons r rs)
  then obtain key where "det_key_of r = Inr key"
    "group_detection rs (dict_set key (dict_get by_run key [] @ [r]) by_run) = Inr out"
    by (auto simp: det_key_of_def result_bind_Inr)
  with Cons.IH show ?case by auto
qed simp

lemma result_filter_Inr: "result_filter p xs = Inr ys \<Longrightarrow> ys = filter (\<lambda>x. p x = Inr True) xs"
  by (induction xs arbitrary: ys) (auto simp: result_bind_Inr result_map_Inr)

lemma result_list_mem: "result_list f xs = Inr ys \<Longrightarrow> y \<in> set ys \<Longrightarrow> \<exists>x \<in> set xs. f x = Inr y"
  unfolding result_list_Inr list_all2_conv_all_nth in_set_conv_nth by (metis nth_mem)

lemma detection_row_points:
  assumes "detection_row files logs d k all_runs = Inr (line, pts)" "(k', peak, blocked, n) \<in> set pts"
  shows "k' = k \<and> 0 < n \<and> blocked \<le> n \<and> n = length (filter (\<lambda>r. valid r = Inr True) all_runs)"
proof -
  obtain rs where rs: "result_filter valid all_runs = Inr rs" using assms(1) by (auto simp: detection_row_def result_bind_Inr)
  have ne: "rs \<noteq> []" using assms rs by (auto simp: detection_row_def result_map_Inr)
  with assms(1) rs obtain runs m where runs: "result_list (one_detection files logs d k) rs = Inr runs"
    "pts = [(k, m, length (List.map_filter (snd \<circ> snd \<circ> snd) runs), length rs)]"
    by (auto simp: detection_row_def result_bind_Inr Let_def)
  have "length (List.map_filter (snd \<circ> snd \<circ> snd) runs) \<le> length runs" by (simp add: List.map_filter_def)
  with runs assms(2) ne result_filter_Inr [OF rs] result_list_length [OF runs(1)] show ?thesis by auto
qed

section \<open>Properties\<close>

text \<open>
  \<open>pct\<close> of a non-empty list returns one of its values, the one whose place in the sorted list is
  the rounded product of the quantile and the length, kept between the first and the last place:
  fewer values than that are below it and at least that many are not above it. Because \<open>round\<close> takes
  ties to even this is not always the nearest rank: for five values the median comes out as the second.
\<close>

theorem pct_rank:
  assumes "values \<noteq> []" "k = nat (min (int (length values)) (max 1 (round_even (fl (q * of_nat (length values))))))"
  shows "(\<exists>x \<in> set values. pct values q = Fin x \<and> length (filter (\<lambda>v. v < x) values) < k \<and>
    k \<le> length (filter (\<lambda>v. v \<le> x) values)) \<and> pct [1, 2, 3, 4, 5] (1 / 2) = Fin 2"
proof
  let ?n = "int (length values)"
  define i where "i = nat (min (?n - 1) (max 0 (round_even (fl (q * of_nat (length values))) - 1)))"
  have n: "1 \<le> ?n" using assms(1) by (cases "values") auto
  have i: "i < length values" "k = Suc i"
    using n unfolding i_def assms(2) by linarith+
  have "pct values q = Fin (sort values ! i)" using assms(1) by (simp add: pct_def Let_def i_def)
  moreover have "sort values ! i \<in> set values" using nth_mem [of i "sort values"] i(1) by simp
  ultimately show "\<exists>x \<in> set values. pct values q = Fin x \<and> length (filter (\<lambda>v. v < x) values) < k \<and>
      k \<le> length (filter (\<lambda>v. v \<le> x) values)"
    using order_statistic [OF i(1)] i(2) by (auto intro!: bexI [of _ "sort values ! i"])
  have "(5 :: rat) / 2 = of_int 5 * 2 powi (- 1)" by simp
  then have "is_double (5 / 2)" unfolding is_double_def by (intro exI [of _ 5] exI [of _ "- 1"]) simp
  then have "fl (5 / 2) = 5 / 2" by (rule fl_double)
  moreover have "\<lfloor>5 / 2 :: rat\<rfloor> = 2" by (simp add: floor_eq_iff)
  then have "round_even (5 / 2) = 2" by (simp add: round_even_def Let_def)
  ultimately have "round_even (fl (5 / 2)) = 2" by (simp only:)
  then show "pct [1, 2, 3, 4, 5] (1 / 2) = Fin 2" by (simp add: pct_def)
qed

theorem pct_rank_witness:
  "\<exists>x \<in> {7, 3, 9}. pct [7, 3, 9] 1 = Fin x \<and> length (filter (\<lambda>v. v < x) [7, 3, 9]) < 3 \<and>
     3 \<le> length (filter (\<lambda>v. v \<le> x) [7, 3, 9])"
proof -
  have "fl 3 = 3" by (rule fl_numeral) simp
  then have "(3 :: nat) = nat (min (int (length [7, 3, 9 :: rat])) (max 1 (round_even (fl (1 * of_nat (length [7, 3, 9 :: rat]))))))"
    using round_even_of_int [of 3] by simp
  from pct_rank [OF _ this] show ?thesis by simp
qed

text \<open>
  Every dot of the detection figure belongs to a kind, traffic and setting with at least one
  valid run; its number of runs is the number of valid runs of the file for them, and it never
  counts more blocked runs than runs.
\<close>

theorem detection_points:
  assumes "files (path_join d ''runs.csv'') = Some runs" "detection files logs d = Inr (text, pts)"
    and "(k, peak, blocked, n) \<in> set pts"
  shows "0 < n \<and> blocked \<le> n \<and> n = length (filter (\<lambda>r. det_key_of r = Inr k \<and> valid r = Inr True) runs)"
proof -
  from assms(1,2) obtain by_run parts where by_run: "group_detection runs [] = Inr by_run"
    and parts: "result_list (kind_part files logs d by_run) KINDS = Inr parts" "pts = concat (map snd parts)"
    by (auto simp: detection_def csv_rows_def result_bind_Inr result_map_Inr)
  from assms(3) parts(2) obtain part where part: "part \<in> set parts" "(k, peak, blocked, n) \<in> set (snd part)" by auto
  then obtain kd where "kind_part files logs d by_run kd = Inr part"
    using result_list_mem [OF parts(1)] by blast
  with part(2) obtain keys rows where rows: "result_list (\<lambda>k. detection_row files logs d k (dict_get by_run k [])) keys = Inr rows"
    "(k, peak, blocked, n) \<in> set (concat (map snd rows))"
    by (auto simp: kind_part_def result_map_Inr Let_def split: prod.splits if_splits)
  then obtain line ps where row: "(line, ps) \<in> set rows" "(k, peak, blocked, n) \<in> set ps" by auto
  then obtain k0 where "detection_row files logs d k0 (dict_get by_run k0 []) = Inr (line, ps)"
    using result_list_mem [OF rows(1)] by blast
  from detection_row_points [OF this row(2)] group_detection_get [OF by_run, of k] show ?thesis
    by (simp add: conj_commute del: length_greater_0_conv)
qed

text \<open>One run of a normal client that the controller never showed.\<close>

definition quiet_run :: csv_row where
  "quiet_run = [(''kind'', ''normal''), (''traffic'', ''browse''), (''setting'', ''-''), (''run'', ''1''),
     (''source'', ''10.0.0.2''), (''start'', ''0''), (''mean_bytes'', ''0'')]"

definition quiet_files :: csv_files where
  "quiet_files = map_of [(''d/runs.csv'', [quiet_run])]"

definition quiet_logs :: log_files where
  "quiet_logs = map_of [(''d/controller-browse---1.log'', [])]"

lemma float_of_zero: "py_float_of_str ''0'' = Inr 0"
  by (simp add: py_float_of_str_def split_sign_def decimal_of_def py_strip_def py_partition_def is_space_def
      code_def is_ascii_digit_def nat_of_digits_def digit_value_def)

lemma quiet_one: "one_detection quiet_files quiet_logs ''d'' (''normal'', ''browse'', ''-'') quiet_run = Inr ([], 0, 0, None)"
  by (simp add: one_detection_def quiet_run_def quiet_files_def quiet_logs_def dict_index_def from_log_def
      path_join_def float_field_def float_of_zero first_block_def)

lemma quiet_row: "\<exists>line. detection_row quiet_files quiet_logs ''d'' (''normal'', ''browse'', ''-'') [quiet_run] =
    Inr (line, [((''normal'', ''browse'', ''-''), 0, 0, 1)])"
proof -
  have "valid quiet_run = Inr True" by (simp add: valid_def quiet_run_def dict_index_def)
  moreover have "med [quiet_run] ''mean_bytes'' = Inr 0"
    by (simp add: med_def quiet_run_def dict_index_def float_field_def float_of_zero py_median_def)
  ultimately show ?thesis
    by (simp add: detection_row_def quiet_one when_text_def py_median_def List.map_filter_def)
qed

theorem detection_points_witness:
  "\<exists>report. detection quiet_files quiet_logs ''d'' = Inr (report, [((''normal'', ''browse'', ''-''), 0, 0, 1)]) \<and>
     (1 :: nat) = length (filter (\<lambda>r. det_key_of r = Inr (''normal'', ''browse'', ''-'') \<and> valid r = Inr True) [quiet_run])"
proof -
  have runs: "quiet_files (path_join ''d'' ''runs.csv'') = Some [quiet_run]"
    by (simp add: quiet_files_def path_join_def)
  have group: "group_detection [quiet_run] [] = Inr [((''normal'', ''browse'', ''-''), [quiet_run])]"
    by (simp add: quiet_run_def dict_index_def dict_set_def)
  obtain report where "detection quiet_files quiet_logs ''d'' = Inr (report, [((''normal'', ''browse'', ''-''), 0, 0, 1)])"
    using quiet_row runs group by (auto simp: detection_def csv_rows_def KINDS_def kind_part_def dict_get_Cons)
  with detection_points [OF runs this] show ?thesis by auto
qed

end
