(* ===== verification/Bench_Screen.thy ===== *)
theory Bench_Screen
  imports Bench_Eval Controller Xdp_Props
begin

text \<open>
  The evaluation's report reads what the controller printed: \<open>from_log\<close> of \<open>bench/eval_report.py\<close>
  takes the rates, the dropped share and the status out of the table of sources that \<open>draw\<close> of
  \<open>control/controller.py\<close> prints, and the reasons out of the notes of \<open>Blocker.update\<close>. Here both
  ends are put together.
\<close>

section \<open>Escape sequences\<close>

lemma strip_plain: "CHR 0x1B \<notin> set a \<Longrightarrow> strip_escapes 0 (a @ b) = a @ strip_escapes 0 b"
  by (induction a) (auto simp: escape_length_def take_Cons')

lemma strip_plain_id: "CHR 0x1B \<notin> set a \<Longrightarrow> strip_escapes 0 a = a"
  using strip_plain [of a "[]"] by simp

lemma strip_colours [simp]:
  "strip_escapes 0 (RED @ s) = strip_escapes 0 s" "strip_escapes 0 (GREEN @ s) = strip_escapes 0 s"
  "strip_escapes 0 (YELLOW @ s) = strip_escapes 0 s" "strip_escapes 0 (DIM @ s) = strip_escapes 0 s"
  "strip_escapes 0 (RESET @ s) = strip_escapes 0 s" "strip_escapes 0 RESET = []"
  by (simp_all add: RED_def GREEN_def YELLOW_def DIM_def RESET_def ansi_def escape_length_def is_ascii_digit_def
      is_letter_def code_def)

lemma strip_char [simp]: "c \<noteq> CHR 0x1B \<Longrightarrow> strip_escapes 0 (c # s) = c # strip_escapes 0 s"
  using strip_plain [of "[c]"] by simp

declare strip_escapes.simps(2) [simp del]

section \<open>Columns\<close>

text \<open>What starts with a blank ends any word before it.\<close>

definition starts_blank :: "string \<Rightarrow> bool" where
  "starts_blank s \<longleftrightarrow> s \<noteq> [] \<and> is_space (hd s)"

definition number :: "string \<Rightarrow> bool" where
  "number s \<longleftrightarrow> s \<noteq> [] \<and> list_all is_ascii_digit s"

lemma eat_literal [simp]: "eat lit (lit @ s) = Some s"
  by (simp add: eat_def)

lemma eat_some_append:
  assumes "x \<noteq> []" "list_all p x" "s = [] \<or> \<not> p (hd s)"
  shows "eat_some p (x @ s) = Some (x, s)"
proof -
  have "takeWhile p (x @ s) = x @ takeWhile p s" using assms(2) by (intro takeWhile_append2) (auto simp: list_all_iff)
  moreover have "takeWhile p s = []" using assms(3) by (cases s) auto
  ultimately show ?thesis using assms(1) by (simp add: eat_some_def)
qed

lemma blank_not_digit: "is_space c \<Longrightarrow> \<not> is_ascii_digit c"
  using digit_not_space by blast

lemma space_is_blank [simp]: "is_space (CHR '' '')"
  by (simp add: is_space_def code_def)

lemma eat_number: "number x \<Longrightarrow> starts_blank s \<Longrightarrow> eat_some is_ascii_digit (x @ s) = Some (x, s)"
  by (rule eat_some_append) (auto simp: number_def starts_blank_def blank_not_digit)

lemma eat_blanks:
  "0 < n \<Longrightarrow> s \<noteq> [] \<Longrightarrow> \<not> is_space (hd s) \<Longrightarrow> eat_some is_space (replicate n (CHR '' '') @ s) = Some (replicate n (CHR '' ''), s)"
  by (rule eat_some_append) (auto simp: list_all_iff)

lemma number_hd: "number x \<Longrightarrow> x @ s \<noteq> [] \<and> \<not> is_space (hd (x @ s))"
  by (cases x) (auto simp: number_def dest: digit_not_space)

lemma rjust_starts_blank: "length x < n \<Longrightarrow> starts_blank (py_rjust n x @ s)"
  by (cases "n - length x") (auto simp: starts_blank_def py_rjust_def)

lemma eat_blank_number:
  "number x \<Longrightarrow> length x < n \<Longrightarrow> eat_some is_space (py_rjust n x @ s) = Some (replicate (n - length x) (CHR '' ''), x @ s)"
  unfolding py_rjust_def append_assoc by (rule eat_blanks) (use number_hd in auto)

lemma eat_column_number:
  "number x \<Longrightarrow> length x < n \<Longrightarrow> starts_blank s \<Longrightarrow> eat_column (py_rjust n x @ s) = Some s"
  by (simp add: eat_column_def eat_blank_number eat_number)

lemma fixed_number: "0 \<le> x \<Longrightarrow> number (py_fixed 0 x)"
  by (simp add: number_def py_fixed_def fixed_frac_def)

lemma fixed_length:
  assumes "0 \<le> x" "x \<le> of_nat (10 ^ k - 1)" "0 < k"
  shows "length (py_fixed 0 x) \<le> k"
proof -
  have "round_even x \<le> int (10 ^ k - 1)" using assms(2) by (intro round_even_le_of_int) simp
  then have "fixed_units 0 x \<le> 10 ^ k - 1" using assms(1) by (simp add: fixed_units_def nat_le_iff)
  moreover have "0 < (10 :: nat) ^ k" by simp
  ultimately have "fixed_units 0 x < 10 ^ k" by linarith
  with assms show ?thesis by (simp add: py_fixed_def fixed_frac_def length_digits)
qed

section \<open>The table of sources\<close>

text \<open>The two parts of \<open>human\<close>, as the report's pattern takes them apart.\<close>

definition human_unit :: "rat \<Rightarrow> string" where
  "human_unit x = (case find (\<lambda>(unit, d). \<bar>x\<bar> \<ge> d) HUMAN_UNITS of Some (unit, d) \<Rightarrow> unit | None \<Rightarrow> [])"

definition human_number :: "rat \<Rightarrow> string" where
  "human_number x =
     (if human_unit x = [] then py_fixed 0 (fl x) else py_fixed 1 (fl (fl x / unit_scale (human_unit x))))"

lemma human_unit_cases: "human_unit x \<in> {[], ''k'', ''M'', ''G''}"
  by (simp add: human_unit_def HUMAN_UNITS_def)

lemma human_split: "human x = human_number x @ human_unit x"
  by (simp add: human_def human_number_def human_unit_def HUMAN_UNITS_def unit_scale_def)

lemma human_number_chars:
  assumes "0 \<le> x"
  shows "human_number x \<noteq> []" "list_all (\<lambda>c. is_ascii_digit c \<or> c = CHR ''.'') (human_number x)"
proof -
  have nonneg: "0 \<le> fl x" "0 \<le> fl (fl x / unit_scale u)" for u using assms by (auto simp: unit_scale_def intro!: fl_nonneg)
  have "py_fixed k y \<noteq> []" "list_all (\<lambda>c. is_ascii_digit c \<or> c = CHR ''.'') (py_fixed k y)" if "0 \<le> y" for k y
    using that zfill_digits [OF digits_list_all] digits_list_all
    by (auto simp: py_fixed_def fixed_frac_def list_all_iff)
  with nonneg show "human_number x \<noteq> []" "list_all (\<lambda>c. is_ascii_digit c \<or> c = CHR ''.'') (human_number x)"
    by (auto simp: human_number_def)
qed

lemma human_number_value:
  assumes "0 \<le> x"
  shows "\<exists>d. py_float_of_str (human_number x) = Inr (fl d) \<and>
    \<bar>d - fl (fl x / unit_scale (human_unit x))\<bar> \<le> (if human_unit x = [] then 1 / 2 else 1 / 20)"
proof -
  have nonneg: "0 \<le> fl x" "0 \<le> fl (fl x / unit_scale u)" for u using assms by (auto simp: unit_scale_def intro!: fl_nonneg)
  have "fl (fl x) = fl x" by (rule fl_double [OF is_double_fl])
  then show ?thesis
    using float_of_fixed [OF nonneg(1), of 0] float_of_fixed [OF nonneg(2), of 1 "human_unit x"]
      fixed_units_near [of 0 "fl x"] fixed_units_near [of 1 "fl (fl x / unit_scale (human_unit x))"] nonneg
    by (cases "human_unit x = []") (auto simp: human_number_def unit_scale_def)
qed

text \<open>The measurements that fit the columns of the table.\<close>

definition row_fits :: "row \<Rightarrow> bool" where
  "row_fits r \<longleftrightarrow> 0 \<le> row_pps r \<and> 0 \<le> row_mean_len r \<and> row_mean_len r \<le> 999999 \<and>
     0 \<le> row_syn_ratio r \<and> row_syn_ratio r \<le> 1 \<and> 0 \<le> row_syn_fin_ratio r \<and>
     0 \<le> row_port_spread r \<and> row_port_spread r \<le> 64 \<and> 0 \<le> row_drop_ratio r \<and> row_drop_ratio r \<le> 1"

definition address_text :: "string \<Rightarrow> bool" where
  "address_text ip \<longleftrightarrow> length ip < 16 \<and> list_all (\<lambda>c. is_ascii_digit c \<or> c = CHR ''.'') ip"

lemma percent_column: "0 \<le> x \<Longrightarrow> x \<le> 1 \<Longrightarrow> number (py_fixed 0 (fl (x * 100))) \<and> length (py_fixed 0 (fl (x * 100))) < 7"
proof -
  assume x: "0 \<le> x" "x \<le> 1"
  have "fl (x * 100) \<le> 100" using fl_le_int [of 100 "x * 100"] x by simp
  then show ?thesis using x fixed_number [of "fl (x * 100)"] fixed_length [of "fl (x * 100)" 6] by simp
qed

lemma row_columns:
  assumes "row_fits r"
  shows "number (py_fixed 0 (row_mean_len r)) \<and> length (py_fixed 0 (row_mean_len r)) < 8"
    and "number (py_fixed 0 (fl (row_syn_ratio r * 100))) \<and> length (py_fixed 0 (fl (row_syn_ratio r * 100))) < 7"
    and "number (py_fixed 0 (min (row_syn_fin_ratio r) 999)) \<and> length (py_fixed 0 (min (row_syn_fin_ratio r) 999)) < 7"
    and "number (py_str_int (row_port_spread r)) \<and> length (py_str_int (row_port_spread r)) < 7"
    and "number (py_fixed 0 (fl (row_drop_ratio r * 100))) \<and> length (py_fixed 0 (fl (row_drop_ratio r * 100))) < 7"
proof -
  note f = assms [unfolded row_fits_def]
  show "number (py_fixed 0 (row_mean_len r)) \<and> length (py_fixed 0 (row_mean_len r)) < 8"
    using f fixed_number [of "row_mean_len r"] fixed_length [of "row_mean_len r" 6] by simp
  show "number (py_fixed 0 (min (row_syn_fin_ratio r) 999)) \<and> length (py_fixed 0 (min (row_syn_fin_ratio r) 999)) < 7"
    using f fixed_number [of "min (row_syn_fin_ratio r) 999"] fixed_length [of "min (row_syn_fin_ratio r) 999" 6]
    by (simp add: min_le_iff_disj)
  show "number (py_str_int (row_port_spread r)) \<and> length (py_str_int (row_port_spread r)) < 7"
  proof -
    have "nat (row_port_spread r) \<le> 64" using f by (simp add: nat_le_iff)
    then have "nat (row_port_spread r) < 10 ^ 2" by simp
    from length_digits [OF this] show ?thesis using f by (simp add: py_str_int_def number_def)
  qed
qed (use assms percent_column in \<open>auto simp: row_fits_def\<close>)

lemma eat_unit_blank: "u \<in> {[], ''k'', ''M'', ''G''} \<Longrightarrow> starts_blank s \<Longrightarrow> eat_unit (u @ s) = (u, s)"
  by (cases s) (auto simp: eat_unit_def starts_blank_def is_space_def code_def)

lemma eat_rate:
  assumes "0 \<le> x" "starts_blank s"
  shows "eat_some (\<lambda>c. is_ascii_digit c \<or> c = CHR ''.'') (human_number x @ human_unit x @ s) = Some (human_number x, human_unit x @ s)"
proof (rule eat_some_append)
  show "human_unit x @ s = [] \<or> \<not> (is_ascii_digit (hd (human_unit x @ s)) \<or> hd (human_unit x @ s) = CHR ''.'')"
    using human_unit_cases [of x] assms(2)
    by (auto simp: starts_blank_def is_ascii_digit_def is_space_def code_def)
qed (use human_number_chars [OF assms(1)] in auto)

text \<open>A line of the table without its colours; the status starts with a word.\<close>

definition plain_line :: "ip \<Rightarrow> row \<Rightarrow> string \<Rightarrow> string" where
  "plain_line ip r status =
     concat ['' '', py_ljust 16 ip, py_rjust 9 (human (row_pps r)), py_rjust 8 (py_fixed 0 (row_mean_len r)),
       py_rjust 7 (py_fixed 0 (fl (row_syn_ratio r * 100))), py_rjust 7 (py_fixed 0 (min (row_syn_fin_ratio r) 999)),
       py_rjust 7 (py_str_int (row_port_spread r)), py_rjust 7 (py_fixed 0 (fl (row_drop_ratio r * 100))), ''  '', status]"

lemma match_plain_line:
  assumes "address_text ip" "row_fits r" "word \<noteq> []" "list_all (\<lambda>c. \<not> is_space c) word" "rest = [] \<or> starts_blank rest"
  shows "match_seen ip (plain_line ip r (word @ rest)) =
    Some (\<lparr>seen_num = human_number (row_pps r), seen_unit = human_unit (row_pps r),
      seen_drop = py_fixed 0 (fl (row_drop_ratio r * 100)), seen_status = word\<rparr>, rest)"
proof -
  note c = row_columns [OF assms(2)]
  define tail where "tail = ''  '' @ word @ rest"
  define t5 where "t5 = py_rjust 7 (py_fixed 0 (fl (row_drop_ratio r * 100))) @ tail"
  define t4 where "t4 = py_rjust 7 (py_str_int (row_port_spread r)) @ t5"
  define t3 where "t3 = py_rjust 7 (py_fixed 0 (min (row_syn_fin_ratio r) 999)) @ t4"
  define t2 where "t2 = py_rjust 7 (py_fixed 0 (fl (row_syn_ratio r * 100))) @ t3"
  define t1 where "t1 = py_rjust 8 (py_fixed 0 (row_mean_len r)) @ t2"
  define n where "n = 16 - length ip + (9 - length (human (row_pps r)))"
  let ?rate = "human_number (row_pps r) @ human_unit (row_pps r) @ t1"
  have pps: "0 \<le> row_pps r" using assms(2) by (simp add: row_fits_def)
  have blank: "starts_blank tail" "starts_blank t5" "starts_blank t4" "starts_blank t3" "starts_blank t2" "starts_blank t1"
    using c by (simp_all add: t5_def t4_def t3_def t2_def t1_def rjust_starts_blank) (simp add: tail_def starts_blank_def)
  have line: "plain_line ip r (word @ rest) = ('' '' @ ip) @ replicate n (CHR '' '') @ ?rate"
    unfolding plain_line_def t1_def t2_def t3_def t4_def t5_def tail_def n_def replicate_add py_ljust_def
    by (simp add: py_rjust_def [of 9] human_split)
  have "?rate \<noteq> []" "\<not> is_space (hd ?rate)"
    using human_number_chars [OF pps]
    by (cases "human_number (row_pps r)"; auto simp: is_space_def code_def is_ascii_digit_def)+
  then have skip: "eat_some is_space (replicate n (CHR '' '') @ ?rate) = Some (replicate n (CHR '' ''), ?rate)"
    using assms(1) by (intro eat_blanks) (simp_all add: n_def address_text_def)
  have columns: "eat_column t1 = Some t2" "eat_column t2 = Some t3" "eat_column t3 = Some t4" "eat_column t4 = Some t5"
    using c blank by (simp_all add: t4_def t3_def t2_def t1_def eat_column_number)
  have drop: "eat_some is_space t5 = Some (replicate (7 - length (py_fixed 0 (fl (row_drop_ratio r * 100)))) (CHR '' ''),
      py_fixed 0 (fl (row_drop_ratio r * 100)) @ tail)"
    "eat_some is_ascii_digit (py_fixed 0 (fl (row_drop_ratio r * 100)) @ tail) = Some (py_fixed 0 (fl (row_drop_ratio r * 100)), tail)"
    using c(5) blank(1) by (simp_all add: t5_def eat_blank_number eat_number)
  have "eat_some is_space (replicate 2 (CHR '' '') @ word @ rest) = Some (replicate 2 (CHR '' ''), word @ rest)"
    using assms(3,4) by (intro eat_blanks) (cases word; simp)+
  then have gap: "eat_some is_space tail = Some (''  '', word @ rest)" by (simp add: tail_def numeral_2_eq_2)
  have status: "eat_some (\<lambda>c. \<not> is_space c) (word @ rest) = Some (word, rest)"
    using assms(3-5) by (intro eat_some_append) (auto simp: starts_blank_def)
  show ?thesis
    unfolding line match_seen_def eat_literal
    by (simp only: Option.bind.simps skip eat_rate [OF pps blank(6)] eat_unit_blank [OF human_unit_cases blank(6)] columns drop
        gap status prod.case option.map)
qed

text \<open>The status column: what is left of it without colours, by its first word.\<close>

lemma status_words:
  assumes "source_status os clk fw vs ip s = (Inr tag, s')" "dict_get vs ip None = classify r"
  shows "\<exists>word rest. strip_escapes 0 tag = word @ rest \<and> word \<noteq> [] \<and> list_all (\<lambda>c. \<not> is_space c) word \<and>
    (rest = [] \<or> starts_blank rest) \<and> (word = ''BLOCKED'' \<longleftrightarrow> tag = RED @ ''BLOCKED'' @ RESET)"
proof -
  let ?P = "\<lambda>word rest. strip_escapes 0 tag = word @ rest \<and> word \<noteq> [] \<and> list_all (\<lambda>c. \<not> is_space c) word \<and>
    (rest = [] \<or> starts_blank rest) \<and> (word = ''BLOCKED'' \<longleftrightarrow> tag = RED @ ''BLOCKED'' @ RESET)"
  note colours = RED_def GREEN_def YELLOW_def DIM_def ansi_def
  consider "tag = GREEN @ ''allowlisted'' @ RESET" | "tag = RED @ ''BLOCKED'' @ RESET" | "tag = YELLOW @ ''would be blocked'' @ RESET"
    | why n where "classify r = Some why" "tag = concat [YELLOW, why, RESET, '' '', DIM, ''['', py_str_int n, ''/'', py_str_int STRIKES, '']'', RESET]"
    | "tag = DIM @ ''ok'' @ RESET"
    using assms unfolding source_status_def
    by (auto simp: io_bind_Inr io_return_def io_self_def split: if_splits option.splits prod.splits)
  then show ?thesis
  proof cases
    case 1
    then have "?P ''allowlisted'' []" by (simp add: strip_plain is_space_def code_def)
    then show ?thesis by blast
  next
    case 2
    then have "?P ''BLOCKED'' []" by (simp add: strip_plain is_space_def code_def)
    then show ?thesis by blast
  next
    case 3
    then have "?P ''would'' '' be blocked''" by (simp add: strip_plain starts_blank_def is_space_def code_def)
    then show ?thesis by blast
  next
    case (4 why n)
    have num: "CHR 0x1B \<notin> set (py_str_int m)" for m
      using digits_plain(2) [OF digits_list_all] by (auto simp: py_str_int_def)
    define rest where "rest = '' ['' @ py_str_int n @ ''/'' @ py_str_int STRIKES @ '']''"
    have rest: "strip_escapes 0 ('' '' @ DIM @ ''['' @ py_str_int n @ ''/'' @ py_str_int STRIKES @ '']'' @ RESET) = rest" "starts_blank rest"
      by (simp_all add: rest_def strip_plain num del: append.simps) (simp_all add: strip_plain num starts_blank_def)
    have "why \<in> {''volumetric flood'', ''port scan'', ''syn flood'', ''icmp flood''}"
      using 4(1) by (auto simp: classify_def split: if_splits)
    then have "\<exists>(word, more) \<in> {(''volumetric'', '' flood''), (''port'', '' scan''), (''syn'', '' flood''), (''icmp'', '' flood'')}. why = word @ more"
      by auto
    then obtain word more where why: "why = word @ more" "(word, more) \<in> {(''volumetric'', '' flood''), (''port'', '' scan''), (''syn'', '' flood''), (''icmp'', '' flood'')}"
      by blast
    have "CHR 0x1B \<notin> set why" using why by auto
    then have "strip_escapes 0 tag = word @ more @ rest" using rest(1) why(1) by (simp add: 4(2) strip_plain)
    moreover have "tag \<noteq> RED @ ''BLOCKED'' @ RESET" by (simp add: 4(2) colours)
    ultimately have "?P word (more @ rest)" using why(2) by (auto simp: starts_blank_def is_space_def code_def)
    then show ?thesis by blast
  next
    case 5
    then have "?P ''ok'' []" by (simp add: strip_plain is_space_def code_def)
    then show ?thesis by blast
  qed
qed

lemma no_escapes:
  assumes "address_text ip" "row_fits r"
  shows "CHR 0x1B \<notin> set (plain_line ip r [])"
proof -
  have plain: "CHR 0x1B \<notin> set x" if "list_all (\<lambda>c. is_ascii_digit c \<or> c = CHR ''.'') x" for x
    using that by (auto simp: list_all_iff is_ascii_digit_def)
  have digits: "CHR 0x1B \<notin> set x" if "number x" for x
    using that by (intro plain) (auto simp: number_def list_all_iff)
  have "CHR 0x1B \<notin> set (human (row_pps r))"
    using plain [OF human_number_chars(2)] human_unit_cases [of "row_pps r"] assms(2) by (auto simp: human_split row_fits_def)
  moreover note digits [OF row_columns(1) [OF assms(2), THEN conjunct1]] digits [OF row_columns(2) [OF assms(2), THEN conjunct1]]
    digits [OF row_columns(3) [OF assms(2), THEN conjunct1]] digits [OF row_columns(4) [OF assms(2), THEN conjunct1]]
    digits [OF row_columns(5) [OF assms(2), THEN conjunct1]] plain [of ip]
  ultimately show ?thesis
    using assms(1) by (simp add: plain_line_def py_ljust_def py_rjust_def address_text_def)
qed

lemma strip_line:
  assumes "source_line os clk fw vs (ip, r) s = (Inr line, s')" "address_text ip" "row_fits r"
  shows "\<exists>tag. source_status os clk fw vs ip s = (Inr tag, s') \<and> strip_escapes 0 line = plain_line ip r (strip_escapes 0 tag)"
proof -
  obtain tag where tag: "source_status os clk fw vs ip s = (Inr tag, s')"
    and line: "line = plain_line ip r [] @ tag"
    using assms(1) by (auto simp: source_line_def io_bind_Inr io_return_def plain_line_def)
  have "plain_line ip r x = plain_line ip r [] @ x" for x by (simp add: plain_line_def)
  with strip_plain [OF no_escapes [OF assms(2,3)], of tag] tag line show ?thesis by metis
qed

lemma drop_column:
  assumes "row_fits r"
  shows "py_int_of_str (py_fixed 0 (fl (row_drop_ratio r * 100))) = Inr (round_even (fl (row_drop_ratio r * 100)))"
proof -
  let ?x = "fl (row_drop_ratio r * 100)"
  have x: "0 \<le> ?x" using assms by (simp add: row_fits_def)
  then have "0 \<le> round_even ?x" by (intro round_even_ge_of_int) simp
  then have "int (nat_of_digits (py_fixed 0 ?x)) = round_even ?x"
    using x by (simp add: py_fixed_def fixed_frac_def fixed_units_def)
  then show ?thesis
    using py_int_of_digits [of "py_fixed 0 ?x"] row_columns(5) [OF assms] by (simp add: number_def)
qed

section \<open>The notes of the blocker\<close>

lemma find_reasons_skip: "CHR ''B'' \<notin> set a \<Longrightarrow> find_reasons src 0 (a @ b) = find_reasons src 0 b"
  by (induction a) (auto simp: match_reason_def eat_def)

lemma find_reasons_drop: "length s \<le> n \<Longrightarrow> find_reasons src n s = []"
  by (induction s arbitrary: n) auto

definition block_note :: "ip \<Rightarrow> int \<Rightarrow> string \<Rightarrow> string" where
  "block_note ip d why = ''BLOCKED '' @ ip @ '' for '' @ py_str_int d @ ''s ('' @ why @ '')''"

lemma find_block_note:
  assumes "0 \<le> d" "why \<noteq> []" "CHR '')'' \<notin> set why"
  shows "find_reasons ip 0 (block_note ip d why) = [why]"
proof -
  have d: "py_str_int d = digits_of_nat (nat d)" using assms(1) by (simp add: py_str_int_def)
  have ds: "digits_of_nat (nat d) \<noteq> []" "list_all is_ascii_digit (digits_of_nat (nat d))" by simp_all
  have "eat_some is_ascii_digit (digits_of_nat (nat d) @ ''s ('' @ why @ '')'') = Some (digits_of_nat (nat d), ''s ('' @ why @ '')'')"
    by (rule eat_some_append [OF ds]) (simp add: is_ascii_digit_def)
  moreover have "eat_some (\<lambda>c. c \<noteq> CHR '')'') (why @ '')'') = Some (why, '')'')"
    by (rule eat_some_append) (use assms(2,3) in \<open>auto simp: list_all_iff\<close>)
  moreover have note': "block_note ip d why = (''BLOCKED '' @ ip @ '' for '') @ digits_of_nat (nat d) @ ''s ('' @ why @ '')''"
    by (simp add: block_note_def d)
  ultimately have m: "match_reason ip (block_note ip d why) = Some (why, [])"
    unfolding match_reason_def note' eat_literal by (simp only: Option.bind.simps prod.case eat_literal option.map) (simp add: eat_def)
  obtain c cs where cs: "block_note ip d why = c # cs" by (simp add: block_note_def)
  with m show ?thesis by (simp add: find_reasons_drop)
qed

lemma issued_note:
  assumes "issue_block env now ip why (b, w) = (Inr (), (b', w'))" "\<not> dry_run b"
  shows "\<exists>d \<in> set DURATIONS. \<exists>w1. last (log b') = (fst (env_strftime env w1), block_note ip d why)"
proof -
  let ?i = "min (dict_get (offences b) ip 0) (int (length DURATIONS) - 1)"
  obtain d x where d: "io_of (py_index DURATIONS ?i) (b, w) = (Inr d, x)"
    and "\<exists>y. blocker_note env (block_note ip d why) y = (Inr (), (b', w'))"
    using assms(1) unfolding issue_block_def Let_def io_seq_def io_bind_Inr
    by (auto simp: io_self_apply block_note_def assms(2)) blast
  then obtain bx wx where "blocker_note env (block_note ip d why) (bx, wx) = (Inr (), (b', w'))" by auto
  then have "log b' = deque_append 12 (log bx) (fst (env_strftime env wx), block_note ip d why)"
    by (auto simp: blocker_note_def io_simps)
  moreover have "d \<in> set DURATIONS"
    using d by (intro py_index_mem [of DURATIONS ?i]) (auto simp: io_simps)
  ultimately show ?thesis by (auto simp: last_deque_append)
qed

section \<open>Properties\<close>

text \<open>
  C35. The report reads back what the controller shows. For a source whose measurements fit the
  columns, \<open>from_log\<close> takes out of its line on the screen, colours and all: the number and the unit
  that \<open>human\<close> printed, which give the rate up to the last digit shown; the share dropped as a
  rounded percentage; and a status that is \<open>BLOCKED\<close> exactly when the controller said so.
\<close>

theorem report_reads_row:
  assumes "source_line os clk fw vs (ip, r) s = (Inr line, s')" "dict_get vs ip None = classify r"
    and "address_text ip" "row_fits r"
  shows "\<exists>seen rest d tag. match_seen ip (strip_escapes 0 line) = Some (seen, rest) \<and>
    seen_num seen @ seen_unit seen = human (row_pps r) \<and> py_float_of_str (seen_num seen) = Inr (fl d) \<and>
    \<bar>d - fl (fl (row_pps r) / unit_scale (seen_unit seen))\<bar> \<le> (if seen_unit seen = [] then 1 / 2 else 1 / 20) \<and>
    py_int_of_str (seen_drop seen) = Inr (round_even (fl (row_drop_ratio r * 100))) \<and>
    source_status os clk fw vs ip s = (Inr tag, s') \<and> (seen_status seen = ''BLOCKED'' \<longleftrightarrow> tag = RED @ ''BLOCKED'' @ RESET)"
proof -
  obtain tag where tag: "source_status os clk fw vs ip s = (Inr tag, s')" "strip_escapes 0 line = plain_line ip r (strip_escapes 0 tag)"
    using strip_line [OF assms(1,3,4)] by blast
  obtain word rest where w: "strip_escapes 0 tag = word @ rest" "word \<noteq> []" "list_all (\<lambda>c. \<not> is_space c) word"
    "rest = [] \<or> starts_blank rest" "word = ''BLOCKED'' \<longleftrightarrow> tag = RED @ ''BLOCKED'' @ RESET"
    using status_words [OF tag(1) assms(2)] by blast
  have pps: "0 \<le> row_pps r" using assms(4) by (simp add: row_fits_def)
  obtain d where d: "py_float_of_str (human_number (row_pps r)) = Inr (fl d)"
    "\<bar>d - fl (fl (row_pps r) / unit_scale (human_unit (row_pps r)))\<bar> \<le> (if human_unit (row_pps r) = [] then 1 / 2 else 1 / 20)"
    using human_number_value [OF pps] by blast
  let ?seen = "\<lparr>seen_num = human_number (row_pps r), seen_unit = human_unit (row_pps r),
    seen_drop = py_fixed 0 (fl (row_drop_ratio r * 100)), seen_status = word\<rparr>"
  have "match_seen ip (strip_escapes 0 line) = Some (?seen, rest)"
    unfolding tag(2) w(1) by (rule match_plain_line [OF assms(3,4) w(2-4)])
  with d w(5) tag(1) drop_column [OF assms(4)] show ?thesis
    by (intro exI [of _ ?seen] exI [of _ rest] exI [of _ d] exI [of _ tag]) (simp add: human_split)
qed

definition demo_verdicts :: verdicts where
  "demo_verdicts = [(quad [10, 1, 2, 3], Some ''volumetric flood'')]"

lemma demo_text: "quad [10, 1, 2, 3] = ''10.1.2.3''"
  by code_simp

lemma demo_flagged: "classify demo_row = Some ''volumetric flood''" "row_fits demo_row" "address_text (quad [10, 1, 2, 3])"
  by (simp_all add: classify_def demo_row_def FLOOD_PPS_def SMALL_PKT_def row_fits_def)
    (simp add: demo_text address_text_def is_ascii_digit_def)

lemma demo_line:
  "\<exists>line s'. source_line ref_os ref_clk ref_fw demo_verdicts (quad [10, 1, 2, 3], demo_row) (demo_ctl, boot_kernel) = (Inr line, s')"
proof -
  obtain r1 w1 where a: "fw_is_allowed ref_os ref_fw (quad [10, 1, 2, 3]) boot_kernel = (r1, w1)" by fastforce
  have "r1 = Inr False" using not_allowed_empty [OF boot_kernel_ok, of "[10, 1, 2, 3]"] a by (simp add: boot_views)
  moreover have w1: "kernel_ok w1" "ref_view w1 4 = []"
    using rf.is_allowed_run [OF boot_kernel_ok a] by (auto simp: boot_views)
  obtain r2 w2 where b: "fw_is_blocked ref_os ref_fw (quad [10, 1, 2, 3]) w1 = (r2, w2)" by fastforce
  have "r2 = Inr False" using not_blocked_empty [OF w1, of "[10, 1, 2, 3]"] b by simp
  ultimately show ?thesis
    using a b by (simp add: source_line_def source_status_def io_simps with_blocker_def blocker_is_blocked_def
        demo_verdicts_def dict_get_Cons split: prod.splits)
qed

theorem report_reads_row_witness:
  "\<exists>line s' seen rest. source_line ref_os ref_clk ref_fw demo_verdicts (quad [10, 1, 2, 3], demo_row) (demo_ctl, boot_kernel) = (Inr line, s') \<and>
     match_seen (quad [10, 1, 2, 3]) (strip_escapes 0 line) = Some (seen, rest) \<and> seen_num seen @ seen_unit seen = human 20000"
proof -
  obtain line s' where l: "source_line ref_os ref_clk ref_fw demo_verdicts (quad [10, 1, 2, 3], demo_row) (demo_ctl, boot_kernel) = (Inr line, s')"
    using demo_line by blast
  have "dict_get demo_verdicts (quad [10, 1, 2, 3]) None = classify demo_row" by (simp add: demo_verdicts_def dict_get_Cons demo_flagged)
  from report_reads_row [OF l this demo_flagged(3,2)] l show ?thesis by (auto simp: demo_row_def)
qed

text \<open>
  And it reads why. The note that \<open>Blocker.update\<close> leaves for a source it blocks, as the screen
  shows it, yields exactly the reason that \<open>classify\<close> gave.
\<close>

theorem report_reads_reason:
  assumes "issue_block env now ip why (b, w) = (Inr (), (b', w'))" "\<not> dry_run b" "classify r = Some why" "address_text ip"
    and "\<And>w. list_all (\<lambda>c. is_ascii_digit c \<or> c = CHR '':'') (fst (env_strftime env w))"
  shows "find_reasons ip 0 (strip_escapes 0 (log_line (last (log b')))) = [why]"
proof -
  obtain d w1 where note': "d \<in> set DURATIONS" "last (log b') = (fst (env_strftime env w1), block_note ip d why)"
    using issued_note [OF assms(1,2)] by blast
  let ?ts = "fst (env_strftime env w1)"
  have ts: "CHR 0x1B \<notin> set ?ts" "CHR ''B'' \<notin> set ?ts"
    using assms(5) [of w1] by (auto simp: list_all_iff is_ascii_digit_def)
  have why: "why \<noteq> []" "CHR '')'' \<notin> set why" "CHR 0x1B \<notin> set why"
    using assms(3) by (auto simp: classify_def split: if_splits)
  have d: "0 \<le> d" using note'(1) by (auto simp: DURATIONS_def)
  have "CHR 0x1B \<notin> set (py_str_int d)" using digits_plain(2) [OF digits_list_all] by (auto simp: py_str_int_def)
  moreover have "CHR 0x1B \<notin> set ip" using assms(4) by (auto simp: address_text_def list_all_iff is_ascii_digit_def)
  ultimately have "CHR 0x1B \<notin> set (block_note ip d why)" using why by (simp add: block_note_def)
  then have "strip_escapes 0 (log_line (last (log b'))) = (''   '' @ ?ts @ ''  '') @ block_note ip d why"
    using ts by (simp add: log_line_def note'(2) strip_plain strip_plain_id)
  moreover have "find_reasons ip 0 ((''   '' @ ?ts @ ''  '') @ block_note ip d why) = find_reasons ip 0 (block_note ip d why)"
    by (rule find_reasons_skip) (use ts in simp)
  ultimately show ?thesis using find_block_note [OF d why(1,2), of ip] by (simp del: append_assoc)
qed

text \<open>A firewall that is always there, at a fixed time.\<close>

definition calm_env :: "unit blk_env" where
  "calm_env = \<lparr>env_time = (\<lambda>w. (0, w)), env_strftime = (\<lambda>w. (''12:00:00'', w)),
     env_is_allowed = (\<lambda>ip w. (Inr False, w)), env_block = (\<lambda>ip d reason w. (Inr (), w))\<rparr>"

theorem report_reads_reason_witness:
  "\<exists>b'. issue_block calm_env 0 ''10.1.2.3'' ''volumetric flood'' (add_strike ''10.1.2.3'' (blocker_init False), ()) = (Inr (), (b', ())) \<and>
     find_reasons ''10.1.2.3'' 0 (strip_escapes 0 (log_line (last (log b')))) = [''volumetric flood'']"
proof -
  let ?b = "add_strike ''10.1.2.3'' (blocker_init False)"
  have "\<exists>b'. issue_block calm_env 0 ''10.1.2.3'' ''volumetric flood'' (?b, ()) = (Inr (), (b', ()))"
    by (simp add: issue_block_def io_simps Let_def calm_env_def blocker_note_def pop_after_strike add_strike_def blocker_init_def
        DURATIONS_def py_index_def dict_get_def pop_strikes_def)
  then obtain b' where b': "issue_block calm_env 0 ''10.1.2.3'' ''volumetric flood'' (?b, ()) = (Inr (), (b', ()))" by blast
  have "\<not> dry_run ?b" by (simp add: blocker_init_def)
  from report_reads_reason [OF b' this demo_flagged(1) demo_flagged(3) [unfolded demo_text]] b' show ?thesis
    by (auto simp: calm_env_def is_ascii_digit_def)
qed

end
