(* ===== verification/Bench_Clients.thy ===== *)
theory Bench_Clients
  imports Bench_Eval Controller Xdp_Props "HOL-Library.Char_ord"
begin

text \<open>
  \<open>bench/clients.py\<close>: the schedule of the clients that call something at fixed times, the pacing of
  the UDP client, the ports of the services client, and the watcher, which records the firewall's
  state for the report. What is here is when something is sent and what is written to the file;
  \<open>Bench_Net\<close> has the sockets.
\<close>

section \<open>Calls on a schedule\<close>

text \<open>
  The loop of \<open>every\<close>: the numbers of the calls and the times at which they are due. The loop runs
  until a due time is not before the end, which is not sure to happen; \<open>None\<close> means that \<open>fuel\<close>
  turns were not enough.
\<close>

definition due_time :: "rat \<Rightarrow> rat \<Rightarrow> nat \<Rightarrow> rat" where
  "due_time start interval i = fl (start + fl (of_nat i * interval))"

fun every_loop :: "nat \<Rightarrow> rat \<Rightarrow> rat \<Rightarrow> rat \<Rightarrow> nat \<Rightarrow> (nat \<times> rat) list option" where
  "every_loop 0 start interval seconds i = None"
| "every_loop (Suc fuel) start interval seconds i =
     (let due = due_time start interval i in
      if due < fl (start + seconds)
      then map_option ((#) (i, due)) (every_loop fuel start interval seconds (i + 1))
      else Some [])"

definition every :: "nat \<Rightarrow> rat \<Rightarrow> rat \<Rightarrow> rat \<Rightarrow> (nat \<times> rat) list option" where
  "every fuel start interval seconds = every_loop fuel start interval seconds 0"

text \<open>How long the loop sleeps before a call that is due, by the clock at that moment.\<close>

definition every_sleep :: "rat \<Rightarrow> rat \<Rightarrow> rat" where
  "every_sleep due now = max 0 (fl (due - now))"

section \<open>The probe\<close>

text \<open>
  The row of request \<open>i\<close>: its scheduled time, whether it was answered and how long it took.
  \<open>answer i\<close> is what the request returned, \<open>None\<close> when it raised an \<open>OSError\<close>.
\<close>

type_synonym probe_row = "string \<times> nat \<times> rat option"

definition probe_one :: "rat \<Rightarrow> (nat \<Rightarrow> rat option) \<Rightarrow> nat \<Rightarrow> probe_row" where
  "probe_one t0 answer i =
     (py_fixed 2 (fl (t0 + fl (of_nat i / 10))),
      case answer i of
        Some ms \<Rightarrow> (1, Some (fl (of_int (round_even (ms * 100)) / 100)))
      | None \<Rightarrow> (0, None))"

text \<open>
  The file, given the requests in the order in which they finished. \<open>sorted\<close> compares the columns
  from left to right: a stable sort by each, the last one first.
\<close>

definition probe_log :: "rat \<Rightarrow> (nat \<Rightarrow> rat option) \<Rightarrow> nat list \<Rightarrow> probe_row list" where
  "probe_log t0 answer finished =
     sort_key fst (sort_key (fst \<circ> snd)
       (sort_key (\<lambda>r. case snd (snd r) of Some ms \<Rightarrow> ms | None \<Rightarrow> 0) (map (probe_one t0 answer) finished)))"

section \<open>The UDP client\<close>

text \<open>
  One turn sends what is due since the start and not yet sent; \<open>n\<close> is the number sent so far. The
  clock is given by its readings, one per turn.
\<close>

definition udp_due :: "rat \<Rightarrow> int \<Rightarrow> rat \<Rightarrow> int" where
  "udp_due start pps now = trunc_rat (fl (fl (now - start) * fl (of_int pps)))"

text \<open>The inner loop: the new \<open>n\<close> and the number of datagrams.\<close>

function udp_batch :: "int \<Rightarrow> int \<Rightarrow> int \<times> nat" where
  "udp_batch due n = (if n < due then case udp_batch due (n + 1) of (n', k) \<Rightarrow> (n', Suc k) else (n, 0))"
  by pat_completeness auto
termination by (relation "measure (\<lambda>(due, n). nat (due - n))") auto

declare udp_batch.simps [simp del]

text \<open>What each turn did: the reading of the clock, the datagrams it sent and the total.\<close>

fun udp_loop :: "rat \<Rightarrow> rat \<Rightarrow> int \<Rightarrow> int \<Rightarrow> rat list \<Rightarrow> (rat \<times> nat \<times> int) list" where
  "udp_loop start seconds pps n [] = []"
| "udp_loop start seconds pps n (now # clock) =
     (if now < fl (start + seconds)
      then case udp_batch (udp_due start pps now) n of (n', k) \<Rightarrow> (now, k, n') # udp_loop start seconds pps n' clock
      else [])"

section \<open>The services client\<close>

definition service_port :: "nat \<Rightarrow> nat" where
  "service_port i = 9001 + i mod 30"

section \<open>The watcher\<close>

definition watch_row :: "'w os \<Rightarrow> 'w clocks \<Rightarrow> firewall \<Rightarrow> ('w, csv_row) io" where
  "watch_row os clk fw =
     io_bind (io_read (clk_time clk)) (\<lambda>t.
     io_bind (fw_read_config os fw) (\<lambda>cfg.
     io_bind (io_of (dict_index cfg ''aggressiveness'')) (\<lambda>tier.
     io_bind (fw_list_blocked os fw False) (\<lambda>blocked.
     io_return [(''time'', py_fixed 2 t), (''tier'', py_str_int tier), (''blocked'', py_join '' '' (map be_cidr blocked))]))))"

text \<open>
  The loop writes a row and sleeps until the end has come; the state carries the rows written. At most
  \<open>n\<close> rows are considered.
\<close>

fun watch_loop :: "nat \<Rightarrow> 'w os \<Rightarrow> 'w clocks \<Rightarrow> firewall \<Rightarrow> rat \<Rightarrow> (csv_row list \<times> 'w, unit) io" where
  "watch_loop 0 os clk fw fin = io_return ()"
| "watch_loop (Suc n) os clk fw fin =
     io_bind (io_outer (io_read (clk_time clk))) (\<lambda>now.
     if now < fin then
       io_bind (io_outer (watch_row os clk fw)) (\<lambda>row.
       io_seq (io_modify (\<lambda>rows. rows @ [row]))
      (io_seq (io_outer (io_read (\<lambda>w. ((), clk_sleep clk (1 / 4) w))))
      (watch_loop n os clk fw fin)))
     else io_return ())"

definition clients_watch :: "nat \<Rightarrow> 'w os \<Rightarrow> 'w clocks \<Rightarrow> rat \<Rightarrow> (csv_row list \<times> 'w, unit) io" where
  "clients_watch n os clk seconds =
     io_bind (io_outer (firewall_open os PIN_DIR)) (\<lambda>fw.
     io_bind (io_outer (io_read (clk_time clk))) (\<lambda>now.
     watch_loop n os clk fw (fl (now + seconds))))"

section \<open>Schedules end\<close>

lemma due_mono: "0 \<le> interval \<Longrightarrow> i \<le> j \<Longrightarrow> due_time start interval i \<le> due_time start interval j"
  unfolding due_time_def by (intro fl_mono add_left_mono mult_right_mono) simp_all

lemma due_reached:
  assumes "is_double seconds" "seconds \<le> of_nat n * interval"
  shows "fl (start + seconds) \<le> due_time start interval n"
proof -
  have "seconds \<le> fl (of_nat n * interval)" using fl_mono [OF assms(2)] fl_double [OF assms(1)] by simp
  then show ?thesis unfolding due_time_def by (intro fl_mono) simp
qed

lemma every_loop_ends:
  assumes "is_double seconds" "seconds \<le> of_nat n * interval" "i \<le> n"
  shows "\<exists>m. i \<le> m \<and> m \<le> n \<and> every_loop (Suc (n - i)) start interval seconds i =
    Some (map (\<lambda>j. (j, due_time start interval j)) [i..<m]) \<and> (\<forall>j \<in> {i..<m}. due_time start interval j < fl (start + seconds)) \<and>
    fl (start + seconds) \<le> due_time start interval m"
  using assms(3)
proof (induction "n - i" arbitrary: i)
  case 0
  then have "i = n" by simp
  with due_reached [OF assms(1,2), of start] show ?case by (intro exI [of _ n]) simp
next
  case (Suc k)
  show ?case
  proof (cases "due_time start interval i < fl (start + seconds)")
    case True
    have k: "k = n - (i + 1)" "i + 1 \<le> n" "Suc (n - i) = Suc (Suc (n - (i + 1)))" using Suc by auto
    from Suc(1) [OF k(1,2)] obtain m where m: "i + 1 \<le> m" "m \<le> n"
      "every_loop (Suc (n - (i + 1))) start interval seconds (i + 1) = Some (map (\<lambda>j. (j, due_time start interval j)) [i + 1..<m])"
      "\<forall>j \<in> {i + 1..<m}. due_time start interval j < fl (start + seconds)" "fl (start + seconds) \<le> due_time start interval m" by blast
    have "[i..<m] = i # [i + 1..<m]" using m(1) by (simp add: upt_conv_Cons)
    moreover have "due_time start interval j < fl (start + seconds)" if "j \<in> {i..<m}" for j
      using that m(4) True by (cases "j = i") auto
    ultimately show ?thesis
      using m True by (intro exI [of _ m]) (simp only: k(3) every_loop.simps(2) Let_def if_True option.map list.map, simp)
  next
    case False
    then show ?thesis using Suc(3) by (intro exI [of _ i]) simp
  qed
qed

section \<open>Pacing\<close>

lemma udp_batch_result: "udp_batch due n = (max n due, nat (due - n))"
proof (induction due n rule: udp_batch.induct)
  case (1 due n)
  then show ?case by (cases "n < due") (simp_all add: udp_batch.simps [of due n] max_def Suc_nat_eq_nat_zadd1)
qed

lemma trunc_mono: "p \<le> q \<Longrightarrow> trunc_rat p \<le> trunc_rat q"
  by (cases "p < 0 \<and> 0 \<le> q") (auto simp: trunc_rat_def ceiling_mono floor_mono intro: order_trans [of _ 0])

lemma udp_due_mono:
  assumes "0 \<le> pps" "now \<le> now'"
  shows "udp_due start pps now \<le> udp_due start pps now'"
proof -
  have "fl (now - start) \<le> fl (now' - start)" using assms(2) by (intro fl_mono) simp
  then have "fl (now - start) * fl (of_int pps) \<le> fl (now' - start) * fl (of_int pps)" using assms(1) by (intro mult_right_mono) simp_all
  then show ?thesis unfolding udp_due_def by (intro trunc_mono fl_mono)
qed

lemma udp_due_start: "0 \<le> pps \<Longrightarrow> start \<le> now \<Longrightarrow> 0 \<le> udp_due start pps now"
  using udp_due_mono [of pps start now start] by (simp add: udp_due_def trunc_rat_def)

lemma udp_loop_paced:
  assumes "0 \<le> pps" "sorted clock" "\<And>now. now \<in> set clock \<Longrightarrow> n \<le> udp_due start pps now"
  shows "\<forall>i < length (udp_loop start seconds pps n clock).
    fst (udp_loop start seconds pps n clock ! i) = clock ! i \<and> clock ! i < fl (start + seconds) \<and>
    snd (snd (udp_loop start seconds pps n clock ! i)) = udp_due start pps (clock ! i) \<and>
    n + sum_list (map (int \<circ> fst \<circ> snd) (take (Suc i) (udp_loop start seconds pps n clock))) = udp_due start pps (clock ! i)"
  using assms(2,3)
proof (induction clock arbitrary: n)
  case (Cons now clock)
  show ?case
  proof (cases "now < fl (start + seconds)")
    case True
    let ?d = "udp_due start pps now"
    have n: "n \<le> ?d" using Cons.prems(2) by simp
    have b: "udp_batch ?d n = (?d, nat (?d - n))" using n by (simp add: udp_batch_result)
    have "?d \<le> udp_due start pps t" if "t \<in> set clock" for t
      using udp_due_mono [OF assms(1)] Cons.prems(1) that by simp
    then have IH: "\<forall>i < length (udp_loop start seconds pps ?d clock).
        fst (udp_loop start seconds pps ?d clock ! i) = clock ! i \<and> clock ! i < fl (start + seconds) \<and>
        snd (snd (udp_loop start seconds pps ?d clock ! i)) = udp_due start pps (clock ! i) \<and>
        ?d + sum_list (map (int \<circ> fst \<circ> snd) (take (Suc i) (udp_loop start seconds pps ?d clock))) = udp_due start pps (clock ! i)"
      using Cons.prems(1) by (intro Cons.IH) simp_all
    show ?thesis
    proof (intro allI impI)
      fix i
      assume i: "i < length (udp_loop start seconds pps n (now # clock))"
      show "fst (udp_loop start seconds pps n (now # clock) ! i) = (now # clock) ! i \<and> (now # clock) ! i < fl (start + seconds) \<and>
        snd (snd (udp_loop start seconds pps n (now # clock) ! i)) = udp_due start pps ((now # clock) ! i) \<and>
        n + sum_list (map (int \<circ> fst \<circ> snd) (take (Suc i) (udp_loop start seconds pps n (now # clock)))) =
          udp_due start pps ((now # clock) ! i)"
        using IH Cons.prems(1) True b n i by (cases i) (auto simp: comp_def)
    qed
  qed simp
qed simp

section \<open>The watcher's rows in the report\<close>

lemma words_word: "(\<And>c. c \<in> set x \<Longrightarrow> \<not> is_space c) \<Longrightarrow> words_from word (x @ rest) = words_from (word @ x) rest"
  by (induction x arbitrary: word) auto

lemma words_join:
  "(\<And>x. x \<in> set xs \<Longrightarrow> x \<noteq> [] \<and> (\<forall>c \<in> set x. \<not> is_space c)) \<Longrightarrow> words_from [] (py_join '' '' xs) = xs"
proof (induction "'' ''" xs rule: py_join.induct)
  case (2 p)
  then show ?case using words_word [of p "[]" "[]"] by simp
next
  case (3 p q ps)
  have p: "p \<noteq> []" "\<And>c. c \<in> set p \<Longrightarrow> \<not> is_space c" using 3(2) [of p] by auto
  have "is_space (CHR '' '')" by (simp add: is_space_def code_def)
  then have "words_from [] (py_join '' '' (p # q # ps)) = p # words_from [] (py_join '' '' (q # ps))"
    using words_word [OF p(2), where word = "[]"] p(1) by simp
  moreover have "words_from [] (py_join '' '' (q # ps)) = q # ps" by (rule 3(1)) (use 3(2) in \<open>auto simp del: py_join.simps\<close>)
  ultimately show ?case by simp
qed simp

lemma host_network: "length a = 4 \<Longrightarrow> lpm_network (host_key a) = \<lparr>network_address = unpacked a, prefixlen = 32\<rparr>"
  by (simp add: host_key_def lpm_network_def le_int_le_bytes)

lemma host_text:
  assumes "length a = 4"
  shows "show_network (lpm_network (host_key a)) = quad a @ ''/32''"
proof -
  have "digits_of_nat 32 = ''32''" by code_simp
  then show ?thesis using assms by (simp add: host_network show_network_def)
qed

lemma host_text_iff:
  assumes "length a = 4" "length k = 8" "network_ok (lpm_network k)"
  shows "show_network (lpm_network k) = quad a @ ''/32'' \<longleftrightarrow> k = host_key a"
proof
  assume "show_network (lpm_network k) = quad a @ ''/32''"
  then have "show_network (lpm_network k) = show_network (lpm_network (host_key a))" using host_text [OF assms(1)] by simp
  moreover have "network_ok (lpm_network (host_key a))" using assms(1) by (simp add: host_network network_ok_def)
  ultimately have "lpm_network k = lpm_network (host_key a)" using assms(3) by (metis parse_show_network Inr_inject)
  then show "k = host_key a"
    using lpm_bytes_network [OF assms(2)] lpm_bytes_network [of "host_key a"] assms(1) by (simp add: host_key_def)
qed (simp add: host_text assms(1))

context ctl_kernel
begin

text \<open>The watcher's row holds the time of its first reading and the prefixes in force.\<close>

lemma watch_row_run:
  assumes "inv w" "clk_time clk w = (t, w0)" "w1 = snd (fw_read_config os fw w0)" "now = fst (os_ktime os w1)"
    and "watch_row os clk fw w = (r, w')"
  shows "inv w' \<and> view w' = view w \<and> (\<exists>tier. r = Inr [(''time'', py_fixed 2 t), (''tier'', py_str_int tier),
    (''blocked'', py_join '' '' (map (\<lambda>(k, v). show_network (lpm_network k)) (filter (\<lambda>(k, v). in_force now v) (block_entries w))))])"
proof -
  note w0 = wall_frame [OF assms(1,2)]
  obtain rc w1' where c: "fw_read_config os fw w0 = (rc, w1')" by fastforce
  note w1 = read_config_run [OF conjunct1 [OF w0] c]
  have w1': "w1' = w1" using c assms(3) by simp
  obtain now' w2 where k: "os_ktime os w1 = (now', w2)" by fastforce
  have now: "now' = now" using k assms(4) by simp
  obtain rb w3 where b: "fw_list_blocked os fw False w1 = (rb, w3)" by fastforce
  note w3 = list_blocked_run [OF _ k [unfolded now] b]
  obtain tier where "dict_index (settings w0) ''aggressiveness'' = Inr tier"
    using settings_keys [of w0] by (auto simp: settings_def CONFIG_FIELDS_def dict_index_def)
  with w0 w1 w3 c b w1' assms(2,5) show ?thesis by (auto simp: watch_row_def io_simps)
qed

lemma watch_row_seen:
  assumes "inv w" "clk_time clk w = (t, w0)" "0 \<le> t" "length a = 4"
    and "w1 = snd (fw_read_config os fw w0)" "now = fst (os_ktime os w1)"
    and "watch_row os clk fw w = (r, w')"
  shows "\<exists>row. r = Inr row \<and> scan_blocked start (quad a @ ''/32'') (row # rows) =
    (if \<exists>v. (host_key a, v) \<in> set (block_entries w) \<and> in_force now v
     then Inr (Some (fl (fl (of_nat (fixed_units 2 t) / 100) - start)))
     else scan_blocked start (quad a @ ''/32'') rows)"
proof -
  let ?ws = "map (\<lambda>(k, v). show_network (lpm_network k)) (filter (\<lambda>(k, v). in_force now v) (block_entries w))"
  obtain tier where r: "r = Inr [(''time'', py_fixed 2 t), (''tier'', py_str_int tier), (''blocked'', py_join '' '' ?ws)]"
    using watch_row_run [OF assms(1,2,5,6,7)] by blast
  have "words_from [] (py_join '' '' ?ws) = ?ws"
    by (rule words_join) (auto simp: show_network_plain, simp add: show_network_def)
  moreover have "quad a @ ''/32'' \<in> set ?ws \<longleftrightarrow> (\<exists>v. (host_key a, v) \<in> set (block_entries w) \<and> in_force now v)"
  proof -
    have "show_network (lpm_network k) = quad a @ ''/32'' \<longleftrightarrow> k = host_key a" if "(k, v) \<in> set (block_entries w)" for k v
      using host_text_iff [OF assms(4)] block_keys(3,4) [OF assms(1) that] by blast
    then show ?thesis by (force simp: image_iff)
  qed
  ultimately show ?thesis
    using float_of_fixed [OF assms(3), of 2] unfolding r by (auto simp: dict_index_def float_field_def)
qed

end

section \<open>Times as text\<close>

text \<open>Numbers of the same length are ordered as texts as they are as numbers.\<close>

lemma nat_of_digits_Cons: "nat_of_digits (c # s) = digit_value c * 10 ^ length s + nat_of_digits s"
  using nat_of_digits_append [of "[c]" s] nat_of_digits_snoc [of "[]" c] by simp

lemma nat_of_digits_less: "list_all is_ascii_digit s \<Longrightarrow> nat_of_digits s < 10 ^ length s"
proof (induction s)
  case (Cons c s)
  have "of_char c \<le> (57 :: nat)" using Cons.prems by (simp add: is_ascii_digit_def)
  then have "digit_value c \<le> 9" unfolding digit_value_def by linarith
  then have "digit_value c * 10 ^ length s \<le> 9 * 10 ^ length s" by simp
  moreover have "nat_of_digits s < 10 ^ length s" using Cons by simp
  ultimately have "digit_value c * 10 ^ length s + nat_of_digits s < 10 * 10 ^ length s" by linarith
  then show ?case by (simp add: nat_of_digits_Cons)
qed simp

lemma digits_text_less:
  "length s = length t \<Longrightarrow> list_all is_ascii_digit s \<Longrightarrow> list_all is_ascii_digit t \<Longrightarrow>
   nat_of_digits s < nat_of_digits t \<Longrightarrow> s < t"
proof (induction s t rule: list_induct2)
  case (Cons c s d t)
  show ?case
  proof (cases "digit_value c" "digit_value d" rule: linorder_cases)
    case less
    then have "c < d" by (simp add: digit_value_def less_char_def)
    then show ?thesis by simp
  next
    case equal
    moreover have "48 \<le> (of_char c :: nat)" "48 \<le> (of_char d :: nat)" using Cons.prems by (simp_all add: is_ascii_digit_def)
    ultimately have "(of_char c :: nat) = of_char d" unfolding digit_value_def by linarith
    then have "c = d" by (simp only: of_char_eq_iff)
    with Cons equal show ?thesis by (simp add: nat_of_digits_Cons)
  next
    case greater
    then have "(digit_value d + 1) * 10 ^ length t \<le> digit_value c * 10 ^ length t" by (intro mult_right_mono) simp_all
    then have "nat_of_digits (d # t) \<le> nat_of_digits (c # s)"
      using nat_of_digits_less [of t] Cons.prems Cons.hyps by (simp add: nat_of_digits_Cons algebra_simps)
    with Cons.prems show ?thesis by simp
  qed
qed simp

lemma text_append_less:
  assumes "length (s :: string) = length t"
  shows "s < t \<Longrightarrow> s @ u < t @ v" "u < v \<Longrightarrow> s @ u < s @ v"
  using assms by (auto simp: list_less_def intro: lexord_sufI lexord_append_leftI)

lemma div_mod_less: "(a :: nat) < b \<Longrightarrow> a div m < b div m \<or> a div m = b div m \<and> a mod m < b mod m"
proof -
  assume "a < b"
  then have "a div m * m + a mod m < b div m * m + b mod m" by (simp only: div_mult_mod_eq)
  moreover have "a div m \<le> b div m" using \<open>a < b\<close> by (intro div_le_mono) simp
  ultimately show ?thesis by (cases "a div m = b div m") (simp_all only: nat_add_left_cancel_less, simp_all)
qed

lemma length_digits_ge: "10 ^ k \<le> n \<Longrightarrow> Suc k \<le> length (digits_of_nat n)"
proof (rule ccontr)
  assume n: "10 ^ k \<le> n" "\<not> Suc k \<le> length (digits_of_nat n)"
  have "n < 10 ^ length (digits_of_nat n)"
    using nat_of_digits_less [of "digits_of_nat n"] by (simp add: list_all_iff digits_of_nat_digits)
  also have "\<dots> \<le> 10 ^ k" using n(2) by (intro power_increasing) simp_all
  finally show False using n(1) by simp
qed

text \<open>Between the years 2001 and 2286 the integer part of the time has ten digits.\<close>

lemma fixed_text_less:
  assumes "10 ^ 9 \<le> x" "x \<le> 10 ^ 10 - 1" "10 ^ 9 \<le> y" "y \<le> 10 ^ 10 - 1" "fixed_units 2 x < fixed_units 2 y"
  shows "py_fixed 2 x < py_fixed 2 y"
proof -
  have ten: "length (digits_of_nat (fixed_units 2 z div 100)) = 10" if z: "10 ^ 9 \<le> z" "z \<le> 10 ^ 10 - 1" for z
  proof -
    have "of_int (10 ^ 11) \<le> \<bar>z\<bar> * 10\<^sup>2" "\<bar>z\<bar> * 10\<^sup>2 \<le> of_int (10 ^ 12 - 100)" using z by simp_all
    from round_even_ge_of_int [OF this(1)] round_even_le_of_int [OF this(2)]
    have "10 ^ 9 \<le> fixed_units 2 z div 100" "fixed_units 2 z div 100 < 10 ^ 10" by (simp_all add: fixed_units_def)
    from length_digits_ge [OF this(1)] length_digits [OF this(2)] show ?thesis by simp
  qed
  have frac: "length (zfill 2 (digits_of_nat (u mod 100))) = 2" for u
    using length_digits [of "u mod 100" 2] by (simp add: length_zfill)
  have digits: "list_all is_ascii_digit (digits_of_nat n)" for n by (simp add: list_all_iff digits_of_nat_digits)
  consider "fixed_units 2 x div 100 < fixed_units 2 y div 100"
    | "fixed_units 2 x div 100 = fixed_units 2 y div 100" "fixed_units 2 x mod 100 < fixed_units 2 y mod 100"
    using div_mod_less [OF assms(5)] by blast
  then show ?thesis
  proof cases
    case 1
    then have "digits_of_nat (fixed_units 2 x div 100) < digits_of_nat (fixed_units 2 y div 100)"
      using ten assms digits by (intro digits_text_less) simp_all
    then show ?thesis using ten assms by (auto simp: py_fixed_def intro: text_append_less(1))
  next
    case 2
    then have "zfill 2 (digits_of_nat (fixed_units 2 x mod 100)) < zfill 2 (digits_of_nat (fixed_units 2 y mod 100))"
      using frac digits by (intro digits_text_less) (simp_all add: zfill_digits nat_of_zfill)
    then show ?thesis using 2(1) assms by (auto simp: py_fixed_def fixed_frac_def intro: text_append_less(2))
  qed
qed

lemma probe_log_mset: "mset (probe_log t0 answer finished) = mset (map (probe_one t0 answer) finished)"
  by (simp add: probe_log_def)

lemma probe_log_sorted: "sorted (map fst (probe_log t0 answer finished))"
  by (simp add: probe_log_def)

lemma probe_time_range:
  assumes "10 ^ 9 \<le> t0" "t0 + of_nat n \<le> 10 ^ 10 - 1" "i < n"
  shows "10 ^ 9 \<le> fl (t0 + fl (of_nat i / 10))" "fl (t0 + fl (of_nat i / 10)) \<le> 10 ^ 10 - 1"
proof -
  have n: "(of_nat n :: rat) \<le> 10 ^ 10" using assms(1,2) by simp
  then have "n \<le> 10 ^ 10" by (metis of_nat_le_iff of_nat_numeral of_nat_power)
  moreover have "(of_nat i / 10 :: rat) \<le> of_int (int n)" using assms(3) by simp
  ultimately have i: "fl (of_nat i / 10) \<le> of_nat n" using fl_le_int [of "int n"] by simp
  show "10 ^ 9 \<le> fl (t0 + fl (of_nat i / 10))"
    using fl_ge_int [of "10 ^ 9" "t0 + fl (of_nat i / 10)"] assms(1) by (simp add: add_increasing2)
  show "fl (t0 + fl (of_nat i / 10)) \<le> 10 ^ 10 - 1"
    using fl_le_int [of "10 ^ 10 - 1" "t0 + fl (of_nat i / 10)"] assms(2) i by simp
qed

lemma result_list_sorted:
  assumes "\<And>x. x \<in> set xs \<Longrightarrow> f x = Inr (g x)" "sorted_wrt (\<lambda>x y. g x \<le> g y) xs"
  shows "\<exists>ys. result_list f xs = Inr ys \<and> sorted ys"
proof -
  have "result_list f xs = Inr (map g xs)" using assms(1) by (induction xs) auto
  with assms(2) show ?thesis by (simp add: sorted_wrt_map)
qed

section \<open>Properties\<close>

text \<open>
  C37. The schedule of \<open>every\<close> ends: when the interval divides the duration into at most \<open>n\<close> parts,
  \<open>Suc n\<close> turns of the loop are enough, whatever the clock was at the start and in spite of
  rounding. It makes at most \<open>n\<close> calls, numbered from zero in order, exactly those whose due time
  is before the end.
\<close>

theorem every_terminates:
  assumes "is_double seconds" "seconds \<le> of_nat n * interval"
  shows "\<exists>m \<le> n. every (Suc n) start interval seconds = Some (map (\<lambda>i. (i, due_time start interval i)) [0..<m]) \<and>
    (\<forall>i < m. due_time start interval i < fl (start + seconds)) \<and> fl (start + seconds) \<le> due_time start interval m"
  using every_loop_ends [OF assms, of 0 start] by (auto simp: every_def)

theorem every_terminates_witness:
  "\<exists>m \<le> 15. every 16 (1 / 4) 2 30 = Some (map (\<lambda>i. (i, due_time (1 / 4) 2 i)) [0..<m])"
proof -
  have "is_double 30" using is_double_of_int [of 30] by simp
  then show ?thesis using every_terminates [of 30 15 2 "1 / 4"] by auto
qed

text \<open>
  The UDP client keeps to its rate: after every turn of its loop the datagrams sent so far are
  exactly those due by that turn's reading of the clock, so a late turn catches up and none is sent
  early, and nothing is sent after the end.
\<close>

theorem udp_pacing:
  assumes "0 \<le> pps" "sorted (start # clock)" "turns = udp_loop start seconds pps 0 clock" "i < length turns"
  shows "fst (turns ! i) = clock ! i \<and> clock ! i < fl (start + seconds) \<and> snd (snd (turns ! i)) = udp_due start pps (clock ! i) \<and>
    (\<Sum>t\<leftarrow>take (Suc i) turns. int (fst (snd t))) = udp_due start pps (clock ! i)"
proof -
  have "0 \<le> udp_due start pps now" if "now \<in> set clock" for now using udp_due_start [OF assms(1)] assms(2) that by simp
  with udp_loop_paced [OF assms(1), of clock 0 start seconds] assms(2-4) show ?thesis by (simp add: comp_def)
qed

theorem udp_pacing_witness:
  "map snd (udp_loop 0 1 100 0 [1 / 4, 1 / 2, 2]) = [(25, 25), (25, 50)] \<and>
   (\<Sum>t\<leftarrow>take 2 (udp_loop 0 1 100 0 [1 / 4, 1 / 2, 2]). int (fst (snd t))) = udp_due 0 100 (1 / 2)"
proof -
  have run: "udp_loop 0 1 100 0 [1 / 4, 1 / 2, 2] = [(1 / 4, 25, 25), (1 / 2, 25, 50)]" by code_simp
  show ?thesis using udp_pacing [of 100 0 "[1 / 4, 1 / 2, 2]" _ 1 1, OF _ _ refl] unfolding run by simp
qed

text \<open>
  The log of the probe is in the order of time, whatever the order in which the requests
  finished: it has exactly one row per finished request, and the times read back from it ascend.
  Rows are sorted as texts, which is the order of the numbers as long as the clock shows ten digits
  of seconds, that is until 2286.
\<close>

theorem probe_log_in_time_order:
  assumes "10 ^ 9 \<le> t0" "t0 + of_nat n \<le> 10 ^ 10 - 1" "set finished \<subseteq> {..<n}"
  shows "mset (probe_log t0 answer finished) = mset (map (probe_one t0 answer) finished) \<and>
    (\<exists>ts. result_list (\<lambda>r. py_float_of_str (fst r)) (probe_log t0 answer finished) = Inr ts \<and> sorted ts)"
proof -
  have "\<exists>x. fst r = py_fixed 2 x \<and> 10 ^ 9 \<le> x \<and> x \<le> 10 ^ 10 - 1" if "r \<in> set (probe_log t0 answer finished)" for r
  proof -
    have "r \<in> set (map (probe_one t0 answer) finished)" using that mset_eq_setD [OF probe_log_mset] by blast
    then obtain i where "i \<in> set finished" "fst r = py_fixed 2 (fl (t0 + fl (of_nat i / 10)))" by (auto simp: probe_one_def)
    with assms(3) probe_time_range [OF assms(1,2), of i] show ?thesis by auto
  qed
  then obtain x where x: "\<And>r. r \<in> set (probe_log t0 answer finished) \<Longrightarrow> fst r = py_fixed 2 (x r) \<and> 10 ^ 9 \<le> x r \<and> x r \<le> 10 ^ 10 - 1"
    by metis
  let ?g = "\<lambda>r. fl (of_nat (fixed_units 2 (x r)) / 10 ^ 2)"
  have read: "py_float_of_str (fst r) = Inr (?g r)" if "r \<in> set (probe_log t0 answer finished)" for r
    using x [OF that] float_of_fixed [of "x r" 2] by simp
  have "?g r \<le> ?g r'" if "r \<in> set (probe_log t0 answer finished)" "r' \<in> set (probe_log t0 answer finished)" "fst r \<le> fst r'" for r r'
  proof -
    have "\<not> fixed_units 2 (x r') < fixed_units 2 (x r)"
      using fixed_text_less [of "x r'" "x r"] x [OF that(1)] x [OF that(2)] that(3) by auto
    then show ?thesis by (intro fl_mono divide_right_mono) simp_all
  qed
  then have "sorted_wrt (\<lambda>r r'. ?g r \<le> ?g r') (probe_log t0 answer finished)"
    using probe_log_sorted [of t0 answer finished] unfolding sorted_map by (rule_tac sorted_wrt_mono_rel) auto
  from result_list_sorted [OF read this] show ?thesis by (simp add: probe_log_mset)
qed

definition demo_answer :: "nat \<Rightarrow> rat option" where
  "demo_answer i = (if i = 1 then None else Some (of_nat i))"

theorem probe_log_in_time_order_witness:
  "\<exists>ts. result_list (\<lambda>r. py_float_of_str (fst r)) (probe_log 1700000000 demo_answer [2, 0, 1]) = Inr ts \<and> sorted ts"
  using probe_log_in_time_order [of 1700000000 3 "[2, 0, 1]" demo_answer] by simp

text \<open>
  C36. The report finds in the watcher's file what was on the blocklist: a row the watcher writes is
  the first one that \<open>first_block\<close> stops at for a source exactly when the source's own /32 entry was
  there and in force at that moment; the time reported is that of the row, to the hundredth.
  Otherwise the search goes on with the rows after it.
\<close>

theorem watch_seen_by_report:
  assumes "ctl_kernel os is_map kind ksize vsize okw view pos fw clk" "okw w"
    and "clk_time clk w = (t, w0)" "0 \<le> t" "length a = 4"
    and "now = fst (os_ktime os (snd (fw_read_config os fw w0)))"
  shows "\<exists>row w'. watch_row os clk fw w = (Inr row, w') \<and> view w' = view w \<and>
    scan_blocked start (quad a @ ''/32'') (row # rows) =
      (if \<exists>v. (host_key a, v) \<in> set (view w (bm_fd (fw_blocklist fw))) \<and> in_force now v
       then Inr (Some (fl (fl (of_nat (fixed_units 2 t) / 100) - start)))
       else scan_blocked start (quad a @ ''/32'') rows)"
proof -
  obtain r w' where r: "watch_row os clk fw w = (r, w')" by fastforce
  from ctl_kernel.watch_row_run [OF assms(1-3) refl refl this] ctl_kernel.watch_row_seen [OF assms(1-5) refl assms(6) this]
  show ?thesis using r by auto
qed

definition watched :: kernel where
  "watched = boot_kernel\<lparr>k_maps := (k_maps boot_kernel)[1 := [(host_key [10, 1, 2, 3], zeros 24)]], k_batches := True\<rparr>"

lemma watched_ok: "kernel_ok watched"
proof -
  have "lpm_key ''10.1.2.3'' = Inr (host_key [10, 1, 2, 3])" by code_simp
  from lpm_key_ok [OF this] show ?thesis
    unfolding watched_def
    by (intro kernel_ok_maps [OF boot_kernel_ok])
      (simp_all add: map_decls_def decl_dict_ok_def kdict_ok_def MAX_BLOCKLIST_def zeros_def)
qed

lemma watched_view: "ref_view watched (bm_fd (fw_blocklist ref_fw)) = [(host_key [10, 1, 2, 3], zeros 24)]"
  by (simp add: ref_fw_simps ref_view_def ref_maps watched_def boot_kernel_def FIRST_FD_def)

lemma watched_time: "clk_time ref_clk watched = (1, watched)"
  by (simp add: ref_clk_def watched_def boot_kernel_def)

theorem watch_seen_by_report_witness:
  "\<exists>row w'. watch_row ref_os ref_clk ref_fw watched = (Inr row, w') \<and>
     scan_blocked 0 (quad [10, 1, 2, 3] @ ''/32'') [row] = Inr (Some 1) \<and>
     scan_blocked 0 (quad [10, 1, 2, 4] @ ''/32'') [row] = Inr None"
proof -
  have "deadline (zeros 24) = 0" by code_simp
  then have f: "in_force now (zeros 24)" for now by (simp add: in_force_def)
  have t: "fl (fl (of_nat (fixed_units 2 1) / 100) - 0) = 1" by code_simp
  have ne: "host_key [10, 1, 2, 3] \<noteq> host_key [10, 1, 2, 4]" by (simp add: host_key_def)
  note seen = watch_seen_by_report [OF ref_ctl_laws watched_ok watched_time _ _ refl, where start = 0 and rows = "[]"]
  from seen [of "[10, 1, 2, 3]"] obtain row w' where "watch_row ref_os ref_clk ref_fw watched = (Inr row, w')"
    "scan_blocked 0 (quad [10, 1, 2, 3] @ ''/32'') [row] = Inr (Some 1)"
    using f t by (auto simp: watched_view)
  moreover from this(1) seen [of "[10, 1, 2, 4]"] ne have "scan_blocked 0 (quad [10, 1, 2, 4] @ ''/32'') [row] = Inr None"
    by (auto simp: watched_view)
  ultimately show ?thesis by blast
qed

end
