(* ===== verification/Bench_Net.thy ===== *)
theory Bench_Net
  imports Bench_Clients Py_Argparse_Props
begin

text \<open>
  The clients of \<open>bench/clients.py\<close> that talk to the network, and its \<open>main\<close>. The operating system's
  sockets and the exchange of an HTTP request for its response are a record of functions; the
  locale \<open>network\<close> states what the clients rely on. A thread is the program it runs and the time at
  which it is started.
\<close>

section \<open>Sockets\<close>

datatype sock_kind = SOCK_STREAM | SOCK_DGRAM

type_synonym address = "string \<times> int"

text \<open>
  \<open>net_exchange\<close> sends a request on a connected socket, reads the whole response and returns its
  status. It may raise an \<open>OSError\<close> (a timeout, a reset) or an \<open>HTTPException\<close> (a response that ends
  too early or is not HTTP).
\<close>

record 'w net =
  net_socket :: "sock_kind \<Rightarrow> ('w, nat) io"
  net_bind_device :: "nat \<Rightarrow> string \<Rightarrow> ('w, unit) io"
  net_bind :: "nat \<Rightarrow> address \<Rightarrow> ('w, unit) io"
  net_settimeout :: "nat \<Rightarrow> rat option \<Rightarrow> 'w \<Rightarrow> 'w"
  net_connect :: "nat \<Rightarrow> address \<Rightarrow> ('w, unit) io"
  net_sendall :: "nat \<Rightarrow> string \<Rightarrow> ('w, unit) io"
  net_exchange :: "nat \<Rightarrow> string \<Rightarrow> ('w, int) io"
  net_close :: "nat \<Rightarrow> 'w \<Rightarrow> 'w"

definition SERVER :: string where
  "SERVER = ''10.10.1.1''"

definition CLIENT :: string where
  "CLIENT = ''10.10.1.2''"

definition WEB :: int where
  "WEB = 8080"

definition TIMEOUT :: rat where
  "TIMEOUT = 3"

fun is_os_error :: "exn \<Rightarrow> bool" where
  "is_os_error (BpfError _ _) = True"
| "is_os_error OSError = True"
| "is_os_error _ = False"

text \<open>\<open>try: m finally: close\<close>, and a call that cannot fail.\<close>

definition io_finally :: "('w, 'a) io \<Rightarrow> ('w \<Rightarrow> 'w) \<Rightarrow> ('w, 'a) io" where
  "io_finally m close w = (case m w of (r, w') \<Rightarrow> (r, close w'))"

definition io_call :: "('w \<Rightarrow> 'w) \<Rightarrow> ('w, unit) io" where
  "io_call f w = (Inr (), f w)"

definition sock :: "'w net \<Rightarrow> sock_kind \<Rightarrow> ('w, nat) io" where
  "sock net kind =
     io_bind (net_socket net kind) (\<lambda>s.
     io_seq (net_bind_device net s ''veth-cl'')
    (io_seq (net_bind net s (CLIENT, 0))
    (io_return s)))"

definition try_connect :: "'w net \<Rightarrow> nat \<Rightarrow> int \<Rightarrow> ('w, nat) io" where
  "try_connect net s port w =
     (case net_connect net s (SERVER, port) w of
        (Inr _, w') \<Rightarrow> (Inr s, w')
      | (Inl e, w') \<Rightarrow> (Inl e, if is_os_error e then net_close net s w' else w'))"

definition connect :: "'w net \<Rightarrow> int \<Rightarrow> ('w, nat) io" where
  "connect net port =
     io_bind (sock net SOCK_STREAM) (\<lambda>s.
     io_seq (io_call (net_settimeout net s (Some TIMEOUT)))
    (try_connect net s port))"

section \<open>One request\<close>

text \<open>
  The connection is opened by \<open>c.request\<close>, inside the \<open>try\<close>; when that fails there is no socket that
  \<open>c.close\<close> could close.
\<close>

definition http_get :: "'w net \<Rightarrow> string \<Rightarrow> ('w, unit) io" where
  "http_get net path =
     io_bind (connect net WEB) (\<lambda>s.
     io_finally
       (io_bind (net_exchange net s path) (\<lambda>st. if st \<noteq> 200 then io_raise OSError else io_return ()))
       (net_close net s))"

definition clients_get :: "'w net \<Rightarrow> 'w clocks \<Rightarrow> string \<Rightarrow> ('w, rat) io" where
  "clients_get net clk path =
     io_bind (io_read (clk_monotonic clk)) (\<lambda>t.
     io_seq (http_get net path)
    (io_bind (io_read (clk_monotonic clk)) (\<lambda>now.
     io_return (fl (fl (now - t) * 1000)))))"

definition quietly :: "('w, 'a) io \<Rightarrow> ('w, unit) io" where
  "quietly m w =
     (case m w of
        (Inr _, w') \<Rightarrow> (Inr (), w')
      | (Inl e, w') \<Rightarrow> (if is_os_error e then Inr () else Inl e, w'))"

text \<open>What a thread of the probe does; the state carries the rows so far.\<close>

definition probe_request :: "'w net \<Rightarrow> 'w clocks \<Rightarrow> rat \<Rightarrow> nat \<Rightarrow> (probe_row list \<times> 'w, unit) io" where
  "probe_request net clk t0 i = (\<lambda>(rows, w).
     case clients_get net clk ''/'' w of
       (Inr ms, w') \<Rightarrow> (Inr (), (rows @ [probe_one t0 (\<lambda>_. Some ms) i], w'))
     | (Inl e, w') \<Rightarrow>
         if is_os_error e then (Inr (), (rows @ [probe_one t0 (\<lambda>_. None) i], w'))
         else (Inl e, (rows, w')))"

section \<open>The clients\<close>

text \<open>Loops over the clock; \<open>Diverges\<close> means that \<open>fuel\<close> turns were not enough.\<close>

fun clock_loop :: "nat \<Rightarrow> 'w clocks \<Rightarrow> rat \<Rightarrow> ('w, unit) io \<Rightarrow> ('w, unit) io" where
  "clock_loop 0 clk fin body = io_raise Diverges"
| "clock_loop (Suc fuel) clk fin body =
     io_bind (io_read (clk_monotonic clk)) (\<lambda>now.
     if now < fin then io_seq body (clock_loop fuel clk fin body) else io_return ())"

definition download :: "nat \<Rightarrow> 'w net \<Rightarrow> 'w clocks \<Rightarrow> rat \<Rightarrow> ('w, unit) io" where
  "download fuel net clk seconds =
     io_bind (io_read (clk_monotonic clk)) (\<lambda>now.
     clock_loop fuel clk (fl (now + seconds)) (quietly (clients_get net clk ''/big.bin'')))"

definition upload :: "nat \<Rightarrow> 'w net \<Rightarrow> 'w clocks \<Rightarrow> rat \<Rightarrow> ('w, unit) io" where
  "upload fuel net clk seconds =
     io_bind (io_read (clk_monotonic clk)) (\<lambda>now.
     io_bind (connect net 9000) (\<lambda>s.
     io_finally
       (io_seq (io_call (net_settimeout net s None))
         (clock_loop fuel clk (fl (now + seconds)) (net_sendall net s (replicate 65536 CHR ''x''))))
       (net_close net s)))"

definition service_one :: "'w net \<Rightarrow> nat \<Rightarrow> ('w, unit) io" where
  "service_one net i =
     io_bind (connect net (int (service_port i))) (\<lambda>s.
     io_finally (net_sendall net s (''hello'' @ newline)) (net_close net s))"

text \<open>
  The clients whose calls run in threads of their own: when which program is started. \<open>start\<close> is the
  reading of the clock at which \<open>every\<close> begins; for \<open>nat\<close> there is one for each user, after the random
  pause.
\<close>

type_synonym 'w started = "(rat \<times> ('w, unit) io) list"

definition browse :: "nat \<Rightarrow> 'w net \<Rightarrow> 'w clocks \<Rightarrow> rat \<Rightarrow> rat \<Rightarrow> 'w started option" where
  "browse fuel net clk start seconds =
     map_option (\<lambda>calls. concat (map (\<lambda>(i, due). replicate 20 (due, quietly (clients_get net clk ''/''))) calls))
       (every fuel start 2 seconds)"

definition nat_user :: "nat \<Rightarrow> 'w net \<Rightarrow> 'w clocks \<Rightarrow> rat \<Rightarrow> rat \<Rightarrow> 'w started option" where
  "nat_user fuel net clk seconds start =
     map_option (map (\<lambda>(i, due). (due, quietly (clients_get net clk ''/'')))) (every fuel start 2 seconds)"

definition services :: "nat \<Rightarrow> 'w net \<Rightarrow> rat \<Rightarrow> rat \<Rightarrow> 'w started option" where
  "services fuel net start seconds =
     map_option (map (\<lambda>(i, due). (due, quietly (service_one net i)))) (every fuel start 1 seconds)"

section \<open>The command line\<close>

datatype client_cmd =
    Serve string "int list"
  | Probe pyfloat string
  | Browse pyfloat
  | Download pyfloat
  | Upload pyfloat
  | Nat pyfloat int
  | Udp pyfloat int
  | Services pyfloat
  | Watch pyfloat string

definition nth_arg :: "string list \<Rightarrow> nat \<Rightarrow> string result" where
  "nth_arg args i = (if i < length args then Inr (args ! i) else Inl IndexError)"

text \<open>
  \<open>main\<close> up to the call of the client. The table is looked up after the number of seconds was read,
  and its entry reads the second argument.
\<close>

definition clients_main :: "string list \<Rightarrow> client_cmd result" where
  "clients_main argv =
     (case argv of
        [] \<Rightarrow> Inl IndexError
      | cmd # args \<Rightarrow>
          if cmd = ''serve'' then
            result_bind (nth_arg args 0) (\<lambda>dir.
            result_bind (result_list py_int_of_str (tl args)) (\<lambda>ports. Inr (Serve dir ports)))
          else
            result_bind (result_bind (nth_arg args 0) py_float) (\<lambda>seconds.
            if cmd = ''probe'' then result_map (Probe seconds) (nth_arg args 1)
            else if cmd = ''browse'' then Inr (Browse seconds)
            else if cmd = ''download'' then Inr (Download seconds)
            else if cmd = ''upload'' then Inr (Upload seconds)
            else if cmd = ''nat'' then result_map (Nat seconds) (result_bind (nth_arg args 1) py_int_of_str)
            else if cmd = ''udp'' then result_map (Udp seconds) (result_bind (nth_arg args 1) py_int_of_str)
            else if cmd = ''services'' then Inr (Services seconds)
            else if cmd = ''watch'' then result_map (Watch seconds) (nth_arg args 1)
            else Inl KeyError))"

text \<open>The program: with fewer than two words it prints its description and exits, \<open>None\<close>.\<close>

definition clients_program :: "string list \<Rightarrow> client_cmd result option" where
  "clients_program words = (if length words < 2 then None else Some (clients_main words))"

section \<open>What the clients rely on\<close>

text \<open>
  \<open>opened\<close> are the sockets that are open, and \<open>failed\<close> are those among them for which \<open>setsockopt\<close> or \<open>bind\<close> has
  raised. A new socket is one that was not open; the other calls open and
  close nothing; \<open>socket\<close>, \<open>setsockopt\<close>, \<open>bind\<close> and \<open>connect\<close> raise nothing but \<open>OSError\<close>.
\<close>

definition same_socks :: "('w \<Rightarrow> bool) \<Rightarrow> ('w \<Rightarrow> nat set) \<Rightarrow> ('w \<Rightarrow> nat set) \<Rightarrow> 'w \<Rightarrow> 'w \<Rightarrow> bool" where
  "same_socks okw opened failed w w' \<longleftrightarrow> (okw w \<longrightarrow> okw w' \<and> opened w' = opened w \<and> failed w' = failed w)"

text \<open>No socket is closed that was open before, and those left open besides are sockets whose setting up raised.\<close>

definition all_closed :: "('w \<Rightarrow> bool) \<Rightarrow> ('w \<Rightarrow> nat set) \<Rightarrow> ('w \<Rightarrow> nat set) \<Rightarrow> 'w \<Rightarrow> 'w \<Rightarrow> bool" where
  "all_closed okw opened failed w w' \<longleftrightarrow> (okw w \<longrightarrow>
     okw w' \<and> opened w \<subseteq> opened w' \<and> failed w \<subseteq> failed w' \<and> opened w' - failed w' = opened w - failed w)"

locale network =
  fixes net :: "'w net" and clk :: "'w clocks" and opened :: "'w \<Rightarrow> nat set" and failed :: "'w \<Rightarrow> nat set" and okw :: "'w \<Rightarrow> bool"
  assumes failed_opened: "okw w \<Longrightarrow> failed w \<subseteq> opened w"
    and socket_new: "okw w \<Longrightarrow> net_socket net kind w = (Inr s, w') \<Longrightarrow>
      okw w' \<and> s \<notin> opened w \<and> opened w' = insert s (opened w) \<and> failed w' = failed w"
    and socket_fails: "okw w \<Longrightarrow> net_socket net kind w = (Inl e, w') \<Longrightarrow>
      okw w' \<and> opened w' = opened w \<and> failed w' = failed w \<and> is_os_error e"
    and device_binds: "okw w \<Longrightarrow> s \<in> opened w \<Longrightarrow> net_bind_device net s d w = (r, w') \<Longrightarrow> okw w' \<and> opened w' = opened w \<and>
      (case r of Inr _ \<Rightarrow> failed w' = failed w | Inl e \<Rightarrow> is_os_error e \<and> failed w' = insert s (failed w))"
    and address_binds: "okw w \<Longrightarrow> s \<in> opened w \<Longrightarrow> net_bind net s a w = (r, w') \<Longrightarrow> okw w' \<and> opened w' = opened w \<and>
      (case r of Inr _ \<Rightarrow> failed w' = failed w | Inl e \<Rightarrow> is_os_error e \<and> failed w' = insert s (failed w))"
    and connect_raises: "okw w \<Longrightarrow> net_connect net s a w = (Inl e, w') \<Longrightarrow> is_os_error e"
    and calls_keep: "io_steps (same_socks okw opened failed) (net_connect net s a)"
      "io_steps (same_socks okw opened failed) (net_sendall net s b)" "io_steps (same_socks okw opened failed) (net_exchange net s path)"
    and settimeout_keeps: "same_socks okw opened failed w (net_settimeout net s t w)"
    and clock_keeps: "same_socks okw opened failed w (snd (clk_monotonic clk w))"
    and close_closes: "okw w \<Longrightarrow>
      okw (net_close net s w) \<and> opened (net_close net s w) = opened w - {s} \<and> failed (net_close net s w) = failed w - {s}"
begin

abbreviation same :: "'w \<Rightarrow> 'w \<Rightarrow> bool" where
  "same \<equiv> same_socks okw opened failed"

abbreviation closed :: "'w \<Rightarrow> 'w \<Rightarrow> bool" where
  "closed \<equiv> all_closed okw opened failed"

lemma same_preorder: "preorder_on_states same"
  by (auto simp: preorder_on_states_def same_socks_def)

lemma closed_preorder: "preorder_on_states closed"
proof -
  have "closed w w" for w by (simp add: all_closed_def)
  moreover have "closed x z" if "closed x y" "closed y z" for x y z
    using that unfolding all_closed_def by (metis subset_trans)
  ultimately show ?thesis unfolding preorder_on_states_def by blast
qed

lemma same_closed: "io_steps same m \<Longrightarrow> io_steps closed m"
  by (simp add: io_steps_def same_socks_def all_closed_def)

lemma kept: "okw w \<Longrightarrow> io_steps same m \<Longrightarrow> m w = (r, w') \<Longrightarrow> okw w' \<and> opened w' = opened w \<and> failed w' = failed w"
  using io_stepsD [of same m w r w'] by (simp add: same_socks_def)

lemma clock_read: "io_steps same (io_read (clk_monotonic clk))"
  using clock_keeps by (simp add: io_steps_def io_read_apply)

text \<open>
  A socket that \<open>sock\<close> returns is a new one that is set up; otherwise it raises an \<open>OSError\<close>, and if
  there is a new socket then it is one whose setting up raised.
\<close>

definition got_socket :: "'w \<Rightarrow> nat result \<Rightarrow> 'w \<Rightarrow> bool" where
  "got_socket w r w' \<longleftrightarrow> okw w' \<and> (case r of
     Inl e \<Rightarrow> is_os_error e \<and> closed w w'
   | Inr s \<Rightarrow> s \<notin> opened w \<and> opened w' = insert s (opened w) \<and> failed w' = failed w)"

lemma closing_restores:
  assumes "okw w" "s \<notin> opened w" "okw w'" "opened w' = insert s (opened w)" "failed w' = failed w"
  shows "okw (net_close net s w')" "opened (net_close net s w') = opened w" "failed (net_close net s w') = failed w"
  using close_closes [OF assms(3), of s] failed_opened [OF assms(1)] assms(2,4,5) by auto

lemma unset_socket_left:
  assumes "okw w'" "s \<notin> opened w" "opened w' = insert s (opened w)" "failed w' = insert s (failed w)"
  shows "closed w w'"
  using assms by (auto simp: all_closed_def)

lemma sock_run:
  assumes "okw w" "sock net kind w = (r, w')"
  shows "got_socket w r w'"
proof (cases "net_socket net kind w")
  case (Pair r1 w1)
  show ?thesis
  proof (cases r1)
    case (Inl e)
    with Pair assms(2) have "r = Inl e" "w' = w1" by (simp_all add: sock_def io_simps)
    with socket_fails [OF assms(1) Pair [unfolded Inl]] show ?thesis by (simp add: got_socket_def all_closed_def)
  next
    case (Inr s)
    from socket_new [OF assms(1) Pair [unfolded Inr]]
    have s: "okw w1" "s \<notin> opened w" "opened w1 = insert s (opened w)" "failed w1 = failed w" by auto
    obtain r2 w2 where 2: "net_bind_device net s ''veth-cl'' w1 = (r2, w2)" by fastforce
    note d = device_binds [OF s(1) _ 2]
    show ?thesis
    proof (cases r2)
      case (Inl e)
      with Pair Inr 2 assms(2) have "r = Inl e" "w' = w2" by (simp_all add: sock_def io_simps)
      with d s Inl unset_socket_left [of w2 s w] show ?thesis by (simp add: got_socket_def)
    next
      case (Inr x)
      with d s have w2: "okw w2" "opened w2 = insert s (opened w)" "failed w2 = failed w" by simp_all
      obtain r3 w3 where 3: "net_bind net s (CLIENT, 0) w2 = (r3, w3)" by fastforce
      note b = address_binds [OF w2(1) _ 3]
      have "r = (case r3 of Inl e \<Rightarrow> Inl e | Inr _ \<Rightarrow> Inr s)" "w' = w3"
        using Pair \<open>r1 = Inr s\<close> 2 Inr 3 assms(2) by (auto simp: sock_def io_simps split: sum.splits)
      with b w2 s(2) unset_socket_left [of w3 s w] show ?thesis by (cases r3) (simp_all add: got_socket_def)
    qed
  qed
qed

lemma connect_run:
  assumes "okw w" "connect net port w = (r, w')"
  shows "got_socket w r w'"
proof (cases "sock net SOCK_STREAM w")
  case (Pair r1 w1)
  note sock = sock_run [OF assms(1) Pair]
  show ?thesis
  proof (cases r1)
    case (Inl e)
    with Pair assms(2) have "r = Inl e" "w' = w1" by (simp_all add: connect_def io_simps)
    with sock Inl show ?thesis by simp
  next
    case (Inr s)
    let ?w2 = "net_settimeout net s (Some TIMEOUT) w1"
    from sock Inr have s: "okw w1" "s \<notin> opened w" "opened w1 = insert s (opened w)" "failed w1 = failed w" by (auto simp: got_socket_def)
    then have w2: "okw ?w2" "opened ?w2 = insert s (opened w)" "failed ?w2 = failed w"
      using settimeout_keeps [of w1 s "Some TIMEOUT"] by (auto simp: same_socks_def)
    obtain r3 w3 where 3: "net_connect net s (SERVER, port) ?w2 = (r3, w3)" by fastforce
    from kept [OF w2(1) calls_keep(1) 3] w2 have w3: "okw w3" "opened w3 = insert s (opened w)" "failed w3 = failed w" by auto
    have run: "try_connect net s port ?w2 = (r, w')" using Pair Inr assms(2) by (simp add: connect_def io_simps io_call_def)
    show ?thesis
    proof (cases r3)
      case (Inl e)
      from connect_raises [OF w2(1) 3 [unfolded Inl]] have "is_os_error e" .
      with run 3 Inl have "r = Inl e" "w' = net_close net s w3" by (simp_all add: try_connect_def)
      with closing_restores [OF assms(1) s(2) w3] \<open>is_os_error e\<close> show ?thesis by (simp add: got_socket_def all_closed_def)
    next
      case (Inr x)
      with run 3 have "r = Inr s" "w' = w3" by (simp_all add: try_connect_def)
      with w3 s(2) show ?thesis by (simp add: got_socket_def)
    qed
  qed
qed

text \<open>Whatever is done with a connection, it is closed afterwards.\<close>

lemma connection_closed:
  assumes "\<And>s. io_steps same (use s)"
  shows "io_steps closed (io_bind (connect net port) (\<lambda>s. io_finally (use s) (net_close net s)))"
proof (rule io_stepsI)
  fix w r w'
  assume run: "io_bind (connect net port) (\<lambda>s. io_finally (use s) (net_close net s)) w = (r, w')"
  obtain r1 w1 where 1: "connect net port w = (r1, w1)" by fastforce
  show "closed w w'"
  proof (cases "okw w")
    case True
    note c = connect_run [OF this 1]
    show ?thesis
    proof (cases r1)
      case (Inl e)
      with run 1 c show ?thesis by (simp add: io_simps got_socket_def)
    next
      case (Inr s)
      with c have s: "okw w1" "s \<notin> opened w" "opened w1 = insert s (opened w)" "failed w1 = failed w" by (auto simp: got_socket_def)
      obtain r2 w2 where 2: "use s w1 = (r2, w2)" by fastforce
      from kept [OF s(1) assms 2] s have w2: "okw w2" "opened w2 = insert s (opened w)" "failed w2 = failed w" by auto
      have "w' = net_close net s w2" using run 1 Inr 2 by (simp add: io_simps io_finally_def)
      with closing_restores [OF True s(2) w2] show ?thesis by (simp add: all_closed_def)
    qed
  qed (simp add: all_closed_def)
qed

lemmas closed_rules = io_steps_bind [OF closed_preorder] io_steps_seq [OF closed_preorder] io_steps_basic [OF closed_preorder]

lemma http_get_steps: "io_steps closed (http_get net path)"
  unfolding http_get_def
  by (rule connection_closed) (auto intro!: io_steps_bind io_steps_if io_steps_basic same_preorder calls_keep)

lemma get_steps: "io_steps closed (clients_get net clk path)"
  unfolding clients_get_def by (intro closed_rules same_closed [OF clock_read] http_get_steps)

lemma quietly_steps: "io_steps closed m \<Longrightarrow> io_steps closed (quietly m)"
  by (auto simp: io_steps_def quietly_def split: prod.split sum.split) (metis snd_conv)+

lemma clock_loop_steps:
  "preorder_on_states R \<Longrightarrow> io_steps R (io_read (clk_monotonic clk)) \<Longrightarrow> io_steps R body \<Longrightarrow> io_steps R (clock_loop fuel clk fin body)"
  by (induction fuel) (auto intro!: io_steps_bind io_steps_if io_steps_seq io_steps_basic)

lemma download_steps: "io_steps closed (download fuel net clk seconds)"
  unfolding download_def
  by (intro closed_rules clock_loop_steps closed_preorder same_closed [OF clock_read] quietly_steps get_steps)

lemma settimeout_steps: "io_steps same (io_call (net_settimeout net s t))"
  using settimeout_keeps by (simp add: io_steps_def io_call_def)

lemma upload_steps: "io_steps closed (upload fuel net clk seconds)"
  unfolding upload_def
  by (rule io_steps_bind [OF closed_preorder same_closed [OF clock_read]], rule connection_closed)
    (intro io_steps_seq same_preorder settimeout_steps clock_loop_steps clock_read calls_keep)

lemma service_steps: "io_steps closed (service_one net i)"
  unfolding service_one_def by (intro connection_closed calls_keep)

text \<open>How a request ends: by what the exchange on its connection returned or raised.\<close>

lemma get_run:
  assumes "okw w" "clients_get net clk path w = (r, w')"
  shows "case r of
      Inr ms \<Rightarrow> \<exists>s w1. connect net WEB (snd (clk_monotonic clk w)) = (Inr s, w1) \<and> fst (net_exchange net s path w1) = Inr 200
    | Inl e \<Rightarrow> is_os_error e \<or> (\<exists>s w1. connect net WEB (snd (clk_monotonic clk w)) = (Inr s, w1) \<and> fst (net_exchange net s path w1) = Inl e)"
proof -
  let ?w0 = "snd (clk_monotonic clk w)"
  have "okw ?w0" using clock_keeps [of w] assms(1) by (simp add: same_socks_def)
  obtain r1 w1 where 1: "connect net WEB ?w0 = (r1, w1)" by fastforce
  note c = connect_run [OF \<open>okw ?w0\<close> 1]
  show ?thesis
  proof (cases r1)
    case (Inl e)
    with assms(2) 1 have "r = Inl e" by (simp add: clients_get_def http_get_def io_simps)
    with c Inl show ?thesis by (simp add: got_socket_def)
  next
    case (Inr s)
    obtain r2 w2 where 2: "net_exchange net s path w1 = (r2, w2)" by fastforce
    have "r = Inl OSError \<or> (\<exists>e. r = Inl e \<and> r2 = Inl e) \<or> (\<exists>ms. r = Inr ms) \<and> r2 = Inr 200"
      using assms(2) 1 Inr 2 by (cases r2) (auto simp: clients_get_def http_get_def io_finally_def io_simps split: if_splits)
    then show ?thesis using 1 Inr 2 by auto
  qed
qed

end

section \<open>A reference network\<close>

text \<open>
  A server that treats the connections as its list of answers says: the connection is refused or
  lost, the request gets no answer, a status, or a response that is cut off. The interface is there or
  not. The clock advances by a quarter of a second with each reading.
\<close>

datatype answer = Refused | Silent | Status_Line int | Cut_Off

record net_world =
  nw_next :: nat
  nw_open :: "nat list"
  nw_failed :: "nat list"
  nw_device :: bool
  nw_answers :: "answer list"
  nw_clock :: rat

definition next_answer :: "net_world \<Rightarrow> answer" where
  "next_answer w = (case nw_answers w of [] \<Rightarrow> Silent | a # _ \<Rightarrow> a)"

definition answered :: "net_world \<Rightarrow> net_world" where
  "answered w = w\<lparr>nw_answers := tl (nw_answers w)\<rparr>"

definition ref_net :: "net_world net" where
  "ref_net = \<lparr>
     net_socket = (\<lambda>kind w. (Inr (nw_next w), w\<lparr>nw_next := Suc (nw_next w), nw_open := nw_next w # nw_open w\<rparr>)),
     net_bind_device = (\<lambda>s d w. if nw_device w then (Inr (), w) else (Inl OSError, w\<lparr>nw_failed := s # nw_failed w\<rparr>)),
     net_bind = (\<lambda>s a w. (Inr (), w)),
     net_settimeout = (\<lambda>s t w. w),
     net_connect = (\<lambda>s a w. if next_answer w = Refused then (Inl OSError, answered w) else (Inr (), w)),
     net_sendall = (\<lambda>s b w. (if next_answer w = Silent then Inl OSError else Inr (), answered w)),
     net_exchange = (\<lambda>s path w.
       (case next_answer w of Status_Line n \<Rightarrow> Inr n | Cut_Off \<Rightarrow> Inl HTTPException | _ \<Rightarrow> Inl OSError, answered w)),
     net_close = (\<lambda>s w. w\<lparr>nw_open := filter (\<lambda>t. t \<noteq> s) (nw_open w), nw_failed := filter (\<lambda>t. t \<noteq> s) (nw_failed w)\<rparr>)\<rparr>"

definition ref_net_clk :: "net_world clocks" where
  "ref_net_clk = \<lparr>clk_monotonic = (\<lambda>w. (nw_clock w, w\<lparr>nw_clock := nw_clock w + 1 / 4\<rparr>)), clk_time = (\<lambda>w. (nw_clock w, w)),
     clk_strftime = (\<lambda>w. (''00:00:00'', w)), clk_sleep = (\<lambda>t w. w\<lparr>nw_clock := nw_clock w + t\<rparr>)\<rparr>"

definition nw_ok :: "net_world \<Rightarrow> bool" where
  "nw_ok w \<longleftrightarrow> list_all (\<lambda>s. s < nw_next w) (nw_open w) \<and> list_all (\<lambda>s. List.member (nw_open w) s) (nw_failed w)"

interpretation rn: network ref_net ref_net_clk "set \<circ> nw_open" "set \<circ> nw_failed" nw_ok
proof unfold_locales
  fix w kind s w'
  assume "nw_ok w" "net_socket ref_net kind w = (Inr s, w')"
  then show "nw_ok w' \<and> s \<notin> (set \<circ> nw_open) w \<and> (set \<circ> nw_open) w' = insert s ((set \<circ> nw_open) w) \<and>
      (set \<circ> nw_failed) w' = (set \<circ> nw_failed) w"
    by (auto simp: ref_net_def nw_ok_def list_all_iff less_Suc_eq)
qed (auto simp: ref_net_def ref_net_clk_def nw_ok_def list_all_iff answered_def io_steps_def same_socks_def split: if_splits)

section \<open>Properties\<close>

text \<open>
  C38. The clients close their connections: whatever the network answers and whatever is raised, after
  a request, an upload, a download or a call of a service every socket that was open before is still
  open, and those left open besides are exactly the new sockets for which \<open>setsockopt\<close> or \<open>bind\<close> raised. \<open>sock\<close> does
  not close those; if setting up a socket never raises, the open sockets are the same as before.
\<close>

theorem clients_close_sockets:
  assumes "network net clk opened failed okw" "okw w"
    and "w' \<in> {snd (clients_get net clk path w), snd (download fuel net clk seconds w),
      snd (upload fuel net clk seconds w), snd (service_one net i w)}"
  shows "opened w \<subseteq> opened w' \<and> opened w' - opened w = failed w' - failed w \<and>
    (failed w' \<subseteq> failed w \<longrightarrow> opened w' = opened w)"
proof -
  have "all_closed okw opened failed w w'"
    using network.get_steps [OF assms(1)] network.download_steps [OF assms(1)] network.upload_steps [OF assms(1)]
      network.service_steps [OF assms(1)] assms(3) by (auto simp: io_steps_def)
  then have w': "okw w'" "opened w \<subseteq> opened w'" "failed w \<subseteq> failed w'" "opened w' - failed w' = opened w - failed w"
    using assms(2) by (simp_all add: all_closed_def)
  with network.failed_opened [OF assms(1)] assms(2) show ?thesis by blast
qed

definition mixed_answers :: net_world where
  "mixed_answers = \<lparr>nw_next = 5, nw_open = [3], nw_failed = [], nw_device = True,
     nw_answers = [Status_Line 200, Refused, Silent, Cut_Off, Status_Line 404], nw_clock = 0\<rparr>"

text \<open>With the interface, a download that ends in an exception leaves nothing open; without it, a call leaves its socket.\<close>

theorem clients_close_sockets_witness:
  "fst (download 9 ref_net ref_net_clk 4 mixed_answers) = Inl HTTPException \<and>
   set (nw_open (snd (download 9 ref_net ref_net_clk 4 mixed_answers))) = {3} \<and>
   set (nw_open (snd (service_one ref_net 0 (mixed_answers\<lparr>nw_device := False\<rparr>)))) = {3, 5}"
proof -
  let ?down = "download 9 ref_net ref_net_clk 4 mixed_answers" and ?w = "mixed_answers\<lparr>nw_device := False\<rparr>"
  have ok: "nw_ok mixed_answers" "nw_ok ?w" by (simp_all add: nw_ok_def mixed_answers_def)
  have down: "fst ?down = Inl HTTPException" "nw_failed (snd ?down) = []" by code_simp+
  have serve: "nw_failed (snd (service_one ref_net 0 ?w)) = [5]" by code_simp
  from clients_close_sockets [OF rn.network_axioms ok(1), of "snd ?down" _ 9 4] down(2)
  have "set (nw_open (snd ?down)) = {3}" by (simp add: mixed_answers_def)
  moreover from clients_close_sockets [OF rn.network_axioms ok(2), of "snd (service_one ref_net 0 ?w)" _ _ _ 0] serve
  have "set (nw_open (snd (service_one ref_net 0 ?w))) = {3, 5}" by (auto simp: mixed_answers_def)
  ultimately show ?thesis using down(1) by simp
qed

text \<open>
  C39. A request of the probe leaves one row, with the time at which it was due and marked as answered
  only if the server sent status 200 - or it leaves none: exactly when the exchange raised something
  that is not an \<open>OSError\<close>, such as the \<open>HTTPException\<close> for a response that is cut off.
\<close>

theorem probe_row_or_none:
  assumes "network net clk opened failed okw" "okw w" "probe_request net clk t0 i (rows, w) = (r, (rows', w'))"
  defines "conn \<equiv> connect net WEB (snd (clk_monotonic clk w))"
  shows "(\<exists>ok ms. rows' = rows @ [(py_fixed 2 (fl (t0 + fl (of_nat i / 10))), ok, ms)] \<and> r = Inr () \<and>
      (ok = 1 \<longleftrightarrow> (\<exists>s w1. conn = (Inr s, w1) \<and> fst (net_exchange net s ''/'' w1) = Inr 200))) \<or>
    rows' = rows \<and> (\<exists>s w1 e. conn = (Inr s, w1) \<and> fst (net_exchange net s ''/'' w1) = Inl e \<and> \<not> is_os_error e \<and> r = Inl e)"
proof -
  obtain r1 w1 where 1: "clients_get net clk ''/'' w = (r1, w1)" by fastforce
  note run = network.get_run [OF assms(1,2) 1, folded conn_def]
  show ?thesis
  proof (cases r1)
    case (Inr ms)
    with 1 run assms(3) show ?thesis by (auto simp: probe_request_def probe_one_def)
  next
    case (Inl e)
    have no: "fst (net_exchange net s ''/'' w1) \<noteq> Inr 200" if "conn = (Inr s, w1)" for s w1
      using that 1 Inl by (auto simp: conn_def clients_get_def http_get_def io_finally_def io_simps split: prod.splits)
    show ?thesis
    proof (cases "is_os_error e")
      case True
      with 1 Inl assms(3) no show ?thesis by (auto simp: probe_request_def probe_one_def)
    next
      case False
      with 1 Inl run assms(3) show ?thesis by (auto simp: probe_request_def)
    qed
  qed
qed

definition cut_off :: net_world where
  "cut_off = \<lparr>nw_next = 5, nw_open = [], nw_failed = [], nw_device = True, nw_answers = [Cut_Off], nw_clock = 0\<rparr>"

theorem probe_row_or_none_witness:
  "fst (snd (probe_request ref_net ref_net_clk 1700000000 7 ([], cut_off))) = [] \<and>
   fst (probe_request ref_net ref_net_clk 1700000000 7 ([], cut_off)) = Inl HTTPException"
proof -
  have "nw_ok cut_off" by (simp add: nw_ok_def cut_off_def)
  obtain r rows' w' where run: "probe_request ref_net ref_net_clk 1700000000 7 ([], cut_off) = (r, (rows', w'))"
    by (metis prod.collapse)
  have "fst (probe_request ref_net ref_net_clk 1700000000 7 ([], cut_off)) = Inl HTTPException" by code_simp
  with probe_row_or_none [OF rn.network_axioms \<open>nw_ok cut_off\<close> run] run show ?thesis by auto
qed

section \<open>Loops over the clock end\<close>

lemma clock_loop_ends:
  assumes tick: "\<And>w. P w \<Longrightarrow> fst (clk_monotonic clk w) = now w \<and> P (snd (clk_monotonic clk w)) \<and> now w + d \<le> now (snd (clk_monotonic clk w))"
    and body: "\<And>w. P w \<Longrightarrow> \<exists>w'. body w = (Inr (), w') \<and> P w' \<and> now w \<le> now w'"
    and "P w" "fin \<le> now w + of_nat n * d"
  shows "\<exists>w'. clock_loop (Suc n) clk fin body w = (Inr (), w')"
  using assms(3,4)
proof (induction n arbitrary: w)
  case 0
  then show ?case using tick [of w] by (simp add: io_simps)
next
  case (Suc n)
  let ?w1 = "snd (clk_monotonic clk w)"
  from tick [OF Suc.prems(1)] have w1: "fst (clk_monotonic clk w) = now w" "P ?w1" "now w + d \<le> now ?w1" by auto
  show ?case
  proof (cases "now w < fin")
    case True
    obtain w2 where w2: "body ?w1 = (Inr (), w2)" "P w2" "now ?w1 \<le> now w2" using body [OF w1(2)] by blast
    have "fin \<le> now w2 + of_nat n * d" using Suc.prems(2) w1(3) w2(3) by (simp add: algebra_simps)
    from Suc.IH [OF w2(2) this] obtain w' where "clock_loop (Suc n) clk fin body w2 = (Inr (), w')" by blast
    then show ?thesis using True w1(1) w2(1) unfolding clock_loop.simps(2) [of "Suc n"] by (simp add: io_simps del: clock_loop.simps)
  next
    case False
    then show ?thesis using w1(1) by (simp add: io_simps)
  qed
qed

text \<open>
  The download ends when its time is over, if each reading of the clock is at least \<open>d\<close> later than the
  one before and the requests raise nothing but \<open>OSError\<close>: \<open>n + 1\<close> turns are enough for a duration of \<open>n\<close>
  times \<open>d\<close>.
\<close>

theorem download_ends:
  assumes "\<And>w. P w \<Longrightarrow> fst (clk_monotonic clk w) = now w \<and> P (snd (clk_monotonic clk w)) \<and> now w + d \<le> now (snd (clk_monotonic clk w))"
    and "\<And>w r w'. P w \<Longrightarrow> clients_get net clk ''/big.bin'' w = (r, w') \<Longrightarrow> P w' \<and> now w \<le> now w' \<and> (\<forall>e. r = Inl e \<longrightarrow> is_os_error e)"
    and "P w" "0 \<le> d" "fl (now w + seconds) \<le> now w + of_nat n * d"
  shows "\<exists>w'. download (Suc n) net clk seconds w = (Inr (), w')"
proof -
  let ?w1 = "snd (clk_monotonic clk w)"
  from assms(1) [OF assms(3)] have w1: "fst (clk_monotonic clk w) = now w" "P ?w1" "now w + d \<le> now ?w1" by auto
  have "\<exists>w'. quietly (clients_get net clk ''/big.bin'') w = (Inr (), w') \<and> P w' \<and> now w \<le> now w'" if "P w" for w
  proof -
    obtain r w' where run: "clients_get net clk ''/big.bin'' w = (r, w')" by fastforce
    from assms(2) [OF that run] run show ?thesis by (cases r) (auto simp: quietly_def)
  qed
  moreover have "fl (now w + seconds) \<le> now ?w1 + of_nat n * d" using assms(4,5) w1(3) by linarith
  ultimately have "\<exists>w'. clock_loop (Suc n) clk (fl (now w + seconds)) (quietly (clients_get net clk ''/big.bin'')) ?w1 = (Inr (), w')"
    by (intro clock_loop_ends [OF assms(1)]) (use w1(2) in auto)
  then show ?thesis using w1(1) by (simp add: download_def io_simps del: clock_loop.simps)
qed

section \<open>Typing a client\<close>

fun client_words :: "(pyfloat \<Rightarrow> string) \<Rightarrow> client_cmd \<Rightarrow> string list" where
  "client_words sf (Serve dir ports) = ''serve'' # dir # map py_str_int ports"
| "client_words sf (Probe t out) = [''probe'', sf t, out]"
| "client_words sf (Browse t) = [''browse'', sf t]"
| "client_words sf (Download t) = [''download'', sf t]"
| "client_words sf (Upload t) = [''upload'', sf t]"
| "client_words sf (Nat t n) = [''nat'', sf t, py_str_int n]"
| "client_words sf (Udp t n) = [''udp'', sf t, py_str_int n]"
| "client_words sf (Services t) = [''services'', sf t]"
| "client_words sf (Watch t out) = [''watch'', sf t, out]"

fun client_typable :: "(pyfloat \<Rightarrow> string) \<Rightarrow> client_cmd \<Rightarrow> bool" where
  "client_typable sf (Serve dir ports) \<longleftrightarrow> list_all int_ok ports"
| "client_typable sf (Probe t out) \<longleftrightarrow> py_float (sf t) = Inr t"
| "client_typable sf (Browse t) \<longleftrightarrow> py_float (sf t) = Inr t"
| "client_typable sf (Download t) \<longleftrightarrow> py_float (sf t) = Inr t"
| "client_typable sf (Upload t) \<longleftrightarrow> py_float (sf t) = Inr t"
| "client_typable sf (Nat t n) \<longleftrightarrow> py_float (sf t) = Inr t \<and> int_ok n"
| "client_typable sf (Udp t n) \<longleftrightarrow> py_float (sf t) = Inr t \<and> int_ok n"
| "client_typable sf (Services t) \<longleftrightarrow> py_float (sf t) = Inr t"
| "client_typable sf (Watch t out) \<longleftrightarrow> py_float (sf t) = Inr t"

text \<open>Every client can be called, and \<open>main\<close> calls it with the arguments that were typed.\<close>

theorem client_words_roundtrip:
  assumes "client_typable sf c"
  shows "clients_program (client_words sf c) = Some (Inr c)"
proof (cases c)
  case (Serve dir ports)
  with assms have "result_list py_int_of_str (map py_str_int ports) = Inr ports"
    by (simp add: result_list_Inr list_all2_map1 list_all2_same list_all_iff int_ok_def int_of_str_int)
  with Serve show ?thesis by (simp add: clients_program_def clients_main_def nth_arg_def)
qed (use assms in \<open>simp_all add: clients_program_def clients_main_def nth_arg_def int_ok_def int_of_str_int\<close>)

text \<open>A client that is not in the table, one whose second argument is missing, and no number of seconds.\<close>

theorem clients_program_errors:
  "length words < 2 \<Longrightarrow> clients_program words = None"
  "py_float t = Inr q \<Longrightarrow> cmd \<notin> {''serve'', ''probe'', ''browse'', ''download'', ''upload'', ''nat'', ''udp'', ''services'', ''watch''} \<Longrightarrow>
     clients_program (cmd # t # args) = Some (Inl KeyError)"
  "py_float t = Inr q \<Longrightarrow> cmd \<in> {''probe'', ''nat'', ''udp'', ''watch''} \<Longrightarrow> clients_program [cmd, t] = Some (Inl IndexError)"
  "py_float t = Inl e \<Longrightarrow> cmd \<noteq> ''serve'' \<Longrightarrow> clients_program (cmd # t # args) = Some (Inl e)"
proof -
  show "length words < 2 \<Longrightarrow> clients_program words = None" by (simp add: clients_program_def)
  show "clients_program (cmd # t # args) = Some (Inl KeyError)"
    if "py_float t = Inr q" "cmd \<notin> {''serve'', ''probe'', ''browse'', ''download'', ''upload'', ''nat'', ''udp'', ''services'', ''watch''}"
    using that by (simp add: clients_program_def clients_main_def nth_arg_def)
  show "clients_program [cmd, t] = Some (Inl IndexError)" if t: "py_float t = Inr q" and cmd: "cmd \<in> {''probe'', ''nat'', ''udp'', ''watch''}"
    using cmd unfolding insert_iff empty_iff
    by (elim disjE FalseE) (simp_all add: t clients_program_def clients_main_def nth_arg_def)
  show "clients_program (cmd # t # args) = Some (Inl e)" if "py_float t = Inl e" "cmd \<noteq> ''serve''"
    using that by (simp add: clients_program_def clients_main_def nth_arg_def)
qed

end
