(* ===== verification/Bench_Figures.thy ===== *)
theory Bench_Figures
  imports Bench_Eval
begin

text \<open>
  What the benchmark's figures show and the main programs of \<open>bench/plot.py\<close> and
  \<open>bench/eval_report.py\<close>. A figure is the data that the scripts hand to matplotlib: the bars with their
  error bars, the steps of the latency curves and the dots of the detection chart, with their
  labels. Drawing is a parameter of the main programs; colours, fonts and layout are left out.
\<close>

section \<open>The CPU chart\<close>

text \<open>A bar: its position, its height, and how far its error bar goes down and up.\<close>

record bar =
  bar_x :: rat
  bar_height :: rat
  bar_below :: rat
  bar_above :: rat

definition bar_width :: "nat \<Rightarrow> rat result" where
  "bar_width n = py_truediv (fl (4 / 5)) (of_nat n)"

text \<open>\<open>j + (i - (n - 1) / 2) * width\<close>\<close>

definition bar_position :: "nat \<Rightarrow> rat \<Rightarrow> int \<Rightarrow> int \<Rightarrow> rat" where
  "bar_position n width j i = fl (of_int j + fl (fl (of_int i - fl (of_int (int n - 1) / 2)) * width))"

definition chart_bar :: "rat \<Rightarrow> csv_row list \<Rightarrow> bar result" where
  "chart_bar x rows =
     result_bind (result_list (\<lambda>r. result_map (\<lambda>ns. fl (ns / 100)) (float_field r ''ns_per_pkt'')) rows) (\<lambda>v.
     result_bind (core_pct rows) (\<lambda>m.
     result_bind (py_min v) (\<lambda>lo.
     result_bind (py_max v) (\<lambda>hi.
     Inr \<lparr>bar_x = x, bar_height = m, bar_below = fl (m - lo), bar_above = fl (hi - m)\<rparr>))))"

definition chart_series :: "plot_data \<Rightarrow> plot_key list \<Rightarrow> nat \<Rightarrow> rat \<Rightarrow> int \<times> string \<Rightarrow> (string \<times> bar list) result" where
  "chart_series data keys n width = (\<lambda>(i, s).
     result_map (Pair s)
       (result_list (\<lambda>(j, k). chart_bar (bar_position n width j i) (dict_get (dict_get data k []) s []))
         (filter (\<lambda>(j, k). dict_get (dict_get data k []) s [] \<noteq> []) (py_enumerate keys))))"

definition sender_label :: "plot_key \<Rightarrow> string" where
  "sender_label k = concat [py_str_int (snd k), '' sender'', if snd k > 1 then ''s'' else []]"

text \<open>A panel: the labels below the groups of bars and the bars of each system.\<close>

type_synonym chart_data = "(string \<times> string list \<times> (string \<times> bar list) list) list"

definition chart_panel :: "plot_data \<Rightarrow> string \<Rightarrow> (string \<times> string list \<times> (string \<times> bar list) list) result" where
  "chart_panel data wl =
     (let keys = filter (\<lambda>k. fst k = wl) (plot_points data);
          systems = filter (\<lambda>s. list_ex (\<lambda>k. map_of (dict_get data k []) s \<noteq> None) keys) PLOT_SYSTEMS in
      result_bind (bar_width (length systems)) (\<lambda>width.
      result_map (\<lambda>series. (dict_get WORKLOADS wl [], map sender_label keys, series))
        (result_list (chart_series data keys (length systems) width) (py_enumerate systems))))"

definition chart :: "plot_data \<Rightarrow> chart_data result" where
  "chart data = result_list (chart_panel data) (filter (\<lambda>w. list_ex (\<lambda>k. fst k = w) (map fst data)) (map fst WORKLOADS))"

definition bar_label :: "bar \<Rightarrow> string" where
  "bar_label b = py_fixed 1 (bar_height b)"

section \<open>What reaches the network stack\<close>

type_synonym load_data = "(string \<times> string, (string, rat \<times> rat \<times> rat) dict) dict"

definition STACK_PANELS :: "(string \<times> rat) list" where
  "STACK_PANELS = [(''ip_pps'', fl (1 / 1000)), (''softirq_pct'', 1)]"

definition stack_bar :: "rat \<Rightarrow> rat \<Rightarrow> rat \<times> rat \<times> rat \<Rightarrow> bar" where
  "stack_bar x scale = (\<lambda>(m, mn, mx).
     \<lparr>bar_x = x, bar_height = fl (m * scale), bar_below = fl (fl (m * scale) - fl (mn * scale)),
      bar_above = fl (fl (mx * scale) - fl (m * scale))\<rparr>)"

definition stack_series :: "load_data \<Rightarrow> string list \<Rightarrow> string \<times> rat \<Rightarrow> rat \<Rightarrow> int \<times> string \<Rightarrow> (string \<times> bar list) result" where
  "stack_series load attacks = (\<lambda>(field, scale) width (i, s).
     result_map (Pair s)
       (result_list (\<lambda>(j, a).
           result_bind (dict_index load (a, s)) (\<lambda>d.
           result_map (stack_bar (bar_position (length EVAL_SYSTEMS) width j i) scale) (dict_index d field)))
         (filter (\<lambda>(j, a). map_of load (a, s) \<noteq> None) (py_enumerate attacks))))"

definition stack_chart :: "load_data \<Rightarrow> string list \<Rightarrow> (string \<times> bar list) list list result" where
  "stack_chart load attacks =
     result_bind (bar_width (length EVAL_SYSTEMS)) (\<lambda>width.
     result_list (\<lambda>panel. result_list (stack_series load attacks panel width) (py_enumerate EVAL_SYSTEMS)) STACK_PANELS)"

definition stack_label :: "string \<Rightarrow> rat \<Rightarrow> string" where
  "stack_label field v =
     (if field = ''ip_pps'' \<and> v < 10 then py_fixed 1 v @ ''k''
      else if field = ''ip_pps'' then py_fixed 0 v @ ''k'' else py_fixed 1 v @ ''%'')"

section \<open>Response times\<close>

text \<open>The steps of one curve: after each response time, the share of requests slower than it.\<close>

definition latency_steps :: "rat list \<Rightarrow> (rat \<times> rat) list" where
  "latency_steps v = zip v (map (\<lambda>i. fl (1 - fl (of_nat (i + 1) / of_nat (length v)))) [0..<length v])"

definition latency_chart :: "(string \<times> string, rat list) dict \<Rightarrow> string list \<Rightarrow> (string \<times> (rat \<times> rat) list) list list" where
  "latency_chart spread attacks =
     map (\<lambda>a. map (\<lambda>s. (s, latency_steps (dict_get spread (a, s) [])))
       (filter (\<lambda>s. dict_get spread (a, s) [] \<noteq> []) EVAL_SYSTEMS)) attacks"

section \<open>The detection chart\<close>

definition ATTACK_ROWS :: "(string, string \<times> rat option \<times> string) dict" where
  "ATTACK_ROWS =
     [(''syn_flood'', ''SYN flood'', Some 40, ''> 40 SYNs/s that never close''),
      (''udp_flood'', ''UDP flood'', Some 8000, ''> 8,000 pps, small packets''),
      (''icmp_flood'', ''ICMP flood'', Some 2000, ''> 2,000 pps''),
      (''port_scan'', ''port scan'', None, ''> 24 ports in total, any rate'')]"

definition NORMAL_ROWS :: "(string \<times> string, string) dict" where
  "NORMAL_ROWS =
     [((''browse'', ''-''), ''page loads''),
      ((''download'', ''-''), ''large download''),
      ((''upload'', ''-''), ''large upload''),
      ((''nat'', ''100''), ''100 users, one address''),
      ((''nat'', ''1000''), ''1,000 users, one address''),
      ((''udp'', ''1000''), ''UDP client, 1,000 pps''),
      ((''udp'', ''10000''), ''UDP client, 10,000 pps''),
      ((''services'', ''-''), ''a new port every second'')]"

text \<open>
  The rows of the chart from top to bottom: their labels, and the row of each kind of traffic. A
  tuple that is a key of \<open>ys\<close> is the list of its members.
\<close>

type_synonym chart_rows = "string list \<times> (string list, nat) dict"

definition add_row :: "string list \<times> string \<Rightarrow> chart_rows \<Rightarrow> chart_rows" where
  "add_row = (\<lambda>(key, name) (labels, ys). (labels @ [name], dict_set key (length labels) ys))"

definition attack_keys :: "det_point list \<Rightarrow> (string list \<times> string) list" where
  "attack_keys points = map (\<lambda>(t, name, _). ([''attack'', t], name))
     (filter (\<lambda>(t, _). list_ex (\<lambda>(k, _). fst k = ''attack'' \<and> fst (snd k) = t) points) ATTACK_ROWS)"

definition normal_keys :: "det_point list \<Rightarrow> (string list \<times> string) list" where
  "normal_keys points = map (\<lambda>((traffic, setting), name). ([''normal'', traffic, setting], name))
     (filter (\<lambda>(key, _). list_ex (\<lambda>(k, _). fst k = ''normal'' \<and> snd k = key) points) NORMAL_ROWS)"

definition detection_rows :: "det_point list \<Rightarrow> chart_rows" where
  "detection_rows points =
     (case fold add_row (attack_keys points) ([], []) of
        (labels, ys) \<Rightarrow> fold add_row (normal_keys points) (labels @ [[]], ys))"

text \<open>A dot: filled if the source was blocked in every run, round if in every run or in none.\<close>

record dot =
  dot_x :: rat
  dot_y :: nat
  dot_filled :: bool
  dot_round :: bool

definition point_key :: "det_key \<Rightarrow> string list" where
  "point_key k = (if fst k = ''attack'' then [''attack'', fst (snd k)] else [fst k, fst (snd k), snd (snd k)])"

definition detection_dot :: "(string list, nat) dict \<Rightarrow> det_point \<Rightarrow> dot result" where
  "detection_dot ys = (\<lambda>(k, peak, blocked, n).
     result_map (\<lambda>y. \<lparr>dot_x = max peak 1, dot_y = y, dot_filled = (blocked = n), dot_round = (blocked = n \<or> blocked = 0)\<rparr>)
       (dict_index ys (point_key k)))"

text \<open>The thresholds of the rules drawn into the rows of the attacks.\<close>

definition rule_marks :: "(string list, nat) dict \<Rightarrow> (nat \<times> rat option \<times> string) list" where
  "rule_marks ys = List.map_filter (\<lambda>(t, _, thr, rule).
     map_option (\<lambda>y. (y, if thr = Some 0 then None else thr, ''rule: '' @ rule)) (map_of ys [''attack'', t])) ATTACK_ROWS"

definition detection_chart :: "det_point list \<Rightarrow> (string list \<times> dot list \<times> (nat \<times> rat option \<times> string) list) result" where
  "detection_chart points =
     (case detection_rows points of (labels, ys) \<Rightarrow>
        result_map (\<lambda>dots. (labels, dots, rule_marks ys)) (result_list (detection_dot ys) points))"

section \<open>The main programs\<close>

text \<open>
  What a run of a report leaves: the file \<open>summary.txt\<close> if it was written, the lines printed, and how
  it ended. matplotlib is \<open>None\<close> if it is not installed and otherwise what it does with the data of a
  figure. When both the data and the drawing fail, the model reports the first failure of the data.
\<close>

datatype run_end = Usage | Raised exn | Finished

record report =
  summary_file :: "string option"
  printed :: "string list"
  run_ended :: run_end

datatype figure =
    CpuFigure chart_data
  | StackFigure "(string \<times> bar list) list list"
  | LatencyFigure "(string \<times> (rat \<times> rat) list) list list"
  | DetectionFigure "string list \<times> dot list \<times> (nat \<times> rat option \<times> string) list"

type_synonym matplotlib = "(figure \<Rightarrow> unit result) option"

text \<open>\<open>for draw in charts: draw()\<close>, each chart with the name of its file.\<close>

fun draw_all :: "(figure \<Rightarrow> unit result) \<Rightarrow> string \<Rightarrow> (string \<times> figure result) list \<Rightarrow> report \<Rightarrow> report" where
  "draw_all draw d [] rep = rep\<lparr>run_ended := Finished\<rparr>"
| "draw_all draw d ((name, fig) # charts) rep =
     (case result_bind fig draw of
        Inl e \<Rightarrow> rep\<lparr>run_ended := Raised e\<rparr>
      | Inr _ \<Rightarrow> draw_all draw d charts (rep\<lparr>printed := printed rep @ [concat [''wrote '', d, ''/'', name]]\<rparr>))"

text \<open>The end of both programs: the file, its text on the screen, and the charts.\<close>

definition finish_report :: "matplotlib \<Rightarrow> string \<Rightarrow> string \<Rightarrow> string \<Rightarrow> (string \<times> figure result) list \<Rightarrow> report" where
  "finish_report plt d text skip_line charts =
     (let rep = \<lparr>summary_file = Some (text @ [CHR 0x0A]), printed = [text, concat [[CHR 0x0A], ''wrote '', d, ''/summary.txt'']],
         run_ended = Finished\<rparr> in
      case plt of
        None \<Rightarrow> rep\<lparr>printed := printed rep @ [skip_line]\<rparr>
      | Some draw \<Rightarrow> draw_all draw d charts rep)"

definition no_report :: "run_end \<Rightarrow> report" where
  "no_report e = \<lparr>summary_file = None, printed = [], run_ended = e\<rparr>"

definition plot_main :: "matplotlib \<Rightarrow> csv_files \<Rightarrow> log_files \<Rightarrow> string list \<Rightarrow> report" where
  "plot_main plt files texts argv =
     (if length argv \<noteq> 2 \<or> files (path_join (argv ! 1) ''results.csv'') = None then no_report Usage
      else let d = argv ! 1; env = (case texts (path_join d ''environment.txt'') of None \<Rightarrow> [] | Some t \<Rightarrow> t) in
        case result_bind (csv_rows files (path_join d ''results.csv'')) (\<lambda>rs. plot_load rs []) of
          Inl e \<Rightarrow> no_report (Raised e)
        | Inr data \<Rightarrow>
            (case plot_summary data env of
               Inl e \<Rightarrow> no_report (Raised e)
             | Inr text \<Rightarrow> finish_report plt d text ''matplotlib not installed, skipping the chart''
                 [(''cpu.png'', result_map CpuFigure (chart data))]))"

text \<open>\<open>probes\<close>: whether there is a file \<open>probe-*.csv\<close> in the directory.\<close>

definition eval_body :: "csv_files \<Rightarrow> log_files \<Rightarrow> bool \<Rightarrow> string \<Rightarrow> string \<Rightarrow> (string \<times> (string \<times> figure result) list) result" where
  "eval_body files texts probes d env =
     (if probes then
        result_map (\<lambda>(text, spread, load, attacks). (text,
            [(''stack.png'', result_map StackFigure (stack_chart load attacks)),
             (''latency.png'', Inr (LatencyFigure (latency_chart spread attacks)))]))
          (collateral files d (case search_cpus True env of Some n \<Rightarrow> n | None \<Rightarrow> 1))
      else
        result_map (\<lambda>(text, points). (text, [(''detection.png'', result_map DetectionFigure (detection_chart points))]))
          (detection files texts d))"

definition env_head :: "string \<Rightarrow> string \<Rightarrow> string" where
  "env_head env text = concat [''environment'', [CHR 0x0A], ''-----------'', [CHR 0x0A], env, [CHR 0x0A, CHR 0x0A], text]"

definition eval_main :: "matplotlib \<Rightarrow> csv_files \<Rightarrow> log_files \<Rightarrow> bool \<Rightarrow> string list \<Rightarrow> report" where
  "eval_main plt files texts probes argv =
     (if length argv \<noteq> 2 \<or> files (path_join (argv ! 1) ''runs.csv'') = None then no_report Usage
      else let d = argv ! 1 in
        case texts (path_join d ''environment.txt'') of
          None \<Rightarrow> no_report (Raised OSError)
        | Some t \<Rightarrow> let env = py_rstrip t in
            (case eval_body files texts probes d env of
               Inl e \<Rightarrow> no_report (Raised e)
             | Inr (text, charts) \<Rightarrow>
                 finish_report plt d (env_head env text) ''matplotlib not installed, skipping the figures'' charts))"

section \<open>Bars\<close>

text \<open>Rounding keeps the order of the smallest, the middle and the largest value.\<close>

lemma result_list_mono_map:
  assumes "result_list (\<lambda>r. result_map g (f r)) xs = Inr ys" "result_list f xs = Inr zs"
  shows "ys = map g zs"
  using assms
proof (induction xs arbitrary: ys zs)
  case (Cons x xs)
  then show ?case by (cases "f x") (auto simp: result_bind_Inr result_map_Inr)
qed simp

lemma fields_double: "result_list (\<lambda>r. float_field r f) rows = Inr v \<Longrightarrow> x \<in> set v \<Longrightarrow> is_double x"
  by (auto simp: float_field_def result_bind_Inr dest!: result_list_mem float_is_double)

lemma result_list_nonempty: "result_list f xs = Inr ys \<Longrightarrow> ys = [] \<longleftrightarrow> xs = []"
  by (cases xs) (auto simp: result_bind_Inr result_map_Inr)

lemma chart_bar_nonneg:
  assumes "chart_bar x rows = Inr b"
  shows "0 \<le> bar_below b \<and> 0 \<le> bar_above b"
proof -
  obtain v m lo hi where v: "result_list (\<lambda>r. result_map (\<lambda>ns. fl (ns / 100)) (float_field r ''ns_per_pkt'')) rows = Inr v"
    and m: "core_pct rows = Inr m" and lo: "py_min v = Inr lo" and hi: "py_max v = Inr hi"
    and b: "b = \<lparr>bar_x = x, bar_height = m, bar_below = fl (m - lo), bar_above = fl (hi - m)\<rparr>"
    using assms by (auto simp: chart_bar_def result_bind_Inr)
  obtain ns p where ns: "result_list (\<lambda>r. float_field r ''ns_per_pkt'') rows = Inr ns" and p: "py_median ns = Inr p" "m = fl (p / 100)"
    using m by (auto simp: core_pct_def med_def result_bind_Inr result_map_Inr)
  have vs: "v = map (\<lambda>ns. fl (ns / 100)) ns" by (rule result_list_mono_map [OF v ns])
  have ne: "ns \<noteq> []" using p(1) by (auto simp: py_median_def)
  note mid = median_bounds [OF p(1) fields_double [OF ns]]
  have "lo \<le> fl (Min (set ns) / 100)" using lo ne by (auto simp: vs py_min_Inr intro!: Min_le)
  also have "\<dots> \<le> m" unfolding p(2) using mid by (intro fl_mono divide_right_mono) simp_all
  finally have "lo \<le> m" .
  have "m \<le> fl (Max (set ns) / 100)" unfolding p(2) using mid by (intro fl_mono divide_right_mono) simp_all
  also have "\<dots> \<le> hi" using hi ne by (auto simp: vs py_max_Inr intro!: Max_ge)
  finally show ?thesis using \<open>lo \<le> m\<close> by (simp add: b)
qed

lemma stack_bar_nonneg: "mn \<le> m \<Longrightarrow> m \<le> mx \<Longrightarrow> 0 \<le> scale \<Longrightarrow>
  0 \<le> bar_below (stack_bar x scale (m, mn, mx)) \<and> 0 \<le> bar_above (stack_bar x scale (m, mn, mx))"
  by (simp add: stack_bar_def fl_mono mult_right_mono)

lemma load_of_ordered:
  assumes "load_of rs f = Inr (m, mn, mx)"
  shows "mn \<le> m \<and> m \<le> mx"
proof -
  obtain v where v: "result_list (\<lambda>r. float_field r f) rs = Inr v" "py_median v = Inr m" "py_min v = Inr mn" "py_max v = Inr mx"
    using assms by (auto simp: load_of_def med_def result_bind_Inr result_map_Inr)
  have "v \<noteq> []" using v(2) by (auto simp: py_median_def)
  with median_bounds [OF v(2) fields_double [OF v(1)]] v(3,4) show ?thesis by (simp add: py_min_Inr py_max_Inr)
qed

lemma chart_member:
  assumes "chart data = Inr panels" "(title, ticks, series) \<in> set panels" "(s, bars) \<in> set series" "b \<in> set bars"
  obtains x rows where "chart_bar x rows = Inr b"
proof -
  obtain wl where "chart_panel data wl = Inr (title, ticks, series)" using result_list_mem [OF assms(1) [unfolded chart_def] assms(2)] by auto
  then obtain n keys width systems where "result_list (chart_series data keys n width) (py_enumerate systems) = Inr series"
    unfolding chart_panel_def Let_def result_bind_Inr result_map_Inr by blast
  from result_list_mem [OF this assms(3)] obtain i s' where "chart_series data keys n width (i, s') = Inr (s, bars)" by auto
  then obtain jks where "result_list (\<lambda>(j, k). chart_bar (bar_position n width j i) (dict_get (dict_get data k []) s' [])) jks = Inr bars"
    unfolding chart_series_def prod.case result_map_Inr by blast
  from result_list_mem [OF this assms(4)] that show thesis by auto
qed

text \<open>What the collateral table hands to the figure: for each attack and system the two measures, in order.\<close>

definition load_entry_ok :: "(string, rat \<times> rat \<times> rat) dict \<Rightarrow> bool" where
  "load_entry_ok d \<longleftrightarrow> map fst d = [''ip_pps'', ''softirq_pct''] \<and> list_all (\<lambda>(_, m, mn, mx). mn \<le> m \<and> m \<le> mx) d"

lemma system_part_load: "system_part files d ncpu a s rs = Inr part \<Longrightarrow> load_entry_ok (cp_load part)"
  by (auto simp: system_part_def load_entry_ok_def result_bind_Inr Let_def dest!: load_of_ordered)

lemma collateral_load:
  assumes "collateral files d ncpu = Inr (text, spread, load, attacks)" "(k, e) \<in> set load"
  shows "load_entry_ok e"
proof -
  obtain by_run as parts where parts: "result_list (attack_part files d ncpu by_run) as = Inr parts"
    "load = concat (map (\<lambda>(a, ps). map (\<lambda>(s, p). ((a, s), cp_load p)) ps) (zip as parts))"
    using assms(1) by (auto simp: collateral_def result_bind_Inr Let_def)
  then obtain ps s p where p: "ps \<in> set parts" "(s, p) \<in> set ps" "e = cp_load p" using assms(2) by (auto dest: set_zip_rightD)
  obtain a where "attack_part files d ncpu by_run a = Inr ps" using result_list_mem [OF parts(1) p(1)] by blast
  from result_list_mem [OF this [unfolded attack_part_def] p(2)] show ?thesis
    by (auto simp: result_map_Inr p(3) intro: system_part_load)
qed

lemma stack_series_ok:
  assumes "\<And>k e. (k, e) \<in> set load \<Longrightarrow> load_entry_ok e" "field \<in> {''ip_pps'', ''softirq_pct''}" "0 \<le> scale"
  shows "\<exists>bars. stack_series load attacks (field, scale) width (i, s) = Inr (s, bars) \<and>
    (\<forall>b \<in> set bars. 0 \<le> bar_below b \<and> 0 \<le> bar_above b)"
proof -
  let ?f = "\<lambda>(j, a). result_bind (dict_index load (a, s)) (\<lambda>d.
    result_map (stack_bar (bar_position (length EVAL_SYSTEMS) width j i) scale) (dict_index d field))"
  have one: "\<exists>b. ?f (j, a) = Inr b \<and> 0 \<le> bar_below b \<and> 0 \<le> bar_above b" if some: "map_of load (a, s) \<noteq> None" for j a
  proof -
    obtain e where e: "map_of load (a, s) = Some e" using some by blast
    then have ok: "load_entry_ok e" using assms(1) map_of_SomeD by metis
    then obtain ip sq where e': "e = [(''ip_pps'', ip), (''softirq_pct'', sq)]"
      by (auto simp: load_entry_ok_def map_eq_Cons_conv)
    have "\<exists>v \<in> {ip, sq}. dict_index e field = Inr v" using assms(2) by (auto simp: e' dict_index_def)
    then obtain m mn mx where v: "dict_index e field = Inr (m, mn, mx)" "(m, mn, mx) \<in> {ip, sq}" by (metis prod_cases3)
    have "mn \<le> m \<and> m \<le> mx" using ok v(2) by (auto simp: load_entry_ok_def e')
    with stack_bar_nonneg [OF _ _ assms(3)] show ?thesis using e v(1) by (simp add: dict_index_def)
  qed
  have "\<exists>bars. result_list ?f js = Inr bars \<and> (\<forall>b \<in> set bars. 0 \<le> bar_below b \<and> 0 \<le> bar_above b)"
    if "\<forall>(j, a) \<in> set js. map_of load (a, s) \<noteq> None" for js
    using that
  proof (induction js)
    case (Cons ja js)
    obtain j a where "ja = (j, a)" by fastforce
    with Cons one [of a j] show ?case by auto
  qed simp
  from this [of "filter (\<lambda>(j, a). map_of load (a, s) \<noteq> None) (py_enumerate attacks)"] show ?thesis
    by (auto simp: stack_series_def)
qed

lemma result_list_all:
  assumes "\<And>x. x \<in> set xs \<Longrightarrow> \<exists>y. f x = Inr y \<and> P y"
  shows "\<exists>ys. result_list f xs = Inr ys \<and> (\<forall>y \<in> set ys. P y)"
  using assms
proof (induction xs)
  case (Cons x xs)
  then obtain y ys where "f x = Inr y" "P y" "result_list f xs = Inr ys" "\<forall>y \<in> set ys. P y" by (metis list.set_intros)
  then show ?case by simp
qed simp

section \<open>Curves\<close>

lemma share_at:
  assumes "sorted v" "i < length v" "Suc i = length v \<or> v ! i < v ! Suc i"
  shows "length (filter (\<lambda>x. x \<le> v ! i) v) = Suc i"
proof -
  have "x \<le> v ! i" if "x \<in> set (take (Suc i) v)" for x
    using that assms(1,2) sorted_nth_mono [of v _ i] by (auto simp: in_set_conv_nth)
  then have "filter (\<lambda>x. x \<le> v ! i) (take (Suc i) v) = take (Suc i) v" by (simp add: filter_id_conv)
  moreover have "v ! i < x" if x: "x \<in> set (drop (Suc i) v)" for x
  proof -
    obtain j where "j < length v - Suc i" "x = v ! (Suc i + j)" using x by (auto simp: in_set_conv_nth)
    then show ?thesis using assms sorted_nth_mono [of v "Suc i" "Suc i + j"] by force
  qed
  then have "filter (\<lambda>x. x \<le> v ! i) (drop (Suc i) v) = []" by (auto simp: filter_empty_conv not_le)
  ultimately have "filter (\<lambda>x. x \<le> v ! i) (take (Suc i) v @ drop (Suc i) v) = take (Suc i) v" by (simp only: filter_append) simp
  then show ?thesis using assms(2) by simp
qed

section \<open>Rows of the detection chart\<close>

lemma dict_set_of: "map_of (dict_set k v d) = (map_of d)(k \<mapsto> v)"
  by (induction d) (auto simp: dict_set_def fun_eq_iff)

text \<open>Every key that is in \<open>ys\<close> belongs to the row that has its name.\<close>

definition rows_ok :: "(string list \<times> string) set \<Rightarrow> chart_rows \<Rightarrow> bool" where
  "rows_ok named = (\<lambda>(labels, ys). \<forall>k y. map_of ys k = Some y \<longrightarrow> y < length labels \<and> (k, labels ! y) \<in> named)"

lemma add_rows_ok:
  "rows_ok named st \<Longrightarrow> set rows \<subseteq> named \<Longrightarrow> fold add_row rows st = (labels, ys) \<Longrightarrow>
   rows_ok named (labels, ys) \<and> dom (map_of ys) = dom (map_of (snd st)) \<union> fst ` set rows"
proof (induction rows arbitrary: st)
  case (Cons row rows)
  obtain key name l y where p: "row = (key, name)" "st = (l, y)" by fastforce
  have ok: "rows_ok named (add_row row st)"
    using Cons.prems(1,2) by (auto simp: p rows_ok_def add_row_def dict_set_of nth_append less_Suc_eq split: if_splits)
  have "snd (add_row row st) = dict_set key (length l) y" by (simp add: p add_row_def)
  with Cons.IH [OF ok] Cons.prems(2,3) show ?case by (auto simp: p dict_set_of)
qed simp

definition row_names :: "(string list, string) dict" where
  "row_names = map (\<lambda>(t, name, _). ([''attack'', t], name)) ATTACK_ROWS @
     map (\<lambda>((traffic, setting), name). ([''normal'', traffic, setting], name)) NORMAL_ROWS"

lemma row_names_distinct: "distinct (map fst row_names)"
  by code_simp

lemma keys_named: "set (attack_keys points) \<subseteq> set row_names" "set (normal_keys points) \<subseteq> set row_names"
  unfolding attack_keys_def normal_keys_def row_names_def set_map set_append
  by (rule le_supI1, rule image_mono, rule filter_is_subset) (rule le_supI2, rule image_mono, rule filter_is_subset)

lemma key_present:
  assumes "(k, p) \<in> set points" "fst k \<in> {''attack'', ''normal''}" "map_of row_names (point_key k) \<noteq> None"
  shows "point_key k \<in> fst ` (set (attack_keys points) \<union> set (normal_keys points))"
proof -
  obtain kind traffic setting where k: "k = (kind, traffic, setting)" by (cases k)
  have "point_key k \<in> fst ` set row_names" using assms(3) by (metis map_of_eq_None_iff)
  then consider t name r where "(t, name, r) \<in> set ATTACK_ROWS" "point_key k = [''attack'', t]"
    | a b name where "((a, b), name) \<in> set NORMAL_ROWS" "point_key k = [''normal'', a, b]"
    unfolding row_names_def set_append set_map by auto
  then show ?thesis
  proof cases
    case 1
    then have "kind = ''attack''" "traffic = t" using assms(2) by (auto simp: point_key_def k split: if_splits)
    then have "list_ex (\<lambda>(k, _). fst k = ''attack'' \<and> fst (snd k) = t) points" using assms(1) by (auto simp: list_ex_iff k intro!: bexI [of _ "(k, p)"])
    then have "([''attack'', t], name) \<in> set (attack_keys points)" using 1(1)
      unfolding attack_keys_def set_map by (intro image_eqI [of _ _ "(t, name, r)"]) simp_all
    then show ?thesis using 1(2) by (metis Un_iff fst_conv image_eqI)
  next
    case 2
    then have "kind = ''normal''" "traffic = a" "setting = b" using assms(2) by (auto simp: point_key_def k split: if_splits)
    then have "list_ex (\<lambda>(k, _). fst k = ''normal'' \<and> snd k = (a, b)) points" using assms(1) by (auto simp: list_ex_iff k intro!: bexI [of _ "(k, p)"])
    then have "([''normal'', a, b], name) \<in> set (normal_keys points)" using 2(1)
      unfolding normal_keys_def set_map by (intro image_eqI [of _ _ "((a, b), name)"]) simp_all
    then show ?thesis using 2(2) by (metis Un_iff fst_conv image_eqI)
  qed
qed

lemma detection_rows_ok:
  assumes "detection_rows points = (labels, ys)"
  shows "rows_ok (set row_names) (labels, ys)" "dom (map_of ys) = fst ` (set (attack_keys points) \<union> set (normal_keys points))"
proof -
  obtain l y where a: "fold add_row (attack_keys points) ([], []) = (l, y)" by fastforce
  have "rows_ok (set row_names) ([], [])" by (simp add: rows_ok_def)
  note 1 = add_rows_ok [OF this keys_named(1) a]
  then have "rows_ok (set row_names) (l @ [[]], y)" by (auto simp: rows_ok_def nth_append intro: less_SucI)
  note 2 = add_rows_ok [OF this keys_named(2) [of points], of labels ys]
  show "rows_ok (set row_names) (labels, ys)" "dom (map_of ys) = fst ` (set (attack_keys points) \<union> set (normal_keys points))"
    using 1 2 a assms by (auto simp: detection_rows_def)
qed

lemma detection_dot_place:
  assumes "detection_rows points = (labels, ys)" "(k, peak, blocked, n) \<in> set points" "fst k \<in> {''attack'', ''normal''}"
  shows "detection_dot ys (k, peak, blocked, n) = (case map_of row_names (point_key k) of
      None \<Rightarrow> Inl KeyError
    | Some name \<Rightarrow> Inr \<lparr>dot_x = max peak 1, dot_y = the (map_of ys (point_key k)), dot_filled = (blocked = n),
        dot_round = (blocked = n \<or> blocked = 0)\<rparr>)"
    "map_of row_names (point_key k) = Some name \<Longrightarrow> the (map_of ys (point_key k)) < length labels \<and>
      labels ! the (map_of ys (point_key k)) = name"
proof -
  note ok = detection_rows_ok [OF assms(1)]
  have none: "map_of ys (point_key k) = None" if "map_of row_names (point_key k) = None"
  proof (rule ccontr)
    assume "map_of ys (point_key k) \<noteq> None"
    then obtain y where "(point_key k, labels ! y) \<in> set row_names" using ok(1) by (auto simp: rows_ok_def)
    with that show False by (force simp: map_of_eq_None_iff)
  qed
  have some: "\<exists>y. map_of ys (point_key k) = Some y \<and> y < length labels \<and> labels ! y = name" if "map_of row_names (point_key k) = Some name" for name
  proof -
    have "point_key k \<in> dom (map_of ys)" using key_present [OF assms(2,3)] that ok(2) by simp
    then obtain y where y: "map_of ys (point_key k) = Some y" by blast
    then have "y < length labels" "(point_key k, labels ! y) \<in> set row_names" using ok(1) by (auto simp: rows_ok_def)
    with y that map_of_is_SomeI [OF row_names_distinct] show ?thesis by simp
  qed
  show "detection_dot ys (k, peak, blocked, n) = (case map_of row_names (point_key k) of
      None \<Rightarrow> Inl KeyError
    | Some name \<Rightarrow> Inr \<lparr>dot_x = max peak 1, dot_y = the (map_of ys (point_key k)), dot_filled = (blocked = n),
        dot_round = (blocked = n \<or> blocked = 0)\<rparr>)"
    using none some by (cases "map_of row_names (point_key k)") (auto simp: detection_dot_def dict_index_def)
  show "map_of row_names (point_key k) = Some name \<Longrightarrow> the (map_of ys (point_key k)) < length labels \<and>
      labels ! the (map_of ys (point_key k)) = name"
    using some [of name] by auto
qed

lemma result_list_KeyError:
  assumes "\<And>x. x \<in> set xs \<Longrightarrow> f x = (case g x of None \<Rightarrow> Inl KeyError | Some y \<Rightarrow> Inr y)"
  shows "result_list f xs = (if list_all (\<lambda>x. g x \<noteq> None) xs then Inr (map (the \<circ> g) xs) else Inl KeyError)"
  using assms by (induction xs) (auto split: option.splits)

section \<open>The end of a report\<close>

lemma draw_all_keeps: "summary_file (draw_all draw d charts rep) = summary_file rep \<and>
    (\<forall>e. run_ended (draw_all draw d charts rep) = Raised e \<longrightarrow> (\<exists>(name, fig) \<in> set charts. result_bind fig draw = Inl e))"
  by (induction draw d charts rep rule: draw_all.induct) (auto split: sum.splits)

section \<open>Properties\<close>

text \<open>
  The bars of the stack figure can always be drawn from what the collateral table computed: no
  lookup fails, and no error bar has a negative length, which matplotlib refuses; so the median lies
  between the smallest and the largest run also after the numbers were scaled and rounded.
\<close>

theorem stack_error_bars:
  assumes "collateral files d ncpu = Inr (text, spread, load, attacks)"
  shows "\<exists>panels. stack_chart load attacks = Inr panels \<and>
    (\<forall>panel \<in> set panels. \<forall>(s, bars) \<in> set panel. \<forall>b \<in> set bars. 0 \<le> bar_below b \<and> 0 \<le> bar_above b)"
proof -
  let ?fine = "\<lambda>(s :: string, bars). \<forall>b \<in> set bars. 0 \<le> bar_below b \<and> 0 \<le> bar_above b"
  obtain width where w: "bar_width (length EVAL_SYSTEMS) = Inr width" by (simp add: bar_width_def py_truediv_def EVAL_SYSTEMS_def)
  have series: "\<exists>p. stack_series load attacks panel width e = Inr p \<and> ?fine p" if "panel \<in> set STACK_PANELS" for panel e
  proof -
    obtain field scale where "panel = (field, scale)" "field \<in> {''ip_pps'', ''softirq_pct''}" "0 \<le> scale"
      using \<open>panel \<in> set STACK_PANELS\<close> by (auto simp: STACK_PANELS_def)
    with stack_series_ok [of load field scale attacks width "fst e" "snd e"] collateral_load [OF assms] show ?thesis by fastforce
  qed
  have "\<exists>ps. result_list (stack_series load attacks panel width) (py_enumerate EVAL_SYSTEMS) = Inr ps \<and> (\<forall>p \<in> set ps. ?fine p)"
    if "panel \<in> set STACK_PANELS" for panel by (rule result_list_all) (rule series [OF that])
  from result_list_all [of STACK_PANELS, OF this] show ?thesis by (simp add: stack_chart_def w)
qed

definition load_run :: csv_row where
  "load_run = [(''attack'', ''single''), (''system'', ''none''), (''run'', ''1''), (''attack_start'', ''1''), (''ip_pps'', ''1''),
     (''softirq_pct'', ''1''), (''attack_pps'', ''1'')]"

definition load_files :: csv_files where
  "load_files = map_of [(''d/runs.csv'', [load_run]), (''d/probe-none-single-1.csv'', [])]"

lemma load_part: "\<exists>part. system_part load_files ''d'' 4 ''single'' ''none'' [load_run] = Inr part"
proof -
  have "py_float_of_str ''1'' = Inr 1"
    using float_of_decimal [of "''1''" "[]" "''1''"] by (simp add: is_ascii_digit_def nat_of_digits_def digit_value_def)
  then show ?thesis
    by (simp add: system_part_def one_run_def load_run_def load_files_def dict_index_def float_field_def path_join_def csv_rows_def
        load_of_def med_def py_median_def ns_per_packet_def py_truediv_def)
qed

theorem stack_error_bars_witness:
  "\<exists>text spread load attacks panels. collateral load_files ''d'' 4 = Inr (text, spread, load, attacks) \<and> attacks = [''single''] \<and>
     stack_chart load attacks = Inr panels \<and>
     (\<forall>panel \<in> set panels. \<forall>(s, bars) \<in> set panel. \<forall>b \<in> set bars. 0 \<le> bar_below b \<and> 0 \<le> bar_above b)"
proof -
  obtain part where "system_part load_files ''d'' 4 ''single'' ''none'' [load_run] = Inr part" using load_part by blast
  moreover have "load_files (path_join ''d'' ''runs.csv'') = Some [load_run]" by (simp add: load_files_def path_join_def)
  moreover have "group_runs [load_run] [] = Inr [((''single'', ''none''), [load_run])]"
    by (simp add: load_run_def dict_index_def dict_set_def)
  ultimately obtain t spread load where "collateral load_files ''d'' 4 = Inr (t, spread, load, [''single''])"
    by (auto simp: collateral_def csv_rows_def ATTACKS_def attack_part_def EVAL_SYSTEMS_def dict_get_Cons)
  from this stack_error_bars [OF this] show ?thesis by blast
qed

text \<open>
  The CPU figure has no negative error bar either, for whatever rows it could be computed from.
\<close>

theorem cpu_error_bars:
  assumes "chart data = Inr panels" "(title, ticks, series) \<in> set panels" "(s, bars) \<in> set series" "b \<in> set bars"
  shows "0 \<le> bar_below b \<and> 0 \<le> bar_above b"
  using chart_member [OF assms] chart_bar_nonneg by blast

lemma demo_chart: "\<exists>b b'. chart demo_data = Inr [(''traffic from a blocked IP'', [sender_label (''block'', 2)], [(''none'', [b]), (''xdp'', [b'])])]"
proof -
  have ns: "\<exists>q. float_field (demo_run s d n) ''ns_per_pkt'' = Inr q" if "n \<in> {''100'', ''110'', ''300''}" for s d n
  proof -
    have "is_ok (py_float_of_str n)" using that by (intro float_text) (auto simp: is_ascii_digit_def)
    then show ?thesis by (auto simp: float_field_def demo_run_def dict_index_def dest: is_ok_Ex)
  qed
  have bars: "\<exists>b. chart_bar x rows = Inr b" if ne: "rows \<noteq> []" and ok: "\<And>r. r \<in> set rows \<Longrightarrow> \<exists>q. float_field r ''ns_per_pkt'' = Inr q" for x rows
  proof -
    obtain v where v: "result_list (\<lambda>r. float_field r ''ns_per_pkt'') rows = Inr v"
      using result_list_all [of rows "\<lambda>r. float_field r ''ns_per_pkt''" "\<lambda>_. True"] ok by auto
    obtain u where u: "result_list (\<lambda>r. result_map (\<lambda>ns. fl (ns / 100)) (float_field r ''ns_per_pkt'')) rows = Inr u"
      using result_list_all [of rows "\<lambda>r. result_map (\<lambda>ns. fl (ns / 100)) (float_field r ''ns_per_pkt'')" "\<lambda>_. True"] ok by fastforce
    have "v \<noteq> []" "u \<noteq> []" using result_list_nonempty [OF v] result_list_nonempty [OF u] ne by auto
    moreover from this(1) have "sort v \<noteq> []" by (metis length_0_conv length_sort)
    ultimately show ?thesis by (simp add: chart_bar_def u core_pct_def med_def v py_min_Inr py_max_Inr py_median_def Let_def)
  qed
  have points: "plot_points demo_data = [(''block'', 2)]" by code_simp
  obtain width where w: "bar_width 2 = Inr width" by (simp add: bar_width_def py_truediv_def)
  obtain b where b: "chart_bar (bar_position 2 width 0 0) [demo_run ''none'' ''0'' ''300''] = Inr b"
    using bars [of "[demo_run ''none'' ''0'' ''300'']" "bar_position 2 width 0 0"] ns [of "''300''"] by auto
  obtain b' where b': "chart_bar (bar_position 2 width 0 1) [demo_run ''xdp'' ''995'' ''100'', demo_run ''xdp'' ''995'' ''110''] = Inr b'"
    using bars [of "[demo_run ''xdp'' ''995'' ''100'', demo_run ''xdp'' ''995'' ''110'']" "bar_position 2 width 0 1"]
      ns [of "''100''" "''xdp''" "''995''"] ns [of "''110''" "''xdp''" "''995''"] by fastforce
  have "dict_get demo_data (''block'', 2) [] = [(''xdp'', [demo_run ''xdp'' ''995'' ''100'', demo_run ''xdp'' ''995'' ''110'']),
     (''none'', [demo_run ''none'' ''0'' ''300''])]" by (simp add: demo_data_def dict_get_Cons)
  then have "chart_panel demo_data ''block'' = Inr (''traffic from a blocked IP'', [sender_label (''block'', 2)], [(''none'', [b]), (''xdp'', [b'])])"
    using w b b' by (simp add: chart_panel_def points PLOT_SYSTEMS_def chart_series_def py_enumerate_def WORKLOADS_def dict_get_Cons numeral_2_eq_2)
  moreover have "filter (\<lambda>w. list_ex (\<lambda>k. fst k = w) (map fst demo_data)) (map fst WORKLOADS) = [''block'']"
    by (simp add: demo_data_def WORKLOADS_def)
  ultimately show ?thesis by (simp add: chart_def)
qed

theorem cpu_error_bars_witness:
  "\<exists>title ticks b b'. chart demo_data = Inr [(title, ticks, [(''none'', [b]), (''xdp'', [b'])])] \<and> 0 \<le> bar_below b' \<and> 0 \<le> bar_above b'"
proof -
  obtain title ticks b b' where c: "chart demo_data = Inr [(title, ticks, [(''none'', [b]), (''xdp'', [b'])])]" using demo_chart by blast
  have "0 \<le> bar_below b' \<and> 0 \<le> bar_above b'"
    by (rule cpu_error_bars [OF c, of title ticks "[(''none'', [b]), (''xdp'', [b'])]" "''xdp''" "[b']"]) simp_all
  with c show ?thesis by blast
qed

text \<open>
  C40. The detection figure puts every point where it belongs. It can be drawn exactly when every
  point is one of the attacks or normal clients that have a row, and raises \<open>KeyError\<close> otherwise. Then
  there is a dot for each point, in the row whose label is the name of its traffic, filled if the
  source was blocked in all its runs, and at its peak rate, or at one if that is less.
\<close>

theorem detection_chart_places:
  assumes "\<forall>(k, _) \<in> set points. fst k = ''attack'' \<or> fst k = ''normal''"
  shows "if list_all (\<lambda>(k, _). map_of row_names (point_key k) \<noteq> None) points
    then \<exists>labels dots marks. detection_chart points = Inr (labels, dots, marks) \<and>
      list_all2 (\<lambda>(k, peak, blocked, n) dot. dot_y dot < length labels \<and> Some (labels ! dot_y dot) = map_of row_names (point_key k) \<and>
        dot_x dot = max peak 1 \<and> dot_filled dot = (blocked = n)) points dots
    else detection_chart points = Inl KeyError"
proof -
  obtain labels ys where rows: "detection_rows points = (labels, ys)" by fastforce
  define g where "g = (\<lambda>(k, peak, blocked, n). map_option (\<lambda>name :: string. \<lparr>dot_x = max peak (1 :: rat), dot_y = the (map_of ys (point_key k)),
    dot_filled = (blocked = (n :: nat)), dot_round = (blocked = n \<or> blocked = 0)\<rparr>) (map_of row_names (point_key k)))"
  have kind: "fst k \<in> {''attack'', ''normal''}" if "(k, p) \<in> set points" for k p using assms that by fastforce
  have "detection_dot ys x = (case g x of None \<Rightarrow> Inl KeyError | Some y \<Rightarrow> Inr y)" if "x \<in> set points" for x
    using detection_dot_place(1) [OF rows _ kind] that by (cases x) (auto simp: g_def split: option.splits)
  note dots = result_list_KeyError [of points, OF this]
  have all: "list_all (\<lambda>x. g x \<noteq> None) points = list_all (\<lambda>(k, _). map_of row_names (point_key k) \<noteq> None) points"
    by (auto simp: list_all_iff g_def)
  have "dot_y (the (g (k, peak, blocked, n))) < length labels \<and>
      Some (labels ! dot_y (the (g (k, peak, blocked, n)))) = map_of row_names (point_key k) \<and>
      dot_x (the (g (k, peak, blocked, n))) = max peak 1 \<and> dot_filled (the (g (k, peak, blocked, n))) = (blocked = n)"
    if "(k, peak, blocked, n) \<in> set points" "map_of row_names (point_key k) \<noteq> None" for k peak blocked n
    using detection_dot_place(2) [OF rows that(1) kind [OF that(1)]] that(2) by (auto simp: g_def)
  then have "list_all2 (\<lambda>(k, peak, blocked, n) dot. dot_y dot < length labels \<and> Some (labels ! dot_y dot) = map_of row_names (point_key k) \<and>
        dot_x dot = max peak 1 \<and> dot_filled dot = (blocked = n)) points (map (the \<circ> g) points)"
    if "list_all (\<lambda>(k, _). map_of row_names (point_key k) \<noteq> None) points"
    using that by (auto simp: list_all2_conv_all_nth list_all_iff split: prod.splits dest!: nth_mem)
  then show ?thesis using dots all rows by (auto simp: detection_chart_def)
qed

definition demo_points :: "det_point list" where
  "demo_points = [((''attack'', ''syn_flood'', ''max''), 120000, 3, 3), ((''normal'', ''browse'', ''-''), 0, 0, 3)]"

theorem detection_chart_places_witness:
  "\<exists>labels dots marks. detection_chart demo_points = Inr (labels, dots, marks) \<and> length dots = 2 \<and>
     labels ! dot_y (dots ! 0) = ''SYN flood'' \<and> labels ! dot_y (dots ! 1) = ''page loads'' \<and> dot_x (dots ! 1) = 1 \<and> dot_filled (dots ! 0)"
proof -
  have "\<forall>(k, _) \<in> set demo_points. fst k = ''attack'' \<or> fst k = ''normal''" by (simp add: demo_points_def)
  note places = detection_chart_places [OF this]
  have names: "map_of row_names (point_key (''attack'', ''syn_flood'', ''max'')) = Some ''SYN flood''"
    "map_of row_names (point_key (''normal'', ''browse'', ''-'')) = Some ''page loads''" by code_simp+
  then have "list_all (\<lambda>(k, _). map_of row_names (point_key k) \<noteq> None) demo_points" by (simp add: demo_points_def)
  with places obtain labels dots marks where d: "detection_chart demo_points = Inr (labels, dots, marks)"
    "list_all2 (\<lambda>(k, peak, blocked, n) dot. dot_y dot < length labels \<and> Some (labels ! dot_y dot) = map_of row_names (point_key k) \<and>
      dot_x dot = max peak 1 \<and> dot_filled dot = (blocked = n)) demo_points dots" by auto
  then show ?thesis using names by (auto simp: demo_points_def list_all2_Cons1)
qed

text \<open>
  The curves of the latency figure say what their axis does. Each starts at most at one and
  ends at zero; at the last of equal response times it stands at one minus the share of the
  requests that took no longer than that.
\<close>

theorem latency_steps_share:
  assumes "sorted v" "i < length v" "Suc i = length v \<or> v ! i < v ! Suc i"
  shows "latency_steps v ! i = (v ! i, fl (1 - fl (of_nat (length (filter (\<lambda>x. x \<le> v ! i) v)) / of_nat (length v)))) \<and>
    0 \<le> snd (latency_steps v ! i) \<and> snd (latency_steps v ! i) \<le> 1 \<and> snd (last (latency_steps v)) = 0"
proof -
  have n: "0 < length v" using assms(2) by auto
  have step: "latency_steps v ! j = (v ! j, fl (1 - fl (of_nat (Suc j) / of_nat (length v))))" if "j < length v" for j
    using that by (simp add: latency_steps_def del: of_nat_Suc)
  have "fl (of_nat (Suc i) / of_nat (length v)) \<le> 1"
    using fl_mono [of "of_nat (Suc i) / of_nat (length v)" 1] assms(2) n by (simp del: of_nat_Suc)
  moreover have "0 \<le> fl (of_nat (Suc i) / of_nat (length v))" by simp
  ultimately have "0 \<le> snd (latency_steps v ! i) \<and> snd (latency_steps v ! i) \<le> 1"
    using fl_mono [of "1 - fl (of_nat (Suc i) / of_nat (length v))" 1] step [OF assms(2)] by simp
  moreover have "last (latency_steps v) = latency_steps v ! (length v - 1)" using n by (subst last_conv_nth) (auto simp: latency_steps_def)
  then have "snd (last (latency_steps v)) = 0" using step [of "length v - 1"] n by (simp del: of_nat_Suc)
  ultimately show ?thesis using step [OF assms(2)] share_at [OF assms] by simp
qed

theorem latency_steps_share_witness: "latency_steps [1, 2, 2, 4] ! 2 = (2, 1 / 4) \<and> snd (last (latency_steps [1, 2, 2, 4])) = 0"
proof -
  have "fl (1 - fl (3 / 4)) = 1 / 4" by code_simp
  with latency_steps_share [of "[1, 2, 2, 4]" 2] show ?thesis by (simp add: numeral_2_eq_2)
qed

text \<open>
  The evaluation's summary does not depend on its figures: once the tables could be computed,
  \<open>summary.txt\<close> holds the environment and the tables, whatever happens to the figures afterwards.
  Without matplotlib the program ends normally, and with it an exception can only come from a figure.
  If the tables could not be computed, nothing was written.
\<close>

theorem eval_summary_written:
  assumes "files (path_join d ''runs.csv'') \<noteq> None" "texts (path_join d ''environment.txt'') = Some env"
    and "rep = eval_main plt files texts probes [prog, d]"
  shows "case eval_body files texts probes d (py_rstrip env) of
      Inl e \<Rightarrow> rep = no_report (Raised e)
    | Inr (text, charts) \<Rightarrow> summary_file rep = Some (env_head (py_rstrip env) text @ [CHR 0x0A]) \<and>
        (case plt of None \<Rightarrow> run_ended rep = Finished
         | Some draw \<Rightarrow> \<forall>e. run_ended rep = Raised e \<longrightarrow> (\<exists>(name, fig) \<in> set charts. result_bind fig draw = Inl e))"
  using assms draw_all_keeps by (auto simp: eval_main_def finish_report_def Let_def split: sum.splits option.splits)

definition empty_files :: csv_files where
  "empty_files = map_of [(''d/runs.csv'', [])]"

definition empty_texts :: log_files where
  "empty_texts = map_of [(''d/environment.txt'', ''cpus 4'' @ [CHR 0x0A])]"

theorem eval_summary_written_witness:
  "\<exists>text. summary_file (eval_main (Some (\<lambda>fig. Inl ValueError)) empty_files empty_texts False [''eval_report.py'', ''d'']) =
     Some (env_head ''cpus 4'' text @ [CHR 0x0A])"
proof -
  have env: "py_rstrip (''cpus 4'' @ [CHR 0x0A]) = ''cpus 4''" by (simp add: py_rstrip_def is_space_def code_def)
  have "detection empty_files empty_texts ''d'' = Inr (py_join [CHR 0x0A] detection_notes, [])"
    by (simp add: detection_def csv_rows_def empty_files_def path_join_def KINDS_def kind_part_def)
  then have body: "eval_body empty_files empty_texts False ''d'' ''cpus 4'' = Inr (py_join [CHR 0x0A] detection_notes,
      [(''detection.png'', result_map DetectionFigure (detection_chart []))])" by (simp add: eval_body_def)
  have f: "empty_files (path_join ''d'' ''runs.csv'') \<noteq> None" by (simp add: empty_files_def path_join_def)
  have t: "empty_texts (path_join ''d'' ''environment.txt'') = Some (''cpus 4'' @ [CHR 0x0A])" by (simp add: empty_texts_def path_join_def)
  have "summary_file (eval_main (Some (\<lambda>fig. Inl ValueError)) empty_files empty_texts False [''eval_report.py'', ''d'']) =
      Some (env_head ''cpus 4'' (py_join [CHR 0x0A] detection_notes) @ [CHR 0x0A])"
    using eval_summary_written [of empty_files "''d''" empty_texts, OF f t refl, of "Some (\<lambda>fig. Inl ValueError)" False "''eval_report.py''"]
    unfolding env body sum.case prod.case by (rule conjunct1)
  then show ?thesis by blast
qed

end
