(* ===== verification/Spec2Isabelle.thy ===== *)
theory Spec2Isabelle
  imports Token_Bucket Xdp_State Fw_System_Live Fwctl_Cli_Words Bench_Screen Bench_Net Bench_Figures
begin

text \<open>
  Verification of an adaptive XDP/eBPF firewall. The development follows the program as it is
  written: the control plane in Python (\<open>control/\<close>), the packet program in C (\<open>bpf/\<close>), and the
  maps through which the two meet.

  \<^bold>\<open>The program.\<close> An XDP program decides every packet of an interface: it parses it, looks the
  source up in the allowlist and the blocklist, applies the port rules, updates a record per source
  and limits each source by a token bucket; it counts each decision. Its configuration, lists and
  counters are BPF maps pinned in a directory. The controller reads the counters and the per-source
  records once a second, measures each source over the interval (\<open>Window\<close>), classifies it
  (\<open>classify\<close>), blocks sources flagged in two windows (\<open>Blocker\<close>) and tightens or relaxes the rate
  limit with the load (\<open>Aggressiveness\<close>). \<open>fwctl\<close> is the operator's tool on the same maps.

  \<^bold>\<open>The theories, from the bottom up.\<close>

  \<^item> \<open>Py_Prelude\<close>, \<open>Py_Float\<close>, \<open>Py_Struct\<close>, \<open>Py_Text\<close>, \<open>Py_Ipaddress\<close>, \<open>Py_Format\<close>: what the sources
    use of Python. Exceptions are values of \<open>exn\<close>; a program over a state \<open>'w\<close> returns a result and
    the state it leaves (\<open>io\<close>), so that an exception keeps what was done before it; dictionaries are
    association lists in insertion order; \<open>float\<close> is the exact IEEE double, as the rational it
    denotes with rounding to even after each operation (\<open>fl\<close>), and \<open>pyfloat\<close> adds the infinities and
    NaN where an argument can be one of them; \<open>struct\<close> formats are lists of fields; \<open>ipaddress\<close>
    parses prefixes as the standard library does; the format specifications that the screens use
    are spelled out.
  \<^item> \<open>Aggressiveness\<close>: the class of \<open>control/policy.py\<close>, with the tier as a function of the load
    history.
  \<^item> \<open>Blocker\<close>: the class of \<open>control/policy.py\<close>. The firewall and the clocks it calls are a record of
    functions; the locale \<open>firewall_service\<close> states what the blocker relies on, and is interpreted on
    the modelled firewall in \<open>Controller\<close>.
  \<^item> \<open>Fw_Layout\<close>: the constants, formats and codecs at the top of \<open>control/firewall.py\<close> next to the
    structures of \<open>bpf/common.h\<close>.
  \<^item> \<open>Bpfmap\<close>: \<open>control/bpfmap.py\<close> over an abstract \<open>bpf\<close> system call (a record \<open>os\<close> of functions).
  \<^item> \<open>Bpf_Kernel\<close>: the locale \<open>bpf_kernel\<close>, the documented behaviour of the map commands, and the
    lemmas on \<open>BpfMap\<close> that follow from it. \<open>Ref_Kernel\<close>: an executable kernel with the maps that the
    packet program declares, which satisfies these laws.
  \<^item> \<open>Firewall\<close>: the class of \<open>control/firewall.py\<close>; the locale \<open>fw_kernel\<close> extends \<open>bpf_kernel\<close> by the
    six handles of the object. \<open>Firewall_Props\<close>: its interpretation and the properties of the methods.
  \<^item> \<open>Detect\<close>: \<open>control/detect.py\<close>.
  \<^item> \<open>Fwctl\<close>: \<open>control/fwctl.py\<close>, every subcommand with what it prints, on the pair of the terminal
    output and the world. \<open>Fwctl_Runs\<close> and \<open>Fwctl_Props\<close>: the locale \<open>cli_kernel\<close> (the program's pin,
    closing and sleeping leave the maps alone), the runs of the subcommands and their properties.
  \<^item> \<open>Py_Argparse\<close>, \<open>Py_Argparse_Props\<close>: the part of \<open>argparse\<close> that the two programs use, as of Python 3.11:
    actions and parsers, which strings are options (abbreviations, joined values, negative numbers),
    the matching of positional arguments, the loop that takes both in turn, and sub-commands.
    \<open>Fwctl_Cli\<close>: the parsers of \<open>fwctl\<close> and of the controller, and the arguments that the handlers read
    from the namespace. \<open>Fwctl_Cli_Props\<close>, \<open>Fwctl_Cli_Words\<close>: what every command line leads to, and how each
    command is typed.
  \<^item> \<open>Controller\<close>: \<open>control/controller.py\<close>, with the screen it draws; the locale \<open>ctl_kernel\<close> adds the
    clocks of the \<open>time\<close> module, and \<open>pinned_kernel\<close> that opening the pins gives the handles of the maps.
  \<^item> \<open>Xdp\<close>: \<open>xdp_firewall\<close> of \<open>bpf/firewall.bpf.c\<close> on one packet and one CPU, stage by stage in the
    order of the code, on the maps of the reference kernel and with 64-bit words that wrap.
    \<open>Token_Bucket\<close>: the limiter over a sequence of packets. \<open>Xdp_Props\<close>, \<open>Xdp_State\<close>: the packet
    program and the control plane on the same maps.
  \<^item> \<open>Fw_System\<close>, \<open>Fw_System_Props\<close>, \<open>Fw_System_Live\<close>: the whole system on one kernel, as a step relation. An event is a
    packet with any bytes on a CPU, time that passes, a command of the operator, or a controller that
    starts, does one turn (reads, decides, blocks, tunes, draws) or is gone; events come in any order
    and each is atomic. The laws of \<open>ctl_kernel\<close> are interpreted once more, on the kernels that came
    after a given moment, so that the lemmas on the controller hold along a run. The locale
    \<open>blocklist_invariant\<close> has what every operation does to the blocklist as its laws and gives that
    every event keeps such a condition; it is interpreted for the condition that blocks end and for
    the condition that a given source is blocked until a given time.
  \<^item> \<open>Py_Stats\<close>, \<open>Bench_Plot\<close>, \<open>Bench_Eval\<close>: \<open>float\<close> of a text and \<open>statistics.median\<close>, and the
    reports \<open>bench/plot.py\<close> and \<open>bench/eval_report.py\<close>: grouping, checks, percentiles, the reading of
    the controller's log, and the tables as text. \<open>Bench_Figures\<close>: the data of their figures and their
    main programs. \<open>Bench_Screen\<close>: the controller's screen and the report that reads it.
  \<^item> \<open>Bench_Clients\<close>: of \<open>bench/clients.py\<close>, the schedule \<open>every\<close>, the rows of the probe, the pacing of the
    UDP client, and the watcher that records the blocklist for the report. \<open>Bench_Net\<close>: the clients that
    use sockets, over a record \<open>net\<close> of functions for the operating system and the HTTP exchange; the
    locale \<open>network\<close> states what they rely on and is interpreted on a reference network; and \<open>main\<close>.

  \<^bold>\<open>What is shown.\<close> Each property follows a text block that states it; they are numbered over
  the whole development.

  \<^item> The whole system, in every state that any sequence of events can reach: the maps keep their types
    and no query of the control plane fails; without changes by the operator the rules stay what they
    are and an allowlisted source keeps passing; the controller's blocks are for single addresses and
    end within fifteen minutes; a source that goes on attacking is dropped for a minute from the turn
    that flags it the second time.
  \<^item> The controller: however long it runs, the controller leaves the operator's lists, rules, stages
    and policy alone; a step blocks only sources that it flags, that had a strike before and that are not
    allowlisted; with \<open>--dry-run\<close> the program writes nothing but the prefixes given with \<open>--allow\<close>.
  \<^item> The packet program: every packet is counted once, under the verdict it gets; an allowlisted
    source always passes; the program and the control plane agree on who is blocked, on the
    settings, on port rules and on the bytes of the per-source records; an expired block of a host
    opens it for every wider block, until the clean-up. The bucket's rate is bounded
    and a source that keeps to its rate is never limited.
  \<^item> The policy classes: the books of the blocker stay consistent and change for a source only by a block
    that was due, with the end that its offences ask for; the tier follows from the load history alone;
    and both are live (a second strike blocks, quiet windows bring the tier down).
  \<^item> The detector: rounding never gets a source flagged, and \<open>update\<close> raises exactly on a division by zero
    that is characterised.
  \<^item> The map layer: the formats of the control plane put every field where the C structures have it; whole maps are read completely with and without batches; prefixes, rules and
    settings round-trip through their encodings; clean-up removes exactly what is due.
  \<^item> The operator's commands: which maps each may change, what \<open>config set\<close> refuses, what \<open>reset\<close>
    restores, what \<open>selftest\<close> leaves behind, and that two processes that change the settings at once
    lose an update.
  \<^item> The command lines: whatever is typed, a program stops with a usage message or its handler finds all
    the attributes that it reads; every command can be typed and is read back as it was meant.
  \<^item> The benchmark: the checks say ok exactly when the numbers in the rows say so; the report reads back from the
    controller's screen the rate, the dropped share and the reason that the controller put there, and
    from the watcher's file when a source was first blocked; a figure never gets an error bar of
    negative length and puts each dot into the row of its traffic; the summary does not depend on the
    figures; the schedule of the clients ends; the clients close every connection and leave
    open only sockets whose setting up raised, and each request of the probe is logged unless its
    response is cut off.

  \<^bold>\<open>Assumptions.\<close> The laws of \<open>bpf_kernel\<close> describe a map that nobody else changes during one
  call of the control plane; concurrency is made explicit where it is the subject (the lost update).
  They say nothing on when an update of a new key succeeds, since a map may be full; the properties
  cover both outcomes. The reference kernel satisfies all laws, so none of the hypotheses is empty.

  \<^bold>\<open>Bounds.\<close> The loop of \<open>keys\<close> gives up after \<open>WALK_LIMIT\<close> = 2 to the 20th keys, as in the code.
  The batched read has \<open>os_fuel\<close> turns; every successful turn delivers at least one entry, so more
  turns than entries are enough, which \<open>size_bound\<close> of \<open>fw_kernel\<close> states and the reference kernel
  proves (its largest map has 32768 entries, its fuel is 40000). The loops that a signal ends, of
  \<open>Controller.run\<close> and of \<open>top --watch\<close>, take their number of turns as an argument, and what is shown
  of them holds for every number. The loop of \<open>every\<close> has fuel; if the duration is at most \<open>n\<close>
  intervals, \<open>n + 1\<close> turns are shown to be enough. The watcher's loop takes the most rows it may write. The loops of \<open>download\<close> and \<open>upload\<close> have fuel, and
  what is shown of their sockets holds for every fuel; if each reading of the clock is \<open>d\<close> later, \<open>n + 1\<close>
  turns are enough for a download of \<open>n\<close> times \<open>d\<close>.

  \<^bold>\<open>Not modelled.\<close> The texts of \<open>argparse\<close>: help and usage errors are exit codes. \<open>src/loader.c\<close>, which only
  calls libbpf: the state it leaves is the boot state of the reference kernel. Several CPUs inside one
  packet: the lock of the per-source record makes its part atomic and the counters are per CPU or
  atomic additions; between the events of the system nothing interleaves. Of \<open>bench/clients.py\<close> the
  servers of \<open>serve\<close>, which hand each request to the standard library, and how the threads of a client
  interleave: each thread is the program it runs and its start. matplotlib, which is an argument of
  the main programs of the reports, and the colours and the layout handed to it; the file system and
  the \<open>csv\<close> module: files are functions from paths to rows or texts. The shell scripts.

  \<^bold>\<open>What the modelling showed.\<close> An expired block of one address hides a live block of its network
  until the next clean-up; a source whose record was recreated can stop the controller with a
  division by zero; the self-test changes rules that it means to leave as they were; the settings
  can lose an update when both programs run; \<open>--dry-run\<close> writes the prefixes of \<open>--allow\<close>; the probe
  does not log a request whose response is cut off; \<open>sock\<close> of the clients leaves a socket open that cannot
  be bound; and the refill of the bucket can overflow for
  rates that the settings can hold but \<open>fwctl\<close> refuses.
\<close>

end
